(* ===== verification/Ferro_Prelude.thy ===== *)
theory Ferro_Prelude
  imports Main "HOL-Library.Word" "HOL-Library.Sublist"
begin

text \<open>
  Shared vocabulary of the development: the part of Rust's standard library that the modelled
  crates use, and the generic lemmas on it.

  A Rust \<open>&str\<close> or \<open>&[u8]\<close> is a \<^typ>\<open>string\<close>, that is, a list of 8-bit \<^typ>\<open>char\<close>s: the UTF-8
  bytes. Positions are byte offsets, as in the source. \<open>xs[i..j]\<close> is \<open>slice\<close>, \<open>bytes.get(i)\<close> is
  \<open>byte_at\<close>, and the ASCII predicates are those of \<open>u8\<close>. \<open>char_end\<close> is the boundary walk that
  several crates repeat (\<open>is_char_boundary\<close> is true at 0, at the end, and wherever the byte is not
  a UTF-8 continuation byte). \<open>str::trim\<close> removes Unicode \<open>White_Space\<close>, whose code points are
  recognised here by their UTF-8 bytes.
\<close>

named_theorems ferro_byte \<open>definitions of the byte predicates\<close>
named_theorems ferro_str \<open>lemmas on byte-string operations\<close>

subsection \<open>Bytes\<close>

definition byte :: "char \<Rightarrow> nat" where
  "byte c = of_char c"

definition is_ascii_digit :: "char \<Rightarrow> bool" where
  [ferro_byte]: "is_ascii_digit c \<longleftrightarrow> 48 \<le> byte c \<and> byte c \<le> 57"

definition is_ascii_uppercase :: "char \<Rightarrow> bool" where
  [ferro_byte]: "is_ascii_uppercase c \<longleftrightarrow> 65 \<le> byte c \<and> byte c \<le> 90"

definition is_ascii_lowercase :: "char \<Rightarrow> bool" where
  [ferro_byte]: "is_ascii_lowercase c \<longleftrightarrow> 97 \<le> byte c \<and> byte c \<le> 122"

definition is_ascii_alphabetic :: "char \<Rightarrow> bool" where
  [ferro_byte]: "is_ascii_alphabetic c \<longleftrightarrow> is_ascii_uppercase c \<or> is_ascii_lowercase c"

definition is_ascii_alphanumeric :: "char \<Rightarrow> bool" where
  [ferro_byte]: "is_ascii_alphanumeric c \<longleftrightarrow> is_ascii_alphabetic c \<or> is_ascii_digit c"

text \<open>\<open>u8::is_ascii_whitespace\<close>: space, tab, line feed, form feed, carriage return.\<close>

definition is_ascii_whitespace :: "char \<Rightarrow> bool" where
  [ferro_byte]: "is_ascii_whitespace c \<longleftrightarrow> byte c \<in> {9, 10, 12, 13, 32}"

definition to_upper :: "char \<Rightarrow> char" where
  "to_upper c = (if is_ascii_lowercase c then char_of (byte c - 32) else c)"

definition to_lower :: "char \<Rightarrow> char" where
  "to_lower c = (if is_ascii_uppercase c then char_of (byte c + 32) else c)"

definition to_ascii_uppercase :: "string \<Rightarrow> string" where
  "to_ascii_uppercase = map to_upper"

definition to_ascii_lowercase :: "string \<Rightarrow> string" where
  "to_ascii_lowercase = map to_lower"

lemma byte_lt_256 [simp]: "byte c < 256"
proof -
  have "byte (char_of (byte c)) = byte c mod 256"
    by (simp add: byte_def)
  then show ?thesis
    by (simp add: byte_def)
qed

lemma byte_eq_iff: "byte c = byte d \<longleftrightarrow> c = d"
  by (simp add: byte_def)

lemma byte_char_of [simp]: "n < 256 \<Longrightarrow> byte (char_of n) = n"
  by (simp add: byte_def)

lemma length_to_ascii_uppercase [simp]: "length (to_ascii_uppercase s) = length s"
  by (simp add: to_ascii_uppercase_def)

lemma length_to_ascii_lowercase [simp]: "length (to_ascii_lowercase s) = length s"
  by (simp add: to_ascii_lowercase_def)

lemma byte_to_lower: "byte (to_lower c) = (if is_ascii_uppercase c then byte c + 32 else byte c)"
  by (simp add: to_lower_def is_ascii_uppercase_def)

lemma to_lower_eq_iff: "\<not> is_ascii_alphabetic d \<Longrightarrow> to_lower c = d \<longleftrightarrow> c = d"
proof -
  assume "\<not> is_ascii_alphabetic d"
  then have "byte (to_lower c) = byte d \<longleftrightarrow> byte c = byte d"
    by (auto simp: byte_to_lower ferro_byte)
  then show ?thesis by (simp add: byte_eq_iff)
qed

lemma is_ascii_alphanumeric_to_lower [simp]:
  "is_ascii_alphanumeric (to_lower c) \<longleftrightarrow> is_ascii_alphanumeric c"
  by (auto simp: ferro_byte byte_to_lower)

subsection \<open>Slices and positions\<close>

definition byte_at :: "'a list \<Rightarrow> nat \<Rightarrow> 'a option" where
  "byte_at s i = (if i < length s then Some (s ! i) else None)"

definition slice :: "'a list \<Rightarrow> nat \<Rightarrow> nat \<Rightarrow> 'a list" where
  "slice s i j = take (j - i) (drop i s)"

lemma byte_at_Some [simp]: "byte_at s i = Some c \<longleftrightarrow> i < length s \<and> s ! i = c"
  by (auto simp: byte_at_def)

lemma length_slice: "i \<le> j \<Longrightarrow> j \<le> length s \<Longrightarrow> length (slice s i j) = j - i"
  by (simp add: slice_def)

lemma nth_slice: "k < j - i \<Longrightarrow> j \<le> length s \<Longrightarrow> slice s i j ! k = s ! (i + k)"
  by (simp add: slice_def)

lemma slice_append_slice: "i \<le> j \<Longrightarrow> j \<le> k \<Longrightarrow> slice s i j @ slice s j k = slice s i k"
proof -
  assume "i \<le> j" "j \<le> k"
  then have "take (j - i) (drop i s) @ take (k - j) (drop (j - i) (drop i s)) =
      take ((j - i) + (k - j)) (drop i s)"
    by (simp only: take_add)
  with \<open>i \<le> j\<close> \<open>j \<le> k\<close> show ?thesis
    by (simp add: slice_def)
qed

lemma slice_full [simp]: "slice s 0 (length s) = s"
  by (simp add: slice_def)

lemma slice_empty [simp]: "slice s i i = []"
  by (simp add: slice_def)

subsection \<open>UTF-8 boundaries\<close>

definition is_cont_byte :: "char \<Rightarrow> bool" where
  [ferro_byte]: "is_cont_byte c \<longleftrightarrow> 128 \<le> byte c \<and> byte c < 192"

definition is_char_boundary :: "string \<Rightarrow> nat \<Rightarrow> bool" where
  "is_char_boundary s i \<longleftrightarrow> i = 0 \<or> i = length s \<or> (i < length s \<and> \<not> is_cont_byte (s ! i))"

function char_end_from :: "string \<Rightarrow> nat \<Rightarrow> nat" where
  "char_end_from s e =
     (if e < length s \<and> \<not> is_char_boundary s e then char_end_from s (e + 1) else e)"
  by pat_completeness auto
termination
  by (relation "measure (\<lambda>(s, e). length s - e)") auto

definition char_end :: "string \<Rightarrow> nat \<Rightarrow> nat" where
  "char_end s start = char_end_from s (start + 1)"

declare char_end_from.simps [simp del]

lemma char_end_from_bounds: "e \<le> length s \<Longrightarrow> e \<le> char_end_from s e \<and> char_end_from s e \<le> length s"
proof (induction s e rule: char_end_from.induct)
  case (1 s e)
  show ?case
  proof (cases "e < length s \<and> \<not> is_char_boundary s e")
    case True
    with "1.IH" have "e + 1 \<le> char_end_from s (e + 1) \<and> char_end_from s (e + 1) \<le> length s"
      by simp
    with True show ?thesis by (simp add: char_end_from.simps [of s e])
  next
    case False
    with "1.prems" show ?thesis by (auto simp: char_end_from.simps [of s e])
  qed
qed

lemma char_end_from_boundary: "e \<le> length s \<Longrightarrow> is_char_boundary s (char_end_from s e)"
proof (induction s e rule: char_end_from.induct)
  case (1 s e)
  show ?case
  proof (cases "e < length s \<and> \<not> is_char_boundary s e")
    case True
    with "1.IH" show ?thesis by (simp add: char_end_from.simps [of s e])
  next
    case False
    with "1.prems" have "is_char_boundary s e"
      by (auto simp: is_char_boundary_def)
    with False show ?thesis by (simp add: char_end_from.simps [of s e])
  qed
qed

lemma char_end_gt: "i < length s \<Longrightarrow> i < char_end s i"
  using char_end_from_bounds [of "i + 1" s] by (simp add: char_end_def)

lemma char_end_le: "i < length s \<Longrightarrow> char_end s i \<le> length s"
  using char_end_from_bounds [of "i + 1" s] by (simp add: char_end_def)

lemma char_end_boundary: "i < length s \<Longrightarrow> is_char_boundary s (char_end s i)"
  by (simp add: char_end_def char_end_from_boundary)

lemma char_end_ge_Suc: "Suc i \<le> char_end s i"
proof -
  have "e \<le> char_end_from s e" for e
  proof (induction s e rule: char_end_from.induct)
    case (1 s e)
    then show ?case
      by (cases "e < length s \<and> \<not> is_char_boundary s e")
         (auto simp: char_end_from.simps [of s e])
  qed
  from this [of "Suc i"] show ?thesis by (simp add: char_end_def)
qed

text \<open>The bytes a boundary walk steps over after the first are continuation bytes.\<close>

lemma char_end_from_cont:
  "e \<le> k \<Longrightarrow> k < char_end_from s e \<Longrightarrow> k < length s \<Longrightarrow> is_cont_byte (s ! k)"
proof (induction s e rule: char_end_from.induct)
  case (1 s e)
  show ?case
  proof (cases "e < length s \<and> \<not> is_char_boundary s e")
    case True
    then have "is_cont_byte (s ! e)" by (auto simp: is_char_boundary_def)
    moreover have "k < char_end_from s (e + 1)"
      using "1.prems"(2) True by (simp add: char_end_from.simps [of s e])
    ultimately show ?thesis
      using "1.IH" [OF True] "1.prems" by (cases "k = e") auto
  next
    case False
    with "1.prems" show ?thesis by (simp add: char_end_from.simps [of s e])
  qed
qed

lemma char_end_cont: "i < k \<Longrightarrow> k < char_end s i \<Longrightarrow> k < length s \<Longrightarrow> is_cont_byte (s ! k)"
  using char_end_from_cont [of "i + 1" k s] by (simp add: char_end_def)

lemmas char_end_bounds = char_end_gt char_end_le char_end_boundary

subsection \<open>Searching\<close>

fun find_sub :: "string \<Rightarrow> string \<Rightarrow> nat option" where
  "find_sub pat [] = (if pat = [] then Some 0 else None)"
| "find_sub pat (x # xs) =
     (if prefix pat (x # xs) then Some 0 else map_option Suc (find_sub pat xs))"

fun find_pred :: "('a \<Rightarrow> bool) \<Rightarrow> 'a list \<Rightarrow> nat option" where
  "find_pred p [] = None"
| "find_pred p (x # xs) = (if p x then Some 0 else map_option Suc (find_pred p xs))"

definition strip_prefix :: "string \<Rightarrow> string \<Rightarrow> string option" where
  "strip_prefix pat s = (if prefix pat s then Some (drop (length pat) s) else None)"

lemma find_sub_SomeD: "find_sub pat s = Some i \<Longrightarrow> i + length pat \<le> length s \<and> prefix pat (drop i s)"
  by (induction pat s arbitrary: i rule: find_sub.induct)
     (auto split: if_splits dest: prefix_length_le)

lemma find_sub_least: "find_sub pat s = Some i \<Longrightarrow> j < i \<Longrightarrow> \<not> prefix pat (drop j s)"
proof (induction pat s arbitrary: i j rule: find_sub.induct)
  case (1 pat)
  then show ?case by (auto split: if_splits)
next
  case (2 pat x xs)
  then show ?case by (cases j) (auto split: if_splits)
qed

lemma find_pred_SomeD:
  "find_pred p s = Some i \<Longrightarrow> i < length s \<and> p (s ! i) \<and> (\<forall>j<i. \<not> p (s ! j))"
proof (induction s arbitrary: i)
  case Nil
  then show ?case by simp
next
  case (Cons x xs)
  then show ?case
    by (auto split: if_splits simp: less_Suc_eq_0_disj)
qed

lemma find_pred_None [simp]: "find_pred p s = None \<longleftrightarrow> (\<forall>x\<in>set s. \<not> p x)"
  by (induction s) auto

subsection \<open>Trimming\<close>

text \<open>
  \<open>ws_len s\<close> is the number of bytes of the White\_Space character that starts \<open>s\<close>, 0 if none
  does: U+0009 to U+000D, U+0020, U+0085, U+00A0, U+1680, U+2000 to U+200A, U+2028, U+2029,
  U+202F, U+205F and U+3000. \<open>ws_len_rev\<close> reads the same encodings backwards, for the end of a
  string.
\<close>

fun ws3 :: "nat \<Rightarrow> nat \<Rightarrow> nat \<Rightarrow> bool" where
  "ws3 a b c =
     ((a = 225 \<and> b = 154 \<and> c = 128) \<or>
      (a = 226 \<and> b = 128 \<and> ((128 \<le> c \<and> c \<le> 138) \<or> c \<in> {168, 169, 175})) \<or>
      (a = 226 \<and> b = 129 \<and> c = 159) \<or>
      (a = 227 \<and> b = 128 \<and> c = 128))"

fun ws1 :: "nat \<Rightarrow> bool" where
  "ws1 a = ((9 \<le> a \<and> a \<le> 13) \<or> a = 32)"

fun ws2 :: "nat \<Rightarrow> nat \<Rightarrow> bool" where
  "ws2 a b = (a = 194 \<and> (b = 133 \<or> b = 160))"

fun ws_len :: "string \<Rightarrow> nat" where
  "ws_len (a # b # c # _) =
     (if ws1 (byte a) then 1 else if ws2 (byte a) (byte b) then 2
      else if ws3 (byte a) (byte b) (byte c) then 3 else 0)"
| "ws_len (a # b # _) = (if ws1 (byte a) then 1 else if ws2 (byte a) (byte b) then 2 else 0)"
| "ws_len (a # _) = (if ws1 (byte a) then 1 else 0)"
| "ws_len [] = 0"

fun ws_len_rev :: "string \<Rightarrow> nat" where
  "ws_len_rev (c # b # a # _) =
     (if ws1 (byte c) then 1 else if ws2 (byte b) (byte c) then 2
      else if ws3 (byte a) (byte b) (byte c) then 3 else 0)"
| "ws_len_rev (b # a # _) = (if ws1 (byte b) then 1 else if ws2 (byte a) (byte b) then 2 else 0)"
| "ws_len_rev (a # _) = (if ws1 (byte a) then 1 else 0)"
| "ws_len_rev [] = 0"

lemma ws_len_le: "ws_len s \<le> length s"
  by (cases s rule: ws_len.cases) auto

lemma ws_len_rev_le: "ws_len_rev s \<le> length s"
  by (cases s rule: ws_len_rev.cases) auto

function trim_with :: "(string \<Rightarrow> nat) \<Rightarrow> string \<Rightarrow> string" where
  "trim_with f s = (if f s = 0 \<or> s = [] then s else trim_with f (drop (f s) s))"
  by pat_completeness auto
termination
  by (relation "measure (\<lambda>(f, s). length s)") auto

declare trim_with.simps [simp del]

definition trim_start :: "string \<Rightarrow> string" where
  "trim_start s = trim_with ws_len s"

definition trim_end :: "string \<Rightarrow> string" where
  "trim_end s = rev (trim_with ws_len_rev (rev s))"

definition trim :: "string \<Rightarrow> string" where
  "trim s = trim_end (trim_start s)"

lemma trim_with_suffix: "suffix (trim_with f s) s"
proof (induction f s rule: trim_with.induct)
  case (1 f s)
  show ?case
  proof (cases "f s = 0 \<or> s = []")
    case True
    then show ?thesis by (simp add: trim_with.simps [of f s])
  next
    case False
    with "1.IH" have "suffix (trim_with f (drop (f s) s)) s"
      by (blast intro: suffix_order.trans suffix_drop)
    with False show ?thesis by (simp add: trim_with.simps [of f s])
  qed
qed

lemma trim_with_stop: "f (trim_with f s) = 0 \<or> trim_with f s = []"
proof (induction f s rule: trim_with.induct)
  case (1 f s)
  then show ?case
    by (cases "f s = 0 \<or> s = []") (simp_all add: trim_with.simps [of f s])
qed

lemma trim_start_suffix: "suffix (trim_start s) s"
  by (simp add: trim_start_def trim_with_suffix)

lemma trim_end_prefix: "prefix (trim_end s) s"
  using trim_with_suffix [of ws_len_rev "rev s"]
  by (simp add: trim_end_def suffix_to_prefix)

lemma length_trim_start: "length (trim_start s) \<le> length s"
  by (simp add: suffix_length_le trim_start_suffix)

lemma trim_sublist: "sublist (trim s) s"
  unfolding trim_def
  by (meson prefix_imp_sublist suffix_imp_sublist sublist_order.order_trans trim_end_prefix
      trim_start_suffix)

subsection \<open>Lists\<close>

lemma nth_append_left: "k < length xs \<Longrightarrow> (xs @ ys) ! k = xs ! k"
  by (simp add: nth_append)

lemma nth_append_right: "length xs \<le> k \<Longrightarrow> (xs @ ys) ! k = ys ! (k - length xs)"
  by (simp add: nth_append)

subsection \<open>Loops with a variant\<close>

text \<open>
  The scanners of this program are \<open>while\<close> loops over a state record. The locale is the interface
  between such a loop and the proofs about it: \<open>run\<close> unfolds to \<open>step\<close> while \<open>guard\<close> holds, and
  the variant \<open>mu\<close> decreases, so an invariant kept by the step is an invariant of the loop and the
  loop ends in a state where the guard fails.
\<close>

locale variant_loop =
  fixes guard :: "'s \<Rightarrow> bool"
    and mu :: "'s \<Rightarrow> nat"
    and step :: "'s \<Rightarrow> 's"
    and run :: "'s \<Rightarrow> 's"
  assumes variant: "guard st \<Longrightarrow> mu (step st) < mu st"
    and run_unfold: "run st = (if guard st then run (step st) else st)"
begin

lemma run_done: "\<not> guard st \<Longrightarrow> run st = st"
  by (simp add: run_unfold [of st])

lemma run_step: "guard st \<Longrightarrow> run st = run (step st)"
  by (simp add: run_unfold [of st])

lemma run_induct:
  assumes stop: "\<And>st. \<not> guard st \<Longrightarrow> P st"
    and step: "\<And>st. guard st \<Longrightarrow> P (step st) \<Longrightarrow> P st"
  shows "P st"
proof (induction "mu st" arbitrary: st rule: less_induct)
  case less
  show ?case
  proof (cases "guard st")
    case True
    then have "P (step st)" by (intro less variant)
    with True show ?thesis by (rule step)
  next
    case False
    then show ?thesis by (rule stop)
  qed
qed

lemma run_invariant:
  assumes "\<And>st. I st \<Longrightarrow> guard st \<Longrightarrow> I (step st)"
  shows "I st \<Longrightarrow> I (run st)"
proof (induction st rule: run_induct)
  case (1 st)
  then show ?case by (simp add: run_done)
next
  case (2 st)
  then show ?case using assms by (simp add: run_step)
qed

lemma run_exit: "\<not> guard (run st)"
proof (induction st rule: run_induct)
  case (1 st)
  then show ?case by (simp add: run_done)
next
  case (2 st)
  then show ?case by (simp add: run_step)
qed

lemma run_correct:
  assumes "\<And>st. I st \<Longrightarrow> guard st \<Longrightarrow> I (step st)" and "I st"
    and "\<And>st. I st \<Longrightarrow> \<not> guard st \<Longrightarrow> Q st"
  shows "Q (run st)"
  using run_invariant [of I st] run_exit [of st] assms by blast

end

end
