(* ===== verification/Scan.thy ===== *)
theory Scan
  imports Ferro_Prelude
begin

text \<open>
  The region-tracking scanner of the assist lexer (\<open>engine/crates/ferro-classify/src/scan.rs\<close>).

  \<open>region\<close> and \<open>hidden\<close> are the source's enums, \<open>scan_state\<close> holds the local variables of the
  \<open>scan\<close> loop, \<open>scan_step\<close> is one iteration of its body (one function per region arm) and
  \<open>scan_loop\<close> the \<open>while\<close>. The derived readers (\<open>strip_leading_noise\<close>, \<open>leading_keyword\<close>,
  \<open>next_token_after_keyword\<close>, \<open>contains_identifier_ci\<close>, \<open>split_top_level_statements\<close>) follow.
  The comment depth, a \<open>u32\<close> in the source, is a \<^typ>\<open>nat\<close> here; \<open>scan_depth_bound\<close> shows that it
  never exceeds half the input length.
\<close>

subsection \<open>Data\<close>

datatype region =
    Code
  | DoubleQuote
  | SingleQuote bool
  | LineComment
  | BlockComment nat
  | DollarQuote

datatype hidden = Literal | Comment

type_synonym span = "nat \<times> nat \<times> hidden"

record scan_state =
  sc_i :: nat
  sc_region :: region
  sc_tag :: string
  sc_in_ident :: bool
  sc_masked :: string
  sc_semicolons :: "nat list"
  sc_hidden :: "span list"
  sc_open :: "(nat \<times> hidden) option"

record scan_result =
  masked :: string
  semicolons :: "nat list"
  hidden_of :: "span list"

subsection \<open>Byte classes\<close>

definition is_dolq_cont :: "char \<Rightarrow> bool" where
  [ferro_byte]: "is_dolq_cont b \<longleftrightarrow> is_ascii_alphanumeric b \<or> b = CHR ''_'' \<or> 128 \<le> byte b"

definition is_pg_ident_start :: "char \<Rightarrow> bool" where
  "is_pg_ident_start b \<longleftrightarrow> is_ascii_alphabetic b \<or> b = CHR ''_'' \<or> 128 \<le> byte b"

definition is_pg_ident_cont :: "char \<Rightarrow> bool" where
  "is_pg_ident_cont b \<longleftrightarrow> is_dolq_cont b \<or> b = CHR ''$''"

definition is_ident_char_byte :: "char \<Rightarrow> bool" where
  "is_ident_char_byte b \<longleftrightarrow> is_ascii_alphanumeric b \<or> b = CHR ''_''"

abbreviation sq :: char where "sq \<equiv> CHR 0x27"
abbreviation dq :: char where "dq \<equiv> CHR 0x22"
abbreviation backslash :: char where "backslash \<equiv> CHR 0x5C"
abbreviation newline :: char where "newline \<equiv> CHR 0x0A"

subsection \<open>Opening delimiters\<close>

definition is_e_string_prefix :: "string \<Rightarrow> nat \<Rightarrow> bool" where
  "is_e_string_prefix sql quote_pos =
     (if quote_pos = 0 then False
      else let e_pos = quote_pos - 1 in
        if sql ! e_pos \<noteq> CHR ''E'' \<and> sql ! e_pos \<noteq> CHR ''e'' then False
        else if e_pos = 0 then True
        else \<not> is_ident_char_byte (sql ! (e_pos - 1)))"

function dolq_end :: "string \<Rightarrow> nat \<Rightarrow> nat" where
  "dolq_end sql j = (if j < length sql \<and> is_dolq_cont (sql ! j) then dolq_end sql (j + 1) else j)"
  by pat_completeness auto
termination
  by (relation "measure (\<lambda>(s, j). length s - j)") auto

declare dolq_end.simps [simp del]

definition dollar_quote_tag :: "string \<Rightarrow> nat \<Rightarrow> (string \<times> nat) option" where
  "dollar_quote_tag sql start =
     (if start + 1 < length sql \<and> is_ascii_digit (sql ! (start + 1)) then None
      else let j = dolq_end sql (start + 1) in
        if j < length sql \<and> sql ! j = CHR ''$'' then Some (slice sql start (j + 1), j + 1)
        else None)"

subsection \<open>One iteration\<close>

definition close_hidden :: "nat \<Rightarrow> scan_state \<Rightarrow> scan_state" where
  "close_hidden e st =
     (case sc_open st of
        None \<Rightarrow> st
      | Some (start, kind) \<Rightarrow> st\<lparr>sc_hidden := sc_hidden st @ [(start, e, kind)], sc_open := None\<rparr>)"

definition push_visible_char :: "string \<Rightarrow> scan_state \<Rightarrow> scan_state" where
  "push_visible_char sql st =
     (let e = char_end sql (sc_i st)
      in st\<lparr>sc_masked := sc_masked st @ slice sql (sc_i st) e, sc_i := e\<rparr>)"

definition push_hidden_char :: "string \<Rightarrow> scan_state \<Rightarrow> scan_state" where
  "push_hidden_char sql st =
     (let e = char_end sql (sc_i st)
      in st\<lparr>sc_masked := sc_masked st @ replicate (e - sc_i st) CHR '' '', sc_i := e\<rparr>)"

function push_hidden_until :: "string \<Rightarrow> nat \<Rightarrow> scan_state \<Rightarrow> scan_state" where
  "push_hidden_until sql e st =
     (if sc_i st < e then push_hidden_until sql e (push_hidden_char sql st) else st)"
  by pat_completeness auto
termination
proof (relation "measure (\<lambda>(sql, e, st). e - sc_i st)")
  fix sql :: string and e :: nat and st :: scan_state
  assume "sc_i st < e"
  moreover have "sc_i st < char_end sql (sc_i st)"
    using char_end_ge_Suc [of "sc_i st" sql] by simp
  ultimately show "((sql, e, push_hidden_char sql st), sql, e, st)
      \<in> measure (\<lambda>(sql, e, st). e - sc_i st)"
    by (simp add: push_hidden_char_def Let_def)
qed simp

declare push_hidden_until.simps [simp del]

definition scan_code :: "string \<Rightarrow> scan_state \<Rightarrow> scan_state" where
  "scan_code sql st =
     (let i = sc_i st; c = sql ! i in
      if c = sq then
        let e_string = is_e_string_prefix sql i;
            st1 = st\<lparr>sc_open := Some (if e_string then i - 1 else i, Literal)\<rparr>
        in (push_hidden_char sql st1)\<lparr>sc_region := SingleQuote e_string\<rparr>
      else if c = dq then (push_visible_char sql st)\<lparr>sc_region := DoubleQuote\<rparr>
      else if c = CHR ''-'' \<and> byte_at sql (i + 1) = Some CHR ''-'' then
        (push_hidden_char sql (push_hidden_char sql (st\<lparr>sc_open := Some (i, Comment)\<rparr>)))
          \<lparr>sc_region := LineComment\<rparr>
      else if c = CHR ''/'' \<and> byte_at sql (i + 1) = Some CHR ''*'' then
        (push_hidden_char sql (push_hidden_char sql (st\<lparr>sc_open := Some (i, Comment)\<rparr>)))
          \<lparr>sc_region := BlockComment 1\<rparr>
      else if c = CHR ''$'' then
        (case dollar_quote_tag sql i of
           Some (tag, tag_end) \<Rightarrow>
             (push_hidden_until sql tag_end (st\<lparr>sc_open := Some (i, Literal)\<rparr>))
               \<lparr>sc_tag := tag, sc_region := DollarQuote\<rparr>
         | None \<Rightarrow> push_visible_char sql st)
      else if c = CHR '';'' then
        push_visible_char sql (st\<lparr>sc_semicolons := sc_semicolons st @ [i]\<rparr>)
      else push_visible_char sql st)"

definition scan_double_quote :: "string \<Rightarrow> scan_state \<Rightarrow> scan_state" where
  "scan_double_quote sql st =
     (let i = sc_i st; c = sql ! i in
      if c = dq \<and> byte_at sql (i + 1) = Some dq
      then push_visible_char sql (push_visible_char sql st)
      else if c = dq then (push_visible_char sql st)\<lparr>sc_region := Code\<rparr>
      else push_visible_char sql st)"

definition scan_single_quote :: "string \<Rightarrow> bool \<Rightarrow> scan_state \<Rightarrow> scan_state" where
  "scan_single_quote sql e_string st =
     (let i = sc_i st; c = sql ! i in
      if c = backslash \<and> e_string \<and> byte_at sql (i + 1) = Some sq
      then push_hidden_char sql (push_hidden_char sql st)
      else if c = sq \<and> byte_at sql (i + 1) = Some sq
      then push_hidden_char sql (push_hidden_char sql st)
      else if c = sq then
        let st1 = push_hidden_char sql st in (close_hidden (sc_i st1) st1)\<lparr>sc_region := Code\<rparr>
      else push_hidden_char sql st)"

definition scan_line_comment :: "string \<Rightarrow> scan_state \<Rightarrow> scan_state" where
  "scan_line_comment sql st =
     (if sql ! sc_i st = newline then
        let st1 = push_hidden_char sql st in (close_hidden (sc_i st1) st1)\<lparr>sc_region := Code\<rparr>
      else push_hidden_char sql st)"

definition scan_block_comment :: "string \<Rightarrow> nat \<Rightarrow> scan_state \<Rightarrow> scan_state" where
  "scan_block_comment sql depth st =
     (let i = sc_i st; c = sql ! i in
      if c = CHR ''/'' \<and> byte_at sql (i + 1) = Some CHR ''*'' then
        (push_hidden_char sql (push_hidden_char sql st))\<lparr>sc_region := BlockComment (depth + 1)\<rparr>
      else if c = CHR ''*'' \<and> byte_at sql (i + 1) = Some CHR ''/'' then
        let st2 = push_hidden_char sql (push_hidden_char sql st) in
        if depth \<le> 1 then (close_hidden (sc_i st2) st2)\<lparr>sc_region := Code\<rparr>
        else st2\<lparr>sc_region := BlockComment (depth - 1)\<rparr>
      else push_hidden_char sql st)"

definition scan_dollar_quote :: "string \<Rightarrow> scan_state \<Rightarrow> scan_state" where
  "scan_dollar_quote sql st =
     (let i = sc_i st in
      if sql ! i = CHR ''$'' \<and> prefix (sc_tag st) (drop i sql) then
        let st1 = push_hidden_until sql (i + length (sc_tag st)) st
        in (close_hidden (sc_i st1) st1)\<lparr>sc_region := Code\<rparr>
      else push_hidden_char sql st)"

definition scan_region :: "string \<Rightarrow> scan_state \<Rightarrow> scan_state" where
  "scan_region sql st =
     (case sc_region st of
        Code \<Rightarrow> scan_code sql st
      | DoubleQuote \<Rightarrow> scan_double_quote sql st
      | SingleQuote e_string \<Rightarrow> scan_single_quote sql e_string st
      | LineComment \<Rightarrow> scan_line_comment sql st
      | BlockComment depth \<Rightarrow> scan_block_comment sql depth st
      | DollarQuote \<Rightarrow> scan_dollar_quote sql st)"

definition scan_step :: "string \<Rightarrow> scan_state \<Rightarrow> scan_state" where
  "scan_step sql st =
     (let c = sql ! sc_i st in
      if sc_region st = Code \<and> c = CHR ''$'' \<and> sc_in_ident st then push_visible_char sql st
      else scan_region sql
        (st\<lparr>sc_in_ident :=
              sc_region st = Code \<and>
              (if sc_in_ident st then is_pg_ident_cont c else is_pg_ident_start c)\<rparr>))"

subsection \<open>Progress and the loop\<close>

lemma push_visible_char_sel [simp]:
  "sc_i (push_visible_char sql st) = char_end sql (sc_i st)"
  "sc_masked (push_visible_char sql st) =
     sc_masked st @ slice sql (sc_i st) (char_end sql (sc_i st))"
  "sc_region (push_visible_char sql st) = sc_region st"
  "sc_tag (push_visible_char sql st) = sc_tag st"
  "sc_in_ident (push_visible_char sql st) = sc_in_ident st"
  "sc_semicolons (push_visible_char sql st) = sc_semicolons st"
  "sc_hidden (push_visible_char sql st) = sc_hidden st"
  "sc_open (push_visible_char sql st) = sc_open st"
  by (simp_all add: push_visible_char_def Let_def)

lemma push_hidden_char_sel [simp]:
  "sc_i (push_hidden_char sql st) = char_end sql (sc_i st)"
  "sc_masked (push_hidden_char sql st) =
     sc_masked st @ replicate (char_end sql (sc_i st) - sc_i st) CHR '' ''"
  "sc_region (push_hidden_char sql st) = sc_region st"
  "sc_tag (push_hidden_char sql st) = sc_tag st"
  "sc_in_ident (push_hidden_char sql st) = sc_in_ident st"
  "sc_semicolons (push_hidden_char sql st) = sc_semicolons st"
  "sc_hidden (push_hidden_char sql st) = sc_hidden st"
  "sc_open (push_hidden_char sql st) = sc_open st"
  by (simp_all add: push_hidden_char_def Let_def)

lemma close_hidden_sel [simp]:
  "sc_i (close_hidden e st) = sc_i st"
  "sc_masked (close_hidden e st) = sc_masked st"
  "sc_region (close_hidden e st) = sc_region st"
  "sc_tag (close_hidden e st) = sc_tag st"
  "sc_in_ident (close_hidden e st) = sc_in_ident st"
  "sc_semicolons (close_hidden e st) = sc_semicolons st"
  "sc_open (close_hidden e st) = None"
  "sc_hidden (close_hidden e st) =
     sc_hidden st @ (case sc_open st of None \<Rightarrow> [] | Some (a, h) \<Rightarrow> [(a, e, h)])"
  by (simp_all add: close_hidden_def split: option.splits prod.splits)

lemma char_end_gt_any [simp]: "i < char_end sql i"
  using char_end_ge_Suc [of i sql] by simp

lemma le_char_end: "x \<le> i \<Longrightarrow> x \<le> char_end sql i"
  using char_end_gt_any [of i sql] by linarith

lemma lt_char_end: "x < i \<Longrightarrow> x < char_end sql i"
  using char_end_gt_any [of i sql] by linarith

lemma push_hidden_until_unfold:
  "sc_i st < e \<Longrightarrow> push_hidden_until sql e st = push_hidden_until sql e (push_hidden_char sql st)"
  "\<not> sc_i st < e \<Longrightarrow> push_hidden_until sql e st = st"
  by (simp_all add: push_hidden_until.simps [of sql e st])

lemma push_hidden_until_ge: "sc_i st \<le> sc_i (push_hidden_until sql e st)"
proof (induction sql e st rule: push_hidden_until.induct)
  case (1 sql e st)
  show ?case
  proof (cases "sc_i st < e")
    case True
    with "1.IH" have "char_end sql (sc_i st) \<le> sc_i (push_hidden_until sql e st)"
      by (simp add: push_hidden_until_unfold)
    then show ?thesis using char_end_gt_any [of "sc_i st" sql] by linarith
  qed (simp add: push_hidden_until_unfold)
qed

lemma push_hidden_until_gt: "sc_i st < e \<Longrightarrow> sc_i st < sc_i (push_hidden_until sql e st)"
  using push_hidden_until_ge [of "push_hidden_char sql st" sql e]
  by (auto simp: push_hidden_until_unfold intro: less_le_trans [OF char_end_gt_any])

lemma push_hidden_until_sel [simp]:
  "sc_region (push_hidden_until sql e st) = sc_region st"
  "sc_tag (push_hidden_until sql e st) = sc_tag st"
  "sc_in_ident (push_hidden_until sql e st) = sc_in_ident st"
  "sc_semicolons (push_hidden_until sql e st) = sc_semicolons st"
  "sc_hidden (push_hidden_until sql e st) = sc_hidden st"
  "sc_open (push_hidden_until sql e st) = sc_open st"
proof (induction sql e st rule: push_hidden_until.induct)
  case (1 sql e st)
  { case 1 then show ?case using "1.IH"(1) by (simp add: push_hidden_until.simps [of sql e st]) }
  { case 2 then show ?case using "1.IH"(2) by (simp add: push_hidden_until.simps [of sql e st]) }
  { case 3 then show ?case using "1.IH"(3) by (simp add: push_hidden_until.simps [of sql e st]) }
  { case 4 then show ?case using "1.IH"(4) by (simp add: push_hidden_until.simps [of sql e st]) }
  { case 5 then show ?case using "1.IH"(5) by (simp add: push_hidden_until.simps [of sql e st]) }
  { case 6 then show ?case using "1.IH"(6) by (simp add: push_hidden_until.simps [of sql e st]) }
qed

lemma dolq_end_ge: "j \<le> dolq_end sql j"
proof (induction sql j rule: dolq_end.induct)
  case (1 sql j)
  then show ?case
    by (cases "j < length sql \<and> is_dolq_cont (sql ! j)") (auto simp: dolq_end.simps [of sql j])
qed

lemma dollar_quote_tag_SomeD:
  assumes "dollar_quote_tag sql start = Some (tag, e)"
  shows "start + 2 \<le> e \<and> e \<le> length sql \<and> sql ! (e - 1) = CHR ''$'' \<and> tag = slice sql start e"
  using assms dolq_end_ge [of "start + 1" sql]
  by (auto simp: dollar_quote_tag_def Let_def split: if_splits)

lemma scan_code_progress: "sc_i st < sc_i (scan_code sql st)"
proof -
  have two: "sc_i st < char_end sql (char_end sql (sc_i st))"
    by (rule less_trans [OF char_end_gt_any char_end_gt_any])
  have dollar: "sc_i st < sc_i (push_hidden_until sql e (st\<lparr>sc_open := Some (sc_i st, Literal)\<rparr>))"
    if "dollar_quote_tag sql (sc_i st) = Some (tag, e)" for tag e
    using dollar_quote_tag_SomeD [OF that]
      push_hidden_until_gt [of "st\<lparr>sc_open := Some (sc_i st, Literal)\<rparr>" e sql]
    by simp
  show ?thesis
    using two dollar by (auto simp: scan_code_def Let_def split: option.splits)
qed

lemma scan_region_progress:
  assumes "sc_i st < length sql"
  shows "sc_i st < sc_i (scan_region sql st) \<or>
    sc_i (scan_region sql st) = sc_i st \<and> sc_region st = DollarQuote \<and>
    sc_region (scan_region sql st) = Code"
proof -
  have two: "sc_i st < char_end sql (char_end sql (sc_i st))"
    by (rule less_trans [OF char_end_gt_any char_end_gt_any])
  have until: "sc_i st < sc_i (push_hidden_until sql e st) \<or>
      sc_i (push_hidden_until sql e st) = sc_i st" for e
    using push_hidden_until_ge [of st sql e] by linarith
  show ?thesis
    using two until
    by (cases "sc_region st")
       (auto simp: scan_region_def scan_code_progress scan_double_quote_def scan_single_quote_def
          scan_line_comment_def scan_block_comment_def scan_dollar_quote_def Let_def)
qed

definition scan_variant :: "string \<Rightarrow> scan_state \<Rightarrow> nat" where
  "scan_variant sql st =
     2 * (length sql - sc_i st) + (if sc_region st = DollarQuote then 1 else 0)"

lemma scan_step_variant:
  assumes "sc_i st < length sql"
  shows "scan_variant sql (scan_step sql st) < scan_variant sql st"
proof -
  define st' where "st' = st\<lparr>sc_in_ident := sc_region st = Code \<and>
      (if sc_in_ident st then is_pg_ident_cont (sql ! sc_i st)
       else is_pg_ident_start (sql ! sc_i st))\<rparr>"
  have "sc_i st' < length sql" using assms by (simp add: st'_def)
  from scan_region_progress [OF this]
  have moved: "scan_variant sql (scan_region sql st') < scan_variant sql st"
    using assms by (auto simp: scan_variant_def st'_def)
  have "scan_variant sql (push_visible_char sql st) < scan_variant sql st"
    using assms by (auto simp: scan_variant_def intro: diff_less_mono2)
  with moved show ?thesis
    by (simp add: scan_step_def Let_def st'_def)
qed

function scan_loop :: "string \<Rightarrow> scan_state \<Rightarrow> scan_state" where
  "scan_loop sql st = (if sc_i st < length sql then scan_loop sql (scan_step sql st) else st)"
  by pat_completeness auto
termination
  by (relation "measure (\<lambda>(sql, st). scan_variant sql st)") (auto intro: scan_step_variant)

declare scan_loop.simps [simp del]

interpretation scan_run: variant_loop "\<lambda>st. sc_i st < length sql" "scan_variant sql"
  "scan_step sql" "scan_loop sql" for sql
proof
  fix st
  show "sc_i st < length sql \<Longrightarrow> scan_variant sql (scan_step sql st) < scan_variant sql st"
    by (rule scan_step_variant)
  show "scan_loop sql st = (if sc_i st < length sql then scan_loop sql (scan_step sql st) else st)"
    by (rule scan_loop.simps)
qed

definition scan_init :: scan_state where
  "scan_init = \<lparr>sc_i = 0, sc_region = Code, sc_tag = [], sc_in_ident = False, sc_masked = [],
     sc_semicolons = [], sc_hidden = [], sc_open = None\<rparr>"

definition scan :: "string \<Rightarrow> scan_result" where
  "scan sql =
     (let st = close_hidden (length sql) (scan_loop sql scan_init)
      in \<lparr>masked = sc_masked st, semicolons = sc_semicolons st, hidden_of = sc_hidden st\<rparr>)"

definition hidden_spans :: "string \<Rightarrow> span list" where
  "hidden_spans sql = hidden_of (scan sql)"

definition masked_code :: "string \<Rightarrow> string" where
  "masked_code sql = masked (scan sql)"

subsection \<open>Readers built on the scanner\<close>

text \<open>\<open>skip_block_comment\<close> returns \<open>None\<close> when the comment never closes.\<close>

function skip_block_comment :: "nat \<Rightarrow> string \<Rightarrow> string option" where
  "skip_block_comment depth s =
     (case (find_sub ''/*'' s, find_sub ''*/'' s) of
        (Some opn, Some c) \<Rightarrow>
          if opn < c then skip_block_comment (depth + 1) (drop (opn + 2) s)
          else if depth - 1 = 0 then Some (drop (c + 2) s)
          else skip_block_comment (depth - 1) (drop (c + 2) s)
      | (None, Some c) \<Rightarrow>
          if depth - 1 = 0 then Some (drop (c + 2) s)
          else skip_block_comment (depth - 1) (drop (c + 2) s)
      | (_, None) \<Rightarrow> None)"
  by pat_completeness auto
termination
  by (relation "measure (\<lambda>(d, s). length s)") (auto dest!: find_sub_SomeD [OF sym])

declare skip_block_comment.simps [simp del]

lemma skip_block_comment_shorter: "skip_block_comment d s = Some r \<Longrightarrow> length r < length s"
proof (induction d s rule: skip_block_comment.induct)
  case (1 d s)
  have len: "find_sub ''/*'' s = Some x \<Longrightarrow> x + 2 \<le> length s"
    "find_sub ''*/'' s = Some x \<Longrightarrow> x + 2 \<le> length s" for x
    using find_sub_SomeD by fastforce+
  show ?case
    using "1.prems" "1.IH" len
    by (fastforce simp: skip_block_comment.simps [of d s] split: option.splits if_splits)
qed

function strip_leading_noise :: "string \<Rightarrow> string" where
  "strip_leading_noise sql =
     (let trimmed = trim_start sql in
      case strip_prefix ''--'' trimmed of
        Some after \<Rightarrow>
          strip_leading_noise
            (case find_sub [newline] after of Some i \<Rightarrow> drop (i + 1) after | None \<Rightarrow> [])
      | None \<Rightarrow>
          (case strip_prefix ''/*'' trimmed of
             Some after \<Rightarrow>
               (case skip_block_comment 1 after of
                  Some remaining \<Rightarrow> strip_leading_noise remaining
                | None \<Rightarrow> [])
           | None \<Rightarrow> trimmed))"
  by pat_completeness auto
termination
proof (relation "measure length", goal_cases)
  case (2 sql trimmed after remaining)
  then have "length remaining < length after"
    by (intro skip_block_comment_shorter) simp
  with 2 show ?case
    using length_trim_start [of sql]
    by (auto simp: strip_prefix_def split: option.splits if_splits dest!: prefix_length_le)
next
  case (3 sql trimmed after)
  then show ?case
    using length_trim_start [of sql]
    by (auto simp: strip_prefix_def split: option.splits if_splits dest!: prefix_length_le)
qed simp

declare strip_leading_noise.simps [simp del]

text \<open>The end of the leading ASCII-alphabetic run: \<open>rest.find(|c| !c.is_ascii_alphabetic())\<close>.\<close>

definition alpha_run_end :: "string \<Rightarrow> nat" where
  "alpha_run_end rest =
     (case find_pred (\<lambda>c. \<not> is_ascii_alphabetic c) rest of Some i \<Rightarrow> i | None \<Rightarrow> length rest)"

definition leading_keyword :: "string \<Rightarrow> string option" where
  "leading_keyword sql =
     (let rest = strip_leading_noise sql; e = alpha_run_end rest
      in if e = 0 then None else Some (to_ascii_uppercase (take e rest)))"

definition next_token_after_keyword :: "string \<Rightarrow> string option" where
  "next_token_after_keyword sql =
     (let rest = strip_leading_noise sql; kw_end = alpha_run_end rest in
      if kw_end = 0 then None
      else let after_noise = strip_leading_noise (drop kw_end rest);
               tok_end = alpha_run_end after_noise in
        if tok_end = 0 then None
        else (case byte_at after_noise tok_end of
                Some c \<Rightarrow>
                  if c = CHR ''.'' \<or> is_ascii_alphanumeric c \<or> c = CHR ''_'' then None
                  else Some (to_ascii_uppercase (take tok_end after_noise))
              | None \<Rightarrow> Some (to_ascii_uppercase (take tok_end after_noise))))"

definition ident_match_at :: "string \<Rightarrow> string \<Rightarrow> nat \<Rightarrow> bool" where
  "ident_match_at hay needle start \<longleftrightarrow>
     slice hay start (start + length needle) = needle \<and>
     (start = 0 \<or> \<not> is_ident_char_byte (hay ! (start - 1))) \<and>
     (start + length needle = length hay \<or> \<not> is_ident_char_byte (hay ! (start + length needle)))"

definition contains_identifier_ci :: "string \<Rightarrow> string \<Rightarrow> bool" where
  "contains_identifier_ci sql ident =
     (if ident = [] then False
      else let hay = to_ascii_lowercase (masked (scan sql));
               needle = to_ascii_lowercase ident;
               n = length needle in
        if length hay < n then False
        else list_ex (ident_match_at hay needle) [0..<length hay - n + 1])"

text \<open>
  The pieces of \<open>sql\<close> between the recorded semicolons, before trimming, and the statements that
  remain after \<open>trim\<close> and dropping the empty ones.
\<close>

fun cut_at :: "string \<Rightarrow> nat \<Rightarrow> nat list \<Rightarrow> string list" where
  "cut_at sql start [] = [drop start sql]"
| "cut_at sql start (p # ps) = slice sql start p # cut_at sql (p + 1) ps"

definition split_top_level_statements :: "string \<Rightarrow> string list" where
  "split_top_level_statements sql =
     filter (\<lambda>piece. piece \<noteq> []) (map trim (cut_at sql 0 (semicolons (scan sql))))"

end
