(* ===== verification/Scan_Correct.thy ===== *)
theory Scan_Correct
  imports Scan
begin

text \<open>
  Correctness of the region scanner: the invariant of the \<open>scan\<close> loop and what follows from it
  for the masked copy, the hidden spans, the statement separators and the identifier search.
\<close>

subsection \<open>What a list of hidden spans hides\<close>

definition is_e :: "char \<Rightarrow> bool" where
  "is_e c \<longleftrightarrow> c = CHR ''E'' \<or> c = CHR ''e''"

text \<open>
  The span of an \<open>E'...'\<close> literal starts at its \<open>E\<close>, which stays visible in the masked copy; every
  other span hides all its bytes.
\<close>

definition body_start :: "string \<Rightarrow> nat \<Rightarrow> nat" where
  "body_start sql a = (if is_e (sql ! a) then a + 1 else a)"

definition hidden_at :: "string \<Rightarrow> span list \<Rightarrow> nat \<Rightarrow> bool" where
  "hidden_at sql hs k \<longleftrightarrow> (\<exists>(a, b, h) \<in> set hs. body_start sql a \<le> k \<and> k < b)"

definition start_ok :: "string \<Rightarrow> nat \<Rightarrow> bool" where
  "start_ok sql a \<longleftrightarrow> a < length sql \<and>
     (is_e (sql ! a) \<longrightarrow> a + 1 < length sql \<and> sql ! (a + 1) = sq)"

definition span_before :: "span \<Rightarrow> span \<Rightarrow> bool" where
  "span_before x y \<longleftrightarrow> fst (snd x) \<le> fst y"

definition spans_ok :: "string \<Rightarrow> nat \<Rightarrow> span list \<Rightarrow> bool" where
  "spans_ok sql n hs \<longleftrightarrow>
     sorted_wrt span_before hs \<and>
     (\<forall>(a, b, h) \<in> set hs. a < b \<and> b \<le> n \<and> start_ok sql a)"

definition open_spans :: "nat \<Rightarrow> (nat \<times> hidden) option \<Rightarrow> span list" where
  "open_spans i opn = (case opn of None \<Rightarrow> [] | Some (a, h) \<Rightarrow> [(a, i, h)])"

lemma hidden_at_append [simp]: "hidden_at sql (xs @ ys) k \<longleftrightarrow> hidden_at sql xs k \<or> hidden_at sql ys k"
  by (auto simp: hidden_at_def)

lemma hidden_at_Nil [simp]: "\<not> hidden_at sql [] k"
  by (simp add: hidden_at_def)

lemma hidden_at_single [simp]: "hidden_at sql [(a, b, h)] k \<longleftrightarrow> body_start sql a \<le> k \<and> k < b"
  by (simp add: hidden_at_def)

lemma hidden_at_unfold:
  "hidden_at sql hs k \<longleftrightarrow> (\<exists>(a, b, h) \<in> set hs.
     (if sql ! a = CHR ''E'' \<or> sql ! a = CHR ''e'' then a < k else a \<le> k) \<and> k < b)"
  by (simp add: hidden_at_def body_start_def is_e_def Suc_le_eq case_prod_beta if_distrib [of "\<lambda>x. x \<le> k"] cong: if_cong)

lemma hidden_at_lt: "spans_ok sql n hs \<Longrightarrow> hidden_at sql hs k \<Longrightarrow> k < n"
  by (fastforce simp: hidden_at_def spans_ok_def)

subsection \<open>The core invariant, on the fields it constrains\<close>

definition layout :: "string \<Rightarrow> nat \<Rightarrow> string \<Rightarrow> span list \<Rightarrow> (nat \<times> hidden) option \<Rightarrow> bool" where
  "layout sql i m hs opn \<longleftrightarrow>
     i \<le> length sql \<and> length m = i \<and> spans_ok sql i hs \<and>
     (\<forall>(a, b, h) \<in> set hs. \<not> is_e (sql ! (b - 1))) \<and>
     (\<forall>(a, h) \<in> set_option opn. a \<le> i \<and> start_ok sql a \<and> body_start sql a \<le> i \<and>
        (\<forall>(x, y, _) \<in> set hs. y \<le> a))"

definition mask_exact :: "string \<Rightarrow> nat \<Rightarrow> string \<Rightarrow> span list \<Rightarrow> bool" where
  "mask_exact sql n m hs \<longleftrightarrow>
     (\<forall>k < n. m ! k = (if hidden_at sql hs k then CHR '' '' else sql ! k))"

definition core :: "string \<Rightarrow> nat \<Rightarrow> string \<Rightarrow> span list \<Rightarrow> (nat \<times> hidden) option \<Rightarrow> bool" where
  "core sql i m hs opn \<longleftrightarrow> layout sql i m hs opn \<and> mask_exact sql i m (hs @ open_spans i opn)"

definition scan_core :: "string \<Rightarrow> scan_state \<Rightarrow> bool" where
  "scan_core sql st \<longleftrightarrow> core sql (sc_i st) (sc_masked st) (sc_hidden st) (sc_open st)"

lemma spans_ok_mono: "spans_ok sql i hs \<Longrightarrow> i \<le> j \<Longrightarrow> spans_ok sql j hs"
  by (fastforce simp: spans_ok_def)

lemma core_visible:
  assumes c: "core sql i m hs None" and "i < length sql"
  shows "core sql (char_end sql i) (m @ slice sql i (char_end sql i)) hs None"
proof -
  let ?e = "char_end sql i"
  from c have lay: "layout sql i m hs None"
    and ex: "\<And>k. k < i \<Longrightarrow> m ! k = (if hidden_at sql hs k then CHR '' '' else sql ! k)"
    by (auto simp: core_def mask_exact_def open_spans_def)
  from lay have len: "length m = i" and ok: "spans_ok sql i hs"
    by (auto simp: layout_def)
  have e: "i < ?e" "?e \<le> length sql" using assms(2) by (simp_all add: char_end_le)
  have "(m @ slice sql i ?e) ! k = (if hidden_at sql hs k then CHR '' '' else sql ! k)"
    if "k < ?e" for k
  proof (cases "k < i")
    case True
    then show ?thesis using ex len by (simp add: nth_append)
  next
    case False
    then have "\<not> hidden_at sql hs k" using hidden_at_lt [OF ok] by auto
    moreover have "(m @ slice sql i ?e) ! k = sql ! k"
      using False len that e by (simp add: nth_append nth_slice)
    ultimately show ?thesis by simp
  qed
  moreover have "layout sql ?e (m @ slice sql i ?e) hs None"
    using lay len e spans_ok_mono [OF ok, of ?e] by (simp add: layout_def length_slice le_char_end)
  ultimately show ?thesis by (simp add: core_def mask_exact_def open_spans_def)
qed

lemma core_hidden:
  assumes c: "core sql i m hs (Some (a, h))" and "i < length sql"
  shows "core sql (char_end sql i) (m @ replicate (char_end sql i - i) CHR '' '') hs (Some (a, h))"
proof -
  let ?e = "char_end sql i"
  from c have lay: "layout sql i m hs (Some (a, h))"
    and ex: "\<And>k. k < i \<Longrightarrow>
      m ! k = (if hidden_at sql hs k \<or> body_start sql a \<le> k then CHR '' '' else sql ! k)"
    by (auto simp: core_def mask_exact_def open_spans_def)
  from lay have len: "length m = i" and ok: "spans_ok sql i hs" and st: "body_start sql a \<le> i"
    by (auto simp: layout_def)
  have e: "i < ?e" "?e \<le> length sql" using assms(2) by (simp_all add: char_end_le)
  have "(m @ replicate (?e - i) CHR '' '') ! k =
      (if hidden_at sql hs k \<or> body_start sql a \<le> k then CHR '' '' else sql ! k)"
    if "k < ?e" for k
    using ex len that st by (cases "k < i") (simp_all add: nth_append)
  moreover have "layout sql ?e (m @ replicate (?e - i) CHR '' '') hs (Some (a, h))"
    using lay len e spans_ok_mono [OF ok, of ?e] by (auto simp: layout_def le_char_end)
  ultimately show ?thesis by (simp add: core_def mask_exact_def open_spans_def)
qed

lemma core_open:
  assumes c: "core sql i m hs None" and "i < length sql" and "\<not> is_e (sql ! i)"
  shows "core sql i m hs (Some (i, h))"
proof -
  have "layout sql i m hs (Some (i, h))"
    using assms by (auto simp: core_def layout_def spans_ok_def start_ok_def body_start_def)
  moreover have "mask_exact sql i m (hs @ [(i, i, h)])"
    using assms by (simp add: core_def mask_exact_def open_spans_def body_start_def)
  ultimately show ?thesis by (simp add: core_def open_spans_def)
qed

lemma core_open_e_string:
  assumes c: "core sql i m hs None" and "i < length sql" and "sql ! i = sq"
    and e: "0 < i" "is_e (sql ! (i - 1))"
  shows "core sql i m hs (Some (i - 1, h))"
proof -
  have "y \<le> i - 1" if "(x, y, z) \<in> set hs" for x y z
  proof -
    from c that have "y \<le> i" "\<not> is_e (sql ! (y - 1))"
      by (auto simp: core_def layout_def spans_ok_def)
    with e show ?thesis by (cases "y = i") auto
  qed
  then have "layout sql i m hs (Some (i - 1, h))"
    using assms by (auto simp: core_def layout_def start_ok_def body_start_def)
  moreover have "mask_exact sql i m (hs @ [(i - 1, i, h)])"
    using assms by (simp add: core_def mask_exact_def open_spans_def body_start_def)
  ultimately show ?thesis by (simp add: core_def open_spans_def)
qed

lemma core_close:
  assumes c: "core sql i m hs (Some (a, h))" and "a < i" and "\<not> is_e (sql ! (i - 1))"
  shows "core sql i m (hs @ [(a, i, h)]) None"
proof -
  have "layout sql i m (hs @ [(a, i, h)]) None"
    using assms by (auto simp: core_def layout_def spans_ok_def span_before_def sorted_wrt_append)
  then show ?thesis using c by (simp add: core_def open_spans_def)
qed

subsection \<open>The moves of the scanner keep the core invariant\<close>

lemma not_cont_ascii [simp]:
  "\<not> is_cont_byte sq" "\<not> is_cont_byte dq" "\<not> is_cont_byte CHR ''-''" "\<not> is_cont_byte CHR ''*''"
  "\<not> is_cont_byte CHR ''/''" "\<not> is_cont_byte CHR ''$''" "\<not> is_cont_byte newline"
  "\<not> is_cont_byte CHR '';''"
  by (simp_all add: is_cont_byte_def byte_def)

lemma char_end_before_ascii:
  "Suc i < length sql \<Longrightarrow> \<not> is_cont_byte (sql ! Suc i) \<Longrightarrow> char_end sql i = Suc i"
  by (simp add: char_end_def char_end_from.simps [of sql "Suc i"] is_char_boundary_def)

lemma is_e_not_cont: "is_e c \<Longrightarrow> \<not> is_cont_byte c"
  by (auto simp: is_e_def is_cont_byte_def byte_def)

lemma not_is_e_ascii [simp]:
  "\<not> is_e sq" "\<not> is_e CHR ''-''" "\<not> is_e CHR ''/''" "\<not> is_e CHR ''$''" "\<not> is_e newline"
  by (simp_all add: is_e_def)

lemma char_end_last:
  assumes "i < length sql" and "\<not> is_e (sql ! i)"
  shows "\<not> is_e (sql ! (char_end sql i - 1))"
proof (cases "char_end sql i = Suc i")
  case True
  with assms show ?thesis by simp
next
  case False
  then have "Suc i < char_end sql i" using char_end_gt_any [of i sql] by linarith
  then have "is_cont_byte (sql ! (char_end sql i - 1))"
    using char_end_le [OF assms(1)] by (intro char_end_cont [of i]) auto
  then show ?thesis using is_e_not_cont by blast
qed

lemma scan_core_visible:
  "scan_core sql st \<Longrightarrow> sc_open st = None \<Longrightarrow> sc_i st < length sql \<Longrightarrow>
    scan_core sql (push_visible_char sql st)"
  by (simp add: scan_core_def core_visible)

lemma scan_core_hidden:
  "scan_core sql st \<Longrightarrow> sc_open st \<noteq> None \<Longrightarrow> sc_i st < length sql \<Longrightarrow>
    scan_core sql (push_hidden_char sql st)"
  by (auto simp: scan_core_def core_hidden)

lemma scan_core_hidden2:
  assumes "scan_core sql st" "sc_open st \<noteq> None"
    and "byte_at sql (sc_i st + 1) = Some c" "\<not> is_cont_byte c"
  shows "scan_core sql (push_hidden_char sql (push_hidden_char sql st))"
  using assms char_end_before_ascii [of "sc_i st" sql]
  by (intro scan_core_hidden) auto

lemma scan_core_close:
  assumes "scan_core sql st" "sc_open st = Some (a, h)" "a < sc_i st"
    and "\<not> is_e (sql ! (sc_i st - 1))"
  shows "scan_core sql (close_hidden (sc_i st) st)"
  using assms by (simp add: scan_core_def core_close)

lemma scan_core_until:
  assumes "e \<le> length sql"
  shows "scan_core sql st \<Longrightarrow> sc_open st \<noteq> None \<Longrightarrow> scan_core sql (push_hidden_until sql e st)"
  using assms
proof (induction sql e st rule: push_hidden_until.induct)
  case (1 sql e st)
  then show ?case
    by (cases "sc_i st < e") (simp_all add: push_hidden_until_unfold scan_core_hidden)
qed

lemma push_hidden_until_last:
  assumes "e \<le> length sql" and "sc_i st \<le> e"
  shows "e \<le> sc_i (push_hidden_until sql e st) \<and> sc_i (push_hidden_until sql e st) \<le> length sql \<and>
    (sc_i (push_hidden_until sql e st) = e \<or>
     is_cont_byte (sql ! (sc_i (push_hidden_until sql e st) - 1)))"
  using assms
proof (induction sql e st rule: push_hidden_until.induct)
  case (1 sql e st)
  show ?case
  proof (cases "sc_i st < e")
    case True
    show ?thesis
    proof (cases "char_end sql (sc_i st) \<le> e")
      case True
      with 1 \<open>sc_i st < e\<close> show ?thesis by (simp add: push_hidden_until_unfold)
    next
      case False
      let ?i = "char_end sql (sc_i st)"
      have i: "?i \<le> length sql" using True "1.prems" by (simp add: char_end_le)
      have "is_cont_byte (sql ! (?i - 1))"
        using False i True by (intro char_end_cont [of "sc_i st"]) linarith+
      with False i True show ?thesis by (simp add: push_hidden_until_unfold)
    qed
  next
    case False
    with "1.prems" show ?thesis by (simp add: push_hidden_until_unfold)
  qed
qed

lemma push_hidden_until_not_e:
  assumes "e \<le> length sql" "sc_i st \<le> e" "\<not> is_e (sql ! (e - 1))"
  shows "\<not> is_e (sql ! (sc_i (push_hidden_until sql e st) - 1))"
  using push_hidden_until_last [OF assms(1,2)] assms(3) is_e_not_cont by auto

subsection \<open>The invariant of the loop\<close>

definition semis_ok :: "string \<Rightarrow> scan_state \<Rightarrow> bool" where
  "semis_ok sql st \<longleftrightarrow>
     sorted_wrt (<) (sc_semicolons st) \<and>
     (\<forall>p \<in> set (sc_semicolons st). p < sc_i st \<and> sql ! p = CHR '';'' \<and>
        sc_masked st ! p = CHR '';'')"

definition region_ok :: "string \<Rightarrow> scan_state \<Rightarrow> bool" where
  "region_ok sql st \<longleftrightarrow>
     (case sc_region st of
        Code \<Rightarrow> sc_open st = None
      | DoubleQuote \<Rightarrow> sc_open st = None
      | SingleQuote e \<Rightarrow> sc_open st \<noteq> None
      | LineComment \<Rightarrow> sc_open st \<noteq> None
      | BlockComment d \<Rightarrow> sc_open st \<noteq> None \<and> 1 \<le> d \<and> 2 * d \<le> sc_i st
      | DollarQuote \<Rightarrow> sc_open st \<noteq> None \<and> 2 \<le> length (sc_tag st) \<and> last (sc_tag st) = CHR ''$'')
     \<and> (\<forall>(a, h) \<in> set_option (sc_open st). a < sc_i st)"

definition scan_inv :: "string \<Rightarrow> scan_state \<Rightarrow> bool" where
  "scan_inv sql st \<longleftrightarrow> scan_core sql st \<and> region_ok sql st \<and> semis_ok sql st"

lemma scan_core_upd [simp]:
  "scan_core sql (st\<lparr>sc_region := r\<rparr>) = scan_core sql st"
  "scan_core sql (st\<lparr>sc_tag := tg\<rparr>) = scan_core sql st"
  "scan_core sql (st\<lparr>sc_in_ident := b\<rparr>) = scan_core sql st"
  "scan_core sql (st\<lparr>sc_semicolons := ss\<rparr>) = scan_core sql st"
  by (simp_all add: scan_core_def)

lemma scan_core_len: "scan_core sql st \<Longrightarrow> length (sc_masked st) = sc_i st"
  by (simp add: scan_core_def core_def layout_def)

lemma semis_ok_hidden: "semis_ok sql st \<Longrightarrow> scan_core sql st \<Longrightarrow> semis_ok sql (push_hidden_char sql st)"
  by (auto simp: semis_ok_def nth_append scan_core_len intro: less_trans)

lemma semis_ok_visible: "semis_ok sql st \<Longrightarrow> scan_core sql st \<Longrightarrow> semis_ok sql (push_visible_char sql st)"
  by (auto simp: semis_ok_def nth_append scan_core_len intro: less_trans)

lemma semis_ok_upd [simp]:
  "semis_ok sql (st\<lparr>sc_region := r\<rparr>) = semis_ok sql st"
  "semis_ok sql (st\<lparr>sc_tag := tg\<rparr>) = semis_ok sql st"
  "semis_ok sql (st\<lparr>sc_in_ident := b\<rparr>) = semis_ok sql st"
  "semis_ok sql (st\<lparr>sc_open := oo\<rparr>) = semis_ok sql st"
  "semis_ok sql (close_hidden e st) = semis_ok sql st"
  by (simp_all add: semis_ok_def)

definition scan_good :: "string \<Rightarrow> scan_state \<Rightarrow> bool" where
  "scan_good sql st \<longleftrightarrow> scan_core sql st \<and> semis_ok sql st"

lemma scan_inv_good: "scan_inv sql st \<longleftrightarrow> scan_good sql st \<and> region_ok sql st"
  by (auto simp: scan_inv_def scan_good_def)

lemma good_upd [simp]:
  "scan_good sql (st\<lparr>sc_region := r\<rparr>) = scan_good sql st"
  "scan_good sql (st\<lparr>sc_tag := tg\<rparr>) = scan_good sql st"
  "scan_good sql (st\<lparr>sc_in_ident := b\<rparr>) = scan_good sql st"
  by (simp_all add: scan_good_def)

lemma good_visible:
  "scan_good sql st \<Longrightarrow> sc_open st = None \<Longrightarrow> sc_i st < length sql \<Longrightarrow>
    scan_good sql (push_visible_char sql st)"
  by (simp add: scan_good_def scan_core_visible semis_ok_visible)

lemma good_visible2:
  assumes "scan_good sql st" "sc_open st = None"
    and "byte_at sql (sc_i st + 1) = Some c" "\<not> is_cont_byte c"
  shows "scan_good sql (push_visible_char sql (push_visible_char sql st))"
  using assms char_end_before_ascii [of "sc_i st" sql]
  by (intro good_visible) auto

lemma good_hidden:
  "scan_good sql st \<Longrightarrow> sc_open st \<noteq> None \<Longrightarrow> sc_i st < length sql \<Longrightarrow>
    scan_good sql (push_hidden_char sql st)"
  unfolding scan_good_def by (blast intro: scan_core_hidden semis_ok_hidden)

lemma good_hidden2:
  assumes "scan_good sql st" "sc_open st \<noteq> None"
    and "byte_at sql (sc_i st + 1) = Some c" "\<not> is_cont_byte c"
  shows "scan_good sql (push_hidden_char sql (push_hidden_char sql st))"
  using assms char_end_before_ascii [of "sc_i st" sql]
  by (intro good_hidden) auto

lemma good_until:
  assumes "e \<le> length sql"
  shows "scan_good sql st \<Longrightarrow> sc_open st \<noteq> None \<Longrightarrow> scan_good sql (push_hidden_until sql e st)"
  using assms
proof (induction sql e st rule: push_hidden_until.induct)
  case (1 sql e st)
  then show ?case
    by (cases "sc_i st < e") (simp_all add: push_hidden_until_unfold good_hidden)
qed

lemma good_close:
  assumes "scan_good sql st" "sc_open st = Some (a, h)" "a < sc_i st"
    and "\<not> is_e (sql ! (sc_i st - 1))"
  shows "scan_good sql (close_hidden (sc_i st) st)"
  using assms by (auto simp: scan_good_def intro: scan_core_close)

lemma good_open:
  assumes "scan_good sql st" "sc_open st = None" "sc_i st < length sql"
    and "\<not> is_e (sql ! sc_i st)"
  shows "scan_good sql (st\<lparr>sc_open := Some (sc_i st, h)\<rparr>)"
  using assms by (simp add: scan_good_def scan_core_def core_open)

lemma good_open_e:
  assumes "scan_good sql st" "sc_open st = None" "sc_i st < length sql" "sql ! sc_i st = sq"
    and "is_e_string_prefix sql (sc_i st)"
  shows "scan_good sql (st\<lparr>sc_open := Some (sc_i st - 1, h)\<rparr>)"
proof -
  have "0 < sc_i st" "is_e (sql ! (sc_i st - 1))"
    using assms(5) by (auto simp: is_e_string_prefix_def is_e_def Let_def split: if_splits)
  then have "core sql (sc_i st) (sc_masked st) (sc_hidden st) (Some (sc_i st - 1, h))"
    using assms by (intro core_open_e_string) (simp_all add: scan_good_def scan_core_def)
  with assms(1) show ?thesis by (simp add: scan_good_def scan_core_def)
qed

lemma good_semicolon:
  assumes "scan_good sql st" "sc_open st = None" "sc_i st < length sql" "sql ! sc_i st = CHR '';''"
  shows "scan_good sql (push_visible_char sql (st\<lparr>sc_semicolons := sc_semicolons st @ [sc_i st]\<rparr>))"
proof -
  let ?st = "st\<lparr>sc_semicolons := sc_semicolons st @ [sc_i st]\<rparr>"
  have c: "scan_core sql st" and s: "semis_ok sql st"
    using assms(1) by (simp_all add: scan_good_def)
  have "slice sql (sc_i st) (char_end sql (sc_i st)) ! 0 = CHR '';''"
    using assms(3,4) by (simp add: nth_slice char_end_le)
  then have "semis_ok sql (push_visible_char sql ?st)"
    using s assms(3,4)
    by (auto simp: semis_ok_def sorted_wrt_append nth_append scan_core_len [OF c] intro: less_trans)
  moreover have "scan_core sql (push_visible_char sql ?st)"
    using c assms by (intro scan_core_visible) simp_all
  ultimately show ?thesis by (simp add: scan_good_def)
qed

lemma scan_inv_double_quote:
  assumes "scan_inv sql st" "sc_region st = DoubleQuote" "sc_i st < length sql"
  shows "scan_inv sql (scan_double_quote sql st)"
proof -
  have o: "sc_open st = None" and g: "scan_good sql st"
    using assms by (auto simp: scan_inv_good region_ok_def)
  show ?thesis
    using assms(2,3) o good_visible [OF g o] good_visible2 [OF g o, of dq]
    by (auto simp: scan_double_quote_def scan_inv_good region_ok_def Let_def)
qed

lemma scan_inv_line_comment:
  assumes "scan_inv sql st" "sc_region st = LineComment" "sc_i st < length sql"
  shows "scan_inv sql (scan_line_comment sql st)"
proof -
  obtain a h where o: "sc_open st = Some (a, h)" and a: "a < sc_i st" and g: "scan_good sql st"
    using assms by (auto simp: scan_inv_good region_ok_def)
  have g1: "scan_good sql (push_hidden_char sql st)" using good_hidden [OF g] o assms(3) by simp
  have "scan_good sql (close_hidden (sc_i (push_hidden_char sql st)) (push_hidden_char sql st))"
    if "sql ! sc_i st = newline"
    using o a that assms(3) less_trans [OF a char_end_gt_any]
    by (intro good_close [OF g1, of a h]) (simp_all add: char_end_last [simplified])
  then show ?thesis
    using assms(2) g1 o a less_trans [OF a char_end_gt_any]
    by (auto simp: scan_line_comment_def scan_inv_good region_ok_def Let_def)
qed

lemma scan_inv_single_quote:
  assumes "scan_inv sql st" "sc_region st = SingleQuote e_string" "sc_i st < length sql"
  shows "scan_inv sql (scan_single_quote sql e_string st)"
proof -
  obtain a h where o: "sc_open st = Some (a, h)" and a: "a < sc_i st" and g: "scan_good sql st"
    using assms by (auto simp: scan_inv_good region_ok_def)
  have g1: "scan_good sql (push_hidden_char sql st)" using good_hidden [OF g] o assms(3) by simp
  have g2: "scan_good sql (push_hidden_char sql (push_hidden_char sql st))"
    if "byte_at sql (sc_i st + 1) = Some sq"
    using good_hidden2 [OF g _ that] o by simp
  have gc: "scan_good sql (close_hidden (sc_i (push_hidden_char sql st)) (push_hidden_char sql st))"
    if "sql ! sc_i st = sq"
    using o a that assms(3) less_trans [OF a char_end_gt_any]
    by (intro good_close [OF g1, of a h]) (simp_all add: char_end_last [simplified])
  have lt: "a < char_end sql (sc_i st)" "a < char_end sql (char_end sql (sc_i st))"
    using a by (simp_all add: lt_char_end)
  show ?thesis
    using assms(2) g1 g2 gc o lt
    by (auto simp: scan_single_quote_def scan_inv_good region_ok_def Let_def)
qed

lemma scan_inv_block_comment:
  assumes "scan_inv sql st" "sc_region st = BlockComment depth" "sc_i st < length sql"
  shows "scan_inv sql (scan_block_comment sql depth st)"
proof -
  let ?i = "sc_i st"
  obtain a h where o: "sc_open st = Some (a, h)" and a: "a < ?i" and g: "scan_good sql st"
    and d: "1 \<le> depth" "2 * depth \<le> ?i"
    using assms by (auto simp: scan_inv_good region_ok_def)
  have g1: "scan_good sql (push_hidden_char sql st)" using good_hidden [OF g] o assms(3) by simp
  have lt: "a < char_end sql ?i" "a < char_end sql (char_end sql ?i)"
    using a by (simp_all add: lt_char_end)
  have bound: "2 * depth \<le> char_end sql ?i" "2 * (depth + 1) \<le> char_end sql (char_end sql ?i)"
    "2 * (depth - 1) \<le> char_end sql (char_end sql ?i)"
    using d char_end_gt_any [of ?i sql] char_end_gt_any [of "char_end sql ?i" sql] by - arith+
  let ?st2 = "push_hidden_char sql (push_hidden_char sql st)"
  have g2: "scan_good sql ?st2"
    if "byte_at sql (?i + 1) = Some c" "\<not> is_cont_byte c" for c
    using good_hidden2 [OF g _ that] o by simp
  have gc: "scan_good sql (close_hidden (sc_i ?st2) ?st2)"
    if nxt: "byte_at sql (?i + 1) = Some CHR ''/''"
  proof -
    have "Suc ?i < length sql" "sql ! Suc ?i = CHR ''/''" using nxt by simp_all
    then have "\<not> is_e (sql ! (char_end sql (char_end sql ?i) - 1))"
      using char_end_last [of "Suc ?i" sql] char_end_before_ascii [of ?i sql] by simp
    then show ?thesis
      using g2 [OF nxt] o a by (intro good_close [of sql ?st2 a h]) (simp_all add: lt_char_end)
  qed
  show ?thesis
    using assms(2) g1 g2 gc o lt d(1) bound
    by (auto simp: scan_block_comment_def scan_inv_good region_ok_def Let_def)
qed

lemma scan_inv_dollar_quote:
  assumes "scan_inv sql st" "sc_region st = DollarQuote" "sc_i st < length sql"
  shows "scan_inv sql (scan_dollar_quote sql st)"
proof -
  let ?i = "sc_i st" and ?e = "sc_i st + length (sc_tag st)"
  obtain a h where o: "sc_open st = Some (a, h)" and a: "a < ?i" and g: "scan_good sql st"
    and tag: "2 \<le> length (sc_tag st)" "last (sc_tag st) = CHR ''$''"
    using assms by (auto simp: scan_inv_good region_ok_def)
  have g1: "scan_good sql (push_hidden_char sql st)" using good_hidden [OF g] o assms(3) by simp
  let ?st1 = "push_hidden_until sql ?e st"
  have "scan_good sql (close_hidden (sc_i ?st1) ?st1)" if p: "prefix (sc_tag st) (drop ?i sql)"
  proof -
    from p obtain r where r: "drop ?i sql = sc_tag st @ r" by (auto simp: prefix_def)
    then have "length (drop ?i sql) = length (sc_tag st) + length r" by simp
    with assms(3) have e: "?e \<le> length sql" by simp
    have "sql ! (?e - 1) = drop ?i sql ! (length (sc_tag st) - 1)"
      using tag assms(3) by (simp add: algebra_simps)
    also have "\<dots> = sc_tag st ! (length (sc_tag st) - 1)"
      using tag unfolding r by (intro nth_append_left) linarith
    also have "\<dots> = last (sc_tag st)"
      using tag by (intro last_conv_nth [symmetric]) auto
    finally have "\<not> is_e (sql ! (?e - 1))" using tag by simp
    then have "\<not> is_e (sql ! (sc_i ?st1 - 1))"
      using e by (intro push_hidden_until_not_e) simp_all
    moreover have "scan_good sql ?st1" using good_until [OF e g] o by simp
    ultimately show ?thesis
      using o a push_hidden_until_ge [of st sql ?e] by (intro good_close [of sql ?st1 a h]) simp_all
  qed
  then show ?thesis
    using assms(2) g1 o a tag less_trans [OF a char_end_gt_any]
    by (auto simp: scan_dollar_quote_def scan_inv_good region_ok_def Let_def)
qed

lemma scan_inv_code:
  assumes "scan_inv sql st" "sc_region st = Code" "sc_i st < length sql"
  shows "scan_inv sql (scan_code sql st)"
proof -
  let ?i = "sc_i st"
  have o: "sc_open st = None" and g: "scan_good sql st"
    using assms by (auto simp: scan_inv_good region_ok_def)
  have go: "scan_good sql (st\<lparr>sc_open := Some (?i, h)\<rparr>)" if "\<not> is_e (sql ! ?i)" for h
    using good_open [OF g o assms(3) that] .
  have quote: "scan_inv sql ((push_hidden_char sql (st\<lparr>sc_open := Some (if e then ?i - 1 else ?i, Literal)\<rparr>))
      \<lparr>sc_region := SingleQuote e\<rparr>)" if "sql ! ?i = sq" "e = is_e_string_prefix sql ?i" for e
  proof -
    have "scan_good sql (st\<lparr>sc_open := Some (if e then ?i - 1 else ?i, Literal)\<rparr>)"
      using go good_open_e [OF g o assms(3)] that by (cases e) simp_all
    moreover have "(if e then ?i - 1 else ?i) < char_end sql ?i"
      by (simp add: less_imp_diff_less)
    ultimately show ?thesis
      using assms(3) good_hidden by (simp add: scan_inv_good region_ok_def)
  qed
  have two: "scan_good sql (push_hidden_char sql (push_hidden_char sql
      (st\<lparr>sc_open := Some (?i, Comment)\<rparr>)))"
    if "\<not> is_e (sql ! ?i)" "byte_at sql (?i + 1) = Some c" "\<not> is_cont_byte c" for c
    using good_hidden2 [OF go [OF that(1), of Comment], of c] that by simp
  have lt: "?i < char_end sql (char_end sql ?i)" "Suc (Suc 0) \<le> char_end sql (char_end sql ?i)"
    using char_end_gt_any [of ?i sql] char_end_gt_any [of "char_end sql ?i" sql] by linarith+
  have dollar: "scan_inv sql ((push_hidden_until sql e (st\<lparr>sc_open := Some (?i, Literal)\<rparr>))
      \<lparr>sc_tag := tag, sc_region := DollarQuote\<rparr>)"
    if "sql ! ?i = CHR ''$''" "dollar_quote_tag sql ?i = Some (tag, e)" for tag e
  proof -
    from dollar_quote_tag_SomeD [OF that(2)]
    have e: "?i + 2 \<le> e" "e \<le> length sql" "sql ! (e - 1) = CHR ''$''" "tag = slice sql ?i e" by auto
    then have "2 \<le> length tag" "tag \<noteq> []" by (auto simp: slice_def)
    moreover from this e have "last tag = CHR ''$''"
      by (simp add: last_conv_nth length_slice nth_slice)
    moreover have "scan_good sql (push_hidden_until sql e (st\<lparr>sc_open := Some (?i, Literal)\<rparr>))"
      using good_until [OF e(2) go] that by simp
    moreover have "?i < sc_i (push_hidden_until sql e (st\<lparr>sc_open := Some (?i, Literal)\<rparr>))"
      using e push_hidden_until_gt [of "st\<lparr>sc_open := Some (?i, Literal)\<rparr>" e sql] by simp
    ultimately show ?thesis by (simp add: scan_inv_good region_ok_def)
  qed
  have vis: "scan_inv sql (push_visible_char sql st)"
    using good_visible [OF g o assms(3)] o assms(2) by (simp add: scan_inv_good region_ok_def)
  show ?thesis
    unfolding scan_code_def Let_def
    using assms(2,3) quote two lt dollar vis good_semicolon [OF g o assms(3)] good_visible [OF g o assms(3)] o
    by (simp add: scan_inv_good region_ok_def split: option.split prod.split)
qed

lemma scan_inv_step:
  assumes "scan_inv sql st" "sc_i st < length sql"
  shows "scan_inv sql (scan_step sql st)"
proof -
  have skip: "scan_inv sql (push_visible_char sql st)" if "sc_region st = Code"
  proof -
    have o: "sc_open st = None" and g: "scan_good sql st"
      using assms that by (auto simp: scan_inv_good region_ok_def)
    show ?thesis
      using good_visible [OF g o assms(2)] o that by (simp add: scan_inv_good region_ok_def)
  qed
  have "scan_inv sql (st\<lparr>sc_in_ident := b\<rparr>)" for b
    using assms(1) by (cases "sc_region st") (simp_all add: scan_inv_good region_ok_def)
  then have "scan_inv sql (scan_region sql (st\<lparr>sc_in_ident := b\<rparr>))" for b
    using assms(2)
    by (cases "sc_region st")
       (simp_all add: scan_region_def scan_inv_code scan_inv_double_quote scan_inv_single_quote
          scan_inv_line_comment scan_inv_block_comment scan_inv_dollar_quote)
  with skip show ?thesis by (simp add: scan_step_def Let_def)
qed

lemma scan_inv_init: "scan_inv sql scan_init"
  by (simp add: scan_inv_def scan_core_def core_def layout_def mask_exact_def spans_ok_def
      open_spans_def region_ok_def semis_ok_def scan_init_def)

lemma scan_inv_run: "scan_inv sql (scan_loop sql scan_init)"
  by (rule scan_run.run_invariant [OF scan_inv_step scan_inv_init])

lemma scan_run_end: "sc_i (scan_loop sql scan_init) = length sql"
proof -
  have "\<not> sc_i (scan_loop sql scan_init) < length sql" by (rule scan_run.run_exit)
  moreover have "sc_i (scan_loop sql scan_init) \<le> length sql"
    using scan_inv_run [of sql]
    by (simp add: scan_inv_def scan_core_def core_def layout_def)
  ultimately show ?thesis by simp
qed

text \<open>The facts about the finished scan, as one bundle for the properties.\<close>

lemma scan_final:
  shows scan_masked_length: "length (masked (scan sql)) = length sql"
    and scan_spans_ok: "spans_ok sql (length sql) (hidden_of (scan sql))"
    and scan_mask_exact: "mask_exact sql (length sql) (masked (scan sql)) (hidden_of (scan sql))"
    and scan_semis_sorted: "sorted_wrt (<) (semicolons (scan sql))"
    and scan_semis_code: "\<forall>p \<in> set (semicolons (scan sql)).
      p < length sql \<and> sql ! p = CHR '';'' \<and> masked (scan sql) ! p = CHR '';''"
proof -
  let ?st = "scan_loop sql scan_init"
  have inv: "scan_core sql ?st" "region_ok sql ?st" "semis_ok sql ?st" and i: "sc_i ?st = length sql"
    using scan_inv_run [of sql] scan_run_end [of sql] by (simp_all add: scan_inv_def)
  have lay: "layout sql (length sql) (sc_masked ?st) (sc_hidden ?st) (sc_open ?st)"
    and ex: "mask_exact sql (length sql) (sc_masked ?st)
      (sc_hidden ?st @ open_spans (length sql) (sc_open ?st))"
    using inv(1) i by (simp_all add: scan_core_def core_def)
  have a: "\<forall>(a, h) \<in> set_option (sc_open ?st). a < length sql"
    using inv(2) i by (simp add: region_ok_def)
  show "length (masked (scan sql)) = length sql"
    using lay by (simp add: scan_def Let_def layout_def)
  show "spans_ok sql (length sql) (hidden_of (scan sql))"
    using lay a
    by (auto simp: scan_def Let_def layout_def spans_ok_def span_before_def sorted_wrt_append
        split: option.splits)
  show "mask_exact sql (length sql) (masked (scan sql)) (hidden_of (scan sql))"
    using ex by (simp add: scan_def Let_def open_spans_def)
  show "sorted_wrt (<) (semicolons (scan sql))"
    using inv(3) by (simp add: scan_def Let_def semis_ok_def)
  show "\<forall>p \<in> set (semicolons (scan sql)).
      p < length sql \<and> sql ! p = CHR '';'' \<and> masked (scan sql) ! p = CHR '';''"
    using inv(3) i by (simp add: scan_def Let_def semis_ok_def)
qed

lemma scan_depth_bound:
  "scan_inv sql st \<Longrightarrow> sc_region st = BlockComment d \<Longrightarrow> 2 * d \<le> length sql"
  by (auto simp: scan_inv_def scan_core_def core_def layout_def region_ok_def)

subsection \<open>Properties of the masked copy, the spans and the separators\<close>

definition code_byte :: "string \<Rightarrow> nat \<Rightarrow> char" where
  "code_byte sql k = (if hidden_at sql (hidden_spans sql) k then CHR '' '' else sql ! k)"

lemma masked_nth: "k < length sql \<Longrightarrow> masked (scan sql) ! k = code_byte sql k"
  using scan_mask_exact [of sql] by (simp add: mask_exact_def code_byte_def hidden_spans_def)

text \<open>
  C21: the masked copy is the input, byte for byte, with the bytes of the hidden spans blanked to spaces, except
  that the \<open>E\<close> or \<open>e\<close> with which the span of an escape string \<open>E'...'\<close> begins stays as it is; so every offset
  keeps its meaning. A span that begins with such a letter is an escape string: a quote follows.
\<close>

theorem scan_masked_exactly_hidden:
  "masked (scan sql) =
     map (\<lambda>k. if \<exists>(a, b, h) \<in> set (hidden_spans sql).
                 (if sql ! a = CHR ''E'' \<or> sql ! a = CHR ''e'' then a < k else a \<le> k) \<and> k < b
              then CHR '' '' else sql ! k) [0..<length sql] \<and>
   list_all (\<lambda>(a, b, h). if sql ! a = CHR ''E'' \<or> sql ! a = CHR ''e'' then sql ! (a + 1) = CHR 0x27 else True) (hidden_spans sql)"
proof
  show "masked (scan sql) =
     map (\<lambda>k. if \<exists>(a, b, h) \<in> set (hidden_spans sql).
                 (if sql ! a = CHR ''E'' \<or> sql ! a = CHR ''e'' then a < k else a \<le> k) \<and> k < b
              then CHR '' '' else sql ! k) [0..<length sql]"
    unfolding hidden_at_unfold [symmetric] using scan_masked_length [of sql]
    by (intro nth_equalityI) (simp_all add: masked_nth code_byte_def)
qed (use scan_spans_ok [of sql] in \<open>auto simp: hidden_spans_def spans_ok_def start_ok_def is_e_def list_all_iff\<close>)

text \<open>
  The hidden spans come in ascending order without overlap, none is empty and none runs past
  the end of the input, on any input (unterminated literals and comments included).
\<close>

theorem scan_hidden_spans_ordered:
  "sorted_wrt span_before (hidden_spans sql) \<and>
   list_all (\<lambda>(a, b, _). a < b \<and> b \<le> length sql) (hidden_spans sql)"
  using scan_spans_ok [of sql] by (auto simp: spans_ok_def hidden_spans_def list_all_iff)

text \<open>
  Every statement separator the scanner reports is a \<open>;\<close> of the input outside all hidden
  spans, and they are reported once each, in order.
\<close>

theorem scan_semicolons_in_code:
  "sorted_wrt (<) (semicolons (scan sql)) \<and>
   list_all (\<lambda>p. p < length sql \<and> sql ! p = CHR '';'' \<and> \<not> hidden_at sql (hidden_spans sql) p)
     (semicolons (scan sql))"
  using scan_semis_sorted [of sql] scan_semis_code [of sql] masked_nth [of _ sql]
  by (auto simp: list_all_iff code_byte_def split: if_splits)

subsection \<open>Identifier search\<close>

text \<open>
  What the search promises: a whole-word, case-insensitive occurrence none of whose bytes is
  hidden.
\<close>

definition visible_occurrence :: "string \<Rightarrow> string \<Rightarrow> nat \<Rightarrow> bool" where
  "visible_occurrence sql ident p \<longleftrightarrow>
     p + length ident \<le> length sql \<and>
     to_ascii_lowercase (slice sql p (p + length ident)) = to_ascii_lowercase ident \<and>
     (\<forall>k. p \<le> k \<and> k < p + length ident \<longrightarrow> \<not> hidden_at sql (hidden_spans sql) k) \<and>
     (p = 0 \<or> \<not> is_ident_char_byte (code_byte sql (p - 1))) \<and>
     (p + length ident = length sql \<or> \<not> is_ident_char_byte (code_byte sql (p + length ident)))"

lemma to_lower_underscore [simp]: "to_lower c = CHR ''_'' \<longleftrightarrow> c = CHR ''_''"
  by (rule to_lower_eq_iff) (simp add: ferro_byte byte_def)

lemma to_lower_space [simp]: "to_lower c = CHR '' '' \<longleftrightarrow> c = CHR '' ''"
  by (rule to_lower_eq_iff) (simp add: ferro_byte byte_def)

lemma is_ident_char_byte_to_lower [simp]: "is_ident_char_byte (to_lower c) = is_ident_char_byte c"
  by (simp add: is_ident_char_byte_def)

lemma lower_masked_nth:
  "k < length sql \<Longrightarrow> to_ascii_lowercase (masked (scan sql)) ! k = to_lower (code_byte sql k)"
  by (simp add: to_ascii_lowercase_def scan_masked_length masked_nth)

lemma slice_eq_iff:
  "p + length n \<le> length s \<Longrightarrow>
     slice s p (p + length n) = n \<longleftrightarrow> (\<forall>k < length n. s ! (p + k) = n ! k)"
  by (auto simp: list_eq_iff_nth_eq length_slice nth_slice)

lemma code_match_iff:
  assumes "CHR '' '' \<notin> set ident" and p: "p + length ident \<le> length sql"
  shows "(\<forall>k < length ident. to_lower (code_byte sql (p + k)) = to_lower (ident ! k)) \<longleftrightarrow>
    to_ascii_lowercase (slice sql p (p + length ident)) = to_ascii_lowercase ident \<and>
    (\<forall>k. p \<le> k \<and> k < p + length ident \<longrightarrow> \<not> hidden_at sql (hidden_spans sql) k)"
    (is "?L \<longleftrightarrow> ?E \<and> ?V")
proof
  assume L: ?L
  have vis: "\<not> hidden_at sql (hidden_spans sql) (p + k)" if "k < length ident" for k
  proof
    assume "hidden_at sql (hidden_spans sql) (p + k)"
    then have "code_byte sql (p + k) = CHR '' ''" by (simp add: code_byte_def)
    then have "to_lower CHR '' '' = to_lower (ident ! k)" using L that by metis
    then have "ident ! k = CHR '' ''" by (metis to_lower_space)
    with assms(1) that show False by (metis nth_mem)
  qed
  have "\<not> hidden_at sql (hidden_spans sql) k" if "p \<le> k" "k < p + length ident" for k
    using vis [of "k - p"] that by simp
  then have V: ?V by blast
  have E: ?E
    using L vis p by (auto simp: to_ascii_lowercase_def list_eq_iff_nth_eq length_slice nth_slice code_byte_def)
  from E V show "?E \<and> ?V" ..
next
  assume "?E \<and> ?V"
  then show ?L
    using p by (auto simp: to_ascii_lowercase_def list_eq_iff_nth_eq length_slice nth_slice code_byte_def)
qed

lemma ident_match_at_iff:
  assumes "CHR '' '' \<notin> set ident" "p + length ident \<le> length sql"
  shows "ident_match_at (to_ascii_lowercase (masked (scan sql))) (to_ascii_lowercase ident) p \<longleftrightarrow>
    visible_occurrence sql ident p"
proof -
  let ?hay = "to_ascii_lowercase (masked (scan sql))"
  have "slice ?hay p (p + length (to_ascii_lowercase ident)) = to_ascii_lowercase ident \<longleftrightarrow>
      (\<forall>k < length ident. to_lower (code_byte sql (p + k)) = to_lower (ident ! k))"
    using assms(2) slice_eq_iff [of p "to_ascii_lowercase ident" ?hay]
    by (simp add: scan_masked_length lower_masked_nth to_ascii_lowercase_def masked_nth)
  then show ?thesis
    using assms code_match_iff [OF assms]
    by (auto simp: ident_match_at_def visible_occurrence_def scan_masked_length lower_masked_nth)
qed

text \<open>
  \<open>contains_identifier_ci\<close> finds an identifier exactly when it occurs as a whole word in
  visible code; text inside literals, comments and dollar-quoted bodies never matches, and a
  visible occurrence is never missed.
\<close>

theorem contains_identifier_ci_iff_visible:
  assumes "CHR '' '' \<notin> set ident"
  shows "contains_identifier_ci sql ident \<longleftrightarrow> ident \<noteq> [] \<and> (\<exists>p. visible_occurrence sql ident p)"
proof (cases "ident = [] \<or> length sql < length ident")
  case True
  then show ?thesis
    by (auto simp: contains_identifier_ci_def Let_def scan_masked_length visible_occurrence_def)
next
  case False
  have "contains_identifier_ci sql ident \<longleftrightarrow>
      (\<exists>p. p + length ident \<le> length sql \<and>
        ident_match_at (to_ascii_lowercase (masked (scan sql))) (to_ascii_lowercase ident) p)"
  proof -
    have "set [0..<length sql - length ident + 1] = {p. p + length ident \<le> length sql}"
      using False by auto
    then show ?thesis
      using False
      by (auto simp: contains_identifier_ci_def Let_def scan_masked_length list_ex_iff
          simp del: set_upt upt_Suc)
  qed
  also have "\<dots> \<longleftrightarrow> (\<exists>p. visible_occurrence sql ident p)"
    using ident_match_at_iff [OF assms]
    by (auto simp: visible_occurrence_def)
  finally show ?thesis using False by simp
qed

theorem contains_identifier_ci_iff_visible_witness:
  "contains_identifier_ci ''LISTEN c'' ''listen'' \<and> (\<exists>p. visible_occurrence ''LISTEN c'' ''listen'' p)"
proof -
  have "CHR '' '' \<notin> set ''listen''" by simp
  moreover have "contains_identifier_ci ''LISTEN c'' ''listen''" by code_simp
  ultimately show ?thesis
    using contains_identifier_ci_iff_visible [of "''listen''" "''LISTEN c''"] by simp
qed

subsection \<open>Splitting into statements\<close>

fun join_semi :: "string list \<Rightarrow> string" where
  "join_semi [] = []"
| "join_semi [x] = x"
| "join_semi (x # y # zs) = x @ CHR '';'' # join_semi (y # zs)"

lemma cut_at_not_Nil [simp]: "cut_at sql start ps \<noteq> []"
  by (cases ps) simp_all

lemma join_semi_Cons: "ys \<noteq> [] \<Longrightarrow> join_semi (x # ys) = x @ CHR '';'' # join_semi ys"
  by (cases ys) simp_all

lemma join_cut_at:
  assumes "sorted_wrt (<) ps" "\<forall>p \<in> set ps. start \<le> p \<and> p < length sql \<and> sql ! p = CHR '';''"
  shows "join_semi (cut_at sql start ps) = drop start sql"
  using assms
proof (induction ps arbitrary: start)
  case Nil
  then show ?case by simp
next
  case (Cons p ps)
  then have "join_semi (cut_at sql (p + 1) ps) = drop (p + 1) sql"
    by (intro Cons.IH) (auto simp: Suc_le_eq)
  moreover have "drop start sql = slice sql start p @ drop p sql"
    using Cons.prems by (simp add: slice_def) (metis append_take_drop_id drop_drop le_add_diff_inverse2)
  moreover have "drop p sql = CHR '';'' # drop (p + 1) sql"
    using Cons.prems by (simp add: Cons_nth_drop_Suc [symmetric])
  ultimately show ?case by (simp add: join_semi_Cons)
qed

text \<open>
  Splitting loses nothing. The pieces between the separators, joined by \<open>;\<close> again, are the
  input; the statements are those pieces trimmed, less the empty ones, and each is a non-empty
  contiguous part of the input.
\<close>

theorem split_top_level_statements_complete:
  "join_semi (cut_at sql 0 (semicolons (scan sql))) = sql \<and>
   split_top_level_statements sql =
     filter (\<lambda>s. s \<noteq> []) (map trim (cut_at sql 0 (semicolons (scan sql)))) \<and>
   list_all (\<lambda>s. s \<noteq> [] \<and> sublist s sql) (split_top_level_statements sql)"
proof -
  have "join_semi (cut_at sql 0 (semicolons (scan sql))) = sql"
    using join_cut_at [of "semicolons (scan sql)" 0 sql] scan_semis_sorted scan_semis_code by auto
  moreover have "sublist piece sql" if "piece \<in> set (cut_at sql start ps)" for piece start ps
    using that
  proof (induction ps arbitrary: start)
    case Nil
    then show ?case by (simp add: sublist_drop)
  next
    case (Cons p ps)
    then show ?case
      by (auto simp: slice_def intro: sublist_order.order_trans [OF sublist_take sublist_drop])
  qed
  then have "list_all (\<lambda>s. s \<noteq> [] \<and> sublist s sql) (split_top_level_statements sql)"
    unfolding split_top_level_statements_def list_all_iff
    by (auto intro: sublist_order.order_trans [OF trim_sublist])
  ultimately show ?thesis by (simp add: split_top_level_statements_def)
qed

subsection \<open>A literal the scanner reads differently from the server\<close>

definition e_string_then_lock :: string where
  "e_string_then_lock = ''SELECT E'' @ [sq] @ ''a'' @ [backslash, backslash, sq] @ '', pg_advisory_lock(1)''"

text \<open>
  In an \<open>E'...'\<close> string a backslash escapes the next character, so \<open>E'a\\'\<close> (an escaped
  backslash) ends at its quote. The scanner only knows the pair \<open>\'\<close>: it takes the second backslash
  and the closing quote as an escaped quote, runs on to the end of the input, and hides the
  \<open>pg_advisory_lock\<close> call after the literal, which PostgreSQL executes.
\<close>

theorem scan_hides_code_after_escaped_backslash:
  "hidden_spans e_string_then_lock = [(7, 34, Literal)] \<and>
   length e_string_then_lock = 34 \<and>
   \<not> contains_identifier_ci e_string_then_lock ''pg_advisory_lock''"
  by code_simp

end
