(* ===== verification/Rules.thy ===== *)
theory Rules
  imports Scan_Correct
begin

text \<open>
  The assist classifier (\<open>engine/crates/ferro-classify/src/lib.rs\<close> and \<open>rules.rs\<close>): which
  statements change session state that the wire protocol does not show. \<open>classify_one_pg\<close>,
  \<open>classify_one_mysql\<close> and \<open>classify_one_sqlite\<close> are the per-dialect rule lists, first match wins;
  \<open>classify\<close> takes the trigger of highest precedence over the top-level statements.
\<close>

subsection \<open>Data\<close>

datatype dialect = Postgres | MySql | Sqlite

datatype pin_trigger = Listen | AdvisoryLock | Prepare | Temp | Set | PinFunction | Unknown

fun precedence :: "pin_trigger \<Rightarrow> nat" where
  "precedence PinFunction = 6"
| "precedence Listen = 5"
| "precedence Prepare = 4"
| "precedence Set = 3"
| "precedence Temp = 2"
| "precedence AdvisoryLock = 1"
| "precedence Unknown = 0"

definition safe_leading_keywords :: "string list" where
  "safe_leading_keywords =
     [''SELECT'', ''INSERT'', ''UPDATE'', ''DELETE'', ''WITH'', ''VALUES'', ''TABLE'', ''SHOW'',
      ''EXPLAIN'', ''ANALYZE'', ''VACUUM'', ''FETCH'', ''MOVE'', ''CLOSE'', ''COPY'', ''CALL'', ''DO'',
      ''TRUNCATE'', ''MERGE'', ''CREATE'', ''ALTER'', ''DROP'', ''GRANT'', ''REVOKE'', ''COMMENT'',
      ''REFRESH'', ''REINDEX'', ''CLUSTER'', ''CHECKPOINT'', ''RESET'', ''LOCK'', ''DISCARD'']"

definition advisory_session_functions :: "string list" where
  "advisory_session_functions =
     [''pg_advisory_lock'', ''pg_advisory_lock_shared'', ''pg_try_advisory_lock'',
      ''pg_try_advisory_lock_shared'']"

definition mysql_lock_functions :: "string list" where
  "mysql_lock_functions = [''GET_LOCK'', ''RELEASE_LOCK'', ''RELEASE_ALL_LOCKS'']"

subsection \<open>Statement shapes\<close>

definition is_safe_leading_keyword :: "string option \<Rightarrow> bool" where
  "is_safe_leading_keyword leading =
     (case leading of Some kw \<Rightarrow> List.member safe_leading_keywords kw | None \<Rightarrow> False)"

definition skip_leading_keyword :: "string \<Rightarrow> string" where
  "skip_leading_keyword s = (let rest = strip_leading_noise s in drop (alpha_run_end rest) rest)"

fun tokens_after_leading_keyword :: "string \<Rightarrow> nat \<Rightarrow> string list" where
  "tokens_after_leading_keyword rest 0 = []"
| "tokens_after_leading_keyword rest (Suc n) =
     (case next_token_after_keyword rest of
        Some tok \<Rightarrow> tok # tokens_after_leading_keyword (skip_leading_keyword rest) n
      | None \<Rightarrow> [])"

definition create_is_temp :: "string \<Rightarrow> bool" where
  "create_is_temp stmt =
     (let tokens = tokens_after_leading_keyword stmt 4;
          tok = byte_at tokens;
          idx0 = 0 :: nat;
          idx1 = (if tok idx0 = Some ''OR'' \<and> tok (idx0 + 1) = Some ''REPLACE''
                  then idx0 + 2 else idx0);
          idx2 = (if tok idx1 = Some ''GLOBAL'' \<or> tok idx1 = Some ''LOCAL''
                  then idx1 + 1 else idx1)
      in tok idx2 = Some ''TEMP'' \<or> tok idx2 = Some ''TEMPORARY'')"

definition select_into_temp :: "string \<Rightarrow> bool" where
  "select_into_temp stmt \<longleftrightarrow>
     contains_identifier_ci stmt ''INTO'' \<and>
     (contains_identifier_ci stmt ''TEMP'' \<or> contains_identifier_ci stmt ''TEMPORARY'')"

subsection \<open>The rule lists\<close>

definition mentions_any :: "string \<Rightarrow> string list \<Rightarrow> bool" where
  "mentions_any stmt fs \<longleftrightarrow> list_ex (contains_identifier_ci stmt) fs"

definition set_is_local :: "string \<Rightarrow> bool" where
  "set_is_local stmt \<longleftrightarrow>
     next_token_after_keyword stmt = Some ''LOCAL'' \<or>
     next_token_after_keyword stmt = Some ''TRANSACTION''"

definition classify_one_pg :: "string \<Rightarrow> string list \<Rightarrow> bool \<Rightarrow> pin_trigger option" where
  "classify_one_pg stmt pin_functions pin_on_unknown =
     (if mentions_any stmt pin_functions then Some PinFunction
      else let leading = leading_keyword stmt in
        if leading = Some ''LISTEN'' \<or> leading = Some ''UNLISTEN'' then Some Listen
        else if leading = Some ''PREPARE'' \<or> leading = Some ''EXECUTE'' \<or> leading = Some ''DEALLOCATE''
        then Some Prepare
        else if leading = Some ''SET'' then (if set_is_local stmt then None else Some Set)
        else if leading = Some ''CREATE'' \<and> create_is_temp stmt then Some Temp
        else if (leading = Some ''SELECT'' \<or> leading = Some ''WITH'') \<and> select_into_temp stmt
        then Some Temp
        else if mentions_any stmt advisory_session_functions then Some AdvisoryLock
        else if is_safe_leading_keyword leading then None
        else if pin_on_unknown then Some Unknown else None)"

definition classify_one_sqlite :: "string \<Rightarrow> string list \<Rightarrow> bool \<Rightarrow> pin_trigger option" where
  "classify_one_sqlite stmt pin_functions pin_on_unknown =
     (if mentions_any stmt pin_functions then Some PinFunction
      else let leading = leading_keyword stmt in
        if leading = Some ''ATTACH'' \<or> leading = Some ''PRAGMA'' then Some Set
        else if is_safe_leading_keyword leading then None
        else if pin_on_unknown then Some Unknown else None)"

definition classify_one_mysql :: "string \<Rightarrow> string list \<Rightarrow> bool \<Rightarrow> pin_trigger option" where
  "classify_one_mysql stmt pin_functions pin_on_unknown =
     (if mentions_any stmt pin_functions then Some PinFunction
      else let leading = leading_keyword stmt in
        if leading = Some ''PREPARE'' \<or> leading = Some ''EXECUTE'' \<or> leading = Some ''DEALLOCATE''
        then Some Prepare
        else if leading = Some ''SET'' then (if set_is_local stmt then None else Some Set)
        else if leading = Some ''CREATE'' \<and> create_is_temp stmt then Some Temp
        else if leading = Some ''LOCK'' \<and> next_token_after_keyword stmt = Some ''TABLES''
        then Some AdvisoryLock
        else if leading = Some ''CALL'' \<or> leading = Some ''DO'' then Some Unknown
        else if mentions_any stmt mysql_lock_functions then Some AdvisoryLock
        else if is_safe_leading_keyword leading then None
        else if pin_on_unknown then Some Unknown else None)"

fun classify_one :: "string \<Rightarrow> dialect \<Rightarrow> string list \<Rightarrow> bool \<Rightarrow> pin_trigger option" where
  "classify_one stmt Postgres pin_functions pin_on_unknown =
     classify_one_pg stmt pin_functions pin_on_unknown"
| "classify_one stmt MySql pin_functions pin_on_unknown =
     classify_one_mysql stmt pin_functions pin_on_unknown"
| "classify_one stmt Sqlite pin_functions pin_on_unknown =
     classify_one_sqlite stmt pin_functions pin_on_unknown"

text \<open>\<open>Iterator::max_by_key\<close>: the last element among those with the greatest key.\<close>

fun max_by_key :: "('a \<Rightarrow> nat) \<Rightarrow> 'a list \<Rightarrow> 'a option" where
  "max_by_key key [] = None"
| "max_by_key key (x # xs) =
     (case max_by_key key xs of
        None \<Rightarrow> Some x
      | Some y \<Rightarrow> if key x \<le> key y then Some y else Some x)"

definition classify :: "string \<Rightarrow> dialect \<Rightarrow> string list \<Rightarrow> bool \<Rightarrow> pin_trigger option" where
  "classify sql d pin_functions pin_on_unknown =
     max_by_key precedence
       (List.map_filter (\<lambda>stmt. classify_one stmt d pin_functions pin_on_unknown)
          (split_top_level_statements sql))"

subsection \<open>Lemmas\<close>

lemma precedence_inj: "precedence a = precedence b \<Longrightarrow> a = b"
  by (cases a; cases b) simp_all

lemma precedence_le_6: "precedence t \<le> 6"
  by (cases t) simp_all

lemma max_by_key_None [simp]: "max_by_key key xs = None \<longleftrightarrow> xs = []"
  by (cases xs) (auto split: option.splits if_splits)

lemma max_by_key_SomeD: "max_by_key key xs = Some m \<Longrightarrow> m \<in> set xs \<and> (\<forall>x \<in> set xs. key x \<le> key m)"
  by (induction xs arbitrary: m) (fastforce split: option.splits if_splits)+

lemma max_by_key_Some_iff:
  assumes "\<And>a b. key a = key b \<Longrightarrow> a = b"
  shows "max_by_key key xs = Some m \<longleftrightarrow> m \<in> set xs \<and> (\<forall>x \<in> set xs. key x \<le> key m)"
proof
  assume R: "m \<in> set xs \<and> (\<forall>x \<in> set xs. key x \<le> key m)"
  then obtain m' where m': "max_by_key key xs = Some m'"
    by (cases "max_by_key key xs") auto
  with R max_by_key_SomeD [OF m'] have "m' = m" by (intro assms) (auto intro: antisym)
  with m' show "max_by_key key xs = Some m" by simp
qed (rule max_by_key_SomeD)

lemma in_map_filter: "x \<in> set (List.map_filter f xs) \<longleftrightarrow> (\<exists>s \<in> set xs. f s = Some x)"
  by (induction xs) (auto simp: List.map_filter_def)

lemma classify_Some_iff:
  "classify sql d pf u = Some t \<longleftrightarrow>
     (\<exists>s \<in> set (split_top_level_statements sql). classify_one s d pf u = Some t) \<and>
     (\<forall>s \<in> set (split_top_level_statements sql).
        \<forall>t'. classify_one s d pf u = Some t' \<longrightarrow> precedence t' \<le> precedence t)"
  unfolding classify_def
  by (subst max_by_key_Some_iff) (auto simp: in_map_filter intro: precedence_inj)

lemma classify_None_iff:
  "classify sql d pf u = None \<longleftrightarrow>
     (\<forall>s \<in> set (split_top_level_statements sql). classify_one s d pf u = None)"
  by (auto simp: classify_def List.map_filter_def filter_empty_conv)

lemmas classify_one_defs =
  classify_one_pg_def classify_one_mysql_def classify_one_sqlite_def

lemma classify_one_PinFunction_iff:
  "classify_one s d pf u = Some PinFunction \<longleftrightarrow> mentions_any s pf"
  by (cases d) (simp_all add: classify_one_defs Let_def)

lemma classify_one_unknown_flag:
  "classify_one s d pf True =
     (case classify_one s d pf False of Some t \<Rightarrow> Some t
      | None \<Rightarrow> if classify_one s d pf True = None then None else Some Unknown)"
  by (cases d) (auto simp: classify_one_defs Let_def)

subsection \<open>Properties\<close>

text \<open>
  \<open>classify\<close> reports a trigger exactly when some top-level statement has it and no statement
  has one of higher precedence.
\<close>

theorem classify_highest_precedence:
  "classify sql d pf u = Some t \<longleftrightarrow>
     (\<exists>s \<in> set (split_top_level_statements sql). classify_one s d pf u = Some t) \<and>
     (\<forall>s \<in> set (split_top_level_statements sql).
        \<forall>t'. classify_one s d pf u = Some t' \<longrightarrow> precedence t' \<le> precedence t)"
  by (rule classify_Some_iff)

theorem classify_highest_precedence_witness:
  "classify ''SET x = 1; LISTEN c'' Postgres [] True = Some Listen \<and>
   precedence Set \<le> precedence Listen"
proof -
  have c: "classify ''SET x = 1; LISTEN c'' Postgres [] True = Some Listen" by code_simp
  have s: "''SET x = 1'' \<in> set (split_top_level_statements ''SET x = 1; LISTEN c'')" by code_simp
  have o: "classify_one ''SET x = 1'' Postgres [] True = Some Set" by code_simp
  from c [unfolded classify_highest_precedence] s o have "precedence Set \<le> precedence Listen" by blast
  with c show ?thesis by simp
qed

text \<open>
  The operator's escape hatch always wins: in every dialect the result is \<open>PinFunction\<close> exactly
  when some top-level statement mentions one of the configured functions in visible code.
\<close>

theorem classify_pin_function_iff:
  "classify sql d pf u = Some PinFunction \<longleftrightarrow>
     (\<exists>s \<in> set (split_top_level_statements sql). \<exists>f \<in> set pf. contains_identifier_ci s f)"
  by (auto simp: classify_Some_iff classify_one_PinFunction_iff precedence_le_6 mentions_any_def
      list_ex_iff)

text \<open>
  Switching \<open>pin_on_unknown\<close> on never loses or changes a trigger; all it can add is
  \<open>Unknown\<close>.
\<close>

theorem classify_pin_on_unknown_monotone:
  "classify sql d pf True =
     (case classify sql d pf False of Some t \<Rightarrow> Some t
      | None \<Rightarrow> if classify sql d pf True = None then None else Some Unknown)"
proof (cases "classify sql d pf False")
  case None
  then have "t = Unknown" if "classify sql d pf True = Some t" for t
    using that classify_one_unknown_flag [of _ d pf]
    by (fastforce simp: classify_None_iff classify_Some_iff split: if_splits)
  with None show ?thesis by (cases "classify sql d pf True") auto
next
  case (Some t)
  have keep: "classify_one s d pf False = Some t' \<Longrightarrow> classify_one s d pf True = Some t'" for s t'
    using classify_one_unknown_flag [of s d pf] by simp
  have new: "classify_one s d pf True = Some t' \<Longrightarrow> classify_one s d pf False = Some t' \<or> t' = Unknown" for s t'
    using classify_one_unknown_flag [of s d pf] by (cases "classify_one s d pf False") auto
  have "classify sql d pf True = Some t"
    using Some keep new unfolding classify_Some_iff by fastforce
  with Some show ?thesis by simp
qed

text \<open>
  On PostgreSQL a statement that mentions a session advisory-lock function in visible code is
  never classified as safe, whatever its leading keyword and wherever it stands in a batch,
  unless it is a \<open>SET LOCAL\<close> or \<open>SET TRANSACTION\<close>.
\<close>

theorem classify_pg_advisory_lock_pinned:
  assumes "s \<in> set (split_top_level_statements sql)"
    and "f \<in> set advisory_session_functions" and "contains_identifier_ci s f"
    and "\<not> (leading_keyword s = Some ''SET'' \<and> set_is_local s)"
  shows "classify sql Postgres pf u \<noteq> None"
proof -
  have "mentions_any s advisory_session_functions"
    using assms(2,3) by (auto simp: mentions_any_def list_ex_iff)
  with assms(4) have "classify_one s Postgres pf u \<noteq> None"
    by (auto simp: classify_one_pg_def Let_def)
  with assms(1) show ?thesis by (auto simp: classify_None_iff)
qed

theorem classify_pg_advisory_lock_pinned_witness:
  "classify ''SELECT 1; SELECT pg_advisory_lock(1)'' Postgres [] False \<noteq> None"
proof (rule classify_pg_advisory_lock_pinned)
  show "''SELECT pg_advisory_lock(1)'' \<in>
      set (split_top_level_statements ''SELECT 1; SELECT pg_advisory_lock(1)'')" by code_simp
  show "''pg_advisory_lock'' \<in> set advisory_session_functions" by code_simp
  show "contains_identifier_ci ''SELECT pg_advisory_lock(1)'' ''pg_advisory_lock''" by code_simp
  show "\<not> (leading_keyword ''SELECT pg_advisory_lock(1)'' = Some ''SET'' \<and>
      set_is_local ''SELECT pg_advisory_lock(1)'')" by code_simp
qed

text \<open>
  On MySQL every statement led by \<open>CALL\<close> or \<open>DO\<close> is pinned, whether or not
  \<open>pin_on_unknown\<close> is set: a stored program may change session state where no lexer sees it.
\<close>

theorem classify_mysql_call_pinned:
  assumes "s \<in> set (split_top_level_statements sql)"
    and "leading_keyword s = Some ''CALL'' \<or> leading_keyword s = Some ''DO''"
  shows "classify sql MySql pf u \<noteq> None"
proof -
  have "classify_one s MySql pf u \<noteq> None"
    using assms(2) by (auto simp: classify_one_mysql_def Let_def)
  with assms(1) show ?thesis by (auto simp: classify_None_iff)
qed

theorem classify_mysql_call_pinned_witness: "classify ''CALL p()'' MySql [] False \<noteq> None"
proof (rule classify_mysql_call_pinned)
  show "''CALL p()'' \<in> set (split_top_level_statements ''CALL p()'')" by code_simp
  show "leading_keyword ''CALL p()'' = Some ''CALL'' \<or> leading_keyword ''CALL p()'' = Some ''DO''"
    by code_simp
qed

text \<open>
  The MySQL rules treat \<open>SET LOCAL\<close> as transaction-scoped and safe. In MySQL and MariaDB
  \<open>LOCAL\<close> is a synonym of \<open>SESSION\<close>, so a statement that changes a session variable is reported
  safe, while the same statement spelled \<open>SESSION\<close> is pinned.
\<close>

theorem classify_mysql_set_local_missed:
  "classify ''SET LOCAL sql_mode = 1'' MySql [] True = None \<and>
   classify ''SET SESSION sql_mode = 1'' MySql [] True = Some Set"
  by code_simp

end
