(* ===== verification/Copy_Shape.thy ===== *)
theory Copy_Shape
  imports Scan_Correct
begin

text \<open>
  The COPY shape check (\<open>engine/crates/ferro-classify/src/copy.rs\<close>): is a statement exactly one
  \<open>COPY ... FROM STDIN\<close> or \<open>COPY ... TO STDOUT\<close>? The token loops of the source walk an index
  through the masked bytes; here they consume the rest of the string from that index. \<open>copy_shape\<close>
  is the specification over token lists that \<open>copy_direction\<close> is proved to implement.
\<close>

subsection \<open>Data\<close>

datatype copy_direction = In | Out

datatype tok = Word string | Quoted | Open | Close | Semicolon | Other

subsection \<open>Tokens\<close>

fun skip_quoted :: "string \<Rightarrow> string option" where
  "skip_quoted [] = None"
| "skip_quoted (c # r) =
     (if c = dq then
        (case r of d # r' \<Rightarrow> if d = dq then skip_quoted r' else Some r | [] \<Rightarrow> Some r)
      else skip_quoted r)"

definition is_word_start :: "char \<Rightarrow> bool" where
  "is_word_start c \<longleftrightarrow> is_ascii_alphabetic c \<or> c = CHR ''_'' \<or> 128 \<le> byte c"

definition is_word_cont :: "char \<Rightarrow> bool" where
  "is_word_cont c \<longleftrightarrow> is_ascii_alphanumeric c \<or> c = CHR ''_'' \<or> c = CHR ''$'' \<or> 128 \<le> byte c"

lemma skip_quoted_shorter: "skip_quoted s = Some r \<Longrightarrow> length r < length s"
  by (induction s rule: skip_quoted.induct)
     (auto split: if_splits list.splits intro: less_SucI)

definition punct :: "char \<Rightarrow> tok" where
  "punct c = (if c = CHR ''('' then Open else if c = CHR '')'' then Close
     else if c = CHR '';'' then Semicolon else Other)"

lemma word_start_cont: "is_word_start c \<Longrightarrow> is_word_cont c"
  by (auto simp: is_word_start_def is_word_cont_def is_ascii_alphanumeric_def)

function tokenize :: "string \<Rightarrow> tok list option" where
  "tokenize [] = Some []"
| "tokenize (c # r) =
     (if is_ascii_whitespace c then tokenize r
      else if c = dq then
        (case skip_quoted r of
           None \<Rightarrow> None
         | Some r' \<Rightarrow> map_option ((#) Quoted) (tokenize r'))
      else if is_word_start c then
        map_option ((#) (Word (to_ascii_uppercase (takeWhile is_word_cont (c # r)))))
          (tokenize (dropWhile is_word_cont (c # r)))
      else map_option ((#) (punct c)) (tokenize r))"
  by pat_completeness auto
termination
proof (relation "measure length", goal_cases)
  case (3 c r r')
  then show ?case by (auto dest: skip_quoted_shorter)
next
  case (4 c r)
  then show ?case
    using length_dropWhile_le [of is_word_cont r] by (simp add: word_start_cont less_Suc_eq_le)
qed simp_all

subsection \<open>The direction of a statement\<close>

text \<open>The first \<open>FROM\<close> or \<open>TO\<close> outside parentheses, with the tokens after it.\<close>

fun find_target :: "int \<Rightarrow> tok list \<Rightarrow> (copy_direction \<times> tok list) option" where
  "find_target depth [] = None"
| "find_target depth (t # ts) =
     (case t of
        Open \<Rightarrow> find_target (depth + 1) ts
      | Close \<Rightarrow> if depth - 1 < 0 then None else find_target (depth - 1) ts
      | Semicolon \<Rightarrow> None
      | Word w \<Rightarrow>
          if depth = 0 \<and> w = ''FROM'' then Some (In, ts)
          else if depth = 0 \<and> w = ''TO'' then Some (Out, ts)
          else find_target depth ts
      | _ \<Rightarrow> find_target depth ts)"

fun stdio_word :: "copy_direction \<Rightarrow> string" where
  "stdio_word In = ''STDIN''"
| "stdio_word Out = ''STDOUT''"

text \<open>Nothing but semicolons after the first semicolon.\<close>

definition only_trailing_semicolons :: "tok list \<Rightarrow> bool" where
  "only_trailing_semicolons rest =
     (case find_pred (\<lambda>t. t = Semicolon) rest of
        Some semi \<Rightarrow> \<not> list_ex (\<lambda>t. t \<noteq> Semicolon) (drop (semi + 1) rest)
      | None \<Rightarrow> True)"

definition direction_of_tokens :: "tok list \<Rightarrow> copy_direction option" where
  "direction_of_tokens toks =
     (case toks of
        Word w # after \<Rightarrow>
          if w = ''COPY'' then
            (case find_target 0 after of
               None \<Rightarrow> None
             | Some (dir, ts) \<Rightarrow>
                 (case ts of
                    Word w' # rest \<Rightarrow>
                      if w' = stdio_word dir \<and> only_trailing_semicolons rest then Some dir else None
                  | _ \<Rightarrow> None))
          else None
      | _ \<Rightarrow> None)"

definition copy_probe :: "string \<Rightarrow> string" where
  "copy_probe sql = sql @ [newline, CHR '';'']"

definition copy_direction_of :: "string \<Rightarrow> copy_direction option" where
  "copy_direction_of sql =
     (let m = masked_code (copy_probe sql) in
      if m = [] \<or> last m \<noteq> CHR '';'' then None
      else (case tokenize (take (length m - 2) m) of
              None \<Rightarrow> None
            | Some toks \<Rightarrow> direction_of_tokens toks))"

definition speaks_copy_stdio :: "string \<Rightarrow> bool" where
  "speaks_copy_stdio sql \<longleftrightarrow>
     list_ex (\<lambda>s. copy_direction_of s \<noteq> None) (split_top_level_statements sql)"

subsection \<open>Specification over tokens\<close>

fun depth_after :: "int \<Rightarrow> tok list \<Rightarrow> int" where
  "depth_after d [] = d"
| "depth_after d (t # ts) =
     depth_after (if t = Open then d + 1 else if t = Close then d - 1 else d) ts"

text \<open>
  The part between \<open>COPY\<close> and its target keyword: parentheses balance, there is no separator, and
  \<open>FROM\<close> and \<open>TO\<close> occur inside parentheses only.
\<close>

definition copy_subject :: "tok list \<Rightarrow> bool" where
  "copy_subject mid \<longleftrightarrow>
     depth_after 0 mid = 0 \<and> Semicolon \<notin> set mid \<and>
     (\<forall>k \<le> length mid. 0 \<le> depth_after 0 (take k mid)) \<and>
     (\<forall>k < length mid. depth_after 0 (take k mid) = 0 \<longrightarrow>
        mid ! k \<noteq> Word ''FROM'' \<and> mid ! k \<noteq> Word ''TO'')"

fun target_word :: "copy_direction \<Rightarrow> string" where
  "target_word In = ''FROM''"
| "target_word Out = ''TO''"

definition copy_shape :: "copy_direction \<Rightarrow> tok list \<Rightarrow> bool" where
  "copy_shape dir toks \<longleftrightarrow>
     (\<exists>mid rest n. toks = Word ''COPY'' # mid @ Word (target_word dir) # Word (stdio_word dir) # rest \<and>
        copy_subject mid \<and>
        (\<exists>opts. rest = opts @ replicate n Semicolon \<and> Semicolon \<notin> set opts))"

subsection \<open>The check implements the specification\<close>

fun subject_from :: "int \<Rightarrow> tok list \<Rightarrow> bool" where
  "subject_from d [] \<longleftrightarrow> d = 0"
| "subject_from d (t # ts) \<longleftrightarrow>
     t \<noteq> Semicolon \<and> (d = 0 \<longrightarrow> t \<noteq> Word ''FROM'' \<and> t \<noteq> Word ''TO'') \<and>
     0 \<le> depth_after d [t] \<and> subject_from (depth_after d [t]) ts"

lemma all_le_Suc: "(\<forall>k \<le> Suc n. P k) \<longleftrightarrow> P 0 \<and> (\<forall>k \<le> n. P (Suc k))"
  by (metis Suc_le_mono bot_nat_0.extremum not0_implies_Suc)

lemma subject_from_iff:
  "0 \<le> d \<Longrightarrow> subject_from d mid \<longleftrightarrow>
     depth_after d mid = 0 \<and> Semicolon \<notin> set mid \<and>
     (\<forall>k \<le> length mid. 0 \<le> depth_after d (take k mid)) \<and>
     (\<forall>k < length mid. depth_after d (take k mid) = 0 \<longrightarrow>
        mid ! k \<noteq> Word ''FROM'' \<and> mid ! k \<noteq> Word ''TO'')"
proof (induction mid arbitrary: d)
  case Nil
  then show ?case by auto
next
  case (Cons t ts)
  define d' where "d' = depth_after d [t]"
  have da: "depth_after d (t # xs) = depth_after d' xs" for xs
    by (simp add: d'_def)
  have all: "(\<forall>k < Suc n. P k) \<longleftrightarrow> P 0 \<and> (\<forall>k < n. P (Suc k))" for P n
    by (auto simp: less_Suc_eq_0_disj)
  note unfold_Cons = subject_from.simps(2) length_Cons take_Suc_Cons take_0 nth_Cons_0 nth_Cons_Suc
    all all_le_Suc da depth_after.simps(1) list.set insert_iff
  have "0 \<le> d'" if "\<forall>k \<le> length ts. 0 \<le> depth_after d' (take k ts)"
    using that [rule_format, of 0] by simp
  with Cons show ?case
    unfolding unfold_Cons by blast
qed

lemma find_target_Some_iff:
  "0 \<le> d \<Longrightarrow> find_target d ts = Some (dir, rest) \<longleftrightarrow>
     (\<exists>mid. ts = mid @ Word (target_word dir) # rest \<and> subject_from d mid)"
proof (induction ts arbitrary: d)
  case Nil
  then show ?case by simp
next
  case (Cons t ts)
  let ?d = "depth_after d [t]"
  have split_mid: "(\<exists>mid. t # ts = mid @ x # rest \<and> subject_from d mid) \<longleftrightarrow>
      (t = x \<and> ts = rest \<and> d = 0) \<or>
      (\<exists>mid. ts = mid @ x # rest \<and> subject_from d (t # mid))" for x
    by (auto simp: Cons_eq_append_conv)
  have w: "target_word dir = ''FROM'' \<longleftrightarrow> dir = In" "target_word dir = ''TO'' \<longleftrightarrow> dir = Out"
    "''FROM'' = target_word dir \<longleftrightarrow> dir = In" "''TO'' = target_word dir \<longleftrightarrow> dir = Out"
    by (cases dir; simp)+
  show ?case
  proof (cases "t = Word ''FROM'' \<or> t = Word ''TO''")
    case True
    then show ?thesis
      unfolding split_mid using Cons.IH [OF Cons.prems] Cons.prems by (cases dir) (auto simp: w)
  next
    case False
    then have "t \<noteq> Word (target_word dir)" by (cases dir) auto
    then show ?thesis
      unfolding split_mid using False Cons.IH [of ?d] Cons.prems by (cases t) auto
  qed
qed

lemma only_trailing_semicolons_iff:
  "only_trailing_semicolons rest \<longleftrightarrow>
     (\<exists>opts n. rest = opts @ replicate n Semicolon \<and> Semicolon \<notin> set opts)"
proof (induction rest)
  case Nil
  then show ?case by (auto simp: only_trailing_semicolons_def)
next
  case (Cons t ts)
  show ?case
  proof (cases "t = Semicolon")
    case True
    then have "only_trailing_semicolons (t # ts) \<longleftrightarrow> (\<forall>x \<in> set ts. x = Semicolon)"
      by (auto simp: only_trailing_semicolons_def list_ex_iff)
    also have "\<dots> \<longleftrightarrow> ts = replicate (length ts) Semicolon"
      by (metis in_set_replicate replicate_length_same)
    also have "\<dots> \<longleftrightarrow> (\<exists>opts n. t # ts = opts @ replicate n Semicolon \<and> Semicolon \<notin> set opts)"
    proof
      assume "ts = replicate (length ts) Semicolon"
      then show "\<exists>opts n. t # ts = opts @ replicate n Semicolon \<and> Semicolon \<notin> set opts"
        using True by (intro exI [of _ "[]"] exI [of _ "Suc (length ts)"]) simp
    next
      assume "\<exists>opts n. t # ts = opts @ replicate n Semicolon \<and> Semicolon \<notin> set opts"
      then obtain opts n where "t # ts = opts @ replicate n Semicolon" "Semicolon \<notin> set opts" by blast
      then show "ts = replicate (length ts) Semicolon"
        using True by (cases opts; cases n) auto
    qed
    finally show ?thesis .
  next
    case False
    then have "only_trailing_semicolons (t # ts) \<longleftrightarrow> only_trailing_semicolons ts"
      by (cases "find_pred (\<lambda>t. t = Semicolon) ts")
         (simp_all add: only_trailing_semicolons_def del: find_pred_None)
    also have "\<dots> \<longleftrightarrow> (\<exists>opts n. t # ts = opts @ replicate n Semicolon \<and> Semicolon \<notin> set opts)"
    proof
      assume "only_trailing_semicolons ts"
      then obtain opts n where "ts = opts @ replicate n Semicolon" "Semicolon \<notin> set opts"
        using Cons.IH by blast
      with False show "\<exists>opts n. t # ts = opts @ replicate n Semicolon \<and> Semicolon \<notin> set opts"
        by (intro exI [of _ "t # opts"] exI [of _ n]) simp
    next
      assume "\<exists>opts n. t # ts = opts @ replicate n Semicolon \<and> Semicolon \<notin> set opts"
      then obtain opts n where *: "t # ts = opts @ replicate n Semicolon" "Semicolon \<notin> set opts" by blast
      with False obtain opts' where "opts = t # opts'" by (cases opts; cases n) auto
      with * show "only_trailing_semicolons ts" using Cons.IH by auto
    qed
    finally show ?thesis .
  qed
qed

lemma direction_of_tokens_iff: "direction_of_tokens toks = Some dir \<longleftrightarrow> copy_shape dir toks"
proof -
  have "direction_of_tokens toks = Some dir \<longleftrightarrow>
      (\<exists>after rest. toks = Word ''COPY'' # after \<and>
        find_target 0 after = Some (dir, Word (stdio_word dir) # rest) \<and> only_trailing_semicolons rest)"
    by (auto simp: direction_of_tokens_def split: list.splits tok.splits if_splits option.splits)
  then show ?thesis
    by (auto simp: find_target_Some_iff only_trailing_semicolons_iff subject_from_iff copy_shape_def
        copy_subject_def)
qed

text \<open>
  \<open>copy_direction\<close> answers exactly for one well-shaped COPY statement. It returns a direction if
  and only if every literal, comment and dollar quote of the input is closed (the probe's marker
  stays visible), the quoted identifiers are closed, and the tokens are \<open>COPY\<close>, a balanced subject
  without a top-level \<open>FROM\<close> or \<open>TO\<close>, the target, and no second statement.
\<close>

theorem copy_direction_iff_shape:
  "copy_direction_of sql = Some dir \<longleftrightarrow>
     \<not> hidden_at (copy_probe sql) (hidden_spans (copy_probe sql)) (length sql + 1) \<and>
     (\<exists>toks. tokenize (take (length sql) (masked_code (copy_probe sql))) = Some toks \<and>
        copy_shape dir toks)"
proof -
  let ?m = "masked_code (copy_probe sql)"
  have len: "length ?m = length sql + 2"
    using scan_masked_length [of "copy_probe sql"] by (simp add: masked_code_def copy_probe_def)
  then have "?m \<noteq> []" by auto
  have "last ?m = ?m ! (length sql + 1)"
    using len \<open>?m \<noteq> []\<close> by (simp add: last_conv_nth)
  also have "\<dots> = code_byte (copy_probe sql) (length sql + 1)"
    unfolding masked_code_def by (rule masked_nth) (simp add: copy_probe_def)
  finally have "last ?m = CHR '';'' \<longleftrightarrow>
      \<not> hidden_at (copy_probe sql) (hidden_spans (copy_probe sql)) (length sql + 1)"
    by (simp add: code_byte_def copy_probe_def nth_append)
  then show ?thesis
    using \<open>?m \<noteq> []\<close> len
    by (auto simp: copy_direction_of_def Let_def direction_of_tokens_iff split: option.splits)
qed

text \<open>
  A batch speaks the COPY sub-protocol exactly when one of its top-level statements is a
  well-shaped COPY of some direction.
\<close>

theorem speaks_copy_stdio_iff:
  "speaks_copy_stdio sql \<longleftrightarrow>
     (\<exists>s \<in> set (split_top_level_statements sql). \<exists>dir. copy_direction_of s = Some dir)"
  by (auto simp: speaks_copy_stdio_def list_ex_iff)

end
