(* ===== verification/Redact.thy ===== *)
theory Redact
  imports Rules
begin

text \<open>
  The redaction pass and the SQL fingerprint (\<open>engine/crates/ferro-classify/src/redact.rs\<close> and
  \<open>fingerprint.rs\<close>). \<open>red_step\<close> is one iteration of the redaction loop: the spans it pushes and the
  next index, or no next index where the source returns early. \<open>fp_step\<close> is one iteration of the
  fingerprint loop. The Unicode table behind \<open>char::is_alphanumeric\<close> is a parameter
  (\<open>uni_alnum\<close>, over the UTF-8 bytes of a non-ASCII character).
\<close>

subsection \<open>Quoted regions\<close>

datatype backslash_mode = Ordinary | Escapes | Ambiguous

abbreviation run_of :: "string \<Rightarrow> nat \<Rightarrow> nat" where
  "run_of sql j \<equiv> length (takeWhile (\<lambda>x. x = backslash) (drop j sql))"

lemma run_of_pos: "j < length sql \<Longrightarrow> sql ! j = backslash \<Longrightarrow> 0 < run_of sql j"
  by (subst Cons_nth_drop_Suc [symmetric]) simp_all

function close_quoted_from :: "string \<Rightarrow> char \<Rightarrow> backslash_mode \<Rightarrow> nat \<Rightarrow> nat option" where
  "close_quoted_from sql quote bs j =
     (if j < length sql then
        if sql ! j = backslash \<and> bs \<noteq> Ordinary then
          (if bs = Escapes then
             close_quoted_from sql quote bs
               (if j + 1 < length sql then char_end sql (j + 1) else j + 1)
           else if odd (run_of sql j) \<and> byte_at sql (j + run_of sql j) = Some quote then None
           else close_quoted_from sql quote bs (j + run_of sql j))
        else if sql ! j = quote then
          (if byte_at sql (j + 1) = Some quote then close_quoted_from sql quote bs (j + 2)
           else Some (j + 1))
        else close_quoted_from sql quote bs (char_end sql j)
      else None)"
  by pat_completeness auto
termination
proof (relation "measure (\<lambda>(sql, quote, bs, j). length sql - j)", goal_cases)
  case (2 sql quote bs j)
  then show ?case by (auto intro!: diff_less_mono2 lt_char_end)
next
  case (3 sql quote bs j)
  then have "0 < run_of sql j" by (intro run_of_pos) simp_all
  with 3 show ?case by (auto intro!: diff_less_mono2)
next
  case (5 sql quote bs j)
  then show ?case using char_end_gt_any [of j sql] by (simp add: diff_less_mono2)
qed auto

declare close_quoted_from.simps [simp del]

definition close_quoted :: "string \<Rightarrow> nat \<Rightarrow> char \<Rightarrow> backslash_mode \<Rightarrow> nat option" where
  "close_quoted sql opn quote bs = close_quoted_from sql quote bs (opn + 1)"

definition is_prefixed_by :: "string \<Rightarrow> nat \<Rightarrow> string \<Rightarrow> bool" where
  "is_prefixed_by sql quote letters =
     (if quote = 0 \<or> sql ! (quote - 1) \<notin> set letters then False
      else quote = 1 \<or>
        \<not> (is_ascii_alphanumeric (sql ! (quote - 2)) \<or> sql ! (quote - 2) = CHR ''_''))"

definition prefix_start :: "string \<Rightarrow> nat \<Rightarrow> nat" where
  "prefix_start sql quote = (if is_prefixed_by sql quote ''EeXxBbNn'' then quote - 1 else quote)"

subsection \<open>Comments\<close>

definition line_comment_end :: "string \<Rightarrow> nat \<Rightarrow> nat" where
  "line_comment_end b start =
     (case find_pred (\<lambda>c. c = newline) (drop start b) of Some off \<Rightarrow> start + off | None \<Rightarrow> length b)"

function block_comment_end :: "string \<Rightarrow> nat \<Rightarrow> nat \<Rightarrow> nat \<times> nat" where
  "block_comment_end b j depth =
     (if j < length b then
        if b ! j = CHR ''/'' \<and> byte_at b (j + 1) = Some CHR ''*'' then
          block_comment_end b (j + 2) (depth + 1)
        else if b ! j = CHR ''*'' \<and> byte_at b (j + 1) = Some CHR ''/'' then
          (if depth - 1 = 0 then (j + 2, 0) else block_comment_end b (j + 2) (depth - 1))
        else block_comment_end b (j + 1) depth
      else (j, depth))"
  by pat_completeness auto
termination
  by (relation "measure (\<lambda>(b, j, d). length b - j)") auto

declare block_comment_end.simps [simp del]

subsection \<open>One iteration of the pass\<close>

text \<open>A quoted literal: its span, or the rest of the input when it does not close.\<close>

definition literal_or_rest :: "nat \<Rightarrow> nat \<Rightarrow> nat option \<Rightarrow> span list \<times> nat option" where
  "literal_or_rest start len r =
     (case r of Some e \<Rightarrow> ([(start, e, Literal)], Some e) | None \<Rightarrow> ([(start, len, Literal)], None))"

text \<open>A quoted identifier stays visible, unless it does not close.\<close>

definition ident_or_rest :: "nat \<Rightarrow> nat \<Rightarrow> nat option \<Rightarrow> span list \<times> nat option" where
  "ident_or_rest start len r =
     (case r of Some e \<Rightarrow> ([], Some e) | None \<Rightarrow> ([(start, len, Literal)], None))"

definition quote_mode :: "dialect \<Rightarrow> string \<Rightarrow> nat \<Rightarrow> backslash_mode" where
  "quote_mode d sql i =
     (case d of
        Postgres \<Rightarrow> if is_prefixed_by sql i ''Ee'' then Escapes else Ambiguous
      | MySql \<Rightarrow> Ambiguous
      | Sqlite \<Rightarrow> Ordinary)"

definition red_step :: "string \<Rightarrow> dialect \<Rightarrow> nat \<Rightarrow> span list \<times> nat option" where
  "red_step sql d i =
     (let len = length sql; c = sql ! i in
      if c = sq then
        literal_or_rest (prefix_start sql i) len (close_quoted sql i sq (quote_mode d sql i))
      else if c = dq then
        (case d of
           Postgres \<Rightarrow> ident_or_rest i len (close_quoted sql i dq Ordinary)
         | MySql \<Rightarrow> literal_or_rest i len (close_quoted sql i dq Ambiguous)
         | Sqlite \<Rightarrow> literal_or_rest i len (close_quoted sql i dq Ordinary))
      else if c = CHR 0x60 \<and> d \<noteq> Postgres then
        ident_or_rest i len (close_quoted sql i (CHR 0x60) Ordinary)
      else if c = CHR ''['' \<and> d = Sqlite then
        ident_or_rest i len
          (map_option (\<lambda>off. i + 1 + off + 1) (find_pred (\<lambda>x. x = CHR '']'') (drop (i + 1) sql)))
      else if c = CHR ''-'' \<and> byte_at sql (i + 1) = Some CHR ''-'' then
        ([(i, line_comment_end sql i, Comment)], Some (line_comment_end sql i))
      else if c = CHR ''#'' \<and> d = MySql then
        ([(i, line_comment_end sql i, Comment)], Some (line_comment_end sql i))
      else if c = CHR ''/'' \<and> byte_at sql (i + 1) = Some CHR ''*'' then
        (case block_comment_end sql i 0 of
           (j, depth) \<Rightarrow>
             if 0 < depth then ([(i, len, Comment)], None) else ([(i, j, Comment)], Some j))
      else if c = CHR ''$'' \<and> d = Postgres then
        (case dollar_quote_tag sql i of
           Some (tag, body) \<Rightarrow>
             literal_or_rest i len
               (map_option (\<lambda>off. body + off + length tag) (find_sub tag (drop body sql)))
         | None \<Rightarrow> ([], Some (char_end sql i)))
      else ([], Some (char_end sql i)))"

subsection \<open>Progress\<close>

lemma close_quoted_from_bounds:
  "close_quoted_from sql quote bs j = Some e \<Longrightarrow> j < e \<and> e \<le> length sql \<and> sql ! (e - 1) = quote"
proof (induction sql quote bs j rule: close_quoted_from.induct)
  case (1 sql quote bs j)
  let ?esc = "if j + 1 < length sql then char_end sql (j + 1) else j + 1"
  have j: "j < length sql"
    using "1.prems" by (simp add: close_quoted_from.simps [of sql quote bs j] split: if_splits)
  consider (esc) "sql ! j = backslash" "bs = Escapes" "close_quoted_from sql quote bs ?esc = Some e"
    | (amb) "sql ! j = backslash" "bs = Ambiguous"
        "\<not> (odd (run_of sql j) \<and> byte_at sql (j + run_of sql j) = Some quote)"
        "close_quoted_from sql quote bs (j + run_of sql j) = Some e"
    | (dbl) "\<not> (sql ! j = backslash \<and> bs \<noteq> Ordinary)" "sql ! j = quote"
        "byte_at sql (j + 1) = Some quote" "close_quoted_from sql quote bs (j + 2) = Some e"
    | (cls) "sql ! j = quote" "e = j + 1"
    | (oth) "\<not> (sql ! j = backslash \<and> bs \<noteq> Ordinary)" "sql ! j \<noteq> quote"
        "close_quoted_from sql quote bs (char_end sql j) = Some e"
    using "1.prems" [unfolded close_quoted_from.simps [of sql quote bs j]] j
    by (cases bs) (auto split: if_splits)
  then show ?case
  proof cases
    case esc
    then have "?esc < e \<and> e \<le> length sql \<and> sql ! (e - 1) = quote"
      using "1.IH"(1) j by blast
    moreover have "j < ?esc" by (simp add: lt_char_end)
    ultimately show ?thesis by linarith
  next
    case amb
    then show ?thesis using "1.IH"(2) j by auto
  next
    case dbl
    then show ?thesis using "1.IH"(3) [OF j dbl(1,2,3)] by auto
  next
    case cls
    then show ?thesis using j by simp
  next
    case oth
    then have "char_end sql j < e \<and> e \<le> length sql \<and> sql ! (e - 1) = quote"
      using "1.IH"(4) [OF j oth(1,2)] by blast
    then show ?thesis using less_trans [OF char_end_gt_any] by blast
  qed
qed

lemma close_quoted_bounds:
  "close_quoted sql i quote bs = Some e \<Longrightarrow> i + 1 < e \<and> e \<le> length sql \<and> sql ! (e - 1) = quote"
  unfolding close_quoted_def by (rule close_quoted_from_bounds)

lemma block_comment_end_ge: "j \<le> fst (block_comment_end b j depth)"
proof (induction b j depth rule: block_comment_end.induct)
  case (1 b j depth)
  then show ?case
    by (auto simp: block_comment_end.simps [of b j depth])
qed

lemma block_comment_end_le:
  "j \<le> length b \<Longrightarrow> fst (block_comment_end b j depth) \<le> length b"
proof (induction b j depth rule: block_comment_end.induct)
  case (1 b j depth)
  show ?case
  proof (cases "j < length b")
    case True
    then show ?thesis
      using 1 by (auto simp: block_comment_end.simps [of b j depth])
  next
    case False
    with "1.prems" show ?thesis by (subst block_comment_end.simps) simp
  qed
qed

lemma line_comment_end_bounds:
  "start < length b \<Longrightarrow> b ! start \<noteq> newline \<Longrightarrow> start < line_comment_end b start \<and> line_comment_end b start \<le> length b"
proof -
  assume s: "start < length b" "b ! start \<noteq> newline"
  show ?thesis
  proof (cases "find_pred (\<lambda>c. c = newline) (drop start b)")
    case None
    with s show ?thesis by (simp add: line_comment_end_def del: find_pred_None)
  next
    case (Some off)
    from find_pred_SomeD [OF Some] s have "off \<noteq> 0" "off < length b - start"
      by (auto intro!: gr0I)
    with Some s show ?thesis by (simp add: line_comment_end_def)
  qed
qed

lemma prefix_start_bounds: "prefix_start sql i \<le> i \<and> i \<le> prefix_start sql i + 1"
  by (auto simp: prefix_start_def is_prefixed_by_def split: if_splits)

text \<open>What a step promises: its span is well placed and the index moves forward past it.\<close>

definition step_ok :: "string \<Rightarrow> nat \<Rightarrow> span list \<times> nat option \<Rightarrow> bool" where
  "step_ok sql i r \<longleftrightarrow>
     (case r of (sp, nxt) \<Rightarrow>
        (sp = [] \<or> (\<exists>a b h. sp = [(a, b, h)] \<and> a \<le> i \<and> i \<le> a + 1 \<and> i < b \<and> b \<le> length sql \<and>
            (a < i \<longrightarrow> a = prefix_start sql i \<and> sql ! i = sq) \<and>
            (case nxt of Some j \<Rightarrow> b = j | None \<Rightarrow> b = length sql))) \<and>
        (case nxt of Some j \<Rightarrow> i < j \<and> j \<le> length sql | None \<Rightarrow> sp \<noteq> []))"

lemma literal_or_rest_ok:
  assumes "i < length sql" "\<And>e. r = Some e \<Longrightarrow> i < e \<and> e \<le> length sql"
    and "a = i \<or> (a = prefix_start sql i \<and> sql ! i = sq)"
  shows "step_ok sql i (literal_or_rest a (length sql) r)"
  using assms prefix_start_bounds [of sql i]
  by (cases r) (auto simp: step_ok_def literal_or_rest_def)

lemma ident_or_rest_ok:
  assumes "i < length sql" "\<And>e. r = Some e \<Longrightarrow> i < e \<and> e \<le> length sql"
  shows "step_ok sql i (ident_or_rest i (length sql) r)"
  using assms by (cases r) (auto simp: step_ok_def ident_or_rest_def)

lemma close_quoted_ok: "close_quoted sql i quote bs = Some e \<Longrightarrow> i < e \<and> e \<le> length sql"
  using close_quoted_bounds by fastforce

lemma block_comment_end_step:
  assumes "i < length sql" "sql ! i = CHR ''/''" "byte_at sql (i + 1) = Some CHR ''*''"
  shows "i + 2 \<le> fst (block_comment_end sql i 0) \<and> fst (block_comment_end sql i 0) \<le> length sql"
proof -
  have "block_comment_end sql i 0 = block_comment_end sql (i + 2) 1"
    using assms by (simp add: block_comment_end.simps [of sql i 0])
  then show ?thesis
    using assms block_comment_end_ge [of "i + 2" sql 1] block_comment_end_le [of i sql 0] by simp
qed

lemma red_step_ok:
  assumes i: "i < length sql"
  shows "step_ok sql i (red_step sql d i)"
proof -
  let ?len = "length sql" and ?c = "sql ! i"
  have adv: "step_ok sql i ([], Some (char_end sql i))"
    using i by (simp add: step_ok_def char_end_le)
  have quoted: "step_ok sql i (literal_or_rest (prefix_start sql i) ?len (close_quoted sql i q m))"
    if "?c = sq" for q m
    using i that by (intro literal_or_rest_ok close_quoted_ok) auto
  have lit: "step_ok sql i (literal_or_rest i ?len (close_quoted sql i q m))" for q m
    using i by (intro literal_or_rest_ok close_quoted_ok) auto
  have ident: "step_ok sql i (ident_or_rest i ?len (close_quoted sql i q m))" for q m
    using i by (intro ident_or_rest_ok close_quoted_ok) auto
  have bracket: "step_ok sql i (ident_or_rest i ?len
      (map_option (\<lambda>off. i + 1 + off + 1) (find_pred (\<lambda>x. x = CHR '']'') (drop (i + 1) sql))))"
    using i by (intro ident_or_rest_ok) (auto dest!: find_pred_SomeD)
  have line: "step_ok sql i ([(i, line_comment_end sql i, Comment)], Some (line_comment_end sql i))"
    if "?c \<noteq> newline"
    using line_comment_end_bounds [OF i that] i by (simp add: step_ok_def)
  have block: "step_ok sql i (case block_comment_end sql i 0 of (j, depth) \<Rightarrow>
       if 0 < depth then ([(i, ?len, Comment)], None) else ([(i, j, Comment)], Some j))"
    if "?c = CHR ''/''" "byte_at sql (i + 1) = Some CHR ''*''"
    using block_comment_end_step [OF i that] i
    by (cases "block_comment_end sql i 0") (auto simp: step_ok_def)
  have dollar: "step_ok sql i (literal_or_rest i ?len
      (map_option (\<lambda>off. body + off + length tag) (find_sub tag (drop body sql))))"
    if "dollar_quote_tag sql i = Some (tag, body)" for tag body
    using dollar_quote_tag_SomeD [OF that] i
    by (intro literal_or_rest_ok) (auto dest!: find_sub_SomeD)
  show ?thesis
    unfolding red_step_def Let_def
    using adv quoted lit ident bracket line block dollar
    by (simp split: dialect.split option.split)
qed

lemma red_step_next:
  "i < length sql \<Longrightarrow> red_step sql d i = (sp, Some j) \<Longrightarrow> i < j \<and> j \<le> length sql"
  using red_step_ok [of i sql d] by (simp add: step_ok_def)

function red_loop :: "string \<Rightarrow> dialect \<Rightarrow> nat \<Rightarrow> span list" where
  "red_loop sql d i =
     (if i < length sql then
        (case red_step sql d i of
           (sp, Some j) \<Rightarrow> sp @ red_loop sql d j
         | (sp, None) \<Rightarrow> sp)
      else [])"
  by pat_completeness auto
termination
  by (relation "measure (\<lambda>(sql, d, i). length sql - i)")
     (auto dest!: red_step_next [OF _ sym] intro: diff_less_mono2)

declare red_loop.simps [simp del]

text \<open>\<open>redact::hidden_spans\<close>.\<close>

definition redact_spans :: "string \<Rightarrow> dialect \<Rightarrow> span list" where
  "redact_spans sql d = red_loop sql d 0"

subsection \<open>The fingerprint\<close>

definition input_limit :: nat where
  "input_limit = 4096"

text \<open>A space and U+2026.\<close>

definition truncated_marker :: string where
  "truncated_marker = [CHR '' '', CHR 0xE2, CHR 0x80, CHR 0xA6]"

function floor_boundary :: "string \<Rightarrow> nat \<Rightarrow> nat" where
  "floor_boundary sql k = (if is_char_boundary sql k then k else floor_boundary sql (k - 1))"
  by pat_completeness auto
termination
  by (relation "measure snd") (auto simp: is_char_boundary_def)

declare floor_boundary.simps [simp del]

definition fp_input :: "string \<Rightarrow> string" where
  "fp_input sql =
     (if input_limit < length sql then take (floor_boundary sql input_limit) sql else sql)"

fun last_char_rev :: "string \<Rightarrow> string" where
  "last_char_rev [] = []"
| "last_char_rev (c # r) = (if is_cont_byte c then c # last_char_rev r else [c])"

definition continues_identifier :: "(string \<Rightarrow> bool) \<Rightarrow> string \<Rightarrow> bool" where
  "continues_identifier uni_alnum out =
     (case last_char_rev (rev out) of
        [] \<Rightarrow> False
      | [c] \<Rightarrow> (if byte c < 128 then is_ascii_alphanumeric c \<or> c = CHR ''_'' \<or> c = CHR ''$''
                else uni_alnum [c])
      | cs \<Rightarrow> uni_alnum (rev cs))"

definition skip_while :: "(char \<Rightarrow> bool) \<Rightarrow> string \<Rightarrow> nat \<Rightarrow> nat" where
  "skip_while p sql i = i + length (takeWhile p (drop i sql))"

definition skip_exponent :: "string \<Rightarrow> nat \<Rightarrow> nat" where
  "skip_exponent sql i =
     (if i < length sql \<and> (sql ! i = CHR ''e'' \<or> sql ! i = CHR ''E'') then
        let j = i + 1;
            j' = (if j < length sql \<and> (sql ! j = CHR ''+'' \<or> sql ! j = CHR ''-'') then j + 1 else j)
        in if j' < length sql \<and> is_ascii_digit (sql ! j') then skip_while is_ascii_digit sql j' else i
      else i)"

definition skip_number :: "string \<Rightarrow> nat \<Rightarrow> nat" where
  "skip_number sql i =
     (if sql ! i = CHR ''0'' \<and> i + 1 < length sql \<and> sql ! (i + 1) \<in> set ''xXbBoO''
      then skip_while (\<lambda>c. is_ascii_alphanumeric c \<or> c = CHR ''_'') sql (i + 2)
      else skip_exponent sql
        (skip_while (\<lambda>c. is_ascii_digit c \<or> c = CHR ''.'' \<or> c = CHR ''_'') sql i))"

definition push_space :: "string \<Rightarrow> string" where
  "push_space out = (if out \<noteq> [] \<and> last out \<noteq> CHR '' '' then out @ '' '' else out)"

text \<open>One iteration on a byte outside the hidden spans: the next index and the output.\<close>

definition fp_code :: "(string \<Rightarrow> bool) \<Rightarrow> string \<Rightarrow> nat \<Rightarrow> string \<Rightarrow> nat \<times> string" where
  "fp_code uni_alnum sql i out =
     (if is_ascii_whitespace (sql ! i) then (i + 1, push_space out)
      else if is_ascii_digit (sql ! i) \<and> \<not> continues_identifier uni_alnum out
      then (skip_number sql i, out @ ''?'')
      else (char_end sql i, out @ slice sql i (char_end sql i)))"

text \<open>One iteration: the remaining spans, the next index and the output.\<close>

definition fp_step ::
  "(string \<Rightarrow> bool) \<Rightarrow> string \<Rightarrow> span list \<Rightarrow> nat \<Rightarrow> string \<Rightarrow> span list \<times> nat \<times> string" where
  "fp_step uni_alnum sql hs i out =
     (case hs of
        (start, e, kind) # rest \<Rightarrow>
          if start \<le> i
          then (rest, max e (i + 1), if kind = Literal then out @ ''?'' else push_space out)
          else (hs, fp_code uni_alnum sql i out)
      | [] \<Rightarrow> ([], fp_code uni_alnum sql i out))"

lemma skip_while_ge: "i \<le> skip_while p sql i"
  by (simp add: skip_while_def)

lemma skip_while_step: "i < length sql \<Longrightarrow> p (sql ! i) \<Longrightarrow> skip_while p sql i = skip_while p sql (i + 1)"
  by (simp add: skip_while_def Cons_nth_drop_Suc [symmetric])

lemma skip_while_stop: "\<not> (i < length sql \<and> p (sql ! i)) \<Longrightarrow> skip_while p sql i = i"
  by (cases "i < length sql") (auto simp: skip_while_def Cons_nth_drop_Suc [symmetric])

lemma skip_exponent_ge: "i \<le> skip_exponent sql i"
  using skip_while_ge [of "i + 2" is_ascii_digit sql] skip_while_ge [of "i + 1" is_ascii_digit sql]
  by (auto simp: skip_exponent_def Let_def)

lemma skip_number_gt:
  assumes "i < length sql" "is_ascii_digit (sql ! i)"
  shows "i < skip_number sql i"
proof -
  let ?p = "\<lambda>c. is_ascii_digit c \<or> c = CHR ''.'' \<or> c = CHR ''_''"
  have "i + 1 \<le> skip_while ?p sql i"
    using assms skip_while_ge [of "i + 1" ?p sql] by (simp add: skip_while_step)
  then have "i < skip_exponent sql (skip_while ?p sql i)"
    using skip_exponent_ge [of "skip_while ?p sql i" sql] by linarith
  moreover have "i < skip_while q sql (i + 2)" for q
    using skip_while_ge [of "i + 2" q sql] by linarith
  ultimately show ?thesis by (simp add: skip_number_def)
qed

lemma fp_code_progress: "i < length sql \<Longrightarrow> i < fst (fp_code ua sql i out)"
  by (simp add: fp_code_def skip_number_gt)

lemma fp_step_progress: "i < length sql \<Longrightarrow> fp_step ua sql hs i out = (hs', i', out') \<Longrightarrow> i < i'"
  using fp_code_progress [of i sql ua out]
  by (auto simp: fp_step_def split: list.splits if_splits)

function fp_loop :: "(string \<Rightarrow> bool) \<Rightarrow> string \<Rightarrow> span list \<Rightarrow> nat \<Rightarrow> string \<Rightarrow> string" where
  "fp_loop uni_alnum sql hs i out =
     (if i < length sql then
        (case fp_step uni_alnum sql hs i out of (hs', i', out') \<Rightarrow> fp_loop uni_alnum sql hs' i' out')
      else out)"
  by pat_completeness auto
termination
  by (relation "measure (\<lambda>(ua, sql, hs, i, out). length sql - i)")
     (auto dest: fp_step_progress split: prod.splits intro!: diff_less_mono2)

declare fp_loop.simps [simp del]

text \<open>
  \<open>collapse_in_lists\<close>: after a \<open>?\<close>, every following \<open>, ?\<close> is eaten. The source copies whole
  characters; copying bytes is the same, since a continuation byte is never \<open>?\<close>.
\<close>

abbreviation skip_spaces :: "string \<Rightarrow> string" where
  "skip_spaces \<equiv> dropWhile (\<lambda>c. c = CHR '' '')"

function eat_list :: "string \<Rightarrow> string" where
  "eat_list s =
     (case skip_spaces s of
        c # r \<Rightarrow>
          if c = CHR '','' then
            (case skip_spaces r of
               c' # r' \<Rightarrow> if c' = CHR ''?'' then eat_list r' else s
             | [] \<Rightarrow> s)
          else s
      | [] \<Rightarrow> s)"
  by pat_completeness auto
termination
proof (relation "measure length", goal_cases)
  case (2 s c r c' r')
  then have "length (c # r) \<le> length s" "length (c' # r') \<le> length r"
    by (metis length_dropWhile_le)+
  then show ?case by simp
qed simp

declare eat_list.simps [simp del]

lemma eat_list_le: "length (eat_list s) \<le> length s"
proof (induction s rule: eat_list.induct)
  case (1 s)
  show ?case
  proof (cases "\<exists>r r'. skip_spaces s = CHR '','' # r \<and> skip_spaces r = CHR ''?'' # r'")
    case True
    then obtain r r' where r: "skip_spaces s = CHR '','' # r" "skip_spaces r = CHR ''?'' # r'" by blast
    then have "length (CHR '','' # r) \<le> length s" "length (CHR ''?'' # r') \<le> length r"
      by (metis length_dropWhile_le)+
    moreover have "length (eat_list r') \<le> length r'" using 1 r by blast
    ultimately show ?thesis using r by (simp add: eat_list.simps [of s])
  next
    case False
    then show ?thesis by (auto simp: eat_list.simps [of s] split: list.splits)
  qed
qed

function collapse_in_lists :: "string \<Rightarrow> string" where
  "collapse_in_lists [] = []"
| "collapse_in_lists (c # r) =
     (if c = CHR ''?'' then c # collapse_in_lists (eat_list r) else c # collapse_in_lists r)"
  by pat_completeness auto
termination
  by (relation "measure length") (auto simp: eat_list_le less_Suc_eq_le)

definition fingerprint :: "(string \<Rightarrow> bool) \<Rightarrow> string \<Rightarrow> dialect \<Rightarrow> string" where
  "fingerprint uni_alnum sql d =
     (let inp = fp_input sql;
          text = collapse_in_lists (trim (fp_loop uni_alnum inp (redact_spans inp d) 0 []))
      in if input_limit < length sql then text @ truncated_marker else text)"

end
