(* ===== verification/Redact_Correct.thy ===== *)
theory Redact_Correct
  imports Redact
begin

text \<open>
  Correctness of the redaction pass and of the fingerprint: the spans are ordered and disjoint, a
  fingerprint is bounded, and it does not depend on what the hidden spans contain.
\<close>

subsection \<open>Where a span can start\<close>

definition prefix_letter :: "char \<Rightarrow> bool" where
  "prefix_letter c \<longleftrightarrow> c \<in> set ''EeXxBbNn''"

lemma not_prefix_letter [simp]:
  "\<not> prefix_letter sq" "\<not> prefix_letter dq" "\<not> prefix_letter CHR 0x60" "\<not> prefix_letter CHR ''/''"
  "\<not> prefix_letter CHR ''$''"
  by (simp_all add: prefix_letter_def)

abbreviation word_byte :: "char \<Rightarrow> bool" where
  "word_byte c \<equiv> is_ascii_alphanumeric c \<or> c = CHR ''_''"

definition opener :: "string \<Rightarrow> nat \<Rightarrow> bool" where
  "opener sql a \<longleftrightarrow> a < length sql \<and>
     (sql ! a \<in> {sq, dq, CHR 0x60, CHR ''['', CHR ''#'', CHR ''/'', CHR ''$''} \<or>
      sql ! a = CHR ''-'' \<and> a + 1 < length sql \<and> sql ! (a + 1) = CHR ''-'' \<or>
      prefix_letter (sql ! a) \<and> a + 1 < length sql \<and> sql ! (a + 1) = sq \<and>
        (a = 0 \<or> \<not> word_byte (sql ! (a - 1))))"

lemma opener_prefix_start:
  assumes "i < length sql" "sql ! i = sq"
  shows "opener sql (prefix_start sql i)"
proof (cases "is_prefixed_by sql i ''EeXxBbNn''")
  case True
  then have "0 < i" "prefix_letter (sql ! (i - 1))" "i = 1 \<or> \<not> word_byte (sql ! (i - 2))"
    by (auto simp: is_prefixed_by_def prefix_letter_def split: if_splits)
  then show ?thesis
    using True assms by (auto simp: opener_def prefix_start_def numeral_2_eq_2)
next
  case False
  then show ?thesis using assms by (simp add: prefix_start_def opener_def)
qed

lemma literal_or_rest_span: "x \<in> set (fst (literal_or_rest a len r)) \<Longrightarrow> fst x = a"
  by (auto simp: literal_or_rest_def split: option.splits)

lemma ident_or_rest_span: "x \<in> set (fst (ident_or_rest a len r)) \<Longrightarrow> fst x = a"
  by (auto simp: ident_or_rest_def split: option.splits)

lemma red_step_opener:
  assumes i: "i < length sql" and x: "x \<in> set (fst (red_step sql d i))"
  shows "opener sql (fst x)"
proof (cases "sql ! i = sq")
  case True
  then show ?thesis
    using x opener_prefix_start [OF i True]
    by (auto simp: red_step_def dest!: literal_or_rest_span)
next
  case False
  have "fst x = i"
    using x False
    by (auto simp: red_step_def Let_def dest: literal_or_rest_span ident_or_rest_span
        split: if_splits dialect.splits option.splits prod.splits)
  moreover have "opener sql i"
    using x False i
    by (auto simp: red_step_def Let_def opener_def split: if_splits dialect.splits option.splits
        prod.splits)
  ultimately show ?thesis by simp
qed

subsection \<open>Where a span ends\<close>

lemma block_comment_end_last:
  "1 \<le> depth \<Longrightarrow> block_comment_end b j depth = (e, 0) \<Longrightarrow> 2 \<le> e \<and> b ! (e - 1) = CHR ''/''"
proof (induction b j depth rule: block_comment_end.induct)
  case (1 b j depth)
  have j: "j < length b"
    using "1.prems" by (simp add: block_comment_end.simps [of b j depth] split: if_splits)
  show ?case
    using "1.prems" "1.IH" j
    by (auto simp: block_comment_end.simps [of b j depth] split: if_splits)
qed

text \<open>A span that ends before a quote does not end in a letter that could prefix it.\<close>

definition clean_end :: "string \<Rightarrow> nat \<Rightarrow> bool" where
  "clean_end sql j \<longleftrightarrow> (j < length sql \<and> sql ! j = sq \<longrightarrow> \<not> prefix_letter (sql ! (j - 1)))"

lemma close_quoted_clean:
  "close_quoted sql i q m = Some j \<Longrightarrow> \<not> prefix_letter q \<Longrightarrow> clean_end sql j"
  using close_quoted_bounds [of sql i q m j] by (auto simp: clean_end_def)

lemma literal_or_rest_Some: "literal_or_rest a len r = (sp, Some j) \<Longrightarrow> r = Some j"
  by (auto simp: literal_or_rest_def split: option.splits)

lemma ident_or_rest_Some: "ident_or_rest a len r = (sp, Some j) \<Longrightarrow> sp = []"
  by (auto simp: ident_or_rest_def split: option.splits)

lemma line_comment_clean: "clean_end sql (line_comment_end sql i)"
proof (cases "find_pred (\<lambda>c. c = newline) (drop i sql)")
  case None
  then show ?thesis by (simp add: clean_end_def line_comment_end_def del: find_pred_None)
next
  case (Some off)
  then have "sql ! (i + off) = newline" using find_pred_SomeD [OF Some] by auto
  with Some show ?thesis by (simp add: clean_end_def line_comment_end_def)
qed

lemma block_comment_clean:
  assumes "i < length sql" "sql ! i = CHR ''/''" "byte_at sql (i + 1) = Some CHR ''*''"
    and "block_comment_end sql i 0 = (j, 0)"
  shows "clean_end sql j"
proof -
  have "block_comment_end sql (i + 2) 1 = (j, 0)"
    using assms by (simp add: block_comment_end.simps [of sql i 0])
  from block_comment_end_last [OF _ this] show ?thesis by (simp add: clean_end_def)
qed

lemma dollar_clean:
  assumes "dollar_quote_tag sql i = Some (tag, body)" "find_sub tag (drop body sql) = Some off"
  shows "clean_end sql (body + off + length tag)"
proof -
  have t: "i + 2 \<le> body" "body \<le> length sql" "sql ! (body - 1) = CHR ''$''" "tag = slice sql i body"
    using dollar_quote_tag_SomeD [OF assms(1)] by auto
  have len: "length tag = body - i" using t by (simp add: length_slice)
  have p: "prefix tag (drop (body + off) sql)" "body + off + length tag \<le> length sql"
    using find_sub_SomeD [OF assms(2)] t by (auto simp: add.commute)
  then obtain r where r: "drop (body + off) sql = tag @ r" by (auto simp: prefix_def)
  have "sql ! (body + off + (length tag - 1)) = drop (body + off) sql ! (length tag - 1)"
    using p by simp
  also have "\<dots> = tag ! (length tag - 1)"
    unfolding r using len t by (intro nth_append_left) simp
  also have "\<dots> = CHR ''$''" using t len by (simp add: nth_slice)
  finally show ?thesis using len t by (simp add: clean_end_def)
qed

lemma red_step_clean:
  assumes i: "i < length sql" and s: "red_step sql d i = (sp, Some j)" and "sp \<noteq> []"
  shows "clean_end sql j"
proof -
  have lit: "clean_end sql j" if "literal_or_rest a n (close_quoted sql i q m) = (sp, Some j)"
    "\<not> prefix_letter q" for a n q m
    using literal_or_rest_Some [OF that(1)] close_quoted_clean that(2) by blast
  have idn: False if "ident_or_rest a n r = (sp, Some j)" for a n r
    using ident_or_rest_Some [OF that] \<open>sp \<noteq> []\<close> by simp
  have dol: "clean_end sql j"
    if "dollar_quote_tag sql i = Some (tag, body)"
      "literal_or_rest a n (map_option (\<lambda>off. body + off + length tag) (find_sub tag (drop body sql))) =
        (sp, Some j)" for a n tag body
    using literal_or_rest_Some [OF that(2)] dollar_clean [OF that(1)] by auto
  show ?thesis
    using s \<open>sp \<noteq> []\<close> block_comment_clean [OF i] line_comment_clean [of sql i]
    unfolding red_step_def Let_def
    by (auto split: if_splits dialect.splits option.splits prod.splits
        intro: lit dol dest: idn)
qed

subsection \<open>The spans in order\<close>

lemma prefix_start_letter: "prefix_start sql i < i \<Longrightarrow> prefix_letter (sql ! prefix_start sql i)"
  by (auto simp: prefix_start_def is_prefixed_by_def prefix_letter_def split: if_splits)

lemma red_step_span:
  assumes i: "i < length sql" and s: "red_step sql d i = (sp, nxt)" and x: "(a, b, h) \<in> set sp"
  shows "(i \<le> a \<or> a + 1 = i \<and> sql ! i = sq \<and> prefix_letter (sql ! a)) \<and>
    a < b \<and> b \<le> length sql \<and> opener sql a \<and> (\<forall>j. nxt = Some j \<longrightarrow> b = j)"
proof -
  have "step_ok sql i (sp, nxt)" using red_step_ok [OF i, of d] s by simp
  with x have a: "a \<le> i" "i \<le> a + 1" "i < b" "b \<le> length sql" "\<forall>j. nxt = Some j \<longrightarrow> b = j"
    and pre: "a < i \<longrightarrow> a = prefix_start sql i \<and> sql ! i = sq"
    by (auto simp: step_ok_def)
  have "opener sql a" using red_step_opener [OF i, of "(a, b, h)" d] s x by simp
  moreover have "a < i \<Longrightarrow> prefix_letter (sql ! a)"
    using pre prefix_start_letter [of sql i] by (metis (no_types, lifting))
  ultimately show ?thesis using a pre by (cases "a < i") auto
qed

definition placed :: "string \<Rightarrow> nat \<Rightarrow> span \<Rightarrow> bool" where
  "placed sql i x \<longleftrightarrow>
     (case x of (a, b, h) \<Rightarrow>
        (i \<le> a \<or> a + 1 = i \<and> i < length sql \<and> sql ! i = sq \<and> prefix_letter (sql ! a)) \<and>
        a < b \<and> b \<le> length sql \<and> opener sql a)"

lemma placed_mono: "placed sql j x \<Longrightarrow> i < j \<Longrightarrow> placed sql i x"
  by (auto simp: placed_def)

lemma red_loop_spans:
  "i \<le> length sql \<Longrightarrow>
     sorted_wrt span_before (red_loop sql d i) \<and> (\<forall>x \<in> set (red_loop sql d i). placed sql i x)"
proof (induction sql d i rule: red_loop.induct)
  case (1 sql d i)
  show ?case
  proof (cases "i < length sql")
    case False
    then show ?thesis by (simp add: red_loop.simps [of sql d i])
  next
    case True
    obtain sp nxt where s: "red_step sql d i = (sp, nxt)" by force
    have sp: "placed sql i x" if "x \<in> set sp" for x
      using red_step_span [OF True s] that True by (cases x) (auto simp: placed_def)
    have one: "sp = [] \<or> (\<exists>x. sp = [x])"
      using red_step_ok [OF True, of d] s by (auto simp: step_ok_def)
    show ?thesis
    proof (cases nxt)
      case None
      with s True sp one show ?thesis by (auto simp: red_loop.simps [of sql d i])
    next
      case (Some j)
      have j: "i < j" "j \<le> length sql" using red_step_next [OF True] s Some by auto
      have IH: "sorted_wrt span_before (red_loop sql d j)"
        "\<And>x. x \<in> set (red_loop sql d j) \<Longrightarrow> placed sql j x"
        using "1.IH" [OF True s [symmetric] Some j(2)] by auto
      have after: "span_before y x" if x: "x \<in> set (red_loop sql d j)" and y: "y \<in> set sp" for x y
      proof -
        have "fst (snd y) = j" using red_step_span [OF True s] y Some by (cases y) auto
        moreover have "clean_end sql j"
          using y by (intro red_step_clean [OF True s [unfolded Some]]) auto
        then have "j \<le> fst x"
          using IH(2) [OF x] by (cases x) (auto simp: placed_def clean_end_def)
        ultimately show ?thesis by (simp add: span_before_def)
      qed
      have eq: "red_loop sql d i = sp @ red_loop sql d j"
        using True s Some by (simp add: red_loop.simps [of sql d i])
      have "sorted_wrt span_before (sp @ red_loop sql d j)"
        using IH(1) one after by (auto simp: sorted_wrt_append)
      moreover have "placed sql i x" if "x \<in> set (sp @ red_loop sql d j)" for x
        using that sp placed_mono [OF IH(2) j(1)] unfolding set_append by blast
      ultimately show ?thesis unfolding eq by blast
    qed
  qed
qed

lemma redact_spans_props:
  shows redact_spans_sorted: "sorted_wrt span_before (redact_spans sql d)"
    and redact_spans_bounds:
      "(a, b, h) \<in> set (redact_spans sql d) \<Longrightarrow> a < b \<and> b \<le> length sql \<and> opener sql a"
  using red_loop_spans [of 0 sql d] by (auto simp: redact_spans_def placed_def)

text \<open>
  The redaction pass reports its spans in ascending order, disjoint, non-empty and inside the
  statement, in every dialect and on any input.
\<close>

theorem redact_spans_ordered:
  "sorted_wrt span_before (redact_spans sql d) \<and>
   list_all (\<lambda>(a, b, _). a < b \<and> b \<le> length sql) (redact_spans sql d)"
  using redact_spans_sorted [of sql d] redact_spans_bounds [of _ _ _ sql d]
  by (auto simp: list_all_iff)

subsection \<open>The fingerprint is bounded\<close>

lemma skip_while_le: "i \<le> length sql \<Longrightarrow> skip_while p sql i \<le> length sql"
  using length_takeWhile_le [of p "drop i sql"] by (simp add: skip_while_def)

lemma skip_number_le:
  assumes "i < length sql"
  shows "skip_number sql i \<le> length sql"
proof -
  have "skip_exponent sql k \<le> length sql" if "k \<le> length sql" for k
    using that by (simp add: skip_exponent_def Let_def skip_while_le less_imp_le)
  then show ?thesis using assms by (simp add: skip_number_def skip_while_le less_imp_le)
qed

lemma fp_code_bounds:
  assumes "i < length sql" "length out \<le> i"
  shows "fst (fp_code ua sql i out) \<le> length sql \<and>
    length (snd (fp_code ua sql i out)) \<le> fst (fp_code ua sql i out)"
proof -
  have "length (push_space out) \<le> i + 1" using assms by (simp add: push_space_def)
  moreover have "length (out @ ''?'') \<le> skip_number sql i" if "is_ascii_digit (sql ! i)"
    using skip_number_gt [OF assms(1) that] assms by simp
  moreover have "length (out @ slice sql i (char_end sql i)) \<le> char_end sql i"
    using assms le_char_end [of i i sql] by (simp add: length_slice char_end_le)
  ultimately show ?thesis
    using assms skip_number_le [OF assms(1)] char_end_le [OF assms(1)] by (simp add: fp_code_def)
qed

lemma fp_loop_length:
  "i \<le> length sql \<Longrightarrow> length out \<le> i \<Longrightarrow> \<forall>(a, b, h) \<in> set hs. b \<le> length sql \<Longrightarrow>
     length (fp_loop ua sql hs i out) \<le> length sql"
proof (induction ua sql hs i out rule: fp_loop.induct)
  case (1 ua sql hs i out)
  show ?case
  proof (cases "i < length sql")
    case False
    with "1.prems" show ?thesis by (subst fp_loop.simps) simp
  next
    case True
    obtain hs' i' out' where s: "fp_step ua sql hs i out = (hs', i', out')" by (metis prod_cases3)
    have "length (push_space out) \<le> i + 1" using "1.prems" by (simp add: push_space_def)
    then have "i' \<le> length sql \<and> length out' \<le> i'"
      using s True "1.prems" fp_code_bounds [OF True "1.prems"(2), of ua]
      by (auto simp: fp_step_def le_max_iff_disj split: list.splits if_splits prod.splits)
    moreover have "set hs' \<subseteq> set hs"
      using s by (auto simp: fp_step_def split: list.splits if_splits prod.splits)
    then have "\<forall>(a, b, h) \<in> set hs'. b \<le> length sql" using "1.prems"(3) by blast
    ultimately have "length (fp_loop ua sql hs' i' out') \<le> length sql"
      using "1.IH" [OF True s [symmetric] refl] by blast
    with True s show ?thesis by (simp add: fp_loop.simps [of ua sql hs i out])
  qed
qed

lemma floor_boundary_le: "floor_boundary sql k \<le> k"
proof (induction sql k rule: floor_boundary.induct)
  case (1 sql k)
  then show ?case by (auto simp: floor_boundary.simps [of sql k])
qed

lemma length_fp_input: "length (fp_input sql) \<le> input_limit"
  using floor_boundary_le [of sql input_limit] by (auto simp: fp_input_def)

lemma collapse_in_lists_le: "length (collapse_in_lists s) \<le> length s"
  by (induction s rule: collapse_in_lists.induct)
     (auto intro: order_trans [OF _ eat_list_le])

text \<open>
  A fingerprint never exceeds 4100 bytes, however long the statement is: at most
  \<open>INPUT_LIMIT\<close> bytes of it are read, normalisation never grows the text, and the truncation
  marker adds four.
\<close>

theorem fingerprint_bounded: "length (fingerprint uni_alnum sql d) \<le> 4100"
proof -
  let ?inp = "fp_input sql"
  let ?fp = "fp_loop uni_alnum ?inp (redact_spans ?inp d) 0 []"
  have "length ?fp \<le> length ?inp"
    using redact_spans_bounds [of _ _ _ ?inp d] by (intro fp_loop_length) auto
  moreover have "length (trim ?fp) \<le> length ?fp"
    by (rule sublist_length_le [OF trim_sublist])
  ultimately have "length (collapse_in_lists (trim ?fp)) \<le> 4096"
    using collapse_in_lists_le [of "trim ?fp"] length_fp_input [of sql] by (simp add: input_limit_def)
  then show ?thesis by (simp add: fingerprint_def Let_def truncated_marker_def)
qed

subsection \<open>The fingerprint does not depend on hidden text\<close>

text \<open>
  Two statements that agree from \<open>i\<close> up to the next span start \<open>s\<close> are read alike there: no reader
  looks past \<open>s\<close> in a way that could tell the openers apart.
\<close>

definition agree :: "string \<Rightarrow> string \<Rightarrow> nat \<Rightarrow> nat \<Rightarrow> bool" where
  "agree sql1 sql2 i s \<longleftrightarrow>
     length sql1 = length sql2 \<and> s \<le> length sql1 \<and>
     (\<forall>k. i \<le> k \<and> k < s \<longrightarrow> sql1 ! k = sql2 ! k) \<and>
     (s < length sql1 \<longrightarrow> opener sql1 s \<and> opener sql2 s)"

lemma agree_mono: "agree sql1 sql2 i s \<Longrightarrow> i \<le> j \<Longrightarrow> agree sql1 sql2 j s"
  by (auto simp: agree_def)

lemma agree_nth: "agree sql1 sql2 i s \<Longrightarrow> i \<le> k \<Longrightarrow> k < s \<Longrightarrow> sql1 ! k = sql2 ! k"
  by (simp add: agree_def)

lemma agree_len: "agree sql1 sql2 i s \<Longrightarrow> length sql1 = length sql2 \<and> s \<le> length sql2"
  by (simp add: agree_def)

lemma opener_not_digit: "opener sql s \<Longrightarrow> \<not> is_ascii_digit (sql ! s)"
  by (auto simp: opener_def prefix_letter_def is_ascii_digit_def byte_def)

lemma opener_not_cont: "opener sql s \<Longrightarrow> \<not> is_cont_byte (sql ! s)"
  by (auto simp: opener_def prefix_letter_def is_cont_byte_def byte_def)

lemma opener_not_num: "opener sql s \<Longrightarrow> sql ! s \<noteq> CHR ''.'' \<and> sql ! s \<noteq> CHR ''_'' \<and> sql ! s \<noteq> CHR ''+''"
  by (auto simp: opener_def prefix_letter_def)

lemma opener_minus: "opener sql s \<Longrightarrow> sql ! s = CHR ''-'' \<Longrightarrow> sql ! (s + 1) = CHR ''-''"
  by (auto simp: opener_def prefix_letter_def)

lemma opener_letter: "opener sql s \<Longrightarrow> prefix_letter (sql ! s) \<Longrightarrow> sql ! (s + 1) = sq"
  by (auto simp: opener_def prefix_letter_def)

lemma opener_after_word:
  "opener sql s \<Longrightarrow> 0 < s \<Longrightarrow> word_byte (sql ! (s - 1)) \<Longrightarrow> \<not> word_byte (sql ! s)"
  by (auto simp: opener_def ferro_byte byte_def)

lemma skip_while_agree:
  assumes "agree sql1 sql2 k s" "k \<le> s"
    and "s < length sql1 \<Longrightarrow> \<not> p (sql1 ! s) \<and> \<not> p (sql2 ! s) \<or> k < s \<and> \<not> p (sql1 ! (s - 1))"
  shows "skip_while p sql1 k = skip_while p sql2 k \<and> skip_while p sql1 k \<le> s"
  using assms
proof (induction "s - k" arbitrary: k)
  case 0
  then have "k = s" by simp
  with 0 show ?case by (auto simp: agree_def skip_while_stop)
next
  case (Suc n)
  then have k: "k < s" by simp
  have same: "sql1 ! k = sql2 ! k" "k < length sql1" "k < length sql2"
    using Suc.prems(1) k by (auto simp: agree_def)
  show ?case
  proof (cases "p (sql1 ! k)")
    case True
    have "skip_while p sql1 (k + 1) = skip_while p sql2 (k + 1) \<and> skip_while p sql1 (k + 1) \<le> s"
    proof (rule Suc.hyps(1))
      show "n = s - (k + 1)" "k + 1 \<le> s" using Suc.hyps(2) k by auto
      show "agree sql1 sql2 (k + 1) s" by (rule agree_mono [OF Suc.prems(1)]) simp
      show "\<not> p (sql1 ! s) \<and> \<not> p (sql2 ! s) \<or> k + 1 < s \<and> \<not> p (sql1 ! (s - 1))"
        if "s < length sql1"
        using Suc.prems(3) [OF that] True k by (cases "k + 1 = s") auto
    qed
    with True same show ?thesis by (simp add: skip_while_step)
  next
    case False
    with same k show ?thesis by (simp add: skip_while_stop)
  qed
qed

lemma char_end_agree:
  assumes "agree sql1 sql2 i s" "i < s"
  shows "char_end sql1 i = char_end sql2 i \<and> char_end sql1 i \<le> s"
proof -
  have "char_end_from sql1 e = char_end_from sql2 e \<and> char_end_from sql1 e \<le> s"
    if "i < e" "e \<le> s" for e
    using that
  proof (induction "s - e" arbitrary: e)
    case 0
    then have "e = s" by simp
    with 0 assms(1) show ?case
      by (auto simp: char_end_from.simps [of _ s] agree_def is_char_boundary_def opener_not_cont)
  next
    case (Suc n)
    then have e: "e < s" by simp
    have same: "sql1 ! e = sql2 ! e" "length sql1 = length sql2"
      using assms(1) Suc.prems e by (auto simp: agree_def)
    then have "is_char_boundary sql1 e = is_char_boundary sql2 e"
      by (simp add: is_char_boundary_def)
    moreover have "char_end_from sql1 (e + 1) = char_end_from sql2 (e + 1) \<and> char_end_from sql1 (e + 1) \<le> s"
      using Suc e by (intro Suc.hyps(1)) auto
    ultimately show ?case
      using same e by (simp add: char_end_from.simps [of _ e])
  qed
  from this [of "i + 1"] assms(2) show ?thesis by (simp add: char_end_def)
qed

lemma skip_exponent_at_opener: "opener sql s \<Longrightarrow> skip_exponent sql s = s"
proof -
  assume o: "opener sql s"
  have "sql ! (s + 1) = sq" if "sql ! s = CHR ''e'' \<or> sql ! s = CHR ''E''"
    using opener_letter [OF o] that by (auto simp: prefix_letter_def)
  then show ?thesis by (auto simp: skip_exponent_def Let_def ferro_byte byte_def)
qed

lemma skip_exponent_before_opener: "opener sql (i + 1) \<Longrightarrow> skip_exponent sql i = i"
proof -
  assume o: "opener sql (i + 1)"
  have "\<not> is_ascii_digit (sql ! (i + 1))" "sql ! (i + 1) \<noteq> CHR ''+''"
    using opener_not_digit [OF o] opener_not_num [OF o] by auto
  moreover have "\<not> is_ascii_digit (sql ! (i + 2))" if "sql ! (i + 1) = CHR ''-''"
    using opener_minus [OF o that] by (simp add: ferro_byte byte_def)
  ultimately show ?thesis by (auto simp: skip_exponent_def Let_def)
qed

lemma skip_exponent_past: "length sql \<le> i + 1 \<Longrightarrow> skip_exponent sql i = i"
  by (simp add: skip_exponent_def Let_def)

lemma skip_exponent_agree:
  assumes a: "agree sql1 sql2 i s" and "i \<le> s"
  shows "skip_exponent sql1 i = skip_exponent sql2 i"
proof -
  have len: "length sql1 = length sql2" "s \<le> length sql2" using agree_len [OF a] by auto
  have op: "opener sql1 s" "opener sql2 s" if "s < length sql2"
    using a that by (auto simp: agree_def)
  consider "i = s" | "i + 1 = s" | "i + 1 < s" using assms(2) by linarith
  then show ?thesis
  proof cases
    case 1
    then show ?thesis
      using op len skip_exponent_at_opener [of sql1 s] skip_exponent_at_opener [of sql2 s]
      by (cases "s < length sql2") (simp_all add: skip_exponent_past)
  next
    case 2
    then show ?thesis
      using op len skip_exponent_before_opener [of sql1 i] skip_exponent_before_opener [of sql2 i]
      by (cases "s < length sql2") (simp_all add: skip_exponent_past)
  next
    case 3
    define j where "j sql = (if i + 1 < length sql \<and> (sql ! (i + 1) = CHR ''+'' \<or> sql ! (i + 1) = CHR ''-'')
        then i + 2 else i + 1)" for sql :: string
    have same: "sql1 ! i = sql2 ! i" "sql1 ! (i + 1) = sql2 ! (i + 1)" "i < length sql2" "i + 1 < length sql2"
      using agree_nth [OF a] 3 len by auto
    then have j: "j sql1 = j sql2" "j sql1 \<le> s" "i \<le> j sql1" using len 3 by (auto simp: j_def)
    have eq: "skip_exponent sql i =
        (if i < length sql \<and> (sql ! i = CHR ''e'' \<or> sql ! i = CHR ''E'')
         then (if j sql < length sql \<and> is_ascii_digit (sql ! j sql)
               then skip_while is_ascii_digit sql (j sql) else i) else i)" for sql
      by (simp add: skip_exponent_def Let_def j_def)
    have "skip_while is_ascii_digit sql1 (j sql1) = skip_while is_ascii_digit sql2 (j sql1)"
      using skip_while_agree [OF agree_mono [OF a j(3)] j(2), of is_ascii_digit] op len
        opener_not_digit by auto
    moreover have "is_ascii_digit (sql1 ! j sql1) = is_ascii_digit (sql2 ! j sql1)"
      if "j sql1 < length sql2"
    proof (cases "j sql1 < s")
      case True
      then show ?thesis using agree_nth [OF a j(3)] by simp
    next
      case False
      with j(2) that show ?thesis using op opener_not_digit by (metis le_neq_implies_less)
    qed
    ultimately show ?thesis
      unfolding eq using j(1) same len by (cases "j sql2 < length sql2") simp_all
  qed
qed

lemma skip_number_agree:
  assumes a: "agree sql1 sql2 i s" and i: "i < s" and dig: "is_ascii_digit (sql1 ! i)"
  shows "skip_number sql1 i = skip_number sql2 i"
proof -
  have len: "length sql1 = length sql2" "s \<le> length sql2" using agree_len [OF a] by auto
  have op: "opener sql1 s" "opener sql2 s" if "s < length sql2"
    using a that by (auto simp: agree_def)
  let ?num = "\<lambda>c. is_ascii_digit c \<or> c = CHR ''.'' \<or> c = CHR ''_''"
  have here: "sql1 ! i = sql2 ! i" using agree_nth [OF a] i by simp
  have not_hex: "\<not> (i + 1 < length sql \<and> sql ! (i + 1) \<in> set ''xXbBoO'')"
    if "i + 1 = s" "sql = sql1 \<or> sql = sql2" "sql ! i = sql1 ! i" for sql
  proof
    assume h: "i + 1 < length sql \<and> sql ! (i + 1) \<in> set ''xXbBoO''"
    then have "opener sql (i + 1)" using op that len by auto
    moreover have "word_byte (sql ! i)" using dig that by (simp add: is_ascii_alphanumeric_def)
    ultimately have "\<not> word_byte (sql ! (i + 1))" using opener_after_word [of sql "i + 1"] by simp
    with h show False by (auto simp: ferro_byte byte_def)
  qed
  have hex: "skip_while word_byte sql1 (i + 2) = skip_while word_byte sql2 (i + 2)"
    if h: "i + 1 < s" "sql1 ! (i + 1) \<in> set ''xXbBoO''"
  proof -
    have wx: "word_byte (sql1 ! (i + 1))" using h(2) by (auto simp: ferro_byte byte_def)
    have "\<not> word_byte (sql1 ! s) \<and> \<not> word_byte (sql2 ! s) \<or> i + 2 < s \<and> \<not> word_byte (sql1 ! (s - 1))"
      if "s < length sql1"
    proof (cases "word_byte (sql1 ! (s - 1))")
      case True
      have "sql2 ! (s - 1) = sql1 ! (s - 1)" using agree_nth [OF a, of "s - 1"] h by simp
      then show ?thesis using opener_after_word [of sql1 s] opener_after_word [of sql2 s] op that len True h by auto
    next
      case False
      then have "s - 1 \<noteq> i + 1" using wx by metis
      then have "i + 2 < s" using h(1) by linarith
      with False show ?thesis by blast
    qed
    then show ?thesis
      using skip_while_agree [of sql1 sql2 "i + 2" s word_byte] agree_mono [OF a, of "i + 2"] h by auto
  qed
  have num: "skip_while ?num sql1 i = skip_while ?num sql2 i \<and> skip_while ?num sql1 i \<le> s"
    using op len opener_not_digit opener_not_num
    by (intro skip_while_agree [OF a less_imp_le [OF i]]) metis
  have "skip_exponent sql1 (skip_while ?num sql1 i) = skip_exponent sql2 (skip_while ?num sql2 i)"
    using skip_exponent_agree [OF agree_mono [OF a skip_while_ge]] num by metis
  moreover have "(i + 1 < length sql1 \<and> sql1 ! (i + 1) \<in> set ''xXbBoO'') =
      (i + 1 < length sql2 \<and> sql2 ! (i + 1) \<in> set ''xXbBoO'')"
  proof (cases "i + 1 < s")
    case True
    then show ?thesis using agree_nth [OF a, of "i + 1"] len by simp
  next
    case False
    then have "i + 1 = s" using i by simp
    then show ?thesis
      using not_hex [OF _ disjI1 [OF refl] refl] not_hex [OF _ disjI2 [OF refl] here [symmetric]] by blast
  qed
  moreover have "i + 1 < s" if "i + 1 < length sql1" "sql1 ! (i + 1) \<in> set ''xXbBoO''"
    using not_hex [of sql1] that i by (cases "i + 1 = s") auto
  ultimately show ?thesis
    unfolding skip_number_def using hex here by auto
qed

lemma fp_code_agree:
  assumes a: "agree sql1 sql2 i s" and i: "i < s"
  shows "fp_code ua sql1 i out = fp_code ua sql2 i out"
proof -
  have here: "sql1 ! i = sql2 ! i" using agree_nth [OF a] i by simp
  have e: "char_end sql1 i = char_end sql2 i" "char_end sql1 i \<le> s" using char_end_agree [OF a i] by auto
  have "slice sql1 i (char_end sql1 i) = slice sql2 i (char_end sql1 i)"
    using e agree_len [OF a] le_char_end [of i i sql1] agree_nth [OF a]
    by (intro nth_equalityI) (auto simp: length_slice nth_slice)
  then show ?thesis
    using here skip_number_agree [OF a i] e(1) by (simp add: fp_code_def)
qed


text \<open>Byte \<open>k\<close> lies in one of the spans.\<close>

definition covered :: "span list \<Rightarrow> nat \<Rightarrow> bool" where
  "covered hs k \<longleftrightarrow> list_ex (\<lambda>(a, b, _). a \<le> k \<and> k < b) hs"

text \<open>The two statements have the same bytes from \<open>i\<close> on, outside the spans still to come.\<close>

definition same_code :: "string \<Rightarrow> string \<Rightarrow> span list \<Rightarrow> nat \<Rightarrow> bool" where
  "same_code sql1 sql2 hs i \<longleftrightarrow>
     length sql1 = length sql2 \<and> sorted_wrt span_before hs \<and>
     (\<forall>(a, b, h) \<in> set hs. a < b \<and> b \<le> length sql1 \<and> opener sql1 a \<and> opener sql2 a) \<and>
     (\<forall>k. i \<le> k \<and> k < length sql1 \<and> \<not> covered hs k \<longrightarrow> sql1 ! k = sql2 ! k)"

lemma same_code_mono: "same_code sql1 sql2 hs i \<Longrightarrow> i \<le> j \<Longrightarrow> same_code sql1 sql2 hs j"
  by (auto simp: same_code_def)

lemma same_code_pop:
  "same_code sql1 sql2 ((a, b, h) # hs) i \<Longrightarrow> same_code sql1 sql2 hs (max b (i + 1))"
  by (auto simp: same_code_def covered_def)

lemma same_code_agree_Nil: "same_code sql1 sql2 [] i \<Longrightarrow> agree sql1 sql2 i (length sql1)"
  by (auto simp: same_code_def agree_def covered_def)

lemma same_code_agree_Cons:
  assumes "same_code sql1 sql2 ((a, b, h) # hs) i"
  shows "agree sql1 sql2 i a"
proof -
  have "\<not> covered ((a, b, h) # hs) k" if "k < a" for k
    using assms that by (fastforce simp: same_code_def covered_def span_before_def list_ex_iff)
  then show ?thesis using assms by (auto simp: same_code_def agree_def)
qed

lemma fp_step_same:
  assumes s: "same_code sql1 sql2 hs i" and i: "i < length sql1"
    and step: "fp_step ua sql1 hs i out = (hs', i', out')"
  shows "fp_step ua sql2 hs i out = (hs', i', out') \<and> same_code sql1 sql2 hs' i'"
proof (cases hs)
  case Nil
  have "fp_code ua sql1 i out = fp_code ua sql2 i out"
    using s i Nil by (intro fp_code_agree [OF same_code_agree_Nil]) auto
  then show ?thesis
    using step Nil s fp_step_progress [OF i step] by (auto simp: fp_step_def intro: same_code_mono)
next
  case (Cons x rest)
  obtain a b h where x: "x = (a, b, h)" by (rule prod_cases3)
  show ?thesis
  proof (cases "a \<le> i")
    case True
    then show ?thesis using step Cons x same_code_pop s by (auto simp: fp_step_def)
  next
    case False
    then have "fp_code ua sql1 i out = fp_code ua sql2 i out"
      using s Cons x by (intro fp_code_agree [OF same_code_agree_Cons]) auto
    then show ?thesis
      using step Cons x s False fp_step_progress [OF i step]
      by (auto simp: fp_step_def intro: same_code_mono)
  qed
qed

lemma fp_loop_same:
  "same_code sql1 sql2 hs i \<Longrightarrow> fp_loop ua sql1 hs i out = fp_loop ua sql2 hs i out"
proof (induction ua sql1 hs i out rule: fp_loop.induct)
  case (1 ua sql1 hs i out)
  have len: "length sql1 = length sql2" using "1.prems" by (simp add: same_code_def)
  show ?case
  proof (cases "i < length sql1")
    case True
    obtain hs' i' out' where s: "fp_step ua sql1 hs i out = (hs', i', out')" by (metis prod_cases3)
    note s2 = fp_step_same [OF "1.prems" True s]
    have "fp_loop ua sql1 hs' i' out' = fp_loop ua sql2 hs' i' out'"
      using "1.IH" [OF True s [symmetric] refl] s2 by blast
    then show ?thesis
      using True s s2 len by (simp add: fp_loop.simps [of ua _ hs i out])
  next
    case False
    with len show ?thesis by (simp add: fp_loop.simps [of ua _ hs i out])
  qed
qed

text \<open>
  A fingerprint does not depend on the text of string literals and comments. If the parts of two
  statements that are read have the same length, the same redaction spans and the same bytes outside
  them, the fingerprints are equal, so no byte of a literal or of a comment reaches a fingerprint.
\<close>

theorem fingerprint_value_independent:
  assumes "length (fp_input sql1) = length (fp_input sql2)"
    and "input_limit < length sql1 \<longleftrightarrow> input_limit < length sql2"
    and "redact_spans (fp_input sql1) d = redact_spans (fp_input sql2) d"
    and "list_all (\<lambda>k. covered (redact_spans (fp_input sql1) d) k \<or> fp_input sql1 ! k = fp_input sql2 ! k)
           [0..<length (fp_input sql1)]"
  shows "fingerprint uni_alnum sql1 d = fingerprint uni_alnum sql2 d"
proof -
  have "same_code (fp_input sql1) (fp_input sql2) (redact_spans (fp_input sql1) d) 0"
    using assms redact_spans_sorted [of "fp_input sql1" d]
      redact_spans_bounds [of _ _ _ "fp_input sql1" d] redact_spans_bounds [of _ _ _ "fp_input sql2" d]
    by (auto simp: same_code_def list_all_iff)
  from fp_loop_same [OF this] assms show ?thesis by (simp add: fingerprint_def Let_def)
qed

theorem fingerprint_value_independent_witness:
  "fingerprint (\<lambda>_. False) (''SELECT * FROM t WHERE pw = '' @ [sq] @ ''hunter2'' @ [sq] @ '' -- a'') Postgres =
   fingerprint (\<lambda>_. False) (''SELECT * FROM t WHERE pw = '' @ [sq] @ ''s3cret!'' @ [sq] @ '' -- b'') Postgres"
  by (rule fingerprint_value_independent) code_simp+

end
