(* ===== verification/Decimal.thy ===== *)
theory Decimal
  imports Ferro_Prelude
begin

text \<open>
  Decimal text: what \<open>to_string\<close> and the \<open>{:06}\<close> format of an unsigned integer print, and the value
  a decimal text denotes. Shared by the histogram's seconds and the placeholder numbering.
\<close>

definition digit_char :: "nat \<Rightarrow> char" where
  "digit_char n = char_of (48 + n)"

fun to_dec :: "nat \<Rightarrow> string" where
  "to_dec n = (if n < 10 then [digit_char n] else to_dec (n div 10) @ [digit_char (n mod 10)])"

declare to_dec.simps [simp del]

definition pad_dec :: "nat \<Rightarrow> nat \<Rightarrow> string" where
  "pad_dec k n = replicate (k - length (to_dec n)) (CHR ''0'') @ to_dec n"

definition trim_end_matches :: "char \<Rightarrow> string \<Rightarrow> string" where
  "trim_end_matches c s = rev (dropWhile (\<lambda>x. x = c) (rev s))"

definition digit_val :: "char \<Rightarrow> nat" where
  "digit_val c = byte c - 48"

definition parse_dec :: "string \<Rightarrow> nat" where
  "parse_dec s = foldl (\<lambda>n c. 10 * n + digit_val c) 0 s"

lemma byte_digit_char: "n < 10 \<Longrightarrow> byte (digit_char n) = 48 + n"
  by (simp add: byte_def digit_char_def of_char_of)

lemma digit_val_digit_char [simp]: "n < 10 \<Longrightarrow> digit_val (digit_char n) = n"
  by (simp add: digit_val_def byte_digit_char)

lemma digit_val_zero [simp]: "digit_val (CHR ''0'') = 0"
  by (simp add: digit_val_def byte_def)

lemma is_ascii_digit_digit_char [simp]: "n < 10 \<Longrightarrow> is_ascii_digit (digit_char n)"
  by (simp add: is_ascii_digit_def byte_digit_char)

lemma parse_dec_snoc [simp]: "parse_dec (s @ [c]) = 10 * parse_dec s + digit_val c"
  by (simp add: parse_dec_def)

lemma parse_dec_Nil [simp]: "parse_dec [] = 0"
  by (simp add: parse_dec_def)

lemma parse_dec_append: "parse_dec (a @ b) = parse_dec a * 10 ^ length b + parse_dec b"
proof (induction b rule: rev_induct)
  case (snoc c b)
  have "parse_dec (a @ b @ [c]) = 10 * parse_dec (a @ b) + digit_val c"
    using parse_dec_snoc [of "a @ b" c] by simp
  with snoc show ?case by (simp add: algebra_simps)
qed simp

lemma parse_dec_zeros [simp]: "parse_dec (replicate k (CHR ''0'')) = 0"
proof (induction k)
  case (Suc k)
  have "replicate (Suc k) (CHR ''0'') = replicate k (CHR ''0'') @ [CHR ''0'']"
    by (simp add: replicate_append_same)
  with Suc show ?case by simp
qed simp

lemma parse_to_dec [simp]: "parse_dec (to_dec n) = n"
proof (induction n rule: to_dec.induct)
  case (1 n)
  show ?case
  proof (cases "n < 10")
    case True
    then show ?thesis using parse_dec_snoc [of "[]" "digit_char n"] by (simp add: to_dec.simps [of n])
  next
    case False
    with 1 show ?thesis by (simp add: to_dec.simps [of n])
  qed
qed

lemma to_dec_digits: "c \<in> set (to_dec n) \<Longrightarrow> is_ascii_digit c"
proof (induction n rule: to_dec.induct)
  case (1 n)
  then show ?case by (cases "n < 10") (auto simp: to_dec.simps [of n])
qed

lemma to_dec_nonempty [simp]: "to_dec n \<noteq> []"
  by (simp add: to_dec.simps [of n])

lemma to_dec_inj: "to_dec m = to_dec n \<longleftrightarrow> m = n"
  by (metis parse_to_dec)

lemma length_to_dec_le: "n < 10 ^ k \<Longrightarrow> 0 < k \<Longrightarrow> length (to_dec n) \<le> k"
proof (induction k arbitrary: n)
  case (Suc k)
  show ?case
  proof (cases "n < 10")
    case True
    then show ?thesis by (simp add: to_dec.simps [of n])
  next
    case False
    with Suc.prems have "0 < k" by (cases k) auto
    moreover have "n div 10 < 10 ^ k" using Suc.prems(1) by (simp add: less_mult_imp_div_less mult.commute)
    ultimately have "length (to_dec (n div 10)) \<le> k" using Suc.IH by blast
    with False show ?thesis by (simp add: to_dec.simps [of n])
  qed
qed simp

lemma length_pad_dec: "n < 10 ^ k \<Longrightarrow> 0 < k \<Longrightarrow> length (pad_dec k n) = k"
  using length_to_dec_le [of n k] by (simp add: pad_dec_def)

lemma parse_pad_dec [simp]: "parse_dec (pad_dec k n) = n"
  by (simp add: pad_dec_def parse_dec_append)

lemma trim_end_matches_refill:
  "trim_end_matches c s @ replicate (length s - length (trim_end_matches c s)) c = s"
proof -
  let ?r = "rev s"
  have "takeWhile (\<lambda>x. x = c) ?r = replicate (length (takeWhile (\<lambda>x. x = c) ?r)) c"
    by (rule replicate_eqI) (auto dest: set_takeWhileD)
  then have "rev (takeWhile (\<lambda>x. x = c) ?r) = replicate (length (takeWhile (\<lambda>x. x = c) ?r)) c"
    by (metis rev_replicate)
  moreover have "length s = length (takeWhile (\<lambda>x. x = c) ?r) + length (dropWhile (\<lambda>x. x = c) ?r)"
    by (metis length_append length_rev takeWhile_dropWhile_id)
  moreover have "s = rev (dropWhile (\<lambda>x. x = c) ?r) @ rev (takeWhile (\<lambda>x. x = c) ?r)"
    by (metis rev_append rev_rev_ident takeWhile_dropWhile_id)
  ultimately show ?thesis by (simp add: trim_end_matches_def)
qed

lemma set_trim_end_matches: "set (trim_end_matches c s) \<subseteq> set s"
  by (auto simp: trim_end_matches_def dest: set_dropWhileD)

text \<open>A decimal number of seconds, with at most six places, read as microseconds.\<close>

definition parse_micros :: "string \<Rightarrow> nat" where
  "parse_micros s =
     (let w = takeWhile (\<lambda>c. c \<noteq> CHR ''.'') s; f = drop 1 (dropWhile (\<lambda>c. c \<noteq> CHR ''.'') s)
      in parse_dec w * 1000000 + parse_dec (f @ replicate (6 - length f) (CHR ''0'')))"

lemma digit_not_dot: "is_ascii_digit c \<Longrightarrow> c \<noteq> CHR ''.''"
  by (auto simp: is_ascii_digit_def byte_def)

lemma parse_micros_whole: "parse_micros (to_dec w) = w * 1000000"
proof -
  have "\<forall>c \<in> set (to_dec w). c \<noteq> CHR ''.''" using to_dec_digits digit_not_dot by blast
  then have "takeWhile (\<lambda>c. c \<noteq> CHR ''.'') (to_dec w) = to_dec w"
    and d: "dropWhile (\<lambda>c. c \<noteq> CHR ''.'') (to_dec w) = []"
    by (simp_all only: takeWhile_eq_all_conv dropWhile_eq_Nil_conv)
  then show ?thesis unfolding parse_micros_def Let_def by (simp only: d) simp
qed

lemma parse_micros_frac: "parse_micros (to_dec w @ ''.'' @ f) =
    w * 1000000 + parse_dec (f @ replicate (6 - length f) (CHR ''0''))"
proof -
  have d: "\<forall>c \<in> set (to_dec w). c \<noteq> CHR ''.''" using to_dec_digits digit_not_dot by blast
  then have "takeWhile (\<lambda>c. c \<noteq> CHR ''.'') (to_dec w @ ''.'' @ f) = to_dec w"
    "dropWhile (\<lambda>c. c \<noteq> CHR ''.'') (to_dec w @ ''.'' @ f) = ''.'' @ f"
    by (simp_all add: takeWhile_append dropWhile_append takeWhile_eq_all_conv)
  then show ?thesis by (simp add: parse_micros_def)
qed

end
