(* ===== verification/Histogram.thy ===== *)
theory Histogram
  imports Decimal
begin

text \<open>
  The fixed-bucket histogram (\<open>engine/crates/ferro-pool/src/histogram.rs\<close>). Counters and bounds are
  64-bit words, as in the source. The atomics are plain fields: each operation is one update.
\<close>

subsection \<open>Operations\<close>

record histogram =
  bounds_us :: "64 word list"
  buckets :: "64 word list"
  sum_us :: "64 word"

record histogram_snapshot =
  snap_buckets :: "(64 word option \<times> 64 word) list"
  snap_sum_us :: "64 word"
  snap_count :: "64 word"

text \<open>Construction panics unless there are at most 32 bounds and they strictly increase.\<close>

definition histogram_new :: "64 word list \<Rightarrow> histogram option" where
  "histogram_new bounds =
     (if length bounds < 33 \<and> sorted_wrt (<) bounds
      then Some \<lparr>bounds_us = bounds, buckets = replicate 33 0, sum_us = 0\<rparr>
      else None)"

definition partition_point :: "('a \<Rightarrow> bool) \<Rightarrow> 'a list \<Rightarrow> nat" where
  "partition_point p xs = length (takeWhile p xs)"

definition observe_us :: "64 word \<Rightarrow> histogram \<Rightarrow> histogram" where
  "observe_us us h =
     (let i = partition_point (\<lambda>b. b < us) (bounds_us h)
      in h\<lparr>buckets := (buckets h)[i := buckets h ! i + 1], sum_us := sum_us h + us\<rparr>)"

fun cumulate :: "64 word \<Rightarrow> 64 word list \<Rightarrow> 64 word list \<Rightarrow> (64 word option \<times> 64 word) list" where
  "cumulate running (b # bs) (c # cs) = (Some b, running + c) # cumulate (running + c) bs cs"
| "cumulate running [] (c # cs) = [(None, running + c)]"
| "cumulate running _ [] = []"

definition cumulative :: "histogram \<Rightarrow> (64 word option \<times> 64 word) list" where
  "cumulative h = cumulate 0 (bounds_us h) (buckets h)"

definition snapshot :: "histogram \<Rightarrow> histogram_snapshot" where
  "snapshot h =
     (let b = cumulative h
      in \<lparr>snap_buckets = b, snap_sum_us = sum_us h,
          snap_count = (if b = [] then 0 else snd (last b))\<rparr>)"

definition count :: "histogram \<Rightarrow> 64 word" where
  "count h = snap_count (snapshot h)"

definition checkout_bounds_us :: "64 word list" where
  "checkout_bounds_us =
     [25, 50, 100, 250, 500, 1000, 2500, 5000, 10000, 25000, 50000, 100000, 250000, 500000,
      1000000, 2500000, 5000000, 10000000, 30000000]"

definition pin_bounds_us :: "64 word list" where
  "pin_bounds_us =
     [1000, 5000, 10000, 50000, 100000, 500000, 1000000, 5000000, 10000000, 30000000, 60000000,
      120000000, 300000000]"

definition fmt_seconds :: "64 word \<Rightarrow> string" where
  "fmt_seconds us =
     (let whole = unat us div 1000000; frac = unat us mod 1000000
      in if frac = 0 then to_dec whole
         else to_dec whole @ ''.'' @ trim_end_matches (CHR ''0'') (pad_dec 6 frac))"

subsection \<open>Well-formed histograms\<close>

definition hist_ok :: "histogram \<Rightarrow> bool" where
  "hist_ok h \<longleftrightarrow> length (buckets h) = 33 \<and> length (bounds_us h) < 33 \<and> sorted_wrt (<) (bounds_us h)"

lemma histogram_new_ok: "histogram_new bounds = Some h \<Longrightarrow> hist_ok h"
  by (auto simp: histogram_new_def hist_ok_def split: if_splits)

lemma observe_us_ok: "hist_ok h \<Longrightarrow> hist_ok (observe_us us h)"
  by (simp add: observe_us_def hist_ok_def Let_def)

lemma bounds_constants_ok:
  "histogram_new checkout_bounds_us \<noteq> None" "histogram_new pin_bounds_us \<noteq> None"
  by code_simp+

subsection \<open>What an observation changes\<close>

text \<open>The cumulative count at every bound (\<open>None\<close> is \<open>+Inf\<close>), before and after.\<close>

definition le_bound :: "64 word \<Rightarrow> 64 word option \<Rightarrow> bool" where
  "le_bound us b = (case b of None \<Rightarrow> True | Some x \<Rightarrow> us \<le> x)"

definition bump :: "64 word \<Rightarrow> 64 word option \<times> 64 word \<Rightarrow> 64 word option \<times> 64 word" where
  "bump us = (\<lambda>(b, c). (b, if le_bound us b then c + 1 else c))"

lemma cumulate_shift:
  "list_all (\<lambda>b. us \<le> b) bs \<Longrightarrow> cumulate (running + 1) bs cs = map (bump us) (cumulate running bs cs)"
proof (induction running bs cs rule: cumulate.induct)
  case (1 running b bs c cs)
  then have "cumulate (running + c + 1) bs cs = map (bump us) (cumulate (running + c) bs cs)" by simp
  then show ?case using 1 by (simp add: bump_def le_bound_def algebra_simps)
qed (simp_all add: bump_def le_bound_def algebra_simps)

lemma cumulate_bump:
  assumes "sorted_wrt (<) bs" "length bs < length cs"
  shows "cumulate running bs (cs[partition_point (\<lambda>b. b < us) bs := cs ! partition_point (\<lambda>b. b < us) bs + 1]) =
    map (bump us) (cumulate running bs cs)"
  using assms
proof (induction running bs cs rule: cumulate.induct)
  case (1 running b bs c cs)
  show ?case
  proof (cases "b < us")
    case True
    with 1 show ?thesis by (simp add: partition_point_def bump_def le_bound_def not_le)
  next
    case False
    then have "list_all (\<lambda>x. us \<le> x) bs" using 1 by (fastforce simp: list_all_iff not_less)
    from cumulate_shift [OF this, of "running + c" cs] False show ?thesis
      by (simp add: partition_point_def bump_def le_bound_def not_less algebra_simps)
  qed
qed (simp_all add: partition_point_def bump_def le_bound_def algebra_simps)

lemma cumulative_observe: "hist_ok h \<Longrightarrow> cumulative (observe_us us h) = map (bump us) (cumulative h)"
  using cumulate_bump [of "bounds_us h" "buckets h" 0 us]
  by (simp add: cumulative_def observe_us_def Let_def hist_ok_def)

lemma cumulate_last:
  "length bs < length cs \<Longrightarrow> cumulate running bs cs \<noteq> [] \<and> fst (last (cumulate running bs cs)) = None"
  by (induction running bs cs rule: cumulate.induct) auto

lemma count_observe: "hist_ok h \<Longrightarrow> count (observe_us us h) = count h + 1"
proof -
  assume ok: "hist_ok h"
  have l: "cumulative h \<noteq> []" "fst (last (cumulative h)) = None"
    using cumulate_last [of "bounds_us h" "buckets h" 0] ok by (simp_all add: cumulative_def hist_ok_def)
  then have "snd (bump us (last (cumulative h))) = snd (last (cumulative h)) + 1"
    by (cases "last (cumulative h)") (simp add: bump_def le_bound_def)
  with l show ?thesis by (simp add: count_def snapshot_def Let_def cumulative_observe [OF ok] last_map)
qed

lemma count_new: "histogram_new bounds = Some h \<Longrightarrow> count h = 0"
proof -
  assume n: "histogram_new bounds = Some h"
  have z: "\<forall>x \<in> set (cumulate 0 bs (replicate n 0)). snd x = 0" for bs n
  proof (induction bs arbitrary: n)
    case Nil
    then show ?case by (cases n) auto
  next
    case (Cons b bs)
    then show ?case by (cases n) auto
  qed
  have "cumulative h = cumulate 0 bounds (replicate 33 0)"
    using n by (auto simp: cumulative_def histogram_new_def split: if_splits)
  with z [of bounds 33] show ?thesis by (simp add: count_def snapshot_def Let_def)
qed

text \<open>All observations of a list, in order.\<close>

definition observe_all :: "64 word list \<Rightarrow> histogram \<Rightarrow> histogram" where
  "observe_all uss h = fold observe_us uss h"

lemma observe_all_ok: "hist_ok h \<Longrightarrow> hist_ok (observe_all uss h)"
  unfolding observe_all_def by (induction uss arbitrary: h) (simp_all add: observe_us_ok)

lemma cumulative_observe_all:
  "hist_ok h \<Longrightarrow>
   cumulative (observe_all uss h) =
     map (\<lambda>(b, c). (b, c + of_nat (length (filter (\<lambda>us. le_bound us b) uss)))) (cumulative h)"
proof (induction uss arbitrary: h)
  case (Cons us uss)
  have "observe_all (us # uss) h = observe_all uss (observe_us us h)" by (simp add: observe_all_def)
  then show ?case
    using Cons.IH [OF observe_us_ok [OF Cons.prems]] Cons.prems
    by (auto simp: cumulative_observe bump_def)
qed (auto simp: observe_all_def)

subsection \<open>Properties\<close>

text \<open>
  After any sequence of observations on a fresh histogram, every bucket's cumulative count is
  the number of observations at or below its bound (modulo \<open>2 ^ 64\<close>), the last one is \<open>+Inf\<close>, and
  the reported count is the number of observations.
\<close>

theorem histogram_cumulative_exact:
  assumes "histogram_new bounds = Some h"
  shows "cumulative (observe_all uss h) =
      map (\<lambda>b. (b, of_nat (length (filter (\<lambda>us. le_bound us b) uss)))) (map Some bounds @ [None]) \<and>
    count (observe_all uss h) = of_nat (length uss)"
proof -
  have ok: "hist_ok h" using histogram_new_ok [OF assms] .
  have zero: "cumulate 0 bs (replicate n 0) = map (\<lambda>b. (b, 0)) (map Some bs @ [None])"
    if "length bs < n" for bs :: "64 word list" and n
    using that
  proof (induction bs arbitrary: n)
    case Nil
    then show ?case by (cases n) auto
  next
    case (Cons b bs)
    then show ?case by (cases n) auto
  qed
  have fresh: "cumulative h = map (\<lambda>b. (b, 0)) (map Some bounds @ [None])"
    using assms zero [of bounds 33] by (auto simp: histogram_new_def cumulative_def split: if_splits)
  have all: "cumulative (observe_all uss h) =
      map (\<lambda>b. (b, of_nat (length (filter (\<lambda>us. le_bound us b) uss)))) (map Some bounds @ [None])"
    by (simp add: cumulative_observe_all [OF ok] fresh comp_def)
  then have "count (observe_all uss h) = of_nat (length uss)"
    by (simp add: count_def snapshot_def Let_def le_bound_def)
  with all show ?thesis by simp
qed

theorem histogram_cumulative_exact_witness:
  "\<exists>h. histogram_new [10, 100] = Some h \<and> count (observe_all [5, 10, 11, 500] h) = 4 \<and>
     cumulative (observe_all [5, 10, 11, 500] h) = [(Some 10, 2), (Some 100, 3), (None, 4)]"
proof -
  obtain h where h: "histogram_new [10, 100] = Some h" by (simp add: histogram_new_def)
  from histogram_cumulative_exact [OF h, of "[5, 10, 11, 500]"] h show ?thesis
    by (auto simp: le_bound_def)
qed

text \<open>
  \<open>fmt_seconds\<close> is exact: reading its text back as a decimal number of seconds gives the number
  of microseconds it was made from, for every 64-bit value.
\<close>

theorem fmt_seconds_exact: "parse_micros (fmt_seconds us) = unat us"
proof (cases "unat us mod 1000000 = 0")
  case True
  have "unat us div 1000000 * 1000000 + unat us mod 1000000 = unat us" by (rule div_mult_mod_eq)
  with True have "unat us div 1000000 * 1000000 = unat us" by (simp only: add_0_right)
  with True show ?thesis
    unfolding fmt_seconds_def Let_def by (simp only: simp_thms if_True parse_micros_whole)
next
  case False
  let ?d = "pad_dec 6 (unat us mod 1000000)"
  let ?f = "trim_end_matches (CHR ''0'') ?d"
  have "length ?d = 6" by (rule length_pad_dec) simp_all
  then have "parse_dec (?f @ replicate (6 - length ?f) (CHR ''0'')) = unat us mod 1000000"
    using trim_end_matches_refill [of "CHR ''0''" ?d] by simp
  with False show ?thesis
    unfolding fmt_seconds_def Let_def by (simp only: if_False parse_micros_frac div_mult_mod_eq)
qed

end
