(* ===== verification/Pin.thy ===== *)
theory Pin
  imports Rules Histogram
begin

text \<open>
  The pin engine's pure parts (\<open>engine/crates/ferro-pool/src/pin.rs\<close>) and the two backend enums it
  reads (\<open>backend.rs\<close>): pin causes and their counters, hygiene outcomes, the pin slot with its gauge
  and duration histogram, the transaction-control classifier and the reuse-safety bits. Counters are
  64-bit words, time is in microseconds.
\<close>

subsection \<open>Transaction status and reset profiles\<close>

datatype tx_status = Idle | InTx | Failed

definition from_pg_byte :: "char \<Rightarrow> tx_status" where
  "from_pg_byte b = (if b = CHR ''T'' then InTx else if b = CHR ''E'' then Failed else Idle)"

datatype reset_profile = Full | Targeted

definition tx_status_bits :: "tx_status \<Rightarrow> bool \<times> bool" where
  "tx_status_bits st = (case st of Idle \<Rightarrow> (False, False) | InTx \<Rightarrow> (True, False) | Failed \<Rightarrow> (True, True))"

subsection \<open>Pin causes\<close>

type_synonym tx_id = "64 word"

datatype pin_state = Unpinned | PinnedTx tx_id

datatype pin_cause =
    CauseTx | CauseListen | CauseAdvisoryLock | CausePrepare | CauseTemp | CauseSet
  | CausePinFunction | CauseUnknown | CauseSessionTracker

definition cause_count :: nat where
  "cause_count = 9"

definition cause_all :: "pin_cause list" where
  "cause_all = [CauseTx, CauseListen, CauseAdvisoryLock, CausePrepare, CauseTemp, CauseSet,
     CausePinFunction, CauseUnknown, CauseSessionTracker]"

fun cause_index :: "pin_cause \<Rightarrow> nat" where
  "cause_index CauseTx = 0"
| "cause_index CauseListen = 1"
| "cause_index CauseAdvisoryLock = 2"
| "cause_index CausePrepare = 3"
| "cause_index CauseTemp = 4"
| "cause_index CauseSet = 5"
| "cause_index CausePinFunction = 6"
| "cause_index CauseUnknown = 7"
| "cause_index CauseSessionTracker = 8"

fun cause_label :: "pin_cause \<Rightarrow> string" where
  "cause_label CauseTx = ''tx''"
| "cause_label CauseListen = ''listen''"
| "cause_label CauseAdvisoryLock = ''lock''"
| "cause_label CausePrepare = ''prepare''"
| "cause_label CauseTemp = ''temp''"
| "cause_label CauseSet = ''set''"
| "cause_label CausePinFunction = ''pin_function''"
| "cause_label CauseUnknown = ''unknown''"
| "cause_label CauseSessionTracker = ''session_tracker''"

fun cause_from :: "pin_trigger \<Rightarrow> pin_cause" where
  "cause_from Listen = CauseListen"
| "cause_from AdvisoryLock = CauseAdvisoryLock"
| "cause_from Prepare = CausePrepare"
| "cause_from Temp = CauseTemp"
| "cause_from Set = CauseSet"
| "cause_from PinFunction = CausePinFunction"
| "cause_from Unknown = CauseUnknown"

text \<open>The counter array \<open>by_cause\<close>.\<close>

type_synonym pin_metrics = "64 word list"

definition pin_metrics_default :: pin_metrics where
  "pin_metrics_default = replicate cause_count 0"

definition pin_metrics_record :: "pin_cause \<Rightarrow> pin_metrics \<Rightarrow> pin_metrics" where
  "pin_metrics_record c m = m[cause_index c := m ! cause_index c + 1]"

definition pin_metrics_get :: "pin_cause \<Rightarrow> pin_metrics \<Rightarrow> 64 word" where
  "pin_metrics_get c m = m ! cause_index c"

definition pin_metrics_snapshot :: "pin_metrics \<Rightarrow> (pin_cause \<times> 64 word) list" where
  "pin_metrics_snapshot m = map (\<lambda>c. (c, pin_metrics_get c m)) cause_all"

subsection \<open>Hygiene outcomes\<close>

datatype hygiene_outcome = SkippedClean | HygieneTargeted | HygieneFull

definition hygiene_count :: nat where
  "hygiene_count = 3"

definition hygiene_all :: "hygiene_outcome list" where
  "hygiene_all = [SkippedClean, HygieneTargeted, HygieneFull]"

definition hygiene_of :: "reset_profile option \<Rightarrow> hygiene_outcome" where
  "hygiene_of p =
     (case p of None \<Rightarrow> SkippedClean | Some Targeted \<Rightarrow> HygieneTargeted | Some Full \<Rightarrow> HygieneFull)"

fun hygiene_index :: "hygiene_outcome \<Rightarrow> nat" where
  "hygiene_index SkippedClean = 0"
| "hygiene_index HygieneTargeted = 1"
| "hygiene_index HygieneFull = 2"

fun hygiene_label :: "hygiene_outcome \<Rightarrow> string" where
  "hygiene_label SkippedClean = ''skipped_clean''"
| "hygiene_label HygieneTargeted = ''targeted''"
| "hygiene_label HygieneFull = ''full''"

type_synonym hygiene_metrics = "64 word list"

definition hygiene_metrics_default :: hygiene_metrics where
  "hygiene_metrics_default = replicate hygiene_count 0"

definition hygiene_metrics_record :: "hygiene_outcome \<Rightarrow> hygiene_metrics \<Rightarrow> hygiene_metrics" where
  "hygiene_metrics_record o' m = m[hygiene_index o' := m ! hygiene_index o' + 1]"

definition hygiene_metrics_get :: "hygiene_outcome \<Rightarrow> hygiene_metrics \<Rightarrow> 64 word" where
  "hygiene_metrics_get o' m = m ! hygiene_index o'"

definition hygiene_metrics_snapshot :: "hygiene_metrics \<Rightarrow> (hygiene_outcome \<times> 64 word) list" where
  "hygiene_metrics_snapshot m = map (\<lambda>o'. (o', hygiene_metrics_get o' m)) hygiene_all"

subsection \<open>The pin slot\<close>

text \<open>\<open>u64::try_from(..).unwrap_or(u64::MAX)\<close> on a count of microseconds.\<close>

definition saturate_u64 :: "nat \<Rightarrow> 64 word" where
  "saturate_u64 n = (if n < 2 ^ 64 then of_nat n else - 1)"

record pin_time_metrics =
  pt_pinned :: "64 word"
  pt_duration :: histogram

definition pin_time_default :: pin_time_metrics where
  "pin_time_default = \<lparr>pt_pinned = 0, pt_duration = the (histogram_new pin_bounds_us)\<rparr>"

text \<open>\<open>PinSlot::state\<close>: the transaction and the instant the pin started.\<close>

type_synonym pin_slot = "(tx_id \<times> nat) option"

definition slot_new :: pin_slot where
  "slot_new = None"

definition slot_state :: "pin_slot \<Rightarrow> pin_state" where
  "slot_state s = (case s of Some (tx, _) \<Rightarrow> PinnedTx tx | None \<Rightarrow> Unpinned)"

definition slot_pin ::
  "nat \<Rightarrow> tx_id \<Rightarrow> pin_slot \<times> pin_time_metrics \<Rightarrow> pin_slot \<times> pin_time_metrics" where
  "slot_pin now tx sm =
     (case sm of (s, m) \<Rightarrow>
        (case s of
           Some (_, since) \<Rightarrow> (Some (tx, since), m)
         | None \<Rightarrow> (Some (tx, now), m\<lparr>pt_pinned := pt_pinned m + 1\<rparr>)))"

definition slot_release :: "nat \<Rightarrow> pin_slot \<times> pin_time_metrics \<Rightarrow> pin_slot \<times> pin_time_metrics" where
  "slot_release now sm =
     (case sm of (s, m) \<Rightarrow>
        (case s of
           Some (_, since) \<Rightarrow>
             (None, m\<lparr>pt_duration := observe_us (saturate_u64 (now - since)) (pt_duration m),
                      pt_pinned := pt_pinned m - 1\<rparr>)
         | None \<Rightarrow> (None, m)))"

text \<open>\<open>PinCauseCell::set\<close> records the cause and counts it.\<close>

definition cause_cell_set ::
  "pin_cause \<Rightarrow> pin_cause option \<times> pin_metrics \<Rightarrow> pin_cause option \<times> pin_metrics" where
  "cause_cell_set c cm = (Some c, pin_metrics_record c (snd cm))"

subsection \<open>The transaction-control classifier\<close>

datatype tx_control_class = Boundary | Savepoint

definition boundary_single :: "string list" where
  "boundary_single = [''BEGIN'', ''COMMIT'', ''END'', ''ABORT'']"

definition boundary_pair :: "(string \<times> string) list" where
  "boundary_pair = [(''START'', ''TRANSACTION''), (''PREPARE'', ''TRANSACTION'')]"

definition savepoint_single :: "string list" where
  "savepoint_single = [''SAVEPOINT'', ''RELEASE'']"

text \<open>\<open>str::split\<close> by a predicate.\<close>

fun split_on :: "(char \<Rightarrow> bool) \<Rightarrow> string \<Rightarrow> string list" where
  "split_on p [] = [[]]"
| "split_on p (c # cs) =
     (if p c then [] # split_on p cs
      else (case split_on p cs of x # xs \<Rightarrow> (c # x) # xs | [] \<Rightarrow> [[c]]))"

definition leading_words :: "string \<Rightarrow> nat \<Rightarrow> string list" where
  "leading_words sql mx =
     map to_ascii_uppercase
       (take mx (filter (\<lambda>s. s \<noteq> []) (split_on (\<lambda>c. \<not> is_ascii_alphabetic c) sql)))"

function skip_leading_noise :: "string \<Rightarrow> string" where
  "skip_leading_noise rest =
     (let trimmed = trim_start rest in
      case strip_prefix ''--'' trimmed of
        Some after \<Rightarrow>
          skip_leading_noise
            (case find_sub [newline] after of Some i \<Rightarrow> drop (i + 1) after | None \<Rightarrow> [])
      | None \<Rightarrow>
          (case strip_prefix ''/*'' trimmed of
             Some after \<Rightarrow>
               skip_leading_noise
                 (case find_sub ''*/'' after of Some i \<Rightarrow> drop (i + 2) after | None \<Rightarrow> [])
           | None \<Rightarrow> trimmed))"
  by pat_completeness auto
termination
proof (relation "measure length", goal_cases)
  case (2 rest trimmed after)
  then show ?case
    using length_trim_start [of rest]
    by (auto simp: strip_prefix_def split: option.splits if_splits dest!: prefix_length_le)
next
  case (3 rest trimmed after)
  then show ?case
    using length_trim_start [of rest]
    by (auto simp: strip_prefix_def split: option.splits if_splits dest!: prefix_length_le)
qed simp

declare skip_leading_noise.simps [simp del]

definition class_of_words :: "string list \<Rightarrow> tx_control_class option" where
  "class_of_words ws =
     (case ws of
        [] \<Rightarrow> None
      | first # rest \<Rightarrow>
          if first = ''ROLLBACK'' then
            (if (case rest of s # _ \<Rightarrow> s = ''TO'' | [] \<Rightarrow> False) then Some Savepoint else Some Boundary)
          else if List.member boundary_single first then Some Boundary
          else if List.member savepoint_single first then Some Savepoint
          else (case rest of
                  s # _ \<Rightarrow> if List.member boundary_pair (first, s) then Some Boundary else None
                | [] \<Rightarrow> None))"

definition tx_control_class :: "string \<Rightarrow> tx_control_class option" where
  "tx_control_class sql = class_of_words (leading_words (skip_leading_noise sql) 2)"

definition is_lone_statement :: "string \<Rightarrow> bool" where
  "is_lone_statement sql =
     (let trimmed = trim_end sql;
          body = (if trimmed \<noteq> [] \<and> last trimmed = CHR '';'' then butlast trimmed else trimmed)
      in CHR '';'' \<notin> set body)"

datatype tx_verb = VerbOpen | VerbClose

definition verb_of_words :: "string list \<Rightarrow> tx_verb option" where
  "verb_of_words ws =
     (case ws of
        [] \<Rightarrow> None
      | first # rest \<Rightarrow>
          if first = ''BEGIN'' then Some VerbOpen
          else if first = ''COMMIT'' \<or> first = ''END'' \<or> first = ''ABORT'' then Some VerbClose
          else if first = ''ROLLBACK'' then
            (if (case rest of s # _ \<Rightarrow> s = ''TO'' | [] \<Rightarrow> False) then None else Some VerbClose)
          else if first = ''SAVEPOINT'' \<or> first = ''RELEASE'' then None
          else (case rest of
                  s # _ \<Rightarrow> if first = ''START'' \<and> s = ''TRANSACTION'' then Some VerbOpen else None
                | [] \<Rightarrow> None))"

definition leading_tx_verb :: "string \<Rightarrow> tx_verb option" where
  "leading_tx_verb sql = verb_of_words (leading_words (skip_leading_noise sql) 2)"

subsection \<open>Counters\<close>

definition metrics_ok :: "pin_metrics \<Rightarrow> bool" where
  "metrics_ok m \<longleftrightarrow> length m = cause_count"

lemma cause_index_lt: "cause_index c < cause_count"
  by (cases c) (simp_all add: cause_count_def)

lemma cause_index_inj: "cause_index c = cause_index c' \<longleftrightarrow> c = c'"
  by (cases c; cases c') simp_all

lemma set_cause_all: "set cause_all = UNIV"
proof -
  have "c \<in> set cause_all" for c by (cases c) (simp_all add: cause_all_def)
  then show ?thesis by blast
qed

lemma pin_metrics_record_ok [simp]: "metrics_ok (pin_metrics_record c m) = metrics_ok m"
  by (simp add: metrics_ok_def pin_metrics_record_def)

lemma pin_metrics_get_record:
  "metrics_ok m \<Longrightarrow>
   pin_metrics_get c' (pin_metrics_record c m) = pin_metrics_get c' m + (if c = c' then 1 else 0)"
  by (auto simp: metrics_ok_def pin_metrics_get_def pin_metrics_record_def nth_list_update
      cause_index_lt cause_index_inj)

text \<open>
  The pin-cause counters count every cause exactly: after any sequence of recorded causes the
  snapshot lists each of the nine causes once, with the number of times it was recorded (modulo
  \<open>2 ^ 64\<close>), the causes that never occurred included.
\<close>

theorem pin_metrics_snapshot_exact:
  "pin_metrics_snapshot (fold pin_metrics_record cs pin_metrics_default) =
     map (\<lambda>c. (c, of_nat (length (filter (\<lambda>x. x = c) cs)))) cause_all \<and>
   distinct cause_all \<and> set cause_all = UNIV"
proof -
  have "pin_metrics_get c (fold pin_metrics_record cs m) =
      pin_metrics_get c m + of_nat (length (filter (\<lambda>x. x = c) cs))" if "metrics_ok m" for c m
    using that
    by (induction cs arbitrary: m) (simp_all add: pin_metrics_get_record)
  then have "pin_metrics_get c (fold pin_metrics_record cs pin_metrics_default) =
      of_nat (length (filter (\<lambda>x. x = c) cs))" for c
    using cause_index_lt [of c]
    by (simp add: metrics_ok_def pin_metrics_default_def pin_metrics_get_def)
  then show ?thesis
    using set_cause_all by (simp add: pin_metrics_snapshot_def cause_all_def)
qed

subsection \<open>Pins start and end once\<close>

text \<open>The life of a pool's slots: each operation names the slot it acts on.\<close>

datatype slot_op = NewSlot | PinSlot nat tx_id nat | ReleaseSlot nat nat | DropSlot nat nat

fun slot_run ::
  "slot_op \<Rightarrow> pin_slot list \<times> pin_time_metrics \<Rightarrow> pin_slot list \<times> pin_time_metrics" where
  "slot_run NewSlot (ss, m) = (ss @ [slot_new], m)"
| "slot_run (PinSlot i tx now) (ss, m) =
     (if i < length ss
      then (case slot_pin now tx (ss ! i, m) of (s, m') \<Rightarrow> (ss[i := s], m')) else (ss, m))"
| "slot_run (ReleaseSlot i now) (ss, m) =
     (if i < length ss
      then (case slot_release now (ss ! i, m) of (s, m') \<Rightarrow> (ss[i := s], m')) else (ss, m))"
| "slot_run (DropSlot i now) (ss, m) =
     (if i < length ss
      then (take i ss @ drop (i + 1) ss, snd (slot_release now (ss ! i, m))) else (ss, m))"

text \<open>How many pins an operation starts.\<close>

fun slot_starts :: "slot_op \<Rightarrow> pin_slot list \<times> pin_time_metrics \<Rightarrow> nat" where
  "slot_starts (PinSlot i tx now) (ss, m) = (if i < length ss \<and> ss ! i = None then 1 else 0)"
| "slot_starts _ _ = 0"

fun slots_run ::
  "slot_op list \<Rightarrow> pin_slot list \<times> pin_time_metrics \<Rightarrow> (pin_slot list \<times> pin_time_metrics) \<times> nat" where
  "slots_run [] st = (st, 0)"
| "slots_run (x # xs) st = (case slots_run xs (slot_run x st) of (st', n) \<Rightarrow> (st', slot_starts x st + n))"

definition live_pins :: "pin_slot list \<Rightarrow> nat" where
  "live_pins ss = length (filter (\<lambda>s. s \<noteq> None) ss)"

lemma live_pins_update:
  "i < length ss \<Longrightarrow>
   live_pins (ss[i := s]) + (if ss ! i = None then 0 else 1) =
   live_pins ss + (if s = None then 0 else 1)"
proof -
  assume i: "i < length ss"
  then have "ss = take i ss @ ss ! i # drop (Suc i) ss" by (rule id_take_nth_drop)
  then have "live_pins ss = live_pins (take i ss) + live_pins [ss ! i] + live_pins (drop (Suc i) ss)"
    unfolding live_pins_def by (metis (no_types, lifting) append_Cons append_Nil filter_append length_append add.assoc)
  moreover have "live_pins (ss[i := s]) = live_pins (take i ss) + live_pins [s] + live_pins (drop (Suc i) ss)"
    using i by (simp add: upd_conv_take_nth_drop live_pins_def)
  ultimately show ?thesis by (simp add: live_pins_def)
qed

lemma live_pins_remove:
  "i < length ss \<Longrightarrow>
   live_pins (take i ss @ drop (i + 1) ss) + (if ss ! i = None then 0 else 1) = live_pins ss"
proof -
  assume i: "i < length ss"
  then have "ss = take i ss @ ss ! i # drop (Suc i) ss" by (rule id_take_nth_drop)
  then have "live_pins ss = live_pins (take i ss) + live_pins [ss ! i] + live_pins (drop (Suc i) ss)"
    unfolding live_pins_def by (metis (no_types, lifting) append_Cons append_Nil filter_append length_append add.assoc)
  then show ?thesis by (simp add: live_pins_def)
qed

definition pin_balance :: "pin_slot list \<times> pin_time_metrics \<Rightarrow> 64 word \<Rightarrow> bool" where
  "pin_balance st n \<longleftrightarrow>
     hist_ok (pt_duration (snd st)) \<and> pt_pinned (snd st) = of_nat (live_pins (fst st)) \<and>
     n = count (pt_duration (snd st)) + pt_pinned (snd st)"

lemma pin_balance_step:
  assumes "pin_balance st n"
  shows "pin_balance (slot_run x st) (n + of_nat (slot_starts x st))"
proof -
  obtain ss m where st: "st = (ss, m)" by (cases st)
  have rel: "pin_balance (ss', snd (slot_release now (ss ! i, m))) n"
    if "i < length ss" "live_pins ss' + (if ss ! i = None then 0 else 1) = live_pins ss" for i ss' now
  proof (cases "ss ! i")
    case None
    with that assms st show ?thesis by (simp add: pin_balance_def slot_release_def)
  next
    case (Some s)
    from that Some have "live_pins ss = live_pins ss' + 1" by simp
    with Some assms st show ?thesis
      by (simp add: pin_balance_def slot_release_def observe_us_ok count_observe split: prod.split)
  qed
  show ?thesis
  proof (cases x)
    case NewSlot
    then show ?thesis using assms st by (simp add: pin_balance_def live_pins_def slot_new_def)
  next
    case (PinSlot i tx now)
    show ?thesis
    proof (cases "i < length ss")
      case True
      show ?thesis
      proof (cases "ss ! i")
        case None
        then have "live_pins (ss[i := Some (tx, now)]) = live_pins ss + 1"
          using live_pins_update [OF True, of "Some (tx, now)"] by simp
        then show ?thesis using PinSlot True None assms st
          by (simp add: pin_balance_def slot_pin_def algebra_simps)
      next
        case (Some s)
        obtain t since where s: "s = (t, since)" by (cases s)
        have "live_pins (ss[i := Some (tx, since)]) = live_pins ss"
          using live_pins_update [OF True, of "Some (tx, since)"] Some by simp
        then show ?thesis using PinSlot True Some s assms st
          by (simp add: pin_balance_def slot_pin_def)
      qed
    next
      case False
      then show ?thesis using PinSlot assms st by simp
    qed
  next
    case (ReleaseSlot i now)
    show ?thesis
    proof (cases "i < length ss")
      case True
      have none: "fst (slot_release now (ss ! i, m)) = None"
        by (simp add: slot_release_def split: option.split prod.split)
      have "pin_balance (ss[i := None], snd (slot_release now (ss ! i, m))) n"
        using rel [OF True] live_pins_update [OF True, of None] by simp
      then show ?thesis using ReleaseSlot True st none
        by (simp add: case_prod_beta)
    next
      case False
      then show ?thesis using ReleaseSlot assms st by simp
    qed
  next
    case (DropSlot i now)
    show ?thesis
    proof (cases "i < length ss")
      case True
      then show ?thesis using rel [OF True live_pins_remove [OF True]] DropSlot st by simp
    next
      case False
      then show ?thesis using DropSlot assms st by simp
    qed
  qed
qed

text \<open>
  Every pin that starts ends exactly once. However pins, re-pins, releases and drops of a
  pool's slots are interleaved, the pinned gauge is the number of slots that hold a pin now, and the
  pins started so far are those ended (each observed once in the duration histogram) plus those
  still held, modulo \<open>2 ^ 64\<close>.
\<close>

theorem pins_end_exactly_once:
  "case slots_run ops ([], pin_time_default) of
     ((ss, m), started) \<Rightarrow>
       pt_pinned m = of_nat (live_pins ss) \<and> of_nat started = count (pt_duration m) + pt_pinned m"
proof -
  have run: "pin_balance (fst (slots_run ops st)) (n + of_nat (snd (slots_run ops st)))"
    if "pin_balance st n" for st n
    using that
  proof (induction ops arbitrary: st n)
    case (Cons x xs)
    from Cons.IH [OF pin_balance_step [OF Cons.prems, of x]] show ?case
      by (simp add: case_prod_beta algebra_simps)
  qed simp
  obtain h where h: "histogram_new pin_bounds_us = Some h" using bounds_constants_ok(2) by auto
  have "pin_balance ([], pin_time_default) 0"
    using histogram_new_ok [OF h] count_new [OF h]
    by (simp add: pin_balance_def pin_time_default_def h live_pins_def)
  from run [OF this] show ?thesis by (simp add: pin_balance_def case_prod_beta)
qed

subsection \<open>The guard's classifier\<close>

lemma trim_start_id:
  "ws_len (x # xs) = 0 \<Longrightarrow> trim_start (x # xs) = x # xs"
  unfolding trim_start_def by (subst trim_with.simps) simp

lemma ws_len_ascii: "\<not> ws1 (byte x) \<Longrightarrow> byte x < 128 \<Longrightarrow> ws_len (x # xs) = 0"
proof (cases xs)
  case (Cons y ys)
  assume "\<not> ws1 (byte x)" "byte x < 128"
  with Cons show ?thesis by (cases ys) (simp_all del: ws1.simps)
qed (simp del: ws1.simps)

lemma ws_len_mark: "ws_len (CHR ''-'' # xs) = 0" "ws_len (CHR ''/'' # xs) = 0"
proof -
  have "\<not> ws1 (byte (CHR ''-'')) \<and> byte (CHR ''-'') < 128" "\<not> ws1 (byte (CHR ''/'')) \<and> byte (CHR ''/'') < 128"
    by code_simp+
  then show "ws_len (CHR ''-'' # xs) = 0" "ws_len (CHR ''/'' # xs) = 0" using ws_len_ascii by blast+
qed

lemma skip_leading_noise_line:
  assumes "newline \<notin> set c"
  shows "skip_leading_noise (''--'' @ c @ newline # sql) = skip_leading_noise sql"
proof -
  have "find_sub [newline] (c @ newline # sql) = Some (length c)"
    using assms by (induction c) (auto simp: prefix_def)
  moreover have "trim_start (''--'' @ c @ newline # sql) = ''--'' @ c @ newline # sql"
    by (simp add: trim_start_id ws_len_mark)
  ultimately show ?thesis
    by (subst skip_leading_noise.simps) (simp add: strip_prefix_def Let_def)
qed

lemma find_close:
  "find_sub ''*/'' body = None \<Longrightarrow> find_sub ''*/'' (body @ ''*/'' @ sql) = Some (length body)"
proof (induction body)
  case (Cons x xs)
  then have "find_sub ''*/'' (xs @ ''*/'' @ sql) = Some (length xs)" by (simp split: if_splits)
  moreover have "\<not> prefix ''*/'' (x # xs @ ''*/'' @ sql)"
    using Cons.prems by (cases xs) (auto split: if_splits)
  ultimately show ?case by simp
qed simp

lemma skip_leading_noise_block:
  assumes "find_sub ''*/'' body = None"
  shows "skip_leading_noise (''/*'' @ body @ ''*/'' @ sql) = skip_leading_noise sql"
proof -
  have "trim_start (''/*'' @ body @ ''*/'' @ sql) = ''/*'' @ body @ ''*/'' @ sql"
    by (simp add: trim_start_id ws_len_mark)
  then show ?thesis
    using find_close [OF assms, of sql] by (subst skip_leading_noise.simps) (simp add: strip_prefix_def Let_def)
qed

text \<open>
  A comment cannot hide a transaction-control statement from the guard. A leading line comment or
  a leading block comment whose text does not close it changes neither the class nor the verb of the
  statement behind it.
\<close>

theorem guard_ignores_leading_comments:
  assumes "newline \<notin> set line" "find_sub ''*/'' block = None"
  shows "tx_control_class (''--'' @ line @ newline # sql) = tx_control_class sql \<and>
    tx_control_class (''/*'' @ block @ ''*/'' @ sql) = tx_control_class sql \<and>
    leading_tx_verb (''--'' @ line @ newline # sql) = leading_tx_verb sql \<and>
    leading_tx_verb (''/*'' @ block @ ''*/'' @ sql) = leading_tx_verb sql"
  using skip_leading_noise_line [OF assms(1), of sql] skip_leading_noise_block [OF assms(2), of sql]
  by (simp add: tx_control_class_def leading_tx_verb_def)

theorem guard_ignores_leading_comments_witness:
  "tx_control_class (''--'' @ '' select'' @ newline # ''begin'') = Some Boundary \<and>
   tx_control_class (''/*'' @ ''** x *'' @ ''*/'' @ ''begin'') = Some Boundary"
proof -
  have "tx_control_class ''begin'' = Some Boundary" by code_simp
  moreover have "newline \<notin> set '' select''" "find_sub ''*/'' ''** x *'' = None" by code_simp+
  ultimately show ?thesis
    using guard_ignores_leading_comments [of "'' select''" "''** x *''" "''begin''"] by simp
qed

text \<open>
  Every statement the fake infers a transaction change from is one the guard refuses: a leading
  verb that opens or closes a transaction is always in the boundary class.
\<close>

theorem tx_verbs_are_boundaries:
  assumes "leading_tx_verb sql = Some v"
  shows "tx_control_class sql = Some Boundary"
  using assms
  by (auto simp: leading_tx_verb_def tx_control_class_def verb_of_words_def class_of_words_def
      boundary_single_def savepoint_single_def boundary_pair_def split: list.splits if_splits)

theorem tx_verbs_are_boundaries_witness: "tx_control_class ''Start transaction read only'' = Some Boundary"
proof -
  have "leading_tx_verb ''Start transaction read only'' = Some VerbOpen" by code_simp
  then show ?thesis by (rule tx_verbs_are_boundaries)
qed

text \<open>
  The guard does not nest block comments, as PostgreSQL does: the \<open>COMMIT\<close> behind a leading nested
  comment is not seen by the guard, while the lexer of the same engine finds it as the statement's
  leading keyword. The code only ends the comment at the first \<open>*/\<close>, and the rest of the comment
  supplies the leading word.
\<close>

theorem guard_misses_nested_comment:
  "tx_control_class ''/* /* */ x */ COMMIT'' = None \<and>
   leading_keyword (masked (scan ''/* /* */ x */ COMMIT'')) = Some ''COMMIT''"
  by code_simp

end
