(* ===== verification/Pool_Backend.thy ===== *)
theory Pool_Backend
  imports Pin Copy_Shape
begin

text \<open>
  The pool's data (\<open>engine/crates/ferro-pool/src/\<close>\<open>error.rs\<close>, \<open>config.rs\<close>, \<open>backend.rs\<close> and the
  structs of \<open>pool.rs\<close>), and the value type it carries (\<open>ferro-proto/src/value.rs\<close>).

  A backend is the trait \<open>PoolBackend\<close>: a record of its operations. \<open>'w\<close> is what lies outside the
  pool (the server and the network), \<open>'c\<close> a connection, \<open>'r\<close>, \<open>'i\<close> and \<open>'o\<close> the row stream, the
  COPY sink and the COPY source. An asynchronous operation returns how many microseconds it took,
  the world and the connection afterwards, and its result; an operation that hangs is one that takes
  longer than any bound put on it. A stream shares the driver's state with its connection, so the
  operations of a stream also pass the connection through.
\<close>

subsection \<open>Values and errors\<close>

datatype val =
    VNull | VBool bool | VI64 "64 word" | VF64 "64 word" | VText string | VBytes string
  | VU64 "64 word" | VDecimal string | VDate string | VTime string | VTimestamp string
  | VTimestampTz string | VUuid string | VJson string

record col_meta =
  cm_name :: string
  cm_tag :: "8 word"

record query_result =
  qr_cols :: "col_meta list"
  qr_rows :: "val list list"
  qr_affected :: "64 word"
  qr_last_insert_id :: "64 word option"

definition query_result_default :: query_result where
  "query_result_default = \<lparr>qr_cols = [], qr_rows = [], qr_affected = 0, qr_last_insert_id = None\<rparr>"

record sql_error =
  se_code :: "16 word"
  se_branch :: "8 word"
  se_sqlstate :: "string option"
  se_errno :: "32 word option"
  se_message :: string

text \<open>The refusals of the guarded entries, one per message of the source.\<close>

datatype refusal =
    CopyViaEntry | SavepointParams | SavepointCompound | SavepointOutsideTx | BareTxControl
  | SavepointStream | CopyNotSupported | CopyInShape | CopyOutShape | BackendRefusal string

datatype pool_error =
    Timeout | ConnectionLost | Closed | Unsupported refusal | Backend string | Sql sql_error

type_synonym 'a result = "pool_error + 'a"

datatype branch = Retryable | NonRetryable

definition branch_retryable :: "8 word" where
  "branch_retryable = 1"

definition taxonomy_branch :: "pool_error \<Rightarrow> branch" where
  "taxonomy_branch e =
     (case e of
        Timeout \<Rightarrow> Retryable
      | ConnectionLost \<Rightarrow> Retryable
      | Closed \<Rightarrow> NonRetryable
      | Unsupported _ \<Rightarrow> NonRetryable
      | Backend _ \<Rightarrow> NonRetryable
      | Sql s \<Rightarrow> if se_branch s = branch_retryable then Retryable else NonRetryable)"

record reclaimed =
  rc_affected :: "64 word"
  rc_last_insert_id :: "64 word option"

definition reclaimed_default :: reclaimed where
  "reclaimed_default = \<lparr>rc_affected = 0, rc_last_insert_id = None\<rparr>"

subsection \<open>The backend\<close>

type_synonym ('w, 'c, 'a) async = "'w \<Rightarrow> 'c \<Rightarrow> nat \<times> 'w \<times> 'a \<times> 'c"

record ('w, 'c, 'r, 'i, 'o) backend =
  be_connect :: "'w \<Rightarrow> nat \<times> 'w \<times> 'c result"
  be_ping :: "('w, 'c, unit result) async"
  be_is_closed :: "'c \<Rightarrow> bool"
  be_dialect :: dialect
  be_tx_status :: "'c \<Rightarrow> tx_status"
  be_take_session_mutated :: "'c \<Rightarrow> bool \<times> 'c"
  be_apply_readonly :: "bool \<Rightarrow> ('w, 'c, unit result) async"
  be_supports_copy :: bool
  be_clean_reset_profile :: "reset_profile option"
  be_reset :: "reset_profile \<Rightarrow> ('w, 'c, unit result) async"
  be_simple_query :: "string \<Rightarrow> ('w, 'c, 64 word result) async"
  be_query :: "string \<Rightarrow> val list \<Rightarrow> ('w, 'c, query_result result) async"
  be_query_stream :: "string \<Rightarrow> val list \<Rightarrow> ('w, 'c, (col_meta list \<times> 'r) result) async"
  be_row_next :: "'w \<Rightarrow> 'c \<Rightarrow> 'r \<Rightarrow> nat \<times> 'w \<times> val list result option \<times> 'c \<times> 'r"
  be_reclaim_stream :: "'r \<Rightarrow> ('w, 'c, reclaimed result) async"
  be_copy_in :: "string \<Rightarrow> ('w, 'c, 'i result) async"
  be_sink_send :: "string \<Rightarrow> 'w \<Rightarrow> 'c \<Rightarrow> 'i \<Rightarrow> nat \<times> 'w \<times> unit result \<times> 'c \<times> 'i"
  be_sink_finish :: "'i \<Rightarrow> ('w, 'c, 64 word result) async"
  be_sink_abort :: "'i \<Rightarrow> ('w, 'c, unit result) async"
  be_copy_out :: "string \<Rightarrow> ('w, 'c, 'o result) async"
  be_copy_next :: "'w \<Rightarrow> 'c \<Rightarrow> 'o \<Rightarrow> nat \<times> 'w \<times> string result option \<times> 'c \<times> 'o"
  be_copy_rows_affected :: "'o \<Rightarrow> 64 word"

subsection \<open>Configuration and state\<close>

record pool_config =
  max_size :: nat
  checkout_timeout :: nat
  max_lifetime :: nat
  reap_interval :: "nat option"
  pin_functions :: "string list"
  pin_on_unknown :: bool

text \<open>Durations in microseconds: 5 seconds and 30 minutes.\<close>

definition pool_config_default :: pool_config where
  "pool_config_default =
     \<lparr>max_size = 8, checkout_timeout = 5000000, max_lifetime = 1800000000, reap_interval = None,
      pin_functions = [], pin_on_unknown = True\<rparr>"

record 'c idle_conn =
  ic_conn :: 'c
  ic_created_at :: nat
  ic_tx_open :: bool
  ic_tainted :: bool

text \<open>\<open>PoolInner\<close>, with the clock and the world. The idle stack's top is the last element.\<close>

record ('w, 'c) pool =
  p_config :: pool_config
  p_world :: 'w
  p_clock :: nat
  p_permits :: nat
  p_idle :: "'c idle_conn list"
  p_pin_metrics :: pin_metrics
  p_hygiene_metrics :: hygiene_metrics
  p_pin_time :: pin_time_metrics
  p_checkout_duration :: histogram
  p_waiting :: nat

record 'c checkout =
  co_conn :: 'c
  co_created_at :: nat
  co_queue_us :: "64 word"
  co_tx_open :: bool
  co_tainted :: bool
  co_pin :: pin_slot
  co_last_pin_cause :: "pin_cause option"
  co_discard :: bool

record pool_gauges =
  g_max_size :: nat
  g_in_use :: nat
  g_idle :: nat
  g_pinned :: "64 word"
  g_waiting :: nat

definition pool_new :: "pool_config \<Rightarrow> 'w \<Rightarrow> nat \<Rightarrow> ('w, 'c) pool" where
  "pool_new cfg w now =
     \<lparr>p_config = cfg, p_world = w, p_clock = now, p_permits = max_size cfg, p_idle = [],
      p_pin_metrics = pin_metrics_default, p_hygiene_metrics = hygiene_metrics_default,
      p_pin_time = pin_time_default,
      p_checkout_duration = the (histogram_new checkout_bounds_us), p_waiting = 0\<rparr>"

definition gauges :: "('w, 'c) pool \<Rightarrow> pool_gauges" where
  "gauges p =
     \<lparr>g_max_size = max_size (p_config p), g_in_use = max_size (p_config p) - p_permits p,
      g_idle = length (p_idle p), g_pinned = pt_pinned (p_pin_time p), g_waiting = p_waiting p\<rparr>"

text \<open>\<open>Checkout::new\<close>: the wait is observed, and the guard starts clean and unpinned.\<close>

definition checkout_new ::
  "'c \<Rightarrow> nat \<Rightarrow> nat \<Rightarrow> ('w, 'c) pool \<Rightarrow> ('w, 'c) pool \<times> 'c checkout" where
  "checkout_new c created start p =
     (let q = of_nat (p_clock p - start) in
      (p\<lparr>p_checkout_duration := observe_us q (p_checkout_duration p)\<rparr>,
       \<lparr>co_conn = c, co_created_at = created, co_queue_us = q, co_tx_open = False,
        co_tainted = False, co_pin = slot_new, co_last_pin_cause = None, co_discard = False\<rparr>))"

end
