(* ===== verification/Pool.thy ===== *)
theory Pool
  imports Pool_Backend
begin

text \<open>
  The pool's operations, one definition per method of \<open>engine/crates/ferro-pool/src/pool.rs\<close> and of
  \<open>health.rs\<close>. A method that takes \<open>&mut self\<close> on a \<open>Checkout\<close> maps a pair of the pool and the
  checkout to its result and the pair afterwards. Each definition is one uninterrupted run of the
  method; how runs of several tasks interleave at the await points is the subject of
  \<open>Pool_Capacity\<close>.
\<close>

subsection \<open>Awaiting\<close>

definition run_on ::
  "('w, 'c, 'a) async \<Rightarrow> ('w, 'c) pool \<times> 'c checkout \<Rightarrow> 'a \<times> ('w, 'c) pool \<times> 'c checkout" where
  "run_on f pk =
     (case pk of (p, k) \<Rightarrow>
        (case f (p_world p) (co_conn k) of
           (d, w, r, c) \<Rightarrow> (r, p\<lparr>p_world := w, p_clock := p_clock p + d\<rparr>, k\<lparr>co_conn := c\<rparr>)))"

subsection \<open>Post-statement bookkeeping\<close>

definition set_cause :: "pin_cause \<Rightarrow> ('w, 'c) pool \<times> 'c checkout \<Rightarrow> ('w, 'c) pool \<times> 'c checkout" where
  "set_cause c pk =
     (case pk of (p, k) \<Rightarrow>
        (case cause_cell_set c (co_last_pin_cause k, p_pin_metrics p) of
           (l, m) \<Rightarrow> (p\<lparr>p_pin_metrics := m\<rparr>, k\<lparr>co_last_pin_cause := l\<rparr>)))"

definition apply_tx_status ::
  "tx_status \<Rightarrow> ('w, 'c) pool \<times> 'c checkout \<Rightarrow> ('w, 'c) pool \<times> 'c checkout" where
  "apply_tx_status st pk =
     (case pk of (p, k) \<Rightarrow>
        (case tx_status_bits st of
           (opn, force) \<Rightarrow>
             (let k' = k\<lparr>co_tx_open := opn, co_tainted := co_tainted k \<or> force\<rparr>
              in if st = InTx \<or> st = Failed then set_cause CauseTx (p, k') else (p, k'))))"

definition apply_session_tracker ::
  "('w, 'c, 'r, 'i, 'o) backend \<Rightarrow> ('w, 'c) pool \<times> 'c checkout \<Rightarrow> ('w, 'c) pool \<times> 'c checkout" where
  "apply_session_tracker B pk =
     (case pk of (p, k) \<Rightarrow>
        (case be_take_session_mutated B (co_conn k) of
           (mutated, c) \<Rightarrow>
             (let k' = k\<lparr>co_conn := c\<rparr>
              in if mutated then
                   (let k'' = k'\<lparr>co_tainted := True\<rparr>
                    in if co_last_pin_cause k'' = Some CauseTx then (p, k'')
                       else set_cause CauseSessionTracker (p, k''))
                 else (p, k'))))"

definition force_both :: "bool \<Rightarrow> ('w, 'c) pool \<times> 'c checkout \<Rightarrow> ('w, 'c) pool \<times> 'c checkout" where
  "force_both err pk =
     (case pk of (p, k) \<Rightarrow>
        (p, if err then k\<lparr>co_tx_open := True, co_tainted := True\<rparr> else k))"

text \<open>
  The sequence every instrumented method runs after its statement: the transaction status, the
  session tracker, and on an error both bits forced.
\<close>

definition after_statement ::
  "('w, 'c, 'r, 'i, 'o) backend \<Rightarrow> bool \<Rightarrow> ('w, 'c) pool \<times> 'c checkout \<Rightarrow> ('w, 'c) pool \<times> 'c checkout" where
  "after_statement B err pk =
     force_both err
       (apply_session_tracker B (apply_tx_status (be_tx_status B (co_conn (snd pk))) pk))"

definition apply_classify ::
  "('w, 'c, 'r, 'i, 'o) backend \<Rightarrow> string \<Rightarrow> ('w, 'c) pool \<times> 'c checkout \<Rightarrow> ('w, 'c) pool \<times> 'c checkout" where
  "apply_classify B sql pk =
     (case pk of (p, k) \<Rightarrow>
        (case classify sql (be_dialect B) (pin_functions (p_config p)) (pin_on_unknown (p_config p)) of
           Some t \<Rightarrow> set_cause (cause_from t) (p, k\<lparr>co_tainted := True\<rparr>)
         | None \<Rightarrow> (p, k)))"

subsection \<open>Transactions\<close>

definition unit_result :: "'a result \<Rightarrow> unit result" where
  "unit_result r = (case r of Inl e \<Rightarrow> Inl e | Inr _ \<Rightarrow> Inr ())"

definition pin_to :: "tx_id \<Rightarrow> ('w, 'c) pool \<times> 'c checkout \<Rightarrow> ('w, 'c) pool \<times> 'c checkout" where
  "pin_to tx pk =
     (case pk of (p, k) \<Rightarrow>
        (case slot_pin (p_clock p) tx (co_pin k, p_pin_time p) of
           (s, m) \<Rightarrow> (p\<lparr>p_pin_time := m\<rparr>, k\<lparr>co_pin := s\<rparr>)))"

definition unpin :: "('w, 'c) pool \<times> 'c checkout \<Rightarrow> ('w, 'c) pool \<times> 'c checkout" where
  "unpin pk =
     (case pk of (p, k) \<Rightarrow>
        (case slot_release (p_clock p) (co_pin k, p_pin_time p) of
           (s, m) \<Rightarrow> (p\<lparr>p_pin_time := m\<rparr>, k\<lparr>co_pin := s\<rparr>)))"

definition set_tx_open :: "bool \<Rightarrow> ('w, 'c) pool \<times> 'c checkout \<Rightarrow> ('w, 'c) pool \<times> 'c checkout" where
  "set_tx_open b pk = (case pk of (p, k) \<Rightarrow> (p, k\<lparr>co_tx_open := b\<rparr>))"

definition set_tainted :: "bool \<Rightarrow> ('w, 'c) pool \<times> 'c checkout \<Rightarrow> ('w, 'c) pool \<times> 'c checkout" where
  "set_tainted b pk = (case pk of (p, k) \<Rightarrow> (p, k\<lparr>co_tainted := b\<rparr>))"

definition discard :: "('w, 'c) pool \<times> 'c checkout \<Rightarrow> ('w, 'c) pool \<times> 'c checkout" where
  "discard pk = (case pk of (p, k) \<Rightarrow> (p, k\<lparr>co_discard := True\<rparr>))"

definition begin_tx_with ::
  "('w, 'c, 'r, 'i, 'o) backend \<Rightarrow> tx_id \<Rightarrow> string \<Rightarrow> ('w, 'c) pool \<times> 'c checkout \<Rightarrow>
   unit result \<times> ('w, 'c) pool \<times> 'c checkout" where
  "begin_tx_with B tx sql pk =
     (case run_on (be_simple_query B sql) pk of
        (r, pk1) \<Rightarrow>
          (let pk2 = (if isl r then pk1 else set_tx_open True (set_cause CauseTx (pin_to tx pk1)))
           in (unit_result r, after_statement B (isl r) pk2)))"

definition begin_tx ::
  "('w, 'c, 'r, 'i, 'o) backend \<Rightarrow> tx_id \<Rightarrow> ('w, 'c) pool \<times> 'c checkout \<Rightarrow>
   unit result \<times> ('w, 'c) pool \<times> 'c checkout" where
  "begin_tx B tx = begin_tx_with B tx ''BEGIN''"

definition tx_control ::
  "('w, 'c, 'r, 'i, 'o) backend \<Rightarrow> string \<Rightarrow> ('w, 'c) pool \<times> 'c checkout \<Rightarrow>
   unit result \<times> ('w, 'c) pool \<times> 'c checkout" where
  "tx_control B sql pk =
     (case run_on (be_simple_query B sql) pk of
        (r, pk1) \<Rightarrow> (unit_result r, after_statement B (isl r) pk1))"

definition end_tx ::
  "string \<Rightarrow> ('w, 'c, 'r, 'i, 'o) backend \<Rightarrow> ('w, 'c) pool \<times> 'c checkout \<Rightarrow>
   unit result \<times> ('w, 'c) pool \<times> 'c checkout" where
  "end_tx sql B pk =
     (case run_on (be_simple_query B sql) pk of
        (r, pk1) \<Rightarrow>
          (let pk2 = (if isl r then pk1 else set_tx_open False (unpin pk1))
           in (unit_result r, after_statement B (isl r) pk2)))"

definition commit_tx ::
  "('w, 'c, 'r, 'i, 'o) backend \<Rightarrow> ('w, 'c) pool \<times> 'c checkout \<Rightarrow>
   unit result \<times> ('w, 'c) pool \<times> 'c checkout" where
  "commit_tx = end_tx ''COMMIT''"

definition rollback_tx ::
  "('w, 'c, 'r, 'i, 'o) backend \<Rightarrow> ('w, 'c) pool \<times> 'c checkout \<Rightarrow>
   unit result \<times> ('w, 'c) pool \<times> 'c checkout" where
  "rollback_tx = end_tx ''ROLLBACK''"

subsection \<open>The guarded statement entries\<close>

datatype verdict = Proceed | SavepointPassthrough

definition guard_tx_control ::
  "('w, 'c, 'r, 'i, 'o) backend \<Rightarrow> string \<Rightarrow> val list \<Rightarrow> 'c checkout \<Rightarrow> verdict result" where
  "guard_tx_control B sql params k =
     (if be_supports_copy B \<and> speaks_copy_stdio sql then Inl (Unsupported CopyViaEntry)
      else
        (case tx_control_class sql of
           None \<Rightarrow> Inr Proceed
         | Some Savepoint \<Rightarrow>
             if co_tx_open k then
               if params \<noteq> [] then Inl (Unsupported SavepointParams)
               else if \<not> is_lone_statement sql then Inl (Unsupported SavepointCompound)
               else Inr SavepointPassthrough
             else Inl (Unsupported SavepointOutsideTx)
         | Some Boundary \<Rightarrow> Inl (Unsupported BareTxControl)))"

definition apply_classify_for ::
  "('w, 'c, 'r, 'i, 'o) backend \<Rightarrow> verdict \<Rightarrow> string \<Rightarrow> ('w, 'c) pool \<times> 'c checkout \<Rightarrow>
   ('w, 'c) pool \<times> 'c checkout" where
  "apply_classify_for B v sql pk =
     (case v of Proceed \<Rightarrow> apply_classify B sql pk | SavepointPassthrough \<Rightarrow> pk)"

definition exec ::
  "('w, 'c, 'r, 'i, 'o) backend \<Rightarrow> string \<Rightarrow> ('w, 'c) pool \<times> 'c checkout \<Rightarrow>
   64 word result \<times> ('w, 'c) pool \<times> 'c checkout" where
  "exec B sql pk =
     (case guard_tx_control B sql [] (snd pk) of
        Inl e \<Rightarrow> (Inl e, pk)
      | Inr v \<Rightarrow>
          (case run_on (be_simple_query B sql) pk of
             (r, pk1) \<Rightarrow> (r, apply_classify_for B v sql (after_statement B (isl r) pk1))))"

definition affected_only :: "64 word result \<Rightarrow> query_result result" where
  "affected_only r =
     (case r of Inl e \<Rightarrow> Inl e | Inr n \<Rightarrow> Inr (query_result_default\<lparr>qr_affected := n\<rparr>))"

definition query ::
  "('w, 'c, 'r, 'i, 'o) backend \<Rightarrow> string \<Rightarrow> val list \<Rightarrow> ('w, 'c) pool \<times> 'c checkout \<Rightarrow>
   query_result result \<times> ('w, 'c) pool \<times> 'c checkout" where
  "query B sql params pk =
     (case guard_tx_control B sql params (snd pk) of
        Inl e \<Rightarrow> (Inl e, pk)
      | Inr v \<Rightarrow>
          (case (case v of
                   Proceed \<Rightarrow> run_on (be_query B sql params) pk
                 | SavepointPassthrough \<Rightarrow>
                     (case run_on (be_simple_query B sql) pk of (r, pk1) \<Rightarrow> (affected_only r, pk1))) of
             (r, pk1) \<Rightarrow> (r, apply_classify_for B v sql (after_statement B (isl r) pk1))))"

subsection \<open>Row streams\<close>

record ('r) row_handle =
  rh_rows :: 'r
  rh_cols :: "col_meta list"
  rh_sql :: string
  rh_errored :: bool

record stream_end =
  st_affected :: "64 word"
  st_last_insert_id :: "64 word option"
  st_queue_us :: "64 word"

definition finalize_stream ::
  "('w, 'c, 'r, 'i, 'o) backend \<Rightarrow> bool \<Rightarrow> string \<Rightarrow> ('w, 'c) pool \<times> 'c checkout \<Rightarrow>
   ('w, 'c) pool \<times> 'c checkout" where
  "finalize_stream B errored sql pk = apply_classify B sql (after_statement B errored pk)"

definition query_stream ::
  "('w, 'c, 'r, 'i, 'o) backend \<Rightarrow> string \<Rightarrow> val list \<Rightarrow> ('w, 'c) pool \<times> 'c checkout \<Rightarrow>
   'r row_handle result \<times> ('w, 'c) pool \<times> 'c checkout" where
  "query_stream B sql params pk =
     (case guard_tx_control B sql params (snd pk) of
        Inl e \<Rightarrow> (Inl e, pk)
      | Inr SavepointPassthrough \<Rightarrow> (Inl (Unsupported SavepointStream), pk)
      | Inr Proceed \<Rightarrow>
          (case run_on (be_query_stream B sql params) pk of
             (Inr (cols, rows), pk1) \<Rightarrow>
               (Inr \<lparr>rh_rows = rows, rh_cols = cols, rh_sql = sql, rh_errored = False\<rparr>, pk1)
           | (Inl e, pk1) \<Rightarrow> (Inl e, finalize_stream B True sql pk1)))"

definition stream_next ::
  "('w, 'c, 'r, 'i, 'o) backend \<Rightarrow> 'r row_handle \<Rightarrow> ('w, 'c) pool \<times> 'c checkout \<Rightarrow>
   val list result option \<times> 'r row_handle \<times> ('w, 'c) pool \<times> 'c checkout" where
  "stream_next B h pk =
     (case pk of (p, k) \<Rightarrow>
        (case be_row_next B (p_world p) (co_conn k) (rh_rows h) of
           (d, w, item, c, rs) \<Rightarrow>
             (item,
              h\<lparr>rh_rows := rs, rh_errored := rh_errored h \<or> (case item of Some x \<Rightarrow> isl x | None \<Rightarrow> False)\<rparr>,
              p\<lparr>p_world := w, p_clock := p_clock p + d\<rparr>, k\<lparr>co_conn := c\<rparr>)))"

text \<open>
  Draining a stream under a time budget: the items it yields until it ends, or \<open>None\<close> when the budget
  runs out first. A pull that yields an item costs at least one microsecond, so the drain ends even
  for a stream that never does.
\<close>

function drain_within ::
  "('w \<Rightarrow> 'c \<Rightarrow> 's \<Rightarrow> nat \<times> 'w \<times> 'a option \<times> 'c \<times> 's) \<Rightarrow> nat \<Rightarrow> 'w \<Rightarrow> 'c \<Rightarrow> 's \<Rightarrow>
   'a list \<times> nat option \<times> 'w \<times> 'c \<times> 's" where
  "drain_within pull budget w c s =
     (case pull w c s of
        (d, w', item, c', s') \<Rightarrow>
          (case item of
             None \<Rightarrow> ([], if d \<le> budget then Some (budget - d) else None, w', c', s')
           | Some x \<Rightarrow>
               if max d 1 \<le> budget then
                 (case drain_within pull (budget - max d 1) w' c' s' of
                    (xs, rest) \<Rightarrow> (x # xs, rest))
               else ([], None, w', c', s')))"
  by pat_completeness auto
termination
  by (relation "measure (\<lambda>(pull, budget, w, c, s). budget)") auto

declare drain_within.simps [simp del]

definition stream_finish ::
  "('w, 'c, 'r, 'i, 'o) backend \<Rightarrow> 'r row_handle \<Rightarrow> ('w, 'c) pool \<times> 'c checkout \<Rightarrow>
   stream_end \<times> ('w, 'c) pool \<times> 'c checkout" where
  "stream_finish B h pk =
     (case pk of (p, k) \<Rightarrow>
        (let bound = checkout_timeout (p_config p) in
         case drain_within (be_row_next B) bound (p_world p) (co_conn k) (rh_rows h) of
           (items, left, w, c, rs) \<Rightarrow>
             (case left of
                None \<Rightarrow>
                  (\<lparr>st_affected = 0, st_last_insert_id = None, st_queue_us = co_queue_us k\<rparr>,
                   finalize_stream B True (rh_sql h)
                     (p\<lparr>p_world := w, p_clock := p_clock p + bound\<rparr>, k\<lparr>co_conn := c, co_discard := True\<rparr>))
              | Some rem \<Rightarrow>
                  (case be_reclaim_stream B rs w c of
                     (d, w', r, c') \<Rightarrow>
                       (let failed = (bound < d \<or> isl r);
                            rc = (if failed then reclaimed_default else projr r);
                            errored = (failed \<or> rh_errored h \<or> list_ex isl items);
                            p' = p\<lparr>p_world := w', p_clock := p_clock p + (bound - rem) + min d bound\<rparr>;
                            k' = k\<lparr>co_conn := c', co_discard := co_discard k \<or> failed\<rparr>
                        in (\<lparr>st_affected = rc_affected rc, st_last_insert_id = rc_last_insert_id rc,
                             st_queue_us = co_queue_us k\<rparr>,
                            finalize_stream B errored (rh_sql h) (p', k')))))))"

text \<open>\<open>Drop\<close> of an unfinished handle.\<close>

definition handle_abandon :: "('w, 'c) pool \<times> 'c checkout \<Rightarrow> ('w, 'c) pool \<times> 'c checkout" where
  "handle_abandon pk = (case pk of (p, k) \<Rightarrow> (p, k\<lparr>co_tainted := True, co_discard := True\<rparr>))"

subsection \<open>COPY\<close>

definition guard_copy ::
  "('w, 'c, 'r, 'i, 'o) backend \<Rightarrow> string \<Rightarrow> copy_direction \<Rightarrow> unit result" where
  "guard_copy B sql want =
     (if \<not> be_supports_copy B then Inl (Unsupported CopyNotSupported)
      else if copy_direction_of sql = Some want then Inr ()
      else Inl (Unsupported (case want of In \<Rightarrow> CopyInShape | Out \<Rightarrow> CopyOutShape)))"

fun is_sql_error :: "pool_error \<Rightarrow> bool" where
  "is_sql_error (Sql _) = True"
| "is_sql_error _ = False"

definition copy_open_failed ::
  "('w, 'c, 'r, 'i, 'o) backend \<Rightarrow> pool_error \<Rightarrow> string \<Rightarrow> ('w, 'c) pool \<times> 'c checkout \<Rightarrow>
   ('w, 'c) pool \<times> 'c checkout" where
  "copy_open_failed B e sql pk =
     (case pk of (p, k) \<Rightarrow>
        finalize_stream B True sql
          (p, if is_sql_error e then k else k\<lparr>co_discard := True\<rparr>))"

record ('i) copy_in_handle =
  ci_sink :: 'i
  ci_sql :: string

record ('o) copy_out_handle =
  cp_rows :: 'o
  cp_sql :: string
  cp_errored :: bool

definition copy_in ::
  "('w, 'c, 'r, 'i, 'o) backend \<Rightarrow> string \<Rightarrow> ('w, 'c) pool \<times> 'c checkout \<Rightarrow>
   'i copy_in_handle result \<times> ('w, 'c) pool \<times> 'c checkout" where
  "copy_in B sql pk =
     (case guard_copy B sql In of
        Inl e \<Rightarrow> (Inl e, pk)
      | Inr _ \<Rightarrow>
          (case run_on (be_copy_in B sql) pk of
             (Inr s, pk1) \<Rightarrow> (Inr \<lparr>ci_sink = s, ci_sql = sql\<rparr>, pk1)
           | (Inl e, pk1) \<Rightarrow> (Inl e, copy_open_failed B e sql pk1)))"

definition copy_out ::
  "('w, 'c, 'r, 'i, 'o) backend \<Rightarrow> string \<Rightarrow> ('w, 'c) pool \<times> 'c checkout \<Rightarrow>
   'o copy_out_handle result \<times> ('w, 'c) pool \<times> 'c checkout" where
  "copy_out B sql pk =
     (case guard_copy B sql Out of
        Inl e \<Rightarrow> (Inl e, pk)
      | Inr _ \<Rightarrow>
          (case run_on (be_copy_out B sql) pk of
             (Inr s, pk1) \<Rightarrow> (Inr \<lparr>cp_rows = s, cp_sql = sql, cp_errored = False\<rparr>, pk1)
           | (Inl e, pk1) \<Rightarrow> (Inl e, copy_open_failed B e sql pk1)))"

definition copy_in_send ::
  "('w, 'c, 'r, 'i, 'o) backend \<Rightarrow> string \<Rightarrow> 'i copy_in_handle \<Rightarrow> ('w, 'c) pool \<times> 'c checkout \<Rightarrow>
   unit result \<times> 'i copy_in_handle \<times> ('w, 'c) pool \<times> 'c checkout" where
  "copy_in_send B chunk h pk =
     (case pk of (p, k) \<Rightarrow>
        (case be_sink_send B chunk (p_world p) (co_conn k) (ci_sink h) of
           (d, w, r, c, s) \<Rightarrow>
             (r, h\<lparr>ci_sink := s\<rparr>, p\<lparr>p_world := w, p_clock := p_clock p + d\<rparr>, k\<lparr>co_conn := c\<rparr>)))"

definition copy_in_finish ::
  "('w, 'c, 'r, 'i, 'o) backend \<Rightarrow> 'i copy_in_handle \<Rightarrow> ('w, 'c) pool \<times> 'c checkout \<Rightarrow>
   64 word result \<times> ('w, 'c) pool \<times> 'c checkout" where
  "copy_in_finish B h pk =
     (case run_on (be_sink_finish B (ci_sink h)) pk of
        (r, pk1) \<Rightarrow> (r, finalize_stream B (isl r) (ci_sql h) pk1))"

definition copy_in_abort ::
  "('w, 'c, 'r, 'i, 'o) backend \<Rightarrow> 'i copy_in_handle \<Rightarrow> ('w, 'c) pool \<times> 'c checkout \<Rightarrow>
   ('w, 'c) pool \<times> 'c checkout" where
  "copy_in_abort B h pk =
     (case pk of (p, k) \<Rightarrow>
        (let bound = checkout_timeout (p_config p) in
         case be_sink_abort B (ci_sink h) (p_world p) (co_conn k) of
           (d, w, r, c) \<Rightarrow>
             finalize_stream B True (ci_sql h)
               (p\<lparr>p_world := w, p_clock := p_clock p + min d bound\<rparr>,
                k\<lparr>co_conn := c, co_discard := co_discard k \<or> bound < d \<or> isl r\<rparr>)))"

definition copy_out_next ::
  "('w, 'c, 'r, 'i, 'o) backend \<Rightarrow> 'o copy_out_handle \<Rightarrow> ('w, 'c) pool \<times> 'c checkout \<Rightarrow>
   string result option \<times> 'o copy_out_handle \<times> ('w, 'c) pool \<times> 'c checkout" where
  "copy_out_next B h pk =
     (case pk of (p, k) \<Rightarrow>
        (case be_copy_next B (p_world p) (co_conn k) (cp_rows h) of
           (d, w, item, c, s) \<Rightarrow>
             (item,
              h\<lparr>cp_rows := s, cp_errored := cp_errored h \<or> (case item of Some x \<Rightarrow> isl x | None \<Rightarrow> False)\<rparr>,
              p\<lparr>p_world := w, p_clock := p_clock p + d\<rparr>, k\<lparr>co_conn := c\<rparr>)))"

fun first_err :: "'a result list \<Rightarrow> pool_error option" where
  "first_err [] = None"
| "first_err (Inl e # _) = Some e"
| "first_err (Inr _ # xs) = first_err xs"

definition copy_out_finish ::
  "('w, 'c, 'r, 'i, 'o) backend \<Rightarrow> 'o copy_out_handle \<Rightarrow> ('w, 'c) pool \<times> 'c checkout \<Rightarrow>
   64 word result \<times> ('w, 'c) pool \<times> 'c checkout" where
  "copy_out_finish B h pk =
     (case pk of (p, k) \<Rightarrow>
        (let bound = checkout_timeout (p_config p) in
         case drain_within (be_copy_next B) bound (p_world p) (co_conn k) (cp_rows h) of
           (items, left, w, c, rows) \<Rightarrow>
             (let errored = (cp_errored h \<or> list_ex isl items);
                  result =
                    (case left of
                       None \<Rightarrow> Inl ConnectionLost
                     | Some _ \<Rightarrow>
                         (case first_err items of
                            Some e \<Rightarrow> Inl e
                          | None \<Rightarrow>
                              if errored then Inl (Backend ''COPY TO STDOUT failed'')
                              else Inr (be_copy_rows_affected B rows)));
                  spent = (case left of None \<Rightarrow> bound | Some rem \<Rightarrow> bound - rem);
                  p' = p\<lparr>p_world := w, p_clock := p_clock p + spent\<rparr>;
                  k' = k\<lparr>co_conn := c, co_discard := co_discard k \<or> left = None\<rparr>
              in (result, finalize_stream B (errored \<or> isl result) (cp_sql h) (p', k')))))"

subsection \<open>Checking out\<close>

text \<open>The defensive \<open>ROLLBACK\<close> and the reset of a recycled connection, as one awaited block.\<close>

definition cleanup ::
  "('w, 'c, 'r, 'i, 'o) backend \<Rightarrow> bool \<Rightarrow> reset_profile option \<Rightarrow> ('w, 'c, unit result) async" where
  "cleanup B tx_open profile w c =
     (case (if tx_open then be_simple_query B ''ROLLBACK'' w c else (0, w, Inr 0, c)) of
        (d1, w1, Inl e, c1) \<Rightarrow> (d1, w1, Inl e, c1)
      | (d1, w1, Inr _, c1) \<Rightarrow>
          (case profile of
             None \<Rightarrow> (d1, w1, Inr (), c1)
           | Some pr \<Rightarrow>
               (case be_reset B pr w1 c1 of (d2, w2, r, c2) \<Rightarrow> (d1 + d2, w2, r, c2))))"

definition hygiene_profile ::
  "('w, 'c, 'r, 'i, 'o) backend \<Rightarrow> 'c idle_conn \<Rightarrow> reset_profile option" where
  "hygiene_profile B ic = (if ic_tainted ic then Some Full else be_clean_reset_profile B)"

text \<open>
  One popped idle connection: it is handed out, or evicted (no checkout), by age, by a closed
  connection, by a cleanup that fails or exceeds its bound, or by a failed \<open>apply_readonly\<close>.
\<close>

definition recycle ::
  "('w, 'c, 'r, 'i, 'o) backend \<Rightarrow> bool \<Rightarrow> nat \<Rightarrow> 'c idle_conn \<Rightarrow> ('w, 'c) pool \<Rightarrow>
   'c checkout option \<times> ('w, 'c) pool" where
  "recycle B readonly start ic p =
     (if max_lifetime (p_config p) < p_clock p - ic_created_at ic \<or> be_is_closed B (ic_conn ic)
      then (None, p)
      else
        (let bound = checkout_timeout (p_config p); profile = hygiene_profile B ic in
         case (if ic_tx_open ic \<or> profile \<noteq> None
               then cleanup B (ic_tx_open ic) profile (p_world p) (ic_conn ic)
               else (0, p_world p, Inr (), ic_conn ic)) of
           (d, w, r, c) \<Rightarrow>
             (let p1 = p\<lparr>p_world := w, p_clock := p_clock p + min d bound\<rparr> in
              if bound < d \<or> isl r then (None, p1)
              else
                (case be_apply_readonly B readonly w c of
                   (d', w', r', c') \<Rightarrow>
                     (let p2 = p1\<lparr>p_world := w', p_clock := p_clock p1 + d'\<rparr> in
                      if isl r' then (None, p2)
                      else
                        (let p3 = p2\<lparr>p_hygiene_metrics :=
                                       hygiene_metrics_record (hygiene_of profile) (p_hygiene_metrics p2)\<rparr>
                         in case checkout_new c' (ic_created_at ic) start p3 of (p4, k) \<Rightarrow> (Some k, p4)))))))"

text \<open>No idle connection: one bounded dial. An error gives the permit back.\<close>

definition dial ::
  "('w, 'c, 'r, 'i, 'o) backend \<Rightarrow> bool \<Rightarrow> nat \<Rightarrow> ('w, 'c) pool \<Rightarrow> 'c checkout result \<times> ('w, 'c) pool" where
  "dial B readonly start p =
     (let bound = checkout_timeout (p_config p) in
      case be_connect B (p_world p) of
        (d, w, r) \<Rightarrow>
          (let p1 = p\<lparr>p_world := w, p_clock := p_clock p + min d bound\<rparr>;
               fail = (\<lambda>e q. (Inl e, q\<lparr>p_permits := p_permits q + 1\<rparr>)) in
           if bound < d then fail Timeout p1
           else
             (case r of
                Inl _ \<Rightarrow> fail ConnectionLost p1
              | Inr c \<Rightarrow>
                  (case be_apply_readonly B readonly w c of
                     (d', w', r', c') \<Rightarrow>
                       (let p2 = p1\<lparr>p_world := w', p_clock := p_clock p1 + d'\<rparr> in
                        (case r' of
                           Inl e \<Rightarrow> fail e p2
                         | Inr _ \<Rightarrow>
                             (case checkout_new c' (p_clock p2) start p2 of (p3, k) \<Rightarrow> (Inr k, p3))))))))"

lemma recycle_idle [simp]: "p_idle (snd (recycle B ro start ic p)) = p_idle p"
  by (auto simp: recycle_def checkout_new_def Let_def split: prod.splits)

function checkout_loop ::
  "('w, 'c, 'r, 'i, 'o) backend \<Rightarrow> bool \<Rightarrow> nat \<Rightarrow> ('w, 'c) pool \<Rightarrow>
   'c checkout result \<times> ('w, 'c) pool" where
  "checkout_loop B readonly start p =
     (if p_idle p = [] then dial B readonly start p
      else
        (case recycle B readonly start (last (p_idle p)) (p\<lparr>p_idle := butlast (p_idle p)\<rparr>) of
           (Some k, p') \<Rightarrow> (Inr k, p')
         | (None, p') \<Rightarrow> checkout_loop B readonly start p'))"
  by pat_completeness auto
termination
proof (relation "measure (\<lambda>(B, ro, start, p). length (p_idle p))", goal_cases)
  case (2 B ro start p x p')
  have "p_idle p' = butlast (p_idle p)"
    using 2(2) [symmetric] recycle_idle [of B ro start "last (p_idle p)" "p\<lparr>p_idle := butlast (p_idle p)\<rparr>"]
    by simp
  then show ?case using 2(1) by simp
qed simp

declare checkout_loop.simps [simp del]

text \<open>
  \<open>checkout_declared\<close> when no other task runs meanwhile: a permit is there at once, or the wait for it
  lasts \<open>checkout_timeout\<close> and fails. The semaphore is never closed.
\<close>

definition checkout_declared ::
  "('w, 'c, 'r, 'i, 'o) backend \<Rightarrow> bool \<Rightarrow> ('w, 'c) pool \<Rightarrow> 'c checkout result \<times> ('w, 'c) pool" where
  "checkout_declared B readonly p =
     (if p_permits p = 0
      then (Inl Timeout, p\<lparr>p_clock := p_clock p + checkout_timeout (p_config p)\<rparr>)
      else checkout_loop B readonly (p_clock p) (p\<lparr>p_permits := p_permits p - 1\<rparr>))"

definition checkout ::
  "('w, 'c, 'r, 'i, 'o) backend \<Rightarrow> ('w, 'c) pool \<Rightarrow> 'c checkout result \<times> ('w, 'c) pool" where
  "checkout B = checkout_declared B False"

text \<open>\<open>Drop for Checkout\<close>.\<close>

definition release ::
  "('w, 'c, 'r, 'i, 'o) backend \<Rightarrow> ('w, 'c) pool \<times> 'c checkout \<Rightarrow> ('w, 'c) pool" where
  "release B pk =
     (case unpin pk of (p, k) \<Rightarrow>
        (let p' = (if \<not> co_discard k \<and> \<not> be_is_closed B (co_conn k)
                   then p\<lparr>p_idle := p_idle p @
                            [\<lparr>ic_conn = co_conn k, ic_created_at = co_created_at k,
                              ic_tx_open = co_tx_open k, ic_tainted = co_tainted k\<rparr>]\<rparr>
                   else p)
         in p'\<lparr>p_permits := p_permits p' + 1\<rparr>))"

subsection \<open>The reaper\<close>

text \<open>One iteration of \<open>reap_once\<close> under a permit; the flag says whether the loop goes on.\<close>

definition reap_step ::
  "('w, 'c, 'r, 'i, 'o) backend \<Rightarrow> ('w, 'c) pool \<Rightarrow> bool \<times> ('w, 'c) pool" where
  "reap_step B p =
     (if p_permits p = 0 \<or> p_idle p = [] then (False, p)
      else
        (let ic = last (p_idle p); p1 = p\<lparr>p_idle := butlast (p_idle p)\<rparr> in
         if max_lifetime (p_config p) < p_clock p - ic_created_at ic then (True, p1)
         else if be_is_closed B (ic_conn ic) then (True, p1)
         else
           (case be_ping B (p_world p1) (ic_conn ic) of
              (d, w, r, c) \<Rightarrow>
                (let p2 = p1\<lparr>p_world := w, p_clock := p_clock p1 + d\<rparr> in
                 (True,
                  if isl r then p2
                  else p2\<lparr>p_idle := p_idle p2 @ [ic\<lparr>ic_conn := c\<rparr>]\<rparr>)))))"

fun reap_loop :: "nat \<Rightarrow> ('w, 'c, 'r, 'i, 'o) backend \<Rightarrow> ('w, 'c) pool \<Rightarrow> ('w, 'c) pool" where
  "reap_loop 0 B p = p"
| "reap_loop (Suc n) B p =
     (case reap_step B p of (True, p') \<Rightarrow> reap_loop n B p' | (False, p') \<Rightarrow> p')"

definition reap_once :: "('w, 'c, 'r, 'i, 'o) backend \<Rightarrow> ('w, 'c) pool \<Rightarrow> ('w, 'c) pool" where
  "reap_once B p = reap_loop (length (p_idle p)) B p"

end
