(* ===== verification/Tx_Begin.thy ===== *)
theory Tx_Begin
  imports Pin
begin

text \<open>
  The statement that opens a transaction (\<open>compose_begin_sql\<close> of \<open>ferrod/src/tx/actor.rs\<close>) from the
  isolation level and the read-only flag of a request, for each dialect
  (\<open>Isolation\<close> of \<open>ferro-proto/src/messages/tx.rs\<close>).
\<close>

datatype isolation = ReadCommitted | RepeatableRead | Serializable

text \<open>\<open>TryFrom<u8>\<close>; the error is the unknown byte, whose rendering is left out.\<close>

definition isolation_try_from :: "8 word \<Rightarrow> 8 word + isolation" where
  "isolation_try_from v =
     (if v = 0 then Inr ReadCommitted else if v = 1 then Inr RepeatableRead
      else if v = 2 then Inr Serializable else Inl v)"

fun isolation_byte :: "isolation \<Rightarrow> 8 word" where
  "isolation_byte ReadCommitted = 0"
| "isolation_byte RepeatableRead = 1"
| "isolation_byte Serializable = 2"

fun level_name :: "isolation \<Rightarrow> string" where
  "level_name ReadCommitted = ''READ COMMITTED''"
| "level_name RepeatableRead = ''REPEATABLE READ''"
| "level_name Serializable = ''SERIALIZABLE''"

definition begin_sql_for :: "dialect \<Rightarrow> string option \<Rightarrow> bool \<Rightarrow> string" where
  "begin_sql_for d level readonly =
     (case d of
        Postgres \<Rightarrow>
          ''BEGIN'' @ (case level of Some l \<Rightarrow> '' ISOLATION LEVEL '' @ l | None \<Rightarrow> []) @
          (if readonly then '' READ ONLY'' else [])
      | MySql \<Rightarrow>
          (let start = (if readonly then ''START TRANSACTION READ ONLY'' else ''START TRANSACTION'') in
           case level of
             None \<Rightarrow> start
           | Some l \<Rightarrow> ''SET TRANSACTION ISOLATION LEVEL '' @ l @ ''; '' @ start)
      | Sqlite \<Rightarrow> if readonly then ''BEGIN DEFERRED'' else ''BEGIN IMMEDIATE'')"

definition compose_begin_sql :: "dialect \<Rightarrow> 8 word option \<Rightarrow> bool \<Rightarrow> 8 word + string" where
  "compose_begin_sql d isolation readonly =
     (case isolation of
        None \<Rightarrow> Inr (begin_sql_for d None readonly)
      | Some b \<Rightarrow>
          (case isolation_try_from b of
             Inl e \<Rightarrow> Inl e
           | Inr l \<Rightarrow> Inr (begin_sql_for d (Some (level_name l)) readonly)))"

subsection \<open>What it may send\<close>

text \<open>
  The statements of a text without quotes and comments are its pieces between semicolons, its words
  the runs of letters.
\<close>

definition opens_tx_only :: "string \<Rightarrow> bool" where
  "opens_tx_only sql =
     (let stmts = split_on (\<lambda>c. c = CHR '';'') sql in
      length stmts \<le> 2 \<and> leading_tx_verb (last stmts) = Some VerbOpen \<and>
      list_all (\<lambda>w. w \<noteq> ''SESSION'' \<and> w \<noteq> ''GLOBAL'') (leading_words sql (length sql)))"

lemma begin_sql_opens:
  "opens_tx_only (begin_sql_for Postgres None False)" "opens_tx_only (begin_sql_for Postgres None True)"
  "opens_tx_only (begin_sql_for Postgres (Some (level_name ReadCommitted)) False)"
  "opens_tx_only (begin_sql_for Postgres (Some (level_name ReadCommitted)) True)"
  "opens_tx_only (begin_sql_for Postgres (Some (level_name RepeatableRead)) False)"
  "opens_tx_only (begin_sql_for Postgres (Some (level_name RepeatableRead)) True)"
  "opens_tx_only (begin_sql_for Postgres (Some (level_name Serializable)) False)"
  "opens_tx_only (begin_sql_for Postgres (Some (level_name Serializable)) True)"
  "opens_tx_only (begin_sql_for MySql None False)" "opens_tx_only (begin_sql_for MySql None True)"
  "opens_tx_only (begin_sql_for MySql (Some (level_name ReadCommitted)) False)"
  "opens_tx_only (begin_sql_for MySql (Some (level_name ReadCommitted)) True)"
  "opens_tx_only (begin_sql_for MySql (Some (level_name RepeatableRead)) False)"
  "opens_tx_only (begin_sql_for MySql (Some (level_name RepeatableRead)) True)"
  "opens_tx_only (begin_sql_for MySql (Some (level_name Serializable)) False)"
  "opens_tx_only (begin_sql_for MySql (Some (level_name Serializable)) True)"
  "opens_tx_only ''BEGIN DEFERRED''" "opens_tx_only ''BEGIN IMMEDIATE''"
  by code_simp+

lemma begin_sql_opens_all: "opens_tx_only (begin_sql_for d (map_option level_name lvl) readonly)"
proof (cases d)
  case Sqlite
  then show ?thesis using begin_sql_opens(17,18) by (simp add: begin_sql_for_def)
next
  case Postgres
  show ?thesis
  proof (cases lvl)
    case None
    then show ?thesis using Postgres begin_sql_opens(1,2) by (cases readonly) simp_all
  next
    case (Some l)
    then show ?thesis using Postgres begin_sql_opens(3-8) by (cases l; cases readonly) (simp_all only: option.map)
  qed
next
  case MySql
  show ?thesis
  proof (cases lvl)
    case None
    then show ?thesis using MySql begin_sql_opens(9,10) by (cases readonly) simp_all
  next
    case (Some l)
    then show ?thesis using MySql begin_sql_opens(11-16) by (cases l; cases readonly) (simp_all only: option.map)
  qed
qed

text \<open>
  The statement the engine composes to open a transaction does that and nothing else: it is at most
  two statements, the last of which opens a transaction, and it never names the \<open>SESSION\<close> or
  \<open>GLOBAL\<close> scope, so no isolation level outlives the transaction. It is refused exactly for an unknown
  isolation byte, on every dialect.
\<close>

theorem composed_begin_is_tx_scoped:
  "case compose_begin_sql d isolation readonly of
     Inr sql \<Rightarrow> opens_tx_only sql \<and> (case isolation of None \<Rightarrow> True | Some b \<Rightarrow> b < 3)
   | Inl b \<Rightarrow> isolation = Some b \<and> 3 \<le> b"
proof (cases isolation)
  case None
  then show ?thesis using begin_sql_opens_all [of d None readonly] by (simp add: compose_begin_sql_def)
next
  case (Some b)
  show ?thesis
  proof (cases "isolation_try_from b")
    case (Inl e)
    then have "e = b" "b \<noteq> 0 \<and> b \<noteq> 1 \<and> b \<noteq> 2" by (auto simp: isolation_try_from_def split: if_splits)
    moreover from this have "3 \<le> b" by unat_arith
    ultimately show ?thesis using Some Inl by (simp add: compose_begin_sql_def)
  next
    case (Inr l)
    then have "b < 3" by (auto simp: isolation_try_from_def split: if_splits)
    then show ?thesis using Some Inr begin_sql_opens_all [of d "Some l" readonly] by (simp add: compose_begin_sql_def)
  qed
qed

end
