(* ===== verification/Pool_Runs.thy ===== *)
theory Pool_Runs
  imports Pool Tx_Begin
begin

text \<open>
  Runs of a pool with several checkouts. A session is a checkout together with the handle that
  borrows it, if one is open: the borrow checker forbids every other use of the checkout meanwhile,
  so the step relation offers the methods of a checkout in the phase \<open>Ready\<close> only, and the methods of
  a handle in its own phase. A handle that is dropped unfinished runs its \<open>Drop\<close>.
\<close>

datatype ('r, 'i, 'o) phase =
    Ready | RowsOpen "'r row_handle" | SinkOpen "'i copy_in_handle" | SourceOpen "'o copy_out_handle"

type_synonym ('c, 'r, 'i, 'o) session = "'c checkout \<times> ('r, 'i, 'o) phase"

type_synonym ('w, 'c, 'r, 'i, 'o) system = "('w, 'c) pool \<times> ('c, 'r, 'i, 'o) session list"

text \<open>
  The statements that the engine itself composes and sends past the guard: lone transaction-control
  statements, the statements that open a transaction, or ones the lexer reports nothing for.
\<close>

definition composed_begins :: "dialect \<Rightarrow> string list" where
  "composed_begins d =
     concat (map (\<lambda>l. [begin_sql_for d (map_option level_name l) False, begin_sql_for d (map_option level_name l) True])
       [None, Some ReadCommitted, Some RepeatableRead, Some Serializable])"

definition engine_sql :: "dialect \<Rightarrow> string list \<Rightarrow> bool \<Rightarrow> string \<Rightarrow> bool" where
  "engine_sql d pfs unk sql \<longleftrightarrow>
     classify sql d pfs unk = None \<or> tx_control_class sql \<noteq> None \<and> is_lone_statement sql \<or>
     sql \<in> set (composed_begins d)"

definition engine_sql_for :: "('w, 'c, 'r, 'i, 'o) backend \<Rightarrow> ('w, 'c) pool \<Rightarrow> string \<Rightarrow> bool" where
  "engine_sql_for B p sql =
     engine_sql (be_dialect B) (pin_functions (p_config p)) (pin_on_unknown (p_config p)) sql"

text \<open>
  What one session can do: the pool, its checkout and its phase before and after. \<open>rollback_timeout\<close> is
  a \<open>rollback_tx\<close> whose future its caller drops before the answer is read: the statement was sent, none
  of the bookkeeping after it runs, and the caller taints the checkout.
\<close>

inductive session_step ::
  "('w, 'c, 'r, 'i, 'o) backend \<Rightarrow> ('w, 'c) pool \<times> 'c checkout \<Rightarrow> ('r, 'i, 'o) phase \<Rightarrow>
   ('w, 'c) pool \<times> 'c checkout \<Rightarrow> ('r, 'i, 'o) phase \<Rightarrow> bool"
  for B :: "('w, 'c, 'r, 'i, 'o) backend" where
  exec: "exec B sql pk = (r, pk') \<Longrightarrow> session_step B pk Ready pk' Ready"
| query: "query B sql params pk = (r, pk') \<Longrightarrow> session_step B pk Ready pk' Ready"
| open_tx: "begin_tx_with B tx sql pk = (r, pk') \<Longrightarrow> engine_sql_for B (fst pk) sql \<Longrightarrow>
    session_step B pk Ready pk' Ready"
| control: "tx_control B sql pk = (r, pk') \<Longrightarrow> engine_sql_for B (fst pk) sql \<Longrightarrow>
    session_step B pk Ready pk' Ready"
| commit: "commit_tx B pk = (r, pk') \<Longrightarrow> session_step B pk Ready pk' Ready"
| rollback: "rollback_tx B pk = (r, pk') \<Longrightarrow> session_step B pk Ready pk' Ready"
| rollback_timeout: "be_simple_query B ''ROLLBACK'' (p_world p) (co_conn k) = (d, w, r, c) \<Longrightarrow>
    session_step B (p, k) Ready
      (set_tainted True (p\<lparr>p_world := w, p_clock := p_clock p + n\<rparr>, k\<lparr>co_conn := c\<rparr>)) Ready"
| taint: "session_step B pk Ready (set_tainted True pk) Ready"
| discard: "session_step B pk Ready (discard pk) Ready"
| stream: "query_stream B sql params pk = (Inr h, pk') \<Longrightarrow> session_step B pk Ready pk' (RowsOpen h)"
| stream_failed: "query_stream B sql params pk = (Inl e, pk') \<Longrightarrow> session_step B pk Ready pk' Ready"
| stream_row: "stream_next B h pk = (item, h', pk') \<Longrightarrow>
    session_step B pk (RowsOpen h) pk' (RowsOpen h')"
| stream_end: "stream_finish B h pk = (e, pk') \<Longrightarrow> session_step B pk (RowsOpen h) pk' Ready"
| stream_drop: "session_step B pk (RowsOpen h) (handle_abandon pk) Ready"
| copy_in: "copy_in B sql pk = (Inr s, pk') \<Longrightarrow> session_step B pk Ready pk' (SinkOpen s)"
| copy_in_failed: "copy_in B sql pk = (Inl e, pk') \<Longrightarrow> session_step B pk Ready pk' Ready"
| copy_send: "copy_in_send B chunk s pk = (u, s', pk') \<Longrightarrow> session_step B pk (SinkOpen s) pk' (SinkOpen s')"
| copy_finish: "copy_in_finish B s pk = (n, pk') \<Longrightarrow> session_step B pk (SinkOpen s) pk' Ready"
| copy_abort: "session_step B pk (SinkOpen s) (copy_in_abort B s pk) Ready"
| copy_in_drop: "session_step B pk (SinkOpen s) (handle_abandon pk) Ready"
| copy_out: "copy_out B sql pk = (Inr o', pk') \<Longrightarrow> session_step B pk Ready pk' (SourceOpen o')"
| copy_out_failed: "copy_out B sql pk = (Inl e, pk') \<Longrightarrow> session_step B pk Ready pk' Ready"
| copy_chunk: "copy_out_next B o' pk = (chunk, o'', pk') \<Longrightarrow>
    session_step B pk (SourceOpen o') pk' (SourceOpen o'')"
| copy_out_end: "copy_out_finish B o' pk = (n, pk') \<Longrightarrow> session_step B pk (SourceOpen o') pk' Ready"
| copy_out_drop: "session_step B pk (SourceOpen o') (handle_abandon pk) Ready"

text \<open>
  What the system can do. Between its steps time passes, and the world changes in any way: other
  clients, an out-of-band cancel, a server that restarts.
\<close>

inductive pool_step ::
  "('w, 'c, 'r, 'i, 'o) backend \<Rightarrow> ('w, 'c, 'r, 'i, 'o) system \<Rightarrow> ('w, 'c, 'r, 'i, 'o) system \<Rightarrow> bool"
  for B :: "('w, 'c, 'r, 'i, 'o) backend" where
  checkout: "checkout_declared B ro p = (Inr k, p') \<Longrightarrow> pool_step B (p, ss) (p', ss @ [(k, Ready)])"
| refused: "checkout_declared B ro p = (Inl e, p') \<Longrightarrow> pool_step B (p, ss) (p', ss)"
| session: "i < length ss \<Longrightarrow> ss ! i = (k, ph) \<Longrightarrow> session_step B (p, k) ph (p', k') ph' \<Longrightarrow>
    pool_step B (p, ss) (p', ss[i := (k', ph')])"
| release: "i < length ss \<Longrightarrow> ss ! i = (k, Ready) \<Longrightarrow>
    pool_step B (p, ss) (release B (p, k), take i ss @ drop (i + 1) ss)"
| reap: "pool_step B (p, ss) (reap_once B p, ss)"
| tick: "pool_step B (p, ss) (p\<lparr>p_world := w, p_clock := p_clock p + n\<rparr>, ss)"

inductive reachable ::
  "('w, 'c, 'r, 'i, 'o) backend \<Rightarrow> pool_config \<Rightarrow> ('w, 'c, 'r, 'i, 'o) system \<Rightarrow> bool"
  for B :: "('w, 'c, 'r, 'i, 'o) backend" and cfg :: pool_config where
  new: "reachable B cfg (pool_new cfg w now, [])"
| step: "reachable B cfg s \<Longrightarrow> pool_step B s s' \<Longrightarrow> reachable B cfg s'"

end
