(* ===== verification/Pool_Correct.thy ===== *)
theory Pool_Correct
  imports Pool_Runs
begin

text \<open>
  What every operation of the pool does, whatever the backend: which fields it writes, that an error
  forces both reuse-safety bits, that refused statements never reach the backend, that capacity is
  given back, and that a checkout starts clean.
\<close>

named_theorems pool_frame \<open>fields an operation leaves alone or sets\<close>

subsection \<open>Frames\<close>

text \<open>The fields of the pool that only checkout, release and the reaper may change.\<close>

definition same_stack :: "('w, 'c) pool \<Rightarrow> ('w, 'c) pool \<Rightarrow> bool" where
  "same_stack p p' \<longleftrightarrow>
     p_config p' = p_config p \<and> p_idle p' = p_idle p \<and> p_permits p' = p_permits p"

lemma same_stack_refl [simp]: "same_stack p p"
  by (simp add: same_stack_def)

lemma same_stack_trans: "same_stack p q \<Longrightarrow> same_stack q r \<Longrightarrow> same_stack p r"
  by (simp add: same_stack_def)

lemma run_on_eq:
  assumes "f (p_world p) (co_conn k) = (d, w, r, c)"
  shows "run_on f (p, k) = (r, p\<lparr>p_world := w, p_clock := p_clock p + d\<rparr>, k\<lparr>co_conn := c\<rparr>)"
  by (simp add: run_on_def assms)

lemma run_on_frame [pool_frame]:
  "same_stack p (fst (snd (run_on f (p, k))))"
  "co_tx_open (snd (snd (run_on f (p, k)))) = co_tx_open k"
  "co_tainted (snd (snd (run_on f (p, k)))) = co_tainted k"
  "co_discard (snd (snd (run_on f (p, k)))) = co_discard k"
  "co_pin (snd (snd (run_on f (p, k)))) = co_pin k"
  by (simp_all add: run_on_def same_stack_def split: prod.split)

lemma set_cause_frame [pool_frame]:
  "same_stack p (fst (set_cause c (p, k)))"
  "co_conn (snd (set_cause c (p, k))) = co_conn k"
  "co_tx_open (snd (set_cause c (p, k))) = co_tx_open k"
  "co_tainted (snd (set_cause c (p, k))) = co_tainted k"
  "co_discard (snd (set_cause c (p, k))) = co_discard k"
  "co_pin (snd (set_cause c (p, k))) = co_pin k"
  by (simp_all add: set_cause_def cause_cell_set_def same_stack_def)

lemma apply_tx_status_frame [pool_frame]:
  "same_stack p (fst (apply_tx_status st (p, k)))"
  "co_conn (snd (apply_tx_status st (p, k))) = co_conn k"
  "co_tx_open (snd (apply_tx_status st (p, k))) \<longleftrightarrow> st \<noteq> Idle"
  "co_tainted (snd (apply_tx_status st (p, k))) \<longleftrightarrow> co_tainted k \<or> st = Failed"
  "co_discard (snd (apply_tx_status st (p, k))) = co_discard k"
  "co_pin (snd (apply_tx_status st (p, k))) = co_pin k"
  by (cases st; simp add: apply_tx_status_def tx_status_bits_def pool_frame)+

lemma apply_session_tracker_frame [pool_frame]:
  "same_stack p (fst (apply_session_tracker B (p, k)))"
  "co_conn (snd (apply_session_tracker B (p, k))) = snd (be_take_session_mutated B (co_conn k))"
  "co_tx_open (snd (apply_session_tracker B (p, k))) = co_tx_open k"
  "co_tainted (snd (apply_session_tracker B (p, k))) \<longleftrightarrow>
     co_tainted k \<or> fst (be_take_session_mutated B (co_conn k))"
  "co_discard (snd (apply_session_tracker B (p, k))) = co_discard k"
  "co_pin (snd (apply_session_tracker B (p, k))) = co_pin k"
  by (cases "be_take_session_mutated B (co_conn k)";
      simp add: apply_session_tracker_def Let_def pool_frame)+

lemma force_both_frame [pool_frame]:
  "fst (force_both err pk) = fst pk"
  "co_conn (snd (force_both err pk)) = co_conn (snd pk)"
  "co_tx_open (snd (force_both err pk)) \<longleftrightarrow> err \<or> co_tx_open (snd pk)"
  "co_tainted (snd (force_both err pk)) \<longleftrightarrow> err \<or> co_tainted (snd pk)"
  "co_discard (snd (force_both err pk)) = co_discard (snd pk)"
  "co_pin (snd (force_both err pk)) = co_pin (snd pk)"
  by (simp_all add: force_both_def split: prod.split)

lemma after_statement_frame [pool_frame]:
  "same_stack p (fst (after_statement B err (p, k)))"
  "co_conn (snd (after_statement B err (p, k))) = snd (be_take_session_mutated B (co_conn k))"
  "co_tx_open (snd (after_statement B err (p, k))) \<longleftrightarrow> err \<or> be_tx_status B (co_conn k) \<noteq> Idle"
  "co_tainted (snd (after_statement B err (p, k))) \<longleftrightarrow>
     err \<or> co_tainted k \<or> be_tx_status B (co_conn k) = Failed \<or> fst (be_take_session_mutated B (co_conn k))"
  "co_discard (snd (after_statement B err (p, k))) = co_discard k"
  "co_pin (snd (after_statement B err (p, k))) = co_pin k"
proof -
  obtain p1 k1 where 1: "apply_tx_status (be_tx_status B (co_conn k)) (p, k) = (p1, k1)" by fastforce
  obtain p2 k2 where 2: "apply_session_tracker B (p1, k1) = (p2, k2)" by fastforce
  have eq: "after_statement B err (p, k) = force_both err (p2, k2)"
    by (simp add: after_statement_def 1 2)
  note a = apply_tx_status_frame [where st = "be_tx_status B (co_conn k)" and p = p and k = k, unfolded 1, simplified]
  note b = apply_session_tracker_frame [where B = B and p = p1 and k = k1, unfolded 2, simplified]
  show "same_stack p (fst (after_statement B err (p, k)))"
    using a(1) b(1) by (simp add: eq pool_frame) (rule same_stack_trans)
  show "co_conn (snd (after_statement B err (p, k))) = snd (be_take_session_mutated B (co_conn k))"
    "co_tx_open (snd (after_statement B err (p, k))) \<longleftrightarrow> err \<or> be_tx_status B (co_conn k) \<noteq> Idle"
    "co_tainted (snd (after_statement B err (p, k))) \<longleftrightarrow>
       err \<or> co_tainted k \<or> be_tx_status B (co_conn k) = Failed \<or> fst (be_take_session_mutated B (co_conn k))"
    "co_discard (snd (after_statement B err (p, k))) = co_discard k"
    "co_pin (snd (after_statement B err (p, k))) = co_pin k"
    using a b by (auto simp: eq pool_frame)
qed

lemma apply_classify_frame [pool_frame]:
  "same_stack p (fst (apply_classify B sql (p, k)))"
  "co_conn (snd (apply_classify B sql (p, k))) = co_conn k"
  "co_tx_open (snd (apply_classify B sql (p, k))) = co_tx_open k"
  "co_tainted (snd (apply_classify B sql (p, k))) \<longleftrightarrow>
     co_tainted k \<or>
     classify sql (be_dialect B) (pin_functions (p_config p)) (pin_on_unknown (p_config p)) \<noteq> None"
  "co_discard (snd (apply_classify B sql (p, k))) = co_discard k"
  "co_pin (snd (apply_classify B sql (p, k))) = co_pin k"
  by (simp_all add: apply_classify_def pool_frame split: option.split)

lemma pin_to_frame [pool_frame]:
  "same_stack p (fst (pin_to tx (p, k)))"
  "co_conn (snd (pin_to tx (p, k))) = co_conn k"
  "co_tx_open (snd (pin_to tx (p, k))) = co_tx_open k"
  "co_tainted (snd (pin_to tx (p, k))) = co_tainted k"
  "co_discard (snd (pin_to tx (p, k))) = co_discard k"
  by (simp_all add: pin_to_def same_stack_def split: prod.split)

lemma unpin_frame [pool_frame]:
  "same_stack p (fst (unpin (p, k)))"
  "co_conn (snd (unpin (p, k))) = co_conn k"
  "co_created_at (snd (unpin (p, k))) = co_created_at k"
  "co_tx_open (snd (unpin (p, k))) = co_tx_open k"
  "co_tainted (snd (unpin (p, k))) = co_tainted k"
  "co_discard (snd (unpin (p, k))) = co_discard k"
  by (simp_all add: unpin_def same_stack_def split: prod.split)

subsection \<open>Where a handed-out connection comes from\<close>

definition fresh_conn :: "('w, 'c, 'r, 'i, 'o) backend \<Rightarrow> bool \<Rightarrow> 'c \<Rightarrow> bool" where
  "fresh_conn B ro c' \<longleftrightarrow>
     (\<exists>w d w' c d2 w2 u. be_connect B w = (d, w', Inr c) \<and>
        be_apply_readonly B ro w' c = (d2, w2, Inr u, c'))"

text \<open>
  What a recycled connection went through, as calls of the backend: the \<open>ROLLBACK\<close> when a transaction was
  left open, then the full reset when the session was marked, or the backend's own reset for a clean one
  when it has one; both answered, in time. The declared mode comes last.
\<close>

definition rolled_back ::
  "('w, 'c, 'r, 'i, 'o) backend \<Rightarrow> bool \<Rightarrow> 'w \<Rightarrow> 'c \<Rightarrow> nat \<Rightarrow> 'w \<Rightarrow> 'c \<Rightarrow> bool" where
  "rolled_back B opn w c d w' c' \<longleftrightarrow>
     (if opn then \<exists>n. be_simple_query B ''ROLLBACK'' w c = (d, w', Inr n, c')
      else (d, w', c') = (0, w, c))"

definition session_reset ::
  "('w, 'c, 'r, 'i, 'o) backend \<Rightarrow> bool \<Rightarrow> 'w \<Rightarrow> 'c \<Rightarrow> nat \<Rightarrow> 'w \<Rightarrow> 'c \<Rightarrow> bool" where
  "session_reset B tainted w c d w' c' \<longleftrightarrow>
     (if tainted then be_reset B Full w c = (d, w', Inr (), c')
      else (case be_clean_reset_profile B of
              None \<Rightarrow> (d, w', c') = (0, w, c)
            | Some pr \<Rightarrow> be_reset B pr w c = (d, w', Inr (), c')))"

definition recycled_conn ::
  "('w, 'c, 'r, 'i, 'o) backend \<Rightarrow> bool \<Rightarrow> nat \<Rightarrow> 'c idle_conn \<Rightarrow> 'c \<Rightarrow> bool" where
  "recycled_conn B ro bound ic c' \<longleftrightarrow>
     \<not> be_is_closed B (ic_conn ic) \<and>
     (\<exists>w d1 w1 c1 d2 w2 c2 d3 w3 u.
        rolled_back B (ic_tx_open ic) w (ic_conn ic) d1 w1 c1 \<and>
        session_reset B (ic_tainted ic) w1 c1 d2 w2 c2 \<and> d1 + d2 \<le> bound \<and>
        be_apply_readonly B ro w2 c2 = (d3, w3, Inr u, c'))"

lemma fresh_connI:
  "be_connect B w = (d, w', Inr c) \<Longrightarrow> be_apply_readonly B ro w' c = (d2, w2, Inr u, c') \<Longrightarrow>
   fresh_conn B ro c'"
  unfolding fresh_conn_def by blast

lemma cleanup_calls:
  assumes "(if opn \<or> hygiene_profile B ic \<noteq> None then cleanup B opn (hygiene_profile B ic) w c
      else (0, w, Inr (), c)) = (d, w2, Inr (), c2)"
  shows "\<exists>d1 w1 c1 d2. rolled_back B opn w c d1 w1 c1 \<and> session_reset B (ic_tainted ic) w1 c1 d2 w2 c2 \<and> d = d1 + d2"
proof -
  have cl: "cleanup B opn (hygiene_profile B ic) w c = (d, w2, Inr (), c2)"
    using assms by (cases opn; cases "hygiene_profile B ic") (simp_all add: cleanup_def)
  obtain d1 w1 r1 c1 where r: "(if opn then be_simple_query B ''ROLLBACK'' w c else (0, w, Inr 0, c)) = (d1, w1, r1, c1)"
    by (metis prod_cases4)
  with cl obtain n where n: "r1 = Inr n" by (cases r1) (auto simp: cleanup_def)
  have 1: "rolled_back B opn w c d1 w1 c1" using r n by (auto simp: rolled_back_def split: if_splits)
  have "\<exists>d2. session_reset B (ic_tainted ic) w1 c1 d2 w2 c2 \<and> d = d1 + d2"
  proof (cases "hygiene_profile B ic")
    case None
    with cl r n show ?thesis by (auto simp: cleanup_def hygiene_profile_def session_reset_def split: if_splits)
  next
    case (Some pr)
    obtain d2 w' r' c' where q: "be_reset B pr w1 c1 = (d2, w', r', c')" by (metis prod_cases4)
    with cl r n Some have "d = d1 + d2" "w' = w2" "r' = Inr ()" "c' = c2" by (simp_all add: cleanup_def)
    with q Some show ?thesis by (auto simp: hygiene_profile_def session_reset_def split: if_splits)
  qed
  with 1 show ?thesis by blast
qed

lemma recycled_connI:
  assumes "\<not> be_is_closed B (ic_conn ic)"
    and "(if ic_tx_open ic \<or> hygiene_profile B ic \<noteq> None
      then cleanup B (ic_tx_open ic) (hygiene_profile B ic) w0 (ic_conn ic)
      else (0, w0, Inr (), ic_conn ic)) = (d, w, Inr (), c)"
    and "d \<le> bound" and "be_apply_readonly B ro w c = (d', w', Inr u, c')"
  shows "recycled_conn B ro bound ic c'"
  unfolding recycled_conn_def using cleanup_calls [OF assms(2)] assms(1,3,4) by blast

text \<open>The state a \<open>Checkout\<close> starts in.\<close>

definition starts_clean :: "'c checkout \<Rightarrow> bool" where
  "starts_clean k \<longleftrightarrow>
     \<not> co_tx_open k \<and> \<not> co_tainted k \<and> \<not> co_discard k \<and> slot_state (co_pin k) = Unpinned \<and>
     co_last_pin_cause k = None"

lemma checkout_new_clean: "checkout_new c created start p = (p', k) \<Longrightarrow>
    starts_clean k \<and> co_conn k = c \<and> same_stack p p'"
  by (auto simp: checkout_new_def Let_def starts_clean_def slot_new_def slot_state_def same_stack_def)

lemma dial_Inr:
  assumes "dial B ro start p = (Inr k, p')"
  shows "starts_clean k \<and> fresh_conn B ro (co_conn k) \<and> same_stack p p'"
proof -
  obtain d w r where c: "be_connect B (p_world p) = (d, w, r)" by (metis prod_cases3)
  then obtain c where r: "r = Inr c" and d: "d \<le> checkout_timeout (p_config p)"
    using assms by (cases r) (auto simp: dial_def Let_def split: if_splits)
  obtain d' w' r' c' where a: "be_apply_readonly B ro w c = (d', w', r', c')" by (metis prod_cases4)
  with assms c r d obtain u where r': "r' = Inr u" by (cases r') (auto simp: dial_def Let_def)
  let ?p1 = "p\<lparr>p_world := w, p_clock := p_clock p + min d (checkout_timeout (p_config p))\<rparr>"
  let ?p2 = "?p1\<lparr>p_world := w', p_clock := p_clock ?p1 + d'\<rparr>"
  have "checkout_new c' (p_clock ?p2) start ?p2 = (p', k)"
    using assms c r d a r' by (auto simp: dial_def Let_def split: prod.splits)
  note new = checkout_new_clean [OF this]
  have "fresh_conn B ro c'" by (rule fresh_connI [OF c [unfolded r] a [unfolded r']])
  with new show ?thesis by (simp add: same_stack_def)
qed

lemma dial_Inl:
  "dial B ro start p = (Inl e, p') \<Longrightarrow>
   p_permits p' = p_permits p + 1 \<and> p_idle p' = p_idle p \<and> p_config p' = p_config p"
  by (auto simp: dial_def Let_def split: prod.splits sum.splits if_splits)

lemma recycle_Some:
  assumes "recycle B ro start ic p = (Some k, p')"
  shows "starts_clean k \<and> recycled_conn B ro (checkout_timeout (p_config p)) ic (co_conn k) \<and> same_stack p p'"
proof -
  let ?bound = "checkout_timeout (p_config p)" and ?pr = "hygiene_profile B ic"
  let ?need = "ic_tx_open ic \<or> ?pr \<noteq> None"
  have alive: "\<not> be_is_closed B (ic_conn ic)" "\<not> max_lifetime (p_config p) < p_clock p - ic_created_at ic"
    using assms by (auto simp: recycle_def split: if_splits)
  obtain d w r c where cl:
    "(if ?need then cleanup B (ic_tx_open ic) ?pr (p_world p) (ic_conn ic)
      else (0, p_world p, Inr (), ic_conn ic)) = (d, w, r, c)" by (metis prod_cases4)
  obtain d' w' r' c' where a: "be_apply_readonly B ro w c = (d', w', r', c')" by (metis prod_cases4)
  let ?p1 = "p\<lparr>p_world := w, p_clock := p_clock p + min d ?bound\<rparr>"
  let ?p2 = "?p1\<lparr>p_world := w', p_clock := p_clock ?p1 + d'\<rparr>"
  let ?p3 = "?p2\<lparr>p_hygiene_metrics := hygiene_metrics_record (hygiene_of ?pr) (p_hygiene_metrics ?p2)\<rparr>"
  have "\<not> ?bound < d \<and> \<not> isl r \<and> \<not> isl r' \<and> checkout_new c' (ic_created_at ic) start ?p3 = (p', k)"
    using assms alive cl a by (simp add: recycle_def Let_def split: if_splits prod.splits)
  then have d: "d \<le> ?bound" and rr: "\<not> isl r" "\<not> isl r'"
    and new: "checkout_new c' (ic_created_at ic) start ?p3 = (p', k)"
    by (blast intro: leI)+
  obtain u where "r' = Inr u" "r = Inr ()" using rr by (cases r; cases r') simp_all
  then have "recycled_conn B ro ?bound ic c'"
    using recycled_connI [OF alive(1) _ d, of "p_world p" w c ro] cl a by simp
  with checkout_new_clean [OF new] show ?thesis by (simp add: same_stack_def)
qed

lemma recycle_None: "recycle B ro start ic p = (None, p') \<Longrightarrow> same_stack p p'"
  by (auto simp: recycle_def Let_def same_stack_def split: if_splits prod.splits)

lemma checkout_loop_Inr:
  "checkout_loop B ro start p = (Inr k, p') \<Longrightarrow>
   starts_clean k \<and> p_permits p' = p_permits p \<and> p_config p' = p_config p \<and>
   prefix (p_idle p') (p_idle p) \<and>
   (fresh_conn B ro (co_conn k) \<or>
    (\<exists>ic \<in> set (p_idle p). recycled_conn B ro (checkout_timeout (p_config p)) ic (co_conn k)))"
proof (induction B ro start p rule: checkout_loop.induct)
  case (1 B ro start p)
  show ?case
  proof (cases "p_idle p = []")
    case True
    with "1.prems" have "dial B ro start p = (Inr k, p')" by (simp add: checkout_loop.simps [of B ro start p])
    from dial_Inr [OF this] True show ?thesis by (simp add: same_stack_def)
  next
    case False
    let ?q = "p\<lparr>p_idle := butlast (p_idle p)\<rparr>"
    obtain x p1 where r: "recycle B ro start (last (p_idle p)) ?q = (x, p1)" by fastforce
    show ?thesis
    proof (cases x)
      case (Some k1)
      with "1.prems" False r have eq: "k1 = k" "p1 = p'" by (simp_all add: checkout_loop.simps [of B ro start p])
      from recycle_Some [OF r [unfolded Some]] eq False show ?thesis
        by (auto simp: same_stack_def prefixeq_butlast)
    next
      case None
      with "1.prems" False r have l: "checkout_loop B ro start p1 = (Inr k, p')"
        by (simp add: checkout_loop.simps [of B ro start p])
      have st: "p_config p1 = p_config p" "p_idle p1 = butlast (p_idle p)" "p_permits p1 = p_permits p"
        using recycle_None [OF r [unfolded None]] by (simp_all add: same_stack_def)
      from "1.IH" [OF False r [unfolded None, symmetric] refl l] st False show ?thesis
        by (auto dest: in_set_butlastD prefix_order.trans [OF _ prefixeq_butlast])
    qed
  qed
qed

lemma checkout_loop_Inl:
  "checkout_loop B ro start p = (Inl e, p') \<Longrightarrow>
   p_permits p' = p_permits p + 1 \<and> p_config p' = p_config p \<and> p_idle p' = []"
proof (induction B ro start p rule: checkout_loop.induct)
  case (1 B ro start p)
  show ?case
  proof (cases "p_idle p = []")
    case True
    with "1.prems" have "dial B ro start p = (Inl e, p')" by (simp add: checkout_loop.simps [of B ro start p])
    from dial_Inl [OF this] True show ?thesis by simp
  next
    case False
    let ?q = "p\<lparr>p_idle := butlast (p_idle p)\<rparr>"
    obtain x p1 where r: "recycle B ro start (last (p_idle p)) ?q = (x, p1)" by fastforce
    with "1.prems" False have x: "x = None" and l: "checkout_loop B ro start p1 = (Inl e, p')"
      by (auto simp: checkout_loop.simps [of B ro start p] split: option.splits)
    from "1.IH" [OF False r [unfolded x, symmetric] refl l] recycle_None [OF r [unfolded x]]
    show ?thesis by (simp add: same_stack_def)
  qed
qed

subsection \<open>Statements\<close>

lemma apply_classify_for_frame [pool_frame]:
  "same_stack p (fst (apply_classify_for B v sql (p, k)))"
  "co_conn (snd (apply_classify_for B v sql (p, k))) = co_conn k"
  "co_tx_open (snd (apply_classify_for B v sql (p, k))) = co_tx_open k"
  "co_tainted k \<Longrightarrow> co_tainted (snd (apply_classify_for B v sql (p, k)))"
  "co_discard (snd (apply_classify_for B v sql (p, k))) = co_discard k"
  "co_pin (snd (apply_classify_for B v sql (p, k))) = co_pin k"
  by (cases v; simp add: apply_classify_for_def pool_frame)+

text \<open>An operation on a checkout, as one statement: dispatch, then the bookkeeping.\<close>

definition after_verdict ::
  "('w, 'c, 'r, 'i, 'o) backend \<Rightarrow> verdict \<Rightarrow> string \<Rightarrow> bool \<Rightarrow> ('w, 'c) pool \<times> 'c checkout \<Rightarrow>
   ('w, 'c) pool \<times> 'c checkout" where
  "after_verdict B v sql err pk = apply_classify_for B v sql (after_statement B err pk)"

lemma after_verdict_frame [pool_frame]:
  "same_stack p (fst (after_verdict B v sql err (p, k)))"
  "co_conn (snd (after_verdict B v sql err (p, k))) = snd (be_take_session_mutated B (co_conn k))"
  "co_tx_open (snd (after_verdict B v sql err (p, k))) \<longleftrightarrow> err \<or> be_tx_status B (co_conn k) \<noteq> Idle"
  "co_tainted (snd (after_verdict B v sql err (p, k))) \<longleftrightarrow>
     err \<or> co_tainted k \<or> be_tx_status B (co_conn k) = Failed \<or> fst (be_take_session_mutated B (co_conn k)) \<or>
     v = Proceed \<and>
     classify sql (be_dialect B) (pin_functions (p_config p)) (pin_on_unknown (p_config p)) \<noteq> None"
  "co_discard (snd (after_verdict B v sql err (p, k))) = co_discard k"
  "co_pin (snd (after_verdict B v sql err (p, k))) = co_pin k"
proof -
  obtain p1 k1 where 1: "after_statement B err (p, k) = (p1, k1)" by fastforce
  have cfg: "p_config p1 = p_config p"
    using after_statement_frame(1) [of p B err k] by (simp add: 1 same_stack_def)
  note a = after_statement_frame [where B = B and err = err and p = p and k = k, unfolded 1, simplified]
  show "same_stack p (fst (after_verdict B v sql err (p, k)))"
    using a(1) apply_classify_for_frame(1) [of p1 B v sql k1]
    by (simp add: after_verdict_def 1) (rule same_stack_trans)
  show "co_conn (snd (after_verdict B v sql err (p, k))) = snd (be_take_session_mutated B (co_conn k))"
    "co_tx_open (snd (after_verdict B v sql err (p, k))) \<longleftrightarrow> err \<or> be_tx_status B (co_conn k) \<noteq> Idle"
    "co_discard (snd (after_verdict B v sql err (p, k))) = co_discard k"
    "co_pin (snd (after_verdict B v sql err (p, k))) = co_pin k"
    using a by (simp_all add: after_verdict_def 1 pool_frame)
  show "co_tainted (snd (after_verdict B v sql err (p, k))) \<longleftrightarrow>
     err \<or> co_tainted k \<or> be_tx_status B (co_conn k) = Failed \<or> fst (be_take_session_mutated B (co_conn k)) \<or>
     v = Proceed \<and>
     classify sql (be_dialect B) (pin_functions (p_config p)) (pin_on_unknown (p_config p)) \<noteq> None"
    using a cfg by (cases v) (simp_all add: after_verdict_def apply_classify_for_def 1 pool_frame)
qed

lemma finalize_stream_eq: "finalize_stream B err sql pk = after_verdict B Proceed sql err pk"
  by (simp add: finalize_stream_def after_verdict_def apply_classify_for_def)

lemma exec_eq:
  "guard_tx_control B sql [] (snd pk) = Inr v \<Longrightarrow> run_on (be_simple_query B sql) pk = (r, pk1) \<Longrightarrow>
   exec B sql pk = (r, after_verdict B v sql (isl r) pk1)"
  by (simp add: exec_def after_verdict_def)

lemma query_eq:
  "guard_tx_control B sql params (snd pk) = Inr Proceed \<Longrightarrow> run_on (be_query B sql params) pk = (r, pk1) \<Longrightarrow>
   query B sql params pk = (r, after_verdict B Proceed sql (isl r) pk1)"
  "guard_tx_control B sql params (snd pk) = Inr SavepointPassthrough \<Longrightarrow>
   run_on (be_simple_query B sql) pk = (r', pk1) \<Longrightarrow>
   query B sql params pk =
     (affected_only r', after_verdict B SavepointPassthrough sql (isl r') pk1)"
  by (simp_all add: query_def after_verdict_def affected_only_def split: sum.split)

lemma guard_passthrough:
  "guard_tx_control B sql params k = Inr SavepointPassthrough \<Longrightarrow>
   tx_control_class sql = Some Savepoint \<and> co_tx_open k \<and> params = [] \<and> is_lone_statement sql"
  by (auto simp: guard_tx_control_def split: if_splits option.splits tx_control_class.splits)

text \<open>Calls of a pull-based handle in a row, and whether one of them answered with an error.\<close>

inductive pulls ::
  "('h \<Rightarrow> 's \<Rightarrow> 'a result option \<times> 'h \<times> 's) \<Rightarrow> 'h \<Rightarrow> 's \<Rightarrow> bool \<Rightarrow> 'h \<Rightarrow> 's \<Rightarrow> bool"
  for nxt :: "'h \<Rightarrow> 's \<Rightarrow> 'a result option \<times> 'h \<times> 's" where
  none: "pulls nxt h s False h s"
| more: "nxt h s = (item, h1, s1) \<Longrightarrow> pulls nxt h1 s1 b h2 s2 \<Longrightarrow>
    pulls nxt h s (b \<or> (\<exists>e. item = Some (Inl e))) h2 s2"

lemma stream_pulls_errored:
  "pulls (stream_next B) h s b h' s' \<Longrightarrow> rh_errored h' \<longleftrightarrow> rh_errored h \<or> b"
proof (induction rule: pulls.induct)
  case (more h s item h1 s1 b h2 s2)
  from more.hyps(1) have "rh_errored h1 \<longleftrightarrow> rh_errored h \<or> (\<exists>e. item = Some (Inl e))"
    by (auto simp: stream_next_def isl_def split: prod.splits option.splits)
  with more.IH show ?case by blast
qed simp

lemma copy_pulls_errored:
  "pulls (copy_out_next B) h s b h' s' \<Longrightarrow> cp_errored h' \<longleftrightarrow> cp_errored h \<or> b"
proof (induction rule: pulls.induct)
  case (more h s item h1 s1 b h2 s2)
  from more.hyps(1) have "cp_errored h1 \<longleftrightarrow> cp_errored h \<or> (\<exists>e. item = Some (Inl e))"
    by (auto simp: copy_out_next_def isl_def split: prod.splits option.splits)
  with more.IH show ?case by blast
qed simp

text \<open>
  A dispatched statement failed: the entry's guard, if it has one, let it through, and the backend answered
  with an error, when the statement ran or opened, at any pull of its rows or chunks, or when it was closed;
  a drain or a reclaim that runs out of its time is a failure too.
\<close>

inductive dispatch_failed ::
  "('w, 'c, 'r, 'i, 'o) backend \<Rightarrow> ('w, 'c) pool \<times> 'c checkout \<Rightarrow> ('w, 'c) pool \<times> 'c checkout \<Rightarrow> bool"
  for B :: "('w, 'c, 'r, 'i, 'o) backend" where
  query: "guard_tx_control B sql params (snd pk) = Inr v \<Longrightarrow> query B sql params pk = (Inl e, pk') \<Longrightarrow>
    dispatch_failed B pk pk'"
| exec: "guard_tx_control B sql [] (snd pk) = Inr v \<Longrightarrow> exec B sql pk = (Inl e, pk') \<Longrightarrow> dispatch_failed B pk pk'"
| open_tx: "begin_tx_with B tx sql pk = (Inl e, pk') \<Longrightarrow> dispatch_failed B pk pk'"
| control: "tx_control B sql pk = (Inl e, pk') \<Longrightarrow> dispatch_failed B pk pk'"
| commit: "commit_tx B pk = (Inl e, pk') \<Longrightarrow> dispatch_failed B pk pk'"
| rollback: "rollback_tx B pk = (Inl e, pk') \<Longrightarrow> dispatch_failed B pk pk'"
| rows_open: "guard_tx_control B sql params (snd pk) = Inr Proceed \<Longrightarrow> query_stream B sql params pk = (Inl e, pk') \<Longrightarrow>
    dispatch_failed B pk pk'"
| rows_pull: "pulls (stream_next B) h0 pk0 True h pk \<Longrightarrow> stream_finish B h pk = (s, pk') \<Longrightarrow> dispatch_failed B pk pk'"
| rows_drain: "drain_within (be_row_next B) (checkout_timeout (p_config p)) (p_world p) (co_conn k) (rh_rows h) =
      (items, left, w, c, rs) \<Longrightarrow> left = None \<or> (\<exists>e. Inl e \<in> set items) \<Longrightarrow> stream_finish B h (p, k) = (s, pk') \<Longrightarrow>
    dispatch_failed B (p, k) pk'"
| rows_reclaim: "drain_within (be_row_next B) (checkout_timeout (p_config p)) (p_world p) (co_conn k) (rh_rows h) =
      (items, Some rem, w, c, rs) \<Longrightarrow> be_reclaim_stream B rs w c = (d, w', r, c') \<Longrightarrow>
      checkout_timeout (p_config p) < d \<or> isl r \<Longrightarrow> stream_finish B h (p, k) = (s, pk') \<Longrightarrow>
    dispatch_failed B (p, k) pk'"
| copy_in_open: "guard_copy B sql In = Inr () \<Longrightarrow> copy_in B sql pk = (Inl e, pk') \<Longrightarrow> dispatch_failed B pk pk'"
| copy_in_finish: "copy_in_finish B sink pk = (Inl e, pk') \<Longrightarrow> dispatch_failed B pk pk'"
| copy_in_abort: "dispatch_failed B pk (copy_in_abort B sink pk)"
| copy_out_open: "guard_copy B sql Out = Inr () \<Longrightarrow> copy_out B sql pk = (Inl e, pk') \<Longrightarrow> dispatch_failed B pk pk'"
| copy_out_pull: "pulls (copy_out_next B) o0 pk0 True out pk \<Longrightarrow> copy_out_finish B out pk = (n, pk') \<Longrightarrow>
    dispatch_failed B pk pk'"
| copy_out_finish: "copy_out_finish B out pk = (Inl e, pk') \<Longrightarrow> dispatch_failed B pk pk'"

definition both_bits :: "('w, 'c) pool \<times> 'c checkout \<Rightarrow> bool" where
  "both_bits pk \<longleftrightarrow> co_tx_open (snd pk) \<and> co_tainted (snd pk)"

lemma bits_after [simp]:
  "both_bits (after_statement B True pk)" "both_bits (after_verdict B v sql True pk)"
  "both_bits (finalize_stream B True sql pk)" "both_bits (copy_open_failed B e sql pk)"
  "both_bits (copy_in_abort B sink pk)"
  by (cases pk; simp add: both_bits_def pool_frame finalize_stream_eq copy_open_failed_def copy_in_abort_def Let_def
      split: prod.split)+

lemma stream_finish_errored:
  assumes "stream_finish B h (p, k) = (s, pk')"
    and "drain_within (be_row_next B) (checkout_timeout (p_config p)) (p_world p) (co_conn k) (rh_rows h) = (items, left, w, c, rs)"
    and "be_reclaim_stream B rs w c = (d, w', r, c')"
    and "rh_errored h \<or> left = None \<or> list_ex isl items \<or> checkout_timeout (p_config p) < d \<or> isl r"
  shows "both_bits pk'"
proof (cases left)
  case None
  with assms(1,2) show ?thesis by (auto simp: stream_finish_def Let_def)
next
  case (Some rem)
  with assms(4) have e: "(checkout_timeout (p_config p) < d \<or> isl r) \<or> rh_errored h \<or> list_ex isl items" by blast
  have "pk' = finalize_stream B ((checkout_timeout (p_config p) < d \<or> isl r) \<or> rh_errored h \<or> list_ex isl items) (rh_sql h)
      (p\<lparr>p_world := w', p_clock := p_clock p + (checkout_timeout (p_config p) - rem) + min d (checkout_timeout (p_config p))\<rparr>,
       k\<lparr>co_conn := c', co_discard := co_discard k \<or> (checkout_timeout (p_config p) < d \<or> isl r)\<rparr>)"
    using assms(1-3) Some by (simp add: stream_finish_def Let_def)
  with e show ?thesis by (simp only: bits_after eqTrueI [OF e])
qed

lemma copy_out_finish_errored:
  assumes "copy_out_finish B out pk = (n, pk')" "cp_errored out \<or> isl n"
  shows "both_bits pk'"
proof -
  obtain p k where pk: "pk = (p, k)" by fastforce
  obtain items left w c rs where dr:
    "drain_within (be_copy_next B) (checkout_timeout (p_config p)) (p_world p) (co_conn k) (cp_rows out) = (items, left, w, c, rs)"
    by (metis prod_cases5)
  have e: "(cp_errored out \<or> list_ex isl items) \<or> isl n" using assms(2) by blast
  obtain q where "pk' = finalize_stream B ((cp_errored out \<or> list_ex isl items) \<or> isl n) (cp_sql out) q"
    using assms(1) dr unfolding pk by (auto simp: copy_out_finish_def Let_def)
  then show ?thesis by (simp only: bits_after eqTrueI [OF e])
qed

lemma query_errored:
  assumes "guard_tx_control B sql params (snd pk) = Inr v" "query B sql params pk = (Inl e, pk')"
  shows "both_bits pk'"
proof (cases v)
  case Proceed
  obtain r pk1 where 1: "run_on (be_query B sql params) pk = (r, pk1)" by (metis surj_pair)
  from query_eq(1) [OF _ 1] assms Proceed show ?thesis by auto
next
  case SavepointPassthrough
  obtain r pk1 where 1: "run_on (be_simple_query B sql) pk = (r, pk1)" by (metis surj_pair)
  from query_eq(2) [OF _ 1] assms SavepointPassthrough show ?thesis by (cases r) (auto simp: affected_only_def)
qed

lemma exec_errored:
  assumes "guard_tx_control B sql [] (snd pk) = Inr v" "exec B sql pk = (Inl e, pk')"
  shows "both_bits pk'"
proof -
  obtain r pk1 where "run_on (be_simple_query B sql) pk = (r, pk1)" by (metis surj_pair)
  from exec_eq [OF assms(1) this] assms(2) show ?thesis by auto
qed

lemma engine_errored:
  "begin_tx_with B tx sql pk = (Inl e, pk') \<Longrightarrow> both_bits pk'"
  "tx_control B sql pk = (Inl e, pk') \<Longrightarrow> both_bits pk'"
  "end_tx sql B pk = (Inl e, pk') \<Longrightarrow> both_bits pk'"
proof -
  obtain r pk1 where 1: "run_on (be_simple_query B sql) pk = (r, pk1)" by (metis surj_pair)
  show "begin_tx_with B tx sql pk = (Inl e, pk') \<Longrightarrow> both_bits pk'" "tx_control B sql pk = (Inl e, pk') \<Longrightarrow> both_bits pk'"
    "end_tx sql B pk = (Inl e, pk') \<Longrightarrow> both_bits pk'"
    using 1 by (cases r; auto simp: begin_tx_with_def tx_control_def end_tx_def Let_def unit_result_def)+
qed

lemma failed_bits: "dispatch_failed B pk pk' \<Longrightarrow> both_bits pk'"
proof (induction rule: dispatch_failed.induct)
  case (rows_open sql params pk e pk')
  obtain r pk1 where "run_on (be_query_stream B sql params) pk = (r, pk1)" by (metis surj_pair)
  with rows_open show ?case by (cases r) (auto simp: query_stream_def)
next
  case (rows_pull h0 pk0 h pk s pk')
  obtain p k where pk: "pk = (p, k)" by fastforce
  obtain items left w c rs where dr:
    "drain_within (be_row_next B) (checkout_timeout (p_config p)) (p_world p) (co_conn k) (rh_rows h) = (items, left, w, c, rs)"
    by (metis prod_cases5)
  obtain d w' r c' where rc: "be_reclaim_stream B rs w c = (d, w', r, c')" by (metis prod_cases4)
  show ?case
    using stream_finish_errored [OF rows_pull(2) [unfolded pk] dr rc] stream_pulls_errored [OF rows_pull(1)] by blast
next
  case (rows_drain p k h items left w c rs s pk')
  obtain d w' r c' where rc: "be_reclaim_stream B rs w c = (d, w', r, c')" by (metis prod_cases4)
  have "left = None \<or> list_ex isl items" using rows_drain(2) by (auto simp: list_ex_iff isl_def)
  then show ?case using stream_finish_errored [OF rows_drain(3,1) rc] by blast
next
  case (rows_reclaim p k h items rem w c rs d w' r c' s pk')
  then show ?case using stream_finish_errored [OF rows_reclaim(4,1,2)] by blast
next
  case (copy_in_open sql pk e pk')
  obtain r pk1 where "run_on (be_copy_in B sql) pk = (r, pk1)" by (metis surj_pair)
  with copy_in_open show ?case by (cases r) (auto simp: copy_in_def)
next
  case (copy_in_finish sink pk e pk')
  obtain r pk1 where "run_on (be_sink_finish B (ci_sink sink)) pk = (r, pk1)" by (metis surj_pair)
  with copy_in_finish show ?case by (cases r) (auto simp: copy_in_finish_def)
next
  case (copy_out_open sql pk e pk')
  obtain r pk1 where "run_on (be_copy_out B sql) pk = (r, pk1)" by (metis surj_pair)
  with copy_out_open show ?case by (cases r) (auto simp: copy_out_def)
next
  case (copy_out_pull o0 pk0 out pk n pk')
  then show ?case using copy_out_finish_errored copy_pulls_errored by blast
next
  case (copy_out_finish out pk e pk')
  then show ?case by (auto intro: copy_out_finish_errored)
qed (auto simp: commit_tx_def rollback_tx_def intro: query_errored exec_errored engine_errored)

subsection \<open>Every session step leaves the stack alone and keeps the discard latch\<close>

definition keeps :: "('w, 'c) pool \<times> 'c checkout \<Rightarrow> ('w, 'c) pool \<times> 'c checkout \<Rightarrow> bool" where
  "keeps pk pk' \<longleftrightarrow> same_stack (fst pk) (fst pk') \<and> (co_discard (snd pk) \<longrightarrow> co_discard (snd pk'))"

lemma keeps_refl [simp]: "keeps pk pk"
  by (simp add: keeps_def)

lemma keeps_trans: "keeps a b \<Longrightarrow> keeps b c \<Longrightarrow> keeps a c"
  unfolding keeps_def using same_stack_trans by blast

lemma keeps_update: "same_stack p p' \<Longrightarrow> (co_discard k \<Longrightarrow> co_discard k') \<Longrightarrow> keeps (p, k) (p', k')"
  by (simp add: keeps_def)

lemma keeps_after:
  "keeps pk (after_statement B err pk)" "keeps pk (after_verdict B v sql err pk)"
  by (cases pk; simp add: keeps_def pool_frame)+

lemma keeps_run_on: "run_on f pk = (r, pk') \<Longrightarrow> keeps pk pk'"
  using run_on_frame [where f = f and p = "fst pk" and k = "snd pk"] by (simp add: keeps_def)

lemma keeps_parts:
  "keeps pk (pin_to tx pk)" "keeps pk (unpin pk)" "keeps pk (set_cause c pk)"
  by (cases pk; simp add: keeps_def pool_frame)+

lemma keeps_flags:
  "keeps pk (set_tx_open b pk)" "keeps pk (set_tainted b pk)" "keeps pk (discard pk)"
  "keeps pk (handle_abandon pk)"
  by (simp_all add: keeps_def set_tx_open_def set_tainted_def discard_def handle_abandon_def
      split: prod.split)

lemma keeps_finalize: "keeps pk (finalize_stream B err sql pk)"
  by (simp add: finalize_stream_eq keeps_after)

lemma finalize_keepsI: "keeps pk pk1 \<Longrightarrow> keeps pk (finalize_stream B err sql pk1)"
  using keeps_finalize keeps_trans by blast

lemma exec_keeps: "exec B sql pk = (r, pk') \<Longrightarrow> keeps pk pk'"
proof (cases "guard_tx_control B sql [] (snd pk)")
  case (Inr v)
  assume e: "exec B sql pk = (r, pk')"
  obtain r1 pk1 where 1: "run_on (be_simple_query B sql) pk = (r1, pk1)" by (metis surj_pair)
  from exec_eq [OF Inr 1] e have "pk' = after_verdict B v sql (isl r1) pk1" by simp
  with keeps_run_on [OF 1] keeps_after(2) show ?thesis by (metis keeps_trans)
qed (simp add: exec_def)

lemma query_keeps: "query B sql params pk = (r, pk') \<Longrightarrow> keeps pk pk'"
proof (cases "guard_tx_control B sql params (snd pk)")
  case (Inr v)
  assume e: "query B sql params pk = (r, pk')"
  obtain r1 pk1 where 1: "run_on (be_simple_query B sql) pk = (r1, pk1)" by (metis surj_pair)
  obtain r2 pk2 where 2: "run_on (be_query B sql params) pk = (r2, pk2)" by (metis surj_pair)
  show ?thesis
  proof (cases v)
    case Proceed
    with query_eq(1) [OF _ 2] Inr e have "pk' = after_verdict B Proceed sql (isl r2) pk2" by simp
    with keeps_run_on [OF 2] keeps_after(2) show ?thesis by (metis keeps_trans)
  next
    case SavepointPassthrough
    with query_eq(2) [OF _ 1] Inr e have "pk' = after_verdict B SavepointPassthrough sql (isl r1) pk1" by simp
    with keeps_run_on [OF 1] keeps_after(2) show ?thesis by (metis keeps_trans)
  qed
qed (simp add: query_def)

lemma begin_keeps: "begin_tx_with B tx sql pk = (r, pk') \<Longrightarrow> keeps pk pk'"
proof -
  assume e: "begin_tx_with B tx sql pk = (r, pk')"
  obtain r1 pk1 where 1: "run_on (be_simple_query B sql) pk = (r1, pk1)" by (metis surj_pair)
  let ?pk2 = "if isl r1 then pk1 else set_tx_open True (set_cause CauseTx (pin_to tx pk1))"
  have "keeps pk1 ?pk2"
    by (simp add: keeps_trans [OF keeps_parts(1) keeps_trans [OF keeps_parts(3) keeps_flags(1)]])
  moreover have "pk' = after_statement B (isl r1) ?pk2"
    using e 1 by (simp add: begin_tx_with_def Let_def)
  ultimately show ?thesis
    using keeps_run_on [OF 1] keeps_after(1) by (blast intro: keeps_trans)
qed

lemma control_keeps: "tx_control B sql pk = (r, pk') \<Longrightarrow> keeps pk pk'"
proof -
  assume e: "tx_control B sql pk = (r, pk')"
  obtain r1 pk1 where 1: "run_on (be_simple_query B sql) pk = (r1, pk1)" by (metis surj_pair)
  with e have "pk' = after_statement B (isl r1) pk1" by (simp add: tx_control_def)
  with keeps_run_on [OF 1] keeps_after(1) show ?thesis by (metis keeps_trans)
qed

lemma end_keeps: "end_tx sql B pk = (r, pk') \<Longrightarrow> keeps pk pk'"
proof -
  assume e: "end_tx sql B pk = (r, pk')"
  obtain r1 pk1 where 1: "run_on (be_simple_query B sql) pk = (r1, pk1)" by (metis surj_pair)
  let ?pk2 = "if isl r1 then pk1 else set_tx_open False (unpin pk1)"
  have "keeps pk1 ?pk2" by (simp add: keeps_trans [OF keeps_parts(2) keeps_flags(1)])
  moreover have "pk' = after_statement B (isl r1) ?pk2"
    using e 1 by (simp add: end_tx_def Let_def)
  ultimately show ?thesis
    using keeps_run_on [OF 1] keeps_after(1) by (blast intro: keeps_trans)
qed

lemma query_stream_keeps: "query_stream B sql params pk = (r, pk') \<Longrightarrow> keeps pk pk'"
proof -
  assume e: "query_stream B sql params pk = (r, pk')"
  obtain r1 pk1 where 1: "run_on (be_query_stream B sql params) pk = (r1, pk1)" by (metis surj_pair)
  have "pk' = pk \<or> pk' = pk1 \<or> pk' = finalize_stream B True sql pk1"
    using e 1 by (auto simp: query_stream_def split: sum.splits verdict.splits)
  then show ?thesis using keeps_run_on [OF 1] keeps_finalize keeps_trans keeps_refl by metis
qed

lemma stream_finish_keeps: "stream_finish B h pk = (e, pk') \<Longrightarrow> keeps pk pk'"
  by (cases pk)
     (auto simp: stream_finish_def Let_def same_stack_def split: prod.splits option.splits
       intro!: finalize_keepsI keeps_update)

lemma copy_open_failed_keeps: "keeps pk (copy_open_failed B e sql pk)"
  by (cases pk) (auto simp: copy_open_failed_def intro!: finalize_keepsI keeps_update)

lemma copy_in_keeps: "copy_in B sql pk = (r, pk') \<Longrightarrow> keeps pk pk'"
proof -
  assume e: "copy_in B sql pk = (r, pk')"
  obtain r1 pk1 where 1: "run_on (be_copy_in B sql) pk = (r1, pk1)" by (metis surj_pair)
  have "pk' = pk \<or> pk' = pk1 \<or> (\<exists>e'. pk' = copy_open_failed B e' sql pk1)"
    using e 1 by (auto simp: copy_in_def split: sum.splits)
  then show ?thesis using keeps_run_on [OF 1] copy_open_failed_keeps keeps_trans keeps_refl by metis
qed

lemma copy_out_keeps: "copy_out B sql pk = (r, pk') \<Longrightarrow> keeps pk pk'"
proof -
  assume e: "copy_out B sql pk = (r, pk')"
  obtain r1 pk1 where 1: "run_on (be_copy_out B sql) pk = (r1, pk1)" by (metis surj_pair)
  have "pk' = pk \<or> pk' = pk1 \<or> (\<exists>e'. pk' = copy_open_failed B e' sql pk1)"
    using e 1 by (auto simp: copy_out_def split: sum.splits)
  then show ?thesis using keeps_run_on [OF 1] copy_open_failed_keeps keeps_trans keeps_refl by metis
qed

lemma copy_in_finish_keeps: "copy_in_finish B s pk = (n, pk') \<Longrightarrow> keeps pk pk'"
proof -
  assume e: "copy_in_finish B s pk = (n, pk')"
  obtain r1 pk1 where 1: "run_on (be_sink_finish B (ci_sink s)) pk = (r1, pk1)" by (metis surj_pair)
  with e have "pk' = finalize_stream B (isl r1) (ci_sql s) pk1" by (auto simp: copy_in_finish_def)
  with keeps_run_on [OF 1] keeps_finalize show ?thesis by (metis keeps_trans)
qed

lemma copy_in_abort_keeps: "keeps pk (copy_in_abort B s pk)"
  by (cases pk)
     (auto simp: copy_in_abort_def Let_def same_stack_def split: prod.splits
       intro!: finalize_keepsI keeps_update)

lemma copy_out_finish_keeps: "copy_out_finish B s pk = (n, pk') \<Longrightarrow> keeps pk pk'"
  by (cases pk)
     (auto simp: copy_out_finish_def Let_def same_stack_def split: prod.splits
       intro!: finalize_keepsI keeps_update)

lemma pull_keeps:
  "stream_next B h pk = (item, h', pk') \<Longrightarrow> keeps pk pk'"
  "copy_in_send B chunk s pk = (u, s', pk') \<Longrightarrow> keeps pk pk'"
  "copy_out_next B o' pk = (x, o'', pk') \<Longrightarrow> keeps pk pk'"
  by (cases pk; auto simp: stream_next_def copy_in_send_def copy_out_next_def keeps_def same_stack_def
      split: prod.splits)+

lemmas step_keeps = exec_keeps query_keeps begin_keeps control_keeps query_stream_keeps
  stream_finish_keeps copy_in_keeps copy_out_keeps copy_in_finish_keeps copy_in_abort_keeps
  copy_out_finish_keeps pull_keeps keeps_flags

lemma session_step_keeps: "session_step B pk ph pk' ph' \<Longrightarrow> keeps pk pk'"
  by (induction rule: session_step.induct)
     (auto intro: step_keeps keeps_trans [OF keeps_update keeps_flags(2)]
       simp: commit_tx_def rollback_tx_def same_stack_def dest: end_keeps)

end
