(* ===== verification/Pool_Contract.thy ===== *)
theory Pool_Contract
  imports Pool_Correct
begin

text \<open>
  What the pool relies on from a backend, as locales, and what follows for the pool's clients.

  \<open>pull_stream\<close> is the contract of a pull-based stream (\<open>BackendRows\<close>, \<open>BackendCopyOut\<close>):
  after an error it only ends, after its end it stays ended. \<open>session_backend\<close> is the contract of
  \<open>PoolBackend\<close> that the documentation of the trait states: which operations leave a connection out
  of a transaction (\<open>no_tx\<close>), in step with the protocol (\<open>in_step\<close>), and what they leave in its
  session. \<open>residue c\<close> is what earlier statements may have left in the session of \<open>c\<close>: the
  statements run since the session was last as the server starts it, each with whether the session
  tracker reported a change after it. A statement after which the tracker reports nothing adds at most
  itself, as unreported; of one it reports nothing is assumed; a full reset and a dial leave no residue,
  and the pool's own calls add none. No law says that the lexer or the tracker
  sees every change: the lexer has documented blind spots (a \<open>set_config\<close> call, a function the
  configuration does not name), and PostgreSQL and SQLite have no tracker. What the pool then promises
  of a connection it hands out is that its residue is \<open>unseen\<close>: made of statements that
  neither the lexer nor the tracker reported.
\<close>

subsection \<open>Pull-based streams\<close>

locale pull_stream =
  fixes pull :: "'w \<Rightarrow> 'c \<Rightarrow> 's \<Rightarrow> nat \<times> 'w \<times> 'a result option \<times> 'c \<times> 's"
    and streaming :: "'c \<Rightarrow> string \<Rightarrow> 'c \<Rightarrow> 's \<Rightarrow> bool"
    and drained :: "'c \<Rightarrow> string \<Rightarrow> 'c \<Rightarrow> 's \<Rightarrow> bool"
    and broken :: "'c \<Rightarrow> 's \<Rightarrow> bool"
    and over :: "'c \<Rightarrow> 's \<Rightarrow> bool"
  assumes pull_row: "streaming c0 sql c s \<Longrightarrow> pull w c s = (d, w', Some (Inr x), c', s') \<Longrightarrow> streaming c0 sql c' s'"
    and pull_end: "streaming c0 sql c s \<Longrightarrow> pull w c s = (d, w', None, c', s') \<Longrightarrow> drained c0 sql c' s'"
    and pull_err: "streaming c0 sql c s \<Longrightarrow> pull w c s = (d, w', Some (Inl e), c', s') \<Longrightarrow> broken c' s'"
    and pull_drained: "drained c0 sql c s \<Longrightarrow> pull w c s = (d, w', i, c', s') \<Longrightarrow> i = None \<and> drained c0 sql c' s'"
    and pull_broken: "broken c s \<Longrightarrow> pull w c s = (d, w', Some y, c', s') \<Longrightarrow> broken c' s'"
    and pull_broken_end: "broken c s \<Longrightarrow> pull w c s = (d, w', None, c', s') \<Longrightarrow> over c' s'"
    and pull_over: "over c s \<Longrightarrow> pull w c s = (d, w', i, c', s') \<Longrightarrow> i = None \<and> over c' s'"
begin

definition alive :: "'c \<Rightarrow> string \<Rightarrow> bool \<Rightarrow> 'c \<Rightarrow> 's \<Rightarrow> bool" where
  "alive c0 sql errored c s \<longleftrightarrow>
     (if errored then broken c s \<or> over c s else streaming c0 sql c s \<or> drained c0 sql c s)"

lemma alive_pull:
  assumes "alive c0 sql errored c s" "pull w c s = (d, w', i, c', s')"
  shows "alive c0 sql (errored \<or> (case i of Some x \<Rightarrow> isl x | None \<Rightarrow> False)) c' s'"
proof (cases i)
  case None
  with assms show ?thesis
    by (auto simp: alive_def dest: pull_end pull_drained pull_broken_end pull_over split: if_splits)
next
  case (Some x)
  with assms show ?thesis
    by (cases x) (auto simp: alive_def dest: pull_row pull_err pull_drained pull_broken pull_over split: if_splits)
qed

lemma alive_end:
  assumes "alive c0 sql errored c s" "pull w c s = (d, w', None, c', s')"
  shows "if errored then over c' s' else drained c0 sql c' s'"
  using assms
  by (auto simp: alive_def dest: pull_end pull_drained pull_broken_end pull_over split: if_splits)

lemma drain_alive:
  "alive c0 sql errored c s \<Longrightarrow> drain_within pull n w c s = (items, Some rem, w', c', s') \<Longrightarrow>
   (if errored \<or> list_ex isl items then over c' s' else drained c0 sql c' s')"
proof (induction n arbitrary: w c s errored items rule: less_induct)
  case (less n)
  obtain d w1 i c1 s1 where pl: "pull w c s = (d, w1, i, c1, s1)" by (metis prod_cases5)
  show ?case
  proof (cases i)
    case None
    with less.prems(2) pl have "items = []" "c' = c1" "s' = s1"
      by (auto simp: drain_within.simps [of pull n] split: if_splits)
    with alive_end [OF less.prems(1) pl [unfolded None]] show ?thesis by simp
  next
    case (Some x)
    with less.prems(2) pl obtain xs where
      n: "max d 1 \<le> n" and
      xs: "drain_within pull (n - max d 1) w1 c1 s1 = (xs, Some rem, w', c', s')" "items = x # xs"
      by (auto simp: drain_within.simps [of pull n] split: if_splits prod.splits)
    have al: "alive c0 sql (errored \<or> isl x) c1 s1"
      using alive_pull [OF less.prems(1) pl] Some by simp
    have "n - max d 1 < n" using n by simp
    from less.IH [OF this al xs(1)] xs(2) show ?thesis by (simp add: disj_ac)
  qed
qed

end

subsection \<open>Sessions\<close>

locale session_backend =
  rows: pull_stream "be_row_next B" streaming drained broken over +
  copies: pull_stream "be_copy_next B" copying copied copy_broken copy_over
  for B :: "('w, 'c, 'r, 'i, 'o) backend"
    and streaming drained :: "'c \<Rightarrow> string \<Rightarrow> 'c \<Rightarrow> 'r \<Rightarrow> bool"
    and broken over :: "'c \<Rightarrow> 'r \<Rightarrow> bool"
    and copying copied :: "'c \<Rightarrow> string \<Rightarrow> 'c \<Rightarrow> 'o \<Rightarrow> bool"
    and copy_broken copy_over :: "'c \<Rightarrow> 'o \<Rightarrow> bool" +
  fixes no_tx in_step :: "'c \<Rightarrow> bool"
    and residue :: "'c \<Rightarrow> (string \<times> bool) set"
    and sinking :: "'c \<Rightarrow> string \<Rightarrow> 'c \<Rightarrow> 'i \<Rightarrow> bool"
  assumes connect_law: "be_connect B w = (d, w', Inr c) \<Longrightarrow> in_step c \<and> no_tx c \<and> residue c = {}"
    and readonly_law: "be_apply_readonly B ro w c = (d, w', Inr u, c') \<Longrightarrow>
      in_step c \<Longrightarrow> no_tx c \<Longrightarrow> in_step c' \<and> no_tx c' \<and> residue c' \<subseteq> residue c"
    and rollback_law: "be_simple_query B ''ROLLBACK'' w c = (d, w', Inr n, c') \<Longrightarrow>
      in_step c \<Longrightarrow> in_step c' \<and> no_tx c' \<and> residue c' \<subseteq> residue c"
    and rollback_keeps_law: "be_simple_query B ''ROLLBACK'' w c = (d, w', r, c') \<Longrightarrow>
      in_step c \<Longrightarrow> no_tx c \<Longrightarrow> no_tx c'"
    and reset_full_law: "be_reset B Full w c = (d, w', Inr u, c') \<Longrightarrow>
      in_step c \<Longrightarrow> no_tx c \<Longrightarrow> in_step c' \<and> no_tx c' \<and> residue c' = {}"
    and reset_clean_law: "be_clean_reset_profile B = Some pr \<Longrightarrow> be_reset B pr w c = (d, w', Inr u, c') \<Longrightarrow>
      in_step c \<Longrightarrow> no_tx c \<Longrightarrow> in_step c' \<and> no_tx c' \<and> residue c' \<subseteq> residue c"
    and ping_law: "be_ping B w c = (d, w', Inr u, c') \<Longrightarrow>
      in_step c' = in_step c \<and> no_tx c' = no_tx c \<and> residue c' \<subseteq> residue c"
    and tracker_law: "be_take_session_mutated B c = (m, c') \<Longrightarrow>
      (in_step c \<longrightarrow> in_step c') \<and> (no_tx c \<longrightarrow> no_tx c') \<and> (\<not> m \<longrightarrow> residue c' \<subseteq> residue c)"
    and simple_in_step: "in_step c \<Longrightarrow> be_simple_query B sql w c = (d, w', r, c') \<Longrightarrow> in_step c'"
    and query_in_step: "in_step c \<Longrightarrow> be_query B sql ps w c = (d, w', q, c') \<Longrightarrow> in_step c'"
    and stream_in_step: "in_step c \<Longrightarrow> be_query_stream B sql ps w c = (d, w', Inl e, c') \<Longrightarrow> in_step c'"
    and copy_in_in_step: "in_step c \<Longrightarrow> be_copy_in B sql w c = (d, w', Inl e, c') \<Longrightarrow> is_sql_error e \<Longrightarrow> in_step c'"
    and copy_out_in_step: "in_step c \<Longrightarrow> be_copy_out B sql w c = (d, w', Inl e, c') \<Longrightarrow> is_sql_error e \<Longrightarrow> in_step c'"
    and stream_law: "in_step c \<Longrightarrow> be_query_stream B sql ps w c = (d, w', Inr (cols, rs), c') \<Longrightarrow> streaming c sql c' rs"
    and reclaim_over: "over c rs \<Longrightarrow> be_reclaim_stream B rs w c = (d, w', Inr rc, c') \<Longrightarrow> in_step c'"
    and copy_law: "in_step c \<Longrightarrow> be_copy_out B sql w c = (d, w', Inr s, c') \<Longrightarrow> copying c sql c' s"
    and copy_over_law: "copy_over c s \<Longrightarrow> in_step c"
    and sink_law: "in_step c \<Longrightarrow> be_copy_in B sql w c = (d, w', Inr k, c') \<Longrightarrow> sinking c sql c' k"
    and send_law: "sinking c0 sql c k \<Longrightarrow> be_sink_send B chunk w c k = (d, w', su, c', k') \<Longrightarrow> sinking c0 sql c' k'"
    and sink_abort_law: "sinking c0 sql c k \<Longrightarrow> be_sink_abort B k w c = (d, w', Inr u, c') \<Longrightarrow> in_step c'"
    and sink_finish_in_step: "sinking c0 sql c k \<Longrightarrow> be_sink_finish B k w c = (d, w', r, c') \<Longrightarrow> in_step c'"
    and idle_simple: "in_step c \<Longrightarrow> be_simple_query B sql w c = (d, w', Inr n, c') \<Longrightarrow> be_tx_status B c' = Idle \<Longrightarrow> no_tx c'"
    and idle_query: "in_step c \<Longrightarrow> be_query B sql ps w c = (d, w', Inr q', c') \<Longrightarrow> be_tx_status B c' = Idle \<Longrightarrow> no_tx c'"
    and idle_stream: "drained c0 sql c rs \<Longrightarrow> be_reclaim_stream B rs w c = (d, w', Inr rc, c') \<Longrightarrow>
      in_step c' \<and> (be_tx_status B c' = Idle \<longrightarrow> no_tx c')"
    and idle_copy: "copied c0 sql c s \<Longrightarrow> in_step c \<and> (be_tx_status B c = Idle \<longrightarrow> no_tx c)"
    and idle_sink: "sinking c0 sql c k \<Longrightarrow> be_sink_finish B k w c = (d, w', Inr n, c') \<Longrightarrow> be_tx_status B c' = Idle \<Longrightarrow> no_tx c'"
    and left_simple: "in_step c \<Longrightarrow> be_simple_query B sql w c = (d, w', Inr n, c') \<Longrightarrow>
      \<not> fst (be_take_session_mutated B c') \<Longrightarrow> residue c' \<subseteq> insert (sql, False) (residue c)"
    and left_query: "in_step c \<Longrightarrow> be_query B sql ps w c = (d, w', Inr q', c') \<Longrightarrow>
      \<not> fst (be_take_session_mutated B c') \<Longrightarrow> residue c' \<subseteq> insert (sql, False) (residue c)"
    and left_stream: "drained c0 sql c rs \<Longrightarrow> be_reclaim_stream B rs w c = (d, w', Inr rc, c') \<Longrightarrow>
      \<not> fst (be_take_session_mutated B c') \<Longrightarrow> residue c' \<subseteq> insert (sql, False) (residue c0)"
    and left_copy: "copied c0 sql c s \<Longrightarrow>
      \<not> fst (be_take_session_mutated B c) \<Longrightarrow> residue c \<subseteq> insert (sql, False) (residue c0)"
    and left_sink: "sinking c0 sql c k \<Longrightarrow> be_sink_finish B k w c = (d, w', Inr n, c') \<Longrightarrow>
      \<not> fst (be_take_session_mutated B c') \<Longrightarrow> residue c' \<subseteq> insert (sql, False) (residue c0)"

text \<open>A backend in a pool whose configuration names the functions \<open>pfs\<close> and pins unknown statements or not.\<close>

locale pooled_backend =
  session_backend B streaming drained broken over copying copied copy_broken copy_over no_tx in_step residue sinking
  for B :: "('w, 'c, 'r, 'i, 'o) backend"
    and streaming drained :: "'c \<Rightarrow> string \<Rightarrow> 'c \<Rightarrow> 'r \<Rightarrow> bool"
    and broken over :: "'c \<Rightarrow> 'r \<Rightarrow> bool"
    and copying copied :: "'c \<Rightarrow> string \<Rightarrow> 'c \<Rightarrow> 'o \<Rightarrow> bool"
    and copy_broken copy_over :: "'c \<Rightarrow> 'o \<Rightarrow> bool"
    and no_tx in_step :: "'c \<Rightarrow> bool"
    and residue :: "'c \<Rightarrow> (string \<times> bool) set"
    and sinking :: "'c \<Rightarrow> string \<Rightarrow> 'c \<Rightarrow> 'i \<Rightarrow> bool" +
  fixes pfs :: "string list" and unk :: bool
begin

definition unseen :: "'c \<Rightarrow> bool" where
  "unseen c \<longleftrightarrow> (\<forall>(sql, m) \<in> residue c. \<not> m \<and> engine_sql (be_dialect B) pfs unk sql)"

lemma unseen_mono: "unseen c \<Longrightarrow> residue c' \<subseteq> residue c \<Longrightarrow> unseen c'"
  unfolding unseen_def by blast

lemma unseen_empty: "residue c = {} \<Longrightarrow> unseen c"
  by (simp add: unseen_def)

lemma unseen_insert:
  "unseen c0 \<Longrightarrow> residue c \<subseteq> insert (sql, False) (residue c0) \<Longrightarrow> engine_sql (be_dialect B) pfs unk sql \<Longrightarrow> unseen c"
  unfolding unseen_def by fastforce

lemma unnamed_engine_sql: "classify sql d pf u = None \<Longrightarrow> engine_sql d pf u sql"
  by (simp add: engine_sql_def)

lemma tracker_unseen: "be_take_session_mutated B c = (m, c') \<Longrightarrow>
    (in_step c \<longrightarrow> in_step c') \<and> (no_tx c \<longrightarrow> no_tx c') \<and> (\<not> m \<longrightarrow> unseen c \<longrightarrow> unseen c')"
  using tracker_law unseen_mono by blast

lemmas quiet_simple = unseen_insert [OF _ left_simple]
lemmas quiet_query = unseen_insert [OF _ left_query unnamed_engine_sql]
lemmas quiet_stream = unseen_insert [OF _ left_stream unnamed_engine_sql]
lemmas quiet_copy = unseen_insert [OF _ left_copy unnamed_engine_sql]
lemmas quiet_sink = unseen_insert [OF _ left_sink unnamed_engine_sql]

text \<open>What the two reuse-safety bits promise about a connection.\<close>

definition fit :: "bool \<Rightarrow> bool \<Rightarrow> 'c \<Rightarrow> bool" where
  "fit opn tainted c \<longleftrightarrow> in_step c \<and> (\<not> opn \<longrightarrow> no_tx c) \<and> (\<not> tainted \<longrightarrow> unseen c)"

definition co_fit :: "'c checkout \<Rightarrow> bool" where
  "co_fit k \<longleftrightarrow> co_discard k \<or> fit (co_tx_open k) (co_tainted k) (co_conn k)"

definition pool_fit :: "('w, 'c) pool \<Rightarrow> bool" where
  "pool_fit p \<longleftrightarrow>
     pin_functions (p_config p) = pfs \<and> pin_on_unknown (p_config p) = unk \<and>
     (\<forall>ic \<in> set (p_idle p). fit (ic_tx_open ic) (ic_tainted ic) (ic_conn ic))"

fun session_fit :: "('c, 'r, 'i, 'o) session \<Rightarrow> bool" where
  "session_fit (k, Ready) = co_fit k"
| "session_fit (k, RowsOpen h) =
     (co_discard k \<or>
      (\<exists>c0. rows.alive c0 (rh_sql h) (rh_errored h) (co_conn k) (rh_rows h) \<and>
         (\<not> co_tainted k \<longrightarrow> unseen c0)))"
| "session_fit (k, SinkOpen s) =
     (co_discard k \<or>
      (\<exists>c0. sinking c0 (ci_sql s) (co_conn k) (ci_sink s) \<and> (\<not> co_tainted k \<longrightarrow> unseen c0)))"
| "session_fit (k, SourceOpen s) =
     (co_discard k \<or>
      (\<exists>c0. copies.alive c0 (cp_sql s) (cp_errored s) (co_conn k) (cp_rows s) \<and>
         (\<not> co_tainted k \<longrightarrow> unseen c0)))"

lemma session_fit_discard: "co_discard k \<Longrightarrow> session_fit (k, ph)"
  by (cases ph) (simp_all add: co_fit_def)

lemma pool_fit_same_stack: "pool_fit p \<Longrightarrow> same_stack p p' \<Longrightarrow> pool_fit p'"
  by (simp add: pool_fit_def same_stack_def)

text \<open>The bookkeeping after a statement re-establishes the promise of the bits.\<close>

lemma statement_fit:
  assumes "in_step (co_conn k)"
    and "\<not> err \<Longrightarrow> be_tx_status B (co_conn k) = Idle \<Longrightarrow> no_tx (co_conn k)"
    and "\<not> err \<Longrightarrow> \<not> co_tainted k \<Longrightarrow> \<not> fst (be_take_session_mutated B (co_conn k)) \<Longrightarrow> unseen (co_conn k)"
  shows "co_fit (snd (after_statement B err (p, k)))"
proof -
  obtain m c where t: "be_take_session_mutated B (co_conn k) = (m, c)" by fastforce
  from tracker_unseen [OF t] assms show ?thesis
    by (auto simp: co_fit_def fit_def pool_frame t)
qed

lemma verdict_fit:
  assumes "pool_fit p" "in_step (co_conn k)"
    and "\<not> err \<Longrightarrow> be_tx_status B (co_conn k) = Idle \<Longrightarrow> no_tx (co_conn k)"
    and "\<not> err \<Longrightarrow> \<not> co_tainted k \<Longrightarrow> (v = Proceed \<Longrightarrow> classify sql (be_dialect B) pfs unk = None) \<Longrightarrow>
      \<not> fst (be_take_session_mutated B (co_conn k)) \<Longrightarrow> unseen (co_conn k)"
  shows "co_fit (snd (after_verdict B v sql err (p, k)))"
proof -
  obtain m c where t: "be_take_session_mutated B (co_conn k) = (m, c)" by fastforce
  from tracker_unseen [OF t] assms show ?thesis
    by (auto simp: co_fit_def fit_def pool_frame t pool_fit_def)
qed

lemma verdict_err_fit:
  "pool_fit p \<Longrightarrow> in_step (co_conn k) \<Longrightarrow> co_fit (snd (after_verdict B v sql True (p, k)))"
  by (rule verdict_fit) simp_all

lemma engine_sql_savepoint:
  "tx_control_class sql = Some x \<Longrightarrow> is_lone_statement sql \<Longrightarrow> engine_sql d pf u sql"
  by (simp add: engine_sql_def)

subsubsection \<open>Statements\<close>

text \<open>One statement on the text leaf, from a fit checkout.\<close>

lemma simple_after:
  assumes "fit (co_tx_open k) (co_tainted k) (co_conn k)"
    and "run_on (be_simple_query B sql) (p, k) = (r, p1, k1)"
  shows "in_step (co_conn k1)"
    and "\<not> isl r \<Longrightarrow> be_tx_status B (co_conn k1) = Idle \<Longrightarrow> no_tx (co_conn k1)"
    and "\<not> isl r \<Longrightarrow> \<not> co_tainted k1 \<Longrightarrow> engine_sql (be_dialect B) pfs unk sql \<Longrightarrow>
      \<not> fst (be_take_session_mutated B (co_conn k1)) \<Longrightarrow> unseen (co_conn k1)"
    and "same_stack p p1" and "co_tainted k1 = co_tainted k"
proof -
  obtain d w r' c where q: "be_simple_query B sql (p_world p) (co_conn k) = (d, w, r', c)"
    by (metis prod_cases4)
  have eq: "r' = r" "p1 = p\<lparr>p_world := w, p_clock := p_clock p + d\<rparr>" "k1 = k\<lparr>co_conn := c\<rparr>"
    using assms(2) run_on_eq [where f = "be_simple_query B sql", OF q] by simp_all
  have inst: "in_step (co_conn k)" using assms(1) by (simp add: fit_def)
  show "in_step (co_conn k1)" using simple_in_step [OF inst q] eq by simp
  show "same_stack p p1" "co_tainted k1 = co_tainted k" by (simp_all add: eq same_stack_def)
  assume ok: "\<not> isl r"
  then obtain n where n: "r' = Inr n" using eq by (cases r) auto
  show "be_tx_status B (co_conn k1) = Idle \<Longrightarrow> no_tx (co_conn k1)"
    using idle_simple [OF inst q [unfolded n]] eq by simp
  show "\<not> co_tainted k1 \<Longrightarrow> engine_sql (be_dialect B) pfs unk sql \<Longrightarrow>
      \<not> fst (be_take_session_mutated B (co_conn k1)) \<Longrightarrow> unseen (co_conn k1)"
    using quiet_simple [OF _ inst q [unfolded n]] assms(1) eq by (simp add: fit_def)
qed

lemma query_after:
  assumes "fit (co_tx_open k) (co_tainted k) (co_conn k)"
    and "run_on (be_query B sql params) (p, k) = (r, p1, k1)"
  shows "in_step (co_conn k1)"
    and "\<not> isl r \<Longrightarrow> be_tx_status B (co_conn k1) = Idle \<Longrightarrow> no_tx (co_conn k1)"
    and "\<not> isl r \<Longrightarrow> \<not> co_tainted k1 \<Longrightarrow> classify sql (be_dialect B) pfs unk = None \<Longrightarrow>
      \<not> fst (be_take_session_mutated B (co_conn k1)) \<Longrightarrow> unseen (co_conn k1)"
    and "same_stack p p1"
proof -
  obtain d w r' c where q: "be_query B sql params (p_world p) (co_conn k) = (d, w, r', c)"
    by (metis prod_cases4)
  have eq: "r' = r" "p1 = p\<lparr>p_world := w, p_clock := p_clock p + d\<rparr>" "k1 = k\<lparr>co_conn := c\<rparr>"
    using assms(2) run_on_eq [where f = "be_query B sql params", OF q] by simp_all
  have inst: "in_step (co_conn k)" using assms(1) by (simp add: fit_def)
  show "in_step (co_conn k1)" using query_in_step [OF inst q] eq by simp
  show "same_stack p p1" by (simp add: eq same_stack_def)
  assume ok: "\<not> isl r"
  then obtain n where n: "r' = Inr n" using eq by (cases r) auto
  show "be_tx_status B (co_conn k1) = Idle \<Longrightarrow> no_tx (co_conn k1)"
    using idle_query [OF inst q [unfolded n]] eq by simp
  show "\<not> co_tainted k1 \<Longrightarrow> classify sql (be_dialect B) pfs unk = None \<Longrightarrow>
      \<not> fst (be_take_session_mutated B (co_conn k1)) \<Longrightarrow> unseen (co_conn k1)"
    using quiet_query [OF _ inst q [unfolded n]] assms(1) eq by (simp add: fit_def)
qed

lemma passthrough_after:
  assumes pf: "pool_fit p" and f: "fit (co_tx_open k) (co_tainted k) (co_conn k)"
    and r: "run_on (be_simple_query B sql) (p, k) = (r, p1, k1)"
    and v: "v = SavepointPassthrough \<Longrightarrow> engine_sql (be_dialect B) pfs unk sql"
  shows "co_fit (snd (after_verdict B v sql (isl r) (p1, k1)))"
proof (rule verdict_fit)
  show "pool_fit p1" using pool_fit_same_stack [OF pf simple_after(4) [OF f r]] .
  show "in_step (co_conn k1)" using simple_after(1) [OF f r] .
  show "\<not> isl r \<Longrightarrow> be_tx_status B (co_conn k1) = Idle \<Longrightarrow> no_tx (co_conn k1)"
    using simple_after(2) [OF f r] .
  assume a: "\<not> isl r" "\<not> co_tainted k1" "v = Proceed \<Longrightarrow> classify sql (be_dialect B) pfs unk = None"
    "\<not> fst (be_take_session_mutated B (co_conn k1))"
  then have "engine_sql (be_dialect B) pfs unk sql" using v by (cases v) (auto simp: engine_sql_def)
  with a show "unseen (co_conn k1)" using simple_after(3) [OF f r] by blast
qed

lemma guard_engine_sql:
  "guard_tx_control B sql params k = Inr v \<Longrightarrow> v = SavepointPassthrough \<Longrightarrow> engine_sql d pf u sql"
  using guard_passthrough engine_sql_savepoint by blast

lemma exec_fit:
  assumes pf: "pool_fit p" and k: "co_fit k" "\<not> co_discard k" and e: "exec B sql (p, k) = (r, p', k')"
  shows "co_fit k'"
proof (cases "guard_tx_control B sql [] k")
  case (Inl x)
  with e k show ?thesis by (simp add: exec_def)
next
  case (Inr v)
  obtain r1 p1 k1 where 1: "run_on (be_simple_query B sql) (p, k) = (r1, p1, k1)" by (metis prod_cases3)
  have f: "fit (co_tx_open k) (co_tainted k) (co_conn k)" using k by (simp add: co_fit_def)
  have "co_fit (snd (after_verdict B v sql (isl r1) (p1, k1)))"
    using passthrough_after [OF pf f 1] guard_engine_sql [OF Inr] by blast
  with exec_eq [of B sql "(p, k)", OF _ 1] Inr e show ?thesis by (metis Pair_inject snd_conv)
qed

lemma query_fit:
  assumes pf: "pool_fit p" and k: "co_fit k" "\<not> co_discard k"
    and e: "query B sql params (p, k) = (r, p', k')"
  shows "co_fit k'"
proof (cases "guard_tx_control B sql params k")
  case (Inl x)
  with e k show ?thesis by (simp add: query_def)
next
  case (Inr v)
  have f: "fit (co_tx_open k) (co_tainted k) (co_conn k)" using k by (simp add: co_fit_def)
  obtain r1 p1 k1 where 1: "run_on (be_simple_query B sql) (p, k) = (r1, p1, k1)" by (metis prod_cases3)
  obtain r2 p2 k2 where 2: "run_on (be_query B sql params) (p, k) = (r2, p2, k2)" by (metis prod_cases3)
  show ?thesis
  proof (cases v)
    case Proceed
    have "co_fit (snd (after_verdict B Proceed sql (isl r2) (p2, k2)))"
      using query_after [OF f 2] pool_fit_same_stack [OF pf] by (intro verdict_fit) auto
    with query_eq(1) [of B sql params "(p, k)", OF _ 2] Inr Proceed e show ?thesis
      by (metis Pair_inject snd_conv)
  next
    case SavepointPassthrough
    have "co_fit (snd (after_verdict B v sql (isl r1) (p1, k1)))"
      using passthrough_after [OF pf f 1] guard_engine_sql [OF Inr] by blast
    with query_eq(2) [of B sql params "(p, k)", OF _ 1] Inr SavepointPassthrough e show ?thesis
      by (metis Pair_inject snd_conv)
  qed
qed

text \<open>The engine's own statements; \<open>g\<close> is what happens to the checkout before the bookkeeping.\<close>

lemma engine_fit:
  assumes k: "co_fit k" "\<not> co_discard k" and q: "engine_sql (be_dialect B) pfs unk sql"
    and r: "run_on (be_simple_query B sql) (p, k) = (r, p1, k1)"
    and g: "co_conn k2 = co_conn k1" "co_tainted k2 = co_tainted k1"
  shows "co_fit (snd (after_statement B (isl r) (p2, k2)))"
proof -
  have f: "fit (co_tx_open k) (co_tainted k) (co_conn k)" using k by (simp add: co_fit_def)
  show ?thesis
    using simple_after [OF f r] q g by (intro statement_fit) auto
qed

lemma begin_fit:
  assumes "co_fit k" "\<not> co_discard k" "engine_sql (be_dialect B) pfs unk sql"
    and e: "begin_tx_with B tx sql (p, k) = (r, p', k')"
  shows "co_fit k'"
proof -
  obtain r1 p1 k1 where 1: "run_on (be_simple_query B sql) (p, k) = (r1, p1, k1)" by (metis prod_cases3)
  obtain p2 k2 where 2: "(if isl r1 then (p1, k1) else set_tx_open True (set_cause CauseTx (pin_to tx (p1, k1)))) = (p2, k2)"
    by fastforce
  have "co_conn k2 = co_conn k1" "co_tainted k2 = co_tainted k1"
    using 2 pin_to_frame [where tx = tx and p = p1 and k = k1]
      set_cause_frame [where c = CauseTx and p = "fst (pin_to tx (p1, k1))" and k = "snd (pin_to tx (p1, k1))"]
    by (auto simp: set_tx_open_def split: if_splits prod.splits)
  from engine_fit [OF assms(1-3) 1 this, of p2] show ?thesis
    using e 1 2 by (auto simp: begin_tx_with_def Let_def)
qed

lemma control_fit:
  assumes "co_fit k" "\<not> co_discard k" "engine_sql (be_dialect B) pfs unk sql"
    and e: "tx_control B sql (p, k) = (r, p', k')"
  shows "co_fit k'"
proof -
  obtain r1 p1 k1 where 1: "run_on (be_simple_query B sql) (p, k) = (r1, p1, k1)" by (metis prod_cases3)
  from engine_fit [OF assms(1-3) 1 refl refl, of p1] show ?thesis
    using e 1 by (auto simp: tx_control_def)
qed

lemma end_fit:
  assumes "co_fit k" "\<not> co_discard k" "engine_sql (be_dialect B) pfs unk sql"
    and e: "end_tx sql B (p, k) = (r, p', k')"
  shows "co_fit k'"
proof -
  obtain r1 p1 k1 where 1: "run_on (be_simple_query B sql) (p, k) = (r1, p1, k1)" by (metis prod_cases3)
  obtain p2 k2 where 2: "(if isl r1 then (p1, k1) else set_tx_open False (unpin (p1, k1))) = (p2, k2)"
    by fastforce
  have "co_conn k2 = co_conn k1" "co_tainted k2 = co_tainted k1"
    using 2 unpin_frame [where p = p1 and k = k1]
    by (auto simp: set_tx_open_def split: if_splits prod.splits)
  from engine_fit [OF assms(1-3) 1 this, of p2] show ?thesis
    using e 1 2 by (auto simp: end_tx_def Let_def)
qed

subsubsection \<open>Row streams\<close>

lemma query_stream_fit:
  assumes pf: "pool_fit p" and k: "co_fit k" "\<not> co_discard k"
    and e: "query_stream B sql params (p, k) = (r, p', k')"
  shows "session_fit (k', case r of Inr h \<Rightarrow> RowsOpen h | Inl _ \<Rightarrow> Ready)"
proof (cases "guard_tx_control B sql params k = Inr Proceed")
  case False
  then have "k' = k \<and> isl r"
    using e by (auto simp: query_stream_def split: sum.splits verdict.splits)
  with k show ?thesis by (cases r) simp_all
next
  case True
  obtain d w r' c where q: "be_query_stream B sql params (p_world p) (co_conn k) = (d, w, r', c)"
    by (metis prod_cases4)
  let ?p1 = "p\<lparr>p_world := w, p_clock := p_clock p + d\<rparr>" and ?k1 = "k\<lparr>co_conn := c\<rparr>"
  have run: "run_on (be_query_stream B sql params) (p, k) = (r', ?p1, ?k1)"
    by (simp add: run_on_def q)
  have inst: "in_step (co_conn k)" "\<not> co_tainted k \<Longrightarrow> unseen (co_conn k)"
    using k by (simp_all add: co_fit_def fit_def)
  show ?thesis
  proof (cases r')
    case (Inl x)
    have "co_fit (snd (finalize_stream B True sql (?p1, ?k1)))"
      unfolding finalize_stream_eq
      using stream_in_step [OF inst(1) q [unfolded Inl]] pf
      by (intro verdict_err_fit) (simp_all add: pool_fit_def)
    moreover have "isl r \<and> finalize_stream B True sql (?p1, ?k1) = (p', k')"
      using e True run Inl by (auto simp: query_stream_def)
    ultimately show ?thesis by (cases r) auto
  next
    case (Inr y)
    obtain cols rs where y: "y = (cols, rs)" by (cases y)
    have "r = Inr \<lparr>rh_rows = rs, rh_cols = cols, rh_sql = sql, rh_errored = False\<rparr> \<and> k' = ?k1"
      using e True run Inr y by (auto simp: query_stream_def)
    moreover have "streaming (co_conn k) sql c rs"
      using stream_law [OF inst(1)] q Inr y by blast
    ultimately show ?thesis using inst(2) by (auto simp: rows.alive_def)
  qed
qed

lemma stream_next_fit:
  assumes k: "session_fit (k, RowsOpen h)" "\<not> co_discard k"
    and e: "stream_next B h (p, k) = (item, h', p', k')"
  shows "session_fit (k', RowsOpen h')"
proof -
  obtain d w i c rs where q: "be_row_next B (p_world p) (co_conn k) (rh_rows h) = (d, w, i, c, rs)"
    by (metis prod_cases5)
  obtain c0 where c0: "rows.alive c0 (rh_sql h) (rh_errored h) (co_conn k) (rh_rows h)"
    "\<not> co_tainted k \<longrightarrow> unseen c0" using k by auto
  from rows.alive_pull [OF c0(1) q] c0(2) show ?thesis
    using e q by (auto simp: stream_next_def)
qed

lemma stream_finish_fit:
  assumes pf: "pool_fit p" and k: "session_fit (k, RowsOpen h)" "\<not> co_discard k"
    and e: "stream_finish B h (p, k) = (x, p', k')"
  shows "co_fit k'"
proof -
  let ?bound = "checkout_timeout (p_config p)"
  obtain items left w c rs where dr:
    "drain_within (be_row_next B) ?bound (p_world p) (co_conn k) (rh_rows h) = (items, left, w, c, rs)"
    by (metis prod_cases5)
  obtain c0 where c0: "rows.alive c0 (rh_sql h) (rh_errored h) (co_conn k) (rh_rows h)"
    "\<not> co_tainted k \<longrightarrow> unseen c0" using k by auto
  show ?thesis
  proof (cases left)
    case None
    let ?pk = "(p\<lparr>p_world := w, p_clock := p_clock p + ?bound\<rparr>, k\<lparr>co_conn := c, co_discard := True\<rparr>)"
    have "finalize_stream B True (rh_sql h) ?pk = (p', k')"
      using e dr None by (simp add: stream_finish_def Let_def)
    then have "co_discard k'" using keeps_finalize [of ?pk B True "rh_sql h"] by (simp add: keeps_def)
    then show ?thesis by (simp add: co_fit_def)
  next
    case (Some rem)
    obtain d w' r c' where rc: "be_reclaim_stream B rs w c = (d, w', r, c')" by (metis prod_cases4)
    let ?failed = "?bound < d \<or> isl r"
    let ?err = "?failed \<or> rh_errored h \<or> list_ex isl items"
    let ?p = "p\<lparr>p_world := w', p_clock := p_clock p + (?bound - rem) + min d ?bound\<rparr>"
    let ?k = "k\<lparr>co_conn := c', co_discard := co_discard k \<or> ?failed\<rparr>"
    have fin: "after_verdict B Proceed (rh_sql h) ?err (?p, ?k) = (p', k')"
      using e dr Some rc by (simp add: stream_finish_def Let_def finalize_stream_eq)
    show ?thesis
    proof (cases ?failed)
      case True
      then have "co_discard k'" using after_verdict_frame(5) [of B Proceed "rh_sql h" ?err ?p ?k] fin by simp
      then show ?thesis by (simp add: co_fit_def)
    next
      case False
      then obtain y where y: "r = Inr y" by (cases r) auto
      note dd = rows.drain_alive [OF c0(1) dr [unfolded Some]]
      have "co_fit (snd (after_verdict B Proceed (rh_sql h) ?err (?p, ?k)))"
      proof (rule verdict_fit)
        show "pool_fit ?p" using pf by (simp add: pool_fit_def)
        show "in_step (co_conn ?k)"
          using dd reclaim_over [OF _ rc [unfolded y]] idle_stream [OF _ rc [unfolded y]]
          by (auto split: if_splits)
        assume ne: "\<not> ?err"
        then have dr': "drained c0 (rh_sql h) c rs" using dd by simp
        show "be_tx_status B (co_conn ?k) = Idle \<Longrightarrow> no_tx (co_conn ?k)"
          using idle_stream [OF dr' rc [unfolded y]] by simp
        assume "\<not> co_tainted ?k" "Proceed = Proceed \<Longrightarrow> classify (rh_sql h) (be_dialect B) pfs unk = None"
          "\<not> fst (be_take_session_mutated B (co_conn ?k))"
        then show "unseen (co_conn ?k)" using quiet_stream [OF _ dr' rc [unfolded y]] c0(2) by simp
      qed
      then show ?thesis using fin by simp
    qed
  qed
qed

subsubsection \<open>COPY\<close>

lemma copy_open_failed_fit:
  assumes "pool_fit p" "is_sql_error e \<Longrightarrow> in_step (co_conn k)"
  shows "co_fit (snd (copy_open_failed B e sql (p, k)))"
proof (cases "is_sql_error e")
  case True
  then show ?thesis using assms verdict_err_fit by (simp add: copy_open_failed_def finalize_stream_eq)
next
  case False
  then have "co_discard (snd (copy_open_failed B e sql (p, k)))"
    by (simp add: copy_open_failed_def finalize_stream_eq pool_frame)
  then show ?thesis by (simp add: co_fit_def)
qed

lemma copy_in_fit:
  assumes pf: "pool_fit p" and k: "co_fit k" "\<not> co_discard k"
    and e: "copy_in B sql (p, k) = (r, p', k')"
  shows "session_fit (k', case r of Inr h \<Rightarrow> SinkOpen h | Inl _ \<Rightarrow> Ready)"
proof (cases "guard_copy B sql In")
  case (Inl x)
  with e k show ?thesis by (auto simp: copy_in_def)
next
  case (Inr u)
  obtain d w r' c where q: "be_copy_in B sql (p_world p) (co_conn k) = (d, w, r', c)"
    by (metis prod_cases4)
  let ?p1 = "p\<lparr>p_world := w, p_clock := p_clock p + d\<rparr>" and ?k1 = "k\<lparr>co_conn := c\<rparr>"
  have run: "run_on (be_copy_in B sql) (p, k) = (r', ?p1, ?k1)" by (simp add: run_on_def q)
  have inst: "in_step (co_conn k)" "\<not> co_tainted k \<Longrightarrow> unseen (co_conn k)"
    using k by (simp_all add: co_fit_def fit_def)
  show ?thesis
  proof (cases r')
    case (Inl x)
    have "co_fit (snd (copy_open_failed B x sql (?p1, ?k1)))"
      using copy_in_in_step [OF inst(1) q [unfolded Inl]] pf
      by (intro copy_open_failed_fit) (simp_all add: pool_fit_def)
    then show ?thesis using e Inr run Inl by (auto simp: copy_in_def)
  next
    case (Inr s)
    have "sinking (co_conn k) sql c s" using sink_law [OF inst(1)] q Inr by blast
    then show ?thesis
      using e \<open>guard_copy B sql In = Inr u\<close> run Inr inst(2) by (auto simp: copy_in_def)
  qed
qed

lemma copy_send_fit:
  assumes k: "session_fit (k, SinkOpen s)" "\<not> co_discard k"
    and e: "copy_in_send B chunk s (p, k) = (u, s', p', k')"
  shows "session_fit (k', SinkOpen s')"
proof -
  obtain d w r c i where q: "be_sink_send B chunk (p_world p) (co_conn k) (ci_sink s) = (d, w, r, c, i)"
    by (metis prod_cases5)
  obtain c0 where c0: "sinking c0 (ci_sql s) (co_conn k) (ci_sink s)" "\<not> co_tainted k \<longrightarrow> unseen c0"
    using k by auto
  from send_law [OF c0(1) q] c0(2) show ?thesis using e q by (auto simp: copy_in_send_def)
qed

lemma copy_in_finish_fit:
  assumes pf: "pool_fit p" and k: "session_fit (k, SinkOpen s)" "\<not> co_discard k"
    and e: "copy_in_finish B s (p, k) = (n, p', k')"
  shows "co_fit k'"
proof -
  obtain d w r c where q: "be_sink_finish B (ci_sink s) (p_world p) (co_conn k) = (d, w, r, c)"
    by (metis prod_cases4)
  let ?p1 = "p\<lparr>p_world := w, p_clock := p_clock p + d\<rparr>" and ?k1 = "k\<lparr>co_conn := c\<rparr>"
  have run: "run_on (be_sink_finish B (ci_sink s)) (p, k) = (r, ?p1, ?k1)" by (simp add: run_on_def q)
  obtain c0 where c0: "sinking c0 (ci_sql s) (co_conn k) (ci_sink s)" "\<not> co_tainted k \<longrightarrow> unseen c0"
    using k by auto
  have "co_fit (snd (after_verdict B Proceed (ci_sql s) (isl r) (?p1, ?k1)))"
  proof (rule verdict_fit)
    show "pool_fit ?p1" using pf by (simp add: pool_fit_def)
    show "in_step (co_conn ?k1)" using sink_finish_in_step [OF c0(1) q] by simp
    assume "\<not> isl r"
    then obtain y where y: "r = Inr y" by (cases r) auto
    show "be_tx_status B (co_conn ?k1) = Idle \<Longrightarrow> no_tx (co_conn ?k1)"
      using idle_sink [OF c0(1) q [unfolded y]] by simp
    assume "\<not> co_tainted ?k1" "Proceed = Proceed \<Longrightarrow> classify (ci_sql s) (be_dialect B) pfs unk = None"
      "\<not> fst (be_take_session_mutated B (co_conn ?k1))"
    then show "unseen (co_conn ?k1)" using quiet_sink [OF _ c0(1) q [unfolded y]] c0(2) by simp
  qed
  then show ?thesis using e run by (auto simp: copy_in_finish_def finalize_stream_eq)
qed

lemma copy_in_abort_fit:
  assumes pf: "pool_fit p" and k: "session_fit (k, SinkOpen s)" "\<not> co_discard k"
  shows "co_fit (snd (copy_in_abort B s (p, k)))"
proof -
  let ?bound = "checkout_timeout (p_config p)"
  obtain d w r c where q: "be_sink_abort B (ci_sink s) (p_world p) (co_conn k) = (d, w, r, c)"
    by (metis prod_cases4)
  let ?p = "p\<lparr>p_world := w, p_clock := p_clock p + min d ?bound\<rparr>"
  let ?k = "k\<lparr>co_conn := c, co_discard := co_discard k \<or> ?bound < d \<or> isl r\<rparr>"
  have eq: "copy_in_abort B s (p, k) = after_verdict B Proceed (ci_sql s) True (?p, ?k)"
    using q by (simp add: copy_in_abort_def Let_def finalize_stream_eq)
  show ?thesis
  proof (cases "?bound < d \<or> isl r")
    case True
    then show ?thesis by (simp add: eq co_fit_def pool_frame)
  next
    case False
    then obtain y where y: "r = Inr y" by (cases r) auto
    obtain c0 where c0: "sinking c0 (ci_sql s) (co_conn k) (ci_sink s)" using k by auto
    have "in_step c" using sink_abort_law [OF c0 q [unfolded y]] .
    then show ?thesis unfolding eq using pf by (intro verdict_err_fit) (simp_all add: pool_fit_def)
  qed
qed

lemma copy_out_fit:
  assumes pf: "pool_fit p" and k: "co_fit k" "\<not> co_discard k"
    and e: "copy_out B sql (p, k) = (r, p', k')"
  shows "session_fit (k', case r of Inr h \<Rightarrow> SourceOpen h | Inl _ \<Rightarrow> Ready)"
proof (cases "guard_copy B sql Out")
  case (Inl x)
  with e k show ?thesis by (auto simp: copy_out_def)
next
  case (Inr u)
  obtain d w r' c where q: "be_copy_out B sql (p_world p) (co_conn k) = (d, w, r', c)"
    by (metis prod_cases4)
  let ?p1 = "p\<lparr>p_world := w, p_clock := p_clock p + d\<rparr>" and ?k1 = "k\<lparr>co_conn := c\<rparr>"
  have run: "run_on (be_copy_out B sql) (p, k) = (r', ?p1, ?k1)" by (simp add: run_on_def q)
  have inst: "in_step (co_conn k)" "\<not> co_tainted k \<Longrightarrow> unseen (co_conn k)"
    using k by (simp_all add: co_fit_def fit_def)
  show ?thesis
  proof (cases r')
    case (Inl x)
    have "co_fit (snd (copy_open_failed B x sql (?p1, ?k1)))"
      using copy_out_in_step [OF inst(1) q [unfolded Inl]] pf
      by (intro copy_open_failed_fit) (simp_all add: pool_fit_def)
    then show ?thesis using e Inr run Inl by (auto simp: copy_out_def)
  next
    case (Inr s)
    have "copying (co_conn k) sql c s" using copy_law [OF inst(1)] q Inr by blast
    then have "session_fit (?k1, SourceOpen \<lparr>cp_rows = s, cp_sql = sql, cp_errored = False\<rparr>)"
      using inst(2) by (auto simp: copies.alive_def intro!: exI [of _ "co_conn k"])
    then show ?thesis
      using e \<open>guard_copy B sql Out = Inr u\<close> run Inr by (auto simp: copy_out_def)
  qed
qed

lemma copy_next_fit:
  assumes k: "session_fit (k, SourceOpen s)" "\<not> co_discard k"
    and e: "copy_out_next B s (p, k) = (item, s', p', k')"
  shows "session_fit (k', SourceOpen s')"
proof -
  obtain d w i c rs where q: "be_copy_next B (p_world p) (co_conn k) (cp_rows s) = (d, w, i, c, rs)"
    by (metis prod_cases5)
  obtain c0 where c0: "copies.alive c0 (cp_sql s) (cp_errored s) (co_conn k) (cp_rows s)"
    "\<not> co_tainted k \<longrightarrow> unseen c0" using k by auto
  from copies.alive_pull [OF c0(1) q] c0(2) show ?thesis
    using e q by (auto simp: copy_out_next_def)
qed

lemma copy_out_finish_fit:
  assumes pf: "pool_fit p" and k: "session_fit (k, SourceOpen s)" "\<not> co_discard k"
    and e: "copy_out_finish B s (p, k) = (n, p', k')"
  shows "co_fit k'"
proof -
  let ?bound = "checkout_timeout (p_config p)"
  obtain items left w c rs where dr:
    "drain_within (be_copy_next B) ?bound (p_world p) (co_conn k) (cp_rows s) = (items, left, w, c, rs)"
    by (metis prod_cases5)
  obtain c0 where c0: "copies.alive c0 (cp_sql s) (cp_errored s) (co_conn k) (cp_rows s)"
    "\<not> co_tainted k \<longrightarrow> unseen c0" using k by auto
  let ?p1 = "p\<lparr>p_world := w, p_clock := p_clock p + (case left of None \<Rightarrow> ?bound | Some rem \<Rightarrow> ?bound - rem)\<rparr>"
  let ?err = "(cp_errored s \<or> list_ex isl items) \<or> isl n"
  let ?k = "k\<lparr>co_conn := c, co_discard := co_discard k \<or> left = None\<rparr>"
  have fin: "after_verdict B Proceed (cp_sql s) ?err (?p1, ?k) = (p', k')"
    using e dr by (auto simp: copy_out_finish_def Let_def finalize_stream_eq)
  have p1: "same_stack p ?p1" by (simp add: same_stack_def)
  show ?thesis
  proof (cases left)
    case None
    then have "co_discard (snd (after_verdict B Proceed (cp_sql s) ?err (?p1, ?k)))" by (simp add: pool_frame)
    then show ?thesis using fin by (metis co_fit_def snd_conv)
  next
    case (Some rem)
    note dd = copies.drain_alive [OF c0(1) dr [unfolded Some]]
    have "co_fit (snd (after_verdict B Proceed (cp_sql s) ?err (?p1, ?k)))"
    proof (rule verdict_fit)
      show "pool_fit ?p1" using pool_fit_same_stack [OF pf p1] .
      show "in_step (co_conn ?k)"
        using dd copy_over_law idle_copy by (auto split: if_splits)
      assume ne: "\<not> ?err"
      then have dr': "copied c0 (cp_sql s) c rs" using dd by auto
      show "be_tx_status B (co_conn ?k) = Idle \<Longrightarrow> no_tx (co_conn ?k)"
        using idle_copy [OF dr'] by simp
      assume "\<not> co_tainted ?k" "Proceed = Proceed \<Longrightarrow> classify (cp_sql s) (be_dialect B) pfs unk = None"
        "\<not> fst (be_take_session_mutated B (co_conn ?k))"
      then show "unseen (co_conn ?k)" using quiet_copy [OF _ dr'] c0(2) by simp
    qed
    then show ?thesis using fin by (metis snd_conv)
  qed
qed

lemma rollback_timeout_fit:
  assumes "co_fit k" "\<not> co_discard k" "be_simple_query B ''ROLLBACK'' w (co_conn k) = (d, w', r, c)"
  shows "co_fit (k\<lparr>co_conn := c, co_tainted := True\<rparr>)"
  using assms(1,2) simple_in_step [OF _ assms(3)] rollback_keeps_law [OF assms(3)] by (auto simp: co_fit_def fit_def)

subsubsection \<open>Checkout, release and reaper\<close>

definition spotless :: "'c \<Rightarrow> bool" where
  "spotless c \<longleftrightarrow> in_step c \<and> no_tx c \<and> unseen c"

lemma recycled_spotless:
  assumes f: "fit (ic_tx_open ic) (ic_tainted ic) (ic_conn ic)" and r: "recycled_conn B ro bound ic c"
  shows "spotless c"
proof -
  obtain w d1 w1 c1 d2 w2 c2 d3 w3 u where
    undone: "rolled_back B (ic_tx_open ic) w (ic_conn ic) d1 w1 c1"
    and res: "session_reset B (ic_tainted ic) w1 c1 d2 w2 c2"
    and ro: "be_apply_readonly B ro w2 c2 = (d3, w3, Inr u, c)"
    using r unfolding recycled_conn_def by blast
  have c1: "in_step c1" "no_tx c1" "\<not> ic_tainted ic \<Longrightarrow> unseen c1"
    using f undone rollback_law [of w "ic_conn ic" d1 w1 _ c1] unseen_mono [of "ic_conn ic" c1]
    by (auto simp: fit_def rolled_back_def split: if_splits)
  have "spotless c2"
  proof (cases "ic_tainted ic")
    case True
    with res have "be_reset B Full w1 c1 = (d2, w2, Inr (), c2)" by (simp add: session_reset_def)
    from reset_full_law [OF this c1(1,2)] show ?thesis by (simp add: spotless_def unseen_empty)
  next
    case False
    show ?thesis
    proof (cases "be_clean_reset_profile B")
      case None
      with res False c1 show ?thesis by (simp add: session_reset_def spotless_def)
    next
      case (Some pr)
      with res False have "be_reset B pr w1 c1 = (d2, w2, Inr (), c2)" by (simp add: session_reset_def)
      from reset_clean_law [OF Some this c1(1,2)] c1(3) False unseen_mono show ?thesis
        unfolding spotless_def by blast
    qed
  qed
  with readonly_law [OF ro] unseen_mono show ?thesis unfolding spotless_def by blast
qed

lemma fresh_spotless: "fresh_conn B ro c \<Longrightarrow> spotless c"
proof -
  assume "fresh_conn B ro c"
  then obtain w d w' c0 d2 w2 u where
    1: "be_connect B w = (d, w', Inr c0)" and 2: "be_apply_readonly B ro w' c0 = (d2, w2, Inr u, c)"
    unfolding fresh_conn_def by blast
  from connect_law [OF 1] readonly_law [OF 2] show ?thesis by (simp add: spotless_def unseen_empty)
qed

lemma checkout_spotless:
  assumes "pool_fit p" "checkout_declared B ro p = (Inr k, p')"
  shows "spotless (co_conn k) \<and> co_fit k \<and> pool_fit p'"
proof -
  let ?q = "p\<lparr>p_permits := p_permits p - 1\<rparr>"
  have "checkout_loop B ro (p_clock p) ?q = (Inr k, p')"
    using assms(2) by (simp add: checkout_declared_def split: if_splits)
  from checkout_loop_Inr [OF this] have
    k: "starts_clean k" and cfg: "p_config p' = p_config p" and idle: "prefix (p_idle p') (p_idle p)"
    and src: "fresh_conn B ro (co_conn k) \<or>
      (\<exists>ic \<in> set (p_idle p). recycled_conn B ro (checkout_timeout (p_config p)) ic (co_conn k))"
    by simp_all
  have s: "spotless (co_conn k)"
    using src fresh_spotless recycled_spotless assms(1) unfolding pool_fit_def by blast
  moreover have "co_fit k" using s by (simp add: co_fit_def fit_def spotless_def)
  moreover have "pool_fit p'"
    using assms(1) cfg set_mono_prefix [OF idle] by (auto simp: pool_fit_def)
  ultimately show ?thesis by simp
qed

lemma checkout_refused_fit:
  "pool_fit p \<Longrightarrow> checkout_declared B ro p = (Inl e, p') \<Longrightarrow> pool_fit p'"
  using checkout_loop_Inl [of B ro "p_clock p" "p\<lparr>p_permits := p_permits p - 1\<rparr>" e p']
  by (auto simp: checkout_declared_def pool_fit_def split: if_splits)

lemma release_fit:
  assumes "pool_fit p" "co_fit k"
  shows "pool_fit (release B (p, k))"
proof -
  obtain p1 k1 where u: "unpin (p, k) = (p1, k1)" by fastforce
  note fr = unpin_frame [where p = p and k = k, unfolded u, simplified]
  show ?thesis
    using assms fr
    by (auto simp: release_def u Let_def pool_fit_def same_stack_def co_fit_def)
qed

lemma reap_step_fit:
  assumes pf: "pool_fit p" and r: "reap_step B p = (b, p')"
  shows "pool_fit p'"
proof (cases "p_permits p = 0 \<or> p_idle p = []")
  case True
  with assms show ?thesis by (simp add: reap_step_def)
next
  case False
  let ?ic = "last (p_idle p)"
  obtain d w x c where q: "be_ping B (p_world p) (ic_conn ?ic) = (d, w, x, c)" by (metis prod_cases4)
  have ic: "fit (ic_tx_open ?ic) (ic_tainted ?ic) (ic_conn ?ic)"
    using pf False by (auto simp: pool_fit_def)
  have rest: "\<forall>i \<in> set (butlast (p_idle p)). fit (ic_tx_open i) (ic_tainted i) (ic_conn i)"
    using pf in_set_butlastD [of _ "p_idle p"] unfolding pool_fit_def by blast
  have "fit (ic_tx_open ?ic) (ic_tainted ?ic) c" if nl: "\<not> isl x"
  proof -
    obtain u where "x = Inr u" using nl by (cases x) simp_all
    from ping_law [OF q [unfolded this]] ic unseen_mono [of "ic_conn ?ic" c] show ?thesis by (simp add: fit_def)
  qed
  then show ?thesis
    using r False q pf rest
    by (auto simp: reap_step_def Let_def pool_fit_def split: if_splits)
qed

lemma reap_loop_fit: "pool_fit p \<Longrightarrow> pool_fit (reap_loop n B p)"
proof (induction n arbitrary: p)
  case (Suc n)
  obtain b p' where s: "reap_step B p = (b, p')" by fastforce
  from reap_step_fit [OF Suc.prems s] Suc.IH s show ?case by (cases b) simp_all
qed simp

subsubsection \<open>Every reachable state is fit\<close>

lemma session_step_fit:
  assumes "session_step B pk ph pk' ph'" "pool_fit (fst pk)" "session_fit (snd pk, ph)" "\<not> co_discard (snd pk)"
  shows "session_fit (snd pk', ph')"
  using assms
proof (induction rule: session_step.induct)
  case (exec sql pk r pk')
  then show ?case using exec_fit [of "fst pk" "snd pk" sql r "fst pk'" "snd pk'"] by simp
next
  case (query sql params pk r pk')
  then show ?case using query_fit [of "fst pk" "snd pk" sql params r "fst pk'" "snd pk'"] by simp
next
  case (open_tx tx sql pk r pk')
  then show ?case using begin_fit [of "snd pk" sql tx "fst pk" r "fst pk'" "snd pk'"]
    by (simp add: engine_sql_for_def pool_fit_def)
next
  case (control sql pk r pk')
  then show ?case using control_fit [of "snd pk" sql "fst pk" r "fst pk'" "snd pk'"]
    by (simp add: engine_sql_for_def pool_fit_def)
next
  case (commit pk r pk')
  have "engine_sql (be_dialect B) pfs unk ''COMMIT''" by (rule engine_sql_savepoint; code_simp)
  with commit show ?case using end_fit [of "snd pk" "''COMMIT''" "fst pk" r "fst pk'" "snd pk'"]
    by (simp add: commit_tx_def)
next
  case (rollback pk r pk')
  have "engine_sql (be_dialect B) pfs unk ''ROLLBACK''" by (rule engine_sql_savepoint; code_simp)
  with rollback show ?case using end_fit [of "snd pk" "''ROLLBACK''" "fst pk" r "fst pk'" "snd pk'"]
    by (simp add: rollback_tx_def)
next
  case (rollback_timeout p k d w r c n)
  then show ?case using rollback_timeout_fit [of k "p_world p" d w r c] by (simp add: set_tainted_def)
next
  case (taint pk)
  then show ?case by (cases pk) (auto simp: set_tainted_def co_fit_def fit_def)
next
  case (discard pk)
  then show ?case by (cases pk) (simp add: discard_def co_fit_def)
next
  case (stream sql params pk h pk')
  then show ?case using query_stream_fit [of "fst pk" "snd pk" sql params "Inr h" "fst pk'" "snd pk'"] by simp
next
  case (stream_failed sql params pk e pk')
  then show ?case using query_stream_fit [of "fst pk" "snd pk" sql params "Inl e" "fst pk'" "snd pk'"] by simp
next
  case (stream_row h pk item h' pk')
  then show ?case using stream_next_fit [of "snd pk" h "fst pk" item h' "fst pk'" "snd pk'"] by simp
next
  case (stream_end h pk e pk')
  then show ?case using stream_finish_fit [of "fst pk" "snd pk" h e "fst pk'" "snd pk'"] by simp
next
  case (stream_drop pk h)
  then show ?case by (cases pk) (simp add: handle_abandon_def co_fit_def)
next
  case (copy_in sql pk s pk')
  then show ?case using copy_in_fit [of "fst pk" "snd pk" sql "Inr s" "fst pk'" "snd pk'"] by simp
next
  case (copy_in_failed sql pk e pk')
  then show ?case using copy_in_fit [of "fst pk" "snd pk" sql "Inl e" "fst pk'" "snd pk'"] by simp
next
  case (copy_send chunk s pk u s' pk')
  then show ?case using copy_send_fit [of "snd pk" s chunk "fst pk" u s' "fst pk'" "snd pk'"] by simp
next
  case (copy_finish s pk n pk')
  then show ?case using copy_in_finish_fit [of "fst pk" "snd pk" s n "fst pk'" "snd pk'"] by simp
next
  case (copy_abort pk s)
  then show ?case using copy_in_abort_fit [of "fst pk" "snd pk" s] by simp
next
  case (copy_in_drop pk s)
  then show ?case by (cases pk) (simp add: handle_abandon_def co_fit_def)
next
  case (copy_out sql pk s pk')
  then show ?case using copy_out_fit [of "fst pk" "snd pk" sql "Inr s" "fst pk'" "snd pk'"] by simp
next
  case (copy_out_failed sql pk e pk')
  then show ?case using copy_out_fit [of "fst pk" "snd pk" sql "Inl e" "fst pk'" "snd pk'"] by simp
next
  case (copy_chunk s pk x s' pk')
  then show ?case using copy_next_fit [of "snd pk" s "fst pk" x s' "fst pk'" "snd pk'"] by simp
next
  case (copy_out_end s pk n pk')
  then show ?case using copy_out_finish_fit [of "fst pk" "snd pk" s n "fst pk'" "snd pk'"] by simp
next
  case (copy_out_drop pk s)
  then show ?case by (cases pk) (simp add: handle_abandon_def co_fit_def)
qed

definition system_fit :: "('w, 'c, 'r, 'i, 'o) system \<Rightarrow> bool" where
  "system_fit s \<longleftrightarrow> pool_fit (fst s) \<and> (\<forall>x \<in> set (snd s). session_fit x)"

lemma pool_step_fit:
  assumes "pool_step B s s'" "system_fit s"
  shows "system_fit s'"
  using assms
proof (induction rule: pool_step.induct)
  case (checkout ro p k p' ss)
  then show ?case using checkout_spotless [of p ro k p'] by (simp add: system_fit_def)
next
  case (refused ro p e p' ss)
  then show ?case using checkout_refused_fit [of p ro e p'] by (simp add: system_fit_def)
next
  case (session i ss k ph p p' k' ph')
  have pre: "pool_fit p" "session_fit (k, ph)"
    using session by (auto simp: system_fit_def dest: nth_mem)
  have kp: "same_stack p p'" "co_discard k \<longrightarrow> co_discard k'"
    using session_step_keeps [OF session(3)] by (simp_all add: keeps_def)
  have "session_fit (k', ph')"
  proof (cases "co_discard k")
    case True
    with kp show ?thesis by (simp add: session_fit_discard)
  next
    case False
    then show ?thesis using session_step_fit [OF session(3)] pre by simp
  qed
  moreover have "pool_fit p'" using pool_fit_same_stack [OF pre(1) kp(1)] .
  ultimately show ?case using session(4) by (auto simp: system_fit_def dest: set_update_subset_insert [THEN subsetD])
next
  case (release i ss k p)
  have "pool_fit p" using release by (simp add: system_fit_def)
  moreover have "session_fit (ss ! i)" using release nth_mem [OF release(1)] unfolding system_fit_def by auto
  then have "co_fit k" using release(2) by simp
  ultimately show ?case using release_fit [of p k] release
    by (auto simp: system_fit_def dest: in_set_takeD in_set_dropD)
next
  case (reap p ss)
  then show ?case using reap_loop_fit by (simp add: system_fit_def reap_once_def)
next
  case (tick p ss w n)
  then show ?case by (simp add: system_fit_def pool_fit_def)
qed

lemma reachable_fit:
  assumes "reachable B cfg s" "pin_functions cfg = pfs" "pin_on_unknown cfg = unk"
  shows "system_fit s"
  using assms
proof (induction rule: reachable.induct)
  case (new w now)
  then show ?case by (simp add: system_fit_def pool_fit_def pool_new_def)
next
  case (step s s')
  then show ?case using pool_step_fit by blast
qed

lemma handed_out_spotless:
  assumes "reachable B cfg (p, ss)" "pin_functions cfg = pfs" "pin_on_unknown cfg = unk"
    and "checkout_declared B ro p = (Inr k, p')"
  shows "in_step (co_conn k) \<and> no_tx (co_conn k) \<and> unseen (co_conn k)"
  using reachable_fit [OF assms(1-3)] checkout_spotless [OF _ assms(4)]
  by (simp add: system_fit_def spotless_def)

lemma handed_out_residue:
  assumes "reachable B cfg (p, ss)" "pin_functions cfg = pfs" "pin_on_unknown cfg = unk"
    and "checkout_declared B ro p = (Inr k, p')"
  shows "in_step (co_conn k) \<and> no_tx (co_conn k) \<and>
    (\<forall>(sql, m) \<in> residue (co_conn k). \<not> m \<and> engine_sql (be_dialect B) pfs unk sql)"
  using handed_out_spotless [OF assms] unfolding unseen_def .

end

end
