(* ===== verification/Fate.thy ===== *)
theory Fate
  imports Pool_Backend
begin

text \<open>
  From a driver's error to the error a client sees: the registry's codes and branches
  (\<open>proto/registry.lock.json\<close>), the error maps of the three backends (\<open>ferro-backend-pg\<close>,
  \<open>ferro-backend-mysql\<close> and \<open>ferro-backend-sqlite\<close>, each \<open>error_map.rs\<close>), and the write-fate matrix
  (\<open>ferrod/src/services/fate.rs\<close>).

  The driver crates are not part of the repository; an error of theirs is what the code reads of it:
  for \<open>tokio_postgres\<close> whether there is a server error and its severity, SQLSTATE and message, for
  \<open>mysql_async\<close> the server error or that the error is fatal, for \<open>rusqlite\<close> the extended result code
  and message of a failure, or the text of any other error.
\<close>

unbundle bit_operations_syntax

subsection \<open>Codes and branches\<close>

definition branch_indeterminate :: "8 word" where "branch_indeterminate = 2"
definition branch_non_retryable :: "8 word" where "branch_non_retryable = 3"

datatype errc =
    EConnectionLost | EPoolTimeout | ETxDeadline | EDeadlock | ESerializationFailure | EWriteUnconfirmed
  | ESyntax | EUnique | EForeignKey | ENotNull | ECheck | EAuth | ECancelled | EProtocol | EUnsupported
  | EForbidden | EReplicaUnavailable | EUpstreamUnavailable | ERateLimited | EQueryTimeout | ETxNotFound
  | ETlsRefused | EResponseIncomplete | ELeaseLost | EPoolMismatch | EInvalidHandle

fun errc_code :: "errc \<Rightarrow> 16 word" where
  "errc_code EConnectionLost = 4097"
| "errc_code EPoolTimeout = 4098"
| "errc_code ETxDeadline = 4099"
| "errc_code EDeadlock = 4100"
| "errc_code ESerializationFailure = 4101"
| "errc_code EWriteUnconfirmed = 8193"
| "errc_code ESyntax = 12289"
| "errc_code EUnique = 12290"
| "errc_code EForeignKey = 12291"
| "errc_code ENotNull = 12292"
| "errc_code ECheck = 12293"
| "errc_code EAuth = 12294"
| "errc_code ECancelled = 12296"
| "errc_code EProtocol = 12297"
| "errc_code EUnsupported = 12298"
| "errc_code EForbidden = 12300"
| "errc_code EReplicaUnavailable = 4102"
| "errc_code EUpstreamUnavailable = 4103"
| "errc_code ERateLimited = 4104"
| "errc_code EQueryTimeout = 12295"
| "errc_code ETxNotFound = 12299"
| "errc_code ETlsRefused = 12301"
| "errc_code EResponseIncomplete = 12302"
| "errc_code ELeaseLost = 12303"
| "errc_code EPoolMismatch = 12304"
| "errc_code EInvalidHandle = 12305"

fun errc_branch :: "errc \<Rightarrow> 8 word" where
  "errc_branch EConnectionLost = 1"
| "errc_branch EPoolTimeout = 1"
| "errc_branch ETxDeadline = 1"
| "errc_branch EDeadlock = 1"
| "errc_branch ESerializationFailure = 1"
| "errc_branch EWriteUnconfirmed = 2"
| "errc_branch ESyntax = 3"
| "errc_branch EUnique = 3"
| "errc_branch EForeignKey = 3"
| "errc_branch ENotNull = 3"
| "errc_branch ECheck = 3"
| "errc_branch EAuth = 3"
| "errc_branch ECancelled = 3"
| "errc_branch EProtocol = 3"
| "errc_branch EUnsupported = 3"
| "errc_branch EForbidden = 3"
| "errc_branch EReplicaUnavailable = 1"
| "errc_branch EUpstreamUnavailable = 1"
| "errc_branch ERateLimited = 1"
| "errc_branch EQueryTimeout = 3"
| "errc_branch ETxNotFound = 3"
| "errc_branch ETlsRefused = 3"
| "errc_branch EResponseIncomplete = 3"
| "errc_branch ELeaseLost = 3"
| "errc_branch EPoolMismatch = 3"
| "errc_branch EInvalidHandle = 3"

text \<open>\<open>PoolError::errc\<close>.\<close>

definition pool_errc :: "pool_error \<Rightarrow> 16 word" where
  "pool_errc e =
     (case e of
        Timeout \<Rightarrow> errc_code EPoolTimeout
      | ConnectionLost \<Rightarrow> errc_code EConnectionLost
      | Unsupported _ \<Rightarrow> errc_code EUnsupported
      | Closed \<Rightarrow> errc_code EProtocol
      | Backend _ \<Rightarrow> errc_code EProtocol
      | Sql s \<Rightarrow> se_code s)"

definition sql_err :: "errc \<Rightarrow> string option \<Rightarrow> 32 word option \<Rightarrow> string \<Rightarrow> pool_error" where
  "sql_err c state errno msg =
     Sql \<lparr>se_code = errc_code c, se_branch = errc_branch c, se_sqlstate = state, se_errno = errno,
          se_message = msg\<rparr>"

subsection \<open>PostgreSQL\<close>

datatype severity = SevFatal | SevPanic | SevOther

record pg_db_error =
  pg_severity :: "severity option"
  pg_code :: string
  pg_message :: string

definition pg_is_session_fatal :: "pg_db_error option \<Rightarrow> bool" where
  "pg_is_session_fatal e =
     (case e of
        None \<Rightarrow> True
      | Some db \<Rightarrow> pg_severity db = Some SevFatal \<or> pg_severity db = Some SevPanic)"

definition classify_sqlstate :: "string \<Rightarrow> errc" where
  "classify_sqlstate code =
     (if code = ''23505'' then EUnique
      else if code = ''40001'' then ESerializationFailure
      else if code = ''40P01'' then EDeadlock
      else if code = ''57014'' then ECancelled
      else if prefix ''42'' code then ESyntax
      else if prefix ''08'' code then EConnectionLost
      else EProtocol)"

definition pg_map :: "pg_db_error option \<Rightarrow> pool_error" where
  "pg_map e =
     (if pg_is_session_fatal e then ConnectionLost
      else (case e of
              Some db \<Rightarrow> sql_err (classify_sqlstate (pg_code db)) (Some (pg_code db)) None (pg_message db)
            | None \<Rightarrow> ConnectionLost))"

subsection \<open>MySQL and MariaDB\<close>

datatype mysql_error = MyServer "16 word" string string | MyFatal

definition classify_by_sqlstate_class :: "string \<Rightarrow> errc" where
  "classify_by_sqlstate_class sqlstate =
     (if sqlstate = ''40001'' then ESerializationFailure
      else if prefix ''42'' sqlstate then ESyntax
      else ESyntax)"

definition classify_errno :: "16 word \<Rightarrow> string \<Rightarrow> errc" where
  "classify_errno errno sqlstate =
     (if errno = 1213 then EDeadlock
      else if errno = 1205 then ESerializationFailure
      else if errno = 1317 \<or> errno = 3024 \<or> errno = 1969 then ECancelled
      else if errno = 1062 \<or> errno = 1586 then EUnique
      else if errno = 1451 \<or> errno = 1452 then EForeignKey
      else if errno = 1048 \<or> errno = 1364 then ENotNull
      else if errno = 3819 \<or> errno = 4025 then ECheck
      else if errno = 1064 then ESyntax
      else if errno = 1044 \<or> errno = 1045 \<or> errno = 1142 \<or> errno = 1143 then EAuth
      else classify_by_sqlstate_class sqlstate)"

definition mysql_map :: "mysql_error \<Rightarrow> pool_error" where
  "mysql_map e =
     (case e of
        MyServer code state msg \<Rightarrow>
          sql_err (classify_errno code state) (Some state) (Some (ucast code)) msg
      | MyFatal \<Rightarrow> ConnectionLost)"

subsection \<open>SQLite\<close>

text \<open>The extended result code is an \<open>i32\<close>; its low byte is the primary code.\<close>

datatype sqlite_error = SqliteFailure "32 word" string | SqliteOther string

definition is_handle_fatal :: "32 word \<Rightarrow> bool" where
  "is_handle_fatal ext = (let p = ext AND 0xff in p = 10 \<or> p = 11 \<or> p = 7)"

definition classify_extended :: "32 word \<Rightarrow> errc" where
  "classify_extended ext =
     (if ext = 5 then ESerializationFailure
      else if ext = 517 then ESerializationFailure
      else if ext = 9 then ECancelled
      else if ext = 2067 \<or> ext = 1555 then EUnique
      else if ext = 787 then EForeignKey
      else if ext = 1299 then ENotNull
      else if ext = 275 then ECheck
      else
        (let p = ext AND 0xff in
         if p = 8 then EUnsupported
         else if p = 14 \<or> p = 26 then EUnsupported
         else if p = 6 then ESerializationFailure
         else if p = 3 \<or> p = 23 then EAuth
         else if p = 19 then ECheck
         else ESyntax))"

text \<open>\<open>explain\<close> stands for the explanations the code appends to the message of two codes.\<close>

definition sqlite_map :: "(32 word \<Rightarrow> string \<Rightarrow> string) \<Rightarrow> sqlite_error \<Rightarrow> pool_error" where
  "sqlite_map explain e =
     (case e of
        SqliteFailure ext msg \<Rightarrow>
          if is_handle_fatal ext then ConnectionLost
          else sql_err (classify_extended ext) None (Some ext) (explain ext msg)
      | SqliteOther msg \<Rightarrow> sql_err ESyntax None None msg)"

subsection \<open>The write-fate matrix\<close>

record op_context =
  oc_readonly :: bool
  oc_sent :: bool
  oc_in_tx :: bool

text \<open>The messages of the matrix, one constructor per text of the source.\<close>

datatype fate_message =
    TxStatementCancelled | StatementCancelled | WriteCancelledAfterDispatch | CancelledBeforeEffect
  | LostDuringWrite | LostKnownFate | PoolWaitTimedOut | PoolIsClosed
  | QueueRolledBack | QueueCancelledUnsent | QueueWriteRolledBack string string string

text \<open>The messages of the HTTP table (\<open>ferro-http/src/fate.rs\<close>), one constructor per text.\<close>

datatype http_message =
    PolicyRefused | NotSent | Unsent | DeadlineUnsent | DeadlineDispatched | LinkLostIdem | LinkLostWrite
  | TimeoutIdem | TimeoutWrite | BodyIdem | BodyWrite | DrainUnsent | DrainIdem | DrainWrite | DrainBody
  | DecodeFailed | ResponseTooLarge | BodyIdle | TimedOutDelivering | Unreachable | TlsIdentityRefused

datatype message_text = Text string | RefusalText refusal | FateText fate_message | HttpText http_message

record error_payload =
  ep_code :: "16 word"
  ep_branch :: "8 word"
  ep_sqlstate :: "string option"
  ep_errno :: "32 word option"
  ep_message :: message_text
  ep_detail :: "string option"
  ep_retry_after_ms :: "32 word option"

definition is_57014 :: "pool_error \<Rightarrow> bool" where
  "is_57014 e =
     (case e of Sql s \<Rightarrow> se_sqlstate s = Some ''57014'' \<or> se_code s = errc_code ECancelled | _ \<Rightarrow> False)"

definition payload :: "errc \<Rightarrow> message_text \<Rightarrow> error_payload" where
  "payload c msg =
     \<lparr>ep_code = errc_code c, ep_branch = errc_branch c, ep_sqlstate = None, ep_errno = None,
      ep_message = msg, ep_detail = None, ep_retry_after_ms = None\<rparr>"

definition classify_fate :: "pool_error \<Rightarrow> op_context \<Rightarrow> error_payload" where
  "classify_fate e ctx =
     (if is_57014 e then
        (if oc_in_tx ctx then
           payload ETxDeadline (FateText TxStatementCancelled)
         else if oc_readonly ctx then payload ECancelled (FateText StatementCancelled)
         else if oc_sent ctx then
           payload EWriteUnconfirmed (FateText WriteCancelledAfterDispatch)
         else
           payload EConnectionLost (FateText CancelledBeforeEffect))
      else
        (case e of
           Sql s \<Rightarrow>
             \<lparr>ep_code = se_code s, ep_branch = se_branch s, ep_sqlstate = se_sqlstate s,
              ep_errno = se_errno s, ep_message = Text (se_message s), ep_detail = None,
              ep_retry_after_ms = None\<rparr>
         | ConnectionLost \<Rightarrow>
             if oc_sent ctx \<and> \<not> oc_readonly ctx \<and> \<not> oc_in_tx ctx then
               payload EWriteUnconfirmed (FateText LostDuringWrite)
             else payload EConnectionLost (FateText LostKnownFate)
         | Timeout \<Rightarrow> payload EPoolTimeout (FateText PoolWaitTimedOut)
         | Unsupported m \<Rightarrow> payload EUnsupported (RefusalText m)
         | Closed \<Rightarrow> payload EProtocol (FateText PoolIsClosed)
         | Backend m \<Rightarrow> payload EProtocol (Text m)))"

subsection \<open>What a client may conclude\<close>

lemma errc_branch_iff: "errc_branch c = 2 \<longleftrightarrow> c = EWriteUnconfirmed"
  by (cases c) simp_all

lemma errc_cancelled_iff: "errc_code c = errc_code ECancelled \<longleftrightarrow> c = ECancelled"
  by (cases c) simp_all

lemma maps_not_unconfirmed:
  "classify_sqlstate code \<noteq> EWriteUnconfirmed" "classify_errno n state \<noteq> EWriteUnconfirmed"
  "classify_extended ext \<noteq> EWriteUnconfirmed"
  by (simp_all add: classify_sqlstate_def classify_errno_def classify_by_sqlstate_class_def
      classify_extended_def Let_def)

text \<open>
  An error of one of the three drivers, what its backend reports for it, and when it leaves the fate of the
  statement unknown: the connection or the handle is gone (on PostgreSQL an error with no server message, or
  one of severity \<open>FATAL\<close> or \<open>PANIC\<close>; on MySQL any error that is not the server's; on SQLite
  \<open>SQLITE_NOMEM\<close>, \<open>SQLITE_IOERR\<close> and \<open>SQLITE_CORRUPT\<close>), or the server stopped the statement (SQLSTATE 57014;
  the MySQL codes of a killed or timed out statement; \<open>SQLITE_INTERRUPT\<close>).
\<close>

datatype driver_error = PgError "pg_db_error option" | MysqlError mysql_error | SqliteError sqlite_error

fun backend_error :: "(32 word \<Rightarrow> string \<Rightarrow> string) \<Rightarrow> driver_error \<Rightarrow> pool_error" where
  "backend_error explain (PgError e) = pg_map e"
| "backend_error explain (MysqlError e) = mysql_map e"
| "backend_error explain (SqliteError e) = sqlite_map explain e"

fun leaves_fate_open :: "driver_error \<Rightarrow> bool" where
  "leaves_fate_open (PgError None) \<longleftrightarrow> True"
| "leaves_fate_open (PgError (Some db)) \<longleftrightarrow>
     pg_severity db = Some SevFatal \<or> pg_severity db = Some SevPanic \<or> pg_code db = ''57014''"
| "leaves_fate_open (MysqlError MyFatal) \<longleftrightarrow> True"
| "leaves_fate_open (MysqlError (MyServer code state msg)) \<longleftrightarrow>
     code = 1317 \<or> code = 3024 \<or> code = 1969 \<or> state = ''57014''"
| "leaves_fate_open (SqliteError (SqliteFailure ext msg)) \<longleftrightarrow>
     uint ext mod 256 = 7 \<or> uint ext mod 256 = 10 \<or> uint ext mod 256 = 11 \<or> ext = 9"
| "leaves_fate_open (SqliteError (SqliteOther msg)) \<longleftrightarrow> False"

lemma sql_err_fate:
  assumes "c \<noteq> EWriteUnconfirmed"
  shows "ep_branch (classify_fate (sql_err c state errno msg) ctx) = branch_indeterminate \<longleftrightarrow>
    oc_sent ctx \<and> \<not> oc_readonly ctx \<and> \<not> oc_in_tx ctx \<and> (state = Some ''57014'' \<or> c = ECancelled)"
  using assms
  by (simp add: classify_fate_def sql_err_def is_57014_def payload_def branch_indeterminate_def errc_cancelled_iff [simplified] errc_branch_iff)

lemma lost_fate:
  "ep_branch (classify_fate ConnectionLost ctx) = branch_indeterminate \<longleftrightarrow>
    oc_sent ctx \<and> \<not> oc_readonly ctx \<and> \<not> oc_in_tx ctx"
  by (simp add: classify_fate_def is_57014_def payload_def branch_indeterminate_def)

lemma cancelled_classes:
  "classify_sqlstate state = ECancelled \<longleftrightarrow> state = ''57014''"
  "classify_errno code state = ECancelled \<longleftrightarrow> code = 1317 \<or> code = 3024 \<or> code = 1969"
  "classify_extended ext = ECancelled \<longleftrightarrow> ext = 9"
  by (auto simp: classify_sqlstate_def classify_errno_def classify_by_sqlstate_class_def classify_extended_def Let_def)

lemma low_byte: "ext AND 0xff = n \<longleftrightarrow> uint ext mod 256 = uint n" for ext n :: "32 word"
proof -
  have "uint (ext AND 0xff) = uint ext mod 256"
    using take_bit_eq_mask [of 8 "uint ext"] by (simp add: uint_and take_bit_eq_mod mask_eq_exp_minus_1)
  then show ?thesis by (metis word_uint_eq_iff)
qed

text \<open>
  C7: a write whose fate is unknown is reported as indeterminate, and nothing else is. For every error a
  driver can hand to its backend, through the error map of that backend and the write-fate matrix, the
  payload's branch is \<open>Indeterminate\<close> exactly when the statement was dispatched, was not declared
  read-only, did not run in a transaction, and the driver's error leaves its fate open: the connection
  or handle is gone, or the server stopped the statement. So a client is never told to retry a write
  that may have applied, and never left in doubt about one the server refused.
\<close>

theorem indeterminate_iff_fate_unknown:
  "ep_branch (classify_fate (backend_error explain e) ctx) = branch_indeterminate \<longleftrightarrow>
   oc_sent ctx \<and> \<not> oc_readonly ctx \<and> \<not> oc_in_tx ctx \<and> leaves_fate_open e"
proof (cases e)
  case (PgError d)
  then show ?thesis
    by (cases d) (auto simp: pg_map_def pg_is_session_fatal_def lost_fate sql_err_fate maps_not_unconfirmed cancelled_classes)
next
  case (MysqlError d)
  then show ?thesis
    by (cases d) (auto simp: mysql_map_def lost_fate sql_err_fate maps_not_unconfirmed cancelled_classes)
next
  case (SqliteError d)
  show ?thesis
  proof (cases d)
    case (SqliteFailure ext msg)
    with SqliteError show ?thesis
      by (auto simp: sqlite_map_def is_handle_fatal_def Let_def low_byte lost_fate sql_err_fate maps_not_unconfirmed
          cancelled_classes)
  next
    case (SqliteOther msg)
    with SqliteError show ?thesis by (simp add: sqlite_map_def sql_err_fate)
  qed
qed

text \<open>
  Inside a transaction every failure that ends it is reported as retryable: a cancelled or timed
  out statement and a lost connection have the known outcome that the transaction will never commit.
\<close>

theorem in_tx_loss_is_retryable:
  "oc_in_tx ctx \<and> (e = ConnectionLost \<or> is_57014 e) \<longrightarrow>
   ep_branch (classify_fate e ctx) = branch_retryable \<and> ep_errno (classify_fate e ctx) = None \<and>
   ep_sqlstate (classify_fate e ctx) = None"
  by (auto simp: classify_fate_def payload_def branch_retryable_def is_57014_def)

theorem in_tx_loss_is_retryable_witness:
  "ep_branch (classify_fate (pg_map None) \<lparr>oc_readonly = False, oc_sent = True, oc_in_tx = True\<rparr>) = 1"
  using in_tx_loss_is_retryable [of "\<lparr>oc_readonly = False, oc_sent = True, oc_in_tx = True\<rparr>" "pg_map None"]
  by (simp add: pg_map_def pg_is_session_fatal_def branch_retryable_def)

end
