(* ===== verification/Fake.thy ===== *)
theory Fake
  imports Pool_Contract Fate
begin

text \<open>
  The in-memory backend of \<open>engine/crates/ferro-pool/src/fake.rs\<close>: its connection, its row stream,
  its armed knobs, and its \<open>PoolBackend\<close> operations. It instantiates the backend contract, so every
  fact the contract gives holds of pools over it.

  A gate or a hang (a \<open>Notify\<close> a call parks on) is the number of microseconds the call stays
  parked; the query gate also says whether a cancel released it. The counters of calls that are
  parked at the moment return to their value when the call ends and are left out, as are
  \<open>created_at\<close> of the connection, which nothing reads, and the cancel handles.
  \<open>dialect\<close> and \<open>clean_reset_profile\<close> are set once and are arguments of the backend.
\<close>

subsection \<open>State\<close>

record fake_conn =
  fc_id :: "64 word"
  fc_closed :: bool
  fc_recorded :: "string list"
  fc_leaf_log :: "string list"
  fc_tx_open :: bool
  fc_fail_next_ping :: bool
  fc_fail_next_simple_query :: bool
  fc_session_mutated :: bool
  fc_tx_status :: tx_status

record stream_script =
  sc_cols :: "col_meta list"
  sc_rows :: "val list list"
  sc_affected :: "64 word"
  sc_error_at :: "nat option"

record fake_row_stream =
  fs_rows :: "val list list"
  fs_affected :: "64 word"
  fs_error_at :: "nat option"
  fs_emitted :: nat
  fs_done :: bool

record fake_world =
  fw_next_id :: "64 word"
  fw_fail_connect_remaining :: "64 word"
  fw_connect_hang :: "nat option"
  fw_ping_gate :: "nat option"
  fw_canned_query :: query_result
  fw_simple_query_gate :: "nat option"
  fw_query_gate :: "(nat \<times> bool) option"
  fw_canned_query_err :: "pool_error option"
  fw_stream_script :: stream_script
  fw_stream_pulls :: "64 word"
  fw_stream_open_gate :: "nat option"
  fw_stream_pull_gate :: "nat option"
  fw_reclaim_hang :: "nat option"
  fw_reclaim_fail :: bool

definition stream_script_default :: stream_script where
  "stream_script_default = \<lparr>sc_cols = [], sc_rows = [], sc_affected = 0, sc_error_at = None\<rparr>"

definition fake_new :: fake_world where
  "fake_new =
     \<lparr>fw_next_id = 0, fw_fail_connect_remaining = 0, fw_connect_hang = None, fw_ping_gate = None,
      fw_canned_query = query_result_default, fw_simple_query_gate = None, fw_query_gate = None,
      fw_canned_query_err = None, fw_stream_script = stream_script_default, fw_stream_pulls = 0,
      fw_stream_open_gate = None, fw_stream_pull_gate = None, fw_reclaim_hang = None,
      fw_reclaim_fail = False\<rparr>"

definition parked :: "nat option \<Rightarrow> nat" where
  "parked g = (case g of None \<Rightarrow> 0 | Some n \<Rightarrow> n)"

text \<open>The knobs.\<close>

definition arm_fail_next_ping :: "fake_conn \<Rightarrow> fake_conn" where
  "arm_fail_next_ping c = c\<lparr>fc_fail_next_ping := True\<rparr>"

definition arm_fail_next_simple_query :: "fake_conn \<Rightarrow> fake_conn" where
  "arm_fail_next_simple_query c = c\<lparr>fc_fail_next_simple_query := True\<rparr>"

definition arm_session_mutated :: "fake_conn \<Rightarrow> fake_conn" where
  "arm_session_mutated c = c\<lparr>fc_session_mutated := True\<rparr>"

definition set_tx_status :: "tx_status \<Rightarrow> fake_conn \<Rightarrow> fake_conn" where
  "set_tx_status st c = c\<lparr>fc_tx_status := st\<rparr>"

definition arm_fail_connect :: "64 word \<Rightarrow> fake_world \<Rightarrow> fake_world" where
  "arm_fail_connect n w = w\<lparr>fw_fail_connect_remaining := n\<rparr>"

definition set_query_result :: "query_result \<Rightarrow> fake_world \<Rightarrow> fake_world" where
  "set_query_result q w = w\<lparr>fw_canned_query := q\<rparr>"

definition arm_next_query_err :: "pool_error \<Rightarrow> fake_world \<Rightarrow> fake_world" where
  "arm_next_query_err e w = w\<lparr>fw_canned_query_err := Some e\<rparr>"

definition set_stream_script :: "stream_script \<Rightarrow> fake_world \<Rightarrow> fake_world" where
  "set_stream_script s w = w\<lparr>fw_stream_script := s\<rparr>"

definition arm_reclaim_fail :: "fake_world \<Rightarrow> fake_world" where
  "arm_reclaim_fail w = w\<lparr>fw_reclaim_fail := True\<rparr>"

subsection \<open>Operations\<close>

definition apply_leading_tx_verb :: "string \<Rightarrow> fake_conn \<Rightarrow> fake_conn" where
  "apply_leading_tx_verb sql c =
     (case leading_tx_verb sql of
        Some VerbOpen \<Rightarrow> c\<lparr>fc_tx_status := InTx\<rparr>
      | Some VerbClose \<Rightarrow> c\<lparr>fc_tx_status := Idle\<rparr>
      | None \<Rightarrow> c)"

definition fake_connect :: "fake_world \<Rightarrow> nat \<times> fake_world \<times> fake_conn result" where
  "fake_connect w =
     (let d = parked (fw_connect_hang w) in
      if fw_fail_connect_remaining w > 0
      then (d, w\<lparr>fw_fail_connect_remaining := fw_fail_connect_remaining w - 1\<rparr>, Inl ConnectionLost)
      else (d, w\<lparr>fw_next_id := fw_next_id w + 1\<rparr>,
            Inr \<lparr>fc_id = fw_next_id w, fc_closed = False, fc_recorded = [], fc_leaf_log = [],
                 fc_tx_open = False, fc_fail_next_ping = False, fc_fail_next_simple_query = False,
                 fc_session_mutated = False, fc_tx_status = Idle\<rparr>))"

definition fake_ping :: "(fake_world, fake_conn, unit result) async" where
  "fake_ping w c =
     (if fc_fail_next_ping c then (0, w, Inl ConnectionLost, c\<lparr>fc_fail_next_ping := False\<rparr>)
      else (parked (fw_ping_gate w), w, Inr (), c))"

definition fake_take_session_mutated :: "fake_conn \<Rightarrow> bool \<times> fake_conn" where
  "fake_take_session_mutated c = (fc_session_mutated c, c\<lparr>fc_session_mutated := False\<rparr>)"

fun profile_name :: "reset_profile \<Rightarrow> string" where
  "profile_name Full = ''Full''"
| "profile_name Targeted = ''Targeted''"

definition fake_reset :: "reset_profile \<Rightarrow> (fake_world, fake_conn, unit result) async" where
  "fake_reset profile w c =
     (0, w, Inr (),
      c\<lparr>fc_tx_open := False, fc_recorded := fc_recorded c @ [''RESET:'' @ profile_name profile]\<rparr>)"

definition recording :: "string \<Rightarrow> string \<Rightarrow> fake_conn \<Rightarrow> fake_conn" where
  "recording leaf sql c =
     apply_leading_tx_verb sql
       (c\<lparr>fc_recorded := fc_recorded c @ [sql], fc_leaf_log := fc_leaf_log c @ [leaf @ sql]\<rparr>)"

definition fake_simple_query :: "string \<Rightarrow> (fake_world, fake_conn, 64 word result) async" where
  "fake_simple_query sql w c =
     (let c1 = recording ''TEXT:'' sql c in
      if fc_fail_next_simple_query c1
      then (0, w, Inl (Backend ''fake: armed simple_query failure''),
            c1\<lparr>fc_fail_next_simple_query := False\<rparr>)
      else (parked (fw_simple_query_gate w), w, Inr 0, c1))"

definition fake_query ::
  "string \<Rightarrow> val list \<Rightarrow> (fake_world, fake_conn, query_result result) async" where
  "fake_query sql params w c =
     (let c1 = recording ''PREPARED:'' sql c in
      case fw_canned_query_err w of
        Some e \<Rightarrow> (0, w\<lparr>fw_canned_query_err := None\<rparr>, Inl e, c1)
      | None \<Rightarrow>
          (case fw_query_gate w of
             Some (d, True) \<Rightarrow>
               (d, w, Inl (Sql \<lparr>se_code = errc_code ECancelled, se_branch = branch_non_retryable,
                                se_sqlstate = Some ''57014'', se_errno = None,
                                se_message = ''canceling statement due to user request (fake)''\<rparr>), c1)
           | Some (d, False) \<Rightarrow> (d, w, Inr (fw_canned_query w), c1)
           | None \<Rightarrow> (0, w, Inr (fw_canned_query w), c1)))"

definition fake_query_stream ::
  "string \<Rightarrow> val list \<Rightarrow> (fake_world, fake_conn, (col_meta list \<times> fake_row_stream) result) async" where
  "fake_query_stream sql params w c =
     (let c1 = recording ''PREPARED:'' sql c; s = fw_stream_script w in
      (parked (fw_stream_open_gate w), w,
       Inr (sc_cols s, \<lparr>fs_rows = sc_rows s, fs_affected = sc_affected s, fs_error_at = sc_error_at s,
                        fs_emitted = 0, fs_done = False\<rparr>), c1))"

definition fake_next ::
  "fake_world \<Rightarrow> fake_conn \<Rightarrow> fake_row_stream \<Rightarrow>
   nat \<times> fake_world \<times> val list result option \<times> fake_conn \<times> fake_row_stream" where
  "fake_next w c s =
     (let d = parked (fw_stream_pull_gate w);
          w1 = w\<lparr>fw_stream_pulls := fw_stream_pulls w + 1\<rparr> in
      if fs_done s then (d, w1, None, c, s)
      else if fs_error_at s = Some (fs_emitted s)
      then (d, w1, Some (Inl (Backend ''fake: armed mid-stream row error'')), c, s\<lparr>fs_done := True\<rparr>)
      else (case fs_rows s of
              row # rows \<Rightarrow>
                (d, w1, Some (Inr row), c, s\<lparr>fs_rows := rows, fs_emitted := fs_emitted s + 1\<rparr>)
            | [] \<Rightarrow> (d, w1, None, c, s\<lparr>fs_done := True\<rparr>)))"

definition fake_reclaim_stream ::
  "fake_row_stream \<Rightarrow> (fake_world, fake_conn, reclaimed result) async" where
  "fake_reclaim_stream s w c =
     (if fw_reclaim_fail w then (0, w, Inl ConnectionLost, c\<lparr>fc_closed := True\<rparr>)
      else (parked (fw_reclaim_hang w), w,
            Inr \<lparr>rc_affected = fs_affected s, rc_last_insert_id = None\<rparr>, c))"

text \<open>
  The defaults of the trait that the fake keeps: read-only is not connection-scoped, and \<open>COPY\<close> is
  not supported. \<open>NoCopy\<close> has no value, so no sink or source of the fake exists; the operations on
  one are never reached.
\<close>

definition apply_readonly_default :: "bool \<Rightarrow> ('w, 'c, unit result) async" where
  "apply_readonly_default ro w c = (0, w, Inr (), c)"

definition copy_default :: "string \<Rightarrow> ('w, 'c, 'i result) async" where
  "copy_default sql w c = (0, w, Inl (Unsupported CopyNotSupported), c)"

definition fake_backend ::
  "dialect \<Rightarrow> reset_profile option \<Rightarrow> (fake_world, fake_conn, fake_row_stream, unit, unit) backend" where
  "fake_backend dia clean =
     \<lparr>be_connect = fake_connect, be_ping = fake_ping, be_is_closed = fc_closed, be_dialect = dia,
      be_tx_status = fc_tx_status, be_take_session_mutated = fake_take_session_mutated,
      be_apply_readonly = apply_readonly_default, be_supports_copy = False,
      be_clean_reset_profile = clean, be_reset = fake_reset, be_simple_query = fake_simple_query,
      be_query = fake_query, be_query_stream = fake_query_stream, be_row_next = fake_next,
      be_reclaim_stream = fake_reclaim_stream, be_copy_in = copy_default,
      be_sink_send = \<lambda>chunk w c s. (0, w, Inl (Unsupported CopyNotSupported), c, s),
      be_sink_finish = \<lambda>s w c. (0, w, Inl (Unsupported CopyNotSupported), c),
      be_sink_abort = \<lambda>s w c. (0, w, Inl (Unsupported CopyNotSupported), c),
      be_copy_out = copy_default,
      be_copy_next = \<lambda>w c s. (0, w, None, c, s),
      be_copy_rows_affected = \<lambda>s. 0\<rparr>"

subsection \<open>The fake keeps the backend contract\<close>

text \<open>
  The residue of a fake connection is what it recorded since its last full reset, with whether its
  tracker flag is up. The hygiene mark of a targeted reset is not a statement, and a \<open>ROLLBACK\<close> leaves
  nothing in a session.
\<close>

definition since_reset :: "fake_conn \<Rightarrow> string list" where
  "since_reset c = takeWhile (\<lambda>s. s \<noteq> ''RESET:Full'') (rev (fc_recorded c))"

definition leaves_nothing :: "string \<Rightarrow> bool" where
  "leaves_nothing s \<longleftrightarrow> s = ''RESET:Targeted'' \<or> s = ''ROLLBACK''"

definition fake_residue :: "fake_conn \<Rightarrow> (string \<times> bool) set" where
  "fake_residue c = {(s, fc_session_mutated c) | s. s \<in> set (since_reset c) \<and> \<not> leaves_nothing s}"

definition fake_streaming :: "fake_conn \<Rightarrow> string \<Rightarrow> fake_conn \<Rightarrow> fake_row_stream \<Rightarrow> bool" where
  "fake_streaming c0 sql c s \<longleftrightarrow>
     fc_recorded c = fc_recorded c0 @ [sql] \<and> fc_session_mutated c = fc_session_mutated c0 \<and> \<not> fs_done s"

definition fake_drained :: "fake_conn \<Rightarrow> string \<Rightarrow> fake_conn \<Rightarrow> fake_row_stream \<Rightarrow> bool" where
  "fake_drained c0 sql c s \<longleftrightarrow>
     fc_recorded c = fc_recorded c0 @ [sql] \<and> fc_session_mutated c = fc_session_mutated c0 \<and> fs_done s"

lemma apply_leading_tx_verb_frame [simp]:
  "fc_recorded (apply_leading_tx_verb sql c) = fc_recorded c"
  "fc_fail_next_simple_query (apply_leading_tx_verb sql c) = fc_fail_next_simple_query c"
  "fc_session_mutated (apply_leading_tx_verb sql c) = fc_session_mutated c"
  by (simp_all add: apply_leading_tx_verb_def split: option.split tx_verb.split)

lemma recording_recorded [simp]:
  "fc_recorded (recording leaf sql c) = fc_recorded c @ [sql]"
  "fc_session_mutated (recording leaf sql c) = fc_session_mutated c"
  by (simp_all add: recording_def)

lemma residue_recorded:
  "fc_recorded c' = fc_recorded c @ [sql] \<Longrightarrow> fc_session_mutated c' = fc_session_mutated c \<Longrightarrow>
   fake_residue c' \<subseteq> insert (sql, fc_session_mutated c') (fake_residue c)"
  by (auto simp: fake_residue_def since_reset_def)

lemma residue_unchanged:
  "fc_recorded c' = fc_recorded c @ [sql] \<Longrightarrow> fc_session_mutated c' = fc_session_mutated c \<Longrightarrow> leaves_nothing sql \<Longrightarrow>
   fake_residue c' \<subseteq> fake_residue c"
  by (auto simp: fake_residue_def since_reset_def)

lemma residue_same:
  "fc_recorded c' = fc_recorded c \<Longrightarrow> fc_session_mutated c' = fc_session_mutated c \<Longrightarrow> fake_residue c' = fake_residue c"
  by (simp add: fake_residue_def since_reset_def)

lemma rollback_verb: "leading_tx_verb ''ROLLBACK'' = Some VerbClose"
  by code_simp

interpretation fake_rows: pull_stream fake_next fake_streaming fake_drained
  "\<lambda>c s. fs_done s" "\<lambda>c s. fs_done s"
  by unfold_locales
    (auto simp: fake_next_def fake_streaming_def fake_drained_def Let_def split: if_splits list.splits)

lemma fake_backend_sel [simp]:
  "be_connect (fake_backend dia clean) = fake_connect" "be_ping (fake_backend dia clean) = fake_ping"
  "be_is_closed (fake_backend dia clean) = fc_closed" "be_dialect (fake_backend dia clean) = dia"
  "be_tx_status (fake_backend dia clean) = fc_tx_status"
  "be_take_session_mutated (fake_backend dia clean) = fake_take_session_mutated"
  "be_apply_readonly (fake_backend dia clean) = apply_readonly_default"
  "be_supports_copy (fake_backend dia clean) = False" "be_clean_reset_profile (fake_backend dia clean) = clean"
  "be_reset (fake_backend dia clean) = fake_reset" "be_simple_query (fake_backend dia clean) = fake_simple_query"
  "be_query (fake_backend dia clean) = fake_query" "be_query_stream (fake_backend dia clean) = fake_query_stream"
  "be_row_next (fake_backend dia clean) = fake_next"
  "be_reclaim_stream (fake_backend dia clean) = fake_reclaim_stream"
  "be_copy_in (fake_backend dia clean) = copy_default" "be_copy_out (fake_backend dia clean) = copy_default"
  by (simp_all add: fake_backend_def)

text \<open>What each operation leaves in the log and of the tracker flag.\<close>

lemma fake_simple_recorded: "fake_simple_query sql w c = (d, w', r, c') \<Longrightarrow>
    fc_recorded c' = fc_recorded c @ [sql] \<and> fc_session_mutated c' = fc_session_mutated c"
  by (auto simp: fake_simple_query_def Let_def split: if_splits)

lemma fake_query_recorded: "fake_query sql ps w c = (d, w', r, c') \<Longrightarrow>
    fc_recorded c' = fc_recorded c @ [sql] \<and> fc_session_mutated c' = fc_session_mutated c"
  by (auto simp: fake_query_def Let_def split: option.splits bool.splits)

lemma fake_reclaim_recorded: "fake_reclaim_stream s w c = (d, w', r, c') \<Longrightarrow>
    fc_recorded c' = fc_recorded c \<and> fc_session_mutated c' = fc_session_mutated c"
  by (auto simp: fake_reclaim_stream_def split: if_splits)

lemma rollback_closes: "fc_tx_status (recording leaf ''ROLLBACK'' c) = Idle"
  by (simp add: recording_def apply_leading_tx_verb_def rollback_verb)

lemma fake_reset_residue:
  assumes "fake_reset pr w c = (d, w', r, c')"
  shows "fake_residue c' \<subseteq> fake_residue c" "pr = Full \<Longrightarrow> fake_residue c' = {}" "fc_tx_status c' = fc_tx_status c"
  using assms
  by (cases pr; auto simp: fake_reset_def fake_residue_def since_reset_def leaves_nothing_def)+

lemma fake_session_laws:
  "session_backend_axioms (fake_backend dia clean) fake_streaming fake_drained (\<lambda>c s. fs_done s)
     (\<lambda>c0 sql c s. False) (\<lambda>c0 sql c s. False) (\<lambda>c s. False) (\<lambda>c. fc_tx_status c = Idle)
     (\<lambda>c. True) fake_residue (\<lambda>c0 sql c s. False)"
proof unfold_locales
  fix w d w' c
  assume "be_connect (fake_backend dia clean) w = (d, w', Inr c)"
  then show "True \<and> fc_tx_status c = Idle \<and> fake_residue c = {}"
    by (auto simp: fake_connect_def Let_def fake_residue_def since_reset_def split: if_splits)
next
  fix w c d w' n c'
  assume q: "be_simple_query (fake_backend dia clean) ''ROLLBACK'' w c = (d, w', Inr n, c')"
  then have "fc_tx_status c' = Idle" by (auto simp: fake_simple_query_def Let_def rollback_closes split: if_splits)
  moreover have "fake_residue c' \<subseteq> fake_residue c"
    using q fake_simple_recorded [of "''ROLLBACK''" w c] residue_unchanged [of c' c] by (simp add: leaves_nothing_def)
  ultimately show "True \<and> fc_tx_status c' = Idle \<and> fake_residue c' \<subseteq> fake_residue c" by blast
next
  fix w c d w' r c'
  assume "be_simple_query (fake_backend dia clean) ''ROLLBACK'' w c = (d, w', r, c')"
  then show "fc_tx_status c' = Idle"
    by (auto simp: fake_simple_query_def Let_def rollback_closes split: if_splits)
next
  fix w c d w' u c'
  assume "be_reset (fake_backend dia clean) Full w c = (d, w', Inr u, c')" "fc_tx_status c = Idle"
  then show "True \<and> fc_tx_status c' = Idle \<and> fake_residue c' = {}"
    using fake_reset_residue [of Full w c d w' "Inr u" c'] by simp
next
  fix pr w c d w' u c'
  assume "be_reset (fake_backend dia clean) pr w c = (d, w', Inr u, c')" "fc_tx_status c = Idle"
  then show "True \<and> fc_tx_status c' = Idle \<and> fake_residue c' \<subseteq> fake_residue c"
    using fake_reset_residue [of pr w c d w' "Inr u" c'] by simp
next
  fix c sql w d w' n c'
  assume "be_simple_query (fake_backend dia clean) sql w c = (d, w', Inr n, c')"
  moreover assume "\<not> fst (be_take_session_mutated (fake_backend dia clean) c')"
  ultimately show "fake_residue c' \<subseteq> insert (sql, False) (fake_residue c)"
    using fake_simple_recorded [of sql w c] residue_recorded [of c' c sql] by (simp add: fake_take_session_mutated_def)
next
  fix c sql ps w d w' q' c'
  assume "be_query (fake_backend dia clean) sql ps w c = (d, w', Inr q', c')"
  moreover assume "\<not> fst (be_take_session_mutated (fake_backend dia clean) c')"
  ultimately show "fake_residue c' \<subseteq> insert (sql, False) (fake_residue c)"
    using fake_query_recorded [of sql ps w c] residue_recorded [of c' c sql] by (simp add: fake_take_session_mutated_def)
next
  fix c0 sql c rs w d w' rc c'
  assume "fake_drained c0 sql c rs" "be_reclaim_stream (fake_backend dia clean) rs w c = (d, w', Inr rc, c')"
  moreover assume "\<not> fst (be_take_session_mutated (fake_backend dia clean) c')"
  ultimately show "fake_residue c' \<subseteq> insert (sql, False) (fake_residue c0)"
    using fake_reclaim_recorded [of rs w c] residue_recorded [of c' c0 sql]
    by (simp add: fake_drained_def fake_take_session_mutated_def)
qed (auto simp: apply_readonly_default_def fake_ping_def fake_take_session_mutated_def copy_default_def
    fake_query_stream_def fake_streaming_def Let_def residue_same fake_residue_def since_reset_def split: if_splits)

interpretation fake: session_backend "fake_backend dia clean" fake_streaming fake_drained
  "\<lambda>c s. fs_done s" "\<lambda>c s. fs_done s"
  "\<lambda>c0 sql c s. False" "\<lambda>c0 sql c s. False" "\<lambda>c s. False" "\<lambda>c s. False"
  "\<lambda>c. fc_tx_status c = Idle" "\<lambda>c. True" fake_residue "\<lambda>c0 sql c s. False"
proof (rule session_backend.intro)
  show "pull_stream (be_row_next (fake_backend dia clean)) fake_streaming fake_drained
      (\<lambda>c s. fs_done s) (\<lambda>c s. fs_done s)"
    by (simp add: fake_rows.pull_stream_axioms)
  show "pull_stream (be_copy_next (fake_backend dia clean)) (\<lambda>c0 sql c s. False) (\<lambda>c0 sql c s. False)
      (\<lambda>c s. False) (\<lambda>c s. False)"
    by unfold_locales simp_all
  show "session_backend_axioms (fake_backend dia clean) fake_streaming fake_drained (\<lambda>c s. fs_done s)
      (\<lambda>c0 sql c s. False) (\<lambda>c0 sql c s. False) (\<lambda>c s. False) (\<lambda>c. fc_tx_status c = Idle)
      (\<lambda>c. True) fake_residue (\<lambda>c0 sql c s. False)"
    by (rule fake_session_laws)
qed

interpretation fake_pool: pooled_backend "fake_backend dia clean" fake_streaming fake_drained
  "\<lambda>c s. fs_done s" "\<lambda>c s. fs_done s"
  "\<lambda>c0 sql c s. False" "\<lambda>c0 sql c s. False" "\<lambda>c s. False" "\<lambda>c s. False"
  "\<lambda>c. fc_tx_status c = Idle" "\<lambda>c. True" fake_residue "\<lambda>c0 sql c s. False" pfs unk
  for dia clean pfs unk
  by (rule pooled_backend.intro) (rule fake.session_backend_axioms)

end
