(* ===== verification/Pool_Theorems.thy ===== *)
theory Pool_Theorems
  imports Fake
begin

text \<open>
  What the pool promises its callers, each promise with a run of a pool over the in-memory backend
  that shows its hypotheses hold.
\<close>

subsection \<open>The runs the witnesses use\<close>

abbreviation fake_pg :: "(fake_world, fake_conn, fake_row_stream, unit, unit) backend" where
  "fake_pg \<equiv> fake_backend Postgres (Some Targeted)"

definition demo_pool :: "(fake_world, fake_conn) pool" where
  "demo_pool = pool_new (pool_config_default\<lparr>max_size := 1\<rparr>) fake_new 0"

text \<open>The first checkout of the pool, and the pool afterwards.\<close>

definition demo_checkout :: "(fake_world, fake_conn) pool \<times> fake_conn checkout" where
  "demo_checkout = (case checkout fake_pg demo_pool of (r, p) \<Rightarrow> (p, projr r))"

text \<open>The first tenant changes a session variable and drops its checkout.\<close>

definition demo_after_tenant :: "(fake_world, fake_conn) pool" where
  "demo_after_tenant = release fake_pg (snd (exec fake_pg ''SET search_path TO other'' demo_checkout))"

lemma demo_first: "checkout fake_pg demo_pool = (Inr (snd demo_checkout), fst demo_checkout)"
  by (simp add: demo_checkout_def checkout_def checkout_declared_def demo_pool_def pool_new_def
      checkout_loop.simps dial_def fake_connect_def fake_new_def parked_def apply_readonly_default_def Let_def
      checkout_new_def pool_config_default_def)

lemma demo_sql:
  "tx_control_class ''SET search_path TO other'' = None"
  "leading_tx_verb ''SET search_path TO other'' = None"
  "\<exists>t. classify ''SET search_path TO other'' Postgres [] True = Some t"
proof -
  show "tx_control_class ''SET search_path TO other'' = None" by code_simp
  show "leading_tx_verb ''SET search_path TO other'' = None" by code_simp
  have "classify ''SET search_path TO other'' Postgres [] True \<noteq> None" by code_simp
  then show "\<exists>t. classify ''SET search_path TO other'' Postgres [] True = Some t" by blast
qed

lemma demo_conn:
  "co_conn (snd demo_checkout) =
     \<lparr>fc_id = 0, fc_closed = False, fc_recorded = [], fc_leaf_log = [], fc_tx_open = False,
      fc_fail_next_ping = False, fc_fail_next_simple_query = False, fc_session_mutated = False,
      fc_tx_status = Idle\<rparr>"
  "p_world (fst demo_checkout) = fake_new\<lparr>fw_next_id := 1\<rparr>" "p_clock (fst demo_checkout) = 0"
  "p_idle (fst demo_checkout) = []" "p_permits (fst demo_checkout) = 0"
  "p_config (fst demo_checkout) = pool_config_default\<lparr>max_size := 1\<rparr>"
  "co_created_at (snd demo_checkout) = 0" "\<not> co_discard (snd demo_checkout)"
  by (simp_all add: demo_checkout_def checkout_def checkout_declared_def demo_pool_def pool_new_def
      checkout_loop.simps dial_def fake_connect_def fake_new_def parked_def apply_readonly_default_def Let_def
      checkout_new_def pool_config_default_def)

lemma demo_idle:
  "\<exists>ic. p_idle demo_after_tenant = [ic] \<and> ic_tainted ic \<and> ic_created_at ic = 0 \<and> \<not> ic_tx_open ic \<and>
     fc_recorded (ic_conn ic) = [''SET search_path TO other''] \<and> \<not> fc_closed (ic_conn ic)"
  "p_clock demo_after_tenant = 0" "p_permits demo_after_tenant = 1"
  "p_config demo_after_tenant = pool_config_default\<lparr>max_size := 1\<rparr>"
proof -
  obtain p k where d: "demo_checkout = (p, k)" by fastforce
  obtain t where t: "classify ''SET search_path TO other'' Postgres [] True = Some t" using demo_sql(3) by blast
  note eval = demo_after_tenant_def d exec_def guard_tx_control_def demo_sql t run_on_def fake_simple_query_def
      recording_def apply_leading_tx_verb_def demo_conn [unfolded d, simplified] Let_def release_def unpin_def
      fake_new_def parked_def apply_classify_for_def apply_classify_def after_statement_def force_both_def
      apply_session_tracker_def apply_tx_status_def tx_status_bits_def fake_take_session_mutated_def
      set_cause_def pool_config_default_def
  show "\<exists>ic. p_idle demo_after_tenant = [ic] \<and> ic_tainted ic \<and> ic_created_at ic = 0 \<and> \<not> ic_tx_open ic \<and>
     fc_recorded (ic_conn ic) = [''SET search_path TO other''] \<and> \<not> fc_closed (ic_conn ic)"
    by (simp add: eval case_prod_beta)
  show "p_clock demo_after_tenant = 0" by (simp add: eval case_prod_beta)
  show "p_permits demo_after_tenant = 1" by (simp add: eval case_prod_beta)
  show "p_config demo_after_tenant = pool_config_default\<lparr>max_size := 1\<rparr>"
    by (simp add: eval case_prod_beta)
qed

text \<open>The second tenant gets the first one's connection, after a full reset.\<close>

lemma demo_second:
  "\<exists>k p. checkout_declared fake_pg False demo_after_tenant = (Inr k, p) \<and>
     fc_recorded (co_conn k) = [''SET search_path TO other'', ''RESET:Full'']"
proof -
  obtain ic where ic: "p_idle demo_after_tenant = [ic]" "ic_tainted ic" "ic_created_at ic = 0" "\<not> ic_tx_open ic"
    "fc_recorded (ic_conn ic) = [''SET search_path TO other'']" "\<not> fc_closed (ic_conn ic)"
    using demo_idle(1) by blast
  show ?thesis
    by (simp add: checkout_declared_def checkout_loop.simps [of fake_pg] demo_idle(2-) ic recycle_def cleanup_def
        hygiene_profile_def fake_reset_def apply_readonly_default_def checkout_new_def Let_def pool_config_default_def)
qed

lemma demo_checkout_reachable:
  "reachable fake_pg (pool_config_default\<lparr>max_size := 1\<rparr>) (fst demo_checkout, [(snd demo_checkout, Ready)])"
proof -
  have "reachable fake_pg (pool_config_default\<lparr>max_size := 1\<rparr>) (demo_pool, [])"
    unfolding demo_pool_def by (rule reachable.new)
  moreover have "pool_step fake_pg (demo_pool, []) (fst demo_checkout, [] @ [(snd demo_checkout, Ready)])"
    using demo_first unfolding checkout_def by (rule pool_step.checkout)
  ultimately show ?thesis using reachable.step by fastforce
qed

lemma demo_reachable:
  "reachable fake_pg (pool_config_default\<lparr>max_size := 1\<rparr>) (demo_after_tenant, [])"
proof -
  let ?cfg = "pool_config_default\<lparr>max_size := 1\<rparr>" and ?k = "snd demo_checkout" and ?p = "fst demo_checkout"
  obtain r p' k' where e: "exec fake_pg ''SET search_path TO other'' (?p, ?k) = (r, p', k')"
    by (metis prod_cases3)
  have "reachable fake_pg ?cfg (?p, [(?k, Ready)])" by (rule demo_checkout_reachable)
  moreover have "session_step fake_pg (?p, ?k) Ready (p', k') Ready" using e by (rule session_step.exec)
  then have "pool_step fake_pg (?p, [(?k, Ready)]) (p', [(?k, Ready)][0 := (k', Ready)])"
    by (intro pool_step.session [of 0 _ ?k Ready]) simp_all
  ultimately have "reachable fake_pg ?cfg (p', [(k', Ready)])" using reachable.step by fastforce
  moreover have "pool_step fake_pg (p', [(k', Ready)])
      (release fake_pg (p', k'), take 0 [(k', Ready)] @ drop (0 + 1) [(k', Ready)])"
    by (intro pool_step.release) simp_all
  ultimately have "reachable fake_pg ?cfg (release fake_pg (p', k'), [])" using reachable.step by fastforce
  then show ?thesis using e by (simp add: demo_after_tenant_def)
qed

subsection \<open>No session leaks from one tenant to the next\<close>

text \<open>
  C1: nothing the pool was told of leaks from one tenant to the next. Over any backend that keeps the
  \<open>PoolBackend\<close> contract, in every state a pool can reach by checkouts, statements, transactions, row
  streams, \<open>COPY\<close>s, abandoned handles, releases and reaper passes in any order, a connection that a
  checkout hands out is in step with the protocol and has no transaction open, and whatever earlier
  statements may still have left in its session comes from statements that the session tracker did not
  report and that the lexer did not either: ones it classifies as leaving nothing, lone
  transaction-control statements, and the statements the engine composes to open a transaction. A change
  of session state that neither sees (a \<open>set_config\<close> call on PostgreSQL, say) is a documented limit of
  the design and may remain.
\<close>

theorem pool_never_leaks_sessions:
  assumes "session_backend B streaming drained broken over copying copied copy_broken copy_over
      no_tx in_step residue sinking"
    and "reachable B cfg (p, ss)" and "checkout_declared B readonly p = (Inr k, p')"
  shows "in_step (co_conn k) \<and> no_tx (co_conn k) \<and>
    (\<forall>(sql, reported) \<in> residue (co_conn k). \<not> reported \<and>
       (classify sql (be_dialect B) (pin_functions cfg) (pin_on_unknown cfg) = None \<or>
        tx_control_class sql \<noteq> None \<and> is_lone_statement sql \<or> sql \<in> set (composed_begins (be_dialect B))))"
  using pooled_backend.handed_out_residue [OF pooled_backend.intro [OF assms(1)] assms(2) refl refl assms(3)]
  by (simp add: engine_sql_def)

theorem pool_never_leaks_sessions_witness:
  "\<exists>k p. checkout_declared fake_pg False demo_after_tenant = (Inr k, p) \<and>
     fc_tx_status (co_conn k) = Idle \<and> (''SET search_path TO other'', False) \<notin> fake_residue (co_conn k) \<and>
     fc_recorded (co_conn k) = [''SET search_path TO other'', ''RESET:Full'']"
proof -
  obtain k p where k: "checkout_declared fake_pg False demo_after_tenant = (Inr k, p)"
    "fc_recorded (co_conn k) = [''SET search_path TO other'', ''RESET:Full'']"
    using demo_second by blast
  have "True \<and> fc_tx_status (co_conn k) = Idle \<and> (\<forall>(sql, reported) \<in> fake_residue (co_conn k). \<not> reported \<and>
       (classify sql (be_dialect fake_pg) (pin_functions (pool_config_default\<lparr>max_size := 1\<rparr>))
          (pin_on_unknown (pool_config_default\<lparr>max_size := 1\<rparr>)) = None \<or>
        tx_control_class sql \<noteq> None \<and> is_lone_statement sql \<or> sql \<in> set (composed_begins (be_dialect fake_pg))))"
    by (rule pool_never_leaks_sessions [OF fake.session_backend_axioms demo_reachable k(1)])
  moreover have "''SET search_path TO other'' \<notin> set (composed_begins Postgres)" by code_simp
  ultimately have "(''SET search_path TO other'', False) \<notin> fake_residue (co_conn k)"
    "fc_tx_status (co_conn k) = Idle"
    using demo_sql by (auto simp: pool_config_default_def)
  with k show ?thesis by blast
qed

subsection \<open>Checkouts\<close>

text \<open>
  C5: a dirty connection is never handed out without its cleanup. A successful checkout either
  dialled a new connection, or took one from the idle stack that was not closed, on which a
  \<open>ROLLBACK\<close> succeeded if a transaction was left open and after it a full reset if the session was marked as
  changed, the backend's own reset of a clean connection otherwise, if it has one, the two together within
  \<open>checkout_timeout\<close>. The declared read-only mode was applied last, the guard starts unpinned with
  both bits clear, and exactly one permit was taken.
\<close>

theorem checkout_hands_out_clean:
  assumes "checkout_declared B ro p = (Inr k, p')"
  shows "(fresh_conn B ro (co_conn k) \<or>
      (\<exists>ic \<in> set (p_idle p). recycled_conn B ro (checkout_timeout (p_config p)) ic (co_conn k))) \<and>
    starts_clean k \<and> p_permits p = p_permits p' + 1"
  using assms checkout_loop_Inr [of B ro "p_clock p" "p\<lparr>p_permits := p_permits p - 1\<rparr>" k p']
  by (auto simp: checkout_declared_def split: if_splits)

theorem checkout_hands_out_clean_witness:
  "\<exists>k p. checkout_declared fake_pg False demo_after_tenant = (Inr k, p) \<and> starts_clean k \<and>
     p_permits demo_after_tenant = p_permits p + 1"
  using demo_second checkout_hands_out_clean [of fake_pg False demo_after_tenant] by blast

text \<open>
  A failed checkout gives its permit back: whether the dial failed, timed out or could not be put
  into the declared mode, the pool has as many permits as before.
\<close>

theorem checkout_failure_returns_permit:
  assumes "checkout_declared B ro p = (Inl e, p')"
  shows "p_permits p' = p_permits p"
  using assms checkout_loop_Inl [of B ro "p_clock p" "p\<lparr>p_permits := p_permits p - 1\<rparr>" e p']
  by (auto simp: checkout_declared_def split: if_splits)

theorem checkout_failure_returns_permit_witness:
  "\<exists>e p. checkout_declared fake_pg False (demo_pool\<lparr>p_world := arm_fail_connect 1 fake_new\<rparr>) = (Inl e, p) \<and>
     p_permits p = 1"
proof -
  obtain e p where "checkout_declared fake_pg False (demo_pool\<lparr>p_world := arm_fail_connect 1 fake_new\<rparr>) = (Inl e, p)"
    by (simp add: checkout_declared_def demo_pool_def pool_new_def checkout_loop.simps dial_def
        fake_connect_def fake_new_def arm_fail_connect_def parked_def Let_def pool_config_default_def)
  then show ?thesis using checkout_failure_returns_permit [of fake_pg False _ e p]
    by (simp add: demo_pool_def pool_new_def)
qed

subsection \<open>Statements\<close>

text \<open>
  A transaction-boundary statement never reaches the backend through a guarded entry: whatever the
  state of the checkout, \<open>exec\<close>, \<open>query\<close> and \<open>query_stream\<close> refuse it and change nothing.
\<close>

theorem boundary_statement_refused:
  assumes "tx_control_class sql = Some Boundary"
  shows "\<exists>e. exec B sql pk = (Inl (Unsupported e), pk) \<and>
    query B sql params pk = (Inl (Unsupported e), pk) \<and>
    query_stream B sql params pk = (Inl (Unsupported e), pk)"
proof -
  let ?e = "if be_supports_copy B \<and> speaks_copy_stdio sql then CopyViaEntry else BareTxControl"
  have "guard_tx_control B sql ps k = Inl (Unsupported ?e)" for ps k
    using assms by (simp add: guard_tx_control_def)
  then show ?thesis by (intro exI [of _ ?e]) (simp add: exec_def query_def query_stream_def)
qed

theorem boundary_statement_refused_witness:
  "\<exists>e. exec fake_pg ''/* x */ commit;'' demo_checkout = (Inl (Unsupported e), demo_checkout)"
proof -
  have "tx_control_class ''/* x */ commit;'' = Some Boundary" by code_simp
  from boundary_statement_refused [OF this, of fake_pg demo_checkout] show ?thesis by blast
qed

text \<open>
  C12: an error is never trusted. If a dispatched statement fails, whether as a buffered statement, one of the
  engine's own transaction operations, a row stream or a \<open>COPY\<close>, and whether it failed to run or to open, at
  any of its rows, in its drain or when it was closed or aborted, the checkout is left with both bits set, so
  that if it goes back to the idle stack at all it goes with both, and the next checkout rolls back and fully
  resets it. A handle dropped unfinished discards its connection: it never goes back.
\<close>

theorem error_forces_both_bits:
  "(dispatch_failed B pk (p', k') \<longrightarrow> co_tx_open k' \<and> co_tainted k' \<and>
      (p_idle (release B (p', k')) = p_idle p' \<or>
       (\<exists>ic. p_idle (release B (p', k')) = p_idle p' @ [ic] \<and> ic_conn ic = co_conn k' \<and> ic_tx_open ic \<and> ic_tainted ic))) \<and>
   p_idle (release B (handle_abandon pk)) = p_idle (fst pk)"
proof -
  have rel: "p_idle (release B (q, k)) = (if co_discard k \<or> be_is_closed B (co_conn k) then p_idle q else
      p_idle q @ [\<lparr>ic_conn = co_conn k, ic_created_at = co_created_at k, ic_tx_open = co_tx_open k, ic_tainted = co_tainted k\<rparr>])"
    for q k
    using unpin_frame [of q k] by (simp add: release_def Let_def same_stack_def case_prod_beta)
  show ?thesis
    using failed_bits [of B pk "(p', k')"] by (cases pk) (auto simp: both_bits_def rel handle_abandon_def)
qed

theorem error_forces_both_bits_witness:
  "\<exists>p k. query fake_pg ''SELECT 1'' [] ((fst demo_checkout)\<lparr>p_world := arm_next_query_err ConnectionLost fake_new\<rparr>, snd demo_checkout) =
     (Inl ConnectionLost, p, k) \<and> co_tx_open k \<and> co_tainted k"
proof -
  let ?p = "(fst demo_checkout)\<lparr>p_world := arm_next_query_err ConnectionLost fake_new\<rparr>" and ?k = "snd demo_checkout"
  have "tx_control_class ''SELECT 1'' = None" by code_simp
  then have g: "guard_tx_control fake_pg ''SELECT 1'' [] ?k = Inr Proceed" by (simp add: guard_tx_control_def)
  obtain r p k where q: "query fake_pg ''SELECT 1'' [] (?p, ?k) = (r, p, k)" by (metis prod_cases3)
  have r: "r = Inl ConnectionLost"
    using q g by (auto simp: query_def run_on_def fake_query_def arm_next_query_err_def Let_def)
  have "dispatch_failed fake_pg (?p, ?k) (p, k)"
    using dispatch_failed.query [of fake_pg "''SELECT 1''" "[]" "(?p, ?k)"] g q r by simp
  with error_forces_both_bits [of fake_pg "(?p, ?k)" p k] q r show ?thesis by simp
qed


subsection \<open>Bounds on waiting\<close>

lemma bookkeeping_clock:
  "p_clock (fst (set_cause c pk)) = p_clock (fst pk)"
  "p_clock (fst (after_statement B err pk)) = p_clock (fst pk)"
  "p_clock (fst (apply_classify B sql pk)) = p_clock (fst pk)"
  "p_clock (fst (finalize_stream B err sql pk)) = p_clock (fst pk)"
proof -
  show 1: "p_clock (fst (set_cause c pk)) = p_clock (fst pk)" for c and pk :: "('a, 'b) pool \<times> 'b checkout"
    by (simp add: set_cause_def case_prod_beta)
  show 2: "p_clock (fst (after_statement B err pk)) = p_clock (fst pk)" for pk
    by (simp add: after_statement_def force_both_def apply_session_tracker_def apply_tx_status_def case_prod_beta
        Let_def 1)
  show 3: "p_clock (fst (apply_classify B sql pk)) = p_clock (fst pk)" for pk
    by (simp add: apply_classify_def case_prod_beta 1 split: option.split)
  show "p_clock (fst (finalize_stream B err sql pk)) = p_clock (fst pk)"
    by (simp add: finalize_stream_def 2 3)
qed

text \<open>
  Closing a handle always returns, whatever the backend does. Finishing a row stream takes at most
  two \<open>checkout_timeout\<close>s (one for the drain, one for the reclaim), and finishing a \<open>COPY TO\<close> or
  aborting a \<open>COPY FROM\<close> at most one, even for a stream that never ends or a backend that hangs.
\<close>

theorem closing_a_handle_is_bounded:
  "p_clock (fst (snd (stream_finish B h (p, k)))) \<le> p_clock p + 2 * checkout_timeout (p_config p) \<and>
   p_clock (fst (snd (copy_out_finish B out (p, k)))) \<le> p_clock p + checkout_timeout (p_config p) \<and>
   p_clock (fst (copy_in_abort B sink (p, k))) \<le> p_clock p + checkout_timeout (p_config p)"
proof (intro conjI)
  obtain items left w c rs where dr:
    "drain_within (be_row_next B) (checkout_timeout (p_config p)) (p_world p) (co_conn k) (rh_rows h) =
      (items, left, w, c, rs)" by (metis prod_cases5)
  show "p_clock (fst (snd (stream_finish B h (p, k)))) \<le> p_clock p + 2 * checkout_timeout (p_config p)"
    by (cases left) (auto simp: stream_finish_def dr Let_def bookkeeping_clock case_prod_beta min_def)
  obtain items' left' w' c' rs' where dr':
    "drain_within (be_copy_next B) (checkout_timeout (p_config p)) (p_world p) (co_conn k) (cp_rows out) =
      (items', left', w', c', rs')" by (metis prod_cases5)
  show "p_clock (fst (snd (copy_out_finish B out (p, k)))) \<le> p_clock p + checkout_timeout (p_config p)"
    by (simp add: copy_out_finish_def dr' Let_def bookkeeping_clock split: option.split)
  show "p_clock (fst (copy_in_abort B sink (p, k))) \<le> p_clock p + checkout_timeout (p_config p)"
    by (simp add: copy_in_abort_def Let_def bookkeeping_clock case_prod_beta)
qed

lemma recycle_clock:
  assumes "\<And>ro w c. fst (be_apply_readonly B ro w c) = 0"
  shows "p_clock (snd (recycle B ro start ic p)) \<le> p_clock p + checkout_timeout (p_config p)"
    and "p_config (snd (recycle B ro start ic p)) = p_config p"
proof -
  let ?b = "checkout_timeout (p_config p)"
  obtain d w r c where q:
    "(if ic_tx_open ic \<or> hygiene_profile B ic \<noteq> None
      then cleanup B (ic_tx_open ic) (hygiene_profile B ic) (p_world p) (ic_conn ic)
      else (0, p_world p, Inr (), ic_conn ic)) = (d, w, r, c)" by (metis prod_cases4)
  obtain w' r' c' where ro: "be_apply_readonly B ro w c = (0, w', r', c')"
    using assms [of ro w c] by (cases "be_apply_readonly B ro w c") auto
  show "p_clock (snd (recycle B ro start ic p)) \<le> p_clock p + ?b"
    unfolding recycle_def Let_def q by (simp add: ro checkout_new_def Let_def)
  show "p_config (snd (recycle B ro start ic p)) = p_config p"
    unfolding recycle_def Let_def q by (simp add: ro checkout_new_def Let_def)
qed

lemma dial_clock:
  assumes "\<And>ro w c. fst (be_apply_readonly B ro w c) = 0"
  shows "p_clock (snd (dial B ro start p)) \<le> p_clock p + checkout_timeout (p_config p)"
proof -
  obtain d w r where q: "be_connect B (p_world p) = (d, w, r)" by (metis prod_cases3)
  show ?thesis
  proof (cases r)
    case (Inl e)
    then show ?thesis by (simp add: dial_def Let_def q)
  next
    case (Inr c)
    obtain w' r' c' where ro: "be_apply_readonly B ro w c = (0, w', r', c')"
      using assms [of ro w c] by (cases "be_apply_readonly B ro w c") auto
    then show ?thesis by (cases r') (simp_all add: dial_def Let_def q Inr checkout_new_def)
  qed
qed

lemma checkout_loop_clock:
  assumes "\<And>ro w c. fst (be_apply_readonly B ro w c) = 0"
  shows "p_clock (snd (checkout_loop B ro start p)) \<le>
    p_clock p + (length (p_idle p) + 1) * checkout_timeout (p_config p)"
  using assms
proof (induction B ro start p rule: checkout_loop.induct)
  case (1 B ro start p)
  let ?t = "checkout_timeout (p_config p)"
  show ?case
  proof (cases "p_idle p = []")
    case True
    then show ?thesis using dial_clock [OF "1.prems", of ro start p] by (simp add: checkout_loop.simps [of B ro start p])
  next
    case False
    obtain x p' where r: "recycle B ro start (last (p_idle p)) (p\<lparr>p_idle := butlast (p_idle p)\<rparr>) = (x, p')"
      by fastforce
    have p': "p_clock p' \<le> p_clock p + ?t" "p_config p' = p_config p" "p_idle p' = butlast (p_idle p)"
      using recycle_clock [OF "1.prems", of ro start "last (p_idle p)" "p\<lparr>p_idle := butlast (p_idle p)\<rparr>"]
        recycle_idle [of B ro start "last (p_idle p)" "p\<lparr>p_idle := butlast (p_idle p)\<rparr>"] r by simp_all
    have n: "length (p_idle p) = Suc (length (p_idle p'))" using False p'(3) by simp
    show ?thesis
    proof (cases x)
      case None
      with "1.IH" [OF False r [symmetric] None "1.prems"] p'(1,2) False r show ?thesis
        unfolding n by (simp add: checkout_loop.simps [of B ro start p])
    next
      case (Some k)
      with p'(1) False r show ?thesis unfolding n by (simp add: checkout_loop.simps [of B ro start p])
    qed
  qed
qed

text \<open>
  A checkout always returns. When declaring the read-only mode costs no round trip (the default of
  the trait), a checkout takes at most one \<open>checkout_timeout\<close> for each idle connection it may have to
  clean and evict, and one more for the dial or the wait, even when every backend call hangs.
\<close>

theorem checkout_is_bounded:
  assumes "\<And>ro w c. fst (be_apply_readonly B ro w c) = 0"
  shows "p_clock (snd (checkout_declared B readonly p)) \<le>
    p_clock p + (length (p_idle p) + 1) * checkout_timeout (p_config p)"
  using checkout_loop_clock [OF assms, of readonly "p_clock p" "p\<lparr>p_permits := p_permits p - 1\<rparr>"]
  by (simp add: checkout_declared_def)

theorem checkout_is_bounded_witness:
  "p_clock (snd (checkout_declared fake_pg False (demo_pool\<lparr>p_world := fake_new\<lparr>fw_connect_hang := Some 10000000\<rparr>\<rparr>)))
     \<le> 5000000"
  using checkout_is_bounded [of fake_pg False "demo_pool\<lparr>p_world := fake_new\<lparr>fw_connect_hang := Some 10000000\<rparr>\<rparr>"]
  by (simp add: apply_readonly_default_def demo_pool_def pool_new_def pool_config_default_def)

subsection \<open>The reaper\<close>

text \<open>
  The reaper never looks below a healthy top of the idle stack. It pops the top connection and
  pushes it back, so as long as that one answers its ping and is within its lifetime, a pass pings it
  once for each idle connection and leaves the stack as it was, with every dead or expired connection
  below still in it; the next pass starts from the same stack.
\<close>

theorem reaper_stops_at_healthy_top:
  assumes "p_idle p = below @ [ic]" "\<not> be_is_closed B (ic_conn ic)"
    "p_clock p - ic_created_at ic \<le> max_lifetime (p_config p)"
    "be_ping B (p_world p) (ic_conn ic) = (0, p_world p, Inr (), ic_conn ic)"
  shows "reap_once B p = p"
proof -
  have "reap_step B p = (p_permits p \<noteq> 0, p)"
    using assms by (cases p) (simp add: reap_step_def Let_def)
  then have "reap_loop n B p = p" for n by (induction n) (simp_all split: bool.split)
  then show ?thesis by (simp add: reap_once_def)
qed

theorem reaper_stops_at_healthy_top_witness:
  "\<exists>dead live. fc_closed (ic_conn dead) \<and>
     reap_once fake_pg (demo_pool\<lparr>p_idle := [dead, live]\<rparr>) = demo_pool\<lparr>p_idle := [dead, live]\<rparr>"
proof -
  let ?c = "co_conn (snd demo_checkout)"
  let ?ic = "\<lambda>c. \<lparr>ic_conn = c, ic_created_at = 0, ic_tx_open = False, ic_tainted = False\<rparr>"
  let ?dead = "?ic (?c\<lparr>fc_closed := True\<rparr>)"
  have ping: "fake_ping fake_new ?c = (0, fake_new, Inr (), ?c)"
    by (simp add: demo_conn fake_ping_def fake_new_def parked_def)
  show ?thesis
  proof (intro exI conjI)
    show "fc_closed (ic_conn ?dead)" by simp
    show "reap_once fake_pg (demo_pool\<lparr>p_idle := [?dead, ?ic ?c]\<rparr>) = demo_pool\<lparr>p_idle := [?dead, ?ic ?c]\<rparr>"
      by (rule reaper_stops_at_healthy_top [of _ "[?dead]" "?ic ?c"])
        (simp_all add: ping demo_pool_def pool_new_def, simp add: demo_conn)
  qed
qed

end
