(* ===== verification/Pool_Capacity.thy ===== *)
theory Pool_Capacity
  imports Ferro_Prelude "HOL-Library.Multiset"
begin

text \<open>
  The pool's shared state under concurrency (\<open>engine/crates/ferro-pool/src/pool.rs\<close>
  \<open>checkout_declared\<close> and \<open>Drop for Checkout\<close>, \<open>health.rs\<close> \<open>reap_once\<close>). Every task that checks out,
  holds or releases a connection, and every reaper pass, is a small state machine whose steps lie
  between two await points or lock acquisitions; the tasks interleave in any order. What the backend
  answers is left open: a cleanup, a dial, an arming or a ping may succeed, fail or time out, and a
  caller may drop its future at any await point. A connection is known by its identity only.
\<close>

datatype 'c task =
    Waiting | Permit | Cleaning 'c | Dialing | Arming 'c | Out 'c | Dropping | Gone
  | Reaping nat | ReapPermit nat | Pinging nat 'c | ReapDrop nat

record 'c cap =
  cs_permits :: nat
  cs_idle :: "'c list"
  cs_tasks :: "'c task list"

fun task_conns :: "'c task \<Rightarrow> 'c multiset" where
  "task_conns (Cleaning c) = {#c#}"
| "task_conns (Arming c) = {#c#}"
| "task_conns (Out c) = {#c#}"
| "task_conns (Pinging n c) = {#c#}"
| "task_conns _ = {#}"

text \<open>Connections a task accounts for: one it has, or one it is dialling.\<close>

fun task_live :: "'c task \<Rightarrow> nat" where
  "task_live Dialing = 1"
| "task_live t = size (task_conns t)"

fun task_permits :: "'c task \<Rightarrow> nat" where
  "task_permits Waiting = 0"
| "task_permits Gone = 0"
| "task_permits (Reaping n) = 0"
| "task_permits _ = 1"

definition cap_conns :: "'c cap \<Rightarrow> 'c multiset" where
  "cap_conns s = mset (cs_idle s) + sum_list (map task_conns (cs_tasks s))"

definition cap_live :: "'c cap \<Rightarrow> nat" where
  "cap_live s = length (cs_idle s) + sum_list (map task_live (cs_tasks s))"

definition cap_permits :: "'c cap \<Rightarrow> nat" where
  "cap_permits s = cs_permits s + sum_list (map task_permits (cs_tasks s))"

subsection \<open>Steps\<close>

text \<open>
  One step of one task: its state before and after, with the semaphore and the idle stack. The
  last argument says which connections exist, so that a dial yields one that does not.
\<close>

inductive task_step :: "'c set \<Rightarrow> nat \<times> 'c list \<times> 'c task \<Rightarrow> nat \<times> 'c list \<times> 'c task \<Rightarrow> bool" for U where
  acquire: "task_step U (Suc n, idle, Waiting) (n, idle, Permit)"
| wait_over: "task_step U (n, idle, Waiting) (n, idle, Gone)"
| pop: "task_step U (n, idle @ [c], Permit) (n, idle, Cleaning c)"
| pop_empty: "task_step U (n, [], Permit) (n, [], Dialing)"
| evict: "task_step U (n, idle, Cleaning c) (n, idle, Permit)"
| cleaned: "task_step U (n, idle, Cleaning c) (n, idle, Out c)"
| dialed: "c \<notin> U \<Longrightarrow> task_step U (n, idle, Dialing) (n, idle, Arming c)"
| dial_failed: "task_step U (n, idle, Dialing) (n, idle, Dropping)"
| armed: "task_step U (n, idle, Arming c) (n, idle, Out c)"
| arming_failed: "task_step U (n, idle, Arming c) (n, idle, Dropping)"
| cancelled: "task_step U (n, idle, Cleaning c) (n, idle, Dropping)"
| returned: "task_step U (n, idle, Out c) (n, idle @ [c], Dropping)"
| discarded: "task_step U (n, idle, Out c) (n, idle, Dropping)"
| permit_drop: "task_step U (n, idle, Dropping) (Suc n, idle, Gone)"
| reap_acquire: "task_step U (Suc n, idle, Reaping (Suc b)) (n, idle, ReapPermit b)"
| reap_busy: "task_step U (0, idle, Reaping (Suc b)) (0, idle, Gone)"
| reap_done: "task_step U (n, idle, Reaping 0) (n, idle, Gone)"
| reap_pop: "task_step U (n, idle @ [c], ReapPermit b) (n, idle, Pinging b c)"
| reap_none: "task_step U (n, [], ReapPermit b) (n, [], Dropping)"
| reap_evict: "task_step U (n, idle, Pinging b c) (n, idle, ReapDrop b)"
| reap_keep: "task_step U (n, idle, Pinging b c) (n, idle @ [c], ReapDrop b)"
| reap_drop: "task_step U (n, idle, ReapDrop b) (Suc n, idle, Reaping b)"

inductive cap_step :: "'c cap \<Rightarrow> 'c cap \<Rightarrow> bool" where
  arrive: "cap_step s (s\<lparr>cs_tasks := cs_tasks s @ [Waiting]\<rparr>)"
| reap_tick: "cap_step s (s\<lparr>cs_tasks := cs_tasks s @ [Reaping (length (cs_idle s))]\<rparr>)"
| run: "i < length (cs_tasks s) \<Longrightarrow>
    task_step (set_mset (cap_conns s)) (cs_permits s, cs_idle s, cs_tasks s ! i) (n, idle, t) \<Longrightarrow>
    cap_step s (s\<lparr>cs_permits := n, cs_idle := idle, cs_tasks := (cs_tasks s)[i := t]\<rparr>)"

inductive cap_reachable :: "nat \<Rightarrow> 'c cap \<Rightarrow> bool" for m where
  new: "cap_reachable m \<lparr>cs_permits = m, cs_idle = [], cs_tasks = []\<rparr>"
| step: "cap_reachable m s \<Longrightarrow> cap_step s s' \<Longrightarrow> cap_reachable m s'"

subsection \<open>Invariant\<close>

lemma sum_list_update:
  fixes f :: "'a \<Rightarrow> 'b::comm_monoid_add"
  shows "i < length xs \<Longrightarrow> sum_list (map f (xs[i := x])) + f (xs ! i) = sum_list (map f xs) + f x"
  by (induction xs arbitrary: i) (auto simp: ac_simps split: nat.split)

definition cap_ok :: "nat \<Rightarrow> 'c cap \<Rightarrow> bool" where
  "cap_ok m s \<longleftrightarrow> cap_permits s = m \<and> cap_live s \<le> m \<and> (\<forall>c. count (cap_conns s) c \<le> 1)"

lemma live_le_permits: "task_live t \<le> task_permits t"
  by (cases t) simp_all

lemma lives_le_permits: "sum_list (map task_live ts) \<le> sum_list (map task_permits ts)"
  by (rule sum_list_mono) (rule live_le_permits)

text \<open>What one step does to the totals.\<close>

lemma task_step_permits: "task_step U (n, idle, t) (n', idle', t') \<Longrightarrow> n' + task_permits t' = n + task_permits t"
  by (erule task_step.cases) simp_all

lemma task_step_live:
  "task_step U (n, idle, t) (n', idle', t') \<Longrightarrow>
   length idle' + task_live t' \<le> length idle + task_live t \<or> idle' = []"
  by (erule task_step.cases) simp_all

lemma task_step_conns:
  "task_step U (n, idle, t) (n', idle', t') \<Longrightarrow>
   mset idle' + task_conns t' \<subseteq># mset idle + task_conns t \<or>
   (\<exists>c. c \<notin> U \<and> mset idle' + task_conns t' = mset idle + task_conns t + {#c#})"
  by (erule task_step.cases) auto

lemma cap_step_ok:
  assumes "cap_step s s'" "cap_ok m s"
  shows "cap_ok m s'"
  using assms
proof (induction rule: cap_step.induct)
  case (run i s n idle t)
  let ?ts = "cs_tasks s" and ?s' = "s\<lparr>cs_permits := n, cs_idle := idle, cs_tasks := (cs_tasks s)[i := t]\<rparr>"
  note upd = sum_list_update [OF run(1), where x = t]
  have permits: "cap_permits ?s' = m"
    using task_step_permits [OF run(2)] upd [of task_permits] run(3)
    by (simp add: cap_permits_def cap_ok_def)
  have "cap_live ?s' \<le> m"
    using task_step_live [OF run(2)]
  proof
    assume "length idle + task_live t \<le> length (cs_idle s) + task_live (?ts ! i)"
    then show ?thesis using upd [of task_live] run(3) by (simp add: cap_live_def cap_ok_def)
  next
    assume "idle = []"
    then show ?thesis using permits lives_le_permits [of "?ts[i := t]"]
      by (simp add: cap_live_def cap_permits_def)
  qed
  moreover have "count (cap_conns ?s') c \<le> 1" for c
  proof -
    have tot: "cap_conns ?s' + (mset (cs_idle s) + task_conns (?ts ! i)) = cap_conns s + (mset idle + task_conns t)"
      using upd [of task_conns] by (simp add: cap_conns_def ac_simps)
    then have cnt: "count (cap_conns ?s') c + count (mset (cs_idle s) + task_conns (?ts ! i)) c =
        count (cap_conns s) c + count (mset idle + task_conns t) c" by (metis count_union)
    have one: "count (cap_conns s) c \<le> 1" using run(3) by (simp add: cap_ok_def)
    from task_step_conns [OF run(2)] show ?thesis
    proof
      assume "mset idle + task_conns t \<subseteq># mset (cs_idle s) + task_conns (?ts ! i)"
      then have "count (mset idle + task_conns t) c \<le> count (mset (cs_idle s) + task_conns (?ts ! i)) c"
        by (rule mset_subset_eq_count)
      with cnt one show ?thesis by simp
    next
      assume "\<exists>d. d \<notin> set_mset (cap_conns s) \<and>
        mset idle + task_conns t = mset (cs_idle s) + task_conns (?ts ! i) + {#d#}"
      then obtain d where d: "d \<notin># cap_conns s"
        "mset idle + task_conns t = mset (cs_idle s) + task_conns (?ts ! i) + {#d#}" by blast
      then have "count (cap_conns ?s') c = count (cap_conns s) c + count {#d#} c"
        using cnt by (simp only: count_union)
      with one d(1) show ?thesis by (cases "c = d") (simp_all add: not_in_iff)
    qed
  qed
  ultimately show ?case using permits by (simp add: cap_ok_def)
qed (simp_all add: cap_ok_def cap_permits_def cap_live_def cap_conns_def)

lemma cap_reachable_ok: "cap_reachable m s \<Longrightarrow> cap_ok m s"
proof (induction rule: cap_reachable.induct)
  case new
  show ?case by (simp add: cap_ok_def cap_permits_def cap_live_def cap_conns_def)
next
  case (step s s')
  then show ?case using cap_step_ok by blast
qed

text \<open>
  C2: the pool never has more than \<open>max_size\<close> connections, however checkouts, releases, cancellations
  and reaper passes interleave: the idle ones, those in the hands of a caller or being cleaned, armed
  or pinged, and those being dialled add up to at most \<open>max_size\<close>; every permit is either free or held
  by exactly one task; and no connection is ever in two places.
\<close>

theorem pool_capacity_respected:
  assumes "cap_reachable m s"
  shows "length (cs_idle s) + sum_list (map task_live (cs_tasks s)) \<le> m \<and>
    cs_permits s + sum_list (map task_permits (cs_tasks s)) = m \<and>
    (\<forall>c. count (cap_conns s) c \<le> 1)"
  using cap_reachable_ok [OF assms] by (simp add: cap_ok_def cap_permits_def cap_live_def)

theorem pool_capacity_respected_witness:
  "\<exists>s. cap_reachable 1 s \<and> cs_tasks s = [Arming (7 :: nat), Waiting] \<and>
     sum_list (map task_live (cs_tasks s)) \<le> 1 \<and> cs_permits s = 0"
proof -
  let ?s = "\<lambda>n ts. \<lparr>cs_permits = n, cs_idle = [], cs_tasks = ts\<rparr> :: nat cap"
  have run: "cap_reachable 1 (?s n' [t', Waiting])"
    if "cap_reachable 1 (?s n [t, Waiting])" "task_step (set_mset (cap_conns (?s n [t, Waiting]))) (n, [], t) (n', [], t')"
    for n t n' t'
    using cap_reachable.step [OF that(1)] cap_step.run [of 0 "?s n [t, Waiting]" n' "[]" t'] that(2) by simp
  have 0: "cap_reachable 1 (?s 1 [])" by (rule cap_reachable.new)
  have 1: "cap_reachable 1 (?s 1 [Waiting])"
    using cap_reachable.step [OF 0 cap_step.arrive] by simp
  have 2: "cap_reachable 1 (?s 1 [Waiting, Waiting])"
    using cap_reachable.step [OF 1 cap_step.arrive] by simp
  have 3: "cap_reachable 1 (?s 0 [Permit, Waiting])"
    by (rule run [OF 2]) (simp add: task_step.acquire)
  have 4: "cap_reachable 1 (?s 0 [Dialing, Waiting])"
    using run [OF 3, of 0 Dialing] task_step.pop_empty by blast
  have 5: "cap_reachable 1 (?s 0 [Arming 7, Waiting])"
    by (rule run [OF 4, of 0 "Arming 7"]) (rule task_step.dialed, simp add: cap_conns_def)
  from pool_capacity_respected [OF 5] 5 show ?thesis
    by (intro exI [of _ "?s 0 [Arming 7, Waiting]"]) simp
qed

end
