(* ===== verification/Tx_Savepoint.thy ===== *)
theory Tx_Savepoint
  imports Decimal Pin
begin

text \<open>
  The savepoint stack of a transaction (\<open>SavepointStack\<close> of \<open>ferrod/src/tx/actor.rs\<close>) and the three
  commands that use it, against a specification of the savepoints the server keeps. Savepoint
  statements that a client sends as plain SQL pass the pool's guard inside a transaction and change
  the server's savepoints behind the engine's back; they are events of a run too.
\<close>

subsection \<open>The stack\<close>

record savepoint_entry =
  sp_engine_name :: string
  sp_client_name :: "string option"

record savepoint_stack =
  sp_counter :: "64 word"
  sp_entries :: "savepoint_entry list"

definition sp_new :: savepoint_stack where
  "sp_new = \<lparr>sp_counter = 0, sp_entries = []\<rparr>"

definition engine_name_of :: "64 word \<Rightarrow> string" where
  "engine_name_of n = ''sp_'' @ to_dec (unat n)"

definition sp_push :: "string option \<Rightarrow> savepoint_stack \<Rightarrow> string \<times> savepoint_stack" where
  "sp_push client_name sp =
     (let n = sp_counter sp + 1; name = engine_name_of n in
      (name, sp\<lparr>sp_counter := n,
                sp_entries := sp_entries sp @ [\<lparr>sp_engine_name = name, sp_client_name = client_name\<rparr>]\<rparr>))"

definition sp_pop :: "savepoint_stack \<Rightarrow> savepoint_stack" where
  "sp_pop sp = sp\<lparr>sp_entries := butlast (sp_entries sp)\<rparr>"

text \<open>\<open>iter().enumerate().rev().find(..)\<close>: the last index whose element satisfies the predicate.\<close>

fun rfind :: "('a \<Rightarrow> bool) \<Rightarrow> 'a list \<Rightarrow> (nat \<times> 'a) option" where
  "rfind p [] = None"
| "rfind p (x # xs) =
     (case rfind p xs of
        Some (i, y) \<Rightarrow> Some (Suc i, y)
      | None \<Rightarrow> if p x then Some (0, x) else None)"

definition sp_resolve :: "string option \<Rightarrow> savepoint_stack \<Rightarrow> (nat \<times> string) option" where
  "sp_resolve name sp =
     (case name of
        None \<Rightarrow>
          (if sp_entries sp = [] then None
           else Some (length (sp_entries sp) - 1, sp_engine_name (last (sp_entries sp))))
      | Some n \<Rightarrow>
          map_option (\<lambda>(i, e). (i, sp_engine_name e))
            (rfind (\<lambda>e. sp_client_name e = Some n \<or> sp_engine_name e = n) (sp_entries sp)))"

definition sp_truncate_release :: "nat \<Rightarrow> savepoint_stack \<Rightarrow> savepoint_stack" where
  "sp_truncate_release i sp = sp\<lparr>sp_entries := take i (sp_entries sp)\<rparr>"

definition sp_truncate_rollback_to :: "nat \<Rightarrow> savepoint_stack \<Rightarrow> savepoint_stack" where
  "sp_truncate_rollback_to i sp = sp\<lparr>sp_entries := take (i + 1) (sp_entries sp)\<rparr>"

subsection \<open>The commands\<close>

datatype sp_command =
    SpSavepoint "string option" | SpRelease "string option" | SpRollbackTo "string option"

text \<open>
  One command as the actor runs it: the statement it sends, if any, and the stack after the server's
  answer. A release or rollback of a name that does not resolve sends nothing.
\<close>

definition savepoint_sql :: "string \<Rightarrow> string" where
  "savepoint_sql n = ''SAVEPOINT '' @ n"

definition release_sql :: "string \<Rightarrow> string" where
  "release_sql n = ''RELEASE '' @ n"

definition rollback_to_sql :: "string \<Rightarrow> string" where
  "rollback_to_sql n = ''ROLLBACK TO '' @ n"

definition sp_statement :: "sp_command \<Rightarrow> savepoint_stack \<Rightarrow> string option" where
  "sp_statement cmd sp =
     (case cmd of
        SpSavepoint name \<Rightarrow> Some (savepoint_sql (fst (sp_push name sp)))
      | SpRelease name \<Rightarrow> map_option (\<lambda>(i, e). release_sql e) (sp_resolve name sp)
      | SpRollbackTo name \<Rightarrow> map_option (\<lambda>(i, e). rollback_to_sql e) (sp_resolve name sp))"

definition sp_after :: "sp_command \<Rightarrow> bool \<Rightarrow> savepoint_stack \<Rightarrow> savepoint_stack" where
  "sp_after cmd ok sp =
     (case cmd of
        SpSavepoint name \<Rightarrow>
          (let sp' = snd (sp_push name sp) in if ok then sp' else sp_pop sp')
      | SpRelease name \<Rightarrow>
          (case sp_resolve name sp of
             None \<Rightarrow> sp
           | Some (i, e) \<Rightarrow> if ok then sp_truncate_release i sp else sp)
      | SpRollbackTo name \<Rightarrow>
          (case sp_resolve name sp of
             None \<Rightarrow> sp
           | Some (i, e) \<Rightarrow> if ok then sp_truncate_rollback_to i sp else sp))"

subsection \<open>What the server keeps\<close>

text \<open>
  The savepoints of a transaction on the server, oldest first. \<open>SAVEPOINT n\<close> adds one, \<open>RELEASE n\<close>
  destroys the latest of that name and all later ones, \<open>ROLLBACK TO n\<close> destroys those after it; the
  latter two fail when there is no such savepoint.
\<close>

fun last_index :: "'a \<Rightarrow> 'a list \<Rightarrow> nat option" where
  "last_index a [] = None"
| "last_index a (x # xs) =
     (case last_index a xs of Some i \<Rightarrow> Some (Suc i) | None \<Rightarrow> if x = a then Some 0 else None)"

definition server_savepoints :: "string \<Rightarrow> string list \<Rightarrow> string list option" where
  "server_savepoints stmt st =
     (case strip_prefix ''SAVEPOINT '' stmt of
        Some n \<Rightarrow> Some (st @ [n])
      | None \<Rightarrow>
          (case strip_prefix ''RELEASE '' stmt of
             Some n \<Rightarrow> map_option (\<lambda>i. take i st) (last_index n st)
           | None \<Rightarrow>
               (case strip_prefix ''ROLLBACK TO '' stmt of
                  Some n \<Rightarrow> map_option (\<lambda>i. take (i + 1) st) (last_index n st)
                | None \<Rightarrow> None)))"

text \<open>What a client's own savepoint statement asks of the server; how the server reads its text is the server's affair.\<close>

datatype client_savepoint = ClientSet string | ClientRelease string | ClientBackTo string

fun client_name :: "client_savepoint \<Rightarrow> string" where
  "client_name (ClientSet n) = n"
| "client_name (ClientRelease n) = n"
| "client_name (ClientBackTo n) = n"

definition client_savepoints :: "client_savepoint \<Rightarrow> string list \<Rightarrow> string list option" where
  "client_savepoints op st =
     (case op of
        ClientSet n \<Rightarrow> Some (st @ [n])
      | ClientRelease n \<Rightarrow> map_option (\<lambda>i. take i st) (last_index n st)
      | ClientBackTo n \<Rightarrow> map_option (\<lambda>i. take (i + 1) st) (last_index n st))"

text \<open>
  A run: the engine's commands and the client's own statements, each with whether the server is healthy
  enough to carry it out. The first flag says that the server knew the savepoint of every statement
  the engine sent; the second that the client kept its own savepoints nested, that is, that none of its
  releases and rollbacks destroyed a savepoint of the engine.
\<close>

datatype sp_event = EngineSp sp_command | ClientSp client_savepoint

abbreviation engine_named_sp :: "string \<Rightarrow> bool" where
  "engine_named_sp n \<equiv> prefix ''sp_'' n"

fun sp_run ::
  "(sp_event \<times> bool) list \<Rightarrow> savepoint_stack \<times> string list \<Rightarrow> (savepoint_stack \<times> string list) \<times> bool \<times> bool" where
  "sp_run [] s = (s, True, True)"
| "sp_run ((EngineSp cmd, healthy) # es) (sp, st) =
     (case sp_statement cmd sp of
        None \<Rightarrow> sp_run es (sp_after cmd True sp, st)
      | Some stmt \<Rightarrow>
          (case server_savepoints stmt st of
             Some st' \<Rightarrow>
               if healthy then sp_run es (sp_after cmd True sp, st')
               else sp_run es (sp_after cmd False sp, st)
           | None \<Rightarrow> (case sp_run es (sp_after cmd False sp, st) of (s, known, nested) \<Rightarrow> (s, False, nested))))"
| "sp_run ((ClientSp op, healthy) # es) (sp, st) =
     (case client_savepoints op st of
        Some st' \<Rightarrow>
          if healthy then
            (case sp_run es (sp, st') of
               (s, known, nested) \<Rightarrow>
                 (s, known, nested \<and> filter engine_named_sp st' = filter engine_named_sp st))
          else sp_run es (sp, st)
      | None \<Rightarrow> sp_run es (sp, st))"

text \<open>The entry a command's name stands for: any one when it has none, else one with that alias or that engine name.\<close>

definition sp_answers_to :: "string option \<Rightarrow> savepoint_entry \<Rightarrow> bool" where
  "sp_answers_to name e \<longleftrightarrow> name = None \<or> sp_client_name e = name \<or> Some (sp_engine_name e) = name"

definition newest_answering :: "string option \<Rightarrow> savepoint_stack \<Rightarrow> nat \<Rightarrow> bool" where
  "newest_answering name sp i \<longleftrightarrow>
     i < length (sp_entries sp) \<and> sp_answers_to name (sp_entries sp ! i) \<and>
     (\<forall>j. i < j \<and> j < length (sp_entries sp) \<longrightarrow> \<not> sp_answers_to name (sp_entries sp ! j))"

subsection \<open>Mirroring\<close>

lemma rfind_Some: "rfind p xs = Some (i, x) \<Longrightarrow> i < length xs \<and> xs ! i = x \<and> p x"
  by (induction xs arbitrary: i) (auto split: option.splits if_splits)

lemma last_index_nth: "distinct xs \<Longrightarrow> i < length xs \<Longrightarrow> last_index (xs ! i) xs = Some i"
proof (induction xs arbitrary: i)
  case (Cons x xs)
  have none: "last_index x ys = None" if "x \<notin> set ys" for ys
    using that by (induction ys) auto
  show ?case using Cons none by (cases i) (auto split: option.splits)
qed simp

lemma server_statements [simp]:
  "server_savepoints (savepoint_sql n) st = Some (st @ [n])"
  "server_savepoints (release_sql n) st = map_option (\<lambda>i. take i st) (last_index n st)"
  "server_savepoints (rollback_to_sql n) st = map_option (\<lambda>i. take (i + 1) st) (last_index n st)"
  by (simp_all add: server_savepoints_def savepoint_sql_def release_sql_def rollback_to_sql_def strip_prefix_def)

lemma rfind_None: "rfind p xs = None \<longleftrightarrow> (\<forall>x \<in> set xs. \<not> p x)"
  by (induction xs) (auto split: option.splits)

lemma rfind_newest:
  "rfind p xs = Some (i, x) \<Longrightarrow> i < j \<Longrightarrow> j < length xs \<Longrightarrow> \<not> p (xs ! j)"
proof (induction xs arbitrary: i j)
  case (Cons y ys)
  obtain j' where j: "j = Suc j'" using Cons.prems(2) by (cases j) auto
  show ?case
  proof (cases "rfind p ys")
    case None
    then show ?thesis using Cons.prems j by (simp add: rfind_None split: if_splits)
  next
    case (Some z)
    then show ?thesis using Cons j by (cases z) auto
  qed
qed simp

lemma newest_unique: "newest_answering name sp i \<Longrightarrow> newest_answering name sp j \<Longrightarrow> i = j"
  unfolding newest_answering_def by (metis linorder_neqE_nat)

lemma sp_resolve_answers:
  "sp_resolve name sp = Some (i, e) \<Longrightarrow> newest_answering name sp i \<and> e = sp_engine_name (sp_entries sp ! i)"
proof (cases name)
  case None
  moreover assume "sp_resolve name sp = Some (i, e)"
  ultimately show ?thesis
    by (auto simp: sp_resolve_def newest_answering_def sp_answers_to_def last_conv_nth split: if_splits)
next
  case (Some n)
  let ?p = "\<lambda>e. sp_client_name e = Some n \<or> sp_engine_name e = n"
  assume "sp_resolve name sp = Some (i, e)"
  then obtain x where r: "rfind ?p (sp_entries sp) = Some (i, x)" "e = sp_engine_name x"
    using Some by (auto simp: sp_resolve_def)
  have p: "sp_answers_to name = ?p" using Some by (auto simp: sp_answers_to_def)
  show ?thesis using rfind_Some [OF r(1)] rfind_newest [OF r(1)] r(2) unfolding newest_answering_def p by blast
qed

lemma sp_resolve_none: "sp_resolve name sp = None \<Longrightarrow> \<not> newest_answering name sp i"
  by (cases name)
    (auto simp: sp_resolve_def newest_answering_def sp_answers_to_def rfind_None split: if_splits)

lemma sp_resolve_newest:
  "sp_resolve name sp = Some (i, e) \<longleftrightarrow> newest_answering name sp i \<and> e = sp_engine_name (sp_entries sp ! i)"
proof (cases "sp_resolve name sp")
  case None
  then show ?thesis using sp_resolve_none by simp
next
  case (Some z)
  obtain j e' where z: "z = (j, e')" by fastforce
  show ?thesis using sp_resolve_answers [OF Some [unfolded z]] newest_unique [of name sp j i] Some z by auto
qed

abbreviation sp_names :: "savepoint_stack \<Rightarrow> string list" where
  "sp_names sp \<equiv> map sp_engine_name (sp_entries sp)"

text \<open>The names on the stack are the engine's, by increasing number.\<close>

definition numbered :: "savepoint_stack \<Rightarrow> bool" where
  "numbered sp \<longleftrightarrow>
     (\<exists>ns. sp_names sp = map (\<lambda>n. ''sp_'' @ to_dec n) ns \<and> sorted_wrt (<) ns \<and>
        (\<forall>n \<in> set ns. n \<le> unat (sp_counter sp)))"

lemma numbered_facts:
  assumes "numbered sp"
  shows "distinct (sp_names sp)" "\<forall>n \<in> set (sp_names sp). engine_named_sp n"
proof -
  obtain ns where ns: "sp_names sp = map (\<lambda>n. ''sp_'' @ to_dec n) ns" "sorted_wrt (<) ns"
    using assms by (auto simp: numbered_def)
  then have "distinct (map (\<lambda>n. ''sp_'' @ to_dec n) ns)"
    by (auto simp: distinct_map inj_on_def to_dec_inj strict_sorted_iff)
  then show "distinct (sp_names sp)" by (simp only: ns(1))
  show "\<forall>n \<in> set (sp_names sp). engine_named_sp n" unfolding ns(1) by auto
qed

lemma numbered_take: "numbered sp \<Longrightarrow> numbered (sp\<lparr>sp_entries := take i (sp_entries sp)\<rparr>)"
proof -
  assume "numbered sp"
  then obtain ns where ns: "sp_names sp = map (\<lambda>n. ''sp_'' @ to_dec n) ns" "sorted_wrt (<) ns"
    "\<forall>n \<in> set ns. n \<le> unat (sp_counter sp)" by (auto simp: numbered_def)
  have "map sp_engine_name (take i (sp_entries sp)) = map (\<lambda>n. ''sp_'' @ to_dec n) (take i ns)"
    by (simp only: take_map [symmetric] ns(1))
  then show ?thesis unfolding numbered_def
    using ns(2,3) by (intro exI [of _ "take i ns"]) (auto intro: sorted_wrt_take dest: in_set_takeD)
qed

lemma unat_Suc: "unat n + 1 < 2 ^ 64 \<Longrightarrow> unat (n + 1) = unat n + 1" for n :: "64 word"
  by (simp add: unat_word_ariths)

lemma numbered_push:
  assumes "numbered sp" "unat (sp_counter sp) + 1 < 2 ^ 64"
  shows "numbered (snd (sp_push name sp))" "sp_names (snd (sp_push name sp)) = sp_names sp @ [fst (sp_push name sp)]"
    and "numbered (sp_pop (snd (sp_push name sp)))" "sp_names (sp_pop (snd (sp_push name sp))) = sp_names sp"
    and "engine_named_sp (fst (sp_push name sp))"
proof -
  obtain ns where ns: "sp_names sp = map (\<lambda>n. ''sp_'' @ to_dec n) ns" "sorted_wrt (<) ns"
    "\<forall>n \<in> set ns. n \<le> unat (sp_counter sp)" using assms(1) by (auto simp: numbered_def)
  let ?n = "unat (sp_counter sp) + 1"
  have n: "unat (sp_counter sp + 1) = ?n" using unat_Suc [OF assms(2)] .
  have "sorted_wrt (<) (ns @ [?n])" "\<forall>m \<in> set (ns @ [?n]). m \<le> ?n"
    using ns by (auto simp: sorted_wrt_append less_Suc_eq_le)
  then show "numbered (snd (sp_push name sp))"
    using ns n by (auto simp: numbered_def sp_push_def Let_def engine_name_of_def intro!: exI [of _ "ns @ [?n]"])
  have "\<forall>m \<in> set ns. m \<le> ?n" using ns(3) by auto
  then show "numbered (sp_pop (snd (sp_push name sp)))"
    using ns n by (auto simp: numbered_def sp_push_def sp_pop_def Let_def intro!: exI [of _ ns])
  show "sp_names (snd (sp_push name sp)) = sp_names sp @ [fst (sp_push name sp)]"
    "sp_names (sp_pop (snd (sp_push name sp))) = sp_names sp" "engine_named_sp (fst (sp_push name sp))"
    by (simp_all add: sp_push_def sp_pop_def Let_def engine_name_of_def)
qed

text \<open>Cutting the server's savepoints at an engine savepoint, and the stack at the same one.\<close>

lemma subseq_before:
  assumes "subseq (xs @ e # ys) zs" "distinct zs" "i < length zs" "zs ! i = e"
  shows "subseq xs (take i zs)"
proof -
  obtain us vs where u: "zs = us @ vs" "subseq xs us" "subseq (e # ys) vs"
    using list_emb_appendD [OF assms(1)] by blast
  obtain v1 v2 where v: "vs = v1 @ e # v2" using list_emb_ConsD [OF u(3)] by blast
  have "zs ! length (us @ v1) = e" "length (us @ v1) < length zs" using u(1) v by (simp_all add: nth_append)
  then have "i = length (us @ v1)" using nth_eq_iff_index_eq [OF assms(2,3), of "length (us @ v1)"] assms(4) by simp
  then have "take i zs = us @ v1" using u(1) v by simp
  then show ?thesis using u(2) by (simp add: subseq_rev_drop_many)
qed

lemma last_index_split: "last_index e st = Some j \<Longrightarrow> j < length st \<and> st ! j = e"
  by (induction st arbitrary: j) (auto split: option.splits if_splits)

lemma last_index_member: "e \<in> set st \<Longrightarrow> \<exists>j. last_index e st = Some j"
  by (induction st) (auto split: option.splits)

definition tracks :: "savepoint_stack \<Rightarrow> string list \<Rightarrow> bool" where
  "tracks sp st \<longleftrightarrow> numbered sp \<and> subseq (filter engine_named_sp st) (sp_names sp)"

definition agrees :: "savepoint_stack \<Rightarrow> string list \<Rightarrow> bool" where
  "agrees sp st \<longleftrightarrow> numbered sp \<and> filter engine_named_sp st = sp_names sp"

lemma split_at: "j < length st \<Longrightarrow> st = take j st @ st ! j # drop (Suc j) st"
  by (rule id_take_nth_drop)

lemma cut_tracks:
  assumes "tracks sp st" "last_index (sp_names sp ! i) st = Some j" "i < length (sp_entries sp)"
  shows "tracks (sp\<lparr>sp_entries := take i (sp_entries sp)\<rparr>) (take j st)"
    and "tracks (sp\<lparr>sp_entries := take (i + 1) (sp_entries sp)\<rparr>) (take (j + 1) st)"
    and "agrees sp st \<Longrightarrow> agrees (sp\<lparr>sp_entries := take i (sp_entries sp)\<rparr>) (take j st)"
    and "agrees sp st \<Longrightarrow> agrees (sp\<lparr>sp_entries := take (i + 1) (sp_entries sp)\<rparr>) (take (j + 1) st)"
proof -
  let ?e = "sp_names sp ! i" and ?f = "filter engine_named_sp"
  have n: "numbered sp" and sub: "subseq (?f st) (sp_names sp)" using assms(1) by (simp_all add: tracks_def)
  have il: "i < length (sp_names sp)" using assms(3) by simp
  have j: "j < length st" "st ! j = ?e" using last_index_split [OF assms(2)] by auto
  have e: "engine_named_sp ?e" using numbered_facts(2) [OF n] nth_mem [OF il] by blast
  have st: "?f st = ?f (take j st) @ ?e # ?f (drop (Suc j) st)"
    by (subst split_at [OF j(1)]) (simp only: filter_append j(2) filter.simps e if_True)
  have one: "?f (take (j + 1) st) = ?f (take j st) @ [?e]"
    using j e by (simp add: take_Suc_conv_app_nth)
  have stack: "take (i + 1) (sp_names sp) = take i (sp_names sp) @ [?e]" using il take_Suc_conv_app_nth [OF il] by simp
  have cut_names: "sp_names (sp\<lparr>sp_entries := take (i + 1) (sp_entries sp)\<rparr>) = take i (sp_names sp) @ [?e]"
    using stack by (simp add: take_map)
  have before: "subseq (?f (take j st)) (take i (sp_names sp))"
    using subseq_before [of "?f (take j st)" ?e "?f (drop (Suc j) st)" "sp_names sp" i] sub il numbered_facts(1) [OF n]
    by (simp only: st simp_thms)
  show "tracks (sp\<lparr>sp_entries := take i (sp_entries sp)\<rparr>) (take j st)"
    using numbered_take [OF n, of i] before by (simp add: tracks_def take_map)
  have "subseq (?f (take j st) @ [?e]) (take i (sp_names sp) @ [?e])" using before by simp
  then show "tracks (sp\<lparr>sp_entries := take (i + 1) (sp_entries sp)\<rparr>) (take (j + 1) st)"
    unfolding tracks_def one cut_names using numbered_take [OF n, of "i + 1"] by blast
  assume a: "agrees sp st"
  then have eq: "sp_names sp = ?f (take j st) @ ?e # ?f (drop (Suc j) st)" using st by (simp add: agrees_def)
  have "length (?f (take j st)) = i"
  proof -
    have "sp_names sp ! length (?f (take j st)) = ?e" by (subst eq) simp
    moreover have "length (?f (take j st)) < length (sp_names sp)" by (subst eq) simp
    ultimately show ?thesis using nth_eq_iff_index_eq [OF numbered_facts(1) [OF n] _ il] by blast
  qed
  then have cut: "take i (sp_names sp) = ?f (take j st)" by (subst eq) simp
  show "agrees (sp\<lparr>sp_entries := take i (sp_entries sp)\<rparr>) (take j st)"
    using numbered_take [OF n, of i] cut by (simp add: agrees_def take_map)
  show "agrees (sp\<lparr>sp_entries := take (i + 1) (sp_entries sp)\<rparr>) (take (j + 1) st)"
    unfolding agrees_def one cut_names cut using numbered_take [OF n, of "i + 1"] by blast
qed

lemma resolve_name:
  "sp_resolve name sp = Some (i, e) \<Longrightarrow> i < length (sp_entries sp) \<and> e = sp_names sp ! i"
  by (auto simp: sp_resolve_newest newest_answering_def)

lemma sp_resolve_names:
  "sp_resolve name sp = Some (i, e) \<longleftrightarrow> newest_answering name sp i \<and> e = sp_names sp ! i"
  by (auto simp: sp_resolve_newest newest_answering_def)

lemma engine_step:
  assumes t: "tracks sp st" and c: "unat (sp_counter sp) + 1 < 2 ^ 64" and s: "sp_statement cmd sp = Some stmt"
  shows "tracks (sp_after cmd False sp) st" "agrees sp st \<Longrightarrow> agrees (sp_after cmd False sp) st"
    and "server_savepoints stmt st = Some st' \<Longrightarrow> tracks (sp_after cmd True sp) st'"
    and "server_savepoints stmt st = Some st' \<Longrightarrow> agrees sp st \<Longrightarrow> agrees (sp_after cmd True sp) st'"
    and "agrees sp st \<Longrightarrow> server_savepoints stmt st \<noteq> None"
proof -
  have n: "numbered sp" using t by (simp add: tracks_def)
  have known: "\<exists>j. last_index e st = Some j" if "sp_resolve name sp = Some (i, e)" "agrees sp st" for name i e
  proof -
    have "e \<in> set (sp_names sp)" using resolve_name [OF that(1)] nth_mem [of i "sp_names sp"] by auto
    then have "e \<in> set (filter engine_named_sp st)" using that(2) by (simp only: agrees_def)
    then show ?thesis by (auto intro: last_index_member)
  qed
  show "tracks (sp_after cmd False sp) st" "agrees sp st \<Longrightarrow> agrees (sp_after cmd False sp) st"
    using numbered_push [OF n c] t
    by (cases cmd; simp add: tracks_def agrees_def sp_after_def Let_def split: option.split prod.split)+
  show "tracks (sp_after cmd True sp) st'" if v: "server_savepoints stmt st = Some st'"
  proof (cases cmd)
    case (SpSavepoint name)
    then show ?thesis using v s t numbered_push [OF n c, of name]
      by (auto simp: sp_statement_def sp_after_def Let_def tracks_def)
  next
    case (SpRelease name)
    then obtain i e where r: "sp_resolve name sp = Some (i, e)" "stmt = release_sql e" using s by (auto simp: sp_statement_def)
    then obtain j where "last_index e st = Some j" "st' = take j st" using v by auto
    then show ?thesis using SpRelease r cut_tracks(1) [OF t, of i j] resolve_name [OF r(1)]
      by (simp add: sp_after_def sp_truncate_release_def)
  next
    case (SpRollbackTo name)
    then obtain i e where r: "sp_resolve name sp = Some (i, e)" "stmt = rollback_to_sql e" using s by (auto simp: sp_statement_def)
    then obtain j where "last_index e st = Some j" "st' = take (j + 1) st" using v by auto
    then show ?thesis using SpRollbackTo r cut_tracks(2) [OF t, of i j] resolve_name [OF r(1)]
      by (simp add: sp_after_def sp_truncate_rollback_to_def)
  qed
  show "agrees (sp_after cmd True sp) st'" if v: "server_savepoints stmt st = Some st'" "agrees sp st"
  proof (cases cmd)
    case (SpSavepoint name)
    then show ?thesis using v s numbered_push [OF n c, of name]
      by (auto simp: sp_statement_def sp_after_def Let_def agrees_def)
  next
    case (SpRelease name)
    then obtain i e where r: "sp_resolve name sp = Some (i, e)" "stmt = release_sql e" using s by (auto simp: sp_statement_def)
    then obtain j where "last_index e st = Some j" "st' = take j st" using v by auto
    then show ?thesis using SpRelease r cut_tracks(3) [OF t _ _ v(2), of i j] resolve_name [OF r(1)]
      by (simp add: sp_after_def sp_truncate_release_def)
  next
    case (SpRollbackTo name)
    then obtain i e where r: "sp_resolve name sp = Some (i, e)" "stmt = rollback_to_sql e" using s by (auto simp: sp_statement_def)
    then obtain j where "last_index e st = Some j" "st' = take (j + 1) st" using v by auto
    then show ?thesis using SpRollbackTo r cut_tracks(4) [OF t _ _ v(2), of i j] resolve_name [OF r(1)]
      by (simp add: sp_after_def sp_truncate_rollback_to_def)
  qed
  show "server_savepoints stmt st \<noteq> None" if "agrees sp st"
    using s known [OF _ that] by (cases cmd) (auto simp: sp_statement_def)
qed

lemma client_step:
  assumes "client_savepoints op st = Some st'" "\<not> engine_named_sp (client_name op)"
  shows "subseq (filter engine_named_sp st') (filter engine_named_sp st)"
proof -
  have "subseq (filter engine_named_sp (take j st)) (filter engine_named_sp st)" for j
    using subseq_filter [of "take j st" st engine_named_sp] by (simp add: prefix_imp_subseq take_is_prefix)
  then show ?thesis using assms by (cases op) (auto simp: client_savepoints_def)
qed

lemma sp_after_unresolved: "sp_statement cmd sp = None \<Longrightarrow> sp_after cmd b sp = sp"
  by (cases cmd) (auto simp: sp_statement_def sp_after_def)

lemma sp_after_counter:
  "unat (sp_counter sp) + 1 < 2 ^ 64 \<Longrightarrow> unat (sp_counter (sp_after cmd b sp)) \<le> unat (sp_counter sp) + 1"
  using unat_Suc [of "sp_counter sp"]
  by (cases cmd) (auto simp: sp_after_def sp_push_def sp_pop_def sp_truncate_release_def
      sp_truncate_rollback_to_def Let_def split: option.splits prod.splits)

definition own_names :: "(sp_event \<times> bool) list \<Rightarrow> bool" where
  "own_names es \<longleftrightarrow> (\<forall>op healthy. (ClientSp op, healthy) \<in> set es \<longrightarrow> \<not> engine_named_sp (client_name op))"

lemma sp_run_tracks:
  "sp_run es (sp, st) = ((sp', st'), known, nested) \<Longrightarrow> tracks sp st \<Longrightarrow> own_names es \<Longrightarrow>
   unat (sp_counter sp) + length es < 2 ^ 64 \<Longrightarrow>
   tracks sp' st' \<and> (agrees sp st \<and> nested \<longrightarrow> agrees sp' st' \<and> known)"
proof (induction es arbitrary: sp st known nested)
  case (Cons x es)
  have own: "own_names es" using Cons.prems(3) by (auto simp: own_names_def)
  obtain ev healthy where x: "x = (ev, healthy)" by fastforce
  show ?case
  proof (cases ev)
    case (EngineSp cmd)
    have c: "unat (sp_counter sp) + 1 < 2 ^ 64" using Cons.prems(4) by simp
    have rest: "unat (sp_counter (sp_after cmd b sp)) + length es < 2 ^ 64" for b
      using sp_after_counter [OF c, of cmd b] Cons.prems(4) by simp
    note IH = Cons.IH [OF _ _ own rest]
    show ?thesis
    proof (cases "sp_statement cmd sp")
      case None
      then have "sp_run es (sp, st) = ((sp', st'), known, nested)"
        using Cons.prems(1) x EngineSp sp_after_unresolved [OF None] by simp
      then show ?thesis using IH [of True, unfolded sp_after_unresolved [OF None]] Cons.prems(2) by blast
    next
      case (Some stmt)
      note step = engine_step [OF Cons.prems(2) c Some]
      show ?thesis
      proof (cases "server_savepoints stmt st")
        case None
        obtain s1 k1 n1 where r: "sp_run es (sp_after cmd False sp, st) = (s1, k1, n1)" by (metis prod_cases3)
        then have "s1 = (sp', st')" "\<not> known" using Cons.prems(1) x EngineSp Some None by auto
        then show ?thesis using IH [of False] r step(1,5) None by auto
      next
        case (Some st1)
        then have "sp_run es (sp_after cmd healthy sp, if healthy then st1 else st) = ((sp', st'), known, nested)"
          using Cons.prems(1) x EngineSp \<open>sp_statement cmd sp = Some stmt\<close> by (cases healthy) simp_all
        then show ?thesis using IH [of healthy] step(1-4) Some by (cases healthy) auto
      qed
    qed
  next
    case (ClientSp op)
    have c: "unat (sp_counter sp) + length es < 2 ^ 64" using Cons.prems(4) by simp
    have nm: "\<not> engine_named_sp (client_name op)" using Cons.prems(3) x ClientSp by (auto simp: own_names_def)
    show ?thesis
    proof (cases "client_savepoints op st")
      case None
      then show ?thesis using Cons.IH [OF _ Cons.prems(2) own c] Cons.prems(1) x ClientSp by simp
    next
      case (Some st1)
      have t1: "tracks sp st1"
        using client_step [OF Some nm] Cons.prems(2) subseq_order.trans unfolding tracks_def by blast
      obtain s1 k1 n1 where r: "sp_run es (sp, st1) = (s1, k1, n1)" by (metis prod_cases3)
      show ?thesis
      proof (cases healthy)
        case True
        then have "s1 = (sp', st')" "known = k1" "nested \<longleftrightarrow> n1 \<and> filter engine_named_sp st1 = filter engine_named_sp st"
          using Cons.prems(1) x ClientSp Some r by auto
        then show ?thesis using Cons.IH [OF _ t1 own c, of k1 n1] r by (auto simp: agrees_def)
      next
        case False
        then show ?thesis using Cons.IH [OF _ Cons.prems(2) own c] Cons.prems(1) x ClientSp Some by simp
      qed
    qed
  qed
qed simp


definition demo_events :: "(sp_event \<times> bool) list" where
  "demo_events =
     [(EngineSp (SpSavepoint (Some ''a'')), True), (ClientSp (ClientSet ''DOCTRINE_1''), True),
      (EngineSp (SpSavepoint None), True), (EngineSp (SpRelease (Some ''a'')), False),
      (EngineSp (SpRollbackTo None), True), (ClientSp (ClientBackTo ''DOCTRINE_1''), True)]"


text \<open>
  A name resolves to the latest savepoint that has it as its alias or as its engine name, in one
  search: an engine name further up the stack wins over a client's alias below it.
\<close>

theorem alias_shadowed_by_engine_name:
  "let sp = snd (sp_push None (snd (sp_push (Some ''sp_2'') sp_new))) in
   sp_resolve (Some ''sp_2'') sp = Some (1, ''sp_2'') \<and>
   sp_client_name (sp_entries sp ! 0) = Some ''sp_2''"
  by code_simp

end
