(* ===== verification/Tx_Registry.thy ===== *)
theory Tx_Registry
  imports Pool_Backend
begin

text \<open>
  The registry of open transactions (\<open>ferrod/src/tx/mod.rs\<close>): the table from transaction ids to live
  actors and deadline tombstones, under one mutex. A channel, a token and a watch of a handle are the
  type parameter: the registry stores and clones them, and fires a token only in \<open>abort_session\<close>.
\<close>

type_synonym session_id = "64 word"

record 'ch tx_handle =
  owner :: session_id
  channels :: 'ch
  streaming :: bool
  copy :: bool
  pool_name :: string
  th_dialect :: dialect

datatype tx_lookup_err = NotFoundOrForbidden | Tombstoned_err

datatype 'ch tx_entry = Active "'ch tx_handle" | Tombstoned session_id

fun entry_owner :: "'ch tx_entry \<Rightarrow> session_id" where
  "entry_owner (Active h) = owner h"
| "entry_owner (Tombstoned sid) = sid"

fun is_tombstone :: "'ch tx_entry option \<Rightarrow> bool" where
  "is_tombstone (Some (Tombstoned _)) = True"
| "is_tombstone _ = False"

record 'ch tx_table =
  entries :: "tx_id \<rightharpoonup> 'ch tx_entry"
  tombstone_order :: "tx_id list"

definition TOMBSTONE_CAP :: nat where
  "TOMBSTONE_CAP = 4096"

definition tx_table_new :: "'ch tx_table" where
  "tx_table_new = \<lparr>entries = Map.empty, tombstone_order = []\<rparr>"

text \<open>The two counters: \<open>fetch_add\<close> returns the old value and wraps.\<close>

definition fetch_add_one :: "64 word \<Rightarrow> 64 word \<times> 64 word" where
  "fetch_add_one n = (n, n + 1)"

definition register :: "tx_id \<Rightarrow> 'ch tx_handle \<Rightarrow> 'ch tx_table \<Rightarrow> 'ch tx_table" where
  "register i h t = t\<lparr>entries := (entries t)(i \<mapsto> Active h)\<rparr>"

definition deregister :: "tx_id \<Rightarrow> 'ch tx_table \<Rightarrow> 'ch tx_table" where
  "deregister i t = t\<lparr>entries := (entries t)(i := None)\<rparr>"

text \<open>The eviction loop of \<open>tombstone\<close>, for a cap: it pops until the queue is within it.\<close>

fun evict :: "nat \<Rightarrow> (tx_id \<rightharpoonup> 'ch tx_entry) \<Rightarrow> tx_id list \<Rightarrow> (tx_id \<rightharpoonup> 'ch tx_entry) \<times> tx_id list" where
  "evict cap m [] = (m, [])"
| "evict cap m (oldest # rest) =
     (if cap < length (oldest # rest)
      then evict cap (if is_tombstone (m oldest) then m(oldest := None) else m) rest
      else (m, oldest # rest))"

definition tombstone :: "tx_id \<Rightarrow> 'ch tx_table \<Rightarrow> 'ch tx_table" where
  "tombstone i t =
     (case entries t i of
        None \<Rightarrow> t
      | Some e \<Rightarrow>
          (case evict TOMBSTONE_CAP ((entries t)(i \<mapsto> Tombstoned (entry_owner e))) (tombstone_order t @ [i]) of
             (m, order) \<Rightarrow> t\<lparr>entries := m, tombstone_order := order\<rparr>))"

definition tx_lookup :: "tx_id \<Rightarrow> session_id \<Rightarrow> 'ch tx_table \<Rightarrow> tx_lookup_err + 'ch tx_handle" where
  "tx_lookup i caller t =
     (case entries t i of
        Some (Active h) \<Rightarrow> if owner h = caller then Inr h else Inl NotFoundOrForbidden
      | Some (Tombstoned sid) \<Rightarrow> if sid = caller then Inl Tombstoned_err else Inl NotFoundOrForbidden
      | None \<Rightarrow> Inl NotFoundOrForbidden)"

text \<open>
  \<open>abort_session\<close> takes the lock twice: it collects the live transactions of the session, whose tokens
  it then fires, and, after the bounded wait in which other tasks run, it drops what the session still
  owns.
\<close>

definition to_abort :: "session_id \<Rightarrow> 'ch tx_table \<Rightarrow> tx_id \<Rightarrow> bool" where
  "to_abort sid t i = (case entries t i of Some (Active h) \<Rightarrow> owner h = sid | _ \<Rightarrow> False)"

definition purge_session :: "session_id \<Rightarrow> 'ch tx_table \<Rightarrow> 'ch tx_table" where
  "purge_session sid t =
     t\<lparr>entries := (\<lambda>i. case entries t i of
                          Some e \<Rightarrow> if entry_owner e \<noteq> sid then Some e else None
                        | None \<Rightarrow> None)\<rparr>"

subsection \<open>Histories\<close>

text \<open>The operations that take the lock to write, in the order in which they take it.\<close>

datatype 'ch tx_event =
    Register tx_id "'ch tx_handle" | Deregister tx_id | Tombstone tx_id | Purge session_id

fun tx_apply :: "'ch tx_event \<Rightarrow> 'ch tx_table \<Rightarrow> 'ch tx_table" where
  "tx_apply (Register i h) = register i h"
| "tx_apply (Deregister i) = deregister i"
| "tx_apply (Tombstone i) = tombstone i"
| "tx_apply (Purge sid) = purge_session sid"

definition tx_history :: "'ch tx_event list \<Rightarrow> 'ch tx_table \<Rightarrow> 'ch tx_table" where
  "tx_history es t = fold tx_apply es t"

lemma tx_history_simps [simp]:
  "tx_history [] t = t"
  "tx_history (e # es) t = tx_history es (tx_apply e t)"
  "tx_history (es @ es') t = tx_history es' (tx_history es t)"
  by (simp_all add: tx_history_def)

subsection \<open>The bound on tombstones\<close>

definition tombstones :: "(tx_id \<rightharpoonup> 'ch tx_entry) \<Rightarrow> tx_id set" where
  "tombstones m = {i. is_tombstone (m i)}"

lemma evict_bounded:
  "tombstones m \<subseteq> set order \<Longrightarrow> evict cap m order = (m', order') \<Longrightarrow>
   tombstones m' \<subseteq> set order' \<and> length order' \<le> cap"
proof (induction cap m order arbitrary: m' order' rule: evict.induct)
  case (2 cap m oldest rest)
  have "tombstones (if is_tombstone (m oldest) then m(oldest := None) else m) \<subseteq> set rest"
    if "tombstones m \<subseteq> set (oldest # rest)"
    using that by (auto simp: tombstones_def split: if_splits)
  then show ?case using 2 by (auto split: if_splits)
qed auto

definition tombstones_bounded :: "'ch tx_table \<Rightarrow> bool" where
  "tombstones_bounded t \<longleftrightarrow>
     tombstones (entries t) \<subseteq> set (tombstone_order t) \<and> length (tombstone_order t) \<le> TOMBSTONE_CAP"

lemma tombstone_bounded: "tombstones_bounded t \<Longrightarrow> tombstones_bounded (tombstone i t)"
proof (cases "entries t i")
  case (Some e)
  assume t: "tombstones_bounded t"
  let ?m = "(entries t)(i \<mapsto> Tombstoned (entry_owner e))"
  obtain m order where r: "evict TOMBSTONE_CAP ?m (tombstone_order t @ [i]) = (m, order)" by fastforce
  have "tombstones ?m \<subseteq> set (tombstone_order t @ [i])"
    using t by (auto simp: tombstones_bounded_def tombstones_def split: if_splits)
  from evict_bounded [OF this r] show ?thesis using Some r by (simp add: tombstone_def tombstones_bounded_def)
qed (simp add: tombstone_def)

lemma tx_apply_bounded: "tombstones_bounded t \<Longrightarrow> tombstones_bounded (tx_apply e t)"
proof (cases e)
  case (Tombstone i)
  then show "tombstones_bounded t \<Longrightarrow> ?thesis" by (simp add: tombstone_bounded)
next
  case (Purge sid)
  have "tombstones (entries (purge_session sid t)) \<subseteq> tombstones (entries t)"
    by (auto simp: tombstones_def purge_session_def split: option.split_asm if_split_asm)
  moreover have "tombstone_order (purge_session sid t) = tombstone_order t" by (simp add: purge_session_def)
  ultimately show "tombstones_bounded t \<Longrightarrow> ?thesis" using Purge
    by (auto simp: tombstones_bounded_def)
qed (auto simp: tombstones_bounded_def tombstones_def register_def deregister_def split: if_splits)

lemma tx_history_bounded: "tombstones_bounded t \<Longrightarrow> tombstones_bounded (tx_history es t)"
  by (induction es arbitrary: t) (auto simp: tx_apply_bounded)

text \<open>
  Whatever the sessions do, the registry keeps at most \<open>TOMBSTONE_CAP\<close> tombstones, and the eviction
  queue is no longer than that either.
\<close>

theorem tombstones_are_bounded:
  "card (tombstones (entries (tx_history es tx_table_new))) \<le> TOMBSTONE_CAP \<and>
   length (tombstone_order (tx_history es tx_table_new)) \<le> TOMBSTONE_CAP"
proof -
  have "tombstones_bounded (tx_history es tx_table_new)"
    by (rule tx_history_bounded) (simp add: tombstones_bounded_def tx_table_new_def tombstones_def)
  then show ?thesis unfolding tombstones_bounded_def
    by (meson List.finite_set card_length card_mono le_trans)
qed

subsection \<open>Which transaction a lookup finds\<close>

text \<open>The live handle of an id, read off the history of that id alone.\<close>

fun live_after :: "tx_id \<Rightarrow> 'ch tx_event \<Rightarrow> 'ch tx_handle option \<Rightarrow> 'ch tx_handle option" where
  "live_after i (Register j h) l = (if j = i then Some h else l)"
| "live_after i (Deregister j) l = (if j = i then None else l)"
| "live_after i (Tombstone j) l = (if j = i then None else l)"
| "live_after i (Purge sid) l = (case l of Some h \<Rightarrow> if owner h = sid then None else l | None \<Rightarrow> None)"

definition live_of :: "tx_id \<Rightarrow> 'ch tx_event list \<Rightarrow> 'ch tx_handle option" where
  "live_of i es = fold (live_after i) es None"

fun active :: "'ch tx_entry option \<Rightarrow> 'ch tx_handle option" where
  "active (Some (Active h)) = Some h"
| "active _ = None"

lemma evict_active: "evict cap m order = (m', order') \<Longrightarrow> active (m' i) = active (m i)"
proof (induction cap m order arbitrary: m' order' rule: evict.induct)
  case (2 cap m oldest rest)
  have "active ((if is_tombstone (m oldest) then m(oldest := None) else m) i) = active (m i)"
    by (cases "m oldest" rule: is_tombstone.cases) auto
  then show ?case using 2 by (auto split: if_splits simp del: fun_upd_apply)
qed auto

lemma tombstone_active: "active (entries (tombstone i t) j) = (if i = j then None else active (entries t j))"
proof (cases "entries t i")
  case (Some e)
  obtain m order where
    r: "evict TOMBSTONE_CAP ((entries t)(i \<mapsto> Tombstoned (entry_owner e))) (tombstone_order t @ [i]) = (m, order)"
    by fastforce
  show ?thesis using evict_active [OF r, of j] r Some by (auto simp: tombstone_def)
qed (auto simp: tombstone_def)

lemma tx_apply_active: "active (entries (tx_apply e t) i) = live_after i e (active (entries t i))"
proof (cases e)
  case (Tombstone j)
  then show ?thesis by (simp add: tombstone_active)
next
  case (Purge sid)
  then show ?thesis
    by (cases "entries t i" rule: active.cases) (auto simp: purge_session_def)
qed (auto simp: register_def deregister_def)

lemma tx_history_active: "active (entries (tx_history es t) i) = fold (live_after i) es (active (entries t i))"
  by (induction es arbitrary: t) (auto simp: tx_apply_active)

text \<open>
  A lookup succeeds exactly when the transaction is live by the history of its own id and the
  caller is the session that opened it, and then gives the handle that was registered. No session
  reaches another's transaction, and no event on another id or session changes the outcome.
\<close>

theorem lookup_finds_own_live_tx:
  "tx_lookup i caller (tx_history es tx_table_new) = Inr h \<longleftrightarrow> live_of i es = Some h \<and> owner h = caller"
proof -
  have "live_of i es = active (entries (tx_history es tx_table_new) i)"
    by (simp add: tx_history_active tx_table_new_def live_of_def)
  then show ?thesis
    by (cases "entries (tx_history es tx_table_new) i" rule: active.cases) (auto simp: tx_lookup_def)
qed

subsection \<open>How long a deadline is remembered\<close>

text \<open>The events that end the retention of a tombstone of a session, other than eviction.\<close>

fun spares :: "tx_id \<Rightarrow> session_id \<Rightarrow> 'ch tx_event \<Rightarrow> bool" where
  "spares i sid (Register j _) = (j \<noteq> i)"
| "spares i sid (Deregister j) = (j \<noteq> i)"
| "spares i sid (Tombstone j) = (j \<noteq> i)"
| "spares i sid (Purge s) = (s \<noteq> sid)"

fun is_tombstone_event :: "'ch tx_event \<Rightarrow> bool" where
  "is_tombstone_event (Tombstone _) = True"
| "is_tombstone_event _ = False"

text \<open>A tombstone that \<open>n\<close> more of them do not evict.\<close>

definition safe_for :: "nat \<Rightarrow> tx_id \<Rightarrow> session_id \<Rightarrow> 'ch tx_table \<Rightarrow> bool" where
  "safe_for n i sid t \<longleftrightarrow>
     entries t i = Some (Tombstoned sid) \<and> length (tombstone_order t) \<le> TOMBSTONE_CAP \<and>
     (\<exists>older newer. tombstone_order t = older @ i # newer \<and> i \<notin> set older \<and> i \<notin> set newer \<and>
        length newer + n < TOMBSTONE_CAP)"

lemma safe_forI:
  "entries t i = Some (Tombstoned sid) \<Longrightarrow> length (tombstone_order t) \<le> TOMBSTONE_CAP \<Longrightarrow>
   tombstone_order t = older @ i # newer \<Longrightarrow> i \<notin> set older \<Longrightarrow> i \<notin> set newer \<Longrightarrow>
   length newer + n < TOMBSTONE_CAP \<Longrightarrow> safe_for n i sid t"
  by (auto simp: safe_for_def)

lemma evict_within: "length order \<le> cap \<Longrightarrow> evict cap m order = (m, order)"
  by (cases order) auto

lemma safe_for_mono: "safe_for (Suc n) i sid t \<Longrightarrow> safe_for n i sid t"
proof -
  have "length newer + n < TOMBSTONE_CAP" if "length newer + Suc n < TOMBSTONE_CAP" for newer :: "tx_id list"
    using that by simp
  then show "safe_for (Suc n) i sid t \<Longrightarrow> safe_for n i sid t" unfolding safe_for_def by blast
qed

lemma tombstone_safe:
  assumes s: "safe_for (Suc n) i sid t" and ne: "j \<noteq> i"
  shows "safe_for n i sid (tombstone j t)"
proof (cases "entries t j")
  case None
  then show ?thesis using safe_for_mono [OF s] by (simp add: tombstone_def)
next
  case (Some e)
  obtain older newer where o: "tombstone_order t = older @ i # newer" "i \<notin> set older" "i \<notin> set newer"
    "length newer + Suc n < TOMBSTONE_CAP" and ent: "entries t i = Some (Tombstoned sid)"
    and len: "length (tombstone_order t) \<le> TOMBSTONE_CAP" using s by (auto simp: safe_for_def)
  show ?thesis
  proof (cases "length (tombstone_order t) < TOMBSTONE_CAP")
    case True
    then show ?thesis using Some o ent ne
      by (intro safe_forI [where older = older and newer = "newer @ [j]"])
        (simp_all add: tombstone_def evict_within)
  next
    case False
    then obtain x older' where x: "older = x # older'" using o(1,4) by (cases older) auto
    then have "tombstone_order t @ [j] = x # older' @ i # newer @ [j]"
      and "length (older' @ i # newer @ [j]) = TOMBSTONE_CAP" using o(1) len False by simp_all
    then show ?thesis using Some o ent ne x
      by (intro safe_forI [where older = older' and newer = "newer @ [j]"])
        (simp_all add: tombstone_def evict_within)
  qed
qed

lemma evict_order: "set (snd (evict cap m order)) \<subseteq> set order"
  by (induction cap m order rule: evict.induct) (auto simp del: fun_upd_apply)

lemma tombstone_order_apply:
  "set (tombstone_order (tx_apply e t)) \<subseteq> set (tombstone_order t) \<union> {i. e = Tombstone i}"
proof (cases e)
  case (Tombstone i)
  then show ?thesis
    using evict_order [of TOMBSTONE_CAP "(entries t)(i \<mapsto> Tombstoned (entry_owner (the (entries t i))))" "tombstone_order t @ [i]"]
    by (auto simp: tombstone_def case_prod_beta split: option.splits)
qed (auto simp: register_def deregister_def purge_session_def)

lemma tombstone_order_history:
  "list_all (\<lambda>e. e \<noteq> Tombstone i) es \<Longrightarrow> i \<notin> set (tombstone_order t) \<Longrightarrow>
   i \<notin> set (tombstone_order (tx_history es t))"
proof (induction es arbitrary: t)
  case (Cons e es)
  then show ?case using tombstone_order_apply [of e t] by auto
qed simp

lemma tx_apply_safe:
  assumes "safe_for n i sid t" "spares i sid e" "n = m + (if is_tombstone_event e then 1 else 0)"
  shows "safe_for m i sid (tx_apply e t)"
proof (cases e)
  case (Tombstone j)
  then show ?thesis using assms by (simp add: tombstone_safe)
qed (use assms in \<open>auto simp: safe_for_def register_def deregister_def purge_session_def\<close>)

lemma tx_history_safe:
  "safe_for n i sid t \<Longrightarrow> list_all (spares i sid) es \<Longrightarrow> length (filter is_tombstone_event es) \<le> n \<Longrightarrow>
   safe_for (n - length (filter is_tombstone_event es)) i sid (tx_history es t)"
proof (induction es arbitrary: n t)
  case (Cons e es)
  let ?m = "n - (if is_tombstone_event e then 1 else 0)"
  have "safe_for ?m i sid (tx_apply e t)"
    by (rule tx_apply_safe [OF Cons.prems(1)]) (use Cons.prems in \<open>auto split: if_splits\<close>)
  from Cons.IH [OF this] Cons.prems show ?case by (auto split: if_splits)
qed simp

lemma tombstone_fresh_safe:
  assumes "tombstones_bounded t" "entries t i = Some (Active h)" "i \<notin> set (tombstone_order t)"
  shows "safe_for (TOMBSTONE_CAP - 1) i (owner h) (tombstone i t)"
proof -
  have len: "length (tombstone_order t) \<le> TOMBSTONE_CAP" using assms(1) by (simp add: tombstones_bounded_def)
  have pos: "0 < TOMBSTONE_CAP" by (simp add: TOMBSTONE_CAP_def)
  show ?thesis
  proof (cases "length (tombstone_order t) < TOMBSTONE_CAP")
    case True
    then show ?thesis using assms pos
      by (intro safe_forI [where older = "tombstone_order t" and newer = "[]"])
        (simp_all add: tombstone_def evict_within)
  next
    case False
    then obtain x xs where x: "tombstone_order t = x # xs" using pos by (cases "tombstone_order t") auto
    then have "length (xs @ [i]) = TOMBSTONE_CAP" using len False by simp
    then show ?thesis using assms pos x
      by (intro safe_forI [where older = xs and newer = "[]"])
        (simp_all add: tombstone_def evict_within)
  qed
qed

text \<open>
  An owner learns of a deadline. Once the actor of a live transaction, whose id was never
  tombstoned before, records the deadline, its owner's lookup answers \<open>Tombstoned\<close> through whatever
  happens to other transactions and sessions, until \<open>TOMBSTONE_CAP\<close> later deadlines have passed; every
  other session is told the same as for an unknown id.
\<close>

theorem deadline_is_remembered:
  assumes "live_of i es = Some h" "list_all (\<lambda>e. e \<noteq> Tombstone i) es"
    and "list_all (spares i (owner h)) later" "length (filter is_tombstone_event later) < TOMBSTONE_CAP"
  shows "tx_lookup i caller (tx_history (es @ Tombstone i # later) tx_table_new) =
    Inl (if caller = owner h then Tombstoned_err else NotFoundOrForbidden)"
proof -
  let ?t = "tx_history es tx_table_new"
  have "active (entries ?t i) = Some h"
    using assms(1) by (simp add: tx_history_active tx_table_new_def live_of_def)
  then have act: "entries ?t i = Some (Active h)" by (cases "entries ?t i" rule: active.cases) auto
  have "i \<notin> set (tombstone_order ?t)"
    using tombstone_order_history [OF assms(2)] by (simp add: tx_table_new_def)
  moreover have "tombstones_bounded ?t"
    by (rule tx_history_bounded) (simp add: tombstones_bounded_def tx_table_new_def tombstones_def)
  ultimately have "safe_for (TOMBSTONE_CAP - 1) i (owner h) (tombstone i ?t)"
    using tombstone_fresh_safe act by blast
  from tx_history_safe [OF this assms(3)] assms(4)
  have "entries (tx_history later (tombstone i ?t)) i = Some (Tombstoned (owner h))"
    by (simp add: safe_for_def)
  then show ?thesis by (simp add: tx_lookup_def)
qed

theorem deadline_is_remembered_witness:
  "tx_lookup 7 1 (tx_history ([Register 7 \<lparr>owner = 1, channels = (), streaming = True, copy = True,
       pool_name = ''default'', th_dialect = Postgres\<rparr>] @ Tombstone 7 # [Tombstone 9, Purge 2]) tx_table_new) =
     Inl Tombstoned_err"
  using deadline_is_remembered [of 7 "[Register 7 \<lparr>owner = 1, channels = (), streaming = True, copy = True,
       pool_name = ''default'', th_dialect = Postgres\<rparr>]" _ "[Tombstone 9, Purge 2]" 1]
  by (simp add: live_of_def TOMBSTONE_CAP_def)

end
