(* ===== verification/Tx_Actor.thy ===== *)
theory Tx_Actor
  imports Pool_Correct Tx_Savepoint Tx_Registry Fate
begin

text \<open>
  The actor of one transaction (\<open>run\<close>, \<open>run_interruptible\<close> and \<open>teardown\<close> of \<open>ferrod/src/tx/actor.rs\<close>):
  it owns the pinned checkout, serves one command at a time, and gives the connection back when the
  transaction ends. A token and a request's cancel are the instant at which they fire, if ever; a
  timer fires at its instant. The streamed statement and the COPY commands hand the checkout to the
  producers of \<open>services/\<close> and are not modelled here.
\<close>

subsection \<open>Commands, replies, ends\<close>

datatype tx_end = Ended | EndAbort | EndDeadline

datatype exec_step = StepCompleted "query_result result" "64 word" | StepDeadline | StepAbort

datatype exec_reply = ExecCompleted "query_result result" "64 word" | ExecDeadline

datatype ctl_reply = CtlOk | CtlErr pool_error | UnknownSavepoint

type_synonym wake_hint = "string \<times> string"

datatype 'v tx_verdict =
    Applied 'v "wake_hint list" | NoEffect "error_payload + 'v" | Unreadable error_payload

datatype 'v queue_reply =
    QueueDone "error_payload + 'v" "64 word" | QueueFailed pool_error "64 word" | QueueRolledBackReply error_payload

text \<open>
  A queue verb as the actor runs it: its statements and how their results are decoded, as the builders
  of the store's dialect give them; whether it only reads (\<open>TxDecode::Size\<close>).
\<close>

record 'v queue_verb =
  qv_steps :: "(string \<times> val list) list"
  qv_decode :: "query_result list \<Rightarrow> 'v tx_verdict"
  qv_size :: bool
  qv_verb :: string
  qv_store :: string

definition write_rolled_back :: "'v queue_verb \<Rightarrow> string \<Rightarrow> error_payload" where
  "write_rolled_back v what = payload EUnsupported (FateText (QueueWriteRolledBack (qv_store v) (qv_verb v) what))"

definition rolls_back_on :: "'v queue_verb \<Rightarrow> pool_error \<Rightarrow> error_payload option" where
  "rolls_back_on v e =
     (if qv_size v \<or> is_sql_error e \<or> e = ConnectionLost then None
      else Some (write_rolled_back v ''the result could not be read''))"

datatype 'v tx_command =
    CmdExec string "val list" "32 word option" "nat option"
  | CmdQueue "'v queue_verb" "32 word option" "nat option"
  | CmdSavepoint "string option"
  | CmdRelease "string option"
  | CmdRollbackTo "string option"
  | CmdCommit
  | CmdRollback

datatype 'v tx_reply = CtlR ctl_reply | ExecR exec_reply | QueueR "'v queue_reply" | Dropped

definition ctl_reply_of :: "unit result \<Rightarrow> ctl_reply" where
  "ctl_reply_of r = (case r of Inr _ \<Rightarrow> CtlOk | Inl e \<Rightarrow> CtlErr e)"

definition queue_rolled_back :: error_payload where
  "queue_rolled_back = payload ETxDeadline (FateText QueueRolledBack)"

definition queue_cancelled_unsent :: error_payload where
  "queue_cancelled_unsent = payload ECancelled (FateText QueueCancelledUnsent)"

subsection \<open>Waiting\<close>

text \<open>
  A biased \<open>select!\<close>: of the instants at which the arms become ready (\<open>None\<close>: never), the earliest, and
  of the arms ready then the first.
\<close>

fun select_first :: "nat \<Rightarrow> (nat option \<times> 'a) list \<Rightarrow> (nat \<times> 'a) option" where
  "select_first now [] = None"
| "select_first now ((None, _) # arms) = select_first now arms"
| "select_first now ((Some t, a) # arms) =
     (case select_first now arms of
        None \<Rightarrow> Some (max now t, a)
      | Some (u, b) \<Rightarrow> if max now t \<le> u then Some (max now t, a) else Some (u, b))"

definition stop_at :: "nat \<Rightarrow> 32 word option \<Rightarrow> nat option" where
  "stop_at now timeout_ms = map_option (\<lambda>ms. now + unat ms * 1000) timeout_ms"

text \<open>
  One statement, interruptibly. \<open>oob s\<close> is an out-of-band cancel sent at the instant \<open>s\<close>: how long
  sending it takes, and the world in which the statement runs when it is. The statement is drained
  either way.
\<close>

definition run_interruptible ::
  "(nat \<Rightarrow> 'w \<Rightarrow> nat \<times> 'w) \<Rightarrow> ('w, 'c, 'r, 'i, 'o) backend \<Rightarrow> string \<Rightarrow> val list \<Rightarrow> nat \<Rightarrow> nat option \<Rightarrow>
   nat option \<Rightarrow> nat option \<Rightarrow> ('w, 'c) pool \<times> 'c checkout \<Rightarrow> exec_step \<times> ('w, 'c) pool \<times> 'c checkout" where
  "run_interruptible oob B sql params max_at abort bound cancel pk =
     (case query B sql params pk of
        (r, pk1) \<Rightarrow>
          (let now = p_clock (fst pk); fin = p_clock (fst pk1);
               done = (StepCompleted r (of_nat (fin - now)), pk1) in
           case select_first now
               [(Some max_at, StepDeadline), (abort, StepAbort), (bound, StepDeadline), (cancel, StepDeadline)] of
             None \<Rightarrow> done
           | Some (s, step) \<Rightarrow>
               if fin \<le> s then done
               else
                 (case oob s (p_world (fst pk)) of
                    (d, w) \<Rightarrow>
                      (case query B sql params ((fst pk)\<lparr>p_world := w\<rparr>, snd pk) of
                         (_, p2, k2) \<Rightarrow> (step, p2\<lparr>p_clock := max (p_clock p2) (s + d)\<rparr>, k2)))))"

subsection \<open>One command\<close>

record actor_config =
  idle_timeout :: nat
  max_timeout :: nat
  teardown_timeout :: nat
  abort_at :: "nat option"

record actor =
  ac_sp :: savepoint_stack
  ac_idle_at :: nat
  ac_max_at :: nat
  ac_hints :: "wake_hint list"

text \<open>The step list of a queue verb, up to the first step that does not complete.\<close>

datatype steps_outcome = StepsDone "query_result list" "64 word" | StepsFailed pool_error "64 word" | StepsDeadline | StepsAbort

fun queue_steps ::
  "(string \<times> val list \<Rightarrow> ('w, 'c) pool \<times> 'c checkout \<Rightarrow> exec_step \<times> ('w, 'c) pool \<times> 'c checkout) \<Rightarrow>
   (string \<times> val list) list \<Rightarrow> query_result list \<Rightarrow> 64 word \<Rightarrow> ('w, 'c) pool \<times> 'c checkout \<Rightarrow>
   steps_outcome \<times> ('w, 'c) pool \<times> 'c checkout" where
  "queue_steps run [] results us pk = (StepsDone results us, pk)"
| "queue_steps run (st # sts) results us pk =
     (case run st pk of
        (StepCompleted (Inr qr) u, pk1) \<Rightarrow> queue_steps run sts (results @ [qr]) (us + u) pk1
      | (StepCompleted (Inl e) u, pk1) \<Rightarrow> (StepsFailed e (us + u), pk1)
      | (StepDeadline, pk1) \<Rightarrow> (StepsDeadline, pk1)
      | (StepAbort, pk1) \<Rightarrow> (StepsAbort, pk1))"

text \<open>
  What the actor does with the outcome: its reply, the wake hints the transaction gained, and how the
  transaction ends, if it does.
\<close>

definition queue_outcome :: "'v queue_verb \<Rightarrow> steps_outcome \<Rightarrow> 'v tx_reply \<times> wake_hint list \<times> tx_end option" where
  "queue_outcome v out =
     (case out of
        StepsAbort \<Rightarrow> (Dropped, [], Some EndAbort)
      | StepsDeadline \<Rightarrow> (QueueR (QueueRolledBackReply queue_rolled_back), [], Some EndDeadline)
      | StepsFailed e us \<Rightarrow>
          if is_57014 e then (QueueR (QueueRolledBackReply queue_rolled_back), [], Some EndDeadline)
          else
            (case rolls_back_on v e of
               Some ep \<Rightarrow> (QueueR (QueueRolledBackReply ep), [], Some EndDeadline)
             | None \<Rightarrow> (QueueR (QueueFailed e us), [], None))
      | StepsDone results us \<Rightarrow>
          (case qv_decode v results of
             Applied ok wake \<Rightarrow> (QueueR (QueueDone (Inr ok) us), wake, None)
           | NoEffect outcome \<Rightarrow> (QueueR (QueueDone outcome us), [], None)
           | Unreadable ep \<Rightarrow> (QueueR (QueueRolledBackReply ep), [], Some EndDeadline)))"

definition exec_outcome :: "exec_step \<Rightarrow> 'v tx_reply \<times> tx_end option" where
  "exec_outcome step =
     (case step of
        StepCompleted r us \<Rightarrow>
          if (case r of Inl e \<Rightarrow> is_57014 e | Inr _ \<Rightarrow> False) then (ExecR ExecDeadline, Some EndDeadline)
          else (ExecR (ExecCompleted r us), None)
      | StepDeadline \<Rightarrow> (ExecR ExecDeadline, Some EndDeadline)
      | StepAbort \<Rightarrow> (Dropped, Some EndAbort))"

definition sp_command_of :: "'v tx_command \<Rightarrow> sp_command option" where
  "sp_command_of cmd =
     (case cmd of
        CmdSavepoint n \<Rightarrow> Some (SpSavepoint n)
      | CmdRelease n \<Rightarrow> Some (SpRelease n)
      | CmdRollbackTo n \<Rightarrow> Some (SpRollbackTo n)
      | _ \<Rightarrow> None)"

text \<open>\<open>SAVEPOINT\<close>, \<open>RELEASE\<close> and \<open>ROLLBACK TO\<close>.\<close>

definition savepoint_command ::
  "('w, 'c, 'r, 'i, 'o) backend \<Rightarrow> sp_command \<Rightarrow> savepoint_stack \<Rightarrow> ('w, 'c) pool \<times> 'c checkout \<Rightarrow>
   ctl_reply \<times> savepoint_stack \<times> ('w, 'c) pool \<times> 'c checkout" where
  "savepoint_command B cmd sp pk =
     (case sp_statement cmd sp of
        None \<Rightarrow> (UnknownSavepoint, sp, pk)
      | Some stmt \<Rightarrow>
          (case tx_control B stmt pk of
             (r, pk1) \<Rightarrow> (ctl_reply_of r, sp_after cmd (\<not> isl r) sp, pk1)))"

text \<open>
  One command: the reply, the hints fired, how the transaction ends if it does, and the actor, the
  pool and the checkout afterwards.
\<close>

definition actor_command ::
  "(nat \<Rightarrow> 'w \<Rightarrow> nat \<times> 'w) \<Rightarrow> actor_config \<Rightarrow> ('w, 'c, 'r, 'i, 'o) backend \<Rightarrow> 'v tx_command \<Rightarrow> actor \<Rightarrow>
   ('w, 'c) pool \<times> 'c checkout \<Rightarrow>
   'v tx_reply \<times> wake_hint list \<times> tx_end option \<times> actor \<times> ('w, 'c) pool \<times> 'c checkout" where
  "actor_command oob cfg B cmd a pk =
     (let now = p_clock (fst pk) in
      case cmd of
        CmdCommit \<Rightarrow>
          (let aborted = (be_tx_status B (co_conn (snd pk)) = Failed) in
           case commit_tx B pk of
             (r, pk1) \<Rightarrow>
               (CtlR (ctl_reply_of r), if \<not> isl r \<and> \<not> aborted then ac_hints a else [], Some Ended, a, pk1))
      | CmdRollback \<Rightarrow>
          (case rollback_tx B pk of (r, pk1) \<Rightarrow> (CtlR (ctl_reply_of r), [], Some Ended, a, pk1))
      | CmdExec sql params timeout_ms cancel \<Rightarrow>
          (case run_interruptible oob B sql params (ac_max_at a) (abort_at cfg) (stop_at now timeout_ms) cancel pk of
             (step, pk1) \<Rightarrow> (case exec_outcome step of (reply, e) \<Rightarrow> (reply, [], e, a, pk1)))
      | CmdQueue v timeout_ms cancel \<Rightarrow>
          if (case cancel of Some c \<Rightarrow> c \<le> now | None \<Rightarrow> False)
          then (QueueR (QueueDone (Inl queue_cancelled_unsent) 0), [], None, a, pk)
          else
            (let run = (\<lambda>(sql, params).
                          run_interruptible oob B sql params (ac_max_at a) (abort_at cfg) (stop_at now timeout_ms) cancel) in
             case queue_steps run (qv_steps v) [] 0 pk of
               (out, pk1) \<Rightarrow>
                 (case queue_outcome v out of
                    (reply, wake, e) \<Rightarrow> (reply, [], e, a\<lparr>ac_hints := ac_hints a @ wake\<rparr>, pk1)))
      | _ \<Rightarrow>
          (case savepoint_command B (the (sp_command_of cmd)) (ac_sp a) pk of
             (reply, sp, pk1) \<Rightarrow> (CtlR reply, [], None, a\<lparr>ac_sp := sp\<rparr>, pk1)))"

subsection \<open>The loop and the teardown\<close>

datatype wakeup = WakeEnd tx_end | WakeCommand

text \<open>The outer \<open>select!\<close>, for a channel that next yields something at the instant \<open>arrival\<close>.\<close>

definition next_wakeup :: "actor_config \<Rightarrow> actor \<Rightarrow> nat option \<Rightarrow> nat \<Rightarrow> nat \<times> wakeup" where
  "next_wakeup cfg a arrival now =
     the (select_first now
       [(abort_at cfg, WakeEnd EndAbort), (Some (ac_idle_at a), WakeEnd EndDeadline),
        (Some (ac_max_at a), WakeEnd EndDeadline), (arrival, WakeCommand)])"

text \<open>
  The loop, for what the channel yields and when: a command, or that every sender is gone; nothing
  more arrives after the last. The log has the instant at which each reply was sent.
\<close>

fun actor_loop ::
  "(nat \<Rightarrow> 'w \<Rightarrow> nat \<times> 'w) \<Rightarrow> actor_config \<Rightarrow> ('w, 'c, 'r, 'i, 'o) backend \<Rightarrow> (nat \<times> 'v tx_command option) list \<Rightarrow>
   actor \<Rightarrow> ('w, 'c) pool \<times> 'c checkout \<Rightarrow>
   (nat \<times> 'v tx_reply) list \<times> wake_hint list \<times> tx_end \<times> ('w, 'c) pool \<times> 'c checkout" where
  "actor_loop oob cfg B [] a (p, k) =
     (case next_wakeup cfg a None (p_clock p) of
        (t, WakeEnd e) \<Rightarrow> ([], [], e, p\<lparr>p_clock := t\<rparr>, k)
      | (t, WakeCommand) \<Rightarrow> ([], [], EndAbort, p, k))"
| "actor_loop oob cfg B ((at, cmd) # cmds) a (p, k) =
     (case next_wakeup cfg a (Some at) (p_clock p) of
        (t, WakeEnd e) \<Rightarrow> ([], [], e, p\<lparr>p_clock := t\<rparr>, k)
      | (t, WakeCommand) \<Rightarrow>
          (case cmd of
             None \<Rightarrow> ([], [], EndAbort, p\<lparr>p_clock := t\<rparr>, k)
           | Some c \<Rightarrow>
               (case actor_command oob cfg B c a (p\<lparr>p_clock := t\<rparr>, k) of
                  (reply, fired, Some e, a1, pk1) \<Rightarrow> ([(p_clock (fst pk1), reply)], fired, e, pk1)
                | (reply, fired, None, a1, pk1) \<Rightarrow>
                    (case actor_loop oob cfg B cmds (a1\<lparr>ac_idle_at := p_clock (fst pk1) + idle_timeout cfg\<rparr>) pk1 of
                       (log, hints, e, pk2) \<Rightarrow> ((p_clock (fst pk1), reply) # log, fired @ hints, e, pk2)))))"

text \<open>The \<open>ROLLBACK\<close> of an abort or a deadline, bounded; on an error or a timeout the checkout is tainted.\<close>

definition teardown_rollback ::
  "actor_config \<Rightarrow> ('w, 'c, 'r, 'i, 'o) backend \<Rightarrow> ('w, 'c) pool \<times> 'c checkout \<Rightarrow> ('w, 'c) pool \<times> 'c checkout" where
  "teardown_rollback cfg B pk =
     (case pk of (p, k) \<Rightarrow>
        (case be_simple_query B ''ROLLBACK'' (p_world p) (co_conn k) of
           (d, w, _, c) \<Rightarrow>
             if d \<le> teardown_timeout cfg
             then (case rollback_tx B pk of (r, pk1) \<Rightarrow> if isl r then set_tainted True pk1 else pk1)
             else set_tainted True
                    (p\<lparr>p_world := w, p_clock := p_clock p + teardown_timeout cfg\<rparr>, k\<lparr>co_conn := c\<rparr>)))"

definition teardown ::
  "actor_config \<Rightarrow> ('w, 'c, 'r, 'i, 'o) backend \<Rightarrow> tx_id \<Rightarrow> tx_end \<Rightarrow> ('w, 'c) pool \<times> 'c checkout \<Rightarrow>
   'ch tx_table \<Rightarrow> ('w, 'c) pool \<times> 'ch tx_table" where
  "teardown cfg B tx e pk reg =
     (release B (if e = Ended then pk else teardown_rollback cfg B pk),
      if e = EndDeadline then tombstone tx reg else deregister tx reg)"

definition actor_run ::
  "(nat \<Rightarrow> 'w \<Rightarrow> nat \<times> 'w) \<Rightarrow> actor_config \<Rightarrow> ('w, 'c, 'r, 'i, 'o) backend \<Rightarrow> tx_id \<Rightarrow>
   (nat \<times> 'v tx_command option) list \<Rightarrow> ('w, 'c) pool \<times> 'c checkout \<Rightarrow> 'ch tx_table \<Rightarrow>
   (nat \<times> 'v tx_reply) list \<times> wake_hint list \<times> tx_end \<times> ('w, 'c) pool \<times> 'ch tx_table" where
  "actor_run oob cfg B tx cmds pk reg =
     (let now = p_clock (fst pk);
          a = \<lparr>ac_sp = sp_new, ac_idle_at = now + idle_timeout cfg, ac_max_at = now + max_timeout cfg, ac_hints = []\<rparr> in
      case actor_loop oob cfg B cmds a pk of
        (log, fired, e, pk1) \<Rightarrow>
          (case teardown cfg B tx e pk1 reg of (p, reg1) \<Rightarrow> (log, fired, e, p, reg1)))"

subsection \<open>Selecting\<close>

lemma select_first_member: "select_first now arms = Some (t, x) \<Longrightarrow> now \<le> t \<and> (\<exists>u. (Some u, x) \<in> set arms)"
  by (induction now arms arbitrary: t x rule: select_first.induct) (fastforce split: option.splits if_splits)+

lemma select_first_Some: "(Some u, y) \<in> set arms \<Longrightarrow> \<exists>t x. select_first now arms = Some (t, x)"
  by (induction now arms rule: select_first.induct) (auto split: option.splits)

lemma select_first_least:
  "select_first now arms = Some (t, x) \<Longrightarrow> (Some u, y) \<in> set arms \<Longrightarrow> t \<le> max now u"
proof (induction now arms arbitrary: t x rule: select_first.induct)
  case (3 now v a arms)
  then show ?case using select_first_Some [of u y arms now]
    by (cases "select_first now arms") (auto split: if_splits)
qed auto

lemma next_wakeup_select:
  assumes "next_wakeup cfg a arrival now = (t, x)"
  shows "select_first now
       [(abort_at cfg, WakeEnd EndAbort), (Some (ac_idle_at a), WakeEnd EndDeadline),
        (Some (ac_max_at a), WakeEnd EndDeadline), (arrival, WakeCommand)] = Some (t, x)"
  using assms select_first_Some [of "ac_max_at a" "WakeEnd EndDeadline"
      "[(abort_at cfg, WakeEnd EndAbort), (Some (ac_idle_at a), WakeEnd EndDeadline),
        (Some (ac_max_at a), WakeEnd EndDeadline), (arrival, WakeCommand)]" now]
  by (auto simp: next_wakeup_def)

lemma next_wakeup_bounds:
  assumes "next_wakeup cfg a arrival now = (t, x)"
  shows "now \<le> t" "t \<le> max now (ac_max_at a)" "t \<le> max now (ac_idle_at a)"
  using next_wakeup_select [OF assms]
  by (metis select_first_member, (metis (no_types) list.set_intros select_first_least)+)

subsection \<open>The engine's own statements\<close>

lemma engine_name_no_semicolon: "CHR '';'' \<notin> set (engine_name_of n)"
proof
  assume "CHR '';'' \<in> set (engine_name_of n)"
  then have "is_ascii_digit (CHR '';'')" using to_dec_digits by (auto simp: engine_name_of_def)
  then show False by code_simp
qed

lemma set_trim_end: "set (trim_end s) \<subseteq> set s"
  using set_mono_suffix [OF trim_with_suffix [of ws_len_rev "rev s"]] by (simp add: trim_end_def)

lemma no_semicolon_lone: "CHR '';'' \<notin> set sql \<Longrightarrow> is_lone_statement sql"
  using set_trim_end [of sql] by (auto simp: is_lone_statement_def Let_def dest: in_set_butlastD)

lemma alphabetic_no_noise: "is_ascii_alphabetic c \<Longrightarrow> skip_leading_noise (c # cs) = c # cs"
proof -
  assume c: "is_ascii_alphabetic c"
  then have "64 < byte c" "byte c < 128" by (auto simp: ferro_byte)
  then have "\<not> ws1 (byte c)" "\<not> ws2 (byte c) x" "\<not> ws3 (byte c) x y" for x y by simp_all
  then have "ws_len (c # cs) = 0" by (cases "c # cs" rule: ws_len.cases) (simp_all del: ws1.simps ws2.simps ws3.simps)
  then have "trim_start (c # cs) = c # cs" by (simp add: trim_start_def trim_with.simps)
  moreover have "\<not> is_ascii_alphabetic CHR ''-''" "\<not> is_ascii_alphabetic CHR ''/''" by code_simp+
  then have "c \<noteq> CHR ''-''" "c \<noteq> CHR ''/''" using c by auto
  ultimately show ?thesis
    by (simp add: skip_leading_noise.simps [of "c # cs"] strip_prefix_def)
qed

lemma split_on_word:
  "\<forall>c \<in> set w. \<not> q c \<Longrightarrow> q s \<Longrightarrow> split_on q (w @ s # rest) = w # split_on q rest"
  by (induction w) auto

lemma leading_words_word:
  "w \<noteq> [] \<Longrightarrow> list_all is_ascii_alphabetic w \<Longrightarrow> \<not> is_ascii_alphabetic s \<Longrightarrow>
   leading_words (w @ s # rest) (Suc m) = to_ascii_uppercase w # leading_words rest m"
  by (simp add: leading_words_def split_on_word list_all_iff)

lemma leading_control:
  assumes "w = c # cs" "list_all is_ascii_alphabetic w" "\<not> is_ascii_alphabetic s"
  shows "tx_control_class (w @ s # rest) = class_of_words (to_ascii_uppercase w # leading_words rest 1)"
proof -
  have "skip_leading_noise (w @ s # rest) = w @ s # rest" using assms alphabetic_no_noise by simp
  then show ?thesis using assms leading_words_word [of w s rest 1]
    by (simp add: tx_control_class_def numeral_2_eq_2)
qed

lemma savepoint_control:
  "tx_control_class (savepoint_sql n) = Some Savepoint"
  "tx_control_class (release_sql n) = Some Savepoint"
  "tx_control_class (rollback_to_sql n) = Some Savepoint"
proof -
  have a: "list_all is_ascii_alphabetic ''SAVEPOINT''" "list_all is_ascii_alphabetic ''RELEASE''"
    "list_all is_ascii_alphabetic ''ROLLBACK''" "list_all is_ascii_alphabetic ''TO''"
    "\<not> is_ascii_alphabetic CHR '' ''" by code_simp+
  have u: "to_ascii_uppercase ''SAVEPOINT'' = ''SAVEPOINT''" "to_ascii_uppercase ''RELEASE'' = ''RELEASE''"
    "to_ascii_uppercase ''ROLLBACK'' = ''ROLLBACK''" "to_ascii_uppercase ''TO'' = ''TO''" by code_simp+
  have "tx_control_class (savepoint_sql n) = class_of_words (''SAVEPOINT'' # leading_words n 1)"
    using leading_control [OF refl a(1) a(5), of n] by (simp add: u savepoint_sql_def)
  then show "tx_control_class (savepoint_sql n) = Some Savepoint"
    by (simp add: class_of_words_def boundary_single_def savepoint_single_def)
  have "tx_control_class (release_sql n) = class_of_words (''RELEASE'' # leading_words n 1)"
    using leading_control [OF refl a(2) a(5), of n] by (simp add: u release_sql_def)
  then show "tx_control_class (release_sql n) = Some Savepoint"
    by (simp add: class_of_words_def boundary_single_def savepoint_single_def)
  have "leading_words (''TO'' @ CHR '' '' # n) 1 = ''TO'' # leading_words n 0"
    using leading_words_word [OF _ a(4) a(5), of n 0] by (simp add: u)
  then have "tx_control_class (rollback_to_sql n) = class_of_words (''ROLLBACK'' # ''TO'' # leading_words n 0)"
    using leading_control [OF refl a(3) a(5), of "''TO'' @ CHR '' '' # n"] by (simp add: u rollback_to_sql_def)
  then show "tx_control_class (rollback_to_sql n) = Some Savepoint" by (simp add: class_of_words_def)
qed

text \<open>Every name on the stack is one the engine composed.\<close>

definition engine_named :: "savepoint_stack \<Rightarrow> bool" where
  "engine_named sp \<longleftrightarrow> (\<forall>e \<in> set (sp_entries sp). \<exists>n. sp_engine_name e = engine_name_of n)"

lemma engine_named_after: "engine_named sp \<Longrightarrow> engine_named (sp_after cmd ok sp)"
  by (cases cmd)
    (auto simp: engine_named_def sp_after_def sp_push_def sp_pop_def sp_truncate_release_def
      sp_truncate_rollback_to_def Let_def split: option.splits dest: in_set_takeD)

lemma engine_named_resolve:
  assumes "engine_named sp" "sp_resolve name sp = Some (i, e)"
  shows "\<exists>n. e = engine_name_of n"
proof -
  have "\<exists>x \<in> set (sp_entries sp). e = sp_engine_name x"
    using assms(2) by (auto simp: sp_resolve_def dest!: rfind_Some split: option.splits if_splits)
  then show ?thesis using assms(1) by (auto simp: engine_named_def)
qed

lemma sp_statement_engine_sql:
  assumes "engine_named sp" "sp_statement cmd sp = Some stmt"
  shows "engine_sql d pfs unk stmt"
proof -
  have "\<exists>n. stmt = savepoint_sql (engine_name_of n) \<or> stmt = release_sql (engine_name_of n) \<or>
      stmt = rollback_to_sql (engine_name_of n)"
    using assms engine_named_resolve [OF assms(1)]
    by (cases cmd) (fastforce simp: sp_statement_def sp_push_def Let_def)+
  then obtain n where n: "stmt = savepoint_sql (engine_name_of n) \<or> stmt = release_sql (engine_name_of n) \<or>
      stmt = rollback_to_sql (engine_name_of n)" ..
  then have "CHR '';'' \<notin> set stmt"
    using engine_name_no_semicolon [of n] by (auto simp: savepoint_sql_def release_sql_def rollback_to_sql_def)
  then show ?thesis using n savepoint_control no_semicolon_lone by (auto simp: engine_sql_def)
qed

subsection \<open>The life of an actor is a run of the pool\<close>

text \<open>What happens to the pool and the checkout while one task owns the checkout.\<close>

inductive life ::
  "('w, 'c, 'r, 'i, 'o) backend \<Rightarrow> ('w, 'c) pool \<times> 'c checkout \<Rightarrow> ('w, 'c) pool \<times> 'c checkout \<Rightarrow> bool"
  for B :: "('w, 'c, 'r, 'i, 'o) backend" where
  life_refl: "life B pk pk"
| life_session: "life B pk pk1 \<Longrightarrow> session_step B pk1 Ready pk2 Ready \<Longrightarrow> life B pk pk2"
| life_outside: "life B pk (p, k) \<Longrightarrow> life B pk (p\<lparr>p_world := w, p_clock := p_clock p + n\<rparr>, k)"

declare life_refl [simp]

lemma life_trans: "life B pk1 pk2 \<Longrightarrow> life B pk pk1 \<Longrightarrow> life B pk pk2"
  by (induction rule: life.induct) (auto intro: life.intros)

lemma life_step: "session_step B pk Ready pk' Ready \<Longrightarrow> life B pk pk'"
  using life.intros by blast

lemma life_clock: "p_clock p \<le> t \<Longrightarrow> life B (p, k) (p\<lparr>p_clock := t\<rparr>, k)"
  using life_outside [OF life_refl [of B "(p, k)"], where w = "p_world p" and n = "t - p_clock p"] by simp

lemma life_world: "life B (p, k) (p\<lparr>p_world := w\<rparr>, k)"
  using life_outside [OF life_refl [of B "(p, k)"], where w = w and n = 0] by simp

lemma life_reachable:
  "life B pk pk' \<Longrightarrow> reachable B cfg (fst pk, ss @ [(snd pk, Ready)]) \<Longrightarrow>
   reachable B cfg (fst pk', ss @ [(snd pk', Ready)])"
proof (induction rule: life.induct)
  case (life_session pk pk1 pk2)
  have "pool_step B (fst pk1, ss @ [(snd pk1, Ready)]) (fst pk2, (ss @ [(snd pk1, Ready)])[length ss := (snd pk2, Ready)])"
    using life_session(2) by (intro pool_step.session [of _ _ "snd pk1" Ready]) simp_all
  then show ?case using life_session reachable.step by fastforce
next
  case (life_outside pk p k w n)
  then show ?case using reachable.step [OF _ pool_step.tick] by fastforce
qed simp

lemma release_reachable:
  "reachable B cfg (fst pk, ss @ [(snd pk, Ready)]) \<Longrightarrow> reachable B cfg (release B pk, ss)"
  using reachable.step [OF _ pool_step.release [of "length ss" "ss @ [(snd pk, Ready)]" "snd pk" B "fst pk"]] by simp

text \<open>The instant from which a statement is to be stopped.\<close>

definition stop_instant :: "nat \<Rightarrow> nat \<Rightarrow> nat option \<Rightarrow> nat option \<Rightarrow> nat option \<Rightarrow> nat \<times> exec_step" where
  "stop_instant now max_at abort bound cancel =
     the (select_first now
       [(Some max_at, StepDeadline), (abort, StepAbort), (bound, StepDeadline), (cancel, StepDeadline)])"

lemma stop_instant_select:
  "select_first now [(Some max_at, StepDeadline), (abort, StepAbort), (bound, StepDeadline), (cancel, StepDeadline)] =
   Some (stop_instant now max_at abort bound cancel)"
  using select_first_Some [of max_at StepDeadline
      "[(Some max_at, StepDeadline), (abort, StepAbort), (bound, StepDeadline), (cancel, StepDeadline)]" now]
  by (auto simp: stop_instant_def)

lemma stop_instant_least:
  assumes "u = Some max_at \<or> u = abort \<or> u = bound \<or> u = cancel" "u = Some t"
  shows "fst (stop_instant now max_at abort bound cancel) \<le> max now t"
proof -
  let ?arms = "[(Some max_at, StepDeadline), (abort, StepAbort), (bound, StepDeadline), (cancel, StepDeadline)]"
  obtain s x where s: "stop_instant now max_at abort bound cancel = (s, x)" by fastforce
  obtain y where "(Some t, y) \<in> set ?arms" using assms by auto
  from select_first_least [OF _ this] stop_instant_select s show ?thesis by fastforce
qed

lemma stop_instant_step:
  "snd (stop_instant now max_at abort bound cancel) \<in> {StepDeadline, StepAbort}"
proof -
  obtain s x where s: "stop_instant now max_at abort bound cancel = (s, x)" by fastforce
  then show ?thesis using select_first_member [OF stop_instant_select [of now max_at abort bound cancel, unfolded s]] by auto
qed

lemma run_interruptible_eq:
  assumes "query B sql params (p, k) = (r, pk1)" "stop_instant (p_clock p) max_at abort bound cancel = (s, step)"
    and "oob s (p_world p) = (d, w)" "query B sql params (p\<lparr>p_world := w\<rparr>, k) = (r2, p2, k2)"
  shows "run_interruptible oob B sql params max_at abort bound cancel (p, k) =
    (if p_clock (fst pk1) \<le> s then (StepCompleted r (of_nat (p_clock (fst pk1) - p_clock p)), pk1)
     else (step, p2\<lparr>p_clock := max (p_clock p2) (s + d)\<rparr>, k2))"
  unfolding run_interruptible_def Let_def fst_conv snd_conv stop_instant_select assms(1) assms(2)
  by (simp add: assms)

lemma life_interruptible:
  assumes "run_interruptible oob B sql params max_at abort bound cancel pk = (step, pk')"
  shows "life B pk pk'"
proof -
  obtain p k where pk: "pk = (p, k)" by fastforce
  obtain r1 pk1 where q: "query B sql params (p, k) = (r1, pk1)" by (metis surj_pair)
  obtain s x where s: "stop_instant (p_clock p) max_at abort bound cancel = (s, x)" by fastforce
  obtain d w where w: "oob s (p_world p) = (d, w)" by fastforce
  obtain r2 p2 k2 where q2: "query B sql params (p\<lparr>p_world := w\<rparr>, k) = (r2, p2, k2)" by (metis prod_cases3)
  have "life B (p\<lparr>p_world := w\<rparr>, k) (p2, k2)" using q2 by (auto intro: life_step session_step.query)
  then have "life B (p, k) (p2, k2)" using life_world by (rule life_trans)
  moreover have "life B (p2, k2) (p2\<lparr>p_clock := max (p_clock p2) (s + d)\<rparr>, k2)" by (rule life_clock) simp
  ultimately have "life B (p, k) (p2\<lparr>p_clock := max (p_clock p2) (s + d)\<rparr>, k2)" by (rule life_trans [rotated])
  moreover have "life B (p, k) pk1" using q by (auto intro: life_step session_step.query)
  moreover have "(step, pk') = (if p_clock (fst pk1) \<le> s then (StepCompleted r1 (of_nat (p_clock (fst pk1) - p_clock p)), pk1)
      else (x, p2\<lparr>p_clock := max (p_clock p2) (s + d)\<rparr>, k2))"
    unfolding assms [symmetric] pk by (rule run_interruptible_eq [where oob = oob, OF q s w q2])
  ultimately show ?thesis unfolding pk by (metis Pair_inject)
qed

lemma queue_steps_Cons:
  assumes "run st pk = (step, pk1)"
  shows "queue_steps run (st # sts) results us pk =
    (case step of
       StepCompleted (Inr qr) u \<Rightarrow> queue_steps run sts (results @ [qr]) (us + u) pk1
     | StepCompleted (Inl e) u \<Rightarrow> (StepsFailed e (us + u), pk1)
     | StepDeadline \<Rightarrow> (StepsDeadline, pk1)
     | StepAbort \<Rightarrow> (StepsAbort, pk1))"
  using assms by (simp split: exec_step.splits sum.splits)

lemma life_queue_steps:
  assumes run: "\<And>st pk step pk'. run st pk = (step, pk') \<Longrightarrow> life B pk pk'"
  shows "queue_steps run sts results us pk = (out, pk') \<Longrightarrow> life B pk pk'"
proof (induction sts arbitrary: results us pk)
  case (Cons st sts)
  obtain step pk1 where r: "run st pk = (step, pk1)" by (metis surj_pair)
  have "life B pk1 pk'"
    using Cons queue_steps_Cons [of run, OF r] by (auto split: exec_step.splits sum.splits)
  then show ?case using run [OF r] life_trans by blast
qed (simp add: life_refl)

lemma life_savepoint:
  assumes "savepoint_command B cmd sp pk = (reply, sp', pk')" "engine_named sp"
  shows "life B pk pk' \<and> engine_named sp'"
proof (cases "sp_statement cmd sp")
  case None
  then show ?thesis using assms by (simp add: savepoint_command_def life_refl)
next
  case (Some stmt)
  obtain r pk1 where c: "tx_control B stmt pk = (r, pk1)" by (metis surj_pair)
  have "engine_sql_for B (fst pk) stmt"
    using sp_statement_engine_sql [OF assms(2) Some] by (simp add: engine_sql_for_def)
  then have "life B pk pk1" using c by (auto intro: life_step session_step.control)
  then show ?thesis using assms Some c engine_named_after by (auto simp: savepoint_command_def)
qed

lemma life_command:
  assumes "actor_command oob cfg B cmd a pk = (reply, fired, e, a', pk')" "engine_named (ac_sp a)"
  shows "life B pk pk' \<and> engine_named (ac_sp a') \<and> ac_max_at a' = ac_max_at a"
proof (cases "sp_command_of cmd")
  case (Some c)
  obtain r sp1 pk1 where s: "savepoint_command B c (ac_sp a) pk = (r, sp1, pk1)" by (metis prod_cases3)
  have "a' = a\<lparr>ac_sp := sp1\<rparr> \<and> pk' = pk1"
    using assms(1) Some s by (cases cmd) (simp_all add: actor_command_def sp_command_of_def)
  then show ?thesis using life_savepoint [OF s assms(2)] by simp
next
  case None
  show ?thesis
  proof (cases cmd)
    case (CmdExec sql params timeout_ms cancel)
    obtain step pk1 where s: "run_interruptible oob B sql params (ac_max_at a) (abort_at cfg)
        (stop_at (p_clock (fst pk)) timeout_ms) cancel pk = (step, pk1)" by (metis surj_pair)
    show ?thesis using assms life_interruptible [OF s] s CmdExec
      by (simp add: actor_command_def Let_def split: prod.splits)
  next
    case (CmdQueue v timeout_ms cancel)
    define run where "run = (\<lambda>(sql, params). run_interruptible oob B sql params (ac_max_at a) (abort_at cfg)
        (stop_at (p_clock (fst pk)) timeout_ms) cancel)"
    have l: "run st pk = (step, pk') \<Longrightarrow> life B pk pk'" for st pk step pk'
      using life_interruptible by (cases st) (simp add: run_def)
    obtain out pk1 where s: "queue_steps run (qv_steps v) [] 0 pk = (out, pk1)" by (metis surj_pair)
    have "(a' = a \<and> pk' = pk) \<or> (\<exists>wake. a' = a\<lparr>ac_hints := ac_hints a @ wake\<rparr> \<and> pk' = pk1)"
      using assms(1) s CmdQueue
      by (auto simp: actor_command_def Let_def run_def [symmetric] split: if_splits prod.splits)
    then show ?thesis using life_queue_steps [OF l s] assms(2) by auto
  next
    case CmdCommit
    obtain r pk1 where c: "commit_tx B pk = (r, pk1)" by (metis surj_pair)
    then show ?thesis using assms CmdCommit by (auto simp: actor_command_def intro: life_step session_step.commit)
  next
    case CmdRollback
    obtain r pk1 where c: "rollback_tx B pk = (r, pk1)" by (metis surj_pair)
    then show ?thesis using assms CmdRollback by (auto simp: actor_command_def intro: life_step session_step.rollback)
  qed (use None in \<open>simp_all add: sp_command_of_def\<close>)
qed

text \<open>The loop either ends while it waits, or serves the next command and ends with it or goes on.\<close>

lemma actor_loop_cases:
  assumes "actor_loop oob cfg B cmds a (p, k) = (log, fired, e, pk')"
  obtains (waiting) t where "p_clock p \<le> t" "log = []" "fired = []" "e \<noteq> Ended" "pk' = (p\<lparr>p_clock := t\<rparr>, k)"
  | (last) at c rest t reply a1 where "cmds = (at, Some c) # rest"
      "next_wakeup cfg a (Some at) (p_clock p) = (t, WakeCommand)"
      "actor_command oob cfg B c a (p\<lparr>p_clock := t\<rparr>, k) = (reply, fired, Some e, a1, pk')"
      "log = [(p_clock (fst pk'), reply)]"
  | (served) at c rest t reply f a1 pk1 log1 f1 where "cmds = (at, Some c) # rest"
      "next_wakeup cfg a (Some at) (p_clock p) = (t, WakeCommand)"
      "actor_command oob cfg B c a (p\<lparr>p_clock := t\<rparr>, k) = (reply, f, None, a1, pk1)"
      "actor_loop oob cfg B rest (a1\<lparr>ac_idle_at := p_clock (fst pk1) + idle_timeout cfg\<rparr>) pk1 = (log1, f1, e, pk')"
      "log = (p_clock (fst pk1), reply) # log1" "fired = f @ f1"
proof (cases cmds)
  case Nil
  obtain t x where n: "next_wakeup cfg a None (p_clock p) = (t, x)" by fastforce
  from select_first_member [OF next_wakeup_select [OF n]] have "x = WakeEnd EndAbort \<or> x = WakeEnd EndDeadline" by auto
  then show ?thesis using assms Nil n next_wakeup_bounds(1) [OF n] by (auto intro: waiting)
next
  case (Cons y rest)
  obtain at cmd where y: "y = (at, cmd)" by fastforce
  obtain t x where n: "next_wakeup cfg a (Some at) (p_clock p) = (t, x)" by fastforce
  note t = next_wakeup_bounds(1) [OF n]
  show ?thesis
  proof (cases x)
    case (WakeEnd e1)
    then have "e1 = EndAbort \<or> e1 = EndDeadline" using select_first_member [OF next_wakeup_select [OF n]] by auto
    then show ?thesis using assms Cons y n WakeEnd t by (auto intro: waiting)
  next
    case WakeCommand
    show ?thesis
    proof (cases cmd)
      case None
      then show ?thesis using assms Cons y n WakeCommand t by (auto intro: waiting)
    next
      case (Some c)
      obtain reply f e1 a1 pk1 where
        c: "actor_command oob cfg B c a (p\<lparr>p_clock := t\<rparr>, k) = (reply, f, e1, a1, pk1)" by (metis prod_cases5)
      show ?thesis
      proof (cases e1)
        case None
        obtain log2 f2 e2 pk2 where
          "actor_loop oob cfg B rest (a1\<lparr>ac_idle_at := p_clock (fst pk1) + idle_timeout cfg\<rparr>) pk1 = (log2, f2, e2, pk2)"
          by (metis prod_cases4)
        then show ?thesis using assms Cons y n WakeCommand Some c None by (intro served) auto
      next
        case (Some e2)
        then show ?thesis using assms Cons y n WakeCommand \<open>cmd = Some c\<close> c by (intro last) auto
      qed
    qed
  qed
qed

lemma life_loop:
  "actor_loop oob cfg B cmds a pk = (log, fired, e, pk') \<Longrightarrow> engine_named (ac_sp a) \<Longrightarrow> life B pk pk'"
proof (induction cmds arbitrary: a pk log fired)
  case Nil
  obtain p k where pk: "pk = (p, k)" by fastforce
  from Nil(1) [unfolded pk] show ?case by (cases rule: actor_loop_cases) (simp_all add: pk life_clock)
next
  case (Cons x cmds)
  obtain p k where pk: "pk = (p, k)" by fastforce
  from Cons.prems(1) [unfolded pk] show ?case
  proof (cases rule: actor_loop_cases)
    case (waiting t)
    then show ?thesis by (simp add: pk life_clock)
  next
    case (last at c rest t reply a1)
    then show ?thesis
      using life_command [OF last(3) Cons.prems(2)] life_clock [OF next_wakeup_bounds(1) [OF last(2)]] life_trans pk
      by metis
  next
    case (served at c rest t reply f a1 pk1 log1 f1)
    note l = life_command [OF served(3) Cons.prems(2)]
    have "life B pk1 pk'" using Cons.IH served(1,4) l by simp
    moreover have "life B (p, k) pk1"
      using l life_clock [OF next_wakeup_bounds(1) [OF served(2)]] life_trans by metis
    ultimately show ?thesis using pk life_trans by metis
  qed
qed

lemma life_teardown: "life B pk (teardown_rollback cfg B pk)"
proof -
  obtain p k where pk: "pk = (p, k)" by fastforce
  obtain d w r c where q: "be_simple_query B ''ROLLBACK'' (p_world p) (co_conn k) = (d, w, r, c)" by (metis prod_cases4)
  show ?thesis
  proof (cases "d \<le> teardown_timeout cfg")
    case True
    obtain r1 pk1 where r: "rollback_tx B pk = (r1, pk1)" by (metis surj_pair)
    then have l: "life B pk pk1" by (auto intro: life_step session_step.rollback)
    moreover have "life B pk1 (set_tainted True pk1)" by (auto intro: life_step session_step.taint)
    ultimately have "life B pk (set_tainted True pk1)" using life_trans by blast
    then show ?thesis using True q r l pk by (simp add: teardown_rollback_def)
  next
    case False
    then show ?thesis using q pk session_step.rollback_timeout [OF q] by (auto simp: teardown_rollback_def intro: life_step)
  qed
qed

subsection \<open>Deadlines\<close>

text \<open>A result of a user's statement that the client is shown.\<close>

fun result_reply :: "'v tx_reply \<Rightarrow> bool" where
  "result_reply (ExecR (ExecCompleted _ _)) = True"
| "result_reply (QueueR (QueueDone _ _)) = True"
| "result_reply (QueueR (QueueFailed _ _)) = True"
| "result_reply _ = False"

definition on_time :: "actor_config \<Rightarrow> nat \<Rightarrow> nat \<Rightarrow> bool" where
  "on_time cfg max_at t \<longleftrightarrow> t \<le> max_at \<and> (case abort_at cfg of Some u \<Rightarrow> t \<le> u | None \<Rightarrow> True)"

lemma command_wakeup_on_time:
  assumes "next_wakeup cfg a (Some at) now = (t, WakeCommand)"
  shows "on_time cfg (ac_max_at a) t"
proof -
  have s: "select_first now [(abort_at cfg, WakeEnd EndAbort), (Some (ac_idle_at a), WakeEnd EndDeadline),
        (Some (ac_max_at a), WakeEnd EndDeadline), (Some at, WakeCommand)] = Some (t, WakeCommand)"
    using next_wakeup_select [OF assms] .
  then show ?thesis by (auto simp: on_time_def max_def split: option.splits if_splits)
qed

lemma interruptible_on_time:
  assumes "run_interruptible oob B sql params max_at (abort_at cfg) bound cancel pk = (StepCompleted r us, pk')"
    and "on_time cfg max_at (p_clock (fst pk))"
  shows "on_time cfg max_at (p_clock (fst pk'))"
proof -
  obtain p k where pk: "pk = (p, k)" by fastforce
  obtain r1 pk1 where q: "query B sql params (p, k) = (r1, pk1)" by (metis surj_pair)
  obtain s x where s: "stop_instant (p_clock p) max_at (abort_at cfg) bound cancel = (s, x)" by fastforce
  obtain d w where w: "oob s (p_world p) = (d, w)" by fastforce
  obtain r2 p2 k2 where q2: "query B sql params (p\<lparr>p_world := w\<rparr>, k) = (r2, p2, k2)" by (metis prod_cases3)
  have "x \<noteq> StepCompleted r us"
    using stop_instant_step [of "p_clock p" max_at "abort_at cfg" bound cancel] s by auto
  moreover have "(StepCompleted r us, pk') =
     (if p_clock (fst pk1) \<le> s then (StepCompleted r1 (of_nat (p_clock (fst pk1) - p_clock p)), pk1)
      else (x, p2\<lparr>p_clock := max (p_clock p2) (s + d)\<rparr>, k2))"
    unfolding assms(1) [symmetric] pk by (rule run_interruptible_eq [where oob = oob, OF q s w q2])
  ultimately have fin: "p_clock (fst pk') \<le> s" by (metis Pair_inject)
  have "s \<le> max (p_clock p) max_at" using stop_instant_least [of "Some max_at"] s by (metis fst_conv)
  moreover have "s \<le> max (p_clock p) u" if "abort_at cfg = Some u" for u
    using stop_instant_least [of "abort_at cfg" max_at "abort_at cfg" bound cancel u "p_clock p"] s that by simp
  ultimately show ?thesis using fin assms(2) pk by (fastforce simp: on_time_def split: option.splits)
qed

lemma queue_steps_on_time:
  assumes run: "\<And>st pk r us pk'. run st pk = (StepCompleted r us, pk') \<Longrightarrow>
      on_time cfg m (p_clock (fst pk)) \<Longrightarrow> on_time cfg m (p_clock (fst pk'))"
  shows "queue_steps run sts results us pk = (out, pk') \<Longrightarrow> on_time cfg m (p_clock (fst pk)) \<Longrightarrow>
    out \<in> {StepsDeadline, StepsAbort} \<or> on_time cfg m (p_clock (fst pk'))"
proof (induction sts arbitrary: results us pk)
  case (Cons st sts)
  obtain step pk1 where r: "run st pk = (step, pk1)" by (metis surj_pair)
  show ?case
    using Cons.prems Cons.IH run [of st pk _ _ pk1] r queue_steps_Cons [of run, OF r]
    by (auto split: exec_step.splits sum.splits)
qed simp

lemma command_on_time:
  assumes c: "actor_command oob cfg B cmd a pk = (reply, fired, e, a', pk')"
    and t: "on_time cfg (ac_max_at a) (p_clock (fst pk))" and r: "result_reply reply"
  shows "on_time cfg (ac_max_at a) (p_clock (fst pk'))"
proof (cases cmd)
  case (CmdExec sql params timeout_ms cancel)
  obtain step pk1 where s: "run_interruptible oob B sql params (ac_max_at a) (abort_at cfg)
      (stop_at (p_clock (fst pk)) timeout_ms) cancel pk = (step, pk1)" by (metis surj_pair)
  have "pk' = pk1 \<and> reply = fst (exec_outcome step)"
    using c s CmdExec by (simp add: actor_command_def Let_def split: prod.splits)
  moreover from this r obtain r1 us where "step = StepCompleted r1 us"
    by (cases step) (auto simp: exec_outcome_def)
  ultimately show ?thesis using interruptible_on_time s t by metis
next
  case (CmdQueue v timeout_ms cancel)
  define run where "run = (\<lambda>(sql, params). run_interruptible oob B sql params (ac_max_at a) (abort_at cfg)
      (stop_at (p_clock (fst pk)) timeout_ms) cancel)"
  have l: "on_time cfg (ac_max_at a) (p_clock (fst pk'))"
    if "run st pk = (StepCompleted r us, pk')" "on_time cfg (ac_max_at a) (p_clock (fst pk))" for st pk r us pk'
    using that interruptible_on_time by (cases st) (simp add: run_def)
  obtain out pk1 where s: "queue_steps run (qv_steps v) [] 0 pk = (out, pk1)" by (metis surj_pair)
  have "pk' = pk \<or> (pk' = pk1 \<and> reply = fst (queue_outcome v out))"
    using c s CmdQueue by (auto simp: actor_command_def Let_def run_def [symmetric] split: if_splits prod.splits)
  moreover have "out \<notin> {StepsDeadline, StepsAbort}" if "reply = fst (queue_outcome v out)"
    using that r by (auto simp: queue_outcome_def)
  moreover have "out \<in> {StepsDeadline, StepsAbort} \<or> on_time cfg (ac_max_at a) (p_clock (fst pk1))"
    by (rule queue_steps_on_time [OF _ s t]) (rule l)
  ultimately show ?thesis using t by blast
next
  case CmdCommit
  then show ?thesis using c r by (auto simp: actor_command_def split: prod.splits)
next
  case CmdRollback
  then show ?thesis using c r by (auto simp: actor_command_def split: prod.splits)
qed (use c r in \<open>auto simp: actor_command_def split: prod.splits\<close>)

lemma loop_on_time:
  "actor_loop oob cfg B cmds a pk = (log, fired, e, pk') \<Longrightarrow> engine_named (ac_sp a) \<Longrightarrow> (t, reply) \<in> set log \<Longrightarrow>
   result_reply reply \<Longrightarrow> on_time cfg (ac_max_at a) t"
proof (induction cmds arbitrary: a pk log fired)
  case Nil
  obtain p k where pk: "pk = (p, k)" by fastforce
  from Nil(1) [unfolded pk] show ?case by (cases rule: actor_loop_cases) (use Nil in simp_all)
next
  case (Cons x cmds)
  obtain p k where pk: "pk = (p, k)" by fastforce
  from Cons.prems(1) [unfolded pk] show ?case
  proof (cases rule: actor_loop_cases)
    case (last at c rest t1 reply1 a1)
    then show ?thesis using command_on_time [OF last(3)] command_wakeup_on_time [OF last(2)] Cons.prems by simp
  next
    case (served at c rest t1 reply1 f a1 pk1 log1 f1)
    note l = life_command [OF served(3) Cons.prems(2)]
    show ?thesis
    proof (cases "(t, reply) \<in> set log1")
      case True
      then show ?thesis using Cons.IH [of "a1\<lparr>ac_idle_at := p_clock (fst pk1) + idle_timeout cfg\<rparr>" pk1 log1 f1]
          served(1,4) l Cons.prems(4) by simp
    next
      case False
      then show ?thesis
        using command_on_time [OF served(3)] command_wakeup_on_time [OF served(2)] served(5) Cons.prems by simp
    qed
  qed (use Cons.prems in simp)
qed

text \<open>
  C30: no statement's result comes from past a deadline. Every result of a statement or queue verb that
  the actor reports was complete by the transaction's maximal lifetime, counted from its start, and by the
  instant at which its session was aborted; a statement that ends later is reported as a deadline or not at
  all. Replies to COMMIT, ROLLBACK and the savepoint commands are not covered: the actor runs those to their end
  and races them against neither. A timer is taken to fire at its very instant.
\<close>

theorem reported_results_are_on_time:
  "case actor_run oob cfg B tx cmds (p, k) reg of
     (log, fired, e, p', reg') \<Rightarrow>
       filter (\<lambda>(t, reply). result_reply reply \<and> \<not> on_time cfg (p_clock p + max_timeout cfg) t) log = []"
proof -
  let ?a = "\<lparr>ac_sp = sp_new, ac_idle_at = p_clock p + idle_timeout cfg, ac_max_at = p_clock p + max_timeout cfg,
      ac_hints = []\<rparr>"
  obtain log f e pk1 where l: "actor_loop oob cfg B cmds ?a (p, k) = (log, f, e, pk1)" by (metis prod_cases4)
  have "engine_named (ac_sp ?a)" by (simp add: engine_named_def sp_new_def)
  then have "filter (\<lambda>(t, reply). result_reply reply \<and> \<not> on_time cfg (p_clock p + max_timeout cfg) t) log = []"
    using loop_on_time [OF l] by (auto simp: filter_empty_conv)
  then show ?thesis using l by (simp add: actor_run_def Let_def split: prod.splits)
qed

end
