(* ===== verification/Tx_Theorems.thy ===== *)
theory Tx_Theorems
  imports Tx_Actor Pool_Theorems
begin

text \<open>
  Transactions on a pool: what the actor of \<open>Tx_Actor\<close> does to the pool of \<open>Pool_Runs\<close>, and what the
  server sees of it. The streamed and \<open>COPY\<close> commands of the actor are not covered.
\<close>

subsection \<open>The life of an actor is a run of the pool\<close>

text \<open>
  Whatever commands a client sends and whenever they arrive, the life of the actor from the checkout it is
  given to the release of the connection is a run of the pool, so that what holds of every reachable pool
  state holds after every transaction.
\<close>

lemma actor_life_is_pool_run:
  assumes "reachable B pcfg (p, ss @ [(k, Ready)])"
    and "actor_run oob cfg B tx cmds (p, k) reg = (log, fired, e, p', reg')"
  shows "reachable B pcfg (p', ss)"
proof -
  obtain a pk1 where l: "actor_loop oob cfg B cmds a (p, k) = (log, fired, e, pk1)" "ac_sp a = sp_new"
    and p': "p' = fst (teardown cfg B tx e pk1 reg)"
    using assms(2) by (fastforce simp: actor_run_def Let_def split: prod.splits)
  have "engine_named (ac_sp a)" by (simp add: l(2) engine_named_def sp_new_def)
  then have "life B (p, k) pk1" using life_loop l(1) by blast
  moreover define pk2 where "pk2 = (if e = Ended then pk1 else teardown_rollback cfg B pk1)"
  then have "life B pk1 pk2" by (simp add: life_teardown)
  ultimately have "life B (p, k) pk2" by (rule life_trans [rotated])
  then have "reachable B pcfg (fst pk2, ss @ [(snd pk2, Ready)])" using life_reachable assms(1) by fastforce
  then have "reachable B pcfg (release B pk2, ss)" by (rule release_reachable)
  then show ?thesis using p' by (simp add: teardown_def pk2_def)
qed

lemma life_same_stack: "life B pk pk' \<Longrightarrow> same_stack (fst pk) (fst pk')"
proof (induction rule: life.induct)
  case (life_session pk pk1 pk2)
  then show ?case using session_step_keeps [of B pk1 Ready pk2 Ready] same_stack_trans by (auto simp: keeps_def)
next
  case (life_outside pk p k w n)
  then show ?case by (simp add: same_stack_def)
qed simp

subsection \<open>What the server sees\<close>

text \<open>
  A backend whose world also keeps the statements that reached it, in order, each with whether it was
  acknowledged. Every other call is the given backend's.
\<close>

type_synonym sent = "(string \<times> bool) list"

definition sending :: "string \<Rightarrow> ('w, 'c, 'a result) async \<Rightarrow> ('w \<times> sent, 'c, 'a result) async" where
  "sending sql f w c = (case f (fst w) c of (d, w', r, c') \<Rightarrow> (d, (w', snd w @ [(sql, \<not> isl r)]), r, c'))"

definition silent :: "('w, 'c, 'a) async \<Rightarrow> ('w \<times> sent, 'c, 'a) async" where
  "silent f w c = (case f (fst w) c of (d, w', r, c') \<Rightarrow> (d, (w', snd w), r, c'))"

definition silent_pull ::
  "('w \<Rightarrow> 'c \<Rightarrow> 's \<Rightarrow> nat \<times> 'w \<times> 'a \<times> 'c \<times> 's) \<Rightarrow> 'w \<times> sent \<Rightarrow> 'c \<Rightarrow> 's \<Rightarrow> nat \<times> ('w \<times> sent) \<times> 'a \<times> 'c \<times> 's" where
  "silent_pull f w c s = (case f (fst w) c s of (d, w', x, c', s') \<Rightarrow> (d, (w', snd w), x, c', s'))"

definition traced :: "('w, 'c, 'r, 'i, 'o) backend \<Rightarrow> ('w \<times> sent, 'c, 'r, 'i, 'o) backend" where
  "traced B =
     \<lparr>be_connect = \<lambda>w. case be_connect B (fst w) of (d, w', r) \<Rightarrow> (d, (w', snd w), r),
      be_ping = silent (be_ping B), be_is_closed = be_is_closed B, be_dialect = be_dialect B,
      be_tx_status = be_tx_status B, be_take_session_mutated = be_take_session_mutated B,
      be_apply_readonly = \<lambda>ro. silent (be_apply_readonly B ro), be_supports_copy = be_supports_copy B,
      be_clean_reset_profile = be_clean_reset_profile B, be_reset = \<lambda>pr. silent (be_reset B pr),
      be_simple_query = \<lambda>sql. sending sql (be_simple_query B sql),
      be_query = \<lambda>sql params. sending sql (be_query B sql params),
      be_query_stream = \<lambda>sql params. sending sql (be_query_stream B sql params),
      be_row_next = silent_pull (be_row_next B), be_reclaim_stream = \<lambda>s. silent (be_reclaim_stream B s),
      be_copy_in = \<lambda>sql. sending sql (be_copy_in B sql),
      be_sink_send = \<lambda>chunk. silent_pull (be_sink_send B chunk), be_sink_finish = \<lambda>s. silent (be_sink_finish B s),
      be_sink_abort = \<lambda>s. silent (be_sink_abort B s), be_copy_out = \<lambda>sql. sending sql (be_copy_out B sql),
      be_copy_next = silent_pull (be_copy_next B), be_copy_rows_affected = be_copy_rows_affected B\<rparr>"

text \<open>An out-of-band cancel is not a statement.\<close>

definition traced_oob :: "(nat \<Rightarrow> 'w \<Rightarrow> nat \<times> 'w) \<Rightarrow> nat \<Rightarrow> 'w \<times> sent \<Rightarrow> nat \<times> ('w \<times> sent)" where
  "traced_oob oob s w = (case oob s (fst w) of (d, w') \<Rightarrow> (d, (w', snd w)))"

abbreviation sent_of :: "('w \<times> sent, 'c) pool \<times> 'c checkout \<Rightarrow> sent" where
  "sent_of pk \<equiv> snd (p_world (fst pk))"

text \<open>Statements that neither open nor end a transaction.\<close>

definition plain :: "sent \<Rightarrow> bool" where
  "plain xs \<longleftrightarrow> list_all (\<lambda>(sql, _). tx_control_class sql \<noteq> Some Boundary) xs"

definition sends_plain :: "('w \<times> sent, 'c) pool \<times> 'c checkout \<Rightarrow> ('w \<times> sent, 'c) pool \<times> 'c checkout \<Rightarrow> bool" where
  "sends_plain pk pk' \<longleftrightarrow> (\<exists>xs. sent_of pk' = sent_of pk @ xs \<and> plain xs)"

lemma plain_iff:
  "plain xs \<longleftrightarrow> list_all (\<lambda>(sql, _). tx_control_class sql \<noteq> Some Boundary \<and> sql \<noteq> ''COMMIT'' \<and> sql \<noteq> ''ROLLBACK'') xs"
proof -
  have "tx_control_class ''COMMIT'' = Some Boundary" "tx_control_class ''ROLLBACK'' = Some Boundary" by code_simp+
  then show ?thesis by (auto simp: plain_def list_all_iff)
qed

lemma plain_append [simp]: "plain (xs @ ys) \<longleftrightarrow> plain xs \<and> plain ys" "plain []"
  by (simp_all add: plain_def)

lemma sends_plain_refl [simp]: "sent_of pk' = sent_of pk \<Longrightarrow> sends_plain pk pk'"
  by (simp add: sends_plain_def)

lemma sends_plain_trans: "sends_plain pk pk1 \<Longrightarrow> sends_plain pk1 pk2 \<Longrightarrow> sends_plain pk pk2"
proof -
  assume "sends_plain pk pk1" "sends_plain pk1 pk2"
  then obtain xs ys where "sent_of pk1 = sent_of pk @ xs" "plain xs" "sent_of pk2 = sent_of pk1 @ ys" "plain ys"
    unfolding sends_plain_def by blast
  then show ?thesis unfolding sends_plain_def by (intro exI [of _ "xs @ ys"]) simp
qed

lemma bookkeeping_world [simp]:
  "p_world (fst (set_cause c pk)) = p_world (fst pk)"
  "p_world (fst (unpin pk)) = p_world (fst pk)"
  "p_world (fst (after_statement B err pk)) = p_world (fst pk)"
  "p_world (fst (apply_classify_for B v sql pk)) = p_world (fst pk)"
  by (simp_all add: set_cause_def unpin_def after_statement_def force_both_def apply_session_tracker_def
      apply_tx_status_def apply_classify_for_def apply_classify_def case_prod_beta Let_def
      split: verdict.split option.split)

lemma run_on_sending:
  assumes "run_on (sending sql f) pk = (r, pk')"
  shows "sent_of pk' = sent_of pk @ [(sql, \<not> isl r)]"
  using assms by (cases pk) (auto simp: run_on_def sending_def split: prod.splits)

lemma traced_sel [simp]:
  "be_simple_query (traced B) sql = sending sql (be_simple_query B sql)"
  "be_query (traced B) sql params = sending sql (be_query B sql params)"
  "be_tx_status (traced B) = be_tx_status B" "be_is_closed (traced B) = be_is_closed B"
  by (simp_all add: traced_def)

lemma guard_not_boundary: "guard_tx_control B sql params k = Inr v \<Longrightarrow> tx_control_class sql \<noteq> Some Boundary"
  by (auto simp: guard_tx_control_def split: if_splits)

lemma query_sends:
  assumes "query (traced B) sql params pk = (r, pk')"
  shows "sends_plain pk pk'"
proof (cases "guard_tx_control (traced B) sql params (snd pk)")
  case (Inl e)
  then show ?thesis using assms by (simp add: query_def)
next
  case (Inr v)
  obtain r1 pk1 where 1: "run_on (sending sql (be_query B sql params)) pk = (r1, pk1)" by (metis surj_pair)
  obtain r2 pk2 where 2: "run_on (sending sql (be_simple_query B sql)) pk = (r2, pk2)" by (metis surj_pair)
  have "sent_of pk' = sent_of pk1 \<or> sent_of pk' = sent_of pk2"
    using assms Inr 1 2 by (cases v) (auto simp: query_def)
  then show ?thesis
    using run_on_sending [OF 1] run_on_sending [OF 2] guard_not_boundary [OF Inr]
    by (auto simp: sends_plain_def plain_def)
qed

lemma interruptible_sends:
  assumes "run_interruptible (traced_oob oob) (traced B) sql params max_at abort bound cancel pk = (step, pk')"
  shows "sends_plain pk pk'"
proof -
  obtain p k where pk: "pk = (p, k)" by fastforce
  obtain r1 pk1 where q: "query (traced B) sql params (p, k) = (r1, pk1)" by (metis surj_pair)
  obtain s x where s: "stop_instant (p_clock p) max_at abort bound cancel = (s, x)" by fastforce
  obtain d w where w: "traced_oob oob s (p_world p) = (d, w)" by (metis surj_pair)
  obtain r2 p2 k2 where q2: "query (traced B) sql params (p\<lparr>p_world := w\<rparr>, k) = (r2, p2, k2)" by (metis prod_cases3)
  have "snd w = snd (p_world p)" using w by (auto simp: traced_oob_def split: prod.splits)
  then have "sends_plain (p, k) (p2\<lparr>p_clock := max (p_clock p2) (s + d)\<rparr>, k2)"
    using query_sends [OF q2] by (simp add: sends_plain_def)
  moreover have "(step, pk') = (if p_clock (fst pk1) \<le> s then (StepCompleted r1 (of_nat (p_clock (fst pk1) - p_clock p)), pk1)
      else (x, p2\<lparr>p_clock := max (p_clock p2) (s + d)\<rparr>, k2))"
    unfolding assms [symmetric] pk by (rule run_interruptible_eq [where oob = "traced_oob oob", OF q s w q2])
  ultimately show ?thesis using query_sends [OF q] unfolding pk by (metis Pair_inject)
qed

lemma queue_steps_sends:
  assumes run: "\<And>st pk step pk'. run st pk = (step, pk') \<Longrightarrow> sends_plain pk pk'"
  shows "queue_steps run sts results us pk = (out, pk') \<Longrightarrow> sends_plain pk pk'"
proof (induction sts arbitrary: results us pk)
  case (Cons st sts)
  obtain step pk1 where r: "run st pk = (step, pk1)" by (metis surj_pair)
  have "sends_plain pk1 pk'"
    using Cons queue_steps_Cons [of run, OF r] by (auto split: exec_step.splits sum.splits)
  then show ?case using run [OF r] sends_plain_trans by blast
qed simp

lemma savepoint_sends:
  assumes "savepoint_command (traced B) cmd sp pk = (reply, sp', pk')"
  shows "sends_plain pk pk'"
proof (cases "sp_statement cmd sp")
  case None
  then show ?thesis using assms by (simp add: savepoint_command_def)
next
  case (Some stmt)
  have "tx_control_class stmt = Some Savepoint"
    using Some savepoint_control by (cases cmd) (auto simp: sp_statement_def)
  moreover obtain r pk1 where 1: "run_on (sending stmt (be_simple_query B stmt)) pk = (r, pk1)" by (metis surj_pair)
  moreover from this have "sent_of pk' = sent_of pk1"
    using assms Some by (auto simp: savepoint_command_def tx_control_def split: prod.splits)
  ultimately show ?thesis using run_on_sending [OF 1] by (auto simp: sends_plain_def plain_def)
qed

lemma end_sends:
  assumes "end_tx sql (traced B) pk = (r, pk')"
  shows "sent_of pk' = sent_of pk @ [(sql, \<not> isl r)]"
proof -
  obtain r1 pk1 where 1: "run_on (sending sql (be_simple_query B sql)) pk = (r1, pk1)" by (metis surj_pair)
  then have "isl r = isl r1" "sent_of pk' = sent_of pk1"
    using assms
    by (cases r1; auto simp: end_tx_def Let_def unit_result_def set_tx_open_def case_prod_beta)+
  then show ?thesis using run_on_sending [OF 1] by simp
qed

text \<open>What one command sends, and what its client is told of the statement that ends the transaction.\<close>

definition answers :: "'v tx_command \<Rightarrow> 'v tx_reply \<Rightarrow> string \<times> bool \<Rightarrow> bool" where
  "answers cmd reply x \<longleftrightarrow>
     (cmd = CmdCommit \<and> fst x = ''COMMIT'' \<or> cmd = CmdRollback \<and> fst x = ''ROLLBACK'') \<and>
     (\<exists>c. reply = CtlR c \<and> (c = CtlOk \<longleftrightarrow> snd x))"

lemma ctl_ok: "ctl_reply_of r = CtlOk \<longleftrightarrow> \<not> isl r"
  by (cases r) (simp_all add: ctl_reply_of_def)

lemma command_sends:
  assumes "actor_command (traced_oob oob) cfg (traced B) cmd a pk = (reply, fired, e, a', pk')"
  shows "if e = Some Ended then \<exists>x. sent_of pk' = sent_of pk @ [x] \<and> answers cmd reply x else sends_plain pk pk'"
proof (cases "sp_command_of cmd")
  case (Some c)
  obtain r sp1 pk1 where s: "savepoint_command (traced B) c (ac_sp a) pk = (r, sp1, pk1)" by (metis prod_cases3)
  have "pk' = pk1 \<and> e = None"
    using assms Some s by (cases cmd) (simp_all add: actor_command_def sp_command_of_def)
  then show ?thesis using savepoint_sends [OF s] by simp
next
  case None
  show ?thesis
  proof (cases cmd)
    case (CmdExec sql params timeout_ms cancel)
    obtain step pk1 where s: "run_interruptible (traced_oob oob) (traced B) sql params (ac_max_at a) (abort_at cfg)
        (stop_at (p_clock (fst pk)) timeout_ms) cancel pk = (step, pk1)" by (metis surj_pair)
    have "pk' = pk1 \<and> e \<noteq> Some Ended"
      using assms s CmdExec
      by (auto simp: actor_command_def Let_def exec_outcome_def split: prod.splits exec_step.splits if_splits)
    then show ?thesis using interruptible_sends [OF s] by simp
  next
    case (CmdQueue v timeout_ms cancel)
    define run where "run = (\<lambda>(sql, params). run_interruptible (traced_oob oob) (traced B) sql params (ac_max_at a) (abort_at cfg)
        (stop_at (p_clock (fst pk)) timeout_ms) cancel)"
    have l: "run st pk = (step, pk') \<Longrightarrow> sends_plain pk pk'" for st pk step pk'
      using interruptible_sends by (cases st) (simp add: run_def)
    obtain out pk1 where s: "queue_steps run (qv_steps v) [] 0 pk = (out, pk1)" by (metis surj_pair)
    have "snd (snd (queue_outcome v out)) \<noteq> Some Ended"
      by (auto simp: queue_outcome_def split: steps_outcome.split option.split tx_verdict.split)
    then have "(pk' = pk \<or> pk' = pk1) \<and> e \<noteq> Some Ended"
      using assms s CmdQueue
      by (auto simp: actor_command_def Let_def run_def [symmetric] split: if_splits prod.splits)
    then show ?thesis using queue_steps_sends [OF l s] by auto
  next
    case CmdCommit
    obtain r pk1 where c: "commit_tx (traced B) pk = (r, pk1)" by (metis surj_pair)
    then show ?thesis using assms CmdCommit end_sends [of "''COMMIT''" B pk r pk1]
      by (auto simp: actor_command_def commit_tx_def answers_def ctl_ok)
  next
    case CmdRollback
    obtain r pk1 where c: "rollback_tx (traced B) pk = (r, pk1)" by (metis surj_pair)
    then show ?thesis using assms CmdRollback end_sends [of "''ROLLBACK''" B pk r pk1]
      by (auto simp: actor_command_def rollback_tx_def answers_def ctl_ok)
  qed (use None in \<open>simp_all add: sp_command_of_def\<close>)
qed

text \<open>The command that the last reply of the log answers.\<close>

definition last_served :: "(nat \<times> 'v tx_command option) list \<Rightarrow> (nat \<times> 'v tx_reply) list \<Rightarrow> 'v tx_command option" where
  "last_served cmds log = (if log = [] \<or> length cmds < length log then None else snd (cmds ! (length log - 1)))"

lemma loop_sends:
  "actor_loop (traced_oob oob) cfg (traced B) cmds a pk = (log, fired, e, pk') \<Longrightarrow>
   if e = Ended
   then \<exists>xs x c. sent_of pk' = sent_of pk @ xs @ [x] \<and> plain xs \<and> last_served cmds log = Some c \<and> answers c (snd (last log)) x
   else sends_plain pk pk'"
proof (induction cmds arbitrary: a pk log fired)
  case Nil
  obtain p k where pk: "pk = (p, k)" by fastforce
  from Nil(1) [unfolded pk] show ?case by (cases rule: actor_loop_cases) (simp_all add: pk)
next
  case (Cons y cmds)
  obtain p k where pk: "pk = (p, k)" by fastforce
  from Cons.prems(1) [unfolded pk] show ?case
  proof (cases rule: actor_loop_cases)
    case (waiting t)
    then show ?thesis by (simp add: pk)
  next
    case (last at c rest t reply a1)
    from command_sends [OF last(3)] last(1,4) show ?thesis
      by (cases "e = Ended") (auto simp: pk last_served_def sends_plain_def intro: exI [of _ "[]"])
  next
    case (served at c rest t reply f a1 pk1 log1 f1)
    from command_sends [OF served(3)] obtain ys where ys: "sent_of pk1 = sent_of pk @ ys" "plain ys"
      by (auto simp: sends_plain_def pk)
    note IH = Cons.IH [of "a1\<lparr>ac_idle_at := p_clock (fst pk1) + idle_timeout cfg\<rparr>" pk1 log1 f1]
    show ?thesis
    proof (cases "e = Ended")
      case True
      with IH served(1,4) obtain xs x c' where x: "sent_of pk' = sent_of pk1 @ xs @ [x]" "plain xs"
        "last_served cmds log1 = Some c'" "answers c' (snd (last log1)) x" by auto
      moreover from x(3) have "log1 \<noteq> []" by (auto simp: last_served_def split: if_splits)
      then have "last_served (y # cmds) log = last_served cmds log1" "last log = last log1"
        using served(5) by (simp_all add: last_served_def nth_Cons')
      ultimately show ?thesis using True ys by (intro if_P [THEN iffD2, rotated]) (auto intro!: exI [of _ "ys @ xs"] exI [of _ x])
    next
      case False
      with IH served(1,4) have "sends_plain pk1 pk'" by simp
      then show ?thesis using False ys by (auto simp: sends_plain_def)
    qed
  qed
qed

lemma teardown_sends:
  "\<exists>ok. sent_of (teardown_rollback cfg (traced B) pk) = sent_of pk @ [(''ROLLBACK'', ok)] \<and>
     (ok \<or> co_tainted (snd (teardown_rollback cfg (traced B) pk)))"
proof -
  obtain p k where pk: "pk = (p, k)" by fastforce
  obtain d w r c where q: "sending ''ROLLBACK'' (be_simple_query B ''ROLLBACK'') (p_world p) (co_conn k) = (d, w, r, c)"
    by (metis prod_cases4)
  obtain r1 pk1 where r: "end_tx ''ROLLBACK'' (traced B) (p, k) = (r1, pk1)" by (metis surj_pair)
  have "snd w = snd (p_world p) @ [(''ROLLBACK'', \<not> isl r)]" using q by (auto simp: sending_def split: prod.splits)
  then show ?thesis
    using end_sends [OF r] q r pk by (auto simp: teardown_rollback_def rollback_tx_def set_tainted_def case_prod_beta)
qed

text \<open>
  C6: how a transaction ends on the wire. Of what the actor sends from the first command to the release of
  the connection, exactly the last statement ends the transaction: no statement before it, of a client or of
  a queue verb, is \<open>COMMIT\<close> or \<open>ROLLBACK\<close> or is seen by the engine's guard to begin or end a transaction (the guard
  reads the leading words; a nested comment before them hides them from it). If the actor served a \<open>COMMIT\<close> command, the last, that statement is
  \<open>COMMIT\<close>, and the client is told that it succeeded exactly if the server acknowledged it; the same for
  \<open>ROLLBACK\<close>. In every other end (an abort, an idle, maximal or request deadline, a cancelled or unreadable
  statement, every sender gone) it is \<open>ROLLBACK\<close>, and if the server did not acknowledge it the
  connection goes back, if at all, marked for a full reset. This covers buffered statements, queue verbs
  and savepoint commands; streamed and \<open>COPY\<close> commands are not modelled.
\<close>

theorem transaction_ends_on_the_wire:
  "case actor_run (traced_oob oob) cfg (traced B) tx cmds (p, k) reg of
     (log, fired, e, p', reg') \<Rightarrow>
       \<exists>stmts verb ok. snd (p_world p') = snd (p_world p) @ stmts @ [(verb, ok)] \<and>
         list_all (\<lambda>(sql, _). tx_control_class sql \<noteq> Some Boundary \<and> sql \<noteq> ''COMMIT'' \<and> sql \<noteq> ''ROLLBACK'') stmts \<and>
         (if e = Ended then
            (\<exists>c reply. last_served cmds log = Some c \<and> snd (last log) = CtlR reply \<and> (reply = CtlOk \<longleftrightarrow> ok) \<and>
               (c = CmdCommit \<and> verb = ''COMMIT'' \<or> c = CmdRollback \<and> verb = ''ROLLBACK''))
          else verb = ''ROLLBACK'' \<and>
            (p_idle p' = p_idle p \<or> (\<exists>ic. p_idle p' = p_idle p @ [ic] \<and> (ok \<or> ic_tainted ic))))"
proof -
  let ?a = "\<lparr>ac_sp = sp_new, ac_idle_at = p_clock p + idle_timeout cfg, ac_max_at = p_clock p + max_timeout cfg,
      ac_hints = []\<rparr>"
  obtain log f e pk1 where l: "actor_loop (traced_oob oob) cfg (traced B) cmds ?a (p, k) = (log, f, e, pk1)"
    by (metis prod_cases4)
  define pk2 where "pk2 = (if e = Ended then pk1 else teardown_rollback cfg (traced B) pk1)"
  have run: "actor_run (traced_oob oob) cfg (traced B) tx cmds (p, k) reg =
      (log, f, e, release (traced B) pk2, if e = EndDeadline then tombstone tx reg else deregister tx reg)"
    by (simp add: actor_run_def Let_def l teardown_def pk2_def)
  obtain q c where pk2: "pk2 = (q, c)" by fastforce
  have "engine_named (ac_sp ?a)" by (simp add: engine_named_def sp_new_def)
  then have "life (traced B) (p, k) pk2"
    using life_loop [OF l] life_teardown [of "traced B" pk1 cfg] life_trans [of "traced B" pk1 pk2 "(p, k)"]
    by (cases "e = Ended") (simp_all add: pk2_def)
  then have idle: "p_idle q = p_idle p" using life_same_stack by (fastforce simp: pk2 same_stack_def)
  have rel: "p_world (release (traced B) pk2) = p_world q" "p_idle (release (traced B) pk2) = p_idle q \<or>
      (\<exists>ic. p_idle (release (traced B) pk2) = p_idle q @ [ic] \<and> (co_tainted c \<longrightarrow> ic_tainted ic))"
    using unpin_frame [of q c] bookkeeping_world(2) [of pk2]
    by (auto simp: pk2 release_def Let_def same_stack_def case_prod_beta)
  show ?thesis
  proof (cases "e = Ended")
    case True
    with loop_sends [OF l] obtain xs x c' where
      "sent_of pk1 = snd (p_world p) @ xs @ [x]" "plain xs" "last_served cmds log = Some c'" "answers c' (snd (last log)) x"
      by auto
    moreover have "snd (p_world q) = sent_of pk1" using True pk2 by (simp add: pk2_def)
    ultimately show ?thesis using True run rel(1)
      by (cases x) (auto simp: answers_def plain_iff intro!: exI [of _ xs] exI [of _ "fst x"] exI [of _ "snd x"])
  next
    case False
    with loop_sends [OF l] obtain xs where xs: "sent_of pk1 = snd (p_world p) @ xs" "plain xs"
      by (auto simp: sends_plain_def)
    obtain ok where "sent_of pk2 = sent_of pk1 @ [(''ROLLBACK'', ok)]" "ok \<or> co_tainted (snd pk2)"
      using teardown_sends [of cfg B pk1] False by (auto simp: pk2_def)
    then show ?thesis using False run rel idle xs pk2
      by (auto simp: plain_iff intro!: exI [of _ xs] exI [of _ "''ROLLBACK''"] exI [of _ ok])
  qed
qed

end
