(* ===== verification/Flow.thy ===== *)
theory Flow
  imports Ferro_Prelude "HOL-Library.Word"
begin

text \<open>
  Flow control of server-to-client streams (\<open>ferrod/src/session/flow.rs\<close>): the per-request credit
  window, the per-session byte cap with its releasing guard, and the wait loop both use. The mutex is
  held for one operation at a time, so an operation is one step; \<open>tokio::sync::Notify\<close> is modelled by
  what its documentation promises.
\<close>

subsection \<open>The credit window\<close>

record credit =
  frames :: "32 word"
  bytes :: "32 word"

definition credit_new :: "32 word \<Rightarrow> 32 word \<Rightarrow> credit" where
  "credit_new f b = \<lparr>frames = f, bytes = b\<rparr>"

definition try_debit :: "32 word \<Rightarrow> credit \<Rightarrow> bool \<times> credit" where
  "try_debit b c =
     (if frames c = 0 \<or> bytes c < b then (False, c)
      else (True, c\<lparr>frames := frames c - 1, bytes := bytes c - b\<rparr>))"

definition saturating_add :: "'a::len word \<Rightarrow> 'a word \<Rightarrow> 'a word" where
  "saturating_add x y = (if unat x + unat y < 2 ^ LENGTH('a) then x + y else - 1)"

definition saturating_sub :: "'a::len word \<Rightarrow> 'a word \<Rightarrow> 'a word" where
  "saturating_sub x y = (if y \<le> x then x - y else 0)"

definition checked_add :: "'a::len word \<Rightarrow> 'a word \<Rightarrow> 'a word option" where
  "checked_add x y = (if unat x + unat y < 2 ^ LENGTH('a) then Some (x + y) else None)"

definition replenish :: "32 word \<Rightarrow> 32 word \<Rightarrow> credit \<Rightarrow> credit" where
  "replenish f b c = c\<lparr>frames := saturating_add (frames c) f, bytes := saturating_add (bytes c) b\<rparr>"

subsection \<open>The session cap\<close>

record session_cap =
  used :: "64 word"
  cap :: "64 word"

definition session_cap_new :: "64 word \<Rightarrow> session_cap" where
  "session_cap_new c = \<lparr>used = 0, cap = c\<rparr>"

definition try_reserve :: "64 word \<Rightarrow> session_cap \<Rightarrow> bool \<times> session_cap" where
  "try_reserve b s =
     (case checked_add (used s) b of
        Some n \<Rightarrow> if n \<le> cap s then (True, s\<lparr>used := n\<rparr>) else (False, s)
      | None \<Rightarrow> (False, s))"

text \<open>\<open>Drop for CapReserve\<close>, for a guard of that many bytes.\<close>

definition cap_release :: "64 word \<Rightarrow> session_cap \<Rightarrow> session_cap" where
  "cap_release b s = s\<lparr>used := saturating_sub (used s) b\<rparr>"

subsection \<open>The wait loop\<close>

text \<open>
  \<open>debit_or_wait\<close> and \<open>reserve_or_wait\<close> are the same loop over a \<open>try\<close> operation. Its program points:
  about to try, about to create the \<open>Notified\<close> future, about to try again with the future created
  (which has or has not been notified since), parked on it, and returned.
\<close>

datatype 'd wait_point =
    Trying 'd | Registering 'd | Rechecking 'd bool | Parked 'd bool | Returned 'd | WaitAborted 'd

record ('s, 'd) flow =
  resource :: 's
  mutated :: nat
  permit :: bool
  waits :: "'d wait_point list"

fun finished :: "'d wait_point \<Rightarrow> bool" where
  "finished (Returned _) = True"
| "finished (WaitAborted _) = True"
| "finished _ = False"

fun woken :: "'d wait_point \<Rightarrow> 'd wait_point" where
  "woken (Rechecking d _) = Rechecking d True"
| "woken (Parked d _) = Parked d True"
| "woken x = x"

text \<open>
  One step of one task. \<open>attempt d\<close> is the \<open>try\<close> operation, with the resource after a success; \<open>give g\<close>
  is what makes room (a replenishment, a guard's release): it changes the resource, and then, as a
  step of its own, notifies. With \<open>one\<close>, that is \<open>notify_one\<close>: a permit, which a parked future takes;
  at most one wait runs at a time. Without, it is \<open>notify_waiters\<close>: every future created so far.
\<close>

inductive flow_step ::
  "('d \<Rightarrow> 's \<Rightarrow> bool \<times> 's) \<Rightarrow> ('g \<Rightarrow> 's \<Rightarrow> 's) \<Rightarrow> bool \<Rightarrow> ('s, 'd) flow \<Rightarrow> ('s, 'd) flow \<Rightarrow> bool"
  for attempt :: "'d \<Rightarrow> 's \<Rightarrow> bool \<times> 's" and give :: "'g \<Rightarrow> 's \<Rightarrow> 's" and one :: bool where
  start: "one \<longrightarrow> list_all finished (waits s) \<Longrightarrow>
    flow_step attempt give one s (s\<lparr>waits := waits s @ [Trying d]\<rparr>)"
| try_ok: "i < length (waits s) \<Longrightarrow> waits s ! i = Trying d \<Longrightarrow> attempt d (resource s) = (True, r) \<Longrightarrow>
    flow_step attempt give one s (s\<lparr>resource := r, waits := (waits s)[i := Returned d]\<rparr>)"
| try_fails: "i < length (waits s) \<Longrightarrow> waits s ! i = Trying d \<Longrightarrow> attempt d (resource s) = (False, r) \<Longrightarrow>
    flow_step attempt give one s (s\<lparr>resource := r, waits := (waits s)[i := Registering d]\<rparr>)"
| register: "i < length (waits s) \<Longrightarrow> waits s ! i = Registering d \<Longrightarrow>
    flow_step attempt give one s (s\<lparr>waits := (waits s)[i := Rechecking d False]\<rparr>)"
| retry_ok: "i < length (waits s) \<Longrightarrow> waits s ! i = Rechecking d w \<Longrightarrow> attempt d (resource s) = (True, r) \<Longrightarrow>
    flow_step attempt give one s (s\<lparr>resource := r, waits := (waits s)[i := Returned d]\<rparr>)"
| retry_fails: "i < length (waits s) \<Longrightarrow> waits s ! i = Rechecking d w \<Longrightarrow> attempt d (resource s) = (False, r) \<Longrightarrow>
    flow_step attempt give one s (s\<lparr>resource := r, waits := (waits s)[i := Parked d w]\<rparr>)"
| wake: "i < length (waits s) \<Longrightarrow> waits s ! i = Parked d True \<Longrightarrow>
    flow_step attempt give one s (s\<lparr>waits := (waits s)[i := Trying d]\<rparr>)"
| take_permit: "i < length (waits s) \<Longrightarrow> waits s ! i = Parked d w \<Longrightarrow> permit s \<Longrightarrow>
    flow_step attempt give one s (s\<lparr>permit := False, waits := (waits s)[i := Trying d]\<rparr>)"
| give_up: "i < length (waits s) \<Longrightarrow> waits s ! i = Parked d w \<Longrightarrow>
    flow_step attempt give one s (s\<lparr>waits := (waits s)[i := WaitAborted d]\<rparr>)"
| make_room: "flow_step attempt give one s (s\<lparr>resource := give g (resource s), mutated := mutated s + 1\<rparr>)"
| notify_one: "one \<Longrightarrow> 0 < mutated s \<Longrightarrow>
    flow_step attempt give one s (s\<lparr>mutated := mutated s - 1, permit := True\<rparr>)"
| notify_waiters: "\<not> one \<Longrightarrow> 0 < mutated s \<Longrightarrow>
    flow_step attempt give one s (s\<lparr>mutated := mutated s - 1, waits := map woken (waits s)\<rparr>)"

definition flow_init :: "'s \<Rightarrow> ('s, 'd) flow" where
  "flow_init r = \<lparr>resource = r, mutated = 0, permit = False, waits = []\<rparr>"

inductive flow_reachable ::
  "('d \<Rightarrow> 's \<Rightarrow> bool \<times> 's) \<Rightarrow> ('g \<Rightarrow> 's \<Rightarrow> 's) \<Rightarrow> bool \<Rightarrow> 's \<Rightarrow> ('s, 'd) flow \<Rightarrow> bool"
  for attempt :: "'d \<Rightarrow> 's \<Rightarrow> bool \<times> 's" and give :: "'g \<Rightarrow> 's \<Rightarrow> 's" and one :: bool and r0 :: 's where
  init: "flow_reachable attempt give one r0 (flow_init r0)"
| step: "flow_reachable attempt give one r0 s \<Longrightarrow> flow_step attempt give one s s' \<Longrightarrow>
    flow_reachable attempt give one r0 s'"

text \<open>
  A step in which no room is made and no new wait starts: what is left is the waits' own steps and the
  notifications that are due for room already made.
\<close>

definition calm_step ::
  "('d \<Rightarrow> 's \<Rightarrow> bool \<times> 's) \<Rightarrow> ('g \<Rightarrow> 's \<Rightarrow> 's) \<Rightarrow> bool \<Rightarrow> ('s, 'd) flow \<Rightarrow> ('s, 'd) flow \<Rightarrow> bool" where
  "calm_step attempt give one s s' \<longleftrightarrow>
     flow_step attempt give one s s' \<and> mutated s' \<le> mutated s \<and> length (waits s') = length (waits s)"

subsection \<open>Runs\<close>

text \<open>What a window does over a sequence of debits and updates: the frames that were let through.\<close>

datatype credit_op = Debit "32 word" | WindowUpdate "32 word" "32 word"

fun credit_run :: "credit_op list \<Rightarrow> credit \<Rightarrow> 32 word list \<times> credit" where
  "credit_run [] c = ([], c)"
| "credit_run (Debit b # ops) c =
     (case try_debit b c of
        (True, c') \<Rightarrow> (case credit_run ops c' of (sent, c'') \<Rightarrow> (b # sent, c''))
      | (False, c') \<Rightarrow> credit_run ops c')"
| "credit_run (WindowUpdate f b # ops) c = credit_run ops (replenish f b c)"

fun granted_frames :: "credit_op list \<Rightarrow> nat" where
  "granted_frames [] = 0"
| "granted_frames (Debit _ # ops) = granted_frames ops"
| "granted_frames (WindowUpdate f _ # ops) = unat f + granted_frames ops"

fun granted_bytes :: "credit_op list \<Rightarrow> nat" where
  "granted_bytes [] = 0"
| "granted_bytes (Debit _ # ops) = granted_bytes ops"
| "granted_bytes (WindowUpdate _ b # ops) = unat b + granted_bytes ops"

text \<open>Reservations and the guards that hold them; a guard is dropped once, by its owner.\<close>

datatype cap_op = Reserve "64 word" | DropGuard nat

fun cap_run :: "cap_op list \<Rightarrow> session_cap \<times> 64 word list \<Rightarrow> session_cap \<times> 64 word list" where
  "cap_run [] s = s"
| "cap_run (Reserve b # ops) (s, guards) =
     (case try_reserve b s of
        (True, s') \<Rightarrow> cap_run ops (s', guards @ [b])
      | (False, s') \<Rightarrow> cap_run ops (s', guards))"
| "cap_run (DropGuard i # ops) (s, guards) =
     (if i < length guards
      then cap_run ops (cap_release (guards ! i) s, take i guards @ drop (Suc i) guards)
      else cap_run ops (s, guards))"

subsection \<open>No wakeup is lost\<close>

text \<open>
  What the loop relies on: an attempt that fails changes nothing, and one that succeeds leaves less
  room for everyone.
\<close>

locale wait_loop =
  fixes attempt :: "'d \<Rightarrow> 's \<Rightarrow> bool \<times> 's" and give :: "'g \<Rightarrow> 's \<Rightarrow> 's" and one :: bool
  assumes fail_law: "attempt d r = (False, r') \<Longrightarrow> r' = r"
    and room_law: "attempt d r = (True, r') \<Longrightarrow> fst (attempt d' r') \<Longrightarrow> fst (attempt d' r)"
begin

definition pending :: "('s, 'd) flow \<Rightarrow> bool" where
  "pending s \<longleftrightarrow> 0 < mutated s \<or> permit s"

definition parked_ok :: "('s, 'd) flow \<Rightarrow> bool" where
  "parked_ok s \<longleftrightarrow> (\<forall>d. Parked d False \<in> set (waits s) \<and> \<not> pending s \<longrightarrow> \<not> fst (attempt d (resource s)))"

definition single :: "('s, 'd) flow \<Rightarrow> bool" where
  "single s \<longleftrightarrow> (one \<longrightarrow> length (filter (\<lambda>x. \<not> finished x) (waits s)) \<le> 1)"

lemma in_update: "x \<in> set (xs[i := y]) \<Longrightarrow> x = y \<or> x \<in> set xs"
  using set_update_subset_insert [of xs i y] by blast

lemma filter_update:
  "i < length xs \<Longrightarrow> \<not> finished (xs ! i) \<Longrightarrow>
   length (filter (\<lambda>x. \<not> finished x) (xs[i := y])) \<le> length (filter (\<lambda>x. \<not> finished x) xs)"
  by (induction xs arbitrary: i) (auto split: nat.splits)

lemma filter_woken: "length (filter (\<lambda>x. \<not> finished x) (map woken xs)) = length (filter (\<lambda>x. \<not> finished x) xs)"
proof (induction xs)
  case (Cons x xs)
  then show ?case by (cases x) auto
qed simp

lemma single_update:
  "single s \<Longrightarrow> i < length (waits s) \<Longrightarrow> \<not> finished (waits s ! i) \<Longrightarrow> waits s' = (waits s)[i := y] \<Longrightarrow> single s'"
  using filter_update [of i "waits s" y] unfolding single_def by (simp add: order_trans)

lemma step_single: "flow_step attempt give one s s' \<Longrightarrow> single s \<Longrightarrow> single s'"
proof (induction rule: flow_step.induct)
  case (start s d)
  then show ?case unfolding single_def by (auto simp: list_all_iff filter_empty_conv)
next
  case (make_room s g)
  then show ?case unfolding single_def by simp
next
  case (notify_one s)
  then show ?case unfolding single_def by simp
next
  case (notify_waiters s)
  then show ?case unfolding single_def by simp
qed (rule single_update, assumption+, simp_all)+

lemma single_eq:
  assumes "length (filter P xs) \<le> 1" "x \<in> set xs" "y \<in> set xs" "P x" "P y"
  shows "x = y"
proof (cases "filter P xs")
  case Nil
  then show ?thesis using assms by (auto simp: filter_empty_conv)
next
  case (Cons z zs)
  then have "set (filter P xs) = {z}" using assms(1) by simp
  moreover have "x \<in> set (filter P xs)" "y \<in> set (filter P xs)" using assms by simp_all
  ultimately show ?thesis by simp
qed

lemma attempt_less: "attempt d r = (b, r') \<Longrightarrow> fst (attempt d' r') \<Longrightarrow> fst (attempt d' r)"
  using fail_law [of d r r'] room_law [of d r r' d'] by (cases b) auto

lemma parked_ok_step:
  assumes "parked_ok s" "pending s' = pending s" "waits s' = (waits s)[i := x]"
    and "\<And>d. fst (attempt d (resource s')) \<Longrightarrow> fst (attempt d (resource s))"
    and "\<And>d. x = Parked d False \<Longrightarrow> \<not> fst (attempt d (resource s'))"
  shows "parked_ok s'"
  unfolding parked_ok_def
proof (intro allI impI)
  fix d assume p: "Parked d False \<in> set (waits s') \<and> \<not> pending s'"
  then consider "x = Parked d False" | "Parked d False \<in> set (waits s)" using in_update assms(3) by metis
  then show "\<not> fst (attempt d (resource s'))"
  proof cases
    case 2
    then have "\<not> fst (attempt d (resource s))" using assms(1,2) p by (simp add: parked_ok_def)
    then show ?thesis using assms(4) by blast
  qed (use assms(5) in blast)
qed

lemma step_parked_ok:
  assumes "flow_step attempt give one s s'" "parked_ok s" "single s" "permit s \<longrightarrow> one"
  shows "parked_ok s'"
  using assms
proof (induction rule: flow_step.induct)
  case (start s d)
  then show ?case by (auto simp: parked_ok_def pending_def)
next
  case (try_ok i s d r)
  show ?case
    by (rule parked_ok_step [of s _ i "Returned d"])
      (use try_ok attempt_less [OF try_ok(3)] in \<open>simp_all add: pending_def\<close>)
next
  case (try_fails i s d r)
  show ?case
    by (rule parked_ok_step [of s _ i "Registering d"])
      (use try_fails attempt_less [OF try_fails(3)] in \<open>simp_all add: pending_def\<close>)
next
  case (register i s d)
  show ?case by (rule parked_ok_step [of s _ i "Rechecking d False"]) (use register in \<open>simp_all add: pending_def\<close>)
next
  case (retry_ok i s d w r)
  show ?case
    by (rule parked_ok_step [of s _ i "Returned d"])
      (use retry_ok attempt_less [OF retry_ok(3)] in \<open>simp_all add: pending_def\<close>)
next
  case (retry_fails i s d w r)
  have r: "r = resource s" using retry_fails(3) by (rule fail_law)
  have f: "\<not> fst (attempt d (resource s))" using retry_fails(3) by simp
  show ?case unfolding r
    by (rule parked_ok_step [of s _ i "Parked d w"]) (use retry_fails(4) f in \<open>simp_all add: pending_def\<close>)
next
  case (wake i s d)
  show ?case by (rule parked_ok_step [of s _ i "Trying d"]) (use wake in \<open>simp_all add: pending_def\<close>)
next
  case (take_permit i s d w)
  show ?case unfolding parked_ok_def
  proof (intro allI impI)
    fix d' assume p: "Parked d' False \<in> set (waits (s\<lparr>permit := False, waits := (waits s)[i := Trying d]\<rparr>)) \<and>
      \<not> pending (s\<lparr>permit := False, waits := (waits s)[i := Trying d]\<rparr>)"
    have "Trying d \<in> set ((waits s)[i := Trying d])" using take_permit(1) by (simp add: set_update_memI)
    moreover have "one" using take_permit(3,6) by blast
    then have "length (filter (\<lambda>x. \<not> finished x) ((waits s)[i := Trying d])) \<le> 1"
      using filter_update [OF take_permit(1), of "Trying d"] take_permit(2,5) unfolding single_def by simp
    ultimately have "Parked d' False = Trying d" using p single_eq [of "\<lambda>x. \<not> finished x" "(waits s)[i := Trying d]" "Parked d' False" "Trying d"] by simp
    then show "\<not> fst (attempt d' (resource (s\<lparr>permit := False, waits := (waits s)[i := Trying d]\<rparr>)))" by simp
  qed
next
  case (give_up i s d w)
  show ?case by (rule parked_ok_step [of s _ i "WaitAborted d"]) (use give_up in \<open>simp_all add: pending_def\<close>)
next
  case (make_room s g)
  then show ?case by (simp add: parked_ok_def pending_def)
next
  case (notify_one s)
  then show ?case by (simp add: parked_ok_def pending_def)
next
  case (notify_waiters s)
  have "Parked d False \<notin> set (map woken xs)" for d and xs :: "'d wait_point list"
  proof
    assume "Parked d False \<in> set (map woken xs)"
    then obtain x where "woken x = Parked d False" by auto
    then show False by (cases x) auto
  qed
  then show ?case by (simp add: parked_ok_def)
qed

lemma step_permit: "flow_step attempt give one s s' \<Longrightarrow> permit s \<longrightarrow> one \<Longrightarrow> permit s' \<longrightarrow> one"
  by (induction rule: flow_step.induct) auto

lemma reachable_parked_ok:
  "flow_reachable attempt give one r0 s \<Longrightarrow> parked_ok s \<and> single s \<and> (permit s \<longrightarrow> one)"
proof (induction rule: flow_reachable.induct)
  case init
  then show ?case unfolding parked_ok_def single_def flow_init_def by simp
next
  case (step s s')
  then show ?case using step_parked_ok step_single step_permit by metis
qed

lemma no_wakeup_lost:
  assumes "flow_reachable attempt give one r0 s" "i < length (waits s)" "waits s ! i = Parked d w"
    and "fst (attempt d (resource s))"
  shows "0 < mutated s \<or> permit s \<or> w"
  using reachable_parked_ok [OF assms(1)] assms(2-4) nth_mem [of i "waits s"]
  by (cases w) (auto simp: parked_ok_def pending_def)

text \<open>A parked wait whose demand fits returns after steps of its own and of notifications that are due.\<close>

lemma calm_then:
  assumes "flow_step attempt give one u v" "mutated v \<le> mutated u" "length (waits v) = length (waits u)"
    and "\<exists>s'. (calm_step attempt give one)\<^sup>*\<^sup>* v s' \<and> P s'"
  shows "\<exists>s'. (calm_step attempt give one)\<^sup>*\<^sup>* u s' \<and> P s'"
  using assms converse_rtranclp_into_rtranclp [of "calm_step attempt give one" u v] unfolding calm_step_def by blast

lemma parked_can_return:
  assumes "flow_reachable attempt give one r0 s" "i < length (waits s)" "waits s ! i = Parked d w"
    and fits: "fst (attempt d (resource s))"
  shows "\<exists>s'. (calm_step attempt give one)\<^sup>*\<^sup>* s s' \<and> waits s' ! i = Returned d"
proof -
  have returns: "\<exists>s'. (calm_step attempt give one)\<^sup>*\<^sup>* u s' \<and> waits s' ! i = Returned d"
    if u: "i < length (waits u)" "waits u ! i = Trying d" "resource u = resource s" for u
  proof -
    obtain r where r: "attempt d (resource u) = (True, r)" using fits u(3) by (cases "attempt d (resource s)") auto
    show ?thesis by (rule calm_then [OF flow_step.try_ok [of i u d attempt r give one]]) (use u(1,2) r in auto)
  qed
  have awake: "\<exists>s'. (calm_step attempt give one)\<^sup>*\<^sup>* u s' \<and> waits s' ! i = Returned d"
    if u: "i < length (waits u)" "waits u ! i = Parked d True" "resource u = resource s" for u
    by (rule calm_then [OF flow_step.wake [of i u d attempt give one]]) (use u in \<open>simp_all add: returns\<close>)
  have permitted: "\<exists>s'. (calm_step attempt give one)\<^sup>*\<^sup>* u s' \<and> waits s' ! i = Returned d"
    if u: "i < length (waits u)" "waits u ! i = Parked d w" "resource u = resource s" "permit u" for u
    by (rule calm_then [OF flow_step.take_permit [of i u d w attempt give one]]) (use u in \<open>simp_all add: returns\<close>)
  from no_wakeup_lost [OF assms] consider "w" | "permit s" | "0 < mutated s" "one" | "0 < mutated s" "\<not> one" by (cases one) auto
  then show ?thesis
  proof cases
    case 1
    then show ?thesis using awake assms by simp
  next
    case 2
    then show ?thesis using permitted assms by simp
  next
    case 3
    show ?thesis by (rule calm_then [OF flow_step.notify_one [of one s attempt give]]) (use 3 permitted assms in simp_all)
  next
    case 4
    show ?thesis by (rule calm_then [OF flow_step.notify_waiters [of one s attempt give]]) (use 4 awake assms in simp_all)
  qed
qed

end

subsection \<open>The two users of the loop\<close>

lemma unat_bound: "unat x < 2 ^ LENGTH('a)" for x :: "'a::len word"
  by (rule unsigned_less)

lemma unat_plus: "unat x + unat y < 2 ^ LENGTH('a) \<Longrightarrow> unat (x + y) = unat x + unat y" for x y :: "'a::len word"
  by (simp add: unat_word_ariths)

lemma try_debit_ok: "try_debit b c = (True, c') \<longleftrightarrow>
    0 < unat (frames c) \<and> unat b \<le> unat (bytes c) \<and> c' = c\<lparr>frames := frames c - 1, bytes := bytes c - b\<rparr>"
  by (auto simp: try_debit_def unat_gt_0 word_le_nat_alt word_less_nat_alt)

lemma try_debit_sub:
  "try_debit b c = (True, c') \<Longrightarrow>
   unat (frames c') + 1 = unat (frames c) \<and> unat (bytes c') + unat b = unat (bytes c)"
proof -
  assume "try_debit b c = (True, c')"
  then have c: "0 < unat (frames c)" "unat b \<le> unat (bytes c)"
    "c' = c\<lparr>frames := frames c - 1, bytes := bytes c - b\<rparr>" by (simp_all add: try_debit_ok)
  then have "unat (frames c - 1) = unat (frames c) - 1" "unat (bytes c - b) = unat (bytes c) - unat b"
    by (simp_all add: unat_sub word_le_nat_alt)
  with c show ?thesis by simp
qed

interpretation credit_loop: wait_loop try_debit "\<lambda>(f, b). replenish f b" True
proof
  show "r' = r" if "try_debit d r = (False, r')" for d r r'
    using that by (auto simp: try_debit_def split: if_splits)
  show "fst (try_debit d' r)" if ok: "try_debit d r = (True, r')" and more: "fst (try_debit d' r')" for d r r' d'
  proof -
    obtain r2 where "try_debit d' r' = (True, r2)" using more by (cases "try_debit d' r'") auto
    then have "0 < unat (frames r')" "unat d' \<le> unat (bytes r')" by (simp_all add: try_debit_ok)
    then have "0 < unat (frames r)" "unat d' \<le> unat (bytes r)" using try_debit_sub [OF ok] by simp_all
    then show ?thesis using try_debit_ok [of d' r] by (metis fst_conv)
  qed
qed

lemma try_reserve_ok: "try_reserve b s = (True, s') \<longleftrightarrow>
    unat (used s) + unat b \<le> unat (cap s) \<and> s' = s\<lparr>used := used s + b\<rparr>"
proof (cases "unat (used s) + unat b < 2 ^ 64")
  case True
  then have "used s + b \<le> cap s \<longleftrightarrow> unat (used s) + unat b \<le> unat (cap s)"
    using unat_plus [of "used s" b] by (simp add: word_le_nat_alt)
  then show ?thesis using True by (auto simp: try_reserve_def checked_add_def)
next
  case False
  then show ?thesis using unat_bound [of "cap s"] by (auto simp: try_reserve_def checked_add_def)
qed

interpretation cap_loop: wait_loop try_reserve cap_release False
proof
  show "r' = r" if "try_reserve d r = (False, r')" for d r r'
    using that by (auto simp: try_reserve_def split: option.splits if_splits)
  show "fst (try_reserve d' r)" if ok: "try_reserve d r = (True, r')" and more: "fst (try_reserve d' r')" for d r r' d'
  proof -
    obtain r2 where "try_reserve d' r' = (True, r2)" using more by (cases "try_reserve d' r'") auto
    moreover have "unat (used r') = unat (used r) + unat d" "cap r' = cap r"
      using ok unat_plus [of "used r" d] unat_bound [of "cap r"] by (auto simp: try_reserve_ok)
    ultimately have "unat (used r) + unat d' \<le> unat (cap r)" by (simp add: try_reserve_ok)
    then show ?thesis using try_reserve_ok [of d' r] by (metis fst_conv)
  qed
qed

subsection \<open>What flow control promises\<close>

text \<open>A wait that parked although room was made since, reached step by step.\<close>

lemma parks:
  assumes "attempt d r0 = (False, r0)"
  shows "flow_reachable attempt give one r0 \<lparr>resource = give g r0, mutated = 1, permit = False, waits = [Parked d False]\<rparr>"
proof -
  let ?s = "\<lambda>ws. \<lparr>resource = r0, mutated = 0, permit = False, waits = ws\<rparr>"
  have "flow_reachable attempt give one r0 (?s [])" using flow_reachable.init [of attempt give one r0] by (simp add: flow_init_def)
  then have "flow_reachable attempt give one r0 (?s [Trying d])"
    using flow_reachable.step flow_step.start [of one "?s []" attempt give d] by fastforce
  then have "flow_reachable attempt give one r0 (?s [Registering d])"
    using flow_reachable.step flow_step.try_fails [of 0 "?s [Trying d]" d attempt r0 give one] assms by fastforce
  then have "flow_reachable attempt give one r0 (?s [Rechecking d False])"
    using flow_reachable.step flow_step.register [of 0 "?s [Registering d]" d attempt give one] by fastforce
  then have "flow_reachable attempt give one r0 (?s [Parked d False])"
    using flow_reachable.step flow_step.retry_fails [of 0 "?s [Rechecking d False]" d False attempt r0 give one] assms
    by fastforce
  then show ?thesis
    using flow_reachable.step flow_step.make_room [of attempt give one "?s [Parked d False]" g] by fastforce
qed

text \<open>
  C10: a stream that waits for credit is never forgotten. In every interleaving of a producer that
  debits or waits with any number of window updates, each of which changes the window and notifies in
  two steps, a producer parked although its frame fits still returns when it and the notifications
  that are due take their steps: no further update is needed to wake it.
\<close>

theorem credit_wait_not_forgotten:
  assumes "flow_reachable try_debit (\<lambda>(f, b). replenish f b) True c s"
    and "i < length (waits s)" "waits s ! i = Parked d w" "fst (try_debit d (resource s))"
  shows "\<exists>s'. (calm_step try_debit (\<lambda>(f, b). replenish f b) True)\<^sup>*\<^sup>* s s' \<and> waits s' ! i = Returned d"
  by (rule credit_loop.parked_can_return [OF assms])

theorem credit_wait_not_forgotten_witness:
  "\<exists>s'. (calm_step try_debit (\<lambda>(f, b). replenish f b) True)\<^sup>*\<^sup>*
     \<lparr>resource = replenish 1 10 (credit_new 0 0), mutated = 1, permit = False, waits = [Parked 5 False]\<rparr> s' \<and>
     waits s' ! 0 = Returned 5"
proof -
  have "flow_reachable try_debit (\<lambda>(f, b). replenish f b) True (credit_new 0 0)
     \<lparr>resource = replenish 1 10 (credit_new 0 0), mutated = 1, permit = False, waits = [Parked 5 False]\<rparr>"
    using parks [of try_debit 5 "credit_new 0 0" "\<lambda>(f, b). replenish f b" True "(1, 10)"]
    by (simp add: try_debit_def credit_new_def)
  from credit_wait_not_forgotten [OF this, of 0 5 False] show ?thesis
    by (simp add: try_debit_def credit_new_def replenish_def saturating_add_def)
qed



lemma unat_saturating_add: "unat (saturating_add x y) \<le> unat x + unat y" for x y :: "'a::len word"
proof (cases "unat x + unat y < 2 ^ LENGTH('a)")
  case True
  then show ?thesis using unat_plus [OF True] by (simp add: saturating_add_def)
next
  case False
  have "unat (- 1 :: 'a word) < 2 ^ LENGTH('a)" by (rule unat_bound)
  with False have "unat (- 1 :: 'a word) \<le> unat x + unat y" by linarith
  then show ?thesis using False by (simp only: saturating_add_def if_False)
qed

text \<open>
  The client's window is never overrun. Over any sequence of debits and window updates the frames
  let through number at most the seed and the granted frames together, and their bytes sum to at most
  the seed and the granted bytes; no update wraps the window around.
\<close>

theorem window_never_overrun:
  "case credit_run ops c of
     (sent, c') \<Rightarrow>
       length sent + unat (frames c') \<le> unat (frames c) + granted_frames ops \<and>
       sum_list (map unat sent) + unat (bytes c') \<le> unat (bytes c) + granted_bytes ops"
proof (induction ops c rule: credit_run.induct)
  case (2 b ops c)
  obtain ok c1 where d: "try_debit b c = (ok, c1)" by fastforce
  obtain sent c2 where r: "credit_run ops c1 = (sent, c2)" by fastforce
  show ?case
  proof (cases ok)
    case True
    then show ?thesis using 2(1) [OF d [symmetric]] d r try_debit_sub [of b c c1] by simp
  next
    case False
    then have "c1 = c" using d credit_loop.fail_law by simp
    then show ?thesis using 2(2) [OF d [symmetric]] d r False by simp
  qed
next
  case (3 f b ops c)
  obtain sent c2 where r: "credit_run ops (replenish f b c) = (sent, c2)" by fastforce
  then show ?case
    using 3 unat_saturating_add [of "frames c" f] unat_saturating_add [of "bytes c" b] by (simp add: replenish_def)
qed simp

definition cap_exact :: "64 word \<Rightarrow> session_cap \<times> 64 word list \<Rightarrow> bool" where
  "cap_exact c sg \<longleftrightarrow>
     cap (fst sg) = c \<and> unat (used (fst sg)) = sum_list (map unat (snd sg)) \<and> used (fst sg) \<le> c"

lemma sum_take_drop: "i < length xs \<Longrightarrow> sum_list (map f xs) = f (xs ! i) + sum_list (map f (take i xs @ drop (Suc i) xs))"
  for f :: "'a \<Rightarrow> nat"
  by (subst id_take_nth_drop [of i xs]) simp_all

lemma cap_release_exact:
  assumes "cap_exact c (s, guards)" "i < length guards"
  shows "cap_exact c (cap_release (guards ! i) s, take i guards @ drop (Suc i) guards)"
proof -
  have sum: "unat (used s) = unat (guards ! i) + sum_list (map unat (take i guards @ drop (Suc i) guards))"
    using assms(1) sum_take_drop [OF assms(2), of unat] by (simp add: cap_exact_def)
  then have le: "guards ! i \<le> used s" by (simp add: word_le_nat_alt)
  then have "unat (saturating_sub (used s) (guards ! i)) = unat (used s) - unat (guards ! i)"
    by (simp add: saturating_sub_def unat_sub)
  then show ?thesis using assms(1) sum by (simp add: cap_exact_def cap_release_def word_le_nat_alt)
qed

lemma try_reserve_exact:
  assumes "cap_exact c (s, guards)" "try_reserve b s = (True, s')"
  shows "cap_exact c (s', guards @ [b])"
proof -
  have r: "unat (used s) + unat b \<le> unat (cap s)" "s' = s\<lparr>used := used s + b\<rparr>"
    using assms(2) by (simp_all add: try_reserve_ok)
  then have "unat (used s + b) = unat (used s) + unat b" using unat_plus [of "used s" b] unat_bound [of "cap s"] by simp
  then show ?thesis using assms(1) r by (simp add: cap_exact_def word_le_nat_alt)
qed

lemma cap_run_exact: "cap_exact c sg \<Longrightarrow> cap_exact c (cap_run ops sg)"
proof (induction ops sg rule: cap_run.induct)
  case (2 b ops s guards)
  obtain ok s1 where d: "try_reserve b s = (ok, s1)" by fastforce
  show ?case
  proof (cases ok)
    case True
    then show ?thesis using 2 d try_reserve_exact by simp
  next
    case False
    then have "s1 = s" using d cap_loop.fail_law by simp
    then show ?thesis using 2 d False by simp
  qed
next
  case (3 i ops s guards)
  then show ?case using cap_release_exact by simp
qed simp

text \<open>
  The session's reserved total is exactly what the live guards hold, and never exceeds the cap,
  whatever is reserved and dropped in whatever order: no reservation is counted twice, none is lost,
  and no sum wraps around.
\<close>

theorem session_cap_is_exact:
  "case cap_run ops (session_cap_new c, []) of
     (s, guards) \<Rightarrow> unat (used s) = sum_list (map unat guards) \<and> used s \<le> c"
  using cap_run_exact [of c "(session_cap_new c, [])" ops]
  by (auto simp: cap_exact_def session_cap_new_def split: prod.splits)

end
