(* ===== verification/Endian.thy ===== *)
theory Endian
  imports Ferro_Prelude
begin

text \<open>
  The bytes of machine integers: \<open>to_le_bytes\<close> and \<open>from_le_bytes\<close> of Rust's integer types, used by the
  frame header (\<open>ferro-proto/src/header.rs\<close>) and, reversed, as the octets of network addresses
  (\<open>ferro-http/src/address.rs\<close>).
\<close>

type_synonym u8s = "8 word list"

subsection \<open>Bytes of an integer\<close>

fun to_le_bytes :: "nat \<Rightarrow> 'a::len word \<Rightarrow> u8s" where
  "to_le_bytes 0 x = []"
| "to_le_bytes (Suc k) x = ucast x # to_le_bytes k (drop_bit 8 x)"

fun le_nat :: "u8s \<Rightarrow> nat" where
  "le_nat [] = 0"
| "le_nat (b # bs) = unat b + 256 * le_nat bs"

definition from_le_bytes :: "u8s \<Rightarrow> 'a::len word" where
  "from_le_bytes bs = word_of_nat (le_nat bs)"

subsection \<open>Integers round trip\<close>

lemma length_to_le [simp]: "length (to_le_bytes k x) = k"
  by (induction k arbitrary: x) simp_all

lemma to_le_numeral: "to_le_bytes (numeral k) x = ucast x # to_le_bytes (pred_numeral k) (drop_bit 8 x)"
  by (simp add: numeral_eq_Suc)

lemma le_nat_to_le: "le_nat (to_le_bytes k x) = unat x mod 256 ^ k" for x :: "'a::len word"
proof (induction k arbitrary: x)
  case (Suc k)
  have "unat (ucast x :: 8 word) = unat x mod 256" by (simp add: unsigned_ucast_eq unsigned_take_bit_eq take_bit_eq_mod)
  moreover have "unat (drop_bit 8 x) = unat x div 256"
    unfolding unsigned_drop_bit_eq by (simp add: drop_bit_eq_div take_bit_nat_eq_self [OF unsigned_less])
  ultimately show ?case using Suc by (simp add: mod_mult2_eq)
qed simp

lemma le_nat_bound: "le_nat bs < 256 ^ length bs"
proof (induction bs)
  case (Cons b bs)
  have "unat b < 256" using unsigned_less [of b] by simp
  then show ?case using Cons by simp
qed simp

lemma le_nat_inj: "length bs = length bs' \<Longrightarrow> le_nat bs = le_nat bs' \<Longrightarrow> bs = bs'"
proof (induction bs bs' rule: list_induct2)
  case (Cons b bs b' bs')
  have "unat b < 256" "unat b' < 256" using unsigned_less [of b] unsigned_less [of b'] by simp_all
  moreover have "unat b = (unat b + 256 * le_nat bs) mod 256" "unat b' = (unat b' + 256 * le_nat bs') mod 256"
    using calculation by simp_all
  ultimately have b: "unat b = unat b'" using Cons.prems by (metis le_nat.simps(2))
  then have "le_nat bs = le_nat bs'" using Cons.prems by simp
  with b have "unat b = unat b'" "le_nat bs = le_nat bs'" by simp_all
  then show ?case using Cons.IH by (simp add: word_unat_eq_iff)
qed simp

lemma from_to_le: "8 * k = LENGTH('a) \<Longrightarrow> from_le_bytes (to_le_bytes k x) = x" for x :: "'a::len word"
proof -
  assume k: "8 * k = LENGTH('a)"
  have "(256 :: nat) ^ k = 2 ^ (8 * k)" by (simp add: power_mult)
  then have "unat x < 256 ^ k" using unsigned_less [of x] k by simp
  then show ?thesis by (simp add: from_le_bytes_def le_nat_to_le)
qed

lemma to_from_le:
  assumes "8 * length bs = LENGTH('a)"
  shows "to_le_bytes (length bs) (from_le_bytes bs :: 'a::len word) = bs"
proof (rule le_nat_inj)
  have "(256 :: nat) ^ length bs = 2 ^ LENGTH('a)" by (simp add: power_mult assms [symmetric])
  then have "unat (from_le_bytes bs :: 'a word) = le_nat bs"
    using le_nat_bound [of bs] by (simp add: from_le_bytes_def unat_of_nat)
  then show "le_nat (to_le_bytes (length bs) (from_le_bytes bs :: 'a word)) = le_nat bs"
    using le_nat_bound [of bs] by (simp add: le_nat_to_le)
qed simp

end
