(* ===== verification/Frame.thy ===== *)
theory Frame
  imports Fate Decimal Endian
begin

text \<open>
  Frames: the 16-byte header and its flags (\<open>ferro-proto/src/header.rs\<close>, \<open>flags.rs\<close>, \<open>error.rs\<close>), the
  codec that cuts a byte stream into frames (\<open>ferrod/src/session/codec.rs\<close>) and the reader's
  classification of what it decodes (\<open>session/classify.rs\<close>). The numbers are those of
  \<open>proto/registry.lock.json\<close>.
\<close>

subsection \<open>The header\<close>

definition HEADER_LEN :: nat where "HEADER_LEN = 16"
definition MAGIC :: "8 word" where "MAGIC = 247"
definition PROTOCOL_VERSION :: "8 word" where "PROTOCOL_VERSION = 4"
definition MAX_FRAME_PAYLOAD :: "32 word" where "MAX_FRAME_PAYLOAD = 16777216"

datatype codec_error =
    BadMagic "8 word" "8 word" | BadVersion "8 word" "8 word" | FrameTooLarge "32 word" "32 word"
  | UnknownFlags "16 word" | UnsupportedFlag | Truncated nat nat | Malformed string | TrailingBytes nat

text \<open>The messages of \<open>CodecError\<close>.\<close>

definition hex_digit :: "nat \<Rightarrow> char" where
  "hex_digit n = char_of (if n < 10 then 48 + n else 55 + n)"

fun hex_pad :: "nat \<Rightarrow> nat \<Rightarrow> string" where
  "hex_pad 0 n = []"
| "hex_pad (Suc k) n = hex_pad k (n div 16) @ [hex_digit (n mod 16)]"

fun codec_error_text :: "codec_error \<Rightarrow> string" where
  "codec_error_text (BadMagic expected got) =
     ''bad magic: expected 0x'' @ hex_pad 2 (unat expected) @ '', got 0x'' @ hex_pad 2 (unat got)"
| "codec_error_text (BadVersion expected got) =
     ''unsupported protocol version: expected '' @ to_dec (unat expected) @ '', got '' @ to_dec (unat got)"
| "codec_error_text (FrameTooLarge len mx) =
     ''frame payload_len '' @ to_dec (unat len) @ '' exceeds MAX_FRAME_PAYLOAD '' @ to_dec (unat mx)"
| "codec_error_text (UnknownFlags bits) = ''unknown flag bits set: 0x'' @ hex_pad 4 (unat bits)"
| "codec_error_text UnsupportedFlag = ''frame sets a reserved flag (OOB_FD/COMPRESSED) unsupported in M0''"
| "codec_error_text (Truncated need avail) =
     ''buffer too short: need '' @ to_dec need @ '' bytes, have '' @ to_dec avail"
| "codec_error_text (Malformed m) = ''malformed messagepack payload: '' @ m"
| "codec_error_text (TrailingBytes n) = ''trailing bytes after payload: '' @ to_dec n @ '' extra''"

record header =
  hd_flags :: "16 word"
  hd_service :: "16 word"
  hd_method :: "16 word"
  hd_request_id :: "32 word"
  hd_payload_len :: "32 word"

definition header_encode :: "header \<Rightarrow> u8s" where
  "header_encode h =
     [MAGIC, PROTOCOL_VERSION] @ to_le_bytes 2 (hd_flags h) @ to_le_bytes 2 (hd_service h) @
     to_le_bytes 2 (hd_method h) @ to_le_bytes 4 (hd_request_id h) @ to_le_bytes 4 (hd_payload_len h)"

text \<open>\<open>buf[i..j]\<close>.\<close>

definition slice :: "nat \<Rightarrow> nat \<Rightarrow> 'a list \<Rightarrow> 'a list" where
  "slice i j xs = take (j - i) (drop i xs)"

definition header_decode :: "u8s \<Rightarrow> codec_error + header" where
  "header_decode buf =
     (if length buf < HEADER_LEN then Inl (Truncated HEADER_LEN (length buf))
      else if buf ! 0 \<noteq> MAGIC then Inl (BadMagic MAGIC (buf ! 0))
      else if buf ! 1 \<noteq> PROTOCOL_VERSION then Inl (BadVersion PROTOCOL_VERSION (buf ! 1))
      else
        (let payload_len = from_le_bytes (slice 12 16 buf) in
         if MAX_FRAME_PAYLOAD < payload_len then Inl (FrameTooLarge payload_len MAX_FRAME_PAYLOAD)
         else Inr \<lparr>hd_flags = from_le_bytes (slice 2 4 buf), hd_service = from_le_bytes (slice 4 6 buf),
                   hd_method = from_le_bytes (slice 6 8 buf), hd_request_id = from_le_bytes (slice 8 12 buf),
                   hd_payload_len = payload_len\<rparr>))"

subsection \<open>Flags\<close>

unbundle bit_operations_syntax

definition STREAM :: "16 word" where "STREAM = 1"
definition END :: "16 word" where "END = 2"
definition CANCEL :: "16 word" where "CANCEL = 4"
definition OOB_FD :: "16 word" where "OOB_FD = 8"
definition COMPRESSED :: "16 word" where "COMPRESSED = 16"

definition KNOWN :: "16 word" where
  "KNOWN = STREAM OR END OR CANCEL OR OOB_FD OR COMPRESSED"

definition RESERVED :: "16 word" where
  "RESERVED = OOB_FD OR COMPRESSED"

definition has_flag :: "16 word \<Rightarrow> 16 word \<Rightarrow> bool" where
  "has_flag bits m \<longleftrightarrow> bits AND m \<noteq> 0"

definition validate :: "16 word \<Rightarrow> codec_error + unit" where
  "validate bits =
     (if bits AND NOT KNOWN \<noteq> 0 then Inl (UnknownFlags (bits AND NOT KNOWN))
      else if bits AND RESERVED \<noteq> 0 then Inl UnsupportedFlag
      else Inr ())"

subsection \<open>The codec\<close>

record frame =
  fr_header :: header
  fr_payload :: u8s

text \<open>
  \<open>Decoder::decode\<close>: the frame at the front of the buffer, if it is whole, and the buffer after it. An
  error leaves the buffer as it was.
\<close>

definition frame_decode :: "u8s \<Rightarrow> (codec_error + frame option) \<times> u8s" where
  "frame_decode src =
     (if length src < HEADER_LEN then (Inr None, src)
      else
        (case header_decode (take HEADER_LEN src) of
           Inl e \<Rightarrow> (Inl e, src)
         | Inr h \<Rightarrow>
             (let need = HEADER_LEN + unat (hd_payload_len h) in
              if length src < need then (Inr None, src)
              else (Inr (Some \<lparr>fr_header = h, fr_payload = slice HEADER_LEN need src\<rparr>), drop need src))))"

definition frame_encode :: "frame \<Rightarrow> u8s \<Rightarrow> codec_error + u8s" where
  "frame_encode item dst =
     (if unat MAX_FRAME_PAYLOAD < length (fr_payload item)
      then Inl (FrameTooLarge (word_of_nat (length (fr_payload item))) MAX_FRAME_PAYLOAD)
      else Inr (dst @ header_encode (fr_header item) @ fr_payload item))"

text \<open>
  The reader: it decodes all the whole frames of its buffer and keeps the rest, and goes on when more
  bytes arrive; an error ends it.
\<close>

lemma header_decode_payload: "header_decode buf = Inr h \<Longrightarrow> hd_payload_len h \<le> MAX_FRAME_PAYLOAD"
  by (auto simp: header_decode_def Let_def split: if_splits)

function drain :: "u8s \<Rightarrow> frame list \<times> (codec_error + u8s)" where
  "drain src =
     (case frame_decode src of
        (Inl e, _) \<Rightarrow> ([], Inl e)
      | (Inr None, rest) \<Rightarrow> ([], Inr rest)
      | (Inr (Some f), rest) \<Rightarrow> (case drain rest of (fs, r) \<Rightarrow> (f # fs, r)))"
  by pat_completeness auto
termination
  by (relation "measure length")
    (auto simp: frame_decode_def HEADER_LEN_def Let_def split: if_splits sum.splits)

declare drain.simps [simp del]

fun read_chunks :: "u8s list \<Rightarrow> u8s \<Rightarrow> frame list \<times> (codec_error + u8s)" where
  "read_chunks [] buf = ([], Inr buf)"
| "read_chunks (c # cs) buf =
     (case drain (buf @ c) of
        (fs, Inl e) \<Rightarrow> (fs, Inl e)
      | (fs, Inr rest) \<Rightarrow> (case read_chunks cs rest of (gs, r) \<Rightarrow> (fs @ gs, r)))"

subsection \<open>Classification\<close>

datatype classification =
    ClFrame frame | ClPerRequestErr "32 word" error_payload | ClFatal error_payload | ClNeedMore | ClClosed

definition fatal_protocol :: "codec_error \<Rightarrow> classification" where
  "fatal_protocol e = ClFatal (payload EProtocol (Text (codec_error_text e)))"

definition classify_flags :: "frame \<Rightarrow> classification" where
  "classify_flags f =
     (case validate (hd_flags (fr_header f)) of
        Inr _ \<Rightarrow> ClFrame f
      | Inl UnsupportedFlag \<Rightarrow> ClFatal (payload EUnsupported (Text (codec_error_text UnsupportedFlag)))
      | Inl (UnknownFlags bits) \<Rightarrow>
          ClPerRequestErr (hd_request_id (fr_header f)) (payload EProtocol (Text (codec_error_text (UnknownFlags bits))))
      | Inl other \<Rightarrow> fatal_protocol other)"

text \<open>What the reader is given: a decode result, or an I/O error.\<close>

datatype frame_error = Codec codec_error | Io

definition classify_result :: "frame_error + frame option \<Rightarrow> classification" where
  "classify_result r =
     (case r of
        Inr None \<Rightarrow> ClNeedMore
      | Inr (Some f) \<Rightarrow> classify_flags f
      | Inl Io \<Rightarrow> ClClosed
      | Inl (Codec e) \<Rightarrow> fatal_protocol e)"

definition classify_next :: "u8s \<Rightarrow> classification \<times> u8s" where
  "classify_next buf =
     (case frame_decode buf of
        (Inr f, rest) \<Rightarrow> (classify_result (Inr f), rest)
      | (Inl e, rest) \<Rightarrow> (classify_result (Inl (Codec e)), rest))"

subsection \<open>Headers round trip\<close>

lemma length_header_encode [simp]: "length (header_encode h) = HEADER_LEN"
  by (simp add: header_encode_def HEADER_LEN_def)

lemma header_encode_slices:
  "header_encode h ! 0 = MAGIC" "header_encode h ! 1 = PROTOCOL_VERSION"
  "slice 2 4 (header_encode h) = to_le_bytes 2 (hd_flags h)"
  "slice 4 6 (header_encode h) = to_le_bytes 2 (hd_service h)"
  "slice 6 8 (header_encode h) = to_le_bytes 2 (hd_method h)"
  "slice 8 12 (header_encode h) = to_le_bytes 4 (hd_request_id h)"
  "slice 12 16 (header_encode h) = to_le_bytes 4 (hd_payload_len h)"
  by (simp_all add: header_encode_def slice_def)

lemma slices_cover:
  assumes "length buf = 16"
  shows "buf = [buf ! 0, buf ! 1] @ slice 2 4 buf @ slice 4 6 buf @ slice 6 8 buf @ slice 8 12 buf @ slice 12 16 buf"
proof -
  obtain b0 b1 b2 b3 b4 b5 b6 b7 b8 b9 b10 b11 b12 b13 b14 b15 where
    "buf = [b0, b1, b2, b3, b4, b5, b6, b7, b8, b9, b10, b11, b12, b13, b14, b15]"
    using assms by (auto simp: numeral_eq_Suc length_Suc_conv)
  then show ?thesis by (simp add: slice_def)
qed

lemma header_decode_encode:
  "hd_payload_len h \<le> MAX_FRAME_PAYLOAD \<Longrightarrow> header_decode (header_encode h) = Inr h"
  unfolding header_decode_def header_encode_slices Let_def by (simp add: from_to_le)

lemma header_decode_sound:
  assumes "header_decode buf = Inr h" "length buf = HEADER_LEN"
  shows "buf = header_encode h"
proof -
  have len: "length (slice i j buf) = j - i" if "i \<le> j" "j \<le> 16" for i j
    using that assms(2) by (simp add: slice_def HEADER_LEN_def)
  have h: "buf ! 0 = MAGIC" "buf ! 1 = PROTOCOL_VERSION"
    "h = \<lparr>hd_flags = from_le_bytes (slice 2 4 buf), hd_service = from_le_bytes (slice 4 6 buf),
          hd_method = from_le_bytes (slice 6 8 buf), hd_request_id = from_le_bytes (slice 8 12 buf),
          hd_payload_len = from_le_bytes (slice 12 16 buf)\<rparr>"
    using assms(1) by (auto simp: header_decode_def Let_def split: if_splits)
  have two: "to_le_bytes 2 (from_le_bytes (slice i j buf) :: 16 word) = slice i j buf" if "i \<le> j" "j \<le> 16" "j - i = 2" for i j
    using to_from_le [of "slice i j buf", where ?'a = 16] len [OF that(1,2)] that(3) by simp
  have four: "to_le_bytes 4 (from_le_bytes (slice i j buf) :: 32 word) = slice i j buf" if "i \<le> j" "j \<le> 16" "j - i = 4" for i j
    using to_from_le [of "slice i j buf", where ?'a = 32] len [OF that(1,2)] that(3) by simp
  show ?thesis using slices_cover [of buf] assms(2) h by (simp add: header_encode_def two four HEADER_LEN_def)
qed

lemma header_decode_take: "header_decode buf = Inr h \<longleftrightarrow> HEADER_LEN \<le> length buf \<and> header_decode (take HEADER_LEN buf) = Inr h"
proof (cases "HEADER_LEN \<le> length buf")
  case True
  then have "slice i j (take HEADER_LEN buf) = slice i j buf" if "j \<le> 16" for i j
    using that by (simp add: slice_def drop_take HEADER_LEN_def)
  moreover have "take HEADER_LEN buf ! 0 = buf ! 0" "take HEADER_LEN buf ! 1 = buf ! 1" by (simp_all add: HEADER_LEN_def)
  ultimately show ?thesis using True unfolding header_decode_def Let_def by (simp add: min_def)
next
  case False
  then show ?thesis by (simp add: header_decode_def)
qed

text \<open>
  A header decodes exactly when the buffer starts with the encoding of a header whose declared
  length is within \<open>MAX_FRAME_PAYLOAD\<close>, and then to that header: the encoding is a bijection on legal
  headers, and no length above the bound is ever accepted.
\<close>

theorem header_decode_exact:
  "header_decode buf = Inr h \<longleftrightarrow>
     take HEADER_LEN buf = header_encode h \<and> hd_payload_len h \<le> MAX_FRAME_PAYLOAD"
proof
  assume d: "header_decode buf = Inr h"
  then have "HEADER_LEN \<le> length buf" "header_decode (take HEADER_LEN buf) = Inr h" using header_decode_take by blast+
  then show "take HEADER_LEN buf = header_encode h \<and> hd_payload_len h \<le> MAX_FRAME_PAYLOAD"
    using header_decode_sound [of "take HEADER_LEN buf" h] header_decode_payload [OF d] by simp
next
  assume e: "take HEADER_LEN buf = header_encode h \<and> hd_payload_len h \<le> MAX_FRAME_PAYLOAD"
  then have "length (take HEADER_LEN buf) = HEADER_LEN" by simp
  then have "HEADER_LEN \<le> length buf" by simp
  then show "header_decode buf = Inr h" using e header_decode_encode header_decode_take by metis
qed

subsection \<open>Streams\<close>

lemma frame_decode_append:
  "frame_decode a = (Inl e, r) \<Longrightarrow> frame_decode (a @ b) = (Inl e, a @ b)"
  "frame_decode a = (Inr (Some f), r) \<Longrightarrow> frame_decode (a @ b) = (Inr (Some f), r @ b)"
  by (auto simp: frame_decode_def Let_def slice_def split: if_splits sum.splits)

lemma frame_decode_None: "frame_decode a = (Inr None, r) \<Longrightarrow> r = a"
  by (auto simp: frame_decode_def Let_def split: if_splits sum.splits)

lemma drain_append:
  "drain (a @ b) =
     (case drain a of
        (fs, Inl e) \<Rightarrow> (fs, Inl e)
      | (fs, Inr rest) \<Rightarrow> (case drain (rest @ b) of (gs, r) \<Rightarrow> (fs @ gs, r)))"
proof (induction a rule: drain.induct)
  case (1 src)
  obtain d r where d: "frame_decode src = (d, r)" by fastforce
  show ?case
  proof (cases d)
    case (Inl e)
    then show ?thesis using d frame_decode_append(1) [of src e r b] by (simp add: drain.simps [of src] drain.simps [of "src @ b"])
  next
    case (Inr fo)
    show ?thesis
    proof (cases fo)
      case None
      then have "drain src = ([], Inr src)" using d Inr frame_decode_None [of src r] by (simp add: drain.simps [of src])
      then show ?thesis by (simp add: case_prod_beta)
    next
      case (Some f)
      obtain gs x where g: "drain r = (gs, x)" by fastforce
      have "drain (src @ b) = (case drain (r @ b) of (fs, y) \<Rightarrow> (f # fs, y))"
        using frame_decode_append(2) [of src f r b] d Inr Some by (simp add: drain.simps [of "src @ b"])
      moreover have "drain src = (f # gs, x)" using d Inr Some g by (simp add: drain.simps [of src])
      ultimately show ?thesis using 1 [OF d [symmetric] Inr Some] g by (cases x) (simp_all add: case_prod_beta)
    qed
  qed
qed

lemma drain_rest: "drain a = (fs, Inr rest) \<Longrightarrow> drain rest = ([], Inr rest)"
proof (induction a arbitrary: fs rule: drain.induct)
  case (1 src)
  obtain d r where d: "frame_decode src = (d, r)" by fastforce
  show ?case
  proof (cases d)
    case (Inl e)
    then show ?thesis using 1(2) d by (simp add: drain.simps [of src])
  next
    case (Inr fo)
    then show ?thesis using 1 d frame_decode_None [of src r]
      by (cases fo) (auto simp: drain.simps [of src] split: prod.splits)
  qed
qed

lemma read_chunks_drain: "drain buf = ([], Inr buf) \<Longrightarrow> read_chunks cs buf = drain (buf @ concat cs)"
proof (induction cs arbitrary: buf)
  case (Cons c cs)
  obtain fs r where d: "drain (buf @ c) = (fs, r)" by fastforce
  show ?case
  proof (cases r)
    case (Inl e)
    then show ?thesis using drain_append [of "buf @ c" "concat cs"] d by simp
  next
    case (Inr rest)
    then show ?thesis using drain_append [of "buf @ c" "concat cs"] d Cons.IH [OF drain_rest [of "buf @ c" fs rest]]
      by simp
  qed
qed simp

text \<open>
  C9: how a byte stream is cut into reads does not matter. For any bytes, legal or not, and any
  division of them into chunks, the reader decodes the same frames, keeps the same rest and ends with
  the same error as if they had arrived at once.
\<close>

theorem fragmentation_is_irrelevant: "read_chunks cs [] = drain (concat cs)"
proof -
  have "drain [] = ([], Inr [])" by (simp add: drain.simps [of "[]"] frame_decode_def HEADER_LEN_def)
  from read_chunks_drain [OF this, of cs] show ?thesis by simp
qed

definition frame_bytes :: "frame \<Rightarrow> u8s" where
  "frame_bytes f = header_encode (fr_header f) @ fr_payload f"

definition legal_frame :: "frame \<Rightarrow> bool" where
  "legal_frame f \<longleftrightarrow> length (fr_payload f) = unat (hd_payload_len (fr_header f)) \<and>
     hd_payload_len (fr_header f) \<le> MAX_FRAME_PAYLOAD"

lemma frame_decode_bytes: "legal_frame f \<Longrightarrow> frame_decode (frame_bytes f @ rest) = (Inr (Some f), rest)"
  by (simp add: frame_decode_def frame_bytes_def legal_frame_def header_decode_encode Let_def slice_def)

lemma drain_bytes: "list_all legal_frame fs \<Longrightarrow> drain (concat (map frame_bytes fs)) = (fs, Inr [])"
proof (induction fs)
  case Nil
  then show ?case by (simp add: drain.simps [of "[]"] frame_decode_def HEADER_LEN_def)
next
  case (Cons f fs)
  then show ?case using frame_decode_bytes [of f "concat (map frame_bytes fs)"]
    by (simp add: drain.simps [of "frame_bytes f @ concat (map frame_bytes fs)"])
qed

fun encode_all :: "frame list \<Rightarrow> u8s \<Rightarrow> codec_error + u8s" where
  "encode_all [] dst = Inr dst"
| "encode_all (f # fs) dst = (case frame_encode f dst of Inl e \<Rightarrow> Inl e | Inr dst' \<Rightarrow> encode_all fs dst')"

lemma encode_all_bytes: "list_all legal_frame fs \<Longrightarrow> encode_all fs dst = Inr (dst @ concat (map frame_bytes fs))"
  by (induction fs arbitrary: dst)
    (auto simp: frame_encode_def legal_frame_def frame_bytes_def word_le_nat_alt)

text \<open>
  C31: frames survive the wire. Legal frames that one side encodes back to back are what the other
  side decodes, in order and with nothing left over, however the bytes are cut on the way.
\<close>

theorem frames_round_trip:
  assumes "list_all legal_frame fs" "encode_all fs [] = Inr (concat chunks)"
  shows "read_chunks chunks [] = (fs, Inr [])"
proof -
  have "concat chunks = concat (map frame_bytes fs)" using assms encode_all_bytes [of fs "[]"] by simp
  then show ?thesis using read_chunks_drain [of "[]" chunks] drain_bytes [OF assms(1)] drain_bytes [of "[]"] by simp
qed

theorem frames_round_trip_witness:
  "\<exists>chunks. length chunks = 2 \<and>
     read_chunks chunks [] =
       ([\<lparr>fr_header = \<lparr>hd_flags = 2, hd_service = 2, hd_method = 1, hd_request_id = 7, hd_payload_len = 1\<rparr>,
          fr_payload = [192]\<rparr>], Inr [])"
proof -
  let ?f = "\<lparr>fr_header = \<lparr>hd_flags = 2, hd_service = 2, hd_method = 1, hd_request_id = 7, hd_payload_len = 1\<rparr>,
          fr_payload = [192]\<rparr>"
  let ?chunks = "[take 3 (frame_bytes ?f), drop 3 (frame_bytes ?f)]"
  have "legal_frame ?f" by (simp add: legal_frame_def MAX_FRAME_PAYLOAD_def)
  then have "read_chunks ?chunks [] = ([?f], Inr [])"
    by (intro frames_round_trip) (simp_all add: encode_all_bytes del: encode_all.simps)
  then show ?thesis by (intro exI [of _ ?chunks]) simp
qed

text \<open>
  What the reader does with a whole frame. A frame with a flag bit the protocol does not know is
  answered on its own request and skipped, otherwise one with a reserved bit ends the session, and
  any other is dispatched; the buffer is advanced past exactly that frame.
\<close>

theorem classify_whole_frame:
  assumes "legal_frame f"
  shows "classify_next (frame_bytes f @ rest) =
    (if has_flag (hd_flags (fr_header f)) (NOT KNOWN) then
       ClPerRequestErr (hd_request_id (fr_header f))
         (payload EProtocol (Text (codec_error_text (UnknownFlags (hd_flags (fr_header f) AND NOT KNOWN)))))
     else if has_flag (hd_flags (fr_header f)) RESERVED then
       ClFatal (payload EUnsupported (Text (codec_error_text UnsupportedFlag)))
     else ClFrame f, rest)"
  using frame_decode_bytes [OF assms, of rest]
  by (simp add: classify_next_def classify_result_def classify_flags_def validate_def has_flag_def)

theorem classify_whole_frame_witness:
  "classify_next (frame_bytes \<lparr>fr_header = \<lparr>hd_flags = 8, hd_service = 2, hd_method = 1, hd_request_id = 7,
       hd_payload_len = 0\<rparr>, fr_payload = []\<rparr> @ [1, 2]) =
     (ClFatal (payload EUnsupported (Text (codec_error_text UnsupportedFlag))), [1, 2])"
  by (subst classify_whole_frame)
    (simp_all add: legal_frame_def MAX_FRAME_PAYLOAD_def has_flag_def KNOWN_def RESERVED_def STREAM_def END_def
      CANCEL_def OOB_FD_def COMPRESSED_def)

text \<open>
  A frame that sets a reserved bit together with an unknown one does not end the session: the
  unknown bit is found first, and the frame is answered on its own request and skipped.
\<close>

theorem reserved_bit_masked_by_unknown:
  "classify_next (frame_bytes \<lparr>fr_header = \<lparr>hd_flags = 40, hd_service = 2, hd_method = 1, hd_request_id = 7,
       hd_payload_len = 0\<rparr>, fr_payload = []\<rparr> @ rest) =
     (ClPerRequestErr 7 (payload EProtocol (Text (codec_error_text (UnknownFlags 32)))), rest) \<and>
   has_flag 40 OOB_FD"
proof -
  let ?f = "\<lparr>fr_header = \<lparr>hd_flags = 40, hd_service = 2, hd_method = 1, hd_request_id = 7, hd_payload_len = 0\<rparr>, fr_payload = []\<rparr>"
  have "legal_frame ?f" by (simp add: legal_frame_def MAX_FRAME_PAYLOAD_def)
  from frame_decode_bytes [OF this, of rest] show ?thesis
    by (simp add: classify_next_def classify_result_def classify_flags_def validate_def has_flag_def KNOWN_def
        STREAM_def END_def CANCEL_def OOB_FD_def COMPRESSED_def)
qed

end
