(* ===== verification/Session.thy ===== *)
theory Session
  imports Frame Flow
begin

text \<open>
  One connection's session (\<open>ferrod/src/session/mod.rs\<close>, \<open>registry.rs\<close>, \<open>supervisor.rs\<close>, \<open>responder.rs\<close>,
  \<open>writer.rs\<close>, \<open>dispatch.rs\<close>, \<open>admin.rs\<close>): the reader loop, the registry of requests in flight, the tasks
  that handle them and the supervisors that end them, and the one ordered channel to the writer. The
  MessagePack decoders of the core messages are parameters; the bodies of outgoing messages are kept
  as values.
\<close>

subsection \<open>Routing\<close>

datatype core_method = Ping | Goodbye | WindowUpdateMethod

datatype admin_verb = Backup

datatype verb_class = ReadClass | OperateClass

datatype route = CoreControl core_method | RequestRoute | AdminRoute admin_verb | CopyDataRoute bool | UnsupportedRoute

definition admin_verb_from_method :: "16 word \<Rightarrow> admin_verb option" where
  "admin_verb_from_method m = (if m = 1 then Some Backup else None)"

fun verb_class_of :: "admin_verb \<Rightarrow> verb_class" where
  "verb_class_of Backup = OperateClass"

text \<open>Services: CORE 1, SQL 2, TX 3, STREAM 4, ADMIN 5, HTTP 6, QUEUE 7.\<close>

definition route_of :: "16 word \<Rightarrow> 16 word \<Rightarrow> route" where
  "route_of service m =
     (if service = 1 then
        (if m = 3 then CoreControl Ping
         else if m = 5 then CoreControl Goodbye
         else if m = 6 then CoreControl WindowUpdateMethod
         else UnsupportedRoute)
      else if service = 4 \<and> m = 3 then CopyDataRoute False
      else if service = 4 \<and> m = 4 then CopyDataRoute True
      else if service = 2 \<or> service = 3 \<or> service = 4 then RequestRoute
      else if service = 5 then
        (case admin_verb_from_method m of Some v \<Rightarrow> AdminRoute v | None \<Rightarrow> UnsupportedRoute)
      else if service = 6 then (if m = 1 then RequestRoute else UnsupportedRoute)
      else if service = 7 then (if List.member [1, 2, 3, 4, 5, 6, 7] m then RequestRoute else UnsupportedRoute)
      else UnsupportedRoute)"

datatype admin_refusal = Unattested | OperateDisabled | NotAdmin

definition decide :: "32 word option \<Rightarrow> 32 word list \<Rightarrow> verb_class \<Rightarrow> admin_refusal + unit" where
  "decide peer_uid admin_uids c =
     (case peer_uid of
        None \<Rightarrow> Inl Unattested
      | Some uid \<Rightarrow>
          (case c of
             ReadClass \<Rightarrow> Inr ()
           | OperateClass \<Rightarrow>
               if admin_uids = [] then Inl OperateDisabled
               else if List.member admin_uids uid then Inr ()
               else Inl NotAdmin))"

fun verb_name :: "admin_verb \<Rightarrow> string" where
  "verb_name Backup = ''BACKUP''"

definition refusal_payload :: "admin_refusal \<Rightarrow> string \<Rightarrow> error_payload" where
  "refusal_payload r name =
     payload EForbidden (Text
       (case r of
          Unattested \<Rightarrow>
            ''admin verb '' @ name @ '' refused: this connection has no kernel-attested peer uid (SPEC D15 serves admin verbs only where SO_PEERCRED can attest one)''
        | _ \<Rightarrow>
            ''admin verb '' @ name @ '' is an OPERATE verb and this peer is not authorized for OPERATE verbs (SPEC D15: the peer's uid must be in FERRO_ADMIN_UIDS)''))"

definition authorize :: "32 word option \<Rightarrow> 32 word list \<Rightarrow> admin_verb \<Rightarrow> error_payload + unit" where
  "authorize peer_uid admin_uids verb =
     (case decide peer_uid admin_uids (verb_class_of verb) of
        Inr _ \<Rightarrow> Inr ()
      | Inl r \<Rightarrow> Inl (refusal_payload r (verb_name verb)))"

subsection \<open>Requests in flight\<close>

datatype inbound = InData u8s | InDone

record inbound_cell =
  ib_credit :: credit
  ib_queue :: "inbound list"
  ib_capacity :: nat
  ib_closed :: bool

record in_flight =
  if_cancelled :: bool
  if_credit :: credit
  if_inbound :: "inbound_cell option"

type_synonym inflight_map = "(32 word \<times> in_flight) list"

record registry =
  rg_inner :: inflight_map
  rg_max_inflight :: nat

datatype insert_err = Reused | Full

datatype delivery = Delivered | Discarded | Violation string

definition registry_new :: "nat \<Rightarrow> registry" where
  "registry_new n = \<lparr>rg_inner = [], rg_max_inflight = n\<rparr>"

definition registry_insert :: "32 word \<Rightarrow> credit \<Rightarrow> registry \<Rightarrow> insert_err + registry" where
  "registry_insert i c r =
     (if map_of (rg_inner r) i \<noteq> None then Inl Reused
      else if rg_max_inflight r \<le> length (rg_inner r) then Inl Full
      else Inr (r\<lparr>rg_inner := rg_inner r @ [(i, \<lparr>if_cancelled = False, if_credit = c, if_inbound = None\<rparr>)]\<rparr>))"

definition registry_remove :: "32 word \<Rightarrow> registry \<Rightarrow> registry" where
  "registry_remove i r = r\<lparr>rg_inner := filter (\<lambda>(k, _). k \<noteq> i) (rg_inner r)\<rparr>"

text \<open>Change the entry of an id, if it has one.\<close>

definition registry_update :: "(in_flight \<Rightarrow> in_flight) \<Rightarrow> 32 word \<Rightarrow> registry \<Rightarrow> registry" where
  "registry_update f i r = r\<lparr>rg_inner := map (\<lambda>(k, v). (k, if k = i then f v else v)) (rg_inner r)\<rparr>"

definition registry_cancel :: "32 word \<Rightarrow> registry \<Rightarrow> registry" where
  "registry_cancel = registry_update (\<lambda>v. v\<lparr>if_cancelled := True\<rparr>)"

definition registry_cancel_all :: "registry \<Rightarrow> registry" where
  "registry_cancel_all r = r\<lparr>rg_inner := map (\<lambda>(k, v). (k, v\<lparr>if_cancelled := True\<rparr>)) (rg_inner r)\<rparr>"

definition registry_replenish :: "32 word \<Rightarrow> 32 word \<Rightarrow> 32 word \<Rightarrow> registry \<Rightarrow> registry" where
  "registry_replenish i f b = registry_update (\<lambda>v. v\<lparr>if_credit := replenish f b (if_credit v)\<rparr>) i"

definition open_inbound_with_capacity :: "32 word \<Rightarrow> credit \<Rightarrow> 32 word \<Rightarrow> registry \<Rightarrow> registry option" where
  "open_inbound_with_capacity i c fs r =
     (case map_of (rg_inner r) i of
        None \<Rightarrow> None
      | Some _ \<Rightarrow>
          Some (registry_update
            (\<lambda>v. v\<lparr>if_inbound := Some \<lparr>ib_credit = c, ib_queue = [], ib_capacity = unat fs + 1, ib_closed = False\<rparr>\<rparr>)
            i r))"

text \<open>\<open>u32::try_from(len).unwrap_or(u32::MAX)\<close>.\<close>

definition u32_of :: "nat \<Rightarrow> 32 word" where
  "u32_of n = (if n < 2 ^ 32 then word_of_nat n else - 1)"

text \<open>One client COPY frame into a cell: the outcome, and the cell afterwards.\<close>

definition deliver_cell :: "inbound \<Rightarrow> inbound_cell \<Rightarrow> delivery \<times> inbound_cell" where
  "deliver_cell item cell =
     (if ib_closed cell then (Discarded, cell)
      else
        (case (case item of InData b \<Rightarrow> try_debit (u32_of (length b)) (ib_credit cell) | InDone \<Rightarrow> (True, ib_credit cell)) of
           (False, _) \<Rightarrow> (Violation ''COPY data beyond the engine's grant'', cell)
         | (True, c) \<Rightarrow>
             if length (ib_queue cell) < ib_capacity cell
             then (Delivered, cell\<lparr>ib_credit := c, ib_queue := ib_queue cell @ [item]\<rparr>)
             else (Violation ''COPY frames beyond the engine's grant'', cell\<lparr>ib_credit := c\<rparr>)))"

definition registry_deliver :: "32 word \<Rightarrow> inbound \<Rightarrow> registry \<Rightarrow> delivery \<times> registry" where
  "registry_deliver i item r =
     (case map_of (rg_inner r) i of
        None \<Rightarrow> (Discarded, r)
      | Some entry \<Rightarrow>
          (case if_inbound entry of
             None \<Rightarrow> (Violation ''COPY data for a request that is not an open COPY_IN'', r)
           | Some cell \<Rightarrow>
               (case deliver_cell item cell of
                  (d, cell') \<Rightarrow> (d, registry_update (\<lambda>v. v\<lparr>if_inbound := Some cell'\<rparr>) i r))))"

subsection \<open>Outgoing messages\<close>

datatype terminal = TOk u8s | TError error_payload | TCancelled

datatype out_body = OutcomeBody terminal | PongBody "64 word" | StreamBody u8s

record out_frame =
  of_flags :: "16 word"
  of_service :: "16 word"
  of_method :: "16 word"
  of_request_id :: "32 word"
  of_body :: out_body

definition build_terminal_frame :: "16 word \<Rightarrow> 16 word \<Rightarrow> 32 word \<Rightarrow> terminal \<Rightarrow> out_frame" where
  "build_terminal_frame service m i t =
     \<lparr>of_flags = END, of_service = service, of_method = m, of_request_id = i, of_body = OutcomeBody t\<rparr>"

definition pong_frame :: "32 word \<Rightarrow> 64 word \<Rightarrow> out_frame" where
  "pong_frame i token = \<lparr>of_flags = 0, of_service = 1, of_method = 4, of_request_id = i, of_body = PongBody token\<rparr>"

text \<open>\<open>SessionError::into_out_frame\<close>: service CORE, method 0.\<close>

definition session_error_frame :: "32 word \<Rightarrow> error_payload \<Rightarrow> out_frame" where
  "session_error_frame i ep = build_terminal_frame 1 0 i (TError ep)"

definition diagnostic_error_frame :: "frame \<Rightarrow> string \<Rightarrow> out_frame" where
  "diagnostic_error_frame f msg =
     build_terminal_frame (hd_service (fr_header f)) (hd_method (fr_header f)) (hd_request_id (fr_header f))
       (TError (payload EProtocol (Text msg)))"

definition no_terminal_declared :: terminal where
  "no_terminal_declared =
     TError ((payload EProtocol (Text ''handler produced no terminal''))\<lparr>ep_detail := Some ''supervisor-synth''\<rparr>)"

subsection \<open>The connection\<close>

text \<open>A handler's task: what it declared, whether it still holds its responder, whether it has ended.\<close>

datatype task_state = TaskRunning | TaskReturned | TaskPanicked

record task =
  tk_id :: "32 word"
  tk_service :: "16 word"
  tk_method :: "16 word"
  tk_cell :: "terminal option"
  tk_responder :: bool
  tk_state :: task_state

text \<open>
  What went into the channel, with why, and the acceptances in between, in order: the history of a
  connection. It is not part of the program's state; nothing below reads it.
\<close>

datatype event = Accept "32 word" | Stream "32 word" out_frame | Terminal "32 word" out_frame | Other out_frame

record conn =
  cn_registry :: registry
  cn_capacity :: nat
  cn_queue :: "out_frame list"
  cn_wire :: "out_frame list"
  cn_writer_gone :: bool
  cn_reading :: bool
  cn_tasks :: "task list"
  cn_orphans :: "task list"
  cn_history :: "event list"

record session_env =
  decode_ping :: "u8s \<Rightarrow> 64 word option"
  decode_window_update :: "u8s \<Rightarrow> (32 word \<times> 32 word) option"
  decode_copy_done :: "u8s \<Rightarrow> bool"
  decode_copy_data :: "u8s \<Rightarrow> u8s option"
  sv_peer_uid :: "32 word option"
  sv_admin_uids :: "32 word list"
  sv_credit :: credit

definition conn_new :: "nat \<Rightarrow> conn" where
  "conn_new max_inflight =
     \<lparr>cn_registry = registry_new max_inflight, cn_capacity = max_inflight + 8, cn_queue = [], cn_wire = [],
      cn_writer_gone = False, cn_reading = True, cn_tasks = [], cn_orphans = [], cn_history = []\<rparr>"

text \<open>Room for a send that holds no permit: each running supervisor has one reserved.\<close>

definition channel_ready :: "conn \<Rightarrow> bool" where
  "channel_ready s \<longleftrightarrow> cn_writer_gone s \<or> length (cn_queue s) + length (cn_tasks s) < cn_capacity s"

definition enqueue :: "out_frame \<Rightarrow> event \<Rightarrow> conn \<Rightarrow> conn" where
  "enqueue f e s =
     (if cn_writer_gone s then s
      else s\<lparr>cn_queue := cn_queue s @ [f], cn_history := cn_history s @ [e]\<rparr>)"

text \<open>A send of the reader loop: when the writer is gone, the loop ends.\<close>

definition reader_send :: "out_frame \<Rightarrow> conn \<Rightarrow> conn" where
  "reader_send f s = (if cn_writer_gone s then s\<lparr>cn_reading := False\<rparr> else enqueue f (Other f) s)"

definition handle_request_frame :: "session_env \<Rightarrow> frame \<Rightarrow> conn \<Rightarrow> conn" where
  "handle_request_frame env f s =
     (let i = hd_request_id (fr_header f) in
      if i = 0 then reader_send (diagnostic_error_frame f ''request_id 0 is reserved for session context'') s
      else
        (case registry_insert i (sv_credit env) (cn_registry s) of
           Inl Reused \<Rightarrow> reader_send (diagnostic_error_frame f ''reused in-flight request id'') s
         | Inl Full \<Rightarrow> reader_send (diagnostic_error_frame f ''max_inflight exceeded'') s
         | Inr r \<Rightarrow>
             if cn_writer_gone s then s\<lparr>cn_registry := registry_remove i r, cn_reading := False\<rparr>
             else s\<lparr>cn_registry := r,
                    cn_tasks := cn_tasks s @
                      [\<lparr>tk_id = i, tk_service = hd_service (fr_header f), tk_method = hd_method (fr_header f),
                        tk_cell = None, tk_responder = True, tk_state = TaskRunning\<rparr>],
                    cn_history := cn_history s @ [Accept i]\<rparr>))"

definition fatal :: "error_payload \<Rightarrow> conn \<Rightarrow> conn" where
  "fatal ep s = (reader_send (session_error_frame 0 ep) s)\<lparr>cn_reading := False\<rparr>"

definition unsupported_error_payload :: error_payload where
  "unsupported_error_payload = payload EUnsupported (Text ''service/method not yet implemented'')"

definition handle_copy_data :: "session_env \<Rightarrow> bool \<Rightarrow> frame \<Rightarrow> conn \<Rightarrow> conn" where
  "handle_copy_data env is_done f s =
     (let item =
            (if is_done then (if decode_copy_done env (fr_payload f) then Some InDone else None)
             else map_option InData (decode_copy_data env (fr_payload f))) in
      case item of
        None \<Rightarrow> fatal (payload EProtocol (Text (if is_done then ''malformed CopyDone'' else ''malformed CopyData''))) s
      | Some it \<Rightarrow>
          (case registry_deliver (hd_request_id (fr_header f)) it (cn_registry s) of
             (Violation why, r) \<Rightarrow> fatal (payload EProtocol (Text why)) (s\<lparr>cn_registry := r\<rparr>)
           | (_, r) \<Rightarrow> s\<lparr>cn_registry := r\<rparr>))"

text \<open>What the reader does with a dispatchable frame: CANCEL first, then by route.\<close>

definition handle_frame :: "session_env \<Rightarrow> frame \<Rightarrow> conn \<Rightarrow> conn" where
  "handle_frame env f s =
     (let i = hd_request_id (fr_header f) in
      if has_flag (hd_flags (fr_header f)) CANCEL then s\<lparr>cn_registry := registry_cancel i (cn_registry s)\<rparr>
      else
        (case route_of (hd_service (fr_header f)) (hd_method (fr_header f)) of
           CoreControl Ping \<Rightarrow>
             (case decode_ping env (fr_payload f) of Some token \<Rightarrow> reader_send (pong_frame i token) s | None \<Rightarrow> s)
         | CoreControl Goodbye \<Rightarrow> s\<lparr>cn_reading := False\<rparr>
         | CoreControl WindowUpdateMethod \<Rightarrow>
             (case decode_window_update env (fr_payload f) of
                Some (fs, bs) \<Rightarrow> s\<lparr>cn_registry := registry_replenish i fs bs (cn_registry s)\<rparr>
              | None \<Rightarrow> s)
         | CopyDataRoute d \<Rightarrow> handle_copy_data env d f s
         | RequestRoute \<Rightarrow> handle_request_frame env f s
         | AdminRoute verb \<Rightarrow>
             (case authorize (sv_peer_uid env) (sv_admin_uids env) verb of
                Inr _ \<Rightarrow> handle_request_frame env f s
              | Inl ep \<Rightarrow> reader_send (session_error_frame i ep) s)
         | UnsupportedRoute \<Rightarrow> reader_send (session_error_frame i unsupported_error_payload) s))"

definition read_classified :: "session_env \<Rightarrow> classification \<Rightarrow> conn \<Rightarrow> conn" where
  "read_classified env c s =
     (case c of
        ClNeedMore \<Rightarrow> s
      | ClClosed \<Rightarrow> s\<lparr>cn_reading := False\<rparr>
      | ClFatal ep \<Rightarrow> fatal ep s
      | ClPerRequestErr i ep \<Rightarrow> reader_send (session_error_frame i ep) s
      | ClFrame f \<Rightarrow> handle_frame env f s)"

text \<open>\<open>supervise\<close>, once the handler's task has ended: one terminal on the reserved permit, then the id is free.\<close>

definition terminal_of :: "task \<Rightarrow> terminal" where
  "terminal_of t =
     (if tk_state t = TaskPanicked then no_terminal_declared
      else case tk_cell t of Some x \<Rightarrow> x | None \<Rightarrow> no_terminal_declared)"

definition supervise :: "nat \<Rightarrow> conn \<Rightarrow> conn" where
  "supervise n s =
     (let t = cn_tasks s ! n;
          f = build_terminal_frame (tk_service t) (tk_method t) (tk_id t) (terminal_of t);
          s1 = enqueue f (Terminal (tk_id t) f) (s\<lparr>cn_tasks := take n (cn_tasks s) @ drop (Suc n) (cn_tasks s)\<rparr>)
      in s1\<lparr>cn_registry := registry_remove (tk_id t) (cn_registry s1)\<rparr>)"

text \<open>
  One step of one of the connection's tasks. The reader and a handler wait for room in the channel; a
  supervisor does not, it holds a permit. A handler sends frames of its request while it holds its
  responder, and declares at most one terminal, which consumes the responder. When the reader has
  stopped, supervisors still running past the drain deadline are aborted; their handlers go on.
\<close>

inductive conn_step :: "session_env \<Rightarrow> conn \<Rightarrow> conn \<Rightarrow> bool" for env :: session_env where
  read: "cn_reading s \<Longrightarrow> channel_ready s \<Longrightarrow> conn_step env s (read_classified env c s)"
| send_stream: "n < length (cn_tasks s) \<Longrightarrow> tk_state (cn_tasks s ! n) = TaskRunning \<Longrightarrow>
    tk_responder (cn_tasks s ! n) \<Longrightarrow> channel_ready s \<Longrightarrow> of_request_id f = tk_id (cn_tasks s ! n) \<Longrightarrow>
    \<not> has_flag (of_flags f) END \<Longrightarrow> conn_step env s (enqueue f (Stream (tk_id (cn_tasks s ! n)) f) s)"
| orphan_send: "n < length (cn_orphans s) \<Longrightarrow> tk_responder (cn_orphans s ! n) \<Longrightarrow> channel_ready s \<Longrightarrow>
    of_request_id f = tk_id (cn_orphans s ! n) \<Longrightarrow> \<not> has_flag (of_flags f) END \<Longrightarrow>
    conn_step env s (enqueue f (Stream (tk_id (cn_orphans s ! n)) f) s)"
| declare_terminal: "n < length (cn_tasks s) \<Longrightarrow> tk_state (cn_tasks s ! n) = TaskRunning \<Longrightarrow>
    tk_responder (cn_tasks s ! n) \<Longrightarrow>
    conn_step env s
      (s\<lparr>cn_tasks := (cn_tasks s)[n := (cn_tasks s ! n)\<lparr>tk_cell := Some t, tk_responder := False\<rparr>]\<rparr>)"
| handler_ends: "n < length (cn_tasks s) \<Longrightarrow> tk_state (cn_tasks s ! n) = TaskRunning \<Longrightarrow> st \<noteq> TaskRunning \<Longrightarrow>
    conn_step env s
      (s\<lparr>cn_tasks := (cn_tasks s)[n := (cn_tasks s ! n)\<lparr>tk_responder := False, tk_state := st\<rparr>]\<rparr>)"
| supervisor: "n < length (cn_tasks s) \<Longrightarrow> tk_state (cn_tasks s ! n) \<noteq> TaskRunning \<Longrightarrow> conn_step env s (supervise n s)"
| open_inbound: "open_inbound_with_capacity i c fs (cn_registry s) = Some r \<Longrightarrow> conn_step env s (s\<lparr>cn_registry := r\<rparr>)"
| inbound_cell: "conn_step env s (s\<lparr>cn_registry := registry_update (\<lambda>v. v\<lparr>if_inbound := map_option g (if_inbound v)\<rparr>) i (cn_registry s)\<rparr>)"
| debit: "conn_step env s (s\<lparr>cn_registry := registry_update (\<lambda>v. v\<lparr>if_credit := c\<rparr>) i (cn_registry s)\<rparr>)"
| writer_writes: "\<not> cn_writer_gone s \<Longrightarrow> cn_queue s = f # q \<Longrightarrow>
    conn_step env s (s\<lparr>cn_queue := q, cn_wire := cn_wire s @ [f]\<rparr>)"
| writer_fails: "conn_step env s (s\<lparr>cn_writer_gone := True, cn_queue := []\<rparr>)"
| cancel_all: "\<not> cn_reading s \<Longrightarrow> conn_step env s (s\<lparr>cn_registry := registry_cancel_all (cn_registry s)\<rparr>)"
| abort_all: "\<not> cn_reading s \<Longrightarrow> conn_step env s (s\<lparr>cn_tasks := [], cn_orphans := cn_orphans s @ cn_tasks s\<rparr>)"

inductive conn_reachable :: "session_env \<Rightarrow> nat \<Rightarrow> conn \<Rightarrow> bool" for env :: session_env and max_inflight :: nat where
  new: "conn_reachable env max_inflight (conn_new max_inflight)"
| step: "conn_reachable env max_inflight s \<Longrightarrow> conn_step env s s' \<Longrightarrow> conn_reachable env max_inflight s'"

subsection \<open>The protocol of a request\<close>

text \<open>
  What a client may rely on: an id is accepted, then come the frames of its stream, then its one
  terminal; only then can it be accepted again. The ids open after a history, if it keeps to that.
\<close>

fun protocol :: "32 word list \<Rightarrow> event list \<Rightarrow> 32 word list option" where
  "protocol ids [] = Some ids"
| "protocol ids (Accept i # es) = (if List.member ids i then None else protocol (i # ids) es)"
| "protocol ids (Stream i _ # es) = (if List.member ids i then protocol ids es else None)"
| "protocol ids (Terminal i _ # es) = (if List.member ids i then protocol (remove1 i ids) es else None)"
| "protocol ids (Other _ # es) = protocol ids es"

fun frame_of :: "event \<Rightarrow> out_frame list" where
  "frame_of (Accept _) = []"
| "frame_of (Stream _ f) = [f]"
| "frame_of (Terminal _ f) = [f]"
| "frame_of (Other f) = [f]"

subsection \<open>Invariants of a connection\<close>

abbreviation open_ids :: "conn \<Rightarrow> 32 word list" where
  "open_ids s \<equiv> map tk_id (cn_tasks s @ cn_orphans s)"

abbreviation inflight_ids :: "conn \<Rightarrow> 32 word list" where
  "inflight_ids s \<equiv> map fst (rg_inner (cn_registry s))"

definition ids_ok :: "nat \<Rightarrow> conn \<Rightarrow> bool" where
  "ids_ok mx s \<longleftrightarrow> distinct (open_ids s) \<and> distinct (inflight_ids s) \<and> set (inflight_ids s) = set (open_ids s) \<and>
     length (inflight_ids s) \<le> mx \<and> rg_max_inflight (cn_registry s) = mx"

definition history_ok :: "conn \<Rightarrow> bool" where
  "history_ok s \<longleftrightarrow>
     (\<exists>ids. protocol [] (cn_history s) = Some ids \<and> distinct ids \<and>
        (\<not> cn_writer_gone s \<longrightarrow> set ids = set (open_ids s)))"

definition channel_ok :: "conn \<Rightarrow> bool" where
  "channel_ok s \<longleftrightarrow>
     (\<exists>lost. concat (map frame_of (cn_history s)) = cn_wire s @ cn_queue s @ lost \<and>
        (\<not> cn_writer_gone s \<longrightarrow> lost = [])) \<and>
     length (cn_queue s) + length (cn_tasks s) \<le> cn_capacity s"

lemma protocol_append:
  "protocol ids (es @ es') = (case protocol ids es of None \<Rightarrow> None | Some ids' \<Rightarrow> protocol ids' es')"
  by (induction ids es rule: protocol.induct) auto

lemma fst_registry_update [simp]: "map fst (rg_inner (registry_update f i r)) = map fst (rg_inner r)"
  "rg_max_inflight (registry_update f i r) = rg_max_inflight r"
  by (auto simp: registry_update_def comp_def case_prod_beta)

lemma fst_registry_cancel_all [simp]: "map fst (rg_inner (registry_cancel_all r)) = map fst (rg_inner r)"
  "rg_max_inflight (registry_cancel_all r) = rg_max_inflight r"
  by (auto simp: registry_cancel_all_def comp_def case_prod_beta)

lemma fst_registry_deliver [simp]: "map fst (rg_inner (snd (registry_deliver i item r))) = map fst (rg_inner r)"
  "rg_max_inflight (snd (registry_deliver i item r)) = rg_max_inflight r"
  by (auto simp: registry_deliver_def split: option.splits prod.splits)

lemma fst_registry_remove [simp]: "map fst (rg_inner (registry_remove i r)) = filter (\<lambda>k. k \<noteq> i) (map fst (rg_inner r))"
  "rg_max_inflight (registry_remove i r) = rg_max_inflight r"
  by (simp_all add: registry_remove_def filter_map comp_def case_prod_unfold)

lemma filter_absent: "i \<notin> set xs \<Longrightarrow> filter (\<lambda>k. k \<noteq> i) xs = xs"
  by (induction xs) auto

lemma registry_insert_Inr:
  assumes "registry_insert i c r = Inr r'"
  shows "i \<notin> set (map fst (rg_inner r))" "map fst (rg_inner r') = map fst (rg_inner r) @ [i]"
    "length (rg_inner r) < rg_max_inflight r" "rg_max_inflight r' = rg_max_inflight r"
  using assms by (auto simp: registry_insert_def map_of_eq_None_iff split: if_splits)

text \<open>Steps that leave the tasks and what was sent alone.\<close>

definition same_traffic :: "conn \<Rightarrow> conn \<Rightarrow> bool" where
  "same_traffic s s' \<longleftrightarrow>
     open_ids s' = open_ids s \<and> length (cn_tasks s') = length (cn_tasks s) \<and> cn_history s' = cn_history s \<and>
     cn_queue s' = cn_queue s \<and> cn_wire s' = cn_wire s \<and> cn_writer_gone s' = cn_writer_gone s \<and>
     cn_capacity s' = cn_capacity s \<and> inflight_ids s' = inflight_ids s \<and>
     rg_max_inflight (cn_registry s') = rg_max_inflight (cn_registry s)"

definition conn_ok :: "nat \<Rightarrow> conn \<Rightarrow> bool" where
  "conn_ok mx s \<longleftrightarrow> ids_ok mx s \<and> history_ok s \<and> channel_ok s"

lemma same_traffic_ok: "same_traffic s s' \<Longrightarrow> conn_ok mx s \<Longrightarrow> conn_ok mx s'"
  unfolding same_traffic_def conn_ok_def ids_ok_def history_ok_def channel_ok_def by (metis length_map)

lemma reader_send_ok: "conn_ok mx s \<Longrightarrow> channel_ready s \<Longrightarrow> conn_ok mx (reader_send f s)"
proof (cases "cn_writer_gone s")
  case True
  assume "conn_ok mx s"
  moreover have "same_traffic s (reader_send f s)" using True by (simp add: reader_send_def same_traffic_def)
  ultimately show ?thesis by (rule same_traffic_ok [rotated])
next
  case False
  assume s: "conn_ok mx s" "channel_ready s"
  have "ids_ok mx (reader_send f s)" using s(1) False by (simp add: reader_send_def enqueue_def conn_ok_def ids_ok_def)
  moreover have "history_ok (reader_send f s)"
    using s(1) False by (auto simp: reader_send_def enqueue_def conn_ok_def history_ok_def protocol_append)
  moreover have "channel_ok (reader_send f s)"
    using s False by (auto simp: reader_send_def enqueue_def conn_ok_def channel_ok_def channel_ready_def)
  ultimately show ?thesis by (simp add: conn_ok_def)
qed

lemma registry_only_ok:
  "map fst (rg_inner r) = inflight_ids s \<Longrightarrow> rg_max_inflight r = rg_max_inflight (cn_registry s) \<Longrightarrow> conn_ok mx s \<Longrightarrow>
   conn_ok mx (s\<lparr>cn_registry := r\<rparr>)"
  by (rule same_traffic_ok [of s]) (simp_all add: same_traffic_def)

lemma stop_reading_ok: "conn_ok mx s \<Longrightarrow> conn_ok mx (s\<lparr>cn_reading := False\<rparr>)"
  by (rule same_traffic_ok [of s]) (simp_all add: same_traffic_def)

lemma fatal_ok: "conn_ok mx s \<Longrightarrow> channel_ready s \<Longrightarrow> conn_ok mx (fatal ep s)"
  by (simp add: fatal_def stop_reading_ok reader_send_ok)

lemma accept_ok:
  assumes ok: "conn_ok mx s" and ready: "channel_ready s" "\<not> cn_writer_gone s"
    and ins: "registry_insert i c (cn_registry s) = Inr r" and t: "tk_id t = i"
  shows "conn_ok mx (s\<lparr>cn_registry := r, cn_tasks := cn_tasks s @ [t], cn_history := cn_history s @ [Accept i]\<rparr>)"
proof -
  note r = registry_insert_Inr [OF ins]
  have i: "i \<notin> set (open_ids s)" using r(1) ok by (simp add: conn_ok_def ids_ok_def)
  obtain ids where ids: "protocol [] (cn_history s) = Some ids" "distinct ids" "set ids = set (open_ids s)"
    using ok ready(2) by (auto simp: conn_ok_def history_ok_def)
  have "ids_ok mx (s\<lparr>cn_registry := r, cn_tasks := cn_tasks s @ [t], cn_history := cn_history s @ [Accept i]\<rparr>)"
    using ok r i t by (auto simp: conn_ok_def ids_ok_def)
  moreover have "history_ok (s\<lparr>cn_registry := r, cn_tasks := cn_tasks s @ [t], cn_history := cn_history s @ [Accept i]\<rparr>)"
    using ids i t by (auto simp: history_ok_def protocol_append)
  moreover have "channel_ok (s\<lparr>cn_registry := r, cn_tasks := cn_tasks s @ [t], cn_history := cn_history s @ [Accept i]\<rparr>)"
    using ok ready by (auto simp: conn_ok_def channel_ok_def channel_ready_def)
  ultimately show ?thesis by (simp add: conn_ok_def)
qed

lemma handle_request_frame_ok:
  assumes "conn_ok mx s" "channel_ready s"
  shows "conn_ok mx (handle_request_frame env f s)"
proof (cases "hd_request_id (fr_header f) = 0")
  case True
  then show ?thesis using assms by (simp add: handle_request_frame_def reader_send_ok)
next
  case False
  let ?i = "hd_request_id (fr_header f)"
  show ?thesis
  proof (cases "registry_insert ?i (sv_credit env) (cn_registry s)")
    case (Inl e)
    then show ?thesis using False assms
      by (cases e) (simp_all add: handle_request_frame_def Let_def reader_send_ok)
  next
    case (Inr r)
    show ?thesis
    proof (cases "cn_writer_gone s")
      case True
      note ri = registry_insert_Inr [OF Inr]
      have "map fst (rg_inner (registry_remove ?i r)) = inflight_ids s"
        using filter_absent [OF ri(1)] ri(2) by simp
      then have "conn_ok mx (s\<lparr>cn_registry := registry_remove ?i r\<rparr>)"
        using ri(4) assms(1) by (intro registry_only_ok) simp_all
      from stop_reading_ok [OF this] show ?thesis using Inr True False by (simp add: handle_request_frame_def Let_def)
    next
      case gone: False
      show ?thesis using accept_ok [OF assms gone Inr] Inr gone False by (simp add: handle_request_frame_def Let_def)
    qed
  qed
qed

lemma handle_copy_data_ok:
  assumes "conn_ok mx s" "channel_ready s"
  shows "conn_ok mx (handle_copy_data env d f s)"
proof -
  let ?i = "hd_request_id (fr_header f)"
  have reg: "conn_ok mx (s\<lparr>cn_registry := snd (registry_deliver ?i it (cn_registry s))\<rparr>)" for it
    using assms(1) by (intro registry_only_ok) simp_all
  moreover have "channel_ready (s\<lparr>cn_registry := r\<rparr>)" for r using assms(2) by (simp add: channel_ready_def)
  ultimately have "conn_ok mx (fatal ep (s\<lparr>cn_registry := snd (registry_deliver ?i it (cn_registry s))\<rparr>))" for it ep
    by (rule fatal_ok)
  then show ?thesis using reg fatal_ok [OF assms]
    by (auto simp: handle_copy_data_def Let_def case_prod_beta split: option.split delivery.split)
qed

lemma handle_frame_ok:
  assumes "conn_ok mx s" "channel_ready s"
  shows "conn_ok mx (handle_frame env f s)"
  using assms reader_send_ok [OF assms] stop_reading_ok [OF assms(1)] handle_copy_data_ok [OF assms]
    handle_request_frame_ok [OF assms]
  by (auto simp: handle_frame_def Let_def registry_cancel_def registry_replenish_def intro!: registry_only_ok
      split: route.split core_method.split option.split sum.split)

lemma read_classified_ok:
  assumes "conn_ok mx s" "channel_ready s"
  shows "conn_ok mx (read_classified env c s)"
  using assms reader_send_ok [OF assms] stop_reading_ok [OF assms(1)] handle_frame_ok [OF assms] fatal_ok [OF assms]
  by (cases c) (simp_all add: read_classified_def)

lemma stream_ok:
  assumes ok: "conn_ok mx s" and ready: "channel_ready s" and i: "i \<in> set (open_ids s)"
  shows "conn_ok mx (enqueue f (Stream i f) s)"
proof (cases "cn_writer_gone s")
  case True
  then show ?thesis using ok by (simp add: enqueue_def)
next
  case False
  obtain ids where ids: "protocol [] (cn_history s) = Some ids" "distinct ids" "set ids = set (open_ids s)"
    using ok False by (auto simp: conn_ok_def history_ok_def)
  have "ids_ok mx (enqueue f (Stream i f) s)" using ok by (simp add: enqueue_def conn_ok_def ids_ok_def)
  moreover have "history_ok (enqueue f (Stream i f) s)"
    using ids i False by (auto simp: enqueue_def history_ok_def protocol_append)
  moreover have "channel_ok (enqueue f (Stream i f) s)"
    using ok ready False by (auto simp: enqueue_def conn_ok_def channel_ok_def channel_ready_def)
  ultimately show ?thesis by (simp add: conn_ok_def)
qed

lemma take_drop_ids:
  assumes "n < length ts" "distinct (map tk_id (ts @ os))"
  shows "set (map tk_id ((take n ts @ drop (Suc n) ts) @ os)) = set (map tk_id (ts @ os)) - {tk_id (ts ! n)}"
    and "distinct (map tk_id ((take n ts @ drop (Suc n) ts) @ os))"
proof -
  have ts: "ts = take n ts @ ts ! n # drop (Suc n) ts" using assms(1) by (rule id_take_nth_drop)
  then have m: "map tk_id (ts @ os) = map tk_id (take n ts) @ tk_id (ts ! n) # map tk_id (drop (Suc n) ts @ os)"
    by (metis append.assoc append_Cons list.simps(9) map_append)
  show "set (map tk_id ((take n ts @ drop (Suc n) ts) @ os)) = set (map tk_id (ts @ os)) - {tk_id (ts ! n)}"
    unfolding m using assms(2) [unfolded m] by auto
  show "distinct (map tk_id ((take n ts @ drop (Suc n) ts) @ os))" using assms(2) [unfolded m] by auto
qed

lemma supervise_ok:
  assumes ok: "conn_ok mx s" and n: "n < length (cn_tasks s)"
  shows "conn_ok mx (supervise n s)"
proof -
  let ?t = "cn_tasks s ! n" and ?s = "supervise n s"
  have d: "distinct (open_ids s)" using ok by (simp add: conn_ok_def ids_ok_def)
  note td = take_drop_ids [OF n d]
  have tasks: "cn_tasks ?s = take n (cn_tasks s) @ drop (Suc n) (cn_tasks s)" "cn_orphans ?s = cn_orphans s"
    "inflight_ids ?s = filter (\<lambda>k. k \<noteq> tk_id ?t) (inflight_ids s)" "cn_capacity ?s = cn_capacity s"
    "rg_max_inflight (cn_registry ?s) = rg_max_inflight (cn_registry s)" "cn_writer_gone ?s = cn_writer_gone s" "cn_wire ?s = cn_wire s"
    by (simp_all add: supervise_def Let_def enqueue_def)
  have ids: "set (open_ids ?s) = set (open_ids s) - {tk_id ?t}" "distinct (open_ids ?s)"
    using td unfolding tasks by simp_all
  have "ids_ok mx ?s"
    using ok ids le_trans [OF length_filter_le] unfolding conn_ok_def ids_ok_def tasks(3,5) by auto
  moreover have "history_ok ?s"
  proof (cases "cn_writer_gone s")
    case True
    then show ?thesis using ok by (auto simp: conn_ok_def history_ok_def supervise_def Let_def enqueue_def)
  next
    case False
    obtain os where os: "protocol [] (cn_history s) = Some os" "distinct os" "set os = set (open_ids s)"
      using ok False by (auto simp: conn_ok_def history_ok_def)
    have "tk_id ?t \<in> set os" using os(3) n nth_mem [OF n] by auto
    moreover have "cn_history ?s = cn_history s @ [Terminal (tk_id ?t) (build_terminal_frame (tk_service ?t) (tk_method ?t) (tk_id ?t) (terminal_of ?t))]"
      using False by (simp add: supervise_def Let_def enqueue_def)
    ultimately have "protocol [] (cn_history ?s) = Some (remove1 (tk_id ?t) os)" using os(1) by (simp add: protocol_append)
    moreover have "set (remove1 (tk_id ?t) os) = set (open_ids ?s)" using os(2,3) ids(1) by simp
    ultimately show ?thesis using os(2) unfolding history_ok_def by (metis distinct_remove1)
  qed
  moreover have "channel_ok ?s"
    using ok n by (auto simp: conn_ok_def channel_ok_def supervise_def Let_def enqueue_def)
  ultimately show ?thesis by (simp add: conn_ok_def)
qed

lemma task_update_ok:
  assumes "conn_ok mx s" "tk_id t = tk_id (cn_tasks s ! n)" "n < length (cn_tasks s)"
  shows "conn_ok mx (s\<lparr>cn_tasks := (cn_tasks s)[n := t]\<rparr>)"
proof (rule same_traffic_ok [OF _ assms(1)])
  have "map tk_id ((cn_tasks s)[n := t]) = map tk_id (cn_tasks s)"
    using assms(2,3) by (metis list_update_id map_update nth_map)
  then show "same_traffic s (s\<lparr>cn_tasks := (cn_tasks s)[n := t]\<rparr>)" by (simp add: same_traffic_def)
qed

lemma conn_step_ok: "conn_step env s s' \<Longrightarrow> conn_ok mx s \<Longrightarrow> conn_ok mx s'"
proof (induction rule: conn_step.induct)
  case (read s c)
  then show ?case by (simp add: read_classified_ok)
next
  case (send_stream n s f)
  then show ?case by (intro stream_ok) auto
next
  case (orphan_send n s f)
  then show ?case by (intro stream_ok) auto
next
  case (declare_terminal n s t)
  then show ?case by (intro task_update_ok) simp_all
next
  case (handler_ends n s st)
  then show ?case by (intro task_update_ok) simp_all
next
  case (supervisor n s)
  then show ?case by (simp add: supervise_ok)
next
  case (open_inbound i c fs s r)
  then show ?case
    by (intro registry_only_ok) (auto simp: open_inbound_with_capacity_def split: option.splits)
next
  case (writer_writes s f q)
  then show ?case by (auto simp: conn_ok_def ids_ok_def history_ok_def channel_ok_def)
next
  case (writer_fails s)
  then show ?case by (auto simp: conn_ok_def ids_ok_def history_ok_def channel_ok_def)
next
  case (abort_all s)
  then show ?case by (auto simp: conn_ok_def ids_ok_def history_ok_def channel_ok_def)
qed (auto intro!: registry_only_ok)

lemma conn_reachable_ok: "conn_reachable env mx s \<Longrightarrow> conn_ok mx s"
proof (induction rule: conn_reachable.induct)
  case new
  then show ?case
    by (simp add: conn_ok_def ids_ok_def history_ok_def channel_ok_def conn_new_def registry_new_def)
next
  case (step s s')
  then show ?case using conn_step_ok by blast
qed

subsection \<open>What a session promises\<close>

fun is_accept :: "32 word \<Rightarrow> event \<Rightarrow> bool" where
  "is_accept i (Accept j) = (j = i)"
| "is_accept i _ = False"

fun is_terminal :: "32 word \<Rightarrow> event \<Rightarrow> bool" where
  "is_terminal i (Terminal j _) = (j = i)"
| "is_terminal i _ = False"

definition accepts :: "32 word \<Rightarrow> event list \<Rightarrow> nat" where
  "accepts i es = length (filter (is_accept i) es)"

definition terminals :: "32 word \<Rightarrow> event list \<Rightarrow> nat" where
  "terminals i es = length (filter (is_terminal i) es)"

lemma count_remove1: "x \<in> set xs \<Longrightarrow> count_list xs i = count_list (remove1 x xs) i + (if x = i then 1 else 0)"
  by (induction xs) auto

lemma protocol_counts:
  "protocol ids es = Some ids' \<Longrightarrow> count_list ids i + accepts i es = terminals i es + count_list ids' i"
proof (induction ids es rule: protocol.induct)
  case (2 ids j es)
  then have "count_list (j # ids) i + accepts i es = terminals i es + count_list ids' i" by (simp split: if_splits)
  then show ?case by (simp add: accepts_def terminals_def split: if_splits)
next
  case (3 ids j f es)
  then have "count_list ids i + accepts i es = terminals i es + count_list ids' i" by (simp split: if_splits)
  then show ?case by (simp add: accepts_def terminals_def)
next
  case (4 ids j f es)
  then have j: "j \<in> set ids" and "count_list (remove1 j ids) i + accepts i es = terminals i es + count_list ids' i"
    by (simp_all split: if_splits)
  moreover have "accepts i (Terminal j f # es) = accepts i es"
    "terminals i (Terminal j f # es) = terminals i es + (if j = i then 1 else 0)"
    by (simp_all add: accepts_def terminals_def)
  ultimately show ?case using count_remove1 [OF j, of i] by linarith
qed (simp_all add: accepts_def terminals_def)

lemma capacity_frame [simp]:
  "cn_capacity (enqueue f e s) = cn_capacity s"
  "cn_capacity (reader_send f s) = cn_capacity s"
  "cn_capacity (fatal ep s) = cn_capacity s"
  by (simp_all add: enqueue_def reader_send_def fatal_def)

lemma handle_request_frame_capacity [simp]: "cn_capacity (handle_request_frame env f s) = cn_capacity s"
  by (simp add: handle_request_frame_def Let_def split: sum.split insert_err.split)

lemma handle_copy_data_capacity [simp]: "cn_capacity (handle_copy_data env d f s) = cn_capacity s"
  by (auto simp: handle_copy_data_def Let_def case_prod_beta split: option.split delivery.split)

lemma handle_frame_capacity [simp]: "cn_capacity (handle_frame env f s) = cn_capacity s"
  by (auto simp: handle_frame_def Let_def split: route.split core_method.split option.split sum.split)

lemma conn_step_capacity: "conn_step env s s' \<Longrightarrow> cn_capacity s' = cn_capacity s"
proof (induction rule: conn_step.induct)
  case (read s c)
  then show ?case by (cases c) (simp_all add: read_classified_def)
qed (simp_all add: supervise_def Let_def)

lemma conn_reachable_capacity: "conn_reachable env mx s \<Longrightarrow> cn_capacity s = mx + 8"
  by (induction rule: conn_reachable.induct) (simp_all add: conn_new_def conn_step_capacity)

text \<open>
  C3: every request ends exactly once. Whatever frames a client sends, however its handlers behave
  (stream, declare, return without declaring, panic) and however reader, handlers, supervisors and
  writer interleave, the history keeps to the protocol of a request: an id is accepted only when it is
  free, its stream frames lie between its acceptance and its one terminal, and each acceptance is
  matched by one terminal unless its request is still open; what is on the wire is a prefix of that
  history, in order.
\<close>

theorem every_request_ends_once:
  assumes "conn_reachable env mx s"
  shows "\<exists>ids. protocol [] (cn_history s) = Some ids \<and> distinct ids \<and>
    (\<forall>i. accepts i (cn_history s) = terminals i (cn_history s) + count_list ids i) \<and>
    (cn_writer_gone s \<or> set ids = set (open_ids s)) \<and>
    prefix (cn_wire s) (concat (map frame_of (cn_history s)))"
proof -
  have ok: "history_ok s" "channel_ok s" using conn_reachable_ok [OF assms] by (simp_all add: conn_ok_def)
  then obtain ids where ids: "protocol [] (cn_history s) = Some ids" "distinct ids"
    "cn_writer_gone s \<or> set ids = set (open_ids s)" by (auto simp: history_ok_def)
  have "prefix (cn_wire s) (concat (map frame_of (cn_history s)))" using ok(2) by (auto simp: channel_ok_def)
  moreover have "accepts i (cn_history s) = terminals i (cn_history s) + count_list ids i" for i
    using protocol_counts [OF ids(1), of i] by simp
  ultimately show ?thesis using ids by blast
qed

definition demo_env :: session_env where
  "demo_env = \<lparr>decode_ping = (\<lambda>_. None), decode_window_update = (\<lambda>_. None), decode_copy_done = (\<lambda>_. False),
     decode_copy_data = (\<lambda>_. None), sv_peer_uid = None, sv_admin_uids = [], sv_credit = credit_new 64 16777216\<rparr>"

definition demo_frame :: frame where
  "demo_frame = \<lparr>fr_header = \<lparr>hd_flags = 0, hd_service = 2, hd_method = 1, hd_request_id = 7, hd_payload_len = 0\<rparr>,
     fr_payload = []\<rparr>"

text \<open>A client's one request, whose handler panics.\<close>

definition demo_conn :: conn where
  "demo_conn =
     supervise 0 (let s = read_classified demo_env (ClFrame demo_frame) (conn_new 2) in
       s\<lparr>cn_tasks := (cn_tasks s)[0 := (cn_tasks s ! 0)\<lparr>tk_responder := False, tk_state := TaskPanicked\<rparr>]\<rparr>)"

lemma demo_request:
  "read_classified demo_env (ClFrame demo_frame) (conn_new 2) =
     (conn_new 2)\<lparr>cn_registry := \<lparr>rg_inner = [(7, \<lparr>if_cancelled = False, if_credit = credit_new 64 16777216, if_inbound = None\<rparr>)],
         rg_max_inflight = 2\<rparr>,
       cn_tasks := [\<lparr>tk_id = 7, tk_service = 2, tk_method = 1, tk_cell = None, tk_responder = True, tk_state = TaskRunning\<rparr>],
       cn_history := [Accept 7]\<rparr>"
  by (simp add: read_classified_def demo_env_def demo_frame_def handle_frame_def has_flag_def CANCEL_def route_of_def
      handle_request_frame_def registry_insert_def conn_new_def registry_new_def Let_def)

lemma demo_conn_reachable: "conn_reachable demo_env 2 demo_conn"
proof -
  let ?s = "read_classified demo_env (ClFrame demo_frame) (conn_new 2)"
  let ?u = "?s\<lparr>cn_tasks := (cn_tasks ?s)[0 := (cn_tasks ?s ! 0)\<lparr>tk_responder := False, tk_state := TaskPanicked\<rparr>]\<rparr>"
  have "conn_step demo_env (conn_new 2) ?s" by (rule conn_step.read) (simp_all add: conn_new_def channel_ready_def)
  then have "conn_reachable demo_env 2 ?s" using conn_reachable.new conn_reachable.step by blast
  moreover have "conn_step demo_env ?s ?u" by (rule conn_step.handler_ends) (simp_all add: demo_request)
  ultimately have "conn_reachable demo_env 2 ?u" using conn_reachable.step by blast
  moreover have "conn_step demo_env ?u (supervise 0 ?u)" by (rule conn_step.supervisor) (simp_all add: demo_request)
  ultimately show ?thesis unfolding demo_conn_def Let_def using conn_reachable.step by blast
qed

theorem every_request_ends_once_witness: "terminals 7 (cn_history demo_conn) = 1"
proof -
  have "cn_tasks demo_conn = [] \<and> cn_orphans demo_conn = [] \<and> \<not> cn_writer_gone demo_conn \<and>
      accepts 7 (cn_history demo_conn) = 1"
    by (simp add: demo_conn_def demo_request supervise_def enqueue_def accepts_def Let_def) (simp add: conn_new_def)
  then show ?thesis using every_request_ends_once [OF demo_conn_reachable] by fastforce
qed

text \<open>
  C26: a terminal always has room. In every reachable state the frames queued for the writer and the
  supervisors that have yet to send fit the control channel, so no supervisor waits to send its
  terminal; and at most \<open>max_inflight\<close> requests are in flight.
\<close>

theorem terminals_have_room:
  assumes "conn_reachable env mx s"
  shows "length (cn_queue s) + length (cn_tasks s) \<le> mx + 8 \<and> length (rg_inner (cn_registry s)) \<le> mx"
  using conn_reachable_ok [OF assms] conn_reachable_capacity [OF assms]
  by (simp add: conn_ok_def channel_ok_def ids_ok_def)

theorem terminals_have_room_witness:
  "length (cn_queue demo_conn) + length (cn_tasks demo_conn) \<le> 10 \<and> length (rg_inner (cn_registry demo_conn)) \<le> 2"
  using terminals_have_room [OF demo_conn_reachable] by simp

text \<open>
  Operate verbs are refused to everyone but listed users: a peer is authorized exactly when the
  kernel attests a uid that is in \<open>FERRO_ADMIN_UIDS\<close>, and the two operate refusals read the same.
\<close>

theorem admin_verbs_gated:
  "(authorize peer_uid admin_uids verb = Inr () \<longleftrightarrow> (\<exists>uid. peer_uid = Some uid \<and> uid \<in> set admin_uids)) \<and>
   refusal_payload OperateDisabled name = refusal_payload NotAdmin name"
  by (cases verb)
    (auto simp: authorize_def decide_def refusal_payload_def split: option.splits sum.splits if_splits)

end
