(* ===== verification/Http_Address.thy ===== *)
theory Http_Address
  imports Endian
begin

text \<open>
  The address guard of the HTTP client (\<open>ferro-http/src/address.rs\<close>): which IP addresses an upstream may
  reach. An \<open>Ipv4Addr\<close> is a 32-bit and an \<open>Ipv6Addr\<close> a 128-bit word. The text form of an operator's
  NAT64 prefix is left out; a prefix is its first twelve octets.
\<close>

unbundle bit_operations_syntax

subsection \<open>Addresses\<close>

datatype ip_addr = V4 "32 word" | V6 "128 word"

definition octets :: "128 word \<Rightarrow> u8s" where
  "octets a = rev (to_le_bytes 16 a)"

definition v4_from :: "u8s \<Rightarrow> 32 word" where
  "v4_from bs = from_le_bytes (rev bs)"

definition ipv6_new :: "16 word list \<Rightarrow> 128 word" where
  "ipv6_new segments = from_le_bytes (concat (map (to_le_bytes 2) (rev segments)))"

definition v4_in :: "32 word \<Rightarrow> u8s \<Rightarrow> nat \<Rightarrow> bool" where
  "v4_in a base len \<longleftrightarrow>
     (let m = (if len = 0 then 0 else push_bit (32 - len) (- 1)) in (a AND m) = (v4_from base AND m))"

definition v6_in :: "128 word \<Rightarrow> 128 word \<Rightarrow> nat \<Rightarrow> bool" where
  "v6_in a base len \<longleftrightarrow>
     (let m = (if len = 0 then 0 else push_bit (128 - len) (- 1)) in (a AND m) = (base AND m))"

subsection \<open>Classes and refused rows\<close>

datatype address_class = Public | Private | Loopback

datatype refused_range =
    Unspecified | MulticastReserved | LinkLocal | AwsImdsV6 | GcpImdsV6 | AlibabaMetadata
  | AzureWireServer | IetfSpecial | DeprecatedV6

definition is_metadata :: "refused_range \<Rightarrow> bool" where
  "is_metadata r \<longleftrightarrow> r \<in> {LinkLocal, AwsImdsV6, GcpImdsV6, AlibabaMetadata, AzureWireServer, IetfSpecial}"

datatype address_classification = Refused refused_range | Class address_class

type_synonym nat64_prefixes = "u8s list"

subsection \<open>Classification\<close>

text \<open>A \<open>for\<close> loop that returns the row of the first range that matches.\<close>

fun first_row :: "('r \<times> nat \<Rightarrow> bool) \<Rightarrow> ('r \<times> nat \<times> 'row) list \<Rightarrow> 'row option" where
  "first_row p [] = None"
| "first_row p ((base, len, row) # rs) = (if p (base, len) then Some row else first_row p rs)"

definition refused_v4 :: "(u8s \<times> nat \<times> refused_range) list" where
  "refused_v4 =
     [([0, 0, 0, 0], 8, Unspecified), ([224, 0, 0, 0], 4, MulticastReserved),
      ([240, 0, 0, 0], 4, MulticastReserved), ([169, 254, 0, 0], 16, LinkLocal),
      ([100, 100, 100, 200], 32, AlibabaMetadata), ([168, 63, 129, 16], 32, AzureWireServer),
      ([192, 0, 0, 0], 24, IetfSpecial), ([255, 255, 255, 255], 32, MulticastReserved)]"

definition private_v4 :: "(u8s \<times> nat) list" where
  "private_v4 =
     [([10, 0, 0, 0], 8), ([172, 16, 0, 0], 12), ([192, 168, 0, 0], 16), ([100, 64, 0, 0], 10),
      ([198, 18, 0, 0], 15)]"

definition classify_v4 :: "32 word \<Rightarrow> address_classification" where
  "classify_v4 a =
     (case first_row (\<lambda>(base, len). v4_in a base len) refused_v4 of
        Some row \<Rightarrow> Refused row
      | None \<Rightarrow>
          if v4_in a [127, 0, 0, 0] 8 then Class Loopback
          else if list_ex (\<lambda>(base, len). v4_in a base len) private_v4 then Class Private
          else Class Public)"

definition embedded_v4 :: "128 word \<Rightarrow> nat64_prefixes \<Rightarrow> 32 word list option" where
  "embedded_v4 a nat64 =
     (let o1 = octets a; last4 = drop 12 o1 in
      if take 10 o1 = replicate 10 0 \<and> o1 ! 10 = 255 \<and> o1 ! 11 = 255 then Some [v4_from last4]
      else if take 8 o1 = replicate 8 0 \<and> o1 ! 8 = 255 \<and> o1 ! 9 = 255 \<and> o1 ! 10 = 0 \<and> o1 ! 11 = 0 then
        Some [v4_from last4]
      else if v6_in a (ipv6_new [0x64, 0xff9b, 0, 0, 0, 0, 0, 0]) 96 then Some [v4_from last4]
      else if list_ex (\<lambda>p. take 12 o1 = p) nat64 then Some [v4_from last4]
      else if v6_in a (ipv6_new [0x64, 0xff9b, 1, 0, 0, 0, 0, 0]) 48 then
        Some [v4_from [o1 ! 6, o1 ! 7, o1 ! 9, o1 ! 10], v4_from [o1 ! 7, o1 ! 9, o1 ! 10, o1 ! 11],
              v4_from [o1 ! 9, o1 ! 10, o1 ! 11, o1 ! 12], v4_from last4]
      else None)"

definition refused_v6 :: "(128 word \<times> nat \<times> refused_range) list" where
  "refused_v6 =
     [(0, 96, DeprecatedV6), (ipv6_new [0xff00, 0, 0, 0, 0, 0, 0, 0], 8, MulticastReserved),
      (ipv6_new [0xfe80, 0, 0, 0, 0, 0, 0, 0], 10, LinkLocal),
      (ipv6_new [0xfd00, 0x0ec2, 0, 0, 0, 0, 0, 0], 32, AwsImdsV6),
      (ipv6_new [0xfd20, 0xce, 0, 0, 0, 0, 0, 0x254], 128, GcpImdsV6),
      (ipv6_new [0x2002, 0, 0, 0, 0, 0, 0, 0], 16, DeprecatedV6),
      (ipv6_new [0x2001, 0, 0, 0, 0, 0, 0, 0], 32, DeprecatedV6),
      (ipv6_new [0xfec0, 0, 0, 0, 0, 0, 0, 0], 10, DeprecatedV6)]"

definition classify_address :: "ip_addr \<Rightarrow> nat64_prefixes \<Rightarrow> address_classification list" where
  "classify_address addr nat64 =
     (case addr of
        V4 a \<Rightarrow> [classify_v4 a]
      | V6 a \<Rightarrow>
          if a = 0 then [Refused Unspecified]
          else if a = 1 then [Class Loopback]
          else
            (case first_row (\<lambda>(base, len). v6_in a base len) refused_v6 of
               Some row \<Rightarrow> [Refused row]
             | None \<Rightarrow>
                 (case embedded_v4 a nat64 of
                    Some v4s \<Rightarrow> map classify_v4 v4s
                  | None \<Rightarrow>
                      if v6_in a (ipv6_new [0xfc00, 0, 0, 0, 0, 0, 0, 0]) 7 then [Class Private]
                      else [Class Public])))"

subsection \<open>Policies\<close>

record class_set =
  cls_public :: bool
  cls_private :: bool
  cls_loopback :: bool

fun contains_class :: "class_set \<Rightarrow> address_class \<Rightarrow> bool" where
  "contains_class s Public = cls_public s"
| "contains_class s Private = cls_private s"
| "contains_class s Loopback = cls_loopback s"

datatype address_refusal = RefusedRow refused_range | RefusedClass address_class

record address_policy =
  ap_classes :: class_set
  ap_allow_metadata :: bool
  ap_literal :: "ip_addr option"

definition admit_one :: "address_policy \<Rightarrow> bool \<Rightarrow> address_classification \<Rightarrow> address_refusal option" where
  "admit_one pol is_literal c =
     (case c of
        Refused r \<Rightarrow> if is_metadata r \<and> ap_allow_metadata pol then None else Some (RefusedRow r)
      | Class cl \<Rightarrow>
          if is_literal then None
          else if contains_class (ap_classes pol) cl then None
          else Some (RefusedClass cl))"

fun check_all :: "address_policy \<Rightarrow> bool \<Rightarrow> address_classification list \<Rightarrow> address_refusal + unit" where
  "check_all pol is_literal [] = Inr ()"
| "check_all pol is_literal (c # cs) =
     (case admit_one pol is_literal c of None \<Rightarrow> check_all pol is_literal cs | Some e \<Rightarrow> Inl e)"

definition check_address :: "address_policy \<Rightarrow> ip_addr \<Rightarrow> nat64_prefixes \<Rightarrow> address_refusal + unit" where
  "check_address pol addr nat64 = check_all pol (ap_literal pol = Some addr) (classify_address addr nat64)"

subsection \<open>Prefixes are intervals\<close>

lemma prefix_div:
  "(a AND push_bit k (- 1)) = (b AND push_bit k (- 1)) \<longleftrightarrow> unat a div 2 ^ k = unat b div 2 ^ k"
  for a b :: "'a::len word"
proof -
  have "(a AND push_bit k (- 1)) = (b AND push_bit k (- 1)) \<longleftrightarrow> drop_bit k a = drop_bit k b"
  proof
    assume l: "(a AND push_bit k (- 1)) = (b AND push_bit k (- 1))"
    show "drop_bit k a = drop_bit k b"
    proof (rule bit_word_eqI)
      fix n assume n: "n < LENGTH('a)"
      have "bit (a AND push_bit k (- 1)) (k + n) = bit (b AND push_bit k (- 1)) (k + n)" using l by simp
      then show "bit (drop_bit k a) n = bit (drop_bit k b) n"
        by (cases "k + n < LENGTH('a)") (auto simp: bit_simps dest: bit_imp_le_length)
    qed
  next
    assume r: "drop_bit k a = drop_bit k b"
    show "(a AND push_bit k (- 1)) = (b AND push_bit k (- 1))"
    proof (rule bit_word_eqI)
      fix n assume n: "n < LENGTH('a)"
      have "bit (drop_bit k a) (n - k) = bit (drop_bit k b) (n - k)" using r by simp
      then show "bit (a AND push_bit k (- 1)) n = bit (b AND push_bit k (- 1)) n" using n
        by (auto simp: bit_simps)
    qed
  qed
  also have "\<dots> \<longleftrightarrow> unat (drop_bit k a) = unat (drop_bit k b)" by (simp add: word_unat_eq_iff)
  also have "\<dots> \<longleftrightarrow> unat a div 2 ^ k = unat b div 2 ^ k"
    unfolding unsigned_drop_bit_eq by (simp add: drop_bit_eq_div take_bit_nat_eq_self [OF unsigned_less])
  finally show ?thesis .
qed

lemma div_interval: "0 < d \<Longrightarrow> x div d = q \<longleftrightarrow> q * d \<le> x \<and> x < q * d + d" for x :: nat
  by (auto simp: div_nat_eqI dividend_less_times_div mult.commute) (metis add.commute dividend_less_div_times mult.commute)

lemma v4_in_div: "0 < len \<Longrightarrow> v4_in a base len \<longleftrightarrow> unat a div 2 ^ (32 - len) = unat (v4_from base) div 2 ^ (32 - len)"
  unfolding v4_in_def Let_def by (simp only: gr0_conv_Suc, clarsimp simp only: nat.distinct if_False prefix_div)

lemma v6_in_div: "0 < len \<Longrightarrow> v6_in a base len \<longleftrightarrow> unat a div 2 ^ (128 - len) = unat base div 2 ^ (128 - len)"
  unfolding v6_in_def Let_def by (simp only: gr0_conv_Suc, clarsimp simp only: nat.distinct if_False prefix_div)

lemma v4_from_unat: "length bs = 4 \<Longrightarrow> unat (v4_from bs) = le_nat (rev bs)"
  using le_nat_bound [of "rev bs"] by (simp add: v4_from_def from_le_bytes_def unat_of_nat)

text \<open>The base addresses of the tables, as numbers.\<close>

lemma to_le_two: "to_le_bytes 2 x = [ucast x, ucast (drop_bit 8 x)]"
  by (simp add: to_le_numeral)

lemma v6_bases:
  "unat (ipv6_new [0xff00, 0, 0, 0, 0, 0, 0, 0]) = 0xff00 * 2 ^ 112"
  "unat (ipv6_new [0xfe80, 0, 0, 0, 0, 0, 0, 0]) = 0xfe80 * 2 ^ 112"
  "unat (ipv6_new [0xfd00, 0x0ec2, 0, 0, 0, 0, 0, 0]) = 0xfd000ec2 * 2 ^ 96"
  "unat (ipv6_new [0xfd20, 0xce, 0, 0, 0, 0, 0, 0x254]) = 0xfd2000ce * 2 ^ 96 + 0x254"
  "unat (ipv6_new [0x2002, 0, 0, 0, 0, 0, 0, 0]) = 0x2002 * 2 ^ 112"
  "unat (ipv6_new [0x2001, 0, 0, 0, 0, 0, 0, 0]) = 0x2001 * 2 ^ 112"
  "unat (ipv6_new [0xfec0, 0, 0, 0, 0, 0, 0, 0]) = 0xfec0 * 2 ^ 112"
  "unat (ipv6_new [0x64, 0xff9b, 0, 0, 0, 0, 0, 0]) = 0x64ff9b * 2 ^ 96"
  "unat (ipv6_new [0x64, 0xff9b, 1, 0, 0, 0, 0, 0]) = 0x64ff9b0001 * 2 ^ 80"
  "unat (ipv6_new [0xfc00, 0, 0, 0, 0, 0, 0, 0]) = 0xfc00 * 2 ^ 112"
  by (simp_all add: ipv6_new_def from_le_bytes_def to_le_two unat_of_nat)

definition ip4 :: "nat \<Rightarrow> nat \<Rightarrow> nat \<Rightarrow> nat \<Rightarrow> nat" where
  "ip4 a b c d = a * 2 ^ 24 + b * 2 ^ 16 + c * 2 ^ 8 + d"

definition class_by_range :: "nat \<Rightarrow> address_classification" where
  "class_by_range n =
     (if n < ip4 1 0 0 0 then Refused Unspecified
      else if ip4 224 0 0 0 \<le> n then Refused MulticastReserved
      else if ip4 169 254 0 0 \<le> n \<and> n \<le> ip4 169 254 255 255 then Refused LinkLocal
      else if n = ip4 100 100 100 200 then Refused AlibabaMetadata
      else if n = ip4 168 63 129 16 then Refused AzureWireServer
      else if ip4 192 0 0 0 \<le> n \<and> n \<le> ip4 192 0 0 255 then Refused IetfSpecial
      else if ip4 127 0 0 0 \<le> n \<and> n \<le> ip4 127 255 255 255 then Class Loopback
      else if ip4 10 0 0 0 \<le> n \<and> n \<le> ip4 10 255 255 255 \<or> ip4 172 16 0 0 \<le> n \<and> n \<le> ip4 172 31 255 255 \<or>
        ip4 192 168 0 0 \<le> n \<and> n \<le> ip4 192 168 255 255 \<or> ip4 100 64 0 0 \<le> n \<and> n \<le> ip4 100 127 255 255 \<or>
        ip4 198 18 0 0 \<le> n \<and> n \<le> ip4 198 19 255 255
      then Class Private
      else Class Public)"

lemma classify_v4_ranges: "classify_v4 a = class_by_range (unat a)"
proof -
  have "unat a < 2 ^ 32" using unsigned_less [of a] by simp
  then show ?thesis
    by (simp add: classify_v4_def refused_v4_def private_v4_def v4_in_div v4_from_unat class_by_range_def ip4_def div_interval)
qed

text \<open>
  An IPv4 address is classified by the ranges the table means: the masks of the code cut out exactly
  the dotted-quad intervals from the first to the last address of each row.
\<close>

theorem classify_v4_by_range: "classify_v4 a = class_by_range (unat a)"
  by (rule classify_v4_ranges)

subsection \<open>What the guard never lets through\<close>

text \<open>The always-refused ranges, as numbers; \<open>allowed\<close> is \<open>ALLOW_METADATA\<close>.\<close>

definition blocked4 :: "bool \<Rightarrow> nat \<Rightarrow> bool" where
  "blocked4 allowed n \<longleftrightarrow>
     n < ip4 1 0 0 0 \<or> ip4 224 0 0 0 \<le> n \<or>
     \<not> allowed \<and>
       (ip4 169 254 0 0 \<le> n \<and> n \<le> ip4 169 254 255 255 \<or> n = ip4 100 100 100 200 \<or> n = ip4 168 63 129 16 \<or>
        ip4 192 0 0 0 \<le> n \<and> n \<le> ip4 192 0 0 255)"

definition blocked6 :: "bool \<Rightarrow> nat \<Rightarrow> bool" where
  "blocked6 allowed n \<longleftrightarrow>
     n < 2 ^ 32 \<and> n \<noteq> 1 \<or> 0xff * 2 ^ 120 \<le> n \<or> n div 2 ^ 112 = 0x2002 \<or> n div 2 ^ 96 = 0x20010000 \<or>
     0xfec0 * 2 ^ 112 \<le> n \<or>
     \<not> allowed \<and>
       (0xfe80 * 2 ^ 112 \<le> n \<and> n < 0xfec0 * 2 ^ 112 \<or> n div 2 ^ 96 = 0xfd000ec2 \<or>
        n = 0xfd2000ce * 2 ^ 96 + 0x254)"

lemma blocked4_row:
  "blocked4 allowed (unat a) \<longleftrightarrow> (\<exists>r. classify_v4 a = Refused r \<and> \<not> (is_metadata r \<and> allowed))"
  by (simp add: classify_v4_ranges class_by_range_def blocked4_def is_metadata_def)

lemma first_row_v6:
  "first_row (\<lambda>(base, len). v6_in a base len) refused_v6 =
     (let n = unat a in
      if n < 2 ^ 32 then Some DeprecatedV6
      else if 0xff * 2 ^ 120 \<le> n then Some MulticastReserved
      else if 0xfe80 * 2 ^ 112 \<le> n \<and> n < 0xfec0 * 2 ^ 112 then Some LinkLocal
      else if n div 2 ^ 96 = 0xfd000ec2 then Some AwsImdsV6
      else if n = 0xfd2000ce * 2 ^ 96 + 0x254 then Some GcpImdsV6
      else if n div 2 ^ 112 = 0x2002 then Some DeprecatedV6
      else if n div 2 ^ 96 = 0x20010000 then Some DeprecatedV6
      else if 0xfec0 * 2 ^ 112 \<le> n then Some DeprecatedV6
      else None)"
proof -
  have "unat a < 2 ^ 128" using unsigned_less [of a] by simp
  then show ?thesis
    by (simp add: refused_v6_def v6_in_div v6_bases div_interval Let_def)
qed

lemma check_all_admits: "check_all pol lit cs = Inr () \<longleftrightarrow> list_all (\<lambda>c. admit_one pol lit c = None) cs"
  by (induction cs) (auto split: option.splits)

lemma admit_refused: "admit_one pol lit (Refused r) = None \<longleftrightarrow> is_metadata r \<and> ap_allow_metadata pol"
  by (simp add: admit_one_def)

lemma admit_v4_unblocked: "admit_one pol lit (classify_v4 v) = None \<Longrightarrow> \<not> blocked4 (ap_allow_metadata pol) (unat v)"
  by (auto simp: blocked4_row admit_refused)

lemma admitted_v6:
  assumes "check_address pol (V6 a) nat64 = Inr ()"
  shows "\<not> blocked6 (ap_allow_metadata pol) (unat a)"
    and "list_all (\<lambda>v. admit_one pol (ap_literal pol = Some (V6 a)) (classify_v4 v) = None)
      (if a = 1 then [] else case first_row (\<lambda>(base, len). v6_in a base len) refused_v6 of
         None \<Rightarrow> (case embedded_v4 a nat64 of Some vs \<Rightarrow> vs | None \<Rightarrow> []) | Some _ \<Rightarrow> [])"
proof -
  have adm: "list_all (\<lambda>c. admit_one pol (ap_literal pol = Some (V6 a)) c = None) (classify_address (V6 a) nat64)"
    using assms by (simp add: check_address_def check_all_admits)
  have "a = 0 \<longleftrightarrow> unat a = 0" "a = 1 \<longleftrightarrow> unat a = 1" by (simp_all add: word_unat_eq_iff)
  then show "\<not> blocked6 (ap_allow_metadata pol) (unat a)"
    using adm unfolding classify_address_def first_row_v6 Let_def
    by (auto simp: blocked6_def admit_refused is_metadata_def split: if_splits)
  show "list_all (\<lambda>v. admit_one pol (ap_literal pol = Some (V6 a)) (classify_v4 v) = None)
      (if a = 1 then [] else case first_row (\<lambda>(base, len). v6_in a base len) refused_v6 of
         None \<Rightarrow> (case embedded_v4 a nat64 of Some vs \<Rightarrow> vs | None \<Rightarrow> []) | Some _ \<Rightarrow> [])"
    using adm by (auto simp: classify_address_def list_all_length first_row_v6 split: if_splits option.splits)
qed

definition carried_v4 :: "128 word \<Rightarrow> nat64_prefixes \<Rightarrow> 32 word list" where
  "carried_v4 a nat64 = (case embedded_v4 a nat64 of Some vs \<Rightarrow> vs | None \<Rightarrow> [])"

text \<open>
  C13: without \<open>ALLOW_METADATA\<close> no policy reaches a refused range. Whatever classes an upstream admits,
  whatever literal its origin names and whatever NAT64 prefixes the operator declares, an admitted
  address lies in no always-refused range, and neither does any IPv4 address that an admitted IPv6
  address (other than \<open>::1\<close>) carries. With \<open>ALLOW_METADATA\<close> the address itself is still outside
  the ranges that no key admits.
\<close>

theorem refused_ranges_unreachable:
  assumes "check_address pol addr nat64 = Inr ()"
  shows "case addr of
      V4 a \<Rightarrow> \<not> blocked4 (ap_allow_metadata pol) (unat a)
    | V6 a \<Rightarrow> \<not> blocked6 (ap_allow_metadata pol) (unat a) \<and>
        (a = 1 \<or> ap_allow_metadata pol \<or> list_all (\<lambda>v. \<not> blocked4 False (unat v)) (carried_v4 a nat64))"
proof (cases addr)
  case (V4 a)
  then have "admit_one pol (ap_literal pol = Some (V4 a)) (classify_v4 a) = None"
    using assms by (simp add: check_address_def classify_address_def split: option.splits)
  then show ?thesis using V4 admit_v4_unblocked by simp
next
  case (V6 a)
  note adm = admitted_v6 [OF assms [unfolded V6]]
  have "list_all (\<lambda>v. \<not> blocked4 False (unat v)) (carried_v4 a nat64)"
    if "a \<noteq> 1" "\<not> ap_allow_metadata pol"
  proof -
    have "first_row (\<lambda>(base, len). v6_in a base len) refused_v6 = None"
    proof (rule ccontr)
      assume "first_row (\<lambda>(base, len). v6_in a base len) refused_v6 \<noteq> None"
      then have "\<exists>r. classify_address (V6 a) nat64 = [Refused r]"
        using that by (auto simp: classify_address_def split: option.splits)
      then show False
        using assms V6 that by (auto simp: check_address_def admit_one_def)
    qed
    then show ?thesis using adm(2) that admit_v4_unblocked [of pol]
      by (auto simp: carried_v4_def list_all_length split: option.splits)
  qed
  then show ?thesis using V6 adm(1) by auto
qed

theorem refused_ranges_unreachable_witness:
  "\<not> blocked6 False 0x20014860486000000000000000008888"
proof -
  let ?pol = "\<lparr>ap_classes = \<lparr>cls_public = True, cls_private = True, cls_loopback = True\<rparr>, ap_allow_metadata = False,
    ap_literal = None\<rparr>"
  have "check_address ?pol (V6 0x20014860486000000000000000008888) [] = Inr ()"
    by (simp add: check_address_def classify_address_def first_row_v6 embedded_v4_def octets_def to_le_numeral v6_in_div v6_bases
        admit_one_def)
  from refused_ranges_unreachable [OF this] show ?thesis by simp
qed

subsection \<open>NAT64 with a local-use prefix\<close>

text \<open>
  The IPv4 address that a translator with a prefix of \<open>plen\<close> bits reaches (RFC 6052, section 2.2): the 32
  bits behind the prefix, where octet 8 is never used.
\<close>

definition rfc6052_target :: "nat \<Rightarrow> 128 word \<Rightarrow> 32 word" where
  "rfc6052_target plen a =
     v4_from (take 4 (drop (if plen < 72 then plen div 8 else plen div 8 - 1) (take 8 (octets a) @ drop 9 (octets a))))"

lemma replicate_numeral: "replicate (numeral k) x = x # replicate (pred_numeral k) x"
  by (simp add: numeral_eq_Suc)

lemma length_octets [simp]: "length (octets a) = 16"
  by (simp add: octets_def)

lemma le_nat_append: "le_nat (xs @ ys) = le_nat xs + 256 ^ length xs * le_nat ys"
  by (induction xs) simp_all

lemma unat_octets: "unat a = le_nat (rev (octets a))"
proof -
  have "unat a < 256 ^ 16" using unsigned_less [of a] by simp
  then show ?thesis by (simp add: octets_def le_nat_to_le)
qed

lemma unat_div_octets: "unat a div 2 ^ 80 = le_nat (rev (take 6 (octets a)))"
proof -
  have "rev (octets a) = rev (drop 6 (octets a)) @ rev (take 6 (octets a))"
    by (metis append_take_drop_id rev_append)
  moreover have "length (rev (drop 6 (octets a))) = 10" by simp
  moreover have "(256 :: nat) ^ 10 = 2 ^ 80" by simp
  moreover have "le_nat (rev (drop 6 (octets a))) < 256 ^ 10"
    using le_nat_bound [of "rev (drop 6 (octets a))"] by simp
  ultimately show ?thesis unfolding unat_octets [of a] by (simp only: le_nat_append) simp
qed

lemma local_use_octets:
  assumes "unat a div 2 ^ 80 = 0x64ff9b0001"
  shows "take 6 (octets a) = [0, 0x64, 0xff, 0x9b, 0, 1]"
proof -
  have "le_nat (rev (take 6 (octets a))) = le_nat (rev [0, 0x64, 0xff, 0x9b, 0, 1])"
    using assms unat_div_octets [of a] by simp
  from le_nat_inj [OF _ this] show ?thesis by simp
qed

lemma sixteen_octets:
  obtains b0 b1 b2 b3 b4 b5 b6 b7 b8 b9 b10 b11 b12 b13 b14 b15 where
    "octets a = [b0, b1, b2, b3, b4, b5, b6, b7, b8, b9, b10, b11, b12, b13, b14, b15]"
  by (simp add: octets_def to_le_numeral)

lemma local_use_candidates:
  assumes "unat a div 2 ^ 80 = 0x64ff9b0001" "list_all (\<lambda>p. take 6 p \<noteq> take 6 (octets a)) nat64"
    and "plen \<in> {48, 56, 64, 96}"
  shows "rfc6052_target plen a \<in> set (carried_v4 a nat64)"
proof -
  obtain b0 b1 b2 b3 b4 b5 b6 b7 b8 b9 b10 b11 b12 b13 b14 b15 where
    o: "octets a = [b0, b1, b2, b3, b4, b5, b6, b7, b8, b9, b10, b11, b12, b13, b14, b15]"
    by (rule sixteen_octets)
  have b: "b0 = 0" "b1 = 0x64" "b2 = 0xff" "b3 = 0x9b" "b4 = 0" "b5 = 1" using local_use_octets [OF assms(1)] o by simp_all
  have "\<not> list_ex (\<lambda>p. take 12 (octets a) = p) nat64"
    using assms(2) o by (auto simp: list_ex_iff list_all_iff)
  moreover have "v6_in a (ipv6_new [0x64, 0xff9b, 1, 0, 0, 0, 0, 0]) 48"
    using assms(1) by (simp add: v6_in_div v6_bases)
  moreover have "\<not> v6_in a (ipv6_new [0x64, 0xff9b, 0, 0, 0, 0, 0, 0]) 96"
    using assms(1) by (auto simp: v6_in_div v6_bases div_interval)
  ultimately have "carried_v4 a nat64 =
      [v4_from [b6, b7, b9, b10], v4_from [b7, b9, b10, b11], v4_from [b9, b10, b11, b12], v4_from [b12, b13, b14, b15]]"
    by (simp add: carried_v4_def embedded_v4_def Let_def o b replicate_numeral)
  then show ?thesis using assms(3) by (auto simp: rfc6052_target_def o)
qed

text \<open>
  An address in the local-use NAT64 prefix \<open>64:ff9b:1::/48\<close> is judged by what a translator reaches.
  Whichever layout of RFC 6052 the network uses, if the guard admits such an address (under no
  operator prefix inside that range, and not as the origin's own literal), it would admit the IPv4
  address behind it; and even as the literal, that address is in no always-refused range.
\<close>

theorem nat64_layouts_covered:
  assumes "check_address pol (V6 a) nat64 = Inr ()" "unat a div 2 ^ 80 = 0x64ff9b0001"
    and "list_all (\<lambda>p. take 6 p \<noteq> take 6 (octets a)) nat64" "plen \<in> {48, 56, 64, 96}"
  shows "\<not> blocked4 (ap_allow_metadata pol) (unat (rfc6052_target plen a)) \<and>
    (ap_literal pol = Some (V6 a) \<or> check_address pol (V4 (rfc6052_target plen a)) nat64 = Inr ())"
proof -
  let ?v = "rfc6052_target plen a"
  have "first_row (\<lambda>(base, len). v6_in a base len) refused_v6 = None" "a \<noteq> 1"
    using assms(2) by (auto simp: first_row_v6 Let_def div_interval)
  then have "list_all (\<lambda>v. admit_one pol (ap_literal pol = Some (V6 a)) (classify_v4 v) = None) (carried_v4 a nat64)"
    using admitted_v6(2) [OF assms(1)] by (simp add: carried_v4_def)
  then have adm: "admit_one pol (ap_literal pol = Some (V6 a)) (classify_v4 ?v) = None"
    using local_use_candidates [OF assms(2-4)] by (simp add: list_all_iff)
  moreover have "admit_one pol lit c = None" if "admit_one pol False c = None" for lit c
    using that by (auto simp: admit_one_def split: address_classification.splits if_splits)
  ultimately have "ap_literal pol = Some (V6 a) \<or> check_address pol (V4 ?v) nat64 = Inr ()"
    by (cases "ap_literal pol = Some (V6 a)") (simp_all add: check_address_def classify_address_def)
  with admit_v4_unblocked [OF adm] show ?thesis by simp
qed

theorem nat64_layouts_covered_witness:
  "rfc6052_target 56 0x0064ff9b000108080008080808080808 = 0x08080808 \<and>
   \<not> blocked4 False (unat (rfc6052_target 56 0x0064ff9b000108080008080808080808))"
proof -
  let ?pol = "\<lparr>ap_classes = \<lparr>cls_public = True, cls_private = False, cls_loopback = False\<rparr>, ap_allow_metadata = False,
    ap_literal = None\<rparr>"
  let ?a = "0x0064ff9b000108080008080808080808 :: 128 word"
  have o: "octets ?a = [0, 0x64, 0xff, 0x9b, 0, 1, 8, 8, 0, 8, 8, 8, 8, 8, 8, 8]"
    by (simp add: octets_def to_le_numeral)
  have "check_address ?pol (V6 ?a) [] = Inr ()"
    by (simp add: check_address_def classify_address_def first_row_v6 embedded_v4_def o v6_in_div v6_bases admit_one_def
        classify_v4_ranges class_by_range_def v4_from_unat ip4_def)
  from nat64_layouts_covered [OF this, of 56] show ?thesis
    by (simp add: rfc6052_target_def o v4_from_def from_le_bytes_def)
qed

end
