(* ===== verification/Http_Fate.thy ===== *)
theory Http_Fate
  imports Fate
begin

text \<open>
  The fate table of the HTTP client (\<open>ferro-http/src/fate.rs\<close>): from the phase a request was in, the event
  that ended it and whether it was declared idempotent, to the terminal its caller sees. The cause
  tokens are those of \<open>proto/registry.lock.json\<close>.
\<close>

subsection \<open>Situations\<close>

datatype policy_cause =
    PolicyUpstream | PolicyOrigin | PolicyTarget | PolicyMethod | PolicyHeader | PolicyBody | PolicyAddress

datatype before_dispatch =
    Policy policy_cause | RateLimited "32 word" | RetryAfterHold "32 word" | BreakerOpen "32 word"
  | BreakerProbeBusy | Draining | QueueFull | QueueTimeout | BodyBudget | BeforeDeadline | BeforeCancel | Dns
  | ConnectRefused | ConnectUnreachable | ConnectTimeout | TlsHandshake | TlsVerify | TlsVersion | TlsAlpn

datatype dispatched_not_sent = UnsentWrite | UnsentClosed | UnsentDeadline | UnsentCancel | UnsentDrain

datatype sent_no_head =
    SentWrite | SentReset | EofEmpty | EofPartialHead | MalformedHead | OversizeHead | Informational101
  | H2RefusedStream | H2GoawayAboveLast | SentH2StreamError | H2ConnectionError | SentTimeout | SentCancel
  | SentDrain

datatype head_received =
    BodyReset | BodyEof | BodyFraming | HeadH2StreamError | DecodeError | MaxResponseBytes | ReadIdle
  | HeadTimeout | HeadCancel | HeadDrain

datatype situation =
    BeforeDispatch before_dispatch | DispatchedNotSent dispatched_not_sent | SentNoHead sent_no_head
  | HeadReceived head_received

datatype http_fate = FateCancelled | FateError error_payload

subsection \<open>The table\<close>

definition http_err :: "errc \<Rightarrow> string \<Rightarrow> http_message \<Rightarrow> http_fate" where
  "http_err c cause msg = FateError ((payload c (HttpText msg))\<lparr>ep_detail := Some cause\<rparr>)"

fun with_retry_after :: "http_fate \<Rightarrow> 32 word \<Rightarrow> http_fate" where
  "with_retry_after (FateError ep) ms = FateError (ep\<lparr>ep_retry_after_ms := Some ms\<rparr>)"
| "with_retry_after FateCancelled ms = FateCancelled"

fun policy_cause_token :: "policy_cause \<Rightarrow> string" where
  "policy_cause_token PolicyUpstream = ''forbidden_upstream''"
| "policy_cause_token PolicyOrigin = ''forbidden_origin''"
| "policy_cause_token PolicyTarget = ''forbidden_target''"
| "policy_cause_token PolicyMethod = ''forbidden_method''"
| "policy_cause_token PolicyHeader = ''forbidden_header''"
| "policy_cause_token PolicyBody = ''forbidden_body''"
| "policy_cause_token PolicyAddress = ''forbidden_address''"

definition dial_fate :: "string \<Rightarrow> http_fate" where
  "dial_fate cause = http_err EUpstreamUnavailable cause Unreachable"

definition tls_refused_fate :: "string \<Rightarrow> http_fate" where
  "tls_refused_fate cause = http_err ETlsRefused cause TlsIdentityRefused"

fun before_dispatch_fate :: "before_dispatch \<Rightarrow> http_fate" where
  "before_dispatch_fate (Policy c) = http_err EForbidden (policy_cause_token c) PolicyRefused"
| "before_dispatch_fate (RateLimited ms) = with_retry_after (http_err ERateLimited ''rate_limited'' NotSent) ms"
| "before_dispatch_fate (RetryAfterHold ms) = with_retry_after (http_err ERateLimited ''retry_after_hold'' NotSent) ms"
| "before_dispatch_fate (BreakerOpen ms) = with_retry_after (http_err EUpstreamUnavailable ''breaker_open'' NotSent) ms"
| "before_dispatch_fate BreakerProbeBusy = http_err EUpstreamUnavailable ''breaker_probe_busy'' NotSent"
| "before_dispatch_fate Draining = http_err EUpstreamUnavailable ''draining'' NotSent"
| "before_dispatch_fate QueueFull = http_err EPoolTimeout ''queue_full'' NotSent"
| "before_dispatch_fate QueueTimeout = http_err EPoolTimeout ''queue_timeout'' NotSent"
| "before_dispatch_fate BodyBudget = http_err EPoolTimeout ''body_budget'' NotSent"
| "before_dispatch_fate BeforeDeadline = http_err EPoolTimeout ''deadline'' DeadlineUnsent"
| "before_dispatch_fate BeforeCancel = FateCancelled"
| "before_dispatch_fate Dns = dial_fate ''dns''"
| "before_dispatch_fate ConnectRefused = dial_fate ''connect_refused''"
| "before_dispatch_fate ConnectUnreachable = dial_fate ''connect_unreachable''"
| "before_dispatch_fate ConnectTimeout = dial_fate ''connect_timeout''"
| "before_dispatch_fate TlsHandshake = dial_fate ''tls_handshake''"
| "before_dispatch_fate TlsVerify = tls_refused_fate ''tls_verify''"
| "before_dispatch_fate TlsVersion = tls_refused_fate ''tls_version''"
| "before_dispatch_fate TlsAlpn = tls_refused_fate ''tls_alpn''"

fun dispatched_fate :: "dispatched_not_sent \<Rightarrow> http_fate" where
  "dispatched_fate UnsentWrite = http_err EConnectionLost ''unsent_write'' Unsent"
| "dispatched_fate UnsentClosed = http_err EConnectionLost ''unsent_closed'' Unsent"
| "dispatched_fate UnsentDeadline = http_err EPoolTimeout ''deadline'' DeadlineDispatched"
| "dispatched_fate UnsentCancel = FateCancelled"
| "dispatched_fate UnsentDrain = http_err EUpstreamUnavailable ''draining'' DrainUnsent"

definition sent_link :: "bool \<Rightarrow> string \<Rightarrow> http_fate" where
  "sent_link idempotent cause =
     (if idempotent then http_err EConnectionLost cause LinkLostIdem else http_err EWriteUnconfirmed cause LinkLostWrite)"

fun sent_fate :: "bool \<Rightarrow> sent_no_head \<Rightarrow> http_fate" where
  "sent_fate idem SentWrite = sent_link idem ''write''"
| "sent_fate idem SentReset = sent_link idem ''reset''"
| "sent_fate idem EofEmpty = sent_link idem ''eof_empty''"
| "sent_fate idem EofPartialHead = sent_link idem ''eof_partial_head''"
| "sent_fate idem MalformedHead = sent_link idem ''malformed_head''"
| "sent_fate idem OversizeHead = sent_link idem ''oversize_head''"
| "sent_fate idem Informational101 = sent_link idem ''informational_101''"
| "sent_fate idem H2RefusedStream = sent_link idem ''h2_refused_stream''"
| "sent_fate idem H2GoawayAboveLast = sent_link idem ''h2_goaway_above_last''"
| "sent_fate idem SentH2StreamError = sent_link idem ''h2_stream_error''"
| "sent_fate idem H2ConnectionError = sent_link idem ''h2_connection_error''"
| "sent_fate idem SentTimeout =
     (if idem then http_err EQueryTimeout ''timeout'' TimeoutIdem else http_err EWriteUnconfirmed ''timeout'' TimeoutWrite)"
| "sent_fate idem SentCancel = (if idem then FateCancelled else http_err EWriteUnconfirmed ''cancelled'' TimeoutWrite)"
| "sent_fate idem SentDrain =
     (if idem then http_err EConnectionLost ''draining'' DrainIdem else http_err EWriteUnconfirmed ''draining'' DrainWrite)"

definition head_link :: "bool \<Rightarrow> string \<Rightarrow> http_fate" where
  "head_link idempotent cause =
     (if idempotent then http_err EConnectionLost cause BodyIdem else http_err EResponseIncomplete cause BodyWrite)"

fun head_fate :: "bool \<Rightarrow> head_received \<Rightarrow> http_fate" where
  "head_fate idem BodyReset = head_link idem ''body_reset''"
| "head_fate idem BodyEof = head_link idem ''body_eof''"
| "head_fate idem BodyFraming = head_link idem ''body_framing''"
| "head_fate idem HeadH2StreamError = head_link idem ''h2_stream_error''"
| "head_fate idem DecodeError = http_err EResponseIncomplete ''decode'' DecodeFailed"
| "head_fate idem MaxResponseBytes = http_err EResponseIncomplete ''max_response_bytes'' ResponseTooLarge"
| "head_fate idem ReadIdle = http_err EQueryTimeout ''read_idle'' BodyIdle"
| "head_fate idem HeadTimeout = http_err EQueryTimeout ''timeout'' TimedOutDelivering"
| "head_fate idem HeadCancel = FateCancelled"
| "head_fate idem HeadDrain =
     (if idem then http_err EConnectionLost ''draining'' DrainIdem else http_err EResponseIncomplete ''draining'' DrainBody)"

definition http_classify :: "situation \<Rightarrow> bool \<Rightarrow> http_fate" where
  "http_classify s idempotent =
     (case s of
        BeforeDispatch e \<Rightarrow> before_dispatch_fate e
      | DispatchedNotSent e \<Rightarrow> dispatched_fate e
      | SentNoHead e \<Rightarrow> sent_fate idempotent e
      | HeadReceived e \<Rightarrow> head_fate idempotent e)"

subsection \<open>What the table promises\<close>

definition fate_branch :: "http_fate \<Rightarrow> 8 word option" where
  "fate_branch f = (case f of FateCancelled \<Rightarrow> None | FateError ep \<Rightarrow> Some (ep_branch ep))"

text \<open>A request of which no byte reached the upstream.\<close>

fun unsent :: "situation \<Rightarrow> bool" where
  "unsent (BeforeDispatch _) = True"
| "unsent (DispatchedNotSent _) = True"
| "unsent _ = False"

fun sent_no_answer :: "situation \<Rightarrow> bool" where
  "sent_no_answer (SentNoHead _) = True"
| "sent_no_answer _ = False"

lemmas fate_cells = http_classify_def fate_branch_def http_err_def payload_def dial_fate_def tls_refused_fate_def
  sent_link_def head_link_def branch_indeterminate_def branch_retryable_def branch_non_retryable_def

lemma before_dispatch_branch:
  "fate_branch (before_dispatch_fate e) \<in> {None, Some branch_retryable, Some branch_non_retryable}"
  by (cases e) (simp_all add: fate_cells)

text \<open>
  C8: a caller is told to retry only what is safe to retry. A request that was sent, was not declared
  idempotent and got no head is the one situation reported as indeterminate, whatever ended it; and a
  retryable terminal is only ever given to a request of which nothing was sent, or to an idempotent one.
\<close>

theorem http_indeterminate_iff:
  "(fate_branch (http_classify s idem) = Some branch_indeterminate \<longleftrightarrow> sent_no_answer s \<and> \<not> idem) \<and>
   (fate_branch (http_classify s idem) = Some branch_retryable \<longrightarrow> unsent s \<or> idem)"
proof (cases s)
  case (BeforeDispatch e)
  then show ?thesis using before_dispatch_branch [of e]
    by (auto simp: http_classify_def branch_indeterminate_def branch_retryable_def branch_non_retryable_def)
next
  case (DispatchedNotSent e)
  then show ?thesis by (cases e) (simp_all add: fate_cells)
next
  case (SentNoHead e)
  then show ?thesis by (cases e; cases idem) (simp_all add: fate_cells)
next
  case (HeadReceived e)
  then show ?thesis by (cases e; cases idem) (simp_all add: fate_cells)
qed

theorem http_indeterminate_iff_witness:
  "fate_branch (http_classify (SentNoHead SentReset) False) = Some 2"
  using http_indeterminate_iff [of "SentNoHead SentReset" False] by (simp add: branch_indeterminate_def)

text \<open>
  Every error carries its cause, no driver code, and a retry time exactly when admission computed one.
\<close>

lemma http_error_shape:
  "case http_classify s idem of FateCancelled \<Rightarrow> True
   | FateError ep \<Rightarrow> ep_detail ep \<noteq> None \<and> ep_sqlstate ep = None \<and> ep_errno ep = None \<and>
       (ep_retry_after_ms ep \<noteq> None \<longleftrightarrow>
          (\<exists>ms. s \<in> {BeforeDispatch (RateLimited ms), BeforeDispatch (RetryAfterHold ms), BeforeDispatch (BreakerOpen ms)}))"
proof (cases s)
  case (BeforeDispatch e)
  then show ?thesis by (cases e) (simp_all add: fate_cells)
next
  case (DispatchedNotSent e)
  then show ?thesis by (cases e) (simp_all add: fate_cells)
next
  case (SentNoHead e)
  then show ?thesis by (cases e; cases idem) (simp_all add: fate_cells)
next
  case (HeadReceived e)
  then show ?thesis by (cases e; cases idem) (simp_all add: fate_cells)
qed

end
