(* ===== verification/Utf8.thy ===== *)
theory Utf8
  imports Ferro_Prelude
begin

text \<open>
  Well-formed UTF-8, as Rust's \<open>str::from_utf8\<close> and \<open>String::from_utf8\<close> decide it; used by the HTTP
  validator and the PostgreSQL text decoders.
\<close>

definition in_bytes :: "nat \<Rightarrow> nat \<Rightarrow> char \<Rightarrow> bool" where
  "in_bytes lo hi c \<longleftrightarrow> lo \<le> byte c \<and> byte c \<le> hi"

fun utf8_valid :: "string \<Rightarrow> bool" where
  "utf8_valid [] = True"
| "utf8_valid (a # s) =
     (if byte a < 128 then utf8_valid s
      else
        (case s of
           [] \<Rightarrow> False
         | b # t \<Rightarrow>
             if in_bytes 194 223 a then is_cont_byte b \<and> utf8_valid t
             else
               (case t of
                  [] \<Rightarrow> False
                | c # u \<Rightarrow>
                    if byte a = 224 \<and> in_bytes 160 191 b \<or> (in_bytes 225 236 a \<or> in_bytes 238 239 a) \<and> is_cont_byte b \<or>
                      byte a = 237 \<and> in_bytes 128 159 b
                    then is_cont_byte c \<and> utf8_valid u
                    else
                      (case u of
                         [] \<Rightarrow> False
                       | d # v \<Rightarrow>
                           (byte a = 240 \<and> in_bytes 144 191 b \<or> in_bytes 241 243 a \<and> is_cont_byte b \<or>
                            byte a = 244 \<and> in_bytes 128 143 b) \<and>
                           is_cont_byte c \<and> is_cont_byte d \<and> utf8_valid v))))"

end
