(* ===== verification/Http_Validate.thy ===== *)
theory Http_Validate
  imports Http_Fate Utf8
begin

text \<open>
  Request validation of the HTTP client (\<open>ferro-http/src/syntax.rs\<close>, \<open>ferro-http/src/validate.rs\<close>): which
  method, target, headers and body a worker may send to an upstream. Every check refuses and none
  rewrites. The NFKC table of the \<open>unicode-normalization\<close> crate is the parameter \<open>nfkc\<close>, on UTF-8 bytes.
  A check of a path is \<open>None\<close> when it would index past the end of the path.
\<close>

subsection \<open>Grammar\<close>

definition is_tchar :: "char \<Rightarrow> bool" where
  "is_tchar b \<longleftrightarrow>
     is_ascii_alphanumeric b \<or> byte b \<in> {33, 35, 36, 37, 38, 39, 42, 43, 45, 46, 94, 95, 96, 124, 126}"

definition is_token :: "string \<Rightarrow> nat \<Rightarrow> bool" where
  "is_token s mx \<longleftrightarrow> s \<noteq> [] \<and> length s \<le> mx \<and> list_all is_tchar s"

definition visible :: "char \<Rightarrow> bool" where
  "visible b \<longleftrightarrow> 33 \<le> byte b \<and> byte b \<le> 126 \<or> 128 \<le> byte b"

definition is_field_value :: "string \<Rightarrow> bool" where
  "is_field_value v \<longleftrightarrow>
     v = [] \<or> visible (hd v) \<and> visible (last v) \<and> list_all (\<lambda>b. visible b \<or> byte b = 32 \<or> byte b = 9) v"

definition fold_name :: "string \<Rightarrow> string" where
  "fold_name name = map (\<lambda>b. if is_ascii_alphanumeric b then to_lower b else CHR ''-'') name"

definition hex_val :: "char \<Rightarrow> nat option" where
  "hex_val b =
     (let n = byte b in
      if 48 \<le> n \<and> n \<le> 57 then Some (n - 48)
      else if 97 \<le> n \<and> n \<le> 102 then Some (n - 97 + 10)
      else if 65 \<le> n \<and> n \<le> 70 then Some (n - 65 + 10)
      else None)"

fun decimal_fold :: "nat \<Rightarrow> string \<Rightarrow> nat option" where
  "decimal_fold acc [] = Some acc"
| "decimal_fold acc (d # ds) =
     (if 2 ^ 64 \<le> acc * 10 then None
      else if 2 ^ 64 \<le> acc * 10 + (byte d - 48) then None
      else decimal_fold (acc * 10 + (byte d - 48)) ds)"

definition parse_decimal_u64 :: "string \<Rightarrow> nat option" where
  "parse_decimal_u64 s = (if s = [] \<or> \<not> list_all is_ascii_digit s then None else decimal_fold 0 s)"

definition eq_ignore_ascii_case :: "string \<Rightarrow> string \<Rightarrow> bool" where
  "eq_ignore_ascii_case a b \<longleftrightarrow> to_ascii_lowercase a = to_ascii_lowercase b"

subsection \<open>Rules and refusals\<close>

datatype rule =
    UpstreamUnavailable | OriginMismatch | MethodToken | MethodAlwaysRefused | MethodNotAllowed | TargetLength
  | TargetForm | TargetByte | TargetPercent | TargetNul | PathPct25 | PathControl | PathNonAscii | PathParam
  | PathDotSegment | PathUtf8 | PathNfkcDotSegment | PathNfkcPercent | PathPrefix | HeaderCount | HeaderSize
  | HeaderPseudo | HeaderName | HeaderValue | HeaderHost | HeaderContentLength | HeaderTransferEncoding
  | HeaderUpgradeOrProxyAuth | HeaderMethodOverride | HeaderForwarding | HeaderAttached | BodyTooLarge

fun rule_cause :: "rule \<Rightarrow> policy_cause" where
  "rule_cause r =
     (if r = UpstreamUnavailable then PolicyUpstream
      else if r = OriginMismatch then PolicyOrigin
      else if r \<in> {MethodToken, MethodAlwaysRefused, MethodNotAllowed} then PolicyMethod
      else if r \<in> {TargetLength, TargetForm, TargetByte, TargetPercent, TargetNul, PathPct25, PathControl, PathNonAscii,
        PathParam, PathDotSegment, PathUtf8, PathNfkcDotSegment, PathNfkcPercent, PathPrefix} then PolicyTarget
      else if r = BodyTooLarge then PolicyBody
      else PolicyHeader)"

record http_refusal =
  rf_rule :: rule
  rf_offset :: "nat option"
  rf_header :: "string option"

definition refusal_new :: "rule \<Rightarrow> http_refusal" where
  "refusal_new r = \<lparr>rf_rule = r, rf_offset = None, rf_header = None\<rparr>"

definition refusal_at :: "rule \<Rightarrow> nat \<Rightarrow> http_refusal" where
  "refusal_at r i = \<lparr>rf_rule = r, rf_offset = Some i, rf_header = None\<rparr>"

definition refusal_header :: "rule \<Rightarrow> nat \<Rightarrow> string option \<Rightarrow> http_refusal" where
  "refusal_header r i name = \<lparr>rf_rule = r, rf_offset = Some i, rf_header = name\<rparr>"

subsection \<open>Attached headers\<close>

record attached_header =
  ah_name :: string
  ah_lower :: string
  ah_value :: string

definition attached_names :: "attached_header list \<Rightarrow> string \<Rightarrow> bool" where
  "attached_names hs lower \<longleftrightarrow> list_ex (\<lambda>h. ah_lower h = lower) hs"

datatype attach_error =
    AttachTooLarge | TooManyLines | NoColon nat | BadName nat | BadValue nat | ReservedName nat

definition is_reserved_attach_name :: "string \<Rightarrow> bool" where
  "is_reserved_attach_name lower \<longleftrightarrow>
     List.member [''host'', ''content-length'', ''transfer-encoding'', ''connection'', ''keep-alive'',
       ''proxy-connection'', ''te'', ''http2-settings'', ''expect'', ''upgrade'', ''proxy-authorization''] lower"

definition trim_ows :: "string \<Rightarrow> string" where
  "trim_ows v =
     (let ows = (\<lambda>b. b = CHR '' '' \<or> byte b = 9) in rev (dropWhile ows (rev (dropWhile ows v))))"

text \<open>One line that is not blank, \<open>n\<close> its number.\<close>

definition attach_line :: "nat \<Rightarrow> string \<Rightarrow> attach_error + attached_header" where
  "attach_line n line =
     (case find_pred (\<lambda>b. b = CHR '':'') line of
        None \<Rightarrow> Inl (NoColon n)
      | Some colon \<Rightarrow>
          (let name = take colon line; v = trim_ows (drop (colon + 1) line); lower = fold_name name in
           if \<not> is_token name 256 then Inl (BadName n)
           else if \<not> is_field_value v then Inl (BadValue n)
           else if is_reserved_attach_name lower then Inl (ReservedName n)
           else Inr \<lparr>ah_name = name, ah_lower = lower, ah_value = v\<rparr>))"

fun attach_lines :: "nat \<Rightarrow> attached_header list \<Rightarrow> string list \<Rightarrow> attach_error + attached_header list" where
  "attach_lines i out [] = Inr out"
| "attach_lines i out (raw # raws) =
     (let line = (if suffix [char_of (13::nat)] raw then butlast raw else raw) in
      if line = [] then attach_lines (i + 1) out raws
      else if length out = 100 then Inl TooManyLines
      else
        (case attach_line (i + 1) line of
           Inl e \<Rightarrow> Inl e
         | Inr h \<Rightarrow> attach_lines (i + 1) (out @ [h]) raws))"

definition attach_parse :: "string \<Rightarrow> attach_error + attached_header list" where
  "attach_parse bytes =
     (if 64 * 1024 + 4096 < length bytes then Inl AttachTooLarge
      else attach_lines 0 [] (split_on (\<lambda>b. byte b = 10) bytes))"

subsection \<open>Upstreams\<close>

datatype path_params = RefuseParams | AllowParams
datatype path_encoding = AsciiPaths | Utf8Paths
datatype attach_policy = RefuseAttached | OverrideAttached

record http_upstream =
  hu_name :: string
  hu_authority :: string
  hu_normalised :: string
  hu_allow_paths :: "string list"
  hu_path_params :: path_params
  hu_path_encoding :: path_encoding
  hu_allow_methods :: "string list option"
  hu_allow_uids :: "32 word list option"
  hu_attached :: "attached_header list"
  hu_attach_policy :: attach_policy
  hu_pass_headers :: "string list"
  hu_idempotent_methods :: "string list"
  hu_idempotency_key_header :: "string option"
  hu_max_body_bytes :: nat

subsection \<open>Method\<close>

definition is_always_refused_method :: "string \<Rightarrow> bool" where
  "is_always_refused_method m \<longleftrightarrow> list_ex (\<lambda>x. eq_ignore_ascii_case x m) [''CONNECT'', ''TRACE'', ''TRACK'']"

definition check_method :: "http_upstream \<Rightarrow> string \<Rightarrow> http_refusal + unit" where
  "check_method up m =
     (if \<not> is_token m 32 then Inl (refusal_new MethodToken)
      else if is_always_refused_method m then Inl (refusal_new MethodAlwaysRefused)
      else
        (case hu_allow_methods up of
           Some allowed \<Rightarrow> if List.member allowed m then Inr () else Inl (refusal_new MethodNotAllowed)
         | None \<Rightarrow> Inr ()))"

subsection \<open>Target\<close>

definition is_target_byte :: "char \<Rightarrow> bool" where
  "is_target_byte b \<longleftrightarrow>
     is_ascii_alphanumeric b \<or>
     byte b \<in> {45, 46, 95, 126, 33, 36, 38, 39, 40, 41, 42, 43, 44, 59, 61, 58, 64, 47, 63, 37}"

fun percent_scan :: "nat \<Rightarrow> string \<Rightarrow> http_refusal + unit" where
  "percent_scan i [] = Inr ()"
| "percent_scan i (c # cs) =
     (if c = CHR ''%'' then
        (case cs of
           a # b # rest \<Rightarrow>
             (case (hex_val a, hex_val b) of
                (Some x, Some y) \<Rightarrow> if x = 0 \<and> y = 0 then Inl (refusal_at TargetNul i) else percent_scan (i + 3) rest
              | _ \<Rightarrow> Inl (refusal_at TargetPercent i))
         | _ \<Rightarrow> Inl (refusal_at TargetPercent i))
      else percent_scan (i + 1) cs)"

definition check_target_syntax :: "string \<Rightarrow> http_refusal + unit" where
  "check_target_syntax t =
     (if t = [] \<or> 8192 < length t then Inl (refusal_new TargetLength)
      else if hd t \<noteq> CHR ''/'' then Inl (refusal_at TargetForm 0)
      else if byte_at t 1 = Some CHR ''/'' then Inl (refusal_at TargetForm 1)
      else
        (case find_pred (\<lambda>b. \<not> is_target_byte b) t of
           Some i \<Rightarrow> Inl (refusal_at TargetByte i)
         | None \<Rightarrow> percent_scan 0 t))"

definition prefix_matches :: "string \<Rightarrow> string \<Rightarrow> bool" where
  "prefix_matches p t \<longleftrightarrow> t = p \<or> prefix p t \<and> (suffix ''/'' p \<or> byte_at t (length p) = Some CHR ''/'')"

definition is_dot_only :: "string \<Rightarrow> bool" where
  "is_dot_only seg \<longleftrightarrow> seg \<noteq> [] \<and> list_all (\<lambda>b. b = CHR ''.'' \<or> b = CHR '' '') seg \<and> List.member seg (CHR ''.'')"

definition cut_params :: "string \<Rightarrow> string" where
  "cut_params seg = takeWhile (\<lambda>b. b \<noteq> CHR '';'' \<and> b \<noteq> CHR ''?'' \<and> b \<noteq> CHR ''#'') seg"

definition path_segments :: "string \<Rightarrow> string list" where
  "path_segments decoded = map cut_params (split_on (\<lambda>b. b = CHR ''/'' \<or> b = CHR 0x5C) decoded)"

definition has_dot_segment :: "string \<Rightarrow> bool" where
  "has_dot_segment decoded \<longleftrightarrow> list_ex is_dot_only (path_segments decoded)"

fun decode_path :: "path_params \<Rightarrow> path_encoding \<Rightarrow> nat \<Rightarrow> string \<Rightarrow> (http_refusal + string) option" where
  "decode_path params enc i [] = Some (Inr [])"
| "decode_path params enc i (c # cs) =
     (if c = CHR ''%'' then
        (case cs of
           a # b # rest \<Rightarrow>
             (let v = (case hex_val a of Some x \<Rightarrow> x | None \<Rightarrow> 0) * 16 + (case hex_val b of Some y \<Rightarrow> y | None \<Rightarrow> 0) in
              if v = 0x25 then Some (Inl (refusal_at PathPct25 i))
              else if v < 0x20 \<or> v = 0x7f then Some (Inl (refusal_at PathControl i))
              else if 0x80 \<le> v \<and> enc = AsciiPaths then Some (Inl (refusal_at PathNonAscii i))
              else map_option (map_sum id (\<lambda>s. char_of v # s)) (decode_path params enc (i + 3) rest))
         | _ \<Rightarrow> None)
      else if c = CHR '';'' \<and> params = RefuseParams then Some (Inl (refusal_at PathParam i))
      else map_option (map_sum id (\<lambda>s. c # s)) (decode_path params enc (i + 1) cs))"

definition check_path :: "(string \<Rightarrow> string) \<Rightarrow> string \<Rightarrow> path_params \<Rightarrow> path_encoding \<Rightarrow> (http_refusal + unit) option" where
  "check_path nfkc path params enc =
     map_option
       (\<lambda>r. case r of
          Inl e \<Rightarrow> Inl e
        | Inr decoded \<Rightarrow>
            if has_dot_segment decoded then Inl (refusal_new PathDotSegment)
            else if enc = Utf8Paths then
              (if \<not> utf8_valid decoded then Inl (refusal_new PathUtf8)
               else if List.member (nfkc decoded) (CHR ''%'') then Inl (refusal_new PathNfkcPercent)
               else if has_dot_segment (nfkc decoded) then Inl (refusal_new PathNfkcDotSegment)
               else Inr ())
            else Inr ())
       (decode_path params enc 0 path)"

definition target_path :: "string \<Rightarrow> string" where
  "target_path t = takeWhile (\<lambda>b. b \<noteq> CHR ''?'') t"

definition check_target :: "(string \<Rightarrow> string) \<Rightarrow> http_upstream \<Rightarrow> string \<Rightarrow> (http_refusal + unit) option" where
  "check_target nfkc up t =
     (case check_target_syntax t of
        Inl e \<Rightarrow> Some (Inl e)
      | Inr _ \<Rightarrow>
          (case check_path nfkc (target_path t) (hu_path_params up) (hu_path_encoding up) of
             None \<Rightarrow> None
           | Some (Inl e) \<Rightarrow> Some (Inl e)
           | Some (Inr _) \<Rightarrow>
               Some (if list_ex (\<lambda>p. prefix_matches p (target_path t)) (hu_allow_paths up) then Inr ()
                     else Inl (refusal_new PathPrefix))))"

definition check_prefix :: "(string \<Rightarrow> string) \<Rightarrow> string \<Rightarrow> path_params \<Rightarrow> path_encoding \<Rightarrow> (http_refusal + unit) option" where
  "check_prefix nfkc p params enc =
     (case check_target_syntax p of
        Inl e \<Rightarrow> Some (Inl e)
      | Inr _ \<Rightarrow>
          (case find_pred (\<lambda>b. b = CHR ''?'') p of
             Some i \<Rightarrow> Some (Inl (refusal_at TargetByte i))
           | None \<Rightarrow> check_path nfkc p params enc))"

subsection \<open>Headers\<close>

definition is_override_header :: "string \<Rightarrow> bool" where
  "is_override_header lower \<longleftrightarrow>
     List.member [''x-http-method-override'', ''x-http-method'', ''x-method-override'', ''x-original-url'',
       ''x-rewrite-url'', ''destination''] lower"

definition is_forwarding_header :: "string \<Rightarrow> bool" where
  "is_forwarding_header lower \<longleftrightarrow>
     List.member [''forwarded'', ''x-real-ip'', ''true-client-ip'', ''cf-connecting-ip'', ''x-client-ip'', ''client-ip'',
       ''x-host'', ''x-original-host''] lower \<or>
     (case strip_prefix ''x-forwarded-'' lower of Some rest \<Rightarrow> rest \<noteq> [] | None \<Rightarrow> False)"

record header_plan =
  hp_keep :: "nat list"
  hp_overridden :: nat
  hp_saw_accept_encoding :: bool

text \<open>One header line: refused, or kept or not, with the plan's counters.\<close>

definition check_header :: "http_upstream \<Rightarrow> nat \<Rightarrow> nat \<Rightarrow> string \<times> string \<Rightarrow> header_plan \<Rightarrow> http_refusal + header_plan" where
  "check_header up body_len i h plan =
     (case h of (name, v) \<Rightarrow>
        if prefix '':'' name then Inl (refusal_header HeaderPseudo i None)
        else if \<not> is_token name 256 then Inl (refusal_header HeaderName i None)
        else if \<not> is_field_value v then Inl (refusal_header HeaderValue i (Some name))
        else
          (let lower = fold_name name;
               refuse = (\<lambda>r. Inl (refusal_header r i (Some name)));
               kept = Inr (plan\<lparr>hp_keep := hp_keep plan @ [i]\<rparr>) in
           if lower = ''host'' then (if v \<noteq> hu_authority up then refuse HeaderHost else Inr plan)
           else if lower = ''content-length'' then
             (if parse_decimal_u64 v \<noteq> Some body_len then refuse HeaderContentLength else Inr plan)
           else if lower = ''transfer-encoding'' then
             (if \<not> eq_ignore_ascii_case v ''chunked'' then refuse HeaderTransferEncoding else Inr plan)
           else if List.member [''connection'', ''keep-alive'', ''proxy-connection'', ''http2-settings'', ''expect''] lower then Inr plan
           else if lower = ''te'' then (if eq_ignore_ascii_case v ''trailers'' then kept else Inr plan)
           else if lower = ''upgrade'' \<or> lower = ''proxy-authorization'' then refuse HeaderUpgradeOrProxyAuth
           else if is_override_header lower \<and> \<not> List.member (hu_pass_headers up) lower then refuse HeaderMethodOverride
           else if is_forwarding_header lower \<and> \<not> List.member (hu_pass_headers up) lower then refuse HeaderForwarding
           else if attached_names (hu_attached up) lower then
             (case hu_attach_policy up of
                RefuseAttached \<Rightarrow> refuse HeaderAttached
              | OverrideAttached \<Rightarrow> Inr (plan\<lparr>hp_overridden := hp_overridden plan + 1\<rparr>))
           else if lower = ''accept-encoding'' then
             Inr (plan\<lparr>hp_keep := hp_keep plan @ [i], hp_saw_accept_encoding := True\<rparr>)
           else kept))"

fun check_header_list ::
  "http_upstream \<Rightarrow> nat \<Rightarrow> nat \<Rightarrow> (string \<times> string) list \<Rightarrow> header_plan \<Rightarrow> http_refusal + header_plan" where
  "check_header_list up body_len i [] plan = Inr plan"
| "check_header_list up body_len i (h # hs) plan =
     (case check_header up body_len i h plan of
        Inl e \<Rightarrow> Inl e
      | Inr plan' \<Rightarrow> check_header_list up body_len (i + 1) hs plan')"

definition check_headers :: "http_upstream \<Rightarrow> (string \<times> string) list \<Rightarrow> nat \<Rightarrow> http_refusal + header_plan" where
  "check_headers up headers body_len =
     (if 100 < length headers then Inl (refusal_new HeaderCount)
      else if 64 * 1024 < sum_list (map (\<lambda>(n, v). length n + length v) headers) then Inl (refusal_new HeaderSize)
      else
        (case check_header_list up body_len 0 headers \<lparr>hp_keep = [], hp_overridden = 0, hp_saw_accept_encoding = False\<rparr> of
           Inl e \<Rightarrow> Inl e
         | Inr plan \<Rightarrow>
             Inr (if attached_names (hu_attached up) ''accept-encoding'' then plan\<lparr>hp_saw_accept_encoding := True\<rparr> else plan)))"

subsection \<open>Requests\<close>

datatype upstream_entry = Enabled http_upstream | Disabled

record http_config =
  hc_daemon_errors :: bool
  hc_upstreams :: "string \<rightharpoonup> upstream_entry"
  hc_max_body_bytes :: nat

definition upstream_for :: "http_config \<Rightarrow> string \<Rightarrow> 32 word option \<Rightarrow> http_upstream option" where
  "upstream_for cfg name peer_uid =
     (if hc_daemon_errors cfg then None
      else
        (case hc_upstreams cfg name of
           Some (Enabled up) \<Rightarrow>
             (case (hu_allow_uids up, peer_uid) of
                (None, _) \<Rightarrow> Some up
              | (Some uids, Some uid) \<Rightarrow> if List.member uids uid then Some up else None
              | _ \<Rightarrow> None)
         | _ \<Rightarrow> None))"

record http_request =
  hr_upstream :: string
  hr_method :: string
  hr_target :: string
  hr_origin :: "string option"
  hr_headers :: "(string \<times> string) list"
  hr_body :: "string option"
  hr_idempotent :: "bool option"
  hr_decode :: bool

record validated =
  vd_upstream :: http_upstream
  vd_host :: string
  vd_send_headers :: "nat list"
  vd_overridden :: nat
  vd_add_accept_encoding :: bool
  vd_content_length :: nat
  vd_idempotent :: bool

definition effective_idempotency :: "http_upstream \<Rightarrow> string \<Rightarrow> (string \<times> string) list \<Rightarrow> bool option \<Rightarrow> bool" where
  "effective_idempotency up m headers declared =
     (case declared of
        Some d \<Rightarrow> d
      | None \<Rightarrow>
          List.member (hu_idempotent_methods up) m \<or>
          (case hu_idempotency_key_header up of
             None \<Rightarrow> False
           | Some key \<Rightarrow> list_ex (\<lambda>(n, v). eq_ignore_ascii_case n key \<and> v \<noteq> []) headers))"

definition validate_request ::
  "(string \<Rightarrow> string) \<Rightarrow> http_config \<Rightarrow> 32 word option \<Rightarrow> http_request \<Rightarrow> (http_refusal + validated) option" where
  "validate_request nfkc cfg peer_uid req =
     (case upstream_for cfg (hr_upstream req) peer_uid of
        None \<Rightarrow> Some (Inl (refusal_new UpstreamUnavailable))
      | Some up \<Rightarrow>
          (case check_method up (hr_method req) of
             Inl e \<Rightarrow> Some (Inl e)
           | Inr _ \<Rightarrow>
               (case check_target nfkc up (hr_target req) of
                  None \<Rightarrow> None
                | Some (Inl e) \<Rightarrow> Some (Inl e)
                | Some (Inr _) \<Rightarrow>
                    (if (case hr_origin req of None \<Rightarrow> False | Some o1 \<Rightarrow> o1 \<noteq> hu_normalised up)
                     then Some (Inl (refusal_new OriginMismatch))
                     else
                       (let body_len = (case hr_body req of None \<Rightarrow> 0 | Some b \<Rightarrow> length b) in
                        case check_headers up (hr_headers req) body_len of
                          Inl e \<Rightarrow> Some (Inl e)
                        | Inr plan \<Rightarrow>
                            if min (hu_max_body_bytes up) (hc_max_body_bytes cfg) < body_len
                            then Some (Inl (refusal_new BodyTooLarge))
                            else
                              Some (Inr \<lparr>vd_upstream = up, vd_host = hu_authority up, vd_send_headers = hp_keep plan,
                                vd_overridden = hp_overridden plan,
                                vd_add_accept_encoding = (hr_decode req \<and> \<not> hp_saw_accept_encoding plan),
                                vd_content_length = body_len,
                                vd_idempotent =
                                  effective_idempotency up (hr_method req) (hr_headers req) (hr_idempotent req)\<rparr>))))))"

end
