(* ===== verification/Http_Validate_Correct.thy ===== *)
theory Http_Validate_Correct
  imports Http_Validate
begin

text \<open>
  What request validation (\<open>Http_Validate\<close>) promises. \<open>pct_decode\<close> is how an upstream decodes a path and
  \<open>resolve_dots\<close> how it follows dot segments; an accepted target is below an allowed prefix under both,
  however often it is decoded. A header that is sent can neither frame the message nor impersonate the
  engine, and no request makes a check index past the end of what it reads.
\<close>

subsection \<open>The reader's view of a path\<close>

fun pct_decode :: "string \<Rightarrow> string" where
  "pct_decode [] = []"
| "pct_decode (c # cs) =
     (if c = CHR ''%'' then
        (case cs of
           a # b # rest \<Rightarrow>
             (case (hex_val a, hex_val b) of
                (Some x, Some y) \<Rightarrow> char_of (x * 16 + y) # pct_decode rest
              | _ \<Rightarrow> c # pct_decode cs)
         | _ \<Rightarrow> c # pct_decode cs)
      else c # pct_decode cs)"

text \<open>Dot segments as a server follows them, blanks in a segment ignored: \<open>stack\<close> holds the segments kept.\<close>

fun resolve_dots :: "string list \<Rightarrow> string list \<Rightarrow> string list" where
  "resolve_dots stack [] = rev stack"
| "resolve_dots stack (seg # segs) =
     (let s = filter (\<lambda>c. c \<noteq> CHR '' '') seg in
      if s = ''.'' then resolve_dots stack segs
      else if s = ''..'' then resolve_dots (tl stack) segs
      else resolve_dots (seg # stack) segs)"

lemma pct_decode_plain [simp]: "CHR ''%'' \<notin> set s \<Longrightarrow> pct_decode s = s"
  by (induction s) auto

lemma is_dot_only_blank:
  assumes "filter (\<lambda>c. c \<noteq> CHR '' '') seg = replicate (Suc n) (CHR ''.'')"
  shows "is_dot_only seg"
proof -
  have set: "{c \<in> set seg. c \<noteq> CHR '' ''} = {CHR ''.''}"
    by (metis (mono_tags) assms set_filter set_replicate_Suc)
  then have "CHR ''.'' \<in> set seg" by blast
  moreover have "c = CHR ''.'' \<or> c = CHR '' ''" if "c \<in> set seg" for c
    using set that by blast
  ultimately show ?thesis unfolding is_dot_only_def list_all_iff List.member_iff by (cases seg) simp_all
qed

lemma resolve_dots_id:
  "\<not> list_ex is_dot_only segs \<Longrightarrow> resolve_dots stack segs = rev stack @ segs"
proof (induction segs arbitrary: stack)
  case (Cons seg segs)
  then have "\<not> is_dot_only seg" by simp
  then have "filter (\<lambda>c. c \<noteq> CHR '' '') seg \<noteq> ''.''" "filter (\<lambda>c. c \<noteq> CHR '' '') seg \<noteq> ''..''"
    using is_dot_only_blank [of seg 0] is_dot_only_blank [of seg 1] by auto
  with Cons show ?case by simp
qed simp

text \<open>
  The segments a server sees: it splits at a slash and perhaps at a backslash, and may cut a segment where
  parameters, a query or a fragment begin.
\<close>

definition reader_segments :: "string \<Rightarrow> string \<Rightarrow> string \<Rightarrow> string list" where
  "reader_segments seps cuts d =
     map (takeWhile (\<lambda>b. \<not> List.member cuts b)) (split_on (\<lambda>b. List.member seps b) d)"

lemma split_on_nonempty [simp]: "split_on q s \<noteq> []"
  by (induction s) (auto split: list.splits)

lemma split_on_plain: "\<forall>c \<in> set a. \<not> q c \<Longrightarrow> split_on q a = [a]"
  by (induction a) auto

lemma split_on_append_sep: "q c \<Longrightarrow> split_on q (a @ c # b) = split_on q a @ split_on q b"
  by (induction a) (auto split: list.splits)

lemma split_on_memberE:
  assumes "s \<in> set (split_on q d)"
  obtains pre post where "d = pre @ s @ post" "pre = [] \<or> q (last pre)" "post = [] \<or> q (hd post)"
  using assms
proof (induction d arbitrary: thesis rule: length_induct)
  case (1 d)
  show ?case
  proof (cases "\<exists>c \<in> set d. q c")
    case False
    with 1(3) have "s = d" by (simp add: split_on_plain)
    then show ?thesis using 1(2) [of "[]" "[]"] by simp
  next
    case True
    then obtain a c b where d: "d = a @ c # b" "q c" "\<forall>x \<in> set a. \<not> q x" by (rule split_list_first_propE)
    with 1(3) consider "s = a" | "s \<in> set (split_on q b)" by (auto simp: split_on_append_sep split_on_plain)
    then show ?thesis
    proof cases
      case 1
      with d show ?thesis using "1.prems"(1) [of "[]" "c # b"] by simp
    next
      case 2
      with d "1.IH" obtain pre post where "b = pre @ s @ post" "pre = [] \<or> q (last pre)" "post = [] \<or> q (hd post)"
        by (metis add_Suc_right length_append length_Cons less_add_Suc2)
      with d show ?thesis using "1.prems"(1) [of "a @ c # pre" post] by auto
    qed
  qed
qed

lemma split_on_front:
  assumes "\<forall>c \<in> set x. \<not> q c \<and> \<not> ends c" and "post = [] \<or> q (hd post) \<or> ends (hd post)"
  shows "takeWhile (\<lambda>b. \<not> ends b) (hd (split_on q (x @ post))) = x"
  using assms
proof (induction x)
  case Nil
  then show ?case by (cases post) (auto split: list.splits)
next
  case (Cons c x)
  then show ?case by (cases "split_on q (x @ post)") auto
qed

text \<open>A dot segment of any such server is one the check sees.\<close>

lemma reader_dot_segment:
  assumes "seg \<in> set (reader_segments seps cuts d)" and "is_dot_only seg"
    and "set seps \<subseteq> {CHR ''/'', CHR 0x5C}" and "set cuts \<subseteq> {CHR '';'', CHR ''?'', CHR ''#''}"
  shows "has_dot_segment d"
proof -
  let ?q = "\<lambda>b. b = CHR ''/'' \<or> b = CHR 0x5C" and ?cut = "\<lambda>b. b = CHR '';'' \<or> b = CHR ''?'' \<or> b = CHR ''#''"
  from assms(1) obtain s where s: "s \<in> set (split_on (\<lambda>b. List.member seps b) d)"
    and seg: "seg = takeWhile (\<lambda>b. \<not> List.member cuts b) s" by (auto simp: reader_segments_def)
  from s obtain pre post where d: "d = pre @ s @ post" and pre: "pre = [] \<or> List.member seps (last pre)"
    and post: "post = [] \<or> List.member seps (hd post)" by (rule split_on_memberE)
  let ?rest = "dropWhile (\<lambda>b. \<not> List.member cuts b) s @ post"
  have plain: "\<forall>c \<in> set seg. \<not> ?q c \<and> \<not> ?cut c"
  proof
    fix c
    assume "c \<in> set seg"
    with assms(2) have "c = CHR ''.'' \<or> c = CHR '' ''" unfolding is_dot_only_def list_all_iff by blast
    then show "\<not> ?q c \<and> \<not> ?cut c" by (elim disjE) simp_all
  qed
  have "?rest = [] \<or> ?q (hd ?rest) \<or> ?cut (hd ?rest)"
  proof (cases "dropWhile (\<lambda>b. \<not> List.member cuts b) s")
    case Nil
    from post assms(3) have "post = [] \<or> ?q (hd post)" by (auto simp: List.member_iff)
    then show ?thesis unfolding Nil append_Nil by blast
  next
    case (Cons c cs)
    then have "List.member cuts c" using hd_dropWhile by (metis list.discI list.sel(1))
    with Cons assms(4) show ?thesis by (auto simp: List.member_iff)
  qed
  from split_on_front [OF plain this]
  have "cut_params (hd (split_on ?q (seg @ ?rest))) = seg" by (simp add: cut_params_def)
  moreover have "hd (split_on ?q (seg @ ?rest)) \<in> set (split_on ?q d)"
  proof (cases "pre = []")
    case True
    then have "d = seg @ ?rest" unfolding d seg append_assoc [symmetric] takeWhile_dropWhile_id by simp
    then show ?thesis by (simp only: split_on_nonempty hd_in_set not_False_eq_True)
  next
    case False
    with pre assms(3) have "?q (last pre)" by (auto simp: List.member_iff)
    moreover have "d = butlast pre @ last pre # seg @ ?rest"
      unfolding seg append_assoc [symmetric] takeWhile_dropWhile_id using d False by simp
    ultimately have "split_on ?q d = split_on ?q (butlast pre) @ split_on ?q (seg @ ?rest)"
      using split_on_append_sep [of ?q "last pre" "butlast pre" "seg @ ?rest"] by simp
    then show ?thesis by simp
  qed
  ultimately show ?thesis using assms(2) by (force simp: has_dot_segment_def path_segments_def list_ex_iff)
qed

subsection \<open>Percent syntax\<close>

lemma hex_val_bound: "hex_val c = Some x \<Longrightarrow> x < 16"
  by (auto simp: hex_val_def Let_def split: if_splits)

lemma hex_val_not_question [simp]: "hex_val (CHR ''?'') = None"
  by code_simp

text \<open>A text whose percent escapes are whole, built in one go with its decoding.\<close>

inductive decodes :: "string \<Rightarrow> string \<Rightarrow> bool" where
  decodes_nil: "decodes [] []"
| decodes_plain: "c \<noteq> CHR ''%'' \<Longrightarrow> decodes cs ds \<Longrightarrow> decodes (c # cs) (c # ds)"
| decodes_escape: "hex_val a = Some x \<Longrightarrow> hex_val b = Some y \<Longrightarrow> decodes cs ds \<Longrightarrow>
    decodes (CHR ''%'' # a # b # cs) (char_of (x * 16 + y) # ds)"

lemma percent_scan_decodes: "percent_scan i s = Inr () \<Longrightarrow> \<exists>d. decodes s d"
proof (induction i s rule: percent_scan.induct)
  case (2 i c cs)
  show ?case
  proof (cases "c = CHR ''%''")
    case True
    with 2(3) obtain a b rest x y where cs: "cs = a # b # rest" "hex_val a = Some x" "hex_val b = Some y"
      and rest: "\<not> (x = 0 \<and> y = 0)" "percent_scan (i + 3) rest = Inr ()"
      by (auto split: list.splits option.splits if_splits)
    with 2(1) [OF True cs(1) _ _ cs(2,3)] obtain d where "decodes rest d" by auto
    then show ?thesis using True cs decodes_escape by blast
  next
    case False
    with 2(2,3) show ?thesis using decodes_plain by fastforce
  qed
qed (use decodes_nil in blast)

lemma decodes_pct_decode: "decodes s d \<Longrightarrow> pct_decode (s @ r) = d @ pct_decode r"
  by (induction rule: decodes.induct) simp_all

lemma decodes_takeWhile:
  "decodes s d \<Longrightarrow> \<exists>e. decodes (takeWhile (\<lambda>b. b \<noteq> CHR ''?'') s) e"
proof (induction rule: decodes.induct)
  case (decodes_escape a x b y cs ds)
  then have "a \<noteq> CHR ''?''" "b \<noteq> CHR ''?''" by auto
  with decodes_escape show ?case using decodes.decodes_escape by fastforce
qed (use decodes.intros in auto)

lemma decodes_decode_path:
  "decodes s d \<Longrightarrow>
     (\<exists>e. decode_path params enc i s = Some (Inl e)) \<or> decode_path params enc i s = Some (Inr d) \<and> CHR ''%'' \<notin> set d"
proof (induction arbitrary: i rule: decodes.induct)
  case (decodes_plain c cs ds)
  from decodes_plain(3) [of "i + 1"] decodes_plain(1) show ?case by auto
next
  case (decodes_escape a x b y cs ds)
  have "char_of (x * 16 + y) \<noteq> CHR ''%''" if "x * 16 + y \<noteq> 0x25"
  proof
    assume "char_of (x * 16 + y) = CHR ''%''"
    then have "(of_char (char_of (x * 16 + y)) :: nat) = of_char (CHR ''%'')" by simp
    with that hex_val_bound [OF decodes_escape(1)] hex_val_bound [OF decodes_escape(2)] show False by simp
  qed
  with decodes_escape(4) [of "i + 3"] decodes_escape(1,2) show ?case by (auto simp: Let_def)
qed simp

subsection \<open>Accepted paths\<close>

definition path_readings :: "(string \<Rightarrow> string) \<Rightarrow> path_encoding \<Rightarrow> string \<Rightarrow> string list" where
  "path_readings nfkc enc path =
     (let d = pct_decode path in d # (if enc = Utf8Paths then [nfkc d] else []))"

definition reading_is_plain :: "string \<Rightarrow> string \<Rightarrow> string \<Rightarrow> bool" where
  "reading_is_plain seps cuts d \<longleftrightarrow>
     pct_decode d = d \<and> resolve_dots [] (reader_segments seps cuts d) = reader_segments seps cuts d"

lemma reading_is_plainI:
  assumes "set seps \<subseteq> {CHR ''/'', CHR 0x5C}" and "set cuts \<subseteq> {CHR '';'', CHR ''?'', CHR ''#''}"
    and "CHR ''%'' \<notin> set d" and "\<not> has_dot_segment d"
  shows "reading_is_plain seps cuts d"
  using assms(3,4) reader_dot_segment [OF _ _ assms(1,2)]
  by (auto simp: reading_is_plain_def list_ex_iff intro!: resolve_dots_id [of _ "[]", simplified])

lemma decodes_self: "decodes s d \<Longrightarrow> pct_decode s = d"
  using decodes_pct_decode [of s d "[]"] by simp

lemma check_target_syntax_decodes: "check_target_syntax t = Inr () \<Longrightarrow> \<exists>d. decodes t d"
  by (auto simp: check_target_syntax_def split: if_splits option.splits intro: percent_scan_decodes)

lemma check_path_total: "decodes s d \<Longrightarrow> check_path nfkc s params enc \<noteq> None"
  using decodes_decode_path [of s d params enc 0] by (auto simp: check_path_def)

lemma check_path_accepts:
  assumes "check_path nfkc s params enc = Some (Inr ())" and "decodes s d"
    and "set seps \<subseteq> {CHR ''/'', CHR 0x5C}" and "set cuts \<subseteq> {CHR '';'', CHR ''?'', CHR ''#''}"
  shows "list_all (reading_is_plain seps cuts) (path_readings nfkc enc s)"
proof -
  from decodes_decode_path [OF assms(2), of params enc 0] assms(1)
  have ok: "decode_path params enc 0 s = Some (Inr d)" "CHR ''%'' \<notin> set d"
    by (auto simp: check_path_def)
  with assms(1) have "\<not> has_dot_segment d"
    and "enc = Utf8Paths \<Longrightarrow> CHR ''%'' \<notin> set (nfkc d) \<and> \<not> has_dot_segment (nfkc d)"
    by (auto simp: check_path_def List.member_iff split: if_splits)
  with ok show ?thesis
    by (auto simp: path_readings_def Let_def decodes_self [OF assms(2)] intro: reading_is_plainI [OF assms(3,4)])
qed

lemma decodes_suffix_slash: "decodes s d \<Longrightarrow> suffix ''/'' s \<Longrightarrow> suffix ''/'' d"
proof (induction rule: decodes.induct)
  case (decodes_escape a x b y cs ds)
  have "hex_val (CHR ''/'') = None" by code_simp
  then have "b \<noteq> CHR ''/''" using decodes_escape(2) by auto
  then have "suffix ''/'' cs" using decodes_escape(5) by (cases cs) (auto simp: suffix_Cons)
  with decodes_escape(4) show ?case by (simp add: suffix_Cons)
next
  case (decodes_plain c cs ds)
  show ?case
  proof (cases cs)
    case Nil
    with decodes_plain show ?thesis by (auto simp: suffix_Cons elim: decodes.cases)
  next
    case (Cons c' cs')
    with decodes_plain have "suffix ''/'' cs" by (auto simp: suffix_Cons)
    with decodes_plain show ?thesis by (simp add: suffix_Cons)
  qed
qed simp

lemma prefix_matches_decoded:
  assumes "prefix_matches p t" and "decodes p dp"
  shows "prefix_matches (pct_decode p) (pct_decode t)"
proof (cases "t = p")
  case False
  with assms(1) obtain r where t: "t = p @ r" and b: "suffix ''/'' p \<or> byte_at t (length p) = Some CHR ''/''"
    by (auto simp: prefix_matches_def elim: prefixE)
  from decodes_pct_decode [OF assms(2), of r] t have d: "pct_decode t = dp @ pct_decode r" by simp
  from b show ?thesis
  proof
    assume "suffix ''/'' p"
    with d decodes_suffix_slash [OF assms(2)] show ?thesis
      by (simp add: prefix_matches_def decodes_self [OF assms(2)])
  next
    assume "byte_at t (length p) = Some CHR ''/''"
    then obtain r' where "r = CHR ''/'' # r'" using t by (cases r) auto
    with d show ?thesis by (simp add: prefix_matches_def decodes_self [OF assms(2)])
  qed
qed (simp add: prefix_matches_def)

lemma check_target_cases:
  assumes "check_target_syntax t = Inr ()"
  obtains d where "decodes (target_path t) d"
  using check_target_syntax_decodes [OF assms] decodes_takeWhile by (auto simp: target_path_def)

text \<open>
  C4: an accepted target stays below an allowed prefix however the upstream reads it. Its path, decoded, is
  below a decoded prefix at a segment boundary; and every reading of it (decoded, and with UTF-8 paths the
  NFKC form of that) is what a second decoding leaves unchanged and what following its dot segments leaves
  unchanged, for a server that splits at slashes or backslashes and cuts segments at parameters, a query or
  a fragment, blanks in a dot segment ignored. The prefixes are those that configuration loading accepts.
\<close>

theorem accepted_target_is_confined:
  assumes "check_target nfkc up t = Some (Inr ())"
    and "\<forall>p \<in> set (hu_allow_paths up). check_prefix nfkc p (hu_path_params up) (hu_path_encoding up) = Some (Inr ())"
    and "set seps \<subseteq> {CHR ''/'', CHR 0x5C}" and "set cuts \<subseteq> {CHR '';'', CHR ''?'', CHR ''#''}"
  shows "list_ex (\<lambda>p. prefix_matches (pct_decode p) (pct_decode (target_path t))) (hu_allow_paths up) \<and>
    list_all (reading_is_plain seps cuts) (path_readings nfkc (hu_path_encoding up) (target_path t))"
proof
  from assms(1) have syn: "check_target_syntax t = Inr ()"
    and path: "check_path nfkc (target_path t) (hu_path_params up) (hu_path_encoding up) = Some (Inr ())"
    and ex: "list_ex (\<lambda>p. prefix_matches p (target_path t)) (hu_allow_paths up)"
    by (auto simp: check_target_def split: sum.splits option.splits if_splits)
  from ex obtain p where p: "p \<in> set (hu_allow_paths up)" "prefix_matches p (target_path t)"
    by (auto simp: list_ex_iff)
  with assms(2) have "check_target_syntax p = Inr ()"
    by (cases "check_target_syntax p") (auto simp: check_prefix_def)
  then obtain dp where "decodes p dp" using check_target_syntax_decodes by blast
  with p show "list_ex (\<lambda>p. prefix_matches (pct_decode p) (pct_decode (target_path t))) (hu_allow_paths up)"
    using prefix_matches_decoded by (auto simp: list_ex_iff)
  from check_target_cases [OF syn] check_path_accepts [OF path _ assms(3,4)]
  show "list_all (reading_is_plain seps cuts) (path_readings nfkc (hu_path_encoding up) (target_path t))" by blast
qed

definition plain_upstream :: http_upstream where
  "plain_upstream = \<lparr>hu_name = ''u'', hu_authority = ''h'', hu_normalised = ''http://h'', hu_allow_paths = [''/api/''],
     hu_path_params = RefuseParams, hu_path_encoding = Utf8Paths, hu_allow_methods = None, hu_allow_uids = None,
     hu_attached = [\<lparr>ah_name = ''X-Key'', ah_lower = ''x-key'', ah_value = ''s''\<rparr>], hu_attach_policy = OverrideAttached, hu_pass_headers = [],
     hu_idempotent_methods = [''GET''], hu_idempotency_key_header = None, hu_max_body_bytes = 10\<rparr>"

theorem accepted_target_is_confined_witness:
  "reading_is_plain [CHR ''/'', CHR 0x5C] '';'' ''/api/a b'' \<and> prefix_matches ''/api/'' ''/api/a b''"
proof -
  have "check_target id plain_upstream ''/api/a%20b?q'' = Some (Inr ())" by code_simp
  moreover have "\<forall>p \<in> set (hu_allow_paths plain_upstream).
      check_prefix id p (hu_path_params plain_upstream) (hu_path_encoding plain_upstream) = Some (Inr ())"
    unfolding Ball_set by code_simp
  moreover have "set [CHR ''/'', CHR 0x5C] \<subseteq> {CHR ''/'', CHR 0x5C}" "set '';'' \<subseteq> {CHR '';'', CHR ''?'', CHR ''#''}" by simp_all
  ultimately have "list_ex (\<lambda>p. prefix_matches (pct_decode p) (pct_decode (target_path ''/api/a%20b?q'')))
      (hu_allow_paths plain_upstream) \<and>
    list_all (reading_is_plain [CHR ''/'', CHR 0x5C] '';'') (path_readings id (hu_path_encoding plain_upstream) (target_path ''/api/a%20b?q''))"
    by (rule accepted_target_is_confined)
  moreover have "pct_decode (target_path ''/api/a%20b?q'') = ''/api/a b''" by code_simp
  moreover have "pct_decode ''/api/'' = ''/api/''" by code_simp
  ultimately show ?thesis by (simp add: path_readings_def plain_upstream_def Let_def)
qed

text \<open>
  C40: validation always gives a verdict. Whatever bytes a worker puts in a request, no check reads past
  the end of the path it walks: the percent syntax checked on the whole target is what the path's decoder
  relies on, and cutting the query off never cuts an escape in two.
\<close>

theorem validation_always_answers: "validate_request nfkc cfg peer_uid req \<noteq> None"
proof -
  have target: "check_target nfkc up t \<noteq> None" for up t
  proof (cases "check_target_syntax t")
    case (Inr u)
    then obtain d where "decodes (target_path t) d" using check_target_cases by (metis old.unit.exhaust)
    from check_path_total [OF this] Inr show ?thesis
      by (auto simp: check_target_def split: option.splits sum.splits)
  qed (simp add: check_target_def)
  show ?thesis
    by (auto simp: validate_request_def target Let_def split: option.splits sum.splits)
qed

subsection \<open>Headers that are sent\<close>

text \<open>A value that cannot end its line, nor smuggle a second one.\<close>

definition one_line :: "string \<Rightarrow> bool" where
  "one_line v \<longleftrightarrow> list_all (\<lambda>b. byte b \<noteq> 13 \<and> byte b \<noteq> 10 \<and> byte b \<noteq> 0) v"

definition framing_headers :: "string list" where
  "framing_headers = [''host'', ''content-length'', ''transfer-encoding'', ''connection'', ''keep-alive'',
     ''proxy-connection'', ''http2-settings'', ''expect'', ''upgrade'', ''proxy-authorization'']"

definition sendable :: "http_upstream \<Rightarrow> string \<times> string \<Rightarrow> bool" where
  "sendable up h \<longleftrightarrow>
     is_token (fst h) 256 \<and> one_line (snd h) \<and>
     \<not> List.member framing_headers (fold_name (fst h)) \<and>
     \<not> attached_names (hu_attached up) (fold_name (fst h)) \<and>
     (List.member (hu_pass_headers up) (fold_name (fst h)) \<or>
      \<not> is_override_header (fold_name (fst h)) \<and> \<not> is_forwarding_header (fold_name (fst h)))"

lemma is_field_value_one_line: "is_field_value v \<Longrightarrow> one_line v"
  by (auto simp: is_field_value_def one_line_def visible_def list_all_iff)

lemma te_passes [simp]: "\<not> is_override_header ''te''" "\<not> is_forwarding_header ''te''"
  by code_simp+

text \<open>One line of the loop: the list of kept indices is left alone or gains this one, which is sendable.\<close>

lemma check_header_keep:
  assumes "check_header up n i h plan = Inr plan'" and "\<not> attached_names (hu_attached up) ''te''"
  shows "hp_keep plan' = hp_keep plan \<or> hp_keep plan' = hp_keep plan @ [i] \<and> sendable up h"
proof (cases h)
  case (Pair name v)
  with assms have "is_token name 256" "one_line v"
    by (auto simp: check_header_def is_field_value_one_line split: if_splits)
  with assms Pair show ?thesis
    unfolding check_header_def sendable_def framing_headers_def
    by (auto simp: Let_def List.member_iff split: if_splits attach_policy.splits)
qed

lemma check_header_list_keep:
  assumes "\<not> attached_names (hu_attached up) ''te''"
  shows "check_header_list up n i hs plan = Inr plan' \<Longrightarrow>
    \<exists>ks. hp_keep plan' = hp_keep plan @ ks \<and> sorted_wrt (<) ks \<and>
      (\<forall>k \<in> set ks. i \<le> k \<and> k - i < length hs \<and> sendable up (hs ! (k - i)))"
proof (induction hs arbitrary: i plan)
  case (Cons h hs)
  then obtain mid where mid: "check_header up n i h plan = Inr mid" "check_header_list up n (i + 1) hs mid = Inr plan'"
    by (auto split: sum.splits)
  from Cons.IH [OF mid(2)] obtain ks where ks: "hp_keep plan' = hp_keep mid @ ks" "sorted_wrt (<) ks"
    and each: "\<forall>k \<in> set ks. i + 1 \<le> k \<and> k - (i + 1) < length hs \<and> sendable up (hs ! (k - (i + 1)))" by blast
  have tail: "i \<le> k \<and> k - i < length (h # hs) \<and> sendable up ((h # hs) ! (k - i))" if "k \<in> set ks" for k
  proof -
    from each that have "i + 1 \<le> k" "k - (i + 1) < length hs" "sendable up (hs ! (k - (i + 1)))" by auto
    moreover from \<open>i + 1 \<le> k\<close> have "k - i = Suc (k - (i + 1))" by simp
    ultimately show ?thesis by simp
  qed
  from check_header_keep [OF mid(1) assms] show ?case
  proof
    assume "hp_keep mid = hp_keep plan"
    with ks tail show ?thesis by (intro exI [of _ ks]) simp
  next
    assume "hp_keep mid = hp_keep plan @ [i] \<and> sendable up h"
    with ks tail each show ?thesis by (intro exI [of _ "i # ks"]) fastforce
  qed
qed simp

lemma attach_line_clean:
  "attach_line n line = Inr h \<Longrightarrow>
     is_token (ah_name h) 256 \<and> one_line (ah_value h) \<and> ah_lower h = fold_name (ah_name h) \<and>
     \<not> is_reserved_attach_name (ah_lower h)"
  by (auto simp: attach_line_def Let_def is_field_value_one_line split: option.splits if_splits)

lemma attach_lines_clean:
  "attach_lines i out raws = Inr hs \<Longrightarrow> list_all P out \<Longrightarrow> (\<And>n line h. attach_line n line = Inr h \<Longrightarrow> P h) \<Longrightarrow>
     list_all P hs"
  by (induction i out raws rule: attach_lines.induct) (auto simp: Let_def split: if_splits sum.splits)

lemma attach_parse_clean:
  "attach_parse bytes = Inr hs \<Longrightarrow>
     list_all (\<lambda>h. is_token (ah_name h) 256 \<and> one_line (ah_value h) \<and> ah_lower h = fold_name (ah_name h) \<and>
       \<not> is_reserved_attach_name (ah_lower h)) hs"
proof -
  assume "attach_parse bytes = Inr hs"
  then have "attach_lines 0 [] (split_on (\<lambda>b. byte b = 10) bytes) = Inr hs"
    unfolding attach_parse_def by (simp split: if_splits)
  from attach_lines_clean [OF this _ attach_line_clean] show ?thesis by simp
qed

text \<open>
  C22: a header a worker sends cannot frame the message, speak for the engine or break its line. Of an
  accepted request, with attached headers as the file's parser gives them, the indices that are sent are in
  order, and each names a line of the request whose name is a token that does not fold to a framing or
  hop-by-hop name, to an attached one, or to an overriding or forwarding one that the upstream does not
  pass; its value has no carriage return, line feed or nul. The attached lines are of that kind too.
\<close>

theorem sent_headers_are_harmless:
  assumes "validate_request nfkc cfg peer_uid req = Some (Inr v)"
    and "attach_parse bytes = Inr (hu_attached (vd_upstream v))"
  shows "sorted_wrt (<) (vd_send_headers v) \<and>
    list_all (\<lambda>k. k < length (hr_headers req) \<and> sendable (vd_upstream v) (hr_headers req ! k)) (vd_send_headers v) \<and>
    list_all (\<lambda>h. is_token (ah_name h) 256 \<and> one_line (ah_value h) \<and>
      \<not> List.member framing_headers (fold_name (ah_name h))) (hu_attached (vd_upstream v))"
proof -
  from attach_parse_clean [OF assms(2)]
  have att: "list_all (\<lambda>h. is_token (ah_name h) 256 \<and> one_line (ah_value h) \<and>
      \<not> List.member framing_headers (fold_name (ah_name h))) (hu_attached (vd_upstream v))"
    and te: "\<not> attached_names (hu_attached (vd_upstream v)) ''te''"
    by (auto simp: list_all_iff attached_names_def list_ex_iff is_reserved_attach_name_def framing_headers_def List.member_iff)
  from assms(1) obtain plan n where "check_headers (vd_upstream v) (hr_headers req) n = Inr plan"
    and keep: "vd_send_headers v = hp_keep plan"
    by (auto simp: validate_request_def Let_def split: option.splits sum.splits if_splits)
  then obtain mid where
    "check_header_list (vd_upstream v) n 0 (hr_headers req) \<lparr>hp_keep = [], hp_overridden = 0, hp_saw_accept_encoding = False\<rparr> = Inr mid"
    and "hp_keep mid = hp_keep plan"
    by (auto simp: check_headers_def split: sum.splits if_splits)
  with check_header_list_keep [OF te this(1)] keep att show ?thesis by (auto simp: list_all_iff)
qed

definition plain_config :: http_config where
  "plain_config = \<lparr>hc_daemon_errors = False, hc_upstreams = [''u'' \<mapsto> Enabled plain_upstream], hc_max_body_bytes = 10\<rparr>"

definition plain_request :: http_request where
  "plain_request = \<lparr>hr_upstream = ''u'', hr_method = ''GET'', hr_target = ''/api/x'', hr_origin = None,
     hr_headers = [(''Host'', ''h''), (''X_Key'', ''mine''), (''Accept'', ''a b'')], hr_body = None,
     hr_idempotent = None, hr_decode = True\<rparr>"

theorem sent_headers_are_harmless_witness:
  "sendable plain_upstream (''Accept'', ''a b'')"
proof -
  define v where "v = \<lparr>vd_upstream = plain_upstream, vd_host = ''h'', vd_send_headers = [2], vd_overridden = 1,
    vd_add_accept_encoding = True, vd_content_length = 0, vd_idempotent = True\<rparr>"
  have up: "upstream_for plain_config ''u'' None = Some plain_upstream" by code_simp
  have m: "check_method plain_upstream ''GET'' = Inr ()" by code_simp
  have tg: "check_target id plain_upstream ''/api/x'' = Some (Inr ())" by code_simp
  have "check_header_list plain_upstream 0 0 (hr_headers plain_request)
      \<lparr>hp_keep = [], hp_overridden = 0, hp_saw_accept_encoding = False\<rparr> =
    Inr \<lparr>hp_keep = [2], hp_overridden = 1, hp_saw_accept_encoding = False\<rparr>" by code_simp
  then have hd: "check_headers plain_upstream (hr_headers plain_request) 0 =
      Inr \<lparr>hp_keep = [2], hp_overridden = 1, hp_saw_accept_encoding = False\<rparr>"
    unfolding check_headers_def by (simp add: plain_request_def attached_names_def plain_upstream_def)
  have "effective_idempotency plain_upstream ''GET'' (hr_headers plain_request) None" by code_simp
  with up m tg hd have "validate_request id plain_config None plain_request = Some (Inr v)"
    by (simp add: validate_request_def v_def plain_request_def plain_config_def plain_upstream_def)
  moreover have "attach_lines 0 [] (split_on (\<lambda>b. byte b = 10) ''X-Key: s'') = Inr (hu_attached plain_upstream)"
    by code_simp
  then have "attach_parse ''X-Key: s'' = Inr (hu_attached (vd_upstream v))"
    by (simp only: attach_parse_def v_def validated.simps) simp
  ultimately have "sorted_wrt (<) (vd_send_headers v) \<and>
    list_all (\<lambda>k. k < length (hr_headers plain_request) \<and> sendable (vd_upstream v) (hr_headers plain_request ! k)) (vd_send_headers v) \<and>
    list_all (\<lambda>h. is_token (ah_name h) 256 \<and> one_line (ah_value h) \<and>
      \<not> List.member framing_headers (fold_name (ah_name h))) (hu_attached (vd_upstream v))"
    by (rule sent_headers_are_harmless)
  then show ?thesis by (simp add: v_def plain_request_def)
qed

end
