(* ===== verification/Http_Rate.thy ===== *)
theory Http_Rate
  imports Ferro_Prelude
begin

text \<open>
  The token bucket of an upstream (\<open>RateBucket\<close> of \<open>ferro-http/src/engine/limits.rs\<close>): GCRA in integer
  nanoseconds since the bucket was made. The 128-bit sums of the code stay far below their width (an
  interval is at most \<open>10 ^ 12\<close>, a burst at most \<open>2 ^ 32\<close>), so they are natural numbers; the narrowing to
  64 and 32 bits is written out.
\<close>

subsection \<open>The bucket\<close>

record rate =
  per_sec_milli :: nat
  burst :: nat
  max_wait_ms :: nat

record rate_bucket =
  rb_interval :: nat
  rb_tolerance :: nat
  rb_max_wait :: nat
  rb_tat :: nat

definition div_ceil :: "nat \<Rightarrow> nat \<Rightarrow> nat" where
  "div_ceil x d = (if x mod d = 0 then x div d else x div d + 1)"

definition ceil_ms :: "nat \<Rightarrow> nat" where
  "ceil_ms ns = min (max (div_ceil ns 1000000) 1) (2 ^ 32 - 1)"

definition rate_new :: "rate \<Rightarrow> rate_bucket" where
  "rate_new r =
     (let interval = div_ceil 1000000000000 (max (per_sec_milli r) 1) in
      \<lparr>rb_interval = interval, rb_tolerance = interval * (max (burst r) 1 - 1),
       rb_max_wait = max_wait_ms r * 1000000, rb_tat = 0\<rparr>)"

datatype rate_decision = AdmitNow | WaitFor nat nat | RefuseFor nat

definition rate_take :: "nat \<Rightarrow> nat \<Rightarrow> rate_bucket \<Rightarrow> rate_decision \<times> rate_bucket" where
  "rate_take t remaining b =
     (let nxt = max (rb_tat b) t;
          wait_ns = nxt - rb_tolerance b - t in
      if wait_ns = 0 then (AdmitNow, b\<lparr>rb_tat := nxt + rb_interval b\<rparr>)
      else
        (let wait = min wait_ns (2 ^ 64 - 1) in
         if min (rb_max_wait b) remaining < wait then (RefuseFor (ceil_ms wait), b)
         else
           (let after = nxt + rb_interval b in (WaitFor wait after, b\<lparr>rb_tat := after\<rparr>))))"

text \<open>\<open>Drop for RateWait\<close>, for a wait that was not kept.\<close>

definition rate_abandon :: "nat \<Rightarrow> rate_bucket \<Rightarrow> rate_bucket" where
  "rate_abandon after b = (if rb_tat b = after then b\<lparr>rb_tat := after - rb_interval b\<rparr> else b)"

subsection \<open>Runs\<close>

text \<open>
  A token is due when the request that took it may go: at once, or when its wait is over. A waiting
  request keeps its token or abandons it.
\<close>

datatype token_state = Pending | Used | GivenUp

record token =
  tok_due :: nat
  tok_after :: nat
  tok_state :: token_state

datatype rate_op = Take nat nat | Keep nat | Abandon nat

fun rate_step :: "rate_op \<Rightarrow> rate_bucket \<times> token list \<Rightarrow> rate_bucket \<times> token list" where
  "rate_step (Take t remaining) (b, ts) =
     (case rate_take t remaining b of
        (AdmitNow, b') \<Rightarrow> (b', ts @ [\<lparr>tok_due = t, tok_after = rb_tat b', tok_state = Used\<rparr>])
      | (WaitFor w after, b') \<Rightarrow> (b', ts @ [\<lparr>tok_due = t + w, tok_after = after, tok_state = Pending\<rparr>])
      | (RefuseFor ms, b') \<Rightarrow> (b', ts))"
| "rate_step (Keep i) (b, ts) =
     (if i < length ts \<and> tok_state (ts ! i) = Pending then (b, ts[i := (ts ! i)\<lparr>tok_state := Used\<rparr>]) else (b, ts))"
| "rate_step (Abandon i) (b, ts) =
     (if i < length ts \<and> tok_state (ts ! i) = Pending
      then (rate_abandon (tok_after (ts ! i)) b, ts[i := (ts ! i)\<lparr>tok_state := GivenUp\<rparr>]) else (b, ts))"

definition rate_run :: "rate_op list \<Rightarrow> rate_bucket \<times> token list \<Rightarrow> rate_bucket \<times> token list" where
  "rate_run ops s = fold rate_step ops s"

subsection \<open>The invariant\<close>

text \<open>
  Every live token has its own slot: the slots lie at least an interval apart and before the bucket's
  next one, and a token is due at most the tolerance before its slot.
\<close>

definition slots_apart :: "nat \<Rightarrow> token list \<Rightarrow> bool" where
  "slots_apart d ts \<longleftrightarrow>
     (\<forall>i j. i < length ts \<and> j < length ts \<and> i \<noteq> j \<and> tok_state (ts ! i) \<noteq> GivenUp \<and> tok_state (ts ! j) \<noteq> GivenUp \<longrightarrow>
        tok_after (ts ! i) + d \<le> tok_after (ts ! j) \<or> tok_after (ts ! j) + d \<le> tok_after (ts ! i))"

definition token_ok :: "nat \<Rightarrow> nat \<Rightarrow> token \<Rightarrow> bool" where
  "token_ok d tol k \<longleftrightarrow> tok_due k + d \<le> tok_after k \<and> tok_after k \<le> tok_due k + tol + d"

definition below :: "nat \<Rightarrow> token list \<Rightarrow> bool" where
  "below tat ts \<longleftrightarrow> list_all (\<lambda>k. tok_state k = GivenUp \<or> tok_after k \<le> tat) ts"

definition bucket_ok :: "nat \<Rightarrow> nat \<Rightarrow> rate_bucket \<Rightarrow> bool" where
  "bucket_ok d tol b \<longleftrightarrow> rb_interval b = d \<and> rb_tolerance b = tol \<and> rb_max_wait b < 2 ^ 64 - 1"

definition rate_ok :: "nat \<Rightarrow> nat \<Rightarrow> rate_bucket \<times> token list \<Rightarrow> bool" where
  "rate_ok d tol s \<longleftrightarrow>
     bucket_ok d tol (fst s) \<and> slots_apart d (snd s) \<and> list_all (token_ok d tol) (snd s) \<and> below (rb_tat (fst s)) (snd s)"

lemma slots_apart_snoc:
  assumes "slots_apart d ts" "list_all (\<lambda>k. tok_state k = GivenUp \<or> tok_after k + d \<le> tok_after n) ts"
  shows "slots_apart d (ts @ [n])"
  using assms unfolding slots_apart_def list_all_length
  by (auto simp: nth_append less_Suc_eq split: if_splits)

lemma slots_apart_update:
  assumes "slots_apart d ts" "tok_after k = tok_after (ts ! i)" "tok_state (ts ! i) = Pending"
  shows "slots_apart d (ts[i := k])"
  unfolding slots_apart_def
proof (intro allI impI, elim conjE)
  fix m n
  assume "m < length (ts[i := k])" "n < length (ts[i := k])" "m \<noteq> n"
    and "tok_state (ts[i := k] ! m) \<noteq> GivenUp" "tok_state (ts[i := k] ! n) \<noteq> GivenUp"
  then have "tok_state (ts ! m) \<noteq> GivenUp" "tok_state (ts ! n) \<noteq> GivenUp" "m < length ts" "n < length ts"
    using assms(3) by (cases "m = i"; cases "n = i"; simp)+
  then have "tok_after (ts ! m) + d \<le> tok_after (ts ! n) \<or> tok_after (ts ! n) + d \<le> tok_after (ts ! m)"
    using assms(1) \<open>m \<noteq> n\<close> unfolding slots_apart_def by blast
  then show "tok_after (ts[i := k] ! m) + d \<le> tok_after (ts[i := k] ! n) \<or>
      tok_after (ts[i := k] ! n) + d \<le> tok_after (ts[i := k] ! m)"
    using assms(2) \<open>m < length ts\<close> \<open>n < length ts\<close> by (cases "m = i"; cases "n = i"; simp)
qed

lemma div_ceil_ge:
  assumes "0 < d"
  shows "x \<le> div_ceil x d * d"
proof (cases "x mod d = 0")
  case True
  then show ?thesis using div_mult_mod_eq [of x d] by (simp add: div_ceil_def)
next
  case False
  then have "div_ceil x d * d = x div d * d + d" by (simp add: div_ceil_def)
  then show ?thesis using div_mult_mod_eq [of x d] mod_less_divisor [OF assms, of x] by linarith
qed

lemma interval_pos: "0 < rb_interval (rate_new r)"
proof -
  have "1000000000000 \<le> rb_interval (rate_new r) * max (per_sec_milli r) 1"
    using div_ceil_ge [of "max (per_sec_milli r) 1" 1000000000000] by (simp add: rate_new_def Let_def)
  then show ?thesis by (cases "rb_interval (rate_new r)") auto
qed

text \<open>What a take that is not refused does, for any bucket whose longest wait fits 64 bits.\<close>

lemma rate_take_token:
  assumes "rate_take t remaining b = (dec, b')"
  shows "case dec of
      AdmitNow \<Rightarrow> b' = b\<lparr>rb_tat := max (rb_tat b) t + rb_interval b\<rparr> \<and>
        max (rb_tat b) t \<le> t + rb_tolerance b
    | WaitFor w after \<Rightarrow> after = max (rb_tat b) t + rb_interval b \<and> b' = b\<lparr>rb_tat := after\<rparr> \<and>
        (rb_max_wait b < 2 ^ 64 - 1 \<longrightarrow> t + w + rb_tolerance b = max (rb_tat b) t) \<and> 0 < w
    | RefuseFor ms \<Rightarrow> b' = b"
  using assms by (auto simp: rate_take_def Let_def split: if_splits)

lemma rate_ok_take:
  assumes "rate_ok d tol (b, ts)"
  shows "rate_ok d tol (rate_step (Take t remaining) (b, ts))"
proof -
  obtain dec b' where dec: "rate_take t remaining b = (dec, b')" by fastforce
  have b: "bucket_ok d tol b" "slots_apart d ts" "list_all (token_ok d tol) ts" "below (rb_tat b) ts"
    using assms by (simp_all add: rate_ok_def)
  let ?nxt = "max (rb_tat b) t"
  have "list_all (\<lambda>k. tok_state k = GivenUp \<or> tok_after k + d \<le> ?nxt + d) ts" "below (?nxt + d) ts"
    using b(4) by (auto simp: below_def list_all_iff)
  then have ok: "rate_ok d tol (b', ts @ [\<lparr>tok_due = due, tok_after = ?nxt + d, tok_state = st\<rparr>])"
    if "b' = b\<lparr>rb_tat := ?nxt + d\<rparr>" "due \<le> ?nxt" "?nxt \<le> due + tol" for due st
    using b that slots_apart_snoc [of d ts "\<lparr>tok_due = due, tok_after = ?nxt + d, tok_state = st\<rparr>"]
    by (simp add: rate_ok_def bucket_ok_def below_def token_ok_def)
  show ?thesis
  proof (cases dec)
    case AdmitNow
    then show ?thesis using rate_take_token [OF dec] ok [of t Used] dec b(1) by (simp add: bucket_ok_def)
  next
    case (WaitFor w after)
    then show ?thesis using rate_take_token [OF dec] ok [of "t + w" Pending] dec b(1) by (simp add: bucket_ok_def)
  next
    case (RefuseFor ms)
    then show ?thesis using rate_take_token [OF dec] dec assms by simp
  qed
qed

lemma below_abandon:
  assumes "slots_apart d ts" "below (rb_tat b) ts" "i < length ts" "tok_state (ts ! i) = Pending" "rb_interval b = d" "0 < d"
  shows "below (rb_tat (rate_abandon (tok_after (ts ! i)) b)) (ts[i := (ts ! i)\<lparr>tok_state := GivenUp\<rparr>])"
  unfolding below_def list_all_length
proof (intro allI impI)
  fix j
  assume "j < length (ts[i := (ts ! i)\<lparr>tok_state := GivenUp\<rparr>])"
  then have j: "j < length ts" by simp
  show "tok_state (ts[i := (ts ! i)\<lparr>tok_state := GivenUp\<rparr>] ! j) = GivenUp \<or>
      tok_after (ts[i := (ts ! i)\<lparr>tok_state := GivenUp\<rparr>] ! j) \<le> rb_tat (rate_abandon (tok_after (ts ! i)) b)"
  proof (cases "i = j \<or> tok_state (ts ! j) = GivenUp")
    case True
    then show ?thesis using j by (cases "i = j") simp_all
  next
    case False
    then have le: "tok_after (ts ! j) \<le> rb_tat b" using assms(2) j by (auto simp: below_def list_all_length)
    have "tok_after (ts ! i) + d \<le> tok_after (ts ! j) \<or> tok_after (ts ! j) + d \<le> tok_after (ts ! i)"
      using assms(1,3,4) False j unfolding slots_apart_def by auto
    then show ?thesis using le False assms(5,6) by (auto simp: rate_abandon_def)
  qed
qed

lemma rate_ok_step:
  assumes "rate_ok d tol s" "0 < d"
  shows "rate_ok d tol (rate_step op s)"
proof (cases op)
  case (Take t remaining)
  then show ?thesis using assms rate_ok_take [of d tol "fst s" "snd s" t remaining] by simp
next
  case (Keep i)
  obtain b ts where s: "s = (b, ts)" by fastforce
  show ?thesis using assms(1) slots_apart_update [of d ts "(ts ! i)\<lparr>tok_state := Used\<rparr>" i]
    by (auto simp: s Keep rate_ok_def below_def list_all_length nth_list_update token_ok_def)
next
  case (Abandon i)
  obtain b ts where s: "s = (b, ts)" by fastforce
  show ?thesis using assms slots_apart_update [of d ts "(ts ! i)\<lparr>tok_state := GivenUp\<rparr>" i] below_abandon [of d ts b i]
    by (auto simp: s Abandon rate_ok_def bucket_ok_def rate_abandon_def list_all_length nth_list_update token_ok_def)
qed

lemma rate_ok_run: "rate_ok d tol s \<Longrightarrow> 0 < d \<Longrightarrow> rate_ok d tol (rate_run ops s)"
  by (induction ops arbitrary: s) (simp_all add: rate_run_def rate_ok_step)

lemma rate_ok_new:
  "max_wait_ms r < 2 ^ 32 \<Longrightarrow> rate_ok (rb_interval (rate_new r)) (rb_tolerance (rate_new r)) (rate_new r, [])"
  by (simp add: rate_ok_def bucket_ok_def slots_apart_def below_def) (simp add: rate_new_def Let_def)

lemma div_apart: "0 < d \<Longrightarrow> m + d \<le> n \<Longrightarrow> m div d + 1 \<le> n div d" for d m n :: nat
  using div_le_mono [of "m + d" n d] div_add_self2 [of d m] by simp

lemma slots_in_window:
  assumes "slots_apart d ts" "0 < d"
  shows "card {i. i < length ts \<and> tok_state (ts ! i) \<noteq> GivenUp \<and> x \<le> tok_after (ts ! i) \<and> tok_after (ts ! i) \<le> x + n} \<le> n div d + 1"
    (is "card ?S \<le> _")
proof -
  let ?f = "\<lambda>i. (tok_after (ts ! i) - x) div d"
  have "inj_on ?f ?S"
  proof (rule inj_onI, rule ccontr)
    fix i j
    assume ij: "i \<in> ?S" "j \<in> ?S" "?f i = ?f j" "i \<noteq> j"
    then have "tok_after (ts ! i) + d \<le> tok_after (ts ! j) \<or> tok_after (ts ! j) + d \<le> tok_after (ts ! i)"
      using assms(1) unfolding slots_apart_def by blast
    then have "tok_after (ts ! i) - x + d \<le> tok_after (ts ! j) - x \<or> tok_after (ts ! j) - x + d \<le> tok_after (ts ! i) - x"
      using ij by auto
    then have "?f i + 1 \<le> ?f j \<or> ?f j + 1 \<le> ?f i"
      using assms(2) div_apart by blast
    then show False using ij(3) by simp
  qed
  moreover have "?f ` ?S \<subseteq> {..n div d}" by (auto intro!: div_le_mono)
  ultimately have "card ?S \<le> card {..n div d}" by (rule card_inj_on_le) simp
  then show ?thesis by simp
qed

text \<open>
  C28: the bucket never over-admits. Whatever requests arrive at whatever instants (in any order, since
  each reads its clock before it takes the lock), wait, keep their tokens or abandon them, the tokens
  used that are due in any window of \<open>len\<close> nanoseconds number at most the burst plus one per whole
  interval; and the interval is never shorter than the configured rate asks for.
\<close>

theorem rate_never_over_admits:
  assumes "max_wait_ms r < 2 ^ 32"
  shows "length (filter (\<lambda>k. tok_state k = Used \<and> from \<le> tok_due k \<and> tok_due k \<le> from + len)
      (snd (rate_run ops (rate_new r, []))))
    \<le> max (burst r) 1 + len div rb_interval (rate_new r) \<and>
    1000000000000 \<le> rb_interval (rate_new r) * max (per_sec_milli r) 1"
proof -
  let ?d = "rb_interval (rate_new r)" let ?tol = "rb_tolerance (rate_new r)"
  obtain b ts where run: "rate_run ops (rate_new r, []) = (b, ts)" by fastforce
  have "rate_ok ?d ?tol (b, ts)" using rate_ok_run [OF rate_ok_new [OF assms] interval_pos] run by metis
  then have ok: "slots_apart ?d ts" "list_all (token_ok ?d ?tol) ts" by (simp_all add: rate_ok_def)
  let ?S = "{i. i < length ts \<and> tok_state (ts ! i) \<noteq> GivenUp \<and> from + ?d \<le> tok_after (ts ! i) \<and>
    tok_after (ts ! i) \<le> from + ?d + (len + ?tol)}"
  have "{i. i < length ts \<and> tok_state (ts ! i) = Used \<and> from \<le> tok_due (ts ! i) \<and> tok_due (ts ! i) \<le> from + len} \<subseteq> ?S"
    using ok(2) by (auto simp: list_all_length token_ok_def)
  then have "length (filter (\<lambda>k. tok_state k = Used \<and> from \<le> tok_due k \<and> tok_due k \<le> from + len) ts) \<le> card ?S"
    by (simp add: length_filter_conv_card card_mono)
  also have "\<dots> \<le> (len + ?tol) div ?d + 1"
    by (rule slots_in_window [OF ok(1) interval_pos])
  also have "\<dots> = max (burst r) 1 + len div ?d"
    using interval_pos [of r] by (simp add: rate_new_def Let_def)
  finally show ?thesis
    using run div_ceil_ge [of "max (per_sec_milli r) 1" 1000000000000] by (simp add: rate_new_def Let_def)
qed

theorem rate_never_over_admits_witness:
  "length (filter (\<lambda>k. tok_state k = Used \<and> 5 \<le> tok_due k \<and> tok_due k \<le> 5 + 2500)
      (snd (rate_run [Take 5 9000, Take 5 9000, Take 6 9000, Abandon 2, Take 7 9000, Keep 3]
         (rate_new \<lparr>per_sec_milli = 1000000000, burst = 2, max_wait_ms = 10\<rparr>, [])))) \<le> 4"
  using rate_never_over_admits [of "\<lparr>per_sec_milli = 1000000000, burst = 2, max_wait_ms = 10\<rparr>" 5 2500
      "[Take 5 9000, Take 5 9000, Take 6 9000, Abandon 2, Take 7 9000, Keep 3]"]
  by (simp add: rate_new_def div_ceil_def)

subsection \<open>What a refusal tells, and what a full bucket gives\<close>

lemma ceil_ms_ge: "ceil_ms ns < 2 ^ 32 - 1 \<Longrightarrow> ns \<le> ceil_ms ns * 1000000"
  using div_ceil_ge [of 1000000 ns] by (auto simp: ceil_ms_def min_def max_def split: if_splits)

lemma take_admits: "fst (rate_take t remaining b) = AdmitNow \<longleftrightarrow> rb_tat b \<le> t + rb_tolerance b"
  by (auto simp: rate_take_def Let_def)

text \<open>
  A refusal's \<open>retry_after_ms\<close> is enough. A refused request changes nothing, and one that arrives that
  many milliseconds later, with no other request in between, gets its token at once (unless the number
  is at its 32-bit ceiling).
\<close>

theorem refused_retry_is_enough:
  assumes "rate_take t remaining b = (RefuseFor ms, b')" "ms < 2 ^ 32 - 1"
  shows "b' = b \<and> fst (rate_take (t + ms * 1000000) remaining' b') = AdmitNow"
proof -
  let ?w = "min (max (rb_tat b) t - rb_tolerance b - t) (2 ^ 64 - 1)"
  have b': "b' = b" and ms: "ms = ceil_ms ?w"
    using assms(1) by (auto simp: rate_take_def Let_def split: if_splits)
  have "?w \<le> ms * 1000000" using ceil_ms_ge assms(2) ms by simp
  moreover have "ms * 1000000 < 2 ^ 64 - 1" using assms(2) by simp
  ultimately have "max (rb_tat b) t - rb_tolerance b - t \<le> ms * 1000000" by linarith
  then have "rb_tat b \<le> t + ms * 1000000 + rb_tolerance b" by linarith
  then show ?thesis using b' by (simp add: take_admits)
qed

theorem refused_retry_is_enough_witness:
  "fst (rate_take (5 + 1 * 1000000) 7 \<lparr>rb_interval = 1000, rb_tolerance = 1000, rb_max_wait = 0, rb_tat = 2005\<rparr>) = AdmitNow"
proof -
  have "rate_take 5 7 \<lparr>rb_interval = 1000, rb_tolerance = 1000, rb_max_wait = 0, rb_tat = 2005\<rparr> =
      (RefuseFor 1, \<lparr>rb_interval = 1000, rb_tolerance = 1000, rb_max_wait = 0, rb_tat = 2005\<rparr>)"
    by (simp add: rate_take_def ceil_ms_def div_ceil_def)
  from refused_retry_is_enough [OF this] show ?thesis by simp
qed

definition takes_at :: "nat \<Rightarrow> nat \<Rightarrow> nat \<Rightarrow> rate_bucket \<Rightarrow> rate_bucket" where
  "takes_at n t remaining b = ((\<lambda>b. snd (rate_take t remaining b)) ^^ n) b"

lemma rate_take_tat:
  "rb_tat b \<le> t + rb_tolerance b \<Longrightarrow> rb_tat (snd (rate_take t remaining b)) = max (rb_tat b) t + rb_interval b"
  "rb_tat b \<le> rb_tat (snd (rate_take t remaining b))"
  "rb_interval (snd (rate_take t remaining b)) = rb_interval b"
  "rb_tolerance (snd (rate_take t remaining b)) = rb_tolerance b"
  by (auto simp: rate_take_def Let_def)

lemma less_tolerance: "k < n \<Longrightarrow> k * d \<le> d * (n - 1)" for d k n :: nat
  by (subst mult.commute, rule mult_le_mono2) simp

lemma takes_at_tat:
  assumes "rb_tat b \<le> t" "rb_tolerance b = rb_interval b * (n - 1)" "0 < n" "0 < rb_interval b"
  shows "rb_interval (takes_at k t remaining b) = rb_interval b \<and> rb_tolerance (takes_at k t remaining b) = rb_tolerance b \<and>
    (k < n \<longrightarrow> max (rb_tat (takes_at k t remaining b)) t = t + k * rb_interval b) \<and>
    (n \<le> k \<longrightarrow> t + n * rb_interval b \<le> rb_tat (takes_at k t remaining b))"
proof (induction k)
  case 0
  then show ?case using assms by (simp add: takes_at_def)
next
  case (Suc k)
  let ?c = "takes_at k t remaining b"
  have step: "takes_at (Suc k) t remaining b = snd (rate_take t remaining ?c)" by (simp add: takes_at_def)
  show ?case
  proof (cases "k < n")
    case True
    then have "max (rb_tat ?c) t = t + k * rb_interval b" using Suc by simp
    moreover have "k * rb_interval b \<le> rb_tolerance b"
      using True assms(2) less_tolerance by simp
    ultimately have "rb_tat ?c \<le> t + rb_tolerance ?c" using Suc by linarith
    from rate_take_tat(1) [OF this, of remaining] have "rb_tat (takes_at (Suc k) t remaining b) = t + Suc k * rb_interval b"
      using step Suc \<open>max (rb_tat ?c) t = t + k * rb_interval b\<close> by simp
    then show ?thesis using step Suc True rate_take_tat(3,4) [of t remaining ?c] mult_le_mono1 [of n "Suc k" "rb_interval b"] by auto
  next
    case False
    then show ?thesis using Suc step rate_take_tat(2) [of ?c t remaining] rate_take_tat(3,4) [of t remaining ?c] by (auto intro: order_trans)
  qed
qed

text \<open>
  A full bucket gives its burst and no more: of requests that arrive at one instant \<open>t\<close>, when all
  earlier tokens are due, exactly the first \<open>RATE_BURST\<close> go at once.
\<close>

theorem full_bucket_gives_burst:
  assumes "rb_tat b \<le> t" "rb_interval b = rb_interval (rate_new r)" "rb_tolerance b = rb_tolerance (rate_new r)"
  shows "fst (rate_take t remaining (takes_at k t remaining b)) = AdmitNow \<longleftrightarrow> k < max (burst r) 1"
proof -
  let ?n = "max (burst r) 1" let ?d = "rb_interval b" let ?c = "takes_at k t remaining b"
  have d: "0 < ?d" "rb_tolerance b = ?d * (?n - 1)" using assms(2,3) interval_pos [of r] by (simp_all add: rate_new_def Let_def)
  note c = takes_at_tat [OF assms(1) d(2) _ d(1), of k remaining, simplified]
  have full: "?n * ?d = rb_tolerance b + ?d" using d(2) by (cases "burst r") (simp_all add: algebra_simps)
  show ?thesis
  proof (cases "k < ?n")
    case True
    then have "k * ?d \<le> rb_tolerance b" using d(2) less_tolerance by simp
    then show ?thesis using True c by (simp add: take_admits) linarith
  next
    case False
    then have "t + ?n * ?d \<le> rb_tat ?c" using c by simp
    then show ?thesis using False c full d(1) by (simp add: take_admits)
  qed
qed

theorem full_bucket_gives_burst_witness:
  "fst (rate_take 9 0 (takes_at 2 9 0 (rate_new \<lparr>per_sec_milli = 1000, burst = 3, max_wait_ms = 0\<rparr>))) = AdmitNow \<and>
   fst (rate_take 9 0 (takes_at 3 9 0 (rate_new \<lparr>per_sec_milli = 1000, burst = 3, max_wait_ms = 0\<rparr>))) \<noteq> AdmitNow"
  using full_bucket_gives_burst [of "rate_new \<lparr>per_sec_milli = 1000, burst = 3, max_wait_ms = 0\<rparr>" 9
      "\<lparr>per_sec_milli = 1000, burst = 3, max_wait_ms = 0\<rparr>" 0]
  by (simp add: rate_new_def Let_def)

end
