(* ===== verification/Http_Breaker.thy ===== *)
theory Http_Breaker
  imports Http_Fate Http_Rate
begin

text \<open>
  The circuit breaker of an upstream (\<open>Breaker\<close> and \<open>BreakerTicket\<close> of \<open>ferro-http/src/engine/limits.rs\<close>) and
  what a request's end means to it. Instants and durations are nanoseconds. The mutex is held for one
  operation at a time, so an operation is one step; recording an outcome is two, the atomic swap of the
  ticket's flag and the settlement under the lock, with anything in between.
\<close>

subsection \<open>State\<close>

datatype breaker_counts = CountConnect | CountConnectTimeout | CountConnectTimeout5xx

datatype breaker_outcome = Success | Counted | Other

datatype breaker_refusal = RefusedOpen nat | ProbeBusy

datatype breaker_st = StClosed nat | StOpen nat | StHalfOpen bool

datatype breaker_state = Closed | Open | HalfOpen

record breaker =
  bk_failures :: nat
  bk_counts :: breaker_counts
  bk_open_for :: nat
  bk_timeout_window :: nat
  bk_st :: breaker_st
  bk_generation :: "64 word"

datatype ticket_kind = ClosedKind "64 word" | ProbeKind

text \<open>
  A ticket with its live handles; \<open>tkt_pending\<close> is an outcome whose recorder has set the flag and not yet
  taken the lock.
\<close>

record ticket =
  tkt_probe :: bool
  tkt_generation :: "64 word"
  tkt_recorded :: bool
  tkt_handles :: nat
  tkt_pending :: "breaker_outcome option"

subsection \<open>Operations\<close>

definition breaker_new :: "nat \<Rightarrow> breaker_counts \<Rightarrow> nat \<Rightarrow> nat \<Rightarrow> breaker" where
  "breaker_new failures counts open_ms timeout_ms =
     \<lparr>bk_failures = max failures 1, bk_counts = counts, bk_open_for = open_ms * 1000000,
      bk_timeout_window = timeout_ms * 1000000, bk_st = StClosed 0, bk_generation = 0\<rparr>"

definition ms_until :: "nat \<Rightarrow> nat \<Rightarrow> nat" where
  "ms_until end now = ceil_ms (end - now)"

definition breaker_state_at :: "nat \<Rightarrow> breaker \<Rightarrow> breaker_state" where
  "breaker_state_at now b =
     (case bk_st b of
        StClosed _ \<Rightarrow> Closed
      | StOpen end \<Rightarrow> if now < end then Open else HalfOpen
      | StHalfOpen _ \<Rightarrow> HalfOpen)"

definition breaker_admit :: "nat \<Rightarrow> breaker \<Rightarrow> (breaker_refusal + ticket) \<times> breaker" where
  "breaker_admit now b =
     (let ticket = (\<lambda>probe g. \<lparr>tkt_probe = probe, tkt_generation = g, tkt_recorded = False, tkt_handles = 1, tkt_pending = None\<rparr>);
          half = (\<lambda>b. case bk_st b of
             StClosed _ \<Rightarrow> (Inr (ticket False (bk_generation b)), b)
           | StHalfOpen True \<Rightarrow> (Inl ProbeBusy, b)
           | _ \<Rightarrow> (Inr (ticket True 0), b\<lparr>bk_st := StHalfOpen True\<rparr>)) in
      case bk_st b of
        StOpen end \<Rightarrow>
          if now < end then (Inl (RefusedOpen (ms_until end now)), b) else half (b\<lparr>bk_st := StHalfOpen False\<rparr>)
      | _ \<Rightarrow> half b)"

definition breaker_settle :: "ticket_kind \<Rightarrow> breaker_outcome \<Rightarrow> nat \<Rightarrow> breaker \<Rightarrow> breaker" where
  "breaker_settle kind outcome now b =
     (case kind of
        ClosedKind g \<Rightarrow>
          if g \<noteq> bk_generation b then b
          else
            (case bk_st b of
               StClosed failures \<Rightarrow>
                 (case outcome of
                    Success \<Rightarrow> b\<lparr>bk_st := StClosed 0\<rparr>
                  | Other \<Rightarrow> b
                  | Counted \<Rightarrow>
                      if bk_failures b \<le> failures + 1
                      then b\<lparr>bk_st := StOpen (now + bk_open_for b), bk_generation := bk_generation b + 1\<rparr>
                      else b\<lparr>bk_st := StClosed (failures + 1)\<rparr>)
             | _ \<Rightarrow> b)
      | ProbeKind \<Rightarrow>
          (case outcome of
             Success \<Rightarrow> b\<lparr>bk_st := StClosed 0\<rparr>
           | Counted \<Rightarrow> b\<lparr>bk_st := StOpen (now + bk_open_for b)\<rparr>
           | Other \<Rightarrow> b\<lparr>bk_st := StHalfOpen False\<rparr>))"

definition ticket_kind_of :: "ticket \<Rightarrow> ticket_kind" where
  "ticket_kind_of t = (if tkt_probe t then ProbeKind else ClosedKind (tkt_generation t))"

text \<open>The two halves of \<open>record_at\<close>.\<close>

definition ticket_record :: "breaker_outcome \<Rightarrow> ticket \<Rightarrow> ticket" where
  "ticket_record outcome t =
     (if tkt_recorded t then t else t\<lparr>tkt_recorded := True, tkt_pending := Some outcome\<rparr>)"

definition ticket_settle :: "nat \<Rightarrow> ticket \<times> breaker \<Rightarrow> ticket \<times> breaker" where
  "ticket_settle now tb =
     (case tb of (t, b) \<Rightarrow>
        (case tkt_pending t of
           None \<Rightarrow> (t, b)
         | Some outcome \<Rightarrow> (t\<lparr>tkt_pending := None\<rparr>, breaker_settle (ticket_kind_of t) outcome now b)))"

definition ticket_drop :: "ticket \<Rightarrow> ticket" where
  "ticket_drop t =
     (let t' = t\<lparr>tkt_handles := tkt_handles t - 1\<rparr> in if tkt_handles t' = 0 then ticket_record Other t' else t')"

definition breaker_recheck :: "nat \<Rightarrow> ticket \<Rightarrow> breaker \<Rightarrow> (breaker_refusal + unit) \<times> ticket" where
  "breaker_recheck now t b =
     (if tkt_probe t then (Inr (), t)
      else
        (case bk_st b of
           StClosed _ \<Rightarrow> (Inr (), t\<lparr>tkt_generation := bk_generation b\<rparr>)
         | StOpen end \<Rightarrow> (Inl (RefusedOpen (if now < end then ms_until end now else 1)), t)
         | StHalfOpen probing \<Rightarrow> (Inl (if probing then ProbeBusy else RefusedOpen 1), t)))"

subsection \<open>Evidence\<close>

definition failure_outcome :: "situation \<Rightarrow> breaker_counts \<Rightarrow> nat option \<Rightarrow> nat \<Rightarrow> breaker_outcome" where
  "failure_outcome s counts sent_for window =
     (if s = SentNoHead SentTimeout \<and> counts \<noteq> CountConnect \<and> (case sent_for of None \<Rightarrow> False | Some t \<Rightarrow> window \<le> t)
      then Counted else Other)"

definition is_connect_class :: "situation \<Rightarrow> bool" where
  "is_connect_class s \<longleftrightarrow>
     s \<in> BeforeDispatch ` {Dns, ConnectRefused, ConnectUnreachable, ConnectTimeout, TlsHandshake}"

definition dial_outcome :: "situation + unit \<Rightarrow> breaker_counts \<Rightarrow> breaker_outcome option" where
  "dial_outcome result counts =
     (case result of
        Inr _ \<Rightarrow> if counts = CountConnect then Some Success else None
      | Inl s \<Rightarrow> if is_connect_class s then Some Counted else None)"

definition head_outcome :: "16 word \<Rightarrow> breaker_counts \<Rightarrow> breaker_outcome" where
  "head_outcome status counts =
     (if counts = CountConnectTimeout5xx \<and> 502 \<le> status \<and> status \<le> 504 then Counted else Success)"

definition record_failure :: "situation \<Rightarrow> nat option \<Rightarrow> breaker \<Rightarrow> ticket \<Rightarrow> ticket" where
  "record_failure s sent_for b t =
     (if failure_outcome s (bk_counts b) sent_for (bk_timeout_window b) = Counted then ticket_record Counted t else t)"

definition record_head :: "16 word \<Rightarrow> breaker \<Rightarrow> ticket \<Rightarrow> ticket" where
  "record_head status b t = ticket_record (head_outcome status (bk_counts b)) t"

definition record_dial :: "situation + unit \<Rightarrow> breaker \<Rightarrow> ticket \<Rightarrow> ticket" where
  "record_dial result b t =
     (case dial_outcome result (bk_counts b) of None \<Rightarrow> t | Some outcome \<Rightarrow> ticket_record outcome t)"

subsection \<open>Every interleaving\<close>

inductive breaker_step :: "breaker \<times> ticket list \<Rightarrow> breaker \<times> ticket list \<Rightarrow> bool" where
  admitted: "breaker_admit now b = (Inr t, b') \<Longrightarrow> breaker_step (b, ts) (b', ts @ [t])"
| refused: "breaker_admit now b = (Inl r, b') \<Longrightarrow> breaker_step (b, ts) (b', ts)"
| cloned: "i < length ts \<Longrightarrow> 0 < tkt_handles (ts ! i) \<Longrightarrow>
    breaker_step (b, ts) (b, ts[i := (ts ! i)\<lparr>tkt_handles := tkt_handles (ts ! i) + 1\<rparr>])"
| failed: "i < length ts \<Longrightarrow> 0 < tkt_handles (ts ! i) \<Longrightarrow>
    breaker_step (b, ts) (b, ts[i := record_failure s sent_for b (ts ! i)])"
| answered: "i < length ts \<Longrightarrow> 0 < tkt_handles (ts ! i) \<Longrightarrow>
    breaker_step (b, ts) (b, ts[i := record_head status b (ts ! i)])"
| dialled: "i < length ts \<Longrightarrow> 0 < tkt_handles (ts ! i) \<Longrightarrow>
    breaker_step (b, ts) (b, ts[i := record_dial result b (ts ! i)])"
| dropped: "i < length ts \<Longrightarrow> 0 < tkt_handles (ts ! i) \<Longrightarrow> breaker_step (b, ts) (b, ts[i := ticket_drop (ts ! i)])"
| settled: "i < length ts \<Longrightarrow> ticket_settle now (ts ! i, b) = (t, b') \<Longrightarrow> breaker_step (b, ts) (b', ts[i := t])"
| rechecked: "i < length ts \<Longrightarrow> 0 < tkt_handles (ts ! i) \<Longrightarrow> breaker_recheck now (ts ! i) b = (r, t) \<Longrightarrow>
    breaker_step (b, ts) (b, ts[i := t])"

inductive breaker_reachable :: "breaker \<Rightarrow> breaker \<times> ticket list \<Rightarrow> bool" for b0 where
  start: "breaker_reachable b0 (b0, [])"
| step: "breaker_reachable b0 s \<Longrightarrow> breaker_step s s' \<Longrightarrow> breaker_reachable b0 s'"

text \<open>A probe that holds the half-open slot: its outcome has not reached the breaker.\<close>

definition holds_slot :: "ticket \<Rightarrow> bool" where
  "holds_slot t \<longleftrightarrow> tkt_probe t \<and> (\<not> tkt_recorded t \<or> tkt_pending t \<noteq> None)"

definition ticket_ok :: "ticket \<Rightarrow> bool" where
  "ticket_ok t \<longleftrightarrow> (tkt_handles t = 0 \<longrightarrow> tkt_recorded t) \<and> (tkt_pending t \<noteq> None \<longrightarrow> tkt_recorded t)"

definition breaker_ok :: "breaker \<times> ticket list \<Rightarrow> bool" where
  "breaker_ok s \<longleftrightarrow>
     (case s of (b, ts) \<Rightarrow>
        length (filter holds_slot ts) = (if bk_st b = StHalfOpen True then 1 else 0) \<and> list_all ticket_ok ts \<and>
        0 < bk_failures b \<and> (\<forall>f. bk_st b = StClosed f \<longrightarrow> f < bk_failures b))"

lemma length_filter_update:
  assumes "i < length xs"
  shows "length (filter P (xs[i := y])) + (if P (xs ! i) then 1 else 0) = length (filter P xs) + (if P y then 1 else 0)"
proof -
  have xs: "xs = take i xs @ xs ! i # drop (Suc i) xs" using assms by (rule id_take_nth_drop)
  have "xs[i := y] = take i xs @ y # drop (Suc i) xs" using assms by (rule upd_conv_take_nth_drop)
  moreover have "length (filter P xs) = length (filter P (take i xs @ xs ! i # drop (Suc i) xs))" using xs by simp
  ultimately show ?thesis by simp
qed

lemma list_all_update: "list_all P xs \<Longrightarrow> P y \<Longrightarrow> list_all P (xs[i := y])"
  by (auto simp: list_all_iff dest: set_update_subset_insert [THEN subsetD])

lemma breaker_ok_update:
  assumes "breaker_ok (b, ts)" "i < length ts" "holds_slot t = holds_slot (ts ! i)" "ticket_ok t"
  shows "breaker_ok (b, ts[i := t])"
  using assms length_filter_update [OF assms(2), of holds_slot t] list_all_update [of ticket_ok ts t i]
  by (simp add: breaker_ok_def)

lemma record_keeps:
  "ticket_ok t \<Longrightarrow> ticket_ok (ticket_record out t)" "ticket_ok t \<Longrightarrow> holds_slot (ticket_record out t) = holds_slot t"
  by (simp_all add: ticket_ok_def holds_slot_def ticket_record_def)

lemma drop_keeps:
  assumes "ticket_ok t"
  shows "ticket_ok (ticket_drop t)" "holds_slot (ticket_drop t) = holds_slot t"
  using assms by (simp_all add: ticket_drop_def ticket_ok_def holds_slot_def ticket_record_def Let_def)

lemma breaker_ok_step: "breaker_step s s' \<Longrightarrow> breaker_ok s \<Longrightarrow> breaker_ok s'"
proof (induction rule: breaker_step.induct)
  case (admitted now b t b' ts)
  then show ?case
    by (auto simp: breaker_ok_def breaker_admit_def Let_def holds_slot_def ticket_ok_def split: breaker_st.splits if_splits bool.splits)
next
  case (refused now b r b' ts)
  then show ?case
    by (auto simp: breaker_ok_def breaker_admit_def Let_def split: breaker_st.splits if_splits bool.splits)
next
  case (cloned i ts b)
  then have "ticket_ok (ts ! i)" by (simp add: breaker_ok_def list_all_length)
  with cloned show ?case by (intro breaker_ok_update) (simp_all add: holds_slot_def ticket_ok_def)
next
  case (failed i ts b s sent_for)
  then have "ticket_ok (ts ! i)" by (simp add: breaker_ok_def list_all_length)
  with failed show ?case by (intro breaker_ok_update) (simp_all add: record_failure_def record_keeps)
next
  case (answered i ts b status)
  then have "ticket_ok (ts ! i)" by (simp add: breaker_ok_def list_all_length)
  with answered show ?case by (intro breaker_ok_update) (simp_all add: record_head_def record_keeps)
next
  case (dialled i ts b result)
  then have "ticket_ok (ts ! i)" by (simp add: breaker_ok_def list_all_length)
  with dialled show ?case
    by (intro breaker_ok_update) (simp_all add: record_dial_def record_keeps split: option.split)
next
  case (dropped i ts b)
  then have "ticket_ok (ts ! i)" by (simp add: breaker_ok_def list_all_length)
  with dropped show ?case by (intro breaker_ok_update) (simp_all add: drop_keeps)
next
  case (settled i ts now b t b')
  have ok: "ticket_ok (ts ! i)" using settled by (simp add: breaker_ok_def list_all_length)
  show ?case
  proof (cases "tkt_pending (ts ! i)")
    case None
    then show ?thesis using settled by (auto simp: ticket_settle_def)
  next
    case (Some out)
    then have t: "t = (ts ! i)\<lparr>tkt_pending := None\<rparr>" and b': "b' = breaker_settle (ticket_kind_of (ts ! i)) out now b"
      using settled(2) by (simp_all add: ticket_settle_def)
    have "ticket_ok t" "\<not> holds_slot t" using ok Some by (simp_all add: t ticket_ok_def holds_slot_def)
    then have n: "length (filter holds_slot (ts[i := t])) + (if holds_slot (ts ! i) then 1 else 0) = length (filter holds_slot ts)"
      and l: "list_all ticket_ok (ts[i := t])"
      using length_filter_update [OF settled(1), of holds_slot t] list_all_update [of ticket_ok ts t i] settled(3)
      by (simp_all add: breaker_ok_def)
    show ?thesis
    proof (cases "tkt_probe (ts ! i)")
      case True
      then have "holds_slot (ts ! i)" using Some by (simp add: holds_slot_def)
      then show ?thesis using n l settled(3) True
        by (simp add: breaker_ok_def b' ticket_kind_of_def breaker_settle_def split: breaker_outcome.split if_splits)
    next
      case False
      then have "\<not> holds_slot (ts ! i)" by (simp add: holds_slot_def)
      then show ?thesis using n l settled(3) False
        by (auto simp: breaker_ok_def b' ticket_kind_of_def breaker_settle_def split: breaker_outcome.split breaker_st.splits if_splits)
    qed
  qed
next
  case (rechecked i ts now b r t)
  then have "ticket_ok (ts ! i)" by (simp add: breaker_ok_def list_all_length)
  moreover have "holds_slot t = holds_slot (ts ! i)" "ticket_ok t = ticket_ok (ts ! i)"
    using rechecked(3) by (auto simp: breaker_recheck_def holds_slot_def ticket_ok_def split: if_splits breaker_st.splits)
  ultimately show ?case using rechecked by (intro breaker_ok_update) simp_all
qed

lemma breaker_reachable_ok:
  assumes "breaker_reachable (breaker_new k counts open_ms timeout_ms) s"
  shows "breaker_ok s"
  using assms
proof (induction rule: breaker_reachable.induct)
  case start
  then show ?case by (simp add: breaker_ok_def breaker_new_def)
next
  case (step s s')
  then show ?case using breaker_ok_step by blast
qed

text \<open>
  C23: a half-open breaker has one probe, and its slot never leaks. However requests are admitted, their
  handles cloned, dropped and rechecked, and their outcomes recorded and settled, the slot is taken
  exactly while one probe's outcome is still to come; and once every handle is dropped and every
  outcome settled it is free, whatever ended the requests. A closed breaker has counted fewer failures
  than its threshold.
\<close>

theorem probe_slot_exact:
  assumes "breaker_reachable (breaker_new k counts open_ms timeout_ms) (b, ts)"
  shows "length (filter holds_slot ts) = (if bk_st b = StHalfOpen True then 1 else 0) \<and>
    (list_all (\<lambda>t. tkt_handles t = 0 \<and> tkt_pending t = None) ts \<longrightarrow> bk_st b \<noteq> StHalfOpen True) \<and>
    (case bk_st b of StClosed f \<Rightarrow> f < max k 1 | _ \<Rightarrow> True)"
proof -
  have ok: "breaker_ok (b, ts)" using assms by (rule breaker_reachable_ok)
  have "bk_failures b = max k 1" using assms
  proof (induction "(b, ts)" arbitrary: b ts rule: breaker_reachable.induct)
    case start
    then show ?case by (simp add: breaker_new_def)
  next
    case (step s b ts)
    obtain b1 ts1 where s: "s = (b1, ts1)" by fastforce
    have "bk_failures b = bk_failures b1" using step(3) unfolding s
      by cases (auto simp: breaker_admit_def Let_def ticket_settle_def breaker_settle_def
          split: breaker_st.splits if_splits bool.splits option.splits ticket_kind.splits breaker_outcome.splits)
    then show ?case using step(2) s by simp
  qed
  moreover have "filter holds_slot ts = []" if "list_all (\<lambda>t. tkt_handles t = 0 \<and> tkt_pending t = None) ts"
    using that ok by (auto simp: breaker_ok_def filter_empty_conv list_all_iff holds_slot_def ticket_ok_def)
  ultimately show ?thesis using ok by (auto simp: breaker_ok_def split: breaker_st.split if_splits)
qed

definition demo_breaker :: breaker where
  "demo_breaker = breaker_new 1 CountConnect 1 1"

definition demo_probe :: "breaker \<times> ticket list" where
  "demo_probe =
     (demo_breaker\<lparr>bk_st := StHalfOpen True, bk_generation := 1\<rparr>,
      [\<lparr>tkt_probe = False, tkt_generation = 0, tkt_recorded = True, tkt_handles = 1, tkt_pending = None\<rparr>,
       \<lparr>tkt_probe = True, tkt_generation = 0, tkt_recorded = False, tkt_handles = 1, tkt_pending = None\<rparr>])"

lemma demo_probe_reachable: "breaker_reachable demo_breaker demo_probe"
proof -
  let ?t = "\<lambda>rec pend. \<lparr>tkt_probe = False, tkt_generation = 0, tkt_recorded = rec, tkt_handles = 1, tkt_pending = pend\<rparr>"
  let ?b = "demo_breaker\<lparr>bk_st := StOpen 1000000, bk_generation := 1\<rparr>"
  note defs = demo_breaker_def breaker_new_def breaker_admit_def Let_def
  have "breaker_step (demo_breaker, []) (demo_breaker, [] @ [?t False None])"
    by (rule breaker_step.admitted [of 0]) (simp add: defs)
  then have "breaker_reachable demo_breaker (demo_breaker, [?t False None])"
    using breaker_reachable.start breaker_reachable.step by fastforce
  moreover have "breaker_step (demo_breaker, [?t False None])
      (demo_breaker, [?t False None][0 := record_dial (Inl (BeforeDispatch Dns)) demo_breaker ([?t False None] ! 0)])"
    by (rule breaker_step.dialled) simp_all
  ultimately have "breaker_reachable demo_breaker (demo_breaker, [?t True (Some Counted)])"
    using breaker_reachable.step
    by (fastforce simp: record_dial_def dial_outcome_def is_connect_class_def ticket_record_def)
  moreover have "breaker_step (demo_breaker, [?t True (Some Counted)]) (?b, [?t True (Some Counted)][0 := ?t True None])"
    by (rule breaker_step.settled [of _ _ 0])
      (simp_all add: ticket_settle_def ticket_kind_of_def breaker_settle_def demo_breaker_def breaker_new_def)
  ultimately have "breaker_reachable demo_breaker (?b, [?t True None])" using breaker_reachable.step by fastforce
  moreover have "breaker_step (?b, [?t True None]) demo_probe" unfolding demo_probe_def
    using breaker_step.admitted [of 1000000 ?b _ _ "[?t True None]"] by (simp add: defs)
  ultimately show ?thesis using breaker_reachable.step by blast
qed

theorem probe_slot_exact_witness: "length (filter holds_slot (snd demo_probe)) = 1"
proof -
  have "breaker_reachable (breaker_new 1 CountConnect 1 1) (fst demo_probe, snd demo_probe)"
    using demo_probe_reachable by (simp add: demo_breaker_def)
  from probe_slot_exact [OF this] show ?thesis by (simp add: demo_probe_def)
qed

subsection \<open>When it opens\<close>

text \<open>The counted failures since the last success.\<close>

definition streak :: "breaker_outcome list \<Rightarrow> nat" where
  "streak outs = length (filter (\<lambda>x. x = Counted) (takeWhile (\<lambda>x. x \<noteq> Success) (rev outs)))"

definition settle_all :: "64 word \<Rightarrow> nat \<Rightarrow> breaker_outcome list \<Rightarrow> breaker \<Rightarrow> breaker" where
  "settle_all g now outs b = fold (\<lambda>out. breaker_settle (ClosedKind g) out now) outs b"

lemma streak_snoc: "streak (outs @ [x]) = (case x of Success \<Rightarrow> 0 | Counted \<Rightarrow> streak outs + 1 | Other \<Rightarrow> streak outs)"
  by (cases x) (simp_all add: streak_def)

lemma settle_all_snoc: "settle_all g now (outs @ [x]) b = breaker_settle (ClosedKind g) x now (settle_all g now outs b)"
  by (simp add: settle_all_def)

lemma settle_all_closed:
  assumes "bk_st b = StClosed 0" "bk_generation b = 0" "bk_failures b = m" "0 < m"
  shows "settle_all 0 now outs b =
     b\<lparr>bk_st := if list_ex (\<lambda>p. m \<le> streak p) (prefixes outs) then StOpen (now + bk_open_for b) else StClosed (streak outs),
       bk_generation := if list_ex (\<lambda>p. m \<le> streak p) (prefixes outs) then 1 else 0\<rparr>"
proof (induction outs rule: rev_induct)
  case Nil
  then show ?case using assms by (simp add: settle_all_def streak_def)
next
  case (snoc x outs)
  show ?case
  proof (cases "list_ex (\<lambda>p. m \<le> streak p) (prefixes outs)")
    case True
    then show ?thesis using snoc by (simp add: settle_all_snoc prefixes_snoc breaker_settle_def)
  next
    case False
    moreover have "outs \<in> set (prefixes outs)" by simp
    ultimately have "streak outs < m" unfolding list_ex_iff by (meson not_le)
    then show ?thesis using snoc False assms(3,4)
      by (cases x) (simp_all add: settle_all_snoc prefixes_snoc streak_snoc breaker_settle_def)
  qed
qed

text \<open>
  A breaker opens after its threshold of consecutive counted failures and not before. Over the
  outcomes of one closed period it is open exactly when, at some point, the counted failures since the
  last success reached the threshold; until then it counts exactly those.
\<close>

theorem breaker_opens_on_streak:
  "bk_st (settle_all 0 now outs (breaker_new k counts open_ms timeout_ms)) =
     (if list_ex (\<lambda>p. max k 1 \<le> streak p) (prefixes outs) then StOpen (now + open_ms * 1000000)
      else StClosed (streak outs))"
  by (subst settle_all_closed [of _ "max k 1"]) (simp_all add: breaker_new_def)

end
