(* ===== verification/Http_Budget.thy ===== *)
theory Http_Budget
  imports Flow
begin

text \<open>
  Request-body budgets (\<open>ferro-http/src/engine/budget.rs\<close>): a charge against an upstream's account and the
  daemon's, held by the exchange and by the body's bytes, and released once by whichever drops first.
  Each atomic operation on an account is one step, so a charge and a release are several, and other
  requests run in between.
\<close>

subsection \<open>Accounts\<close>

record account =
  ac_limit :: "64 word"
  ac_used :: "64 word"

definition account_new :: "64 word \<Rightarrow> account" where
  "account_new limit = \<lparr>ac_limit = limit, ac_used = 0\<rparr>"

definition account_try_take :: "64 word \<Rightarrow> account \<Rightarrow> account option" where
  "account_try_take n a =
     (case checked_add (ac_used a) n of
        Some next \<Rightarrow> if next \<le> ac_limit a then Some (a\<lparr>ac_used := next\<rparr>) else None
      | None \<Rightarrow> None)"

definition account_give :: "64 word \<Rightarrow> account \<Rightarrow> account" where
  "account_give n a = a\<lparr>ac_used := ac_used a - n\<rparr>"

record budgets =
  bg_daemon :: account
  bg_upstreams :: "string \<rightharpoonup> account"

definition budgets_new :: "64 word \<Rightarrow> (string \<times> 64 word) list \<Rightarrow> budgets" where
  "budgets_new daemon_limit enabled =
     \<lparr>bg_daemon = account_new daemon_limit, bg_upstreams = map_of (map (\<lambda>(name, limit). (name, account_new limit)) enabled)\<rparr>"

definition in_use :: "string \<Rightarrow> budgets \<Rightarrow> 64 word" where
  "in_use u g = (case bg_upstreams g u of None \<Rightarrow> 0 | Some a \<Rightarrow> ac_used a)"

subsection \<open>Charges\<close>

text \<open>
  Where a charge is: taken from the upstream and not yet from the daemon; refused by the daemon, so to be
  given back; live; released, with one or both accounts still to be given their bytes; over.
\<close>

datatype charge_phase = Taking | Refused | Live | GivingUpstream | GivingDaemon | Over

record charge =
  ch_upstream :: string
  ch_n :: "64 word"
  ch_holders :: nat
  ch_phase :: charge_phase

definition holds_upstream :: "string \<Rightarrow> charge \<Rightarrow> bool" where
  "holds_upstream u c \<longleftrightarrow> ch_upstream c = u \<and> ch_phase c \<in> {Taking, Refused, Live, GivingUpstream}"

definition holds_daemon :: "charge \<Rightarrow> bool" where
  "holds_daemon c \<longleftrightarrow> ch_phase c \<in> {Live, GivingUpstream, GivingDaemon}"

definition give_upstream :: "string \<Rightarrow> 64 word \<Rightarrow> budgets \<Rightarrow> budgets" where
  "give_upstream u n g =
     g\<lparr>bg_upstreams := (bg_upstreams g)(u := map_option (account_give n) (bg_upstreams g u))\<rparr>"

text \<open>The drop of one holder: the first one starts the release.\<close>

definition drop_holder :: "charge \<Rightarrow> charge" where
  "drop_holder c =
     c\<lparr>ch_holders := ch_holders c - 1, ch_phase := if ch_phase c = Live then GivingUpstream else ch_phase c\<rparr>"

inductive budget_step :: "budgets \<times> charge list \<Rightarrow> budgets \<times> charge list \<Rightarrow> bool" where
  take_upstream: "n \<noteq> 0 \<Longrightarrow> bg_upstreams g u = Some a \<Longrightarrow> account_try_take n a = Some a' \<Longrightarrow>
    budget_step (g, cs) (g\<lparr>bg_upstreams := (bg_upstreams g)(u \<mapsto> a')\<rparr>,
      cs @ [\<lparr>ch_upstream = u, ch_n = n, ch_holders = 0, ch_phase = Taking\<rparr>])"
| take_daemon: "i < length cs \<Longrightarrow> ch_phase (cs ! i) = Taking \<Longrightarrow> account_try_take (ch_n (cs ! i)) (bg_daemon g) = Some a \<Longrightarrow>
    budget_step (g, cs) (g\<lparr>bg_daemon := a\<rparr>, cs[i := (cs ! i)\<lparr>ch_holders := 1, ch_phase := Live\<rparr>])"
| daemon_refuses: "i < length cs \<Longrightarrow> ch_phase (cs ! i) = Taking \<Longrightarrow> account_try_take (ch_n (cs ! i)) (bg_daemon g) = None \<Longrightarrow>
    budget_step (g, cs) (g, cs[i := (cs ! i)\<lparr>ch_phase := Refused\<rparr>])"
| give_back: "i < length cs \<Longrightarrow> ch_phase (cs ! i) = Refused \<Longrightarrow>
    budget_step (g, cs) (give_upstream (ch_upstream (cs ! i)) (ch_n (cs ! i)) g, cs[i := (cs ! i)\<lparr>ch_phase := Over\<rparr>])"
| wrap_body: "i < length cs \<Longrightarrow> 0 < ch_holders (cs ! i) \<Longrightarrow>
    budget_step (g, cs) (g, cs[i := (cs ! i)\<lparr>ch_holders := ch_holders (cs ! i) + 1\<rparr>])"
| drop_one: "i < length cs \<Longrightarrow> 0 < ch_holders (cs ! i) \<Longrightarrow> budget_step (g, cs) (g, cs[i := drop_holder (cs ! i)])"
| release_upstream: "i < length cs \<Longrightarrow> ch_phase (cs ! i) = GivingUpstream \<Longrightarrow>
    budget_step (g, cs) (give_upstream (ch_upstream (cs ! i)) (ch_n (cs ! i)) g, cs[i := (cs ! i)\<lparr>ch_phase := GivingDaemon\<rparr>])"
| release_daemon: "i < length cs \<Longrightarrow> ch_phase (cs ! i) = GivingDaemon \<Longrightarrow>
    budget_step (g, cs) (g\<lparr>bg_daemon := account_give (ch_n (cs ! i)) (bg_daemon g)\<rparr>, cs[i := (cs ! i)\<lparr>ch_phase := Over\<rparr>])"

inductive budget_reachable :: "budgets \<Rightarrow> budgets \<times> charge list \<Rightarrow> bool" for g0 where
  start: "budget_reachable g0 (g0, [])"
| step: "budget_reachable g0 s \<Longrightarrow> budget_step s s' \<Longrightarrow> budget_reachable g0 s'"

subsection \<open>The accounts are exact\<close>

definition held :: "(charge \<Rightarrow> bool) \<Rightarrow> charge list \<Rightarrow> nat" where
  "held P cs = sum_list (map (\<lambda>c. if P c then unat (ch_n c) else 0) cs)"

definition account_ok :: "account \<Rightarrow> nat \<Rightarrow> bool" where
  "account_ok a h \<longleftrightarrow> unat (ac_used a) = h \<and> ac_used a \<le> ac_limit a"

definition budget_ok :: "budgets \<times> charge list \<Rightarrow> bool" where
  "budget_ok s \<longleftrightarrow>
     (case s of (g, cs) \<Rightarrow>
        account_ok (bg_daemon g) (held holds_daemon cs) \<and>
        (\<forall>u. case bg_upstreams g u of None \<Rightarrow> held (holds_upstream u) cs = 0 | Some a \<Rightarrow> account_ok a (held (holds_upstream u) cs)) \<and>
        list_all (\<lambda>c. 0 < ch_n c) cs)"

lemma held_snoc [simp]: "held P (cs @ [c]) = held P cs + (if P c then unat (ch_n c) else 0)"
  by (simp add: held_def)

lemma held_update:
  assumes "i < length cs" "ch_n c = ch_n (cs ! i)"
  shows "held P (cs[i := c]) + (if P (cs ! i) then unat (ch_n (cs ! i)) else 0) = held P cs + (if P c then unat (ch_n (cs ! i)) else 0)"
proof -
  have "cs = take i cs @ cs ! i # drop (Suc i) cs" using assms(1) by (rule id_take_nth_drop)
  then have "held P cs = held P (take i cs) + (if P (cs ! i) then unat (ch_n (cs ! i)) else 0) + held P (drop (Suc i) cs)"
    unfolding held_def by (metis (no_types, lifting) add.assoc list.simps(9) map_append sum_list.Cons sum_list_append)
  moreover have "cs[i := c] = take i cs @ c # drop (Suc i) cs" using assms(1) by (rule upd_conv_take_nth_drop)
  then have "held P (cs[i := c]) = held P (take i cs) + (if P c then unat (ch_n (cs ! i)) else 0) + held P (drop (Suc i) cs)"
    using assms(2) by (simp add: held_def)
  ultimately show ?thesis by simp
qed

lemma held_same:
  "i < length cs \<Longrightarrow> ch_n c = ch_n (cs ! i) \<Longrightarrow> P c = P (cs ! i) \<Longrightarrow> held P (cs[i := c]) = held P cs"
  using held_update [of i cs c P] by simp

lemma take_ok:
  assumes "account_ok a h" "account_try_take n a = Some a'"
  shows "account_ok a' (h + unat n)"
proof -
  have nx: "checked_add (ac_used a) n = Some (ac_used a')" "ac_used a' \<le> ac_limit a'" "ac_limit a' = ac_limit a"
    using assms(2) by (auto simp: account_try_take_def split: option.splits if_splits)
  then have "unat (ac_used a') = unat (ac_used a) + unat n"
    using unat_plus [of "ac_used a" n] by (auto simp: checked_add_def split: if_splits)
  then show ?thesis using nx assms(1) by (simp add: account_ok_def)
qed

lemma give_ok:
  assumes "account_ok a (h + unat n)"
  shows "account_ok (account_give n a) h"
proof -
  have le: "n \<le> ac_used a" using assms by (simp add: account_ok_def word_le_nat_alt)
  then have "unat (ac_used a - n) = h" using assms by (simp add: account_ok_def unat_sub)
  then show ?thesis using assms by (simp add: account_ok_def account_give_def word_le_nat_alt)
qed

definition upstream_ok :: "budgets \<Rightarrow> charge list \<Rightarrow> string \<Rightarrow> bool" where
  "upstream_ok g cs u \<longleftrightarrow>
     (case bg_upstreams g u of None \<Rightarrow> held (holds_upstream u) cs = 0 | Some a \<Rightarrow> account_ok a (held (holds_upstream u) cs))"

lemma budget_ok_iff:
  "budget_ok (g, cs) \<longleftrightarrow>
     account_ok (bg_daemon g) (held holds_daemon cs) \<and> (\<forall>u. upstream_ok g cs u) \<and> list_all (\<lambda>c. 0 < ch_n c) cs"
  by (simp add: budget_ok_def upstream_ok_def)

lemma list_all_charge_update:
  "list_all (\<lambda>c. 0 < ch_n c) cs \<Longrightarrow> i < length cs \<Longrightarrow> ch_n c = ch_n (cs ! i) \<Longrightarrow> list_all (\<lambda>c. 0 < ch_n c) (cs[i := c])"
  by (simp add: list_all_length nth_list_update)

lemma held_pos: "i < length cs \<Longrightarrow> P (cs ! i) \<Longrightarrow> 0 < ch_n (cs ! i) \<Longrightarrow> 0 < held P cs"
  unfolding held_def by (rule ccontr) (auto simp: sum_list_eq_0_iff set_conv_nth word_greater_zero_iff unat_eq_0 split: if_splits)

lemma upstream_ok_give:
  assumes "upstream_ok g cs v" "i < length cs" "holds_upstream (ch_upstream (cs ! i)) (cs ! i)" "0 < ch_n (cs ! i)"
    and "ch_upstream c = ch_upstream (cs ! i)" "ch_n c = ch_n (cs ! i)" "\<not> holds_upstream (ch_upstream (cs ! i)) c"
  shows "upstream_ok (give_upstream (ch_upstream (cs ! i)) (ch_n (cs ! i)) g) (cs[i := c]) v"
proof (cases "v = ch_upstream (cs ! i)")
  case False
  then have "held (holds_upstream v) (cs[i := c]) = held (holds_upstream v) cs"
    using assms(2,5,6) by (intro held_same) (auto simp: holds_upstream_def)
  then show ?thesis using assms(1) False by (simp add: upstream_ok_def give_upstream_def split: option.splits)
next
  case True
  have "held (holds_upstream v) cs = held (holds_upstream v) (cs[i := c]) + unat (ch_n (cs ! i))"
    using held_update [OF assms(2,6), of "holds_upstream v"] assms(3,7) True by simp
  then show ?thesis using assms(1) True held_pos [OF assms(2) _ assms(4), of "holds_upstream v"] assms(3) give_ok
    by (auto simp: upstream_ok_def give_upstream_def split: option.splits)
qed

lemma upstream_ok_same:
  assumes "upstream_ok g cs v" "i < length cs" "ch_upstream c = ch_upstream (cs ! i)" "ch_n c = ch_n (cs ! i)"
    and "holds_upstream (ch_upstream (cs ! i)) c = holds_upstream (ch_upstream (cs ! i)) (cs ! i)"
  shows "upstream_ok g (cs[i := c]) v"
proof -
  have "held (holds_upstream v) (cs[i := c]) = held (holds_upstream v) cs"
    using assms by (intro held_same) (auto simp: holds_upstream_def)
  then show ?thesis using assms(1) by (simp add: upstream_ok_def split: option.splits)
qed

lemma upstream_ok_daemon [simp]: "upstream_ok (g\<lparr>bg_daemon := a\<rparr>) cs v = upstream_ok g cs v"
  by (simp add: upstream_ok_def)

lemma daemon_give_upstream [simp]: "bg_daemon (give_upstream u n g) = bg_daemon g"
  by (simp add: give_upstream_def)

lemma budget_ok_step: "budget_step s s' \<Longrightarrow> budget_ok s \<Longrightarrow> budget_ok s'"
proof (induction rule: budget_step.induct)
  case (take_upstream n g u a a' cs)
  have "account_ok a (held (holds_upstream u) cs)" using take_upstream(2,4) unfolding budget_ok_iff upstream_ok_def by (metis option.simps(5))
  then have "account_ok a' (held (holds_upstream u) cs + unat n)" using take_ok take_upstream(3) by blast
  then have "upstream_ok (g\<lparr>bg_upstreams := (bg_upstreams g)(u \<mapsto> a')\<rparr>)
      (cs @ [\<lparr>ch_upstream = u, ch_n = n, ch_holders = 0, ch_phase = Taking\<rparr>]) v" for v
    using take_upstream(4) [unfolded budget_ok_iff, THEN conjunct2, THEN conjunct1, THEN spec, of v]
    by (cases "v = u"; cases "bg_upstreams g v") (simp_all add: upstream_ok_def holds_upstream_def)
  then show ?case using take_upstream(1,4) by (simp add: budget_ok_iff holds_daemon_def word_greater_zero_iff)
next
  case (take_daemon i cs g a)
  then show ?case
    using take_ok [OF _ take_daemon(3)] held_update [of i cs "(cs ! i)\<lparr>ch_holders := 1, ch_phase := Live\<rparr>" holds_daemon]
    by (simp add: budget_ok_iff list_all_charge_update upstream_ok_same holds_upstream_def holds_daemon_def)
next
  case (daemon_refuses i cs g)
  then show ?case
    by (simp add: budget_ok_iff list_all_charge_update upstream_ok_same holds_upstream_def holds_daemon_def held_same)
next
  case (give_back i cs g)
  then have "0 < ch_n (cs ! i)" by (simp add: budget_ok_iff list_all_length)
  with give_back show ?case
    by (simp add: budget_ok_iff list_all_charge_update upstream_ok_give holds_upstream_def holds_daemon_def held_same)
next
  case (wrap_body i cs g)
  then show ?case
    by (simp add: budget_ok_iff list_all_charge_update upstream_ok_same holds_upstream_def holds_daemon_def held_same)
next
  case (drop_one i cs g)
  then show ?case
    by (simp add: budget_ok_iff list_all_charge_update upstream_ok_same holds_upstream_def holds_daemon_def held_same drop_holder_def)
next
  case (release_upstream i cs g)
  then have "0 < ch_n (cs ! i)" by (simp add: budget_ok_iff list_all_length)
  with release_upstream show ?case
    by (simp add: budget_ok_iff list_all_charge_update upstream_ok_give holds_upstream_def holds_daemon_def held_same)
next
  case (release_daemon i cs g)
  have "held holds_daemon cs = held holds_daemon (cs[i := (cs ! i)\<lparr>ch_phase := Over\<rparr>]) + unat (ch_n (cs ! i))"
    using held_update [of i cs "(cs ! i)\<lparr>ch_phase := Over\<rparr>" holds_daemon] release_daemon by (simp add: holds_daemon_def)
  then show ?case using release_daemon give_ok
    by (simp add: budget_ok_iff list_all_charge_update upstream_ok_same holds_upstream_def)
qed

lemma budget_reachable_ok:
  assumes "budget_reachable (budgets_new limit enabled) s"
  shows "budget_ok s"
  using assms
proof (induction rule: budget_reachable.induct)
  case start
  have "account_ok (account_new l) 0" for l by (simp add: account_ok_def account_new_def)
  then have "bg_upstreams (budgets_new limit enabled) u = Some a \<Longrightarrow> account_ok a 0" for u a
    by (auto simp: budgets_new_def dest!: map_of_SomeD)
  then show ?case by (auto simp: budget_ok_iff upstream_ok_def held_def budgets_new_def account_ok_def account_new_def split: option.split)
next
  case (step s s')
  then show ?case using budget_ok_step by blast
qed

text \<open>
  C29: the body budgets are exact. However charges are taken, refused by the daemon and given back,
  shared by the exchange and the body and released by whichever drops first, each account holds exactly
  the bytes of the charges that hold it, within its limit, with no sum or difference wrapping; and when
  every charge is over, nothing is charged anywhere.
\<close>

theorem budgets_are_exact:
  assumes "budget_reachable (budgets_new limit enabled) (g, cs)"
  shows "unat (in_use u g) = held (holds_upstream u) cs \<and> unat (ac_used (bg_daemon g)) = held holds_daemon cs \<and>
    ac_used (bg_daemon g) \<le> ac_limit (bg_daemon g) \<and>
    (case bg_upstreams g u of None \<Rightarrow> True | Some a \<Rightarrow> ac_used a \<le> ac_limit a) \<and>
    (list_all (\<lambda>c. ch_phase c = Over) cs \<longrightarrow> in_use u g = 0 \<and> ac_used (bg_daemon g) = 0)"
proof -
  have ok: "budget_ok (g, cs)" using assms by (rule budget_reachable_ok)
  then have u: "upstream_ok g cs u" and d: "account_ok (bg_daemon g) (held holds_daemon cs)" by (simp_all add: budget_ok_iff)
  have "held (holds_upstream u) cs = 0 \<and> held holds_daemon cs = 0" if "list_all (\<lambda>c. ch_phase c = Over) cs"
    using that by (auto simp: held_def sum_list_eq_0_iff list_all_iff holds_upstream_def holds_daemon_def)
  moreover have "unat (in_use u g) = held (holds_upstream u) cs"
    using u by (auto simp: upstream_ok_def in_use_def account_ok_def split: option.splits)
  ultimately show ?thesis using u d
    by (auto simp: upstream_ok_def account_ok_def unat_eq_0 [symmetric] split: option.splits)
qed

subsection \<open>A charge without interruption\<close>

text \<open>\<open>Budgets::charge\<close> and the release of a charge, when nothing runs in between.\<close>

definition budget_charge :: "string \<Rightarrow> 64 word \<Rightarrow> budgets \<Rightarrow> (unit + charge option) \<times> budgets" where
  "budget_charge u n g =
     (if n = 0 then (Inr None, g)
      else
        (case bg_upstreams g u of
           None \<Rightarrow> (Inl (), g)
         | Some a \<Rightarrow>
             (case account_try_take n a of
                None \<Rightarrow> (Inl (), g)
              | Some a' \<Rightarrow>
                  (let g1 = g\<lparr>bg_upstreams := (bg_upstreams g)(u \<mapsto> a')\<rparr> in
                   case account_try_take n (bg_daemon g1) of
                     None \<Rightarrow> (Inl (), give_upstream u n g1)
                   | Some d \<Rightarrow>
                       (Inr (Some \<lparr>ch_upstream = u, ch_n = n, ch_holders = 1, ch_phase = Live\<rparr>), g1\<lparr>bg_daemon := d\<rparr>)))))"

definition charge_release :: "charge option \<Rightarrow> budgets \<Rightarrow> budgets" where
  "charge_release c g =
     (case c of
        None \<Rightarrow> g
      | Some c \<Rightarrow>
          (let g1 = give_upstream (ch_upstream c) (ch_n c) g in g1\<lparr>bg_daemon := account_give (ch_n c) (bg_daemon g1)\<rparr>))"

lemma take_give: "account_try_take n a = Some a' \<Longrightarrow> account_give n a' = a"
  by (auto simp: account_try_take_def account_give_def checked_add_def split: option.splits if_splits)

lemma upd_give_upstream:
  assumes "bg_upstreams g u = Some a" "account_try_take n a = Some a'"
  shows "give_upstream u n (g\<lparr>bg_upstreams := (bg_upstreams g)(u \<mapsto> a')\<rparr>) = g"
proof -
  have "(bg_upstreams g)(u \<mapsto> a) = bg_upstreams g" using assms(1) by (rule map_upd_triv)
  then show ?thesis using take_give [OF assms(2)] by (simp add: give_upstream_def)
qed

lemma charge_refused: "budget_charge u n g = (Inl e, g') \<Longrightarrow> g' = g"
  by (auto simp: budget_charge_def Let_def upd_give_upstream split: if_splits option.splits)

lemma charge_then_release:
  assumes "budget_charge u n g = (Inr c, g')"
  shows "charge_release c g' = g"
proof (cases "n = 0")
  case True
  then show ?thesis using assms by (auto simp: budget_charge_def charge_release_def)
next
  case False
  then obtain a a' d where g: "bg_upstreams g u = Some a" "account_try_take n a = Some a'" "account_try_take n (bg_daemon g) = Some d"
    and c: "c = Some \<lparr>ch_upstream = u, ch_n = n, ch_holders = 1, ch_phase = Live\<rparr>"
    and g': "g' = g\<lparr>bg_upstreams := (bg_upstreams g)(u \<mapsto> a'), bg_daemon := d\<rparr>"
    using assms by (auto simp: budget_charge_def Let_def split: option.splits)
  have "give_upstream u n g' = g\<lparr>bg_daemon := d\<rparr>"
    using map_upd_triv [of "bg_upstreams g" u a] g(1) take_give [OF g(2)] by (cases g) (simp add: g' give_upstream_def)
  then show ?thesis using take_give [OF g(3)] by (simp add: charge_release_def c)
qed

definition demo_budgets :: budgets where
  "demo_budgets = budgets_new 15 [(''a'', 10)]"

theorem budgets_are_exact_witness:
  "\<exists>g. budget_reachable demo_budgets (g, [\<lparr>ch_upstream = ''a'', ch_n = 6, ch_holders = 1, ch_phase = Live\<rparr>]) \<and>
     unat (in_use ''a'' g) = 6"
proof -
  let ?c = "\<lparr>ch_upstream = ''a'', ch_n = 6, ch_holders = 0, ch_phase = Taking\<rparr>"
  let ?g = "demo_budgets\<lparr>bg_upstreams := (bg_upstreams demo_budgets)(''a'' \<mapsto> \<lparr>ac_limit = 10, ac_used = 6\<rparr>)\<rparr>"
  let ?h = "?g\<lparr>bg_daemon := \<lparr>ac_limit = 15, ac_used = 6\<rparr>\<rparr>"
  note defs = demo_budgets_def budgets_new_def account_new_def account_try_take_def checked_add_def
  have "budget_step (demo_budgets, []) (?g, [] @ [?c])"
    by (rule budget_step.take_upstream [of _ _ _ "account_new 10"]) (simp_all add: defs)
  then have "budget_reachable demo_budgets (?g, [?c])" using budget_reachable.start budget_reachable.step by fastforce
  moreover have "budget_step (?g, [?c]) (?h, [?c][0 := ([?c] ! 0)\<lparr>ch_holders := 1, ch_phase := Live\<rparr>])"
    by (rule budget_step.take_daemon) (simp_all add: defs)
  ultimately have r: "budget_reachable demo_budgets (?h, [\<lparr>ch_upstream = ''a'', ch_n = 6, ch_holders = 1, ch_phase = Live\<rparr>])"
    using budget_reachable.step by fastforce
  from budgets_are_exact [OF this [unfolded demo_budgets_def], of "''a''"]
  have "unat (in_use ''a'' ?h) = 6" by (simp add: held_def holds_upstream_def demo_budgets_def)
  with r show ?thesis by blast
qed

end
