(* ===== verification/Http_Admission.thy ===== *)
theory Http_Admission
  imports Http_Breaker Http_Budget Decimal
begin

text \<open>
  The admission of an HTTP request: the Retry-After hold and the request gate
  (\<open>ferro-http/src/engine/limits.rs\<close>), and the sequence in which \<open>Engine::run\<close>
  (\<open>ferro-http/src/engine/mod.rs\<close>) passes a request through drain, breaker, hold, rate bucket, body
  budget and gate. What the request waits for is part of its input: the instants it reads and whether
  a stop or a deadline ends a wait.
\<close>

subsection \<open>The Retry-After hold\<close>

record hold =
  hd_max :: nat
  hd_until :: "nat option"

definition hold_new :: "nat \<Rightarrow> hold" where
  "hold_new max_ms = \<lparr>hd_max = max_ms * 1000000, hd_until = None\<rparr>"

definition hold_admit :: "nat \<Rightarrow> hold \<Rightarrow> nat + unit" where
  "hold_admit now h =
     (case hd_until h of
        Some end \<Rightarrow> if now < end then Inl (ms_until end now) else Inr ()
      | None \<Rightarrow> Inr ())"

definition trim_ascii :: "string \<Rightarrow> string" where
  "trim_ascii v = rev (dropWhile is_ascii_whitespace (rev (dropWhile is_ascii_whitespace v)))"

definition hold_for :: "16 word \<Rightarrow> string list \<Rightarrow> nat \<Rightarrow> nat option" where
  "hold_for status retry_after mx =
     (if status \<noteq> 429 \<and> status \<noteq> 503 then None
      else
        (case retry_after of
           [v] \<Rightarrow>
             (let v' = trim_ascii v in
              if v' = [] \<or> \<not> list_all is_ascii_digit v' then None
              else if 2 ^ 64 \<le> parse_dec v' then None
              else (let d = parse_dec v' * 1000000000 in if 0 < parse_dec v' \<and> d \<le> mx then Some d else None))
         | _ \<Rightarrow> None))"

definition hold_observe :: "16 word \<Rightarrow> string list \<Rightarrow> nat \<Rightarrow> hold \<Rightarrow> nat option \<times> hold" where
  "hold_observe status retry_after now h =
     (case hold_for status retry_after (hd_max h) of
        None \<Rightarrow> (None, h)
      | Some d \<Rightarrow>
          (Some d, if (case hd_until h of None \<Rightarrow> True | Some u \<Rightarrow> u < now + d) then h\<lparr>hd_until := Some (now + d)\<rparr> else h))"

text \<open>
  A hold lasts exactly as long as the longest delay asked for. After a response is observed, an
  admission at \<open>t\<close> is refused exactly when it was refused before or lies within the delay the response
  asked for, which is never above the operator's ceiling: no response shortens a hold.
\<close>

theorem hold_is_exact:
  "case hold_observe status values now h of
     (d, h') \<Rightarrow>
       (hold_admit t h' = Inr () \<longleftrightarrow> hold_admit t h = Inr () \<and> (case d of None \<Rightarrow> True | Some x \<Rightarrow> now + x \<le> t)) \<and>
       (case d of None \<Rightarrow> h' = h | Some x \<Rightarrow> 0 < x \<and> x \<le> hd_max h)"
proof (cases "hold_for status values (hd_max h)")
  case None
  then show ?thesis by (simp add: hold_observe_def)
next
  case (Some x)
  then have "0 < x \<and> x \<le> hd_max h"
    by (auto simp: hold_for_def Let_def split: if_splits list.splits)
  then show ?thesis using Some
    by (auto simp: hold_observe_def hold_admit_def split: option.splits if_splits)
qed

subsection \<open>The request gate\<close>

record gate =
  gt_permits :: nat
  gt_waiting :: nat
  gt_max_requests :: nat
  gt_max_queued :: nat

definition MAX_PERMITS :: nat where "MAX_PERMITS = 2 ^ 61 - 1"

definition gate_new :: "nat \<Rightarrow> nat \<Rightarrow> gate" where
  "gate_new max_requests max_queued =
     (let m = min max_requests MAX_PERMITS in
      \<lparr>gt_permits = m, gt_waiting = 0, gt_max_requests = m, gt_max_queued = max_queued\<rparr>)"

text \<open>
  The points of \<open>acquire\<close>: before it; the first try failed; counted in the queue; given a permit and still
  counted; timed out and still counted; holding a slot; gone.
\<close>

datatype gate_task = Arriving | Tried | Queued | Granted | Expired | Slot | GateGone

inductive gate_task_step :: "gate \<times> gate_task \<Rightarrow> gate \<times> gate_task \<Rightarrow> bool" where
  try_ok: "0 < gt_permits g \<Longrightarrow> gate_task_step (g, Arriving) (g\<lparr>gt_permits := gt_permits g - 1\<rparr>, Slot)"
| try_fails: "gt_permits g = 0 \<Longrightarrow> gate_task_step (g, Arriving) (g, Tried)"
| enqueue: "gt_waiting g < gt_max_queued g \<Longrightarrow> gate_task_step (g, Tried) (g\<lparr>gt_waiting := gt_waiting g + 1\<rparr>, Queued)"
| queue_full: "gt_max_queued g \<le> gt_waiting g \<Longrightarrow> gate_task_step (g, Tried) (g, GateGone)"
| granted: "0 < gt_permits g \<Longrightarrow> gate_task_step (g, Queued) (g\<lparr>gt_permits := gt_permits g - 1\<rparr>, Granted)"
| expired: "gate_task_step (g, Queued) (g, Expired)"
| leave_granted: "gate_task_step (g, Granted) (g\<lparr>gt_waiting := gt_waiting g - 1\<rparr>, Slot)"
| leave_expired: "gate_task_step (g, Expired) (g\<lparr>gt_waiting := gt_waiting g - 1\<rparr>, GateGone)"
| release: "gate_task_step (g, Slot) (g\<lparr>gt_permits := gt_permits g + 1\<rparr>, GateGone)"

inductive gate_reachable :: "gate \<Rightarrow> gate \<times> gate_task list \<Rightarrow> bool" for g0 where
  start: "gate_reachable g0 (g0, [])"
| arrive: "gate_reachable g0 (g, ts) \<Longrightarrow> gate_reachable g0 (g, ts @ [Arriving])"
| step: "gate_reachable g0 (g, ts) \<Longrightarrow> i < length ts \<Longrightarrow> gate_task_step (g, ts ! i) (g', t) \<Longrightarrow>
    gate_reachable g0 (g', ts[i := t])"

definition in_flight :: "gate_task \<Rightarrow> bool" where
  "in_flight t \<longleftrightarrow> t \<in> {Slot, Granted}"

definition counted_waiting :: "gate_task \<Rightarrow> bool" where
  "counted_waiting t \<longleftrightarrow> t \<in> {Queued, Granted, Expired}"

definition gate_ok :: "gate \<times> gate_task list \<Rightarrow> bool" where
  "gate_ok s \<longleftrightarrow>
     (case s of (g, ts) \<Rightarrow>
        gt_permits g + length (filter in_flight ts) = gt_max_requests g \<and>
        gt_waiting g = length (filter counted_waiting ts) \<and> gt_waiting g \<le> gt_max_queued g)"

lemma gate_step_limits:
  "gate_task_step (g, t) (g', t') \<Longrightarrow> gt_max_requests g' = gt_max_requests g \<and> gt_max_queued g' = gt_max_queued g"
  by (erule gate_task_step.cases) auto

lemma gate_ok_step:
  assumes "gate_ok (g, ts)" "i < length ts" "gate_task_step (g, ts ! i) (g', t)"
  shows "gate_ok (g', ts[i := t])"
proof -
  note n = length_filter_update [OF assms(2), of in_flight t] length_filter_update [OF assms(2), of counted_waiting t]
  have w: "0 < length (filter counted_waiting ts)" if "counted_waiting (ts ! i)"
    using that assms(2) by (auto simp: filter_empty_conv intro!: nth_mem)
  from assms(3) show ?thesis
    by cases (use n w assms(1) in \<open>auto simp: gate_ok_def in_flight_def counted_waiting_def\<close>)
qed

lemma gate_reachable_ok: "gate_reachable (gate_new m q) s \<Longrightarrow> gate_ok s"
proof (induction rule: gate_reachable.induct)
  case start
  then show ?case by (simp add: gate_ok_def gate_new_def Let_def)
next
  case (arrive g ts)
  then show ?case by (simp add: gate_ok_def in_flight_def counted_waiting_def)
next
  case (step g ts i g' t)
  then show ?case by (simp add: gate_ok_step)
qed

lemma gate_reachable_limits:
  "gate_reachable (gate_new m q) s \<Longrightarrow> gt_max_requests (fst s) = min m MAX_PERMITS \<and> gt_max_queued (fst s) = q"
  by (induction rule: gate_reachable.induct) (auto simp: gate_new_def Let_def dest: gate_step_limits)

text \<open>
  The gate keeps its limits. In every interleaving of arrivals, grants, time-outs and releases at most
  \<open>MAX_REQUESTS\<close> requests are in flight and at most \<open>MAX_QUEUED\<close> wait; the gauges count exactly those, and
  when every request is gone all slots are back.
\<close>

theorem gate_limits_hold:
  assumes "gate_reachable (gate_new max_requests max_queued) (g, ts)"
  shows "length (filter in_flight ts) \<le> max_requests \<and> length (filter counted_waiting ts) \<le> max_queued \<and>
    gt_waiting g = length (filter counted_waiting ts) \<and>
    (list_all (\<lambda>t. t = GateGone) ts \<longrightarrow> gt_permits g = gt_max_requests g)"
proof -
  have ok: "gate_ok (g, ts)" using assms by (rule gate_reachable_ok)
  have "filter in_flight ts = []" if "list_all (\<lambda>t. t = GateGone) ts"
    using that by (auto simp: filter_empty_conv list_all_iff in_flight_def)
  then show ?thesis using ok gate_reachable_limits [OF assms] by (auto simp: gate_ok_def)
qed

theorem gate_limits_hold_witness:
  "\<exists>g. gate_reachable (gate_new 1 1) (g, [Slot, Tried]) \<and> gt_permits g = 0 \<and> length (filter in_flight [Slot, Tried]) \<le> 1"
proof -
  let ?g = "(gate_new 1 1)\<lparr>gt_permits := 0\<rparr>"
  have "gate_reachable (gate_new 1 1) (gate_new 1 1, [] @ [Arriving])" by (intro gate_reachable.arrive gate_reachable.start)
  then have "gate_reachable (gate_new 1 1) (gate_new 1 1, [Arriving] @ [Arriving])"
    using gate_reachable.arrive by fastforce
  moreover have "gate_task_step (gate_new 1 1, [Arriving, Arriving] ! 0) (?g, Slot)"
    using gate_task_step.try_ok [of "gate_new 1 1"] by (simp add: gate_new_def MAX_PERMITS_def Let_def)
  ultimately have "gate_reachable (gate_new 1 1) (?g, [Arriving, Arriving][0 := Slot])"
    using gate_reachable.step by fastforce
  moreover have "gate_task_step (?g, [Slot, Arriving] ! 1) (?g, Tried)" using gate_task_step.try_fails [of ?g] by simp
  ultimately have "gate_reachable (gate_new 1 1) (?g, [Slot, Arriving][1 := Tried])"
    using gate_reachable.step [of _ ?g "[Slot, Arriving]" 1] by simp
  then show ?thesis using gate_limits_hold [of 1 1 ?g "[Slot, Tried]"] by (auto intro!: exI [of _ ?g])
qed

subsection \<open>The admission sequence\<close>

record admission =
  ad_breaker :: breaker
  ad_hold :: "hold option"
  ad_rate :: "rate_bucket option"
  ad_budgets :: budgets
  ad_gate :: gate

text \<open>
  What the environment decides: the drain, the instants read at each step, the deadline, whether the stop
  fires while the request waits for its token or for a slot (and whether the drain cap fired it), and how
  a wait for a slot ends.
\<close>

record admission_input =
  in_upstream :: string
  in_body_len :: "64 word"
  in_draining :: bool
  in_now :: nat
  in_now_hold :: nat
  in_now_rate :: nat
  in_now_drop :: nat
  in_deadline :: nat
  in_stop_at_rate :: bool
  in_stop_at_gate :: bool
  in_drained :: bool
  in_queue_deadline :: nat
  in_slot_granted :: bool

definition before_dispatch_stop :: "bool \<Rightarrow> before_dispatch" where
  "before_dispatch_stop drained = (if drained then Draining else BeforeCancel)"

text \<open>The end of a request that keeps nothing: its ticket's last handle is dropped.\<close>

definition drop_ticket :: "nat \<Rightarrow> ticket \<Rightarrow> admission \<Rightarrow> admission" where
  "drop_ticket now t s = s\<lparr>ad_breaker := snd (ticket_settle now (ticket_drop t, ad_breaker s))\<rparr>"

fun rate_step_of :: "admission_input \<Rightarrow> admission \<Rightarrow> before_dispatch option \<times> admission" where
  "rate_step_of inp s =
     (case ad_rate s of
        None \<Rightarrow> (None, s)
      | Some b \<Rightarrow>
          (case rate_take (in_now_rate inp) (in_deadline inp - in_now_rate inp) b of
             (AdmitNow, b') \<Rightarrow> (None, s\<lparr>ad_rate := Some b'\<rparr>)
           | (RefuseFor ms, b') \<Rightarrow> (Some (RateLimited (of_nat ms)), s\<lparr>ad_rate := Some b'\<rparr>)
           | (WaitFor w after, b') \<Rightarrow>
               if in_stop_at_rate inp
               then (Some (before_dispatch_stop (in_drained inp)), s\<lparr>ad_rate := Some (rate_abandon after b')\<rparr>)
               else (None, s\<lparr>ad_rate := Some b'\<rparr>)))"

text \<open>
  \<open>RequestGate::acquire\<close> raced with the stop. A request that finds no slot is counted in \<open>waiting\<close> before it waits, and the
  \<open>Waiting\<close> guard takes the count back however the wait ends: granted, expired, or dropped by a stop that fires meanwhile.
  What other requests do to the gate during the wait is the subject of \<open>gate_task_step\<close>.
\<close>

definition waiting_enter :: "gate \<Rightarrow> gate" where
  "waiting_enter g = g\<lparr>gt_waiting := gt_waiting g + 1\<rparr>"

definition waiting_drop :: "gate \<Rightarrow> gate" where
  "waiting_drop g = g\<lparr>gt_waiting := gt_waiting g - 1\<rparr>"

definition gate_acquire :: "admission_input \<Rightarrow> gate \<Rightarrow> before_dispatch option \<times> gate" where
  "gate_acquire inp g =
     (let waits = (gt_permits g = 0 \<and> gt_waiting g < gt_max_queued g) in
      if in_stop_at_gate inp
      then (Some (before_dispatch_stop (in_drained inp)), if waits then waiting_drop (waiting_enter g) else g)
      else if 0 < gt_permits g then (None, g\<lparr>gt_permits := gt_permits g - 1\<rparr>)
      else if \<not> waits then (Some QueueFull, g)
      else
        (let g = waiting_enter g in
         (if in_slot_granted inp then None
          else Some (if in_deadline inp \<le> in_queue_deadline inp then BeforeDeadline else QueueTimeout),
          waiting_drop g)))"

definition admit_request :: "admission_input \<Rightarrow> admission \<Rightarrow> (before_dispatch + ticket \<times> charge option) \<times> admission" where
  "admit_request inp s =
     (if in_draining inp then (Inl Draining, s)
      else
        (case breaker_admit (in_now inp) (ad_breaker s) of
           (Inl (RefusedOpen ms), b) \<Rightarrow> (Inl (BreakerOpen (of_nat ms)), s\<lparr>ad_breaker := b\<rparr>)
         | (Inl ProbeBusy, b) \<Rightarrow> (Inl BreakerProbeBusy, s\<lparr>ad_breaker := b\<rparr>)
         | (Inr t, b) \<Rightarrow>
             (let s1 = s\<lparr>ad_breaker := b\<rparr> in
              case (case ad_hold s1 of None \<Rightarrow> Inr () | Some h \<Rightarrow> hold_admit (in_now_hold inp) h) of
                Inl ms \<Rightarrow> (Inl (RetryAfterHold (of_nat ms)), drop_ticket (in_now_drop inp) t s1)
              | Inr _ \<Rightarrow>
                  (case rate_step_of inp s1 of
                     (Some e, s2) \<Rightarrow> (Inl e, drop_ticket (in_now_drop inp) t s2)
                   | (None, s2) \<Rightarrow>
                       (case budget_charge (in_upstream inp) (in_body_len inp) (ad_budgets s2) of
                          (Inl _, g) \<Rightarrow> (Inl BodyBudget, drop_ticket (in_now_drop inp) t (s2\<lparr>ad_budgets := g\<rparr>))
                        | (Inr c, g) \<Rightarrow>
                            (case gate_acquire inp (ad_gate s2) of
                               (Some e, gt) \<Rightarrow>
                                 (Inl e, drop_ticket (in_now_drop inp) t
                                    (s2\<lparr>ad_budgets := charge_release c g, ad_gate := gt\<rparr>))
                             | (None, gt) \<Rightarrow> (Inr (t, c), s2\<lparr>ad_budgets := g, ad_gate := gt\<rparr>)))))))"

text \<open>An open breaker whose time is up becomes half-open at the first admission after it.\<close>

definition half_opened :: "nat \<Rightarrow> breaker \<Rightarrow> breaker" where
  "half_opened now b =
     (case bk_st b of StOpen end \<Rightarrow> if end \<le> now then b\<lparr>bk_st := StHalfOpen False\<rparr> else b | _ \<Rightarrow> b)"

lemma breaker_admit_then_drop:
  assumes "breaker_admit now b = (Inr t, b')"
  shows "snd (ticket_settle now' (ticket_drop t, b')) = half_opened now b"
  using assms
  by (cases b) (auto simp: breaker_admit_def Let_def ticket_drop_def ticket_record_def ticket_settle_def ticket_kind_of_def
      breaker_settle_def half_opened_def split: breaker_st.splits if_splits bool.splits)

lemma breaker_admit_refused: "breaker_admit now b = (Inl r, b') \<Longrightarrow> b' = half_opened now b"
  by (cases b) (auto simp: breaker_admit_def Let_def half_opened_def split: breaker_st.splits if_splits bool.splits)

lemma rate_refused_same:
  assumes "rate_step_of inp s = (Some e, s')"
  shows "s' = s"
proof -
  obtain b where b: "ad_rate s = Some b" using assms by (auto split: option.splits)
  obtain dec b' where d: "rate_take (in_now_rate inp) (in_deadline inp - in_now_rate inp) b = (dec, b')" by fastforce
  have "rate_abandon after b' = b" if "dec = WaitFor w after" for w after
    using d that by (cases b) (auto simp: rate_take_def rate_abandon_def Let_def split: if_splits)
  moreover have "b' = b" if "dec = RefuseFor ms" for ms using d that by (auto simp: rate_take_def Let_def split: if_splits)
  ultimately show ?thesis using assms b d by (cases s) (auto split: rate_decision.splits if_splits)
qed

lemma rate_step_frame:
  "rate_step_of inp s = (r, s') \<Longrightarrow> ad_breaker s' = ad_breaker s \<and> ad_hold s' = ad_hold s \<and>
     ad_budgets s' = ad_budgets s \<and> ad_gate s' = ad_gate s"
  by (auto split: option.splits prod.splits rate_decision.splits if_splits)

lemma waiting_guard_balanced [simp]: "waiting_drop (waiting_enter g) = g"
  by (simp add: waiting_drop_def waiting_enter_def)

lemma gate_refused_same: "gate_acquire inp g = (Some e, g') \<Longrightarrow> g' = g"
  by (auto simp: gate_acquire_def Let_def split: if_splits)

lemma gate_refused_cause:
  "gate_acquire inp g = (Some e, g') \<Longrightarrow> in_stop_at_gate inp \<or> e = QueueFull \<or> e = QueueTimeout \<or> e = BeforeDeadline"
  by (auto simp: gate_acquire_def Let_def split: if_splits)

text \<open>
  C27: a refused request leaves nothing behind. Whichever step of the admission refuses it, the budgets,
  the gate and the hold are as before, the breaker at most went from open with its time up to half-open
  with its probe slot free, and the rate bucket is as before too unless the request was refused behind it
  (by the budget, the queue, or a stop while queued), when one token is spent.
\<close>

theorem refusal_leaves_nothing:
  assumes "admit_request inp s = (Inl e, s')"
  shows "ad_budgets s' = ad_budgets s \<and> ad_gate s' = ad_gate s \<and> ad_hold s' = ad_hold s \<and>
    ad_breaker s' \<in> {ad_breaker s, half_opened (in_now inp) (ad_breaker s)} \<and>
    (e \<in> {BodyBudget, QueueFull, QueueTimeout, BeforeDeadline} \<or> in_stop_at_gate inp \<or> ad_rate s' = ad_rate s)"
proof (cases "in_draining inp")
  case True
  then show ?thesis using assms by (simp add: admit_request_def)
next
  case False
  obtain r b where adm: "breaker_admit (in_now inp) (ad_breaker s) = (r, b)" by fastforce
  show ?thesis
  proof (cases r)
    case (Inl x)
    then have "b = half_opened (in_now inp) (ad_breaker s)" using adm breaker_admit_refused by blast
    then show ?thesis using assms False adm Inl by (auto simp: admit_request_def split: breaker_refusal.splits)
  next
    case (Inr t)
    let ?s1 = "s\<lparr>ad_breaker := b\<rparr>"
    have drop: "ad_breaker (drop_ticket now t s2) = half_opened (in_now inp) (ad_breaker s)" if "ad_breaker s2 = b" for s2 now
      using breaker_admit_then_drop adm Inr that by (simp add: drop_ticket_def)
    have frame: "ad_budgets (drop_ticket now t s2) = ad_budgets s2" "ad_gate (drop_ticket now t s2) = ad_gate s2"
      "ad_hold (drop_ticket now t s2) = ad_hold s2" "ad_rate (drop_ticket now t s2) = ad_rate s2" for s2 now
      by (simp_all add: drop_ticket_def)
    obtain q s2 where rate: "rate_step_of inp ?s1 = (q, s2)" by fastforce
    have s2: "ad_breaker s2 = b" "ad_hold s2 = ad_hold s" "ad_budgets s2 = ad_budgets s" "ad_gate s2 = ad_gate s"
      using rate_step_frame [OF rate] by simp_all
    have q: "ad_rate s2 = ad_rate s" if "q = Some e'" for e' using rate_refused_same [of inp ?s1 e' s2] rate that by simp
    show ?thesis using assms False adm Inr rate s2 q
      by (auto simp: admit_request_def Let_def drop frame simp del: rate_step_of.simps
          dest: charge_refused charge_then_release gate_refused_same gate_refused_cause
          split: option.splits sum.splits prod.splits if_splits)
  qed
qed

definition demo_admission :: admission where
  "demo_admission =
     \<lparr>ad_breaker = breaker_new 3 CountConnect 1000 1000, ad_hold = Some (hold_new 1000), ad_rate = None,
      ad_budgets = budgets_new 15 [(''a'', 5)], ad_gate = gate_new 1 0\<rparr>"

definition demo_input :: "64 word \<Rightarrow> admission_input" where
  "demo_input n =
     \<lparr>in_upstream = ''a'', in_body_len = n, in_draining = False, in_now = 0, in_now_hold = 1, in_now_rate = 2, in_now_drop = 3,
      in_deadline = 100, in_stop_at_rate = False, in_stop_at_gate = False, in_drained = False, in_queue_deadline = 50,
      in_slot_granted = False\<rparr>"

theorem refusal_leaves_nothing_witness:
  "\<exists>s'. admit_request (demo_input 6) demo_admission = (Inl BodyBudget, s') \<and> ad_budgets s' = ad_budgets demo_admission"
proof -
  have "\<exists>s'. admit_request (demo_input 6) demo_admission = (Inl BodyBudget, s')"
    by (simp add: admit_request_def demo_input_def demo_admission_def breaker_admit_def breaker_new_def hold_admit_def
        hold_new_def budget_charge_def budgets_new_def account_new_def account_try_take_def checked_add_def Let_def)
  then show ?thesis using refusal_leaves_nothing by blast
qed

end
