(* ===== verification/Http_Pool.thy ===== *)
theory Http_Pool
  imports Http_Breaker Http_Validate
begin

text \<open>
  The keep-alive pool of the HTTP client (\<open>ferro-http/src/engine/pool.rs\<close>), one sub-pool at a time: which
  idle connection a request may reuse, when it may dial, and the two counters that bound connections and
  dials. Instants and durations are nanoseconds. The decision of \<open>take\<close> and the pushes of \<open>put_back\<close> run
  under the pool's lock and are one step each; dropping a connection or a dial is two, the decrement and
  the \<open>notify_waiters\<close> after it, and drops that the code runs one after the other may here run in any order.
\<close>

subsection \<open>Data\<close>

text \<open>\<open>hc_open\<close>: the sender is not closed and the connection task is still running.\<close>

record http_conn =
  hc_open :: bool
  hc_created :: nat
  hc_idle_since :: nat
  hc_idle_limit :: nat

record reuse_policy =
  rp_max_lifetime :: nat
  rp_idempotent :: bool
  rp_unsafe_reuse_max_idle :: nat

record caps =
  max_connections :: nat
  max_dials :: nat

record sub_pool =
  sb_idle :: "http_conn list"
  sb_live :: nat
  sb_dialing :: nat

definition sub_new :: sub_pool where
  "sub_new = \<lparr>sb_idle = [], sb_live = 0, sb_dialing = 0\<rparr>"

datatype take_step = GotIdle http_conn | GotDial | Again | WaitForChange

subsection \<open>Decisions\<close>

definition unusable :: "nat \<Rightarrow> reuse_policy \<Rightarrow> http_conn \<Rightarrow> bool" where
  "unusable now pol c \<longleftrightarrow>
     \<not> hc_open c \<or> rp_max_lifetime pol \<le> now - hc_created c \<or> hc_idle_limit c \<le> now - hc_idle_since c"

definition too_idle :: "nat \<Rightarrow> reuse_policy \<Rightarrow> http_conn \<Rightarrow> bool" where
  "too_idle now pol c \<longleftrightarrow> \<not> rp_idempotent pol \<and> rp_unsafe_reuse_max_idle pol < now - hc_idle_since c"

text \<open>The loop over the stack, top first: what it takes, what it leaves, what it closes.\<close>

fun pop_idle :: "nat \<Rightarrow> reuse_policy \<Rightarrow> http_conn list \<Rightarrow> http_conn option \<times> http_conn list \<times> http_conn list" where
  "pop_idle now pol [] = (None, [], [])"
| "pop_idle now pol (c # cs) =
     (if unusable now pol c then (case pop_idle now pol cs of (g, rest, closed) \<Rightarrow> (g, rest, c # closed))
      else if too_idle now pol c then (None, c # cs, [])
      else (Some c, cs, []))"

definition decide :: "nat \<Rightarrow> reuse_policy \<Rightarrow> caps \<Rightarrow> sub_pool \<Rightarrow> take_step \<times> sub_pool \<times> http_conn list" where
  "decide now pol cp sub =
     (case pop_idle now pol (rev (sb_idle sub)) of (got, rest, closed) \<Rightarrow>
        (let sub1 = sub\<lparr>sb_idle := rev rest\<rparr> in
         case got of
           Some c \<Rightarrow> (GotIdle c, sub1, closed)
         | None \<Rightarrow>
             if closed \<noteq> [] then (Again, sub1, closed)
             else if sb_live sub < max_connections cp \<and> sb_dialing sub < max_dials cp then
               (GotDial, sub1\<lparr>sb_live := sb_live sub + 1, sb_dialing := sb_dialing sub + 1\<rparr>, [])
             else if max_connections cp \<le> sb_live sub \<and> sb_idle sub1 \<noteq> [] then
               (Again, sub1\<lparr>sb_idle := tl (sb_idle sub1)\<rparr>, [hd (sb_idle sub1)])
             else (WaitForChange, sub1, [])))"

text \<open>\<open>put_back\<close>: the surplus connection, if the sub-pool is full.\<close>

definition put_back :: "nat \<Rightarrow> http_conn \<Rightarrow> sub_pool \<Rightarrow> http_conn option \<times> sub_pool" where
  "put_back max_idle c sub =
     (if max_idle \<le> length (sb_idle sub) then (Some c, sub) else (None, sub\<lparr>sb_idle := sb_idle sub @ [c]\<rparr>))"

definition checkin :: "nat \<Rightarrow> nat \<Rightarrow> http_conn \<Rightarrow> sub_pool \<Rightarrow> http_conn option \<times> sub_pool" where
  "checkin now max_idle c sub = put_back max_idle (c\<lparr>hc_idle_since := now\<rparr>) sub"

definition return_unused :: "nat \<Rightarrow> http_conn \<Rightarrow> sub_pool \<Rightarrow> http_conn option \<times> sub_pool" where
  "return_unused max_idle c sub = put_back max_idle c sub"

text \<open>\<open>u64::from_str\<close> allows one leading plus sign.\<close>

definition parse_u64 :: "string \<Rightarrow> nat option" where
  "parse_u64 s = parse_decimal_u64 (case s of c # cs \<Rightarrow> if c = CHR ''+'' then cs else s | [] \<Rightarrow> [])"

fun keep_alive_timeout :: "string list \<Rightarrow> nat option" where
  "keep_alive_timeout [] = None"
| "keep_alive_timeout (part # parts) =
     (let k = trim (takeWhile (\<lambda>b. b \<noteq> CHR ''='') part); v = dropWhile (\<lambda>b. b \<noteq> CHR ''='') part in
      if eq_ignore_ascii_case k ''timeout'' \<and> v \<noteq> [] \<and> parse_u64 (trim (tl v)) \<noteq> None
      then parse_u64 (trim (tl v))
      else keep_alive_timeout parts)"

definition idle_limit :: "nat \<Rightarrow> string option \<Rightarrow> nat" where
  "idle_limit configured keep_alive =
     (case keep_alive of
        None \<Rightarrow> configured
      | Some v \<Rightarrow>
          if \<not> utf8_valid v then configured
          else
            (case keep_alive_timeout (split_on (\<lambda>b. b = CHR '','') v) of
               None \<Rightarrow> configured
             | Some secs \<Rightarrow> min configured (secs * 10 ^ 9 - 10 ^ 9)))"

subsection \<open>Every interleaving\<close>

text \<open>
  A request before its decision (its \<open>notified\<close> future exists) or parked on it, with whether it was notified
  since; a dial; a connection in use; a connection slot or a dial slot being dropped; a notification
  about to be sent.
\<close>

datatype pool_task =
    Deciding reuse_policy bool
  | Parked reuse_policy bool
  | Dialling
  | Using http_conn
  | ConnDrop
  | DialDrop
  | Notify
  | Finished

fun wake :: "pool_task \<Rightarrow> pool_task" where
  "wake (Deciding p _) = Deciding p True"
| "wake (Parked p _) = Parked p True"
| "wake t = t"

inductive http_pool_step :: "caps \<Rightarrow> sub_pool \<times> pool_task list \<Rightarrow> sub_pool \<times> pool_task list \<Rightarrow> bool" for cp where
  asks: "http_pool_step cp (s, ts) (s, ts @ [Deciding p False])"
| takes: "i < length ts \<Longrightarrow> ts ! i = Deciding p w \<Longrightarrow> decide now p cp s = (GotIdle c, s', closed) \<Longrightarrow>
    http_pool_step cp (s, ts) (s', ts[i := Using c] @ replicate (length closed) ConnDrop)"
| reserves: "i < length ts \<Longrightarrow> ts ! i = Deciding p w \<Longrightarrow> decide now p cp s = (GotDial, s', closed) \<Longrightarrow>
    http_pool_step cp (s, ts) (s', ts[i := Dialling])"
| again: "i < length ts \<Longrightarrow> ts ! i = Deciding p w \<Longrightarrow> decide now p cp s = (Again, s', closed) \<Longrightarrow>
    http_pool_step cp (s, ts) (s', ts[i := Deciding p False] @ replicate (length closed) ConnDrop)"
| parks: "i < length ts \<Longrightarrow> ts ! i = Deciding p w \<Longrightarrow> decide now p cp s = (WaitForChange, s', closed) \<Longrightarrow>
    http_pool_step cp (s, ts) (s', ts[i := Parked p w])"
| woken: "i < length ts \<Longrightarrow> ts ! i = Parked p True \<Longrightarrow> http_pool_step cp (s, ts) (s, ts[i := Deciding p False])"
| gives_up: "i < length ts \<Longrightarrow> ts ! i \<in> {Deciding p w, Parked p w} \<Longrightarrow> http_pool_step cp (s, ts) (s, ts[i := Finished])"
| dial_failed: "i < length ts \<Longrightarrow> ts ! i = Dialling \<Longrightarrow> http_pool_step cp (s, ts) (s, ts[i := ConnDrop] @ [DialDrop])"
| connected: "i < length ts \<Longrightarrow> ts ! i = Dialling \<Longrightarrow> http_pool_step cp (s, ts) (s, ts[i := Using c] @ [DialDrop])"
| checked_in: "i < length ts \<Longrightarrow> ts ! i = Using c \<Longrightarrow> checkin now (max_connections cp) c s = (None, s') \<Longrightarrow>
    http_pool_step cp (s, ts) (s', map wake (ts[i := Finished]))"
| returned: "i < length ts \<Longrightarrow> ts ! i = Using c \<Longrightarrow> return_unused (max_connections cp) c s = (None, s') \<Longrightarrow>
    http_pool_step cp (s, ts) (s', map wake (ts[i := Finished]))"
| dropped: "i < length ts \<Longrightarrow> ts ! i = Using c \<Longrightarrow> http_pool_step cp (s, ts) (s, ts[i := ConnDrop])"
| conn_freed: "i < length ts \<Longrightarrow> ts ! i = ConnDrop \<Longrightarrow>
    http_pool_step cp (s, ts) (s\<lparr>sb_live := sb_live s - 1\<rparr>, ts[i := Notify])"
| dial_freed: "i < length ts \<Longrightarrow> ts ! i = DialDrop \<Longrightarrow>
    http_pool_step cp (s, ts) (s\<lparr>sb_dialing := sb_dialing s - 1\<rparr>, ts[i := Notify])"
| notified: "i < length ts \<Longrightarrow> ts ! i = Notify \<Longrightarrow> http_pool_step cp (s, ts) (s, map wake (ts[i := Finished]))"
| peer_closed: "j < length (sb_idle s) \<Longrightarrow>
    http_pool_step cp (s, ts) (s\<lparr>sb_idle := (sb_idle s)[j := (sb_idle s ! j)\<lparr>hc_open := False\<rparr>]\<rparr>, ts)"

inductive http_pool_reachable :: "caps \<Rightarrow> sub_pool \<times> pool_task list \<Rightarrow> bool" for cp where
  pool_start: "http_pool_reachable cp (sub_new, [])"
| pool_next: "http_pool_reachable cp x \<Longrightarrow> http_pool_step cp x y \<Longrightarrow> http_pool_reachable cp y"

subsection \<open>What a decision gives\<close>

lemma pop_idle_parts:
  "pop_idle now pol cs = (g, rest, closed) \<Longrightarrow>
     length cs = length rest + length closed + (case g of None \<Rightarrow> 0 | Some _ \<Rightarrow> 1)"
  by (induction cs arbitrary: g rest closed) (auto split: if_splits prod.splits)

lemma pop_idle_usable:
  "pop_idle now pol cs = (Some c, rest, closed) \<Longrightarrow> c \<in> set cs \<and> \<not> unusable now pol c \<and> \<not> too_idle now pol c"
  by (induction cs arbitrary: rest closed) (auto split: if_splits prod.splits)

text \<open>
  A connection is reused only within its limits. What a request is handed is one of the idle
  connections, open, younger than its lifetime and idle for less than its limit; and a request that was
  not declared idempotent never gets one idle for longer than the reuse bound.
\<close>

theorem reuse_within_limits:
  assumes "decide now pol cp sub = (GotIdle c, sub', closed)"
  shows "c \<in> set (sb_idle sub) \<and> hc_open c \<and> now - hc_created c < rp_max_lifetime pol \<and>
    now - hc_idle_since c < hc_idle_limit c \<and>
    (rp_idempotent pol \<or> now - hc_idle_since c \<le> rp_unsafe_reuse_max_idle pol)"
proof -
  from assms obtain rest cl where "pop_idle now pol (rev (sb_idle sub)) = (Some c, rest, cl)"
    by (auto simp: decide_def Let_def split: prod.splits option.splits if_splits)
  from pop_idle_usable [OF this] show ?thesis by (auto simp: unusable_def too_idle_def)
qed

definition demo_policy :: "bool \<Rightarrow> reuse_policy" where
  "demo_policy idem = \<lparr>rp_max_lifetime = 100, rp_idempotent = idem, rp_unsafe_reuse_max_idle = 2\<rparr>"

definition demo_conn :: "nat \<Rightarrow> http_conn" where
  "demo_conn since = \<lparr>hc_open = True, hc_created = 0, hc_idle_since = since, hc_idle_limit = 50\<rparr>"

theorem reuse_within_limits_witness:
  "\<exists>c sub'. decide 10 (demo_policy False) \<lparr>max_connections = 2, max_dials = 1\<rparr>
      \<lparr>sb_idle = [demo_conn 9], sb_live = 1, sb_dialing = 0\<rparr> = (GotIdle c, sub', []) \<and> 10 - hc_idle_since c \<le> 2"
proof -
  have d: "decide 10 (demo_policy False) \<lparr>max_connections = 2, max_dials = 1\<rparr>
      \<lparr>sb_idle = [demo_conn 9], sb_live = 1, sb_dialing = 0\<rparr> =
    (GotIdle (demo_conn 9), \<lparr>sb_idle = [], sb_live = 1, sb_dialing = 0\<rparr>, [])" by code_simp
  have "10 - hc_idle_since (demo_conn 9) \<le> 2" using reuse_within_limits [OF d] by (simp add: demo_policy_def)
  with d show ?thesis by blast
qed

text \<open>
  A connection that is handed back unused keeps its idle time and goes on top of the stack, so the stack
  need not be ordered by idleness: here the top is too idle for the request, the connection below it is
  not, and the request is told to dial.
\<close>

lemma usable_connection_below_idle_top:
  "let sub = \<lparr>sb_idle = [], sb_live = 2, sb_dialing = 0\<rparr>;
       sub1 = snd (checkin 9 2 (demo_conn 0) sub);
       sub2 = snd (return_unused 2 (demo_conn 1) sub1);
       pol = demo_policy False in
   \<not> unusable 10 pol (hd (sb_idle sub2)) \<and> \<not> too_idle 10 pol (hd (sb_idle sub2)) \<and>
   fst (decide 10 pol \<lparr>max_connections = 3, max_dials = 1\<rparr> sub2) = GotDial"
  by code_simp

lemma idle_limit_le: "idle_limit configured ka \<le> configured"
  by (simp add: idle_limit_def split: option.split)

subsection \<open>The counters\<close>

fun holds_conn :: "pool_task \<Rightarrow> bool" where
  "holds_conn (Using _) = True"
| "holds_conn Dialling = True"
| "holds_conn ConnDrop = True"
| "holds_conn _ = False"

fun holds_dial :: "pool_task \<Rightarrow> bool" where
  "holds_dial Dialling = True"
| "holds_dial DialDrop = True"
| "holds_dial _ = False"

definition counted :: "sub_pool \<Rightarrow> pool_task list \<Rightarrow> bool" where
  "counted s ts \<longleftrightarrow>
     sb_live s = length (sb_idle s) + length (filter holds_conn ts) \<and> sb_dialing s = length (filter holds_dial ts)"

definition within :: "caps \<Rightarrow> sub_pool \<Rightarrow> bool" where
  "within cp s \<longleftrightarrow> sb_live s \<le> max_connections cp \<and> sb_dialing s \<le> max_dials cp"

text \<open>No room: nothing a parked request could take or close.\<close>

definition no_room :: "caps \<Rightarrow> sub_pool \<Rightarrow> bool" where
  "no_room cp s \<longleftrightarrow> max_connections cp \<le> sb_live s \<and> sb_idle s = [] \<or> max_dials cp \<le> sb_dialing s"

definition none_forgotten :: "bool \<Rightarrow> pool_task list \<Rightarrow> bool" where
  "none_forgotten full ts \<longleftrightarrow> (\<forall>p. Parked p False \<in> set ts \<longrightarrow> Notify \<in> set ts \<or> full)"

lemma wake_keeps [simp]: "holds_conn (wake t) = holds_conn t" "holds_dial (wake t) = holds_dial t"
  by (cases t; simp)+

lemma wake_keeps_comp [simp]: "holds_conn \<circ> wake = holds_conn" "holds_dial \<circ> wake = holds_dial"
  by (simp_all add: fun_eq_iff)

lemma wake_not_parked: "wake t \<noteq> Parked p False"
  by (cases t) simp_all

lemma none_forgotten_wake [simp]: "none_forgotten full (map wake ts)"
proof -
  have "Parked p False \<notin> wake ` set ts" for p using wake_not_parked by (metis imageE)
  then show ?thesis by (simp add: none_forgotten_def)
qed

lemma none_forgotten_update:
  assumes "none_forgotten full ts" and "i < length ts" and "ts ! i \<noteq> Notify" and "full \<longrightarrow> full'"
    and "\<forall>p. t = Parked p False \<longrightarrow> full'" and "\<forall>p. Parked p False \<notin> set us"
  shows "none_forgotten full' (ts[i := t] @ us)"
proof -
  have "Notify \<in> set (ts[i := t])" if "Notify \<in> set ts"
    using that assms(2,3) by (metis in_set_conv_nth length_list_update nth_list_update_neq)
  moreover have "Parked p False \<in> set ts" if "Parked p False \<in> set (ts[i := t])" "t \<noteq> Parked p False" for p
    using that set_update_subset_insert by fastforce
  ultimately show ?thesis using assms unfolding none_forgotten_def by (metis Un_iff set_append)
qed

lemma none_forgotten_notify: "i < length ts \<Longrightarrow> none_forgotten full (ts[i := Notify])"
  by (auto simp: none_forgotten_def set_update_memI)

lemma decide_frame:
  assumes "decide now pol cp s = (r, s', closed)" and "r \<noteq> GotDial"
  shows "sb_live s' = sb_live s \<and> sb_dialing s' = sb_dialing s \<and> (sb_idle s = [] \<longrightarrow> sb_idle s' = []) \<and>
    length (sb_idle s) = length (sb_idle s') + length closed + (case r of GotIdle _ \<Rightarrow> 1 | _ \<Rightarrow> 0)"
proof -
  obtain g rest cl where p: "pop_idle now pol (rev (sb_idle s)) = (g, rest, cl)" by (metis prod_cases3)
  from pop_idle_parts [OF p] have "length (sb_idle s) = length rest + length cl + (case g of None \<Rightarrow> 0 | Some _ \<Rightarrow> 1)"
    by simp
  then show ?thesis using assms p
    by (cases rest rule: rev_cases) (auto simp: decide_def Let_def split: option.splits if_splits)
qed

lemma decide_dial:
  assumes "decide now pol cp s = (GotDial, s', closed)"
  shows "sb_live s' = sb_live s + 1 \<and> sb_dialing s' = sb_dialing s + 1 \<and> sb_idle s' = sb_idle s \<and>
    sb_live s < max_connections cp \<and> sb_dialing s < max_dials cp"
proof -
  obtain g rest cl where p: "pop_idle now pol (rev (sb_idle s)) = (g, rest, cl)" by (metis prod_cases3)
  have "rest = rev (sb_idle s)" if "g = None" "cl = []"
    using p that by (cases "rev (sb_idle s)") (auto split: if_splits prod.splits)
  then show ?thesis using assms p by (auto simp: decide_def Let_def split: option.splits if_splits)
qed

lemma decide_waits: "decide now pol cp s = (WaitForChange, s', closed) \<Longrightarrow> no_room cp s' \<and> closed = []"
  by (auto simp: decide_def Let_def no_room_def split: prod.splits option.splits if_splits)

definition pool_ok :: "caps \<Rightarrow> sub_pool \<times> pool_task list \<Rightarrow> bool" where
  "pool_ok cp x \<longleftrightarrow>
     (case x of (s, ts) \<Rightarrow> counted s ts \<and> within cp s \<and> none_forgotten (no_room cp s) ts)"

lemma pool_ok_move:
  assumes "pool_ok cp (s, ts)" and "i < length ts" and "ts ! i \<noteq> Notify"
    and "sb_live s' + length (sb_idle s) + (if holds_conn (ts ! i) then 1 else 0) =
      sb_live s + length (sb_idle s') + (if holds_conn t then 1 else 0) + length (filter holds_conn us)"
    and "sb_dialing s' + (if holds_dial (ts ! i) then 1 else 0) =
      sb_dialing s + (if holds_dial t then 1 else 0) + length (filter holds_dial us)"
    and "within cp s'" and "no_room cp s \<longrightarrow> no_room cp s'"
    and "\<forall>p. t = Parked p False \<longrightarrow> no_room cp s'" and "\<forall>p. Parked p False \<notin> set us"
  shows "pool_ok cp (s', ts[i := t] @ us)"
proof -
  have ts: "length (filter holds_conn (ts[i := t] @ us)) + (if holds_conn (ts ! i) then 1 else 0) =
      length (filter holds_conn ts) + (if holds_conn t then 1 else 0) + length (filter holds_conn us)"
    "length (filter holds_dial (ts[i := t] @ us)) + (if holds_dial (ts ! i) then 1 else 0) =
      length (filter holds_dial ts) + (if holds_dial t then 1 else 0) + length (filter holds_dial us)"
    using length_filter_update [OF assms(2), of holds_conn t] length_filter_update [OF assms(2), of holds_dial t] by simp_all
  from assms(1) have "counted s ts" "none_forgotten (no_room cp s) ts" by (simp_all add: pool_ok_def)
  with ts assms(4,5) have "counted s' (ts[i := t] @ us)" unfolding counted_def by linarith
  with none_forgotten_update [OF \<open>none_forgotten (no_room cp s) ts\<close> assms(2,3,7-9)] assms(6) show ?thesis
    by (simp add: pool_ok_def)
qed

lemma pool_ok_wake:
  assumes "counted s ts" and "within cp s"
  shows "pool_ok cp (s, map wake ts)"
  using assms by (simp add: pool_ok_def counted_def filter_map)

lemma pool_ok_step: "http_pool_step cp x y \<Longrightarrow> pool_ok cp x \<Longrightarrow> pool_ok cp y"
proof (induction rule: http_pool_step.induct)
  case (asks s ts p)
  then show ?case by (auto simp: pool_ok_def counted_def none_forgotten_def)
next
  case (takes i ts p w now s c s' closed)
  then show ?case using decide_frame [OF takes(3)]
    by (intro pool_ok_move [of cp s]) (auto simp: pool_ok_def within_def no_room_def)
next
  case (reserves i ts p w now s s' closed)
  then show ?case using decide_dial [OF reserves(3)] pool_ok_move [of cp s ts i s' Dialling "[]"]
    by (auto simp: pool_ok_def within_def no_room_def)
next
  case (again i ts p w now s s' closed)
  then show ?case using decide_frame [OF again(3)]
    by (intro pool_ok_move [of cp s]) (auto simp: pool_ok_def within_def no_room_def)
next
  case (parks i ts p w now s s' closed)
  then show ?case
    using decide_frame [OF parks(3)] decide_waits [OF parks(3)] pool_ok_move [of cp s ts i s' "Parked p w" "[]"]
    by (auto simp: pool_ok_def within_def)
next
  case (woken i ts p s)
  then show ?case using pool_ok_move [of cp s ts i s "Deciding p False" "[]"] by (simp add: pool_ok_def)
next
  case (gives_up i ts p w s)
  then show ?case using pool_ok_move [of cp s ts i s Finished "[]"] by (auto simp: pool_ok_def)
next
  case (dial_failed i ts s)
  then show ?case by (intro pool_ok_move [of cp s]) (simp_all add: pool_ok_def)
next
  case (connected i ts s c)
  then show ?case by (intro pool_ok_move [of cp s]) (simp_all add: pool_ok_def)
next
  case (dropped i ts c s)
  then show ?case using pool_ok_move [of cp s ts i s ConnDrop "[]"] by (simp add: pool_ok_def)
next
  case (peer_closed j s ts)
  then show ?case by (auto simp: pool_ok_def counted_def within_def no_room_def)
next
  case (notified i ts s)
  then have "counted s (ts[i := Finished])"
    using length_filter_update [of i ts holds_conn Finished] length_filter_update [of i ts holds_dial Finished]
    by (simp add: pool_ok_def counted_def)
  with notified show ?case by (intro pool_ok_wake) (simp_all add: pool_ok_def)
next
  case (conn_freed i ts s)
  then have "counted (s\<lparr>sb_live := sb_live s - 1\<rparr>) (ts[i := Notify])"
    using length_filter_update [of i ts holds_conn Notify] length_filter_update [of i ts holds_dial Notify]
    by (auto simp: pool_ok_def counted_def)
  with conn_freed show ?case by (auto simp: pool_ok_def within_def none_forgotten_notify)
next
  case (dial_freed i ts s)
  then have "counted (s\<lparr>sb_dialing := sb_dialing s - 1\<rparr>) (ts[i := Notify])"
    using length_filter_update [of i ts holds_conn Notify] length_filter_update [of i ts holds_dial Notify]
    by (auto simp: pool_ok_def counted_def)
  with dial_freed show ?case by (auto simp: pool_ok_def within_def none_forgotten_notify)
next
  case (checked_in i ts c now s s')
  then show ?case
    using length_filter_update [of i ts holds_conn Finished] length_filter_update [of i ts holds_dial Finished]
    by (intro pool_ok_wake) (auto simp: pool_ok_def counted_def within_def checkin_def put_back_def split: if_splits)
next
  case (returned i ts c s s')
  then show ?case
    using length_filter_update [of i ts holds_conn Finished] length_filter_update [of i ts holds_dial Finished]
    by (intro pool_ok_wake) (auto simp: pool_ok_def counted_def within_def return_unused_def put_back_def split: if_splits)
qed

lemma pool_reachable_ok: "http_pool_reachable cp x \<Longrightarrow> pool_ok cp x"
proof (induction rule: http_pool_reachable.induct)
  case pool_start
  then show ?case by (simp add: pool_ok_def counted_def within_def none_forgotten_def sub_new_def)
next
  case (pool_next x y)
  then show ?case using pool_ok_step by blast
qed

lemma demo_parked_reachable:
  "http_pool_reachable \<lparr>max_connections = 1, max_dials = 1\<rparr>
     (\<lparr>sb_idle = [], sb_live = 1, sb_dialing = 1\<rparr>, [Dialling, Parked (demo_policy True) False])"
proof -
  let ?cp = "\<lparr>max_connections = 1, max_dials = 1\<rparr>" and ?s = "\<lparr>sb_idle = [], sb_live = 1, sb_dialing = 1\<rparr>"
  let ?d = "Deciding (demo_policy True) False"
  have "http_pool_reachable ?cp (sub_new, [] @ [?d])" by (rule pool_next [OF pool_start asks])
  moreover have "decide 0 (demo_policy True) ?cp sub_new = (GotDial, ?s, [])" by (simp add: decide_def sub_new_def)
  then have "http_pool_step ?cp (sub_new, [?d]) (?s, [?d][0 := Dialling])"
    by (intro reserves [of 0 _ "demo_policy True" False 0]) simp_all
  ultimately have "http_pool_reachable ?cp (?s, [Dialling])" using pool_next by fastforce
  then have "http_pool_reachable ?cp (?s, [Dialling] @ [?d])" by (rule pool_next [OF _ asks])
  moreover have "decide 0 (demo_policy True) ?cp ?s = (WaitForChange, ?s, [])" by (simp add: decide_def)
  then have "http_pool_step ?cp (?s, [Dialling, ?d]) (?s, [Dialling, ?d][1 := Parked (demo_policy True) False])"
    by (intro parks [of 1 _ "demo_policy True" False 0]) simp_all
  ultimately show ?thesis using pool_next by fastforce
qed

text \<open>
  C24: connections and dials of a sub-pool stay within their limits. A sub-pool is what an upstream's limits
  apply to: the upstream's one, or one for each uid when the upstream is partitioned by uid. Under every interleaving of requests, dials, check-ins
  and drops the live count is exactly the connections idle, in use, being dialled or being closed, the dial
  count is the dials not yet released, and neither passes its limit.
\<close>

theorem http_pool_within_limits:
  assumes "http_pool_reachable cp (s, ts)"
  shows "sb_live s = length (sb_idle s) + length (filter holds_conn ts) \<and> sb_dialing s = length (filter holds_dial ts) \<and>
    sb_live s \<le> max_connections cp \<and> sb_dialing s \<le> max_dials cp"
  using pool_reachable_ok [OF assms] by (simp add: pool_ok_def counted_def within_def)

theorem http_pool_within_limits_witness:
  "sb_live \<lparr>sb_idle = [], sb_live = 1, sb_dialing = 1\<rparr> \<le> max_connections \<lparr>max_connections = 1, max_dials = 1\<rparr>"
  using http_pool_within_limits [OF demo_parked_reachable] by blast

text \<open>
  C25: no waiting request is forgotten. In every reachable state a parked request that was not notified
  waits for somebody: another task holds a connection or a dial that it will release, or is about to
  notify; so a request never waits for room that is already there.
\<close>

theorem parked_request_is_owed_a_wakeup:
  assumes "http_pool_reachable cp (s, ts)" and "0 < max_connections cp" and "0 < max_dials cp"
    and "Parked p False \<in> set ts"
  shows "list_ex (\<lambda>t. holds_conn t \<or> holds_dial t \<or> t = Notify) ts \<and>
    (Notify \<in> set ts \<or> sb_dialing s = max_dials cp \<or> sb_live s = max_connections cp \<and> sb_idle s = [])"
proof -
  from pool_reachable_ok [OF assms(1)] have ok: "counted s ts" "within cp s" "none_forgotten (no_room cp s) ts"
    by (simp_all add: pool_ok_def)
  with assms(4) have cases: "Notify \<in> set ts \<or> sb_dialing s = max_dials cp \<or> sb_live s = max_connections cp \<and> sb_idle s = []"
    by (auto simp: none_forgotten_def no_room_def within_def)
  moreover have "list_ex (\<lambda>t. holds_conn t \<or> holds_dial t \<or> t = Notify) ts"
  proof -
    have ex: "list_ex P ts" if "0 < length (filter P ts)" for P
      using that by (auto simp: filter_empty_conv list_ex_iff)
    from cases show ?thesis
    proof (elim disjE)
      assume "Notify \<in> set ts"
      then show ?thesis by (auto simp: list_ex_iff)
    next
      assume "sb_dialing s = max_dials cp"
      with ok(1) assms(3) ex [of holds_dial] show ?thesis by (auto simp: counted_def list_ex_iff)
    next
      assume "sb_live s = max_connections cp \<and> sb_idle s = []"
      with ok(1) assms(2) ex [of holds_conn] show ?thesis by (auto simp: counted_def list_ex_iff)
    qed
  qed
  ultimately show ?thesis by simp
qed

theorem parked_request_is_owed_a_wakeup_witness:
  "list_ex (\<lambda>t. holds_conn t \<or> holds_dial t \<or> t = Notify) [Dialling, Parked (demo_policy True) False]"
  using parked_request_is_owed_a_wakeup [OF demo_parked_reachable, of "demo_policy True"] by simp

end
