(* ===== verification/Placeholder.thy ===== *)
theory Placeholder
  imports Scan Decimal
begin

text \<open>
  The placeholder rewriter of the PostgreSQL adapter (\<open>ferro-backend-pg/src/placeholder.rs\<close>): a lone
  \<open>?\<close> in code becomes \<open>$1\<close>, \<open>$2\<close>, \<dots>, and the bounded cache in front of it. A function reads the rest
  of the statement where the code keeps an index, and returns what it copies out and what is left. The
  parameter counter, a \<open>u32\<close> in the source, is a natural number: a statement fits in one frame, so it
  has far fewer than \<open>2 ^ 32\<close> question marks.
\<close>

subsection \<open>The scanner\<close>

fun take_char :: "string \<Rightarrow> string \<times> string" where
  "take_char [] = ([], [])"
| "take_char (c # cs) = (c # takeWhile is_cont_byte cs, dropWhile is_cont_byte cs)"

lemma drop_char_less [simp]: "length (dropWhile is_cont_byte cs) < Suc (length cs)"
  by (simp add: le_imp_less_Suc length_dropWhile_le)

function copy_quoted :: "char \<Rightarrow> string \<Rightarrow> string \<times> string" where
  "copy_quoted q [] = ([], [])"
| "copy_quoted q (c # cs) =
     (if c = q then
        (case cs of
           d # ds \<Rightarrow> if d = q then (case copy_quoted q ds of (a, r) \<Rightarrow> (q # q # a, r)) else ([q], cs)
         | [] \<Rightarrow> ([q], []))
      else
        (case take_char (c # cs) of (ch, rest) \<Rightarrow>
           (case copy_quoted q rest of (a, r) \<Rightarrow> (ch @ a, r))))"
  by pat_completeness auto
termination
  by (relation "measure (\<lambda>(q, s). length s)") simp_all

function copy_line :: "string \<Rightarrow> string \<times> string" where
  "copy_line [] = ([], [])"
| "copy_line (c # cs) =
     (if c = newline then ([], c # cs)
      else (case take_char (c # cs) of (ch, rest) \<Rightarrow> (case copy_line rest of (a, r) \<Rightarrow> (ch @ a, r))))"
  by pat_completeness auto
termination
  by (relation "measure length") simp_all

function copy_block :: "nat \<Rightarrow> string \<Rightarrow> string \<times> string" where
  "copy_block 0 s = ([], s)"
| "copy_block (Suc d) [] = ([], [])"
| "copy_block (Suc d) (c # cs) =
     (if c = CHR ''/'' \<and> byte_at cs 0 = Some CHR ''*'' then
        (case copy_block (Suc (Suc d)) (tl cs) of (a, r) \<Rightarrow> (''/*'' @ a, r))
      else if c = CHR ''*'' \<and> byte_at cs 0 = Some CHR ''/'' then
        (case copy_block d (tl cs) of (a, r) \<Rightarrow> (''*/'' @ a, r))
      else (case take_char (c # cs) of (ch, rest) \<Rightarrow> (case copy_block (Suc d) rest of (a, r) \<Rightarrow> (ch @ a, r))))"
  by pat_completeness auto
termination
  by (relation "measure (\<lambda>(d, s). length s)") simp_all

definition dollar_quote_tag_end :: "string \<Rightarrow> nat option" where
  "dollar_quote_tag_end s =
     (let t = tl s; k = length (takeWhile is_dolq_cont t) in
      if t \<noteq> [] \<and> is_ascii_digit (hd t) then None
      else if byte_at t k = Some CHR ''$'' then Some (k + 2) else None)"

text \<open>One arm of the \<open>match\<close>: what it writes, the next parameter, what is left.\<close>

definition scan_arm :: "nat \<Rightarrow> string \<Rightarrow> string \<times> nat \<times> string" where
  "scan_arm n s =
     (let c = hd s; cs = tl s; copy = (case take_char s of (a, r) \<Rightarrow> (a, n, r)) in
      if c = sq \<or> c = dq then (case copy_quoted c cs of (a, r) \<Rightarrow> (c # a, n, r))
      else if c = CHR ''-'' \<and> byte_at cs 0 = Some CHR ''-'' then
        (case copy_line (tl cs) of (a, r) \<Rightarrow> (''--'' @ a, n, r))
      else if c = CHR ''/'' \<and> byte_at cs 0 = Some CHR ''*'' then
        (case copy_block 1 (tl cs) of (a, r) \<Rightarrow> (''/*'' @ a, n, r))
      else if c = CHR ''$'' then
        (case dollar_quote_tag_end s of
           None \<Rightarrow> copy
         | Some e \<Rightarrow>
             (let delim = take e s; rest = drop e s in
              case find_sub delim rest of
                Some p \<Rightarrow> (delim @ take (p + e) rest, n, drop (p + e) rest)
              | None \<Rightarrow> (delim @ rest, n, [])))
      else if c = CHR ''?'' then
        (if byte_at cs 0 = Some CHR ''?'' then (''?'', n, tl cs)
         else if byte_at cs 0 = Some CHR ''|'' \<or> byte_at cs 0 = Some CHR ''&'' then (''?'', n, cs)
         else (CHR ''$'' # to_dec n, n + 1, cs))
      else copy)"

text \<open>The inner loops copy verbatim.\<close>

lemma copy_quoted_split: "fst (copy_quoted q s) @ snd (copy_quoted q s) = s"
proof (induction q s rule: copy_quoted.induct)
  case (2 q c cs)
  show ?case
  proof (cases "c = q")
    case True
    with 2(1) show ?thesis by (cases cs) (simp_all split: prod.split add: case_prod_beta)
  next
    case False
    with 2(2) [OF False take_char.simps(2) [symmetric]] show ?thesis by (simp add: case_prod_beta)
  qed
qed simp

lemma copy_line_split: "fst (copy_line s) @ snd (copy_line s) = s"
proof (induction s rule: copy_line.induct)
  case (2 c cs)
  show ?case
  proof (cases "c = newline")
    case False
    with 2 [OF False take_char.simps(2) [symmetric]] show ?thesis by (simp add: case_prod_beta)
  qed simp
qed simp

lemma copy_block_split: "fst (copy_block d s) @ snd (copy_block d s) = s"
proof (induction d s rule: copy_block.induct)
  case (3 d c cs)
  consider "c = CHR ''/''" "byte_at cs 0 = Some CHR ''*''"
    | "\<not> (c = CHR ''/'' \<and> byte_at cs 0 = Some CHR ''*'')" "c = CHR ''*''" "byte_at cs 0 = Some CHR ''/''"
    | "\<not> (c = CHR ''/'' \<and> byte_at cs 0 = Some CHR ''*'')" "\<not> (c = CHR ''*'' \<and> byte_at cs 0 = Some CHR ''/'')"
    by blast
  then show ?case
  proof cases
    case 1
    with 3(1) show ?thesis by (cases cs) (simp_all add: case_prod_beta)
  next
    case 2
    with 3(2) show ?thesis by (cases cs) (simp_all add: case_prod_beta)
  next
    case 3
    with "3.IH"(3) [OF 3 take_char.simps(2) [symmetric]] show ?thesis by (simp only: copy_block.simps if_False take_char.simps prod.case case_prod_beta fst_conv snd_conv) simp
  qed
qed simp_all

lemma verbatim_shorter: "fst p @ snd p = s \<Longrightarrow> length (snd p) \<le> length s"
  by auto

lemma scan_arm_shorter:
  assumes "s \<noteq> []"
  shows "length (snd (snd (scan_arm n s))) < length s"
proof -
  obtain c cs where s: "s = c # cs" using assms by (cases s) auto
  have "length (tl cs) \<le> length cs" by simp
  note verbatim_shorter [OF copy_quoted_split [of c cs]] order.trans [OF verbatim_shorter [OF copy_line_split] this]
    order.trans [OF verbatim_shorter [OF copy_block_split] this]
  then show ?thesis unfolding s scan_arm_def Let_def
    by (simp add: case_prod_beta less_Suc_eq_le length_dropWhile_le dollar_quote_tag_end_def Let_def split: option.split)
qed

function scan_from :: "bool \<Rightarrow> nat \<Rightarrow> string \<Rightarrow> string" where
  "scan_from in_ident n s =
     (if s = [] then []
      else
        (let c = hd s in
         if c = CHR ''$'' \<and> in_ident then (case take_char s of (a, r) \<Rightarrow> a @ scan_from in_ident n r)
         else
           (let in_ident' = (if in_ident then is_dolq_cont c \<or> c = CHR ''$''
                             else is_ascii_alphabetic c \<or> c = CHR ''_'' \<or> 128 \<le> byte c) in
            case scan_arm n s of (a, n', r) \<Rightarrow> a @ scan_from in_ident' n' r)))"
  by pat_completeness auto
termination
proof (relation "measure (\<lambda>(b, n, s). length s)", goal_cases)
  case (2 b n s c a r)
  then show ?case by (cases s) auto
next
  case (3 b n s c ident' a y n' r)
  then have "scan_arm n s = (a, n', r)" by simp
  with 3 scan_arm_shorter [of s n] show ?case by (simp add: case_prod_beta)
qed simp

declare scan_from.simps [simp del]

definition placeholder_scan :: "string \<Rightarrow> string" where
  "placeholder_scan sql = scan_from False 1 sql"

subsection \<open>The cache\<close>

record placeholder_cache =
  pc_cap :: nat
  pc_map :: "string \<rightharpoonup> string"
  pc_order :: "string list"

definition cache_new :: "nat \<Rightarrow> placeholder_cache" where
  "cache_new cap = \<lparr>pc_cap = max cap 1, pc_map = Map.empty, pc_order = []\<rparr>"

function cache_evict :: "placeholder_cache \<Rightarrow> placeholder_cache" where
  "cache_evict pc =
     (if pc_cap pc < length (pc_order pc)
      then cache_evict (pc\<lparr>pc_order := tl (pc_order pc), pc_map := (pc_map pc)(hd (pc_order pc) := None)\<rparr>)
      else pc)"
  by pat_completeness auto
termination
  by (relation "measure (\<lambda>pc. length (pc_order pc))") auto

declare cache_evict.simps [simp del]

definition cache_get_or_insert :: "string \<Rightarrow> placeholder_cache \<Rightarrow> string \<times> placeholder_cache" where
  "cache_get_or_insert sql pc =
     (case pc_map pc sql of
        Some hit \<Rightarrow> (hit, pc)
      | None \<Rightarrow>
          (let normalized = placeholder_scan sql in
           (normalized,
            cache_evict (pc\<lparr>pc_map := (pc_map pc)(sql \<mapsto> normalized), pc_order := pc_order pc @ [sql]\<rparr>))))"

text \<open>A history of the process-wide cache: its answers in order.\<close>

fun normalize_all :: "string list \<Rightarrow> placeholder_cache \<Rightarrow> string list \<times> placeholder_cache" where
  "normalize_all [] pc = ([], pc)"
| "normalize_all (sql # sqls) pc =
     (case cache_get_or_insert sql pc of (r, pc1) \<Rightarrow>
        (case normalize_all sqls pc1 of (rs, pc2) \<Rightarrow> (r # rs, pc2)))"

definition cache_ok :: "placeholder_cache \<Rightarrow> bool" where
  "cache_ok pc \<longleftrightarrow>
     distinct (pc_order pc) \<and> dom (pc_map pc) = set (pc_order pc) \<and>
     (\<forall>sql r. pc_map pc sql = Some r \<longrightarrow> r = placeholder_scan sql)"

lemma cache_evict_ok: "cache_ok pc \<Longrightarrow> cache_ok (cache_evict pc)"
proof (induction pc rule: cache_evict.induct)
  case (1 pc)
  show ?case
  proof (cases "pc_cap pc < length (pc_order pc)")
    case True
    then obtain q qs where q: "pc_order pc = q # qs" by (cases "pc_order pc") auto
    with 1(2) have "cache_ok (pc\<lparr>pc_order := qs, pc_map := (pc_map pc)(q := None)\<rparr>)"
      by (auto simp: cache_ok_def split: if_splits)
    with 1(1) True q show ?thesis by (simp add: cache_evict.simps [of pc])
  qed (use 1(2) in \<open>simp add: cache_evict.simps [of pc]\<close>)
qed

lemma cache_evict_size: "length (pc_order (cache_evict pc)) \<le> pc_cap pc \<and> pc_cap (cache_evict pc) = pc_cap pc"
proof (induction pc rule: cache_evict.induct)
  case (1 pc)
  then show ?case by (cases "pc_cap pc < length (pc_order pc)") (simp_all add: cache_evict.simps [of pc])
qed

lemma cache_get_ok:
  assumes "cache_get_or_insert sql pc = (r, pc')" and "cache_ok pc" and "length (pc_order pc) \<le> pc_cap pc"
  shows "r = placeholder_scan sql \<and> cache_ok pc' \<and> length (pc_order pc') \<le> pc_cap pc' \<and> pc_cap pc' = pc_cap pc"
proof (cases "pc_map pc sql")
  case (Some hit)
  with assms show ?thesis by (auto simp: cache_get_or_insert_def cache_ok_def)
next
  case None
  then have "sql \<notin> set (pc_order pc)" using assms(2) by (auto simp: cache_ok_def)
  then have "cache_ok (pc\<lparr>pc_map := (pc_map pc)(sql \<mapsto> placeholder_scan sql), pc_order := pc_order pc @ [sql]\<rparr>)"
    (is "cache_ok ?next") using assms(2) by (auto simp: cache_ok_def split: if_splits)
  from cache_evict_ok [OF this] cache_evict_size [of ?next] None assms(1) show ?thesis
    by (auto simp: cache_get_or_insert_def Let_def)
qed

lemma normalize_all_ok:
  assumes "normalize_all sqls pc = (rs, pc')" and "cache_ok pc" and "length (pc_order pc) \<le> pc_cap pc"
  shows "rs = map placeholder_scan sqls \<and> cache_ok pc' \<and> length (pc_order pc') \<le> pc_cap pc' \<and> pc_cap pc' = pc_cap pc"
  using assms
proof (induction sqls arbitrary: pc rs pc')
  case (Cons sql sqls)
  obtain r pc1 where g: "cache_get_or_insert sql pc = (r, pc1)" by fastforce
  obtain rs1 pc2 where n: "normalize_all sqls pc1 = (rs1, pc2)" by fastforce
  from cache_get_ok [OF g Cons.prems(2,3)] Cons.IH [OF n] Cons.prems(1) g n show ?case by auto
qed simp

text \<open>
  The cache is invisible and bounded. Whatever statements are normalized in whatever order, every
  answer is what the scanner gives for that statement, and the cache holds at most its capacity.
\<close>

theorem placeholder_cache_is_transparent:
  "case normalize_all sqls (cache_new cap) of
     (rs, pc) \<Rightarrow> rs = map placeholder_scan sqls \<and> card (dom (pc_map pc)) \<le> max cap 1"
proof -
  obtain rs pc where n: "normalize_all sqls (cache_new cap) = (rs, pc)" by fastforce
  have "cache_ok (cache_new cap)" "length (pc_order (cache_new cap)) \<le> pc_cap (cache_new cap)"
    by (simp_all add: cache_ok_def cache_new_def)
  from normalize_all_ok [OF n this] have "rs = map placeholder_scan sqls" "cache_ok pc" "length (pc_order pc) \<le> max cap 1"
    by (simp_all add: cache_new_def)
  then show ?thesis by (simp add: n cache_ok_def distinct_card)
qed

subsection \<open>The scanner's reading of a statement\<close>

text \<open>
  A grammar of the regions the scanner skips, which are PostgreSQL's except that it has no escape strings: quoted text up to its closing quote (a doubled quote does not
  close it), a line comment, a nested block comment, a dollar-quoted body up to the first occurrence of its
  delimiter; each may also be open at the end of the statement.
\<close>

inductive quote_tail :: "bool \<Rightarrow> char \<Rightarrow> string \<Rightarrow> bool" for closed :: bool and q :: char where
  "closed \<Longrightarrow> quote_tail closed q [q]"
| "\<not> closed \<Longrightarrow> quote_tail closed q []"
| "quote_tail closed q b \<Longrightarrow> quote_tail closed q (q # q # b)"
| "c \<noteq> q \<Longrightarrow> quote_tail closed q b \<Longrightarrow> quote_tail closed q (c # b)"

inductive block_tail :: "bool \<Rightarrow> nat \<Rightarrow> string \<Rightarrow> bool" for closed :: bool where
  "closed \<Longrightarrow> block_tail closed 0 []"
| "\<not> closed \<Longrightarrow> block_tail closed (Suc d) []"
| "block_tail closed (Suc (Suc d)) b \<Longrightarrow> block_tail closed (Suc d) (''/*'' @ b)"
| "block_tail closed d b \<Longrightarrow> block_tail closed (Suc d) (''*/'' @ b)"
| "\<not> prefix ''/*'' (c # b) \<Longrightarrow> \<not> prefix ''*/'' (c # b) \<Longrightarrow> block_tail closed (Suc d) b \<Longrightarrow>
    block_tail closed (Suc d) (c # b)"

definition dollar_delim :: "string \<Rightarrow> bool" where
  "dollar_delim delim \<longleftrightarrow>
     (\<exists>tag. delim = CHR ''$'' # tag @ ''$'' \<and> list_all is_dolq_cont tag \<and> (tag = [] \<or> \<not> is_ascii_digit (hd tag)))"

inductive skipped :: "string \<Rightarrow> string \<Rightarrow> bool" where
  quoted: "q \<in> {sq, dq} \<Longrightarrow> quote_tail True q a \<Longrightarrow> \<not> prefix [q] rest \<Longrightarrow> skipped (q # a) rest"
| quote_open: "q \<in> {sq, dq} \<Longrightarrow> quote_tail False q a \<Longrightarrow> skipped (q # a) []"
| line: "newline \<notin> set a \<Longrightarrow> rest = [] \<or> hd rest = newline \<Longrightarrow> skipped (''--'' @ a) rest"
| block: "block_tail True 1 a \<Longrightarrow> skipped (''/*'' @ a) rest"
| block_open: "block_tail False 1 a \<Longrightarrow> skipped (''/*'' @ a) []"
| dollar: "dollar_delim delim \<Longrightarrow> find_sub delim (body @ delim) = Some (length body) \<Longrightarrow>
    skipped (delim @ body @ delim) rest"
| dollar_open: "dollar_delim delim \<Longrightarrow> find_sub delim body = None \<Longrightarrow> skipped (delim @ body) []"

definition opens_region :: "bool \<Rightarrow> string \<Rightarrow> bool" where
  "opens_region in_ident s \<longleftrightarrow>
     hd s \<in> {sq, dq} \<or> prefix ''--'' s \<or> prefix ''/*'' s \<or> \<not> in_ident \<and> (\<exists>delim. dollar_delim delim \<and> prefix delim s)"

text \<open>A statement as pieces: text to keep, an escaped question mark, a parameter.\<close>

datatype piece = Verbatim string | Escaped | Parameter

fun piece_source :: "piece \<Rightarrow> string" where
  "piece_source (Verbatim s) = s"
| "piece_source Escaped = ''??''"
| "piece_source Parameter = ''?''"

fun render :: "nat \<Rightarrow> piece list \<Rightarrow> string" where
  "render n [] = []"
| "render n (Verbatim s # ps) = s @ render n ps"
| "render n (Escaped # ps) = ''?'' @ render n ps"
| "render n (Parameter # ps) = CHR ''$'' # to_dec n @ render (n + 1) ps"

definition ident_after :: "bool \<Rightarrow> char \<Rightarrow> bool" where
  "ident_after in_ident c \<longleftrightarrow>
     (if in_ident then is_dolq_cont c \<or> c = CHR ''$''
      else is_ascii_alphabetic c \<or> c = CHR ''_'' \<or> 128 \<le> byte c)"

inductive code_lex :: "bool \<Rightarrow> string \<Rightarrow> piece list \<Rightarrow> bool" where
  lex_end: "code_lex b [] []"
| lex_region: "skipped a rest \<Longrightarrow> b \<longrightarrow> hd a \<noteq> CHR ''$'' \<Longrightarrow> code_lex False rest ps \<Longrightarrow> code_lex b (a @ rest) (Verbatim a # ps)"
| lex_escape: "code_lex False rest ps \<Longrightarrow> code_lex b (''??'' @ rest) (Escaped # ps)"
| lex_operator: "rest \<noteq> [] \<Longrightarrow> hd rest \<in> {CHR ''|'', CHR ''&''} \<Longrightarrow> code_lex False rest ps \<Longrightarrow>
    code_lex b (''?'' @ rest) (Verbatim ''?'' # ps)"
| lex_parameter: "rest = [] \<or> hd rest \<notin> {CHR ''?'', CHR ''|'', CHR ''&''} \<Longrightarrow> code_lex False rest ps \<Longrightarrow>
    code_lex b (''?'' @ rest) (Parameter # ps)"
| lex_code: "c \<noteq> CHR ''?'' \<Longrightarrow> \<not> opens_region b (c # conts @ rest) \<Longrightarrow> list_all is_cont_byte conts \<Longrightarrow>
    rest = [] \<or> \<not> is_cont_byte (hd rest) \<Longrightarrow> code_lex (ident_after b c) rest ps \<Longrightarrow>
    code_lex b (c # conts @ rest) (Verbatim (c # conts) # ps)"

lemma code_lex_source: "code_lex b s ps \<Longrightarrow> concat (map piece_source ps) = s"
  by (induction rule: code_lex.induct) simp_all

lemma quote_tail_plain:
  "list_all (\<lambda>c. c \<noteq> q) x \<Longrightarrow> quote_tail closed q b \<Longrightarrow> quote_tail closed q (x @ b)"
  by (induction x) (auto intro: quote_tail.intros)

lemma conts_differ: "\<not> is_cont_byte q \<Longrightarrow> list_all (\<lambda>c. c \<noteq> q) (takeWhile is_cont_byte cs)"
  by (auto simp: list_all_iff dest: set_takeWhileD)

lemma copy_quoted_region:
  assumes "\<not> is_cont_byte q"
  shows "quote_tail True q (fst (copy_quoted q s)) \<and> \<not> prefix [q] (snd (copy_quoted q s)) \<or>
    quote_tail False q (fst (copy_quoted q s)) \<and> snd (copy_quoted q s) = []"
  using assms
proof (induction q s rule: copy_quoted.induct)
  case (2 q c cs)
  show ?case
  proof (cases "c = q")
    case True
    show ?thesis
    proof (cases cs)
      case Nil
      with True show ?thesis by (simp add: quote_tail.intros)
    next
      case (Cons d ds)
      show ?thesis
      proof (cases "d = q")
        case True
        with 2(1) [OF \<open>c = q\<close> Cons True 2(3)] \<open>c = q\<close> Cons show ?thesis
          by (auto simp: case_prod_beta intro: quote_tail.intros)
      next
        case False
        with \<open>c = q\<close> Cons show ?thesis by (simp add: quote_tail.intros)
      qed
    qed
  next
    case False
    from 2(2) [OF False take_char.simps(2) [symmetric] 2(3)]
      quote_tail_plain [of q "c # takeWhile is_cont_byte cs"] conts_differ [OF 2(3), of cs] False
    show ?thesis by (auto simp: case_prod_beta)
  qed
qed (simp add: quote_tail.intros)

lemma copy_line_region:
  "newline \<notin> set (fst (copy_line s)) \<and> (snd (copy_line s) = [] \<or> hd (snd (copy_line s)) = newline)"
proof (induction s rule: copy_line.induct)
  case (2 c cs)
  have "\<not> is_cont_byte newline" by code_simp
  then have "newline \<notin> set (takeWhile is_cont_byte cs)" by (auto dest: set_takeWhileD)
  with 2 [OF _ take_char.simps(2) [symmetric]] show ?case by (simp add: case_prod_beta)
qed simp

lemma block_tail_conts:
  assumes "list_all is_cont_byte x" and "block_tail closed (Suc d) b"
  shows "block_tail closed (Suc d) (x @ b)"
  using assms
proof (induction x)
  case (Cons c x)
  then have "c \<noteq> CHR ''/''" "c \<noteq> CHR ''*''" by (auto simp: is_cont_byte_def byte_def)
  with Cons show ?case by (auto intro!: block_tail.intros)
qed simp

lemma pair_prefix: "prefix [p, q] (c # x) \<Longrightarrow> prefix x cs \<Longrightarrow> c = p \<and> byte_at cs 0 = Some q"
  by (auto simp: prefix_def)

lemma copy_block_region:
  "block_tail True d (fst (copy_block d s)) \<or> block_tail False d (fst (copy_block d s)) \<and> snd (copy_block d s) = []"
proof (induction d s rule: copy_block.induct)
  case (3 d c cs)
  consider "c = CHR ''/''" "byte_at cs 0 = Some CHR ''*''"
    | "\<not> (c = CHR ''/'' \<and> byte_at cs 0 = Some CHR ''*'')" "c = CHR ''*''" "byte_at cs 0 = Some CHR ''/''"
    | "\<not> (c = CHR ''/'' \<and> byte_at cs 0 = Some CHR ''*'')" "\<not> (c = CHR ''*'' \<and> byte_at cs 0 = Some CHR ''/'')"
    by blast
  then show ?case
  proof cases
    case 1
    with 3(1) block_tail.intros(3) [of _ d] show ?thesis by (simp add: case_prod_beta) blast
  next
    case 2
    with 3(2) block_tail.intros(4) [of _ d] show ?thesis by (simp add: case_prod_beta) blast
  next
    case 3
    let ?conts = "takeWhile is_cont_byte cs" and ?b = "copy_block (Suc d) (dropWhile is_cont_byte cs)"
    have eq: "copy_block (Suc d) (c # cs) = (c # ?conts @ fst ?b, snd ?b)"
      using 3 by (simp only: copy_block.simps if_False take_char.simps prod.case case_prod_beta fst_conv snd_conv) simp
    have "prefix (?conts @ fst ?b) cs"
      using copy_block_split [of "Suc d" "dropWhile is_cont_byte cs"]
      by (metis append_assoc prefixI takeWhile_dropWhile_id)
    with 3 have np: "\<not> prefix ''/*'' (c # ?conts @ fst ?b)" "\<not> prefix ''*/'' (c # ?conts @ fst ?b)"
      using pair_prefix [of _ _ c "?conts @ fst ?b" cs] by blast+
    from "3.IH"(3) [OF 3 take_char.simps(2) [symmetric]] show ?thesis
    proof
      assume "block_tail True (Suc d) (fst ?b)"
      with np show ?thesis unfolding eq
        by (auto intro!: block_tail.intros(5) block_tail_conts simp: list_all_iff dest: set_takeWhileD)
    next
      assume "block_tail False (Suc d) (fst ?b) \<and> snd ?b = []"
      with np show ?thesis unfolding eq
        by (auto intro!: block_tail.intros(5) block_tail_conts simp: list_all_iff dest: set_takeWhileD)
    qed
  qed
qed (auto intro: block_tail.intros)

lemma dollar_not_cont [simp]: "\<not> is_dolq_cont (CHR ''$'')"
  by code_simp

lemma dollar_tag_delim:
  assumes "dollar_quote_tag_end (CHR ''$'' # cs) = Some e"
  shows "dollar_delim (take e (CHR ''$'' # cs)) \<and> length (take e (CHR ''$'' # cs)) = e"
proof -
  let ?tag = "takeWhile is_dolq_cont cs"
  from assms have e: "e = length ?tag + 2" and b: "byte_at cs (length ?tag) = Some CHR ''$''"
    and digit: "cs = [] \<or> \<not> is_ascii_digit (hd cs)"
    by (auto simp: dollar_quote_tag_end_def Let_def split: if_splits)
  define k where "k = length ?tag"
  have "take k cs = ?tag" unfolding k_def by (rule takeWhile_eq_take [symmetric])
  moreover have "k < length cs" "cs ! k = CHR ''$''" using b by (simp_all add: k_def)
  ultimately have cs: "cs = ?tag @ CHR ''$'' # drop (Suc k) cs" using id_take_nth_drop [of k cs] by simp
  then have "take e (CHR ''$'' # cs) = take e (CHR ''$'' # ?tag @ CHR ''$'' # drop (Suc k) cs)" by (rule arg_cong)
  also have "\<dots> = CHR ''$'' # ?tag @ ''$''" unfolding e by simp
  finally have tag: "take e (CHR ''$'' # cs) = CHR ''$'' # ?tag @ ''$''" .
  have "?tag = [] \<or> \<not> is_ascii_digit (hd ?tag)"
    using digit by (cases cs) auto
  moreover have "list_all is_dolq_cont ?tag" by (auto simp: list_all_iff dest: set_takeWhileD)
  ultimately show ?thesis using tag e by (auto simp: dollar_delim_def)
qed

lemma dollar_tag_none:
  assumes "dollar_quote_tag_end s = None" and "dollar_delim delim"
  shows "\<not> prefix delim s"
proof
  assume "prefix delim s"
  from assms(2) obtain tag where d: "delim = CHR ''$'' # tag @ ''$''" and tag: "list_all is_dolq_cont tag"
    and digit: "tag = [] \<or> \<not> is_ascii_digit (hd tag)" by (auto simp: dollar_delim_def)
  with \<open>prefix delim s\<close> obtain r where s: "tl s = tag @ CHR ''$'' # r" by (auto simp: prefix_def)
  then have "takeWhile is_dolq_cont (tl s) = tag" using tag by (simp add: list_all_iff)
  moreover have "\<not> is_ascii_digit (CHR ''$'')" by code_simp
  ultimately show False using assms(1) s digit
    by (cases tag) (auto simp: dollar_quote_tag_end_def Let_def split: if_splits)
qed

lemma find_sub_take: "find_sub pat s = Some p \<Longrightarrow> find_sub pat (take (p + length pat) s) = Some p"
proof (induction pat s arbitrary: p rule: find_sub.induct)
  case (2 pat x xs)
  show ?case
  proof (cases "prefix pat (x # xs)")
    case True
    with 2(2) have "p = 0" by simp
    then show ?thesis using True by (cases pat) (auto simp: prefix_def)
  next
    case False
    with 2(2) obtain p' where p: "find_sub pat xs = Some p'" "p = Suc p'" by auto
    have "\<not> prefix pat (x # take (p' + length pat) xs)"
      using False by (metis append_take_drop_id prefix_def append_Cons append.assoc)
    with 2(1) [OF False p(1)] p show ?thesis by simp
  qed
qed (auto split: if_splits)

text \<open>One arm is one piece of the statement.\<close>

lemma lex_chars:
  assumes "c \<noteq> CHR ''?''" and "\<not> opens_region b (c # cs)" and "code_lex (ident_after b c) (dropWhile is_cont_byte cs) ps"
  shows "code_lex b (c # cs) (Verbatim (c # takeWhile is_cont_byte cs) # ps)"
proof -
  have "dropWhile is_cont_byte cs = [] \<or> \<not> is_cont_byte (hd (dropWhile is_cont_byte cs))"
    using hd_dropWhile by blast
  moreover have "list_all is_cont_byte (takeWhile is_cont_byte cs)" by (auto simp: list_all_iff dest: set_takeWhileD)
  ultimately show ?thesis
    using lex_code [of c b "takeWhile is_cont_byte cs" "dropWhile is_cont_byte cs" ps] assms by simp
qed

lemma region_skipped:
  assumes "c = sq \<or> c = dq"
  shows "skipped (c # fst (copy_quoted c cs)) (snd (copy_quoted c cs))"
proof -
  have "\<not> is_cont_byte c" using assms by (auto simp: is_cont_byte_def byte_def)
  from copy_quoted_region [OF this, of cs] assms show ?thesis by (auto intro: skipped.intros)
qed

lemma ident_after_delim [simp]:
  "\<not> ident_after b sq" "\<not> ident_after b dq" "\<not> ident_after b (CHR ''-'')" "\<not> ident_after b (CHR ''/'')"
  "\<not> ident_after b (CHR ''?'')" "\<not> ident_after False (CHR ''$'')"
  by (simp_all add: ident_after_def is_dolq_cont_def is_ascii_alphanumeric_def is_ascii_alphabetic_def
      is_ascii_uppercase_def is_ascii_lowercase_def is_ascii_digit_def byte_def)

lemma dollar_arm:
  assumes "c = CHR ''$''" and "dollar_quote_tag_end (c # cs) = Some e"
  shows "case scan_arm n (c # cs) of (a, n', r) \<Rightarrow> skipped a r \<and> n' = n \<and> c # cs = a @ r \<and> hd a = c"
proof -
  let ?delim = "take e (c # cs)" and ?rest = "drop e (c # cs)"
  from assms dollar_tag_delim [of cs e] have d: "dollar_delim ?delim" "length ?delim = e" by simp_all
  then have "0 < e" by (cases e) (auto simp: dollar_delim_def)
  then have hd: "hd (?delim @ x) = c" for x by (cases e) auto
  show ?thesis
  proof (cases "find_sub ?delim ?rest")
    case None
    with skipped.dollar_open [OF d(1) None] hd assms show ?thesis by (simp add: scan_arm_def Let_def)
  next
    case (Some p)
    let ?body = "take p ?rest"
    from find_sub_SomeD [OF Some] d have p: "p + e \<le> length ?rest" "prefix ?delim (drop p ?rest)" by simp_all
    then have "take e (drop p ?rest) = ?delim" using d(2) by (auto simp: prefix_def)
    then have tk: "take (p + e) ?rest = ?body @ ?delim" by (simp only: take_add)
    moreover have "length ?body = p" using p by simp
    ultimately have "skipped (?delim @ ?body @ ?delim) (drop (p + e) ?rest)"
      using find_sub_take [OF Some] d by (intro skipped.dollar) simp_all
    moreover have "scan_arm n (c # cs) = (?delim @ take (p + e) ?rest, n, drop (p + e) ?rest)"
      unfolding scan_arm_def Let_def using assms Some by simp
    moreover have "c # cs = (?delim @ take (p + e) ?rest) @ drop (p + e) ?rest"
      by (simp only: append_assoc append_take_drop_id)
    ultimately show ?thesis unfolding tk using hd by simp
  qed
qed

lemma scan_arm_piece:
  assumes "\<not> (c = CHR ''$'' \<and> b)" and "scan_arm n (c # cs) = (a, n', r)" and "code_lex (ident_after b c) r ps"
  shows "\<exists>p. code_lex b (c # cs) (p # ps) \<and> render n (p # ps) = a @ render n' ps"
proof -
  have copied: "\<exists>p. code_lex b (c # cs) (p # ps) \<and> render n (p # ps) = a @ render n' ps"
    if "scan_arm n (c # cs) = (c # takeWhile is_cont_byte cs, n, dropWhile is_cont_byte cs)" "c \<noteq> CHR ''?''"
      "\<not> opens_region b (c # cs)"
    using lex_chars [OF that(2,3)] that(1) assms(2,3) by (intro exI [of _ "Verbatim (c # takeWhile is_cont_byte cs)"]) simp
  have region: "\<exists>p. code_lex b (c # cs) (p # ps) \<and> render n (p # ps) = a @ render n' ps"
    if "skipped a r" "n' = n" "c # cs = a @ r" "\<not> ident_after b c" "hd a = c"
    using lex_region [OF that(1), of b ps] that assms(1,3) by (intro exI [of _ "Verbatim a"]) auto
  consider (quote) "c = sq \<or> c = dq" | (line) "c = CHR ''-''" "byte_at cs 0 = Some CHR ''-''"
    | (block) "c = CHR ''/''" "byte_at cs 0 = Some CHR ''*''" | (dollar) "c = CHR ''$''" | (question) "c = CHR ''?''"
    | (other) "\<not> (c = sq \<or> c = dq)" "\<not> (c = CHR ''-'' \<and> byte_at cs 0 = Some CHR ''-'')"
      "\<not> (c = CHR ''/'' \<and> byte_at cs 0 = Some CHR ''*'')" "c \<noteq> CHR ''$''" "c \<noteq> CHR ''?''"
    by blast
  then show ?thesis
  proof cases
    case quote
    then have "a = c # fst (copy_quoted c cs)" "n' = n" "r = snd (copy_quoted c cs)"
      using assms(2) by (auto simp: scan_arm_def Let_def case_prod_beta)
    with quote region_skipped [OF quote, of cs] copy_quoted_split [of c cs] show ?thesis
      by (intro region) auto
  next
    case line
    then obtain ds where cs: "cs = CHR ''-'' # ds" by (cases cs) auto
    with line assms(2) have "a = ''--'' @ fst (copy_line ds)" "n' = n" "r = snd (copy_line ds)"
      by (simp_all add: scan_arm_def Let_def case_prod_beta)
    with line cs skipped.line [of "fst (copy_line ds)" r] copy_line_region [of ds] copy_line_split [of ds] show ?thesis
      by (intro region) simp_all
  next
    case block
    then obtain ds where cs: "cs = CHR ''*'' # ds" by (cases cs) auto
    with block assms(2) have a: "a = ''/*'' @ fst (copy_block 1 ds)" "n' = n" "r = snd (copy_block 1 ds)"
      by (simp_all add: scan_arm_def Let_def case_prod_beta)
    from copy_block_region [of 1 ds] have "skipped a r" unfolding a using skipped.block skipped.block_open by auto
    with block cs a copy_block_split [of 1 ds] show ?thesis by (intro region) simp_all
  next
    case dollar
    then have "\<not> b" using assms(1) by simp
    show ?thesis
    proof (cases "dollar_quote_tag_end (c # cs)")
      case None
      with dollar have "\<not> opens_region b (c # cs)"
        using dollar_tag_none [OF None] by (auto simp: opens_region_def prefix_def)
      with dollar None show ?thesis by (intro copied) (simp_all add: scan_arm_def Let_def)
    next
      case (Some e)
      from dollar_arm [OF dollar Some, of n] assms(2) dollar \<open>\<not> b\<close> show ?thesis
        by (intro region) simp_all
    qed
  next
    case question
    then consider "byte_at cs 0 = Some CHR ''?''" | "byte_at cs 0 = Some CHR ''|'' \<or> byte_at cs 0 = Some CHR ''&''"
      | "cs = [] \<or> hd cs \<notin> {CHR ''?'', CHR ''|'', CHR ''&''}" by (cases cs) auto
    then show ?thesis
    proof cases
      case 1
      with question assms(2) have "a = ''?''" "n' = n" "cs = CHR ''?'' # r"
        by (cases cs; simp add: scan_arm_def Let_def)+
      with question lex_escape [of r ps b] assms(3) show ?thesis by (intro exI [of _ Escaped]) simp
    next
      case 2
      with question assms(2) have "a = ''?''" "n' = n" "r = cs" "cs \<noteq> []" "hd cs \<in> {CHR ''|'', CHR ''&''}"
        by (cases cs; auto simp: scan_arm_def Let_def)+
      with question lex_operator [of cs ps b] assms(3) show ?thesis by (intro exI [of _ "Verbatim ''?''"]) simp
    next
      case 3
      with question assms(2) have "a = CHR ''$'' # to_dec n" "n' = n + 1" "r = cs"
        by (cases cs; simp add: scan_arm_def Let_def)+
      with question lex_parameter [of cs ps b] 3 assms(3) show ?thesis by (intro exI [of _ Parameter]) simp
    qed
  next
    case other
    then have "\<not> opens_region b (c # cs)"
      by (auto simp: opens_region_def dollar_delim_def prefix_def)
    with other show ?thesis by (intro copied) (auto simp: scan_arm_def Let_def)
  qed
qed

lemma scan_from_lexes: "\<exists>ps. code_lex b s ps \<and> scan_from b n s = render n ps"
proof (induction b n s rule: scan_from.induct)
  case (1 b n s)
  show ?case
  proof (cases s)
    case Nil
    then show ?thesis by (auto simp: scan_from.simps intro!: exI [of _ "[]"] lex_end)
  next
    case (Cons c cs)
    show ?thesis
    proof (cases "c = CHR ''$'' \<and> b")
      case True
      then have "\<not> opens_region b (c # cs)" by (auto simp: opens_region_def prefix_def)
      moreover from True have "ident_after b c" by (simp add: ident_after_def)
      moreover from 1(1) [OF _ refl] Cons True obtain ps where
        "code_lex b (dropWhile is_cont_byte cs) ps" "scan_from b n (dropWhile is_cont_byte cs) = render n ps" by auto
      moreover have "scan_from b n s = c # takeWhile is_cont_byte cs @ scan_from b n (dropWhile is_cont_byte cs)"
        using Cons True by (subst scan_from.simps) simp
      ultimately show ?thesis using Cons True lex_chars [of c b cs ps]
        by (intro exI [of _ "Verbatim (c # takeWhile is_cont_byte cs) # ps"]) simp
    next
      case False
      obtain a n' r where arm: "scan_arm n (c # cs) = (a, n', r)" by (metis prod_cases3)
      have out: "scan_from b n s = a @ scan_from (ident_after b c) n' r"
        using Cons False arm by (subst scan_from.simps) (auto simp: Let_def ident_after_def)
      have "s \<noteq> []" "\<not> (hd s = CHR ''$'' \<and> b)" using Cons False by simp_all
      from 1(2) [OF this(1) refl this(2) refl arm [folded Cons, symmetric] refl]
      obtain ps where ps: "code_lex (ident_after b c) r ps" "scan_from (ident_after b c) n' r = render n' ps"
        unfolding Cons list.sel ident_after_def [symmetric] by blast
      from scan_arm_piece [OF False arm ps(1)] out ps(2) Cons show ?thesis by auto
    qed
  qed
qed

subsection \<open>PostgreSQL's reading of a statement\<close>

text \<open>
  PostgreSQL also has escape strings: a quote right after an \<open>E\<close> or \<open>e\<close> that is a token of its own opens a
  literal in which a backslash takes the next character with it, a quote too. \<open>escape_tail\<close> is the rest of
  one, after its opening quote; the second flag of \<open>pg_lex\<close> says that such an \<open>E\<close> has just been read.
\<close>

inductive escape_tail :: "bool \<Rightarrow> string \<Rightarrow> bool" for closed :: bool where
  "closed \<Longrightarrow> escape_tail closed [sq]"
| "\<not> closed \<Longrightarrow> escape_tail closed []"
| "\<not> closed \<Longrightarrow> escape_tail closed [backslash]"
| "escape_tail closed b \<Longrightarrow> escape_tail closed (sq # sq # b)"
| "escape_tail closed b \<Longrightarrow> escape_tail closed (backslash # c # b)"
| "c \<noteq> sq \<Longrightarrow> c \<noteq> backslash \<Longrightarrow> escape_tail closed b \<Longrightarrow> escape_tail closed (c # b)"

definition lone_e :: "bool \<Rightarrow> char \<Rightarrow> string \<Rightarrow> bool" where
  "lone_e in_ident c conts \<longleftrightarrow> \<not> in_ident \<and> conts = [] \<and> (c = CHR ''E'' \<or> c = CHR ''e'')"

inductive pg_lex :: "bool \<Rightarrow> bool \<Rightarrow> string \<Rightarrow> piece list \<Rightarrow> bool" where
  pg_end: "pg_lex b e [] []"
| pg_region: "skipped a rest \<Longrightarrow> b \<longrightarrow> hd a \<noteq> CHR ''$'' \<Longrightarrow> e \<longrightarrow> hd a \<noteq> sq \<Longrightarrow> pg_lex False False rest ps \<Longrightarrow>
    pg_lex b e (a @ rest) (Verbatim a # ps)"
| pg_escape_string: "escape_tail True a \<Longrightarrow> \<not> prefix [sq] rest \<Longrightarrow> pg_lex False False rest ps \<Longrightarrow>
    pg_lex b True ((sq # a) @ rest) (Verbatim (sq # a) # ps)"
| pg_escape_open: "escape_tail False a \<Longrightarrow> pg_lex b True (sq # a) [Verbatim (sq # a)]"
| pg_doubled: "pg_lex False False rest ps \<Longrightarrow> pg_lex b e (''??'' @ rest) (Escaped # ps)"
| pg_operator: "rest \<noteq> [] \<Longrightarrow> hd rest \<in> {CHR ''|'', CHR ''&''} \<Longrightarrow> pg_lex False False rest ps \<Longrightarrow>
    pg_lex b e (''?'' @ rest) (Verbatim ''?'' # ps)"
| pg_parameter: "rest = [] \<or> hd rest \<notin> {CHR ''?'', CHR ''|'', CHR ''&''} \<Longrightarrow> pg_lex False False rest ps \<Longrightarrow>
    pg_lex b e (''?'' @ rest) (Parameter # ps)"
| pg_code: "c \<noteq> CHR ''?'' \<Longrightarrow> \<not> opens_region b (c # conts @ rest) \<Longrightarrow> list_all is_cont_byte conts \<Longrightarrow>
    rest = [] \<or> \<not> is_cont_byte (hd rest) \<Longrightarrow> pg_lex (ident_after b c) (lone_e b c conts) rest ps \<Longrightarrow>
    pg_lex b e (c # conts @ rest) (Verbatim (c # conts) # ps)"

text \<open>
  Where the two readings agree: there is no backslash in the statement, or no quote right after an \<open>E\<close>; and
  in the second case none where the reading starts, if an \<open>E\<close> has just been read.
\<close>

definition no_escapes :: "string \<Rightarrow> bool" where
  "no_escapes s \<longleftrightarrow> backslash \<notin> set s \<or> \<not> sublist [CHR ''E'', sq] s \<and> \<not> sublist [CHR ''e'', sq] s"

definition readings_agree :: "bool \<Rightarrow> string \<Rightarrow> bool" where
  "readings_agree e s \<longleftrightarrow> no_escapes s \<and> (e \<and> prefix [sq] s \<longrightarrow> backslash \<notin> set s)"

lemma no_escapes_suffix: "no_escapes (a @ s) \<Longrightarrow> no_escapes s"
proof -
  assume "no_escapes (a @ s)"
  moreover have "sublist x (a @ s)" if "sublist x s" for x :: string
    using sublist_order.order_trans [OF that] sublist_appendI [of s a "[]"] by simp
  ultimately show ?thesis unfolding no_escapes_def by auto
qed

lemma skipped_nonempty: "skipped a rest \<Longrightarrow> a \<noteq> []"
  by (cases rule: skipped.cases) (auto simp: dollar_delim_def)

lemma pg_lex_Nil: "pg_lex b e [] ps \<Longrightarrow> ps = []"
  by (erule pg_lex.cases) (auto dest: skipped_nonempty)

lemma escape_tail_quote: "quote_tail closed sq a \<Longrightarrow> backslash \<notin> set a \<Longrightarrow> escape_tail closed a"
  by (induction rule: quote_tail.induct) (auto intro: escape_tail.intros)

lemma skipped_quote:
  assumes "skipped a rest" and "hd a = sq"
  shows "\<exists>t. a = sq # t \<and> (quote_tail True sq t \<and> \<not> prefix [sq] rest \<or> quote_tail False sq t \<and> rest = [])"
  using assms by (cases rule: skipped.cases) (auto simp: dollar_delim_def)

lemma readings_agree_after:
  "readings_agree e (c # conts @ rest) \<Longrightarrow> readings_agree (lone_e b c conts) rest"
proof -
  assume a: "readings_agree e (c # conts @ rest)"
  then have n: "no_escapes (c # conts @ rest)" by (simp add: readings_agree_def)
  have "no_escapes rest" using no_escapes_suffix [of "c # conts" rest] n by simp
  moreover have "backslash \<notin> set rest" if l: "lone_e b c conts" and p: "prefix [sq] rest"
  proof -
    from p obtain r where "rest = sq # r" by (auto simp: prefix_def)
    with l have "sublist [c, sq] (c # conts @ rest)" "c = CHR ''E'' \<or> c = CHR ''e''"
      by (auto simp: lone_e_def intro!: prefix_imp_sublist)
    with n show ?thesis by (auto simp: no_escapes_def)
  qed
  ultimately show ?thesis by (simp add: readings_agree_def)
qed

lemma agreeing_reading: "code_lex b s ps \<Longrightarrow> readings_agree e s \<Longrightarrow> pg_lex b e s ps"
proof (induction arbitrary: e rule: code_lex.induct)
  case (lex_region a rest b ps)
  have rest: "pg_lex False False rest ps"
    using lex_region.IH lex_region.prems no_escapes_suffix [of a rest] by (simp add: readings_agree_def)
  show ?case
  proof (cases "e \<and> hd a = sq")
    case False
    then show ?thesis using lex_region.hyps rest by (intro pg_region) auto
  next
    case True
    then obtain t where t: "a = sq # t" "quote_tail True sq t \<and> \<not> prefix [sq] rest \<or> quote_tail False sq t \<and> rest = []"
      using skipped_quote [OF lex_region.hyps(1)] by blast
    have "backslash \<notin> set t" using True lex_region.prems t(1) by (auto simp: readings_agree_def)
    from t(2) show ?thesis
    proof
      assume "quote_tail True sq t \<and> \<not> prefix [sq] rest"
      then show ?thesis using True t(1) rest escape_tail_quote [OF _ \<open>backslash \<notin> set t\<close>] pg_escape_string by simp
    next
      assume open_end: "quote_tail False sq t \<and> rest = []"
      then have "ps = []" using rest pg_lex_Nil by blast
      then show ?thesis using True t(1) open_end escape_tail_quote [OF _ \<open>backslash \<notin> set t\<close>] pg_escape_open by simp
    qed
  qed
next
  case (lex_code c b conts rest ps)
  then show ?case using readings_agree_after [of e c conts rest b] by (intro pg_code) auto
next
  case (lex_escape rest ps b)
  then have "readings_agree False rest" using no_escapes_suffix [of "''??''" rest] by (simp add: readings_agree_def)
  then show ?case using lex_escape pg_doubled by blast
next
  case (lex_operator rest ps b)
  then have "readings_agree False rest" using no_escapes_suffix [of "''?''" rest] by (simp add: readings_agree_def)
  then show ?case using lex_operator pg_operator by blast
next
  case (lex_parameter rest ps b)
  then have "readings_agree False rest" using no_escapes_suffix [of "''?''" rest] by (simp add: readings_agree_def)
  then show ?case using lex_parameter pg_parameter by blast
qed (rule pg_end)



text \<open>A statement without question marks is left alone.\<close>

lemma placeholder_scan_plain:
  assumes "CHR ''?'' \<notin> set sql"
  shows "placeholder_scan sql = sql"
proof -
  obtain ps where ps: "concat (map piece_source ps) = sql" "placeholder_scan sql = render 1 ps"
    using scan_from_lexes [of False sql 1] code_lex_source by (auto simp: placeholder_scan_def)
  have "render n ps = concat (map piece_source ps)" if "CHR ''?'' \<notin> set (concat (map piece_source ps))" for n
    using that
  proof (induction ps arbitrary: n)
    case (Cons p ps)
    then show ?case by (cases p) auto
  qed simp
  with ps assms show ?thesis by simp
qed

text \<open>
  In an escape string PostgreSQL reads a backslash and a quote as a quote that does not close the
  literal; the scanner closes it there and rewrites a question mark of the literal.
\<close>

lemma placeholder_in_escape_string:
  "placeholder_scan (''E'' @ [sq, backslash, sq] @ ''?'' @ [sq]) = ''E'' @ [sq, backslash, sq] @ ''$1'' @ [sq]"
  by code_simp

end
