(* ===== verification/Calendar.thy ===== *)
theory Calendar
  imports Ferro_Prelude
begin

text \<open>
  The calendar arithmetic of the PostgreSQL adapter: \<open>civil_from_pg_days\<close> of
  \<open>ferro-backend-pg/src/pgtext.rs\<close>, against the Gregorian calendar told day by day. Days come from an
  \<open>i32\<close>, or from an \<open>i64\<close> of microseconds divided by a day, so no step of the code overflows and the
  model uses mathematical integers.
\<close>

definition civil_from_pg_days :: "int \<Rightarrow> int \<times> int \<times> int" where
  "civil_from_pg_days pg_days =
     (let z = pg_days + 10957 + 719468;
          era = z div 146097;
          doe = z mod 146097;
          yoe = (doe - doe div 1460 + doe div 36524 - doe div 146096) div 365;
          y = yoe + era * 400;
          doy = doe - (365 * yoe + yoe div 4 - yoe div 100);
          mp = (5 * doy + 2) div 153;
          d = doy - (153 * mp + 2) div 5 + 1;
          m = (if mp < 10 then mp + 3 else mp - 9)
      in (if m \<le> 2 then y + 1 else y, m, d))"

subsection \<open>The Gregorian calendar\<close>

definition is_leap :: "int \<Rightarrow> bool" where
  "is_leap y \<longleftrightarrow> 4 dvd y \<and> (\<not> 100 dvd y \<or> 400 dvd y)"

definition month_length :: "int \<Rightarrow> int \<Rightarrow> int" where
  "month_length y m =
     (if m = 2 then (if is_leap y then 29 else 28) else if m \<in> {4, 6, 9, 11} then 30 else 31)"

fun next_day :: "int \<times> int \<times> int \<Rightarrow> int \<times> int \<times> int" where
  "next_day (y, m, d) =
     (if d < month_length y m then (y, m, d + 1) else if m < 12 then (y, m + 1, 1) else (y + 1, 1, 1))"

subsection \<open>Years that begin in March\<close>

text \<open>Days before the first of March of year \<open>y\<close>, and the date of the \<open>n\<close>-th day after it.\<close>

definition days_before :: "int \<Rightarrow> int" where
  "days_before y = 365 * y + y div 4 - y div 100 + y div 400"

definition month_day :: "int \<Rightarrow> int \<times> int" where
  "month_day n =
     (let mp = (5 * n + 2) div 153 in (if mp < 10 then mp + 3 else mp - 9, n - (153 * mp + 2) div 5 + 1))"

definition march_date :: "int \<Rightarrow> int \<Rightarrow> int \<times> int \<times> int" where
  "march_date y n = (case month_day n of (m, d) \<Rightarrow> (if m \<le> 2 then y + 1 else y, m, d))"

lemma days_before_Suc: "days_before (y + 1) = days_before y + (if is_leap (y + 1) then 366 else 365)"
proof -
  have step: "(y + 1) div n = y div n + (if n dvd (y + 1) then 1 else 0)" if "0 < n" for n :: int
  proof -
    let ?q = "(y + 1) div n" and ?r = "(y + 1) mod n"
    have y: "y = n * ?q + ?r - 1" using mult_div_mod_eq [of n "y + 1"] by linarith
    show ?thesis
    proof (cases "n dvd (y + 1)")
      case True
      then have "y = n * (?q - 1) + (n - 1)" using y by (simp add: algebra_simps)
      then have "y div n = ?q - 1" by (rule int_div_pos_eq) (use that in simp_all)
      with True show ?thesis by simp
    next
      case False
      then have "0 < ?r" using that by (simp add: dvd_eq_mod_eq_0 order_less_le)
      then have "y div n = ?q" using y that pos_mod_bound [of n "y + 1"]
        by (intro int_div_pos_eq [of _ _ _ "?r - 1"]) linarith+
      with False show ?thesis by simp
    qed
  qed
  have "100 dvd (y + 1)" if "400 dvd (y + 1)" using that by (rule dvd_trans [rotated]) simp
  moreover have "4 dvd (y + 1)" if "100 dvd (y + 1)" using that by (rule dvd_trans [rotated]) simp
  moreover have "days_before (y + 1) = days_before y + 365 + (if 4 dvd (y + 1) then 1 else 0)
      - (if 100 dvd (y + 1) then 1 else 0) + (if 400 dvd (y + 1) then 1 else 0)"
  proof -
    have "(y + 1) div 4 = y div 4 + (if 4 dvd (y + 1) then 1 else 0)"
      "(y + 1) div 100 = y div 100 + (if 100 dvd (y + 1) then 1 else 0)"
      "(y + 1) div 400 = y div 400 + (if 400 dvd (y + 1) then 1 else 0)"
      by (rule step, rule zero_less_numeral)+
    moreover have "365 * (y + 1) + a' - b' + c' = 365 * y + a - b + c + 365 + p - q + r"
      if "a' = a + p" "b' = b + q" "c' = c + r" for a a' b b' c c' p q r :: int using that by simp
    ultimately show ?thesis unfolding days_before_def by blast
  qed
  ultimately show ?thesis unfolding is_leap_def
    by (cases "4 dvd (y + 1)"; cases "100 dvd (y + 1)"; cases "400 dvd (y + 1)") simp_all
qed

lemma era_split: "days_before (400 * e + r) = 146097 * e + days_before r"
proof -
  have "(400 * e + r) div 4 = 100 * e + r div 4" "(400 * e + r) div 100 = 4 * e + r div 100"
    using div_mult_self4 [of 4 "100 * e" r] div_mult_self4 [of 100 "4 * e" r] by simp_all
  then show ?thesis by (simp add: days_before_def)
qed

text \<open>Day by day within such a year.\<close>

definition day_step_ok :: "int \<Rightarrow> bool" where
  "day_step_ok n =
     (case (month_day n, month_day (n + 1)) of ((m, d), (m', d')) \<Rightarrow>
        1 \<le> m \<and> m \<le> 12 \<and>
        (if n = 364 then (m, d) = (2, 28) \<and> (m', d') = (2, 29)
         else if d < month_length 1 m then m' = m \<and> d' = d + 1
         else m \<noteq> 2 \<and> d' = 1 \<and> m' = (if m = 12 then 1 else m + 1)))"

lemma day_steps: "list_all day_step_ok (map int [0..<365])"
  by code_simp

lemma next_march_date:
  assumes "0 \<le> n" and "n < 364 \<or> n = 364 \<and> is_leap (y + 1)"
  shows "next_day (march_date y n) = march_date y (n + 1)"
proof -
  have "n \<in> set (map int [0..<365])" using assms by (auto intro!: image_eqI [of _ _ "nat n"])
  with day_steps have ok: "day_step_ok n" unfolding list_all_iff by blast
  obtain m d m' d' where md: "month_day n = (m, d)" "month_day (n + 1) = (m', d')" by fastforce
  have common: "month_length y' m = month_length 1 m" if "m \<noteq> 2" for y' using that by (simp add: month_length_def)
  have short: "28 \<le> month_length y' 2" "month_length 1 2 = 28" for y' by (simp_all add: month_length_def is_leap_def)
  show ?thesis
  proof (cases "n = 364")
    case True
    with ok md assms(2) show ?thesis
      by (auto simp: day_step_ok_def march_date_def month_length_def)
  next
    case False
    with ok md have ok: "1 \<le> m" "m \<le> 12" "if d < month_length 1 m then m' = m \<and> d' = d + 1
         else m \<noteq> 2 \<and> d' = 1 \<and> m' = (if m = 12 then 1 else m + 1)"
      by (simp_all add: day_step_ok_def)
    have "d < month_length y' m \<longleftrightarrow> d < month_length 1 m" if "m = 2 \<Longrightarrow> d < month_length 1 2" for y'
      using common [of y'] short(1) [of y'] short(2) that by (cases "m = 2") auto
    moreover have "m = 2 \<Longrightarrow> d < month_length 1 2" using ok by (simp split: if_splits)
    ultimately have len: "d < month_length y' m \<longleftrightarrow> d < month_length 1 m" for y' by blast
    show ?thesis
    proof (cases "d < month_length 1 m")
      case True
      with ok md len show ?thesis by (simp add: march_date_def)
    next
      case False
      with ok have "m \<noteq> 2" "d' = 1" "m' = (if m = 12 then 1 else m + 1)" by simp_all
      with ok(1,2) md len False show ?thesis by (cases "m = 12"; cases "m = 1") (simp_all add: march_date_def)
    qed
  qed
qed

lemma last_march_day:
  assumes "n = (if is_leap (y + 1) then 365 else 364)"
  shows "next_day (march_date y n) = march_date (y + 1) 0"
proof -
  have "month_day 364 = (2, 28)" "month_day 365 = (2, 29)" "month_day 0 = (3, 1)" by code_simp+
  with assms show ?thesis by (auto simp: march_date_def month_length_def)
qed

subsection \<open>The year from the day of the era\<close>

definition year_guess :: "int \<Rightarrow> int" where
  "year_guess doe = doe - doe div 1460 + doe div 36524 - doe div 146096"

lemma year_guess_mono:
  assumes "a \<le> b"
  shows "year_guess a \<le> year_guess b"
proof -
  have part: "u - u div n \<le> v - v div n" if "u \<le> v" "0 < n" for u v n :: int
  proof -
    have "0 \<le> (n - 1) * (v - u)" using that by simp
    then have "v \<le> u + n * (v - u)" by (simp add: algebra_simps)
    then have "v div n \<le> (u + n * (v - u)) div n" using that by (intro zdiv_mono1) simp_all
    also have "\<dots> = u div n + (v - u)" using that by (simp add: add.commute)
    finally have "v div n \<le> u div n + (v - u)" .
    then show ?thesis by linarith
  qed
  have "x div 146096 = x div 36524 div 4" for x :: int using zdiv_zmult2_eq [of 4 x 36524] by simp
  then show ?thesis using part [OF assms, of 1460] part [OF zdiv_mono1 [OF assms, of 36524], of 4]
    by (simp add: year_guess_def)
qed

text \<open>The two ends of every year of an era.\<close>

definition year_ends_ok :: "int \<Rightarrow> bool" where
  "year_ends_ok r =
     (365 * r \<le> year_guess (days_before r) \<and> year_guess (days_before (r + 1) - 1) < 365 * (r + 1))"

lemma year_ends_quarters:
  "list_all year_ends_ok (map int [0..<100])" "list_all year_ends_ok (map int [100..<200])"
  "list_all year_ends_ok (map int [200..<300])" "list_all year_ends_ok (map int [300..<400])"
  by (code_simp, code_simp, code_simp, code_simp)

lemma year_ends: "0 \<le> r \<Longrightarrow> r < 400 \<Longrightarrow> year_ends_ok r"
proof -
  assume "0 \<le> r" "r < 400"
  then obtain n where r: "r = int n" "n < 400" by (metis nonneg_int_cases of_nat_less_numeral_iff)
  then consider "n \<in> set [0..<100]" | "n \<in> set [100..<200]" | "n \<in> set [200..<300]" | "n \<in> set [300..<400]"
    unfolding set_upt atLeastLessThan_iff by linarith
  then show ?thesis using year_ends_quarters unfolding list_all_iff set_map r(1) by cases blast+
qed

subsection \<open>Every date\<close>

lemma days_before_mono: "x \<le> y \<Longrightarrow> days_before x \<le> days_before y"
proof (induction y rule: int_ge_induct)
  case (step i)
  then show ?case by (simp add: days_before_Suc)
qed simp

lemma civil_in_year:
  assumes "0 \<le> n" and "days_before y + n < days_before (y + 1)"
  shows "civil_from_pg_days (days_before y + n - 730425) = march_date y n"
proof -
  define e r where "e = y div 400" and "r = y mod 400"
  have y: "y = 400 * e + r" and r: "0 \<le> r" "r < 400" by (simp_all add: e_def r_def)
  define doe where "doe = days_before r + n"
  have yb: "days_before y = 146097 * e + days_before r" using era_split [of e r] y by simp
  have "days_before (y + 1) = 146097 * e + days_before (r + 1)" using era_split [of e "r + 1"] y by (simp add: add.assoc)
  with yb assms(2) have hi: "doe \<le> days_before (r + 1) - 1" by (simp add: doe_def)
  have lo: "days_before r \<le> doe" using assms(1) by (simp add: doe_def)
  have "days_before 0 = 0" "days_before 400 = 146097" by (simp_all add: days_before_def)
  with days_before_mono [of 0 r] days_before_mono [of "r + 1" 400] r lo hi have doe: "0 \<le> doe" "doe < 146097" by auto
  have z: "days_before y + n - 730425 + 10957 + 719468 = 146097 * e + doe" using yb by (simp add: doe_def)
  have era: "(146097 * e + doe) div 146097 = e" "(146097 * e + doe) mod 146097 = doe" using doe by simp_all
  have "365 * r \<le> year_guess doe" "year_guess doe < 365 * (r + 1)"
    using year_ends [OF r] year_guess_mono [OF lo] year_guess_mono [OF hi] by (simp_all add: year_ends_ok_def)
  then have yoe: "year_guess doe div 365 = r" by (intro int_div_pos_eq [of _ _ _ "year_guess doe - 365 * r"]) simp_all
  have doy: "doe - (365 * r + r div 4 - r div 100) = n" using r by (simp add: doe_def days_before_def)
  show ?thesis unfolding civil_from_pg_days_def Let_def z era year_guess_def [symmetric] yoe doy
    by (simp add: march_date_def month_day_def Let_def y add.commute)
qed

lemma day_in_year:
  obtains y n where "0 \<le> n" "days_before y + n < days_before (y + 1)" "z = days_before y + n"
proof -
  have "\<exists>y n. 0 \<le> n \<and> days_before y + n < days_before (y + 1) \<and> z = days_before y + n"
  proof (induction z rule: int_induct [of _ 0])
    case base
    have "days_before 0 = 0" "days_before 1 = 365" by (simp_all add: days_before_def)
    then show ?case by (intro exI [of _ 0]) simp
  next
    case (step1 z)
    then obtain y n where *: "0 \<le> n" "days_before y + n < days_before (y + 1)" "z = days_before y + n" by blast
    show ?case
    proof (cases "days_before y + (n + 1) < days_before (y + 1)")
      case True
      with * show ?thesis by (intro exI [of _ y] exI [of _ "n + 1"]) simp
    next
      case False
      with * have "z + 1 = days_before (y + 1)" by simp
      then show ?thesis using days_before_Suc [of "y + 1"] by (intro exI [of _ "y + 1"] exI [of _ 0]) simp
    qed
  next
    case (step2 z)
    then obtain y n where *: "0 \<le> n" "days_before y + n < days_before (y + 1)" "z = days_before y + n" by blast
    show ?case
    proof (cases "n = 0")
      case False
      with * show ?thesis by (intro exI [of _ y] exI [of _ "n - 1"]) simp
    next
      case True
      with * days_before_Suc [of "y - 1"] show ?thesis
        by (intro exI [of _ "y - 1"] exI [of _ "days_before y - days_before (y - 1) - 1"]) (simp split: if_splits)
    qed
  qed
  with that show ?thesis by blast
qed

lemma civil_next: "civil_from_pg_days (z + 1) = next_day (civil_from_pg_days z)"
proof -
  obtain y n where n: "0 \<le> n" "days_before y + n < days_before (y + 1)" "z + 730425 = days_before y + n"
    by (rule day_in_year)
  have "days_before y + n - 730425 = z" using n(3) by linarith
  with civil_in_year [OF n(1,2)] have z: "civil_from_pg_days z = march_date y n" by simp
  show ?thesis
  proof (cases "days_before y + (n + 1) < days_before (y + 1)")
    case True
    have "days_before y + (n + 1) - 730425 = z + 1" using n(3) by linarith
    with True n(1) civil_in_year [of "n + 1" y] have "civil_from_pg_days (z + 1) = march_date y (n + 1)" by simp
    moreover have "n < 364 \<or> n = 364 \<and> is_leap (y + 1)" using True days_before_Suc [of y] by (auto split: if_splits)
    ultimately show ?thesis using next_march_date n(1) z by simp
  next
    case False
    with n have e: "days_before (y + 1) + 0 - 730425 = z + 1" by linarith
    have "days_before (y + 1) + 0 < days_before (y + 1 + 1)" using days_before_Suc [of "y + 1"] by simp
    with civil_in_year [of 0 "y + 1"] have "civil_from_pg_days (z + 1) = march_date (y + 1) 0" unfolding e by simp
    moreover have "n = (if is_leap (y + 1) then 365 else 364)" using False n(2) days_before_Suc [of y] by (auto split: if_splits)
    ultimately show ?thesis using last_march_day z by simp
  qed
qed

text \<open>
  C39: the calendar is the Gregorian one. Day zero is 2000-01-01, and the date of every following day,
  before and after it without limit, is the calendar's next day after the date of the day before.
\<close>

theorem calendar_day_by_day:
  "civil_from_pg_days 0 = (2000, 1, 1) \<and> civil_from_pg_days (z + 1) = next_day (civil_from_pg_days z)"
  using civil_next by (intro conjI) (code_simp, blast)

end
