(* ===== verification/Pg_Text.thy ===== *)
theory Pg_Text
  imports Calendar Decimal Endian Utf8
begin

text \<open>
  From PostgreSQL's binary column values to the protocol's canonical text
  (\<open>ferro-backend-pg/src/pgtext.rs\<close>). A payload is a list of bytes, a result is text or the reason of the
  refusal. Each reason is one of the code's messages; all of them are \<open>PoolError::Backend\<close>, save
  \<open>YearOutOfRange\<close>, which is \<open>PoolError::Unsupported\<close>.
\<close>

subsection \<open>Reading\<close>

datatype text_error =
    NumericShort | NumericSign | NumericNegative | NumericLength | NumericScale | NumericDigit nat
  | WrongLength string | TimeNegative | TimeTooLate | YearOutOfRange string | JsonbVersion | JsonbEmpty | NotUtf8
  | CharNotAscii | Truncated string | ArrayFlags | ElementOid | NegativeLength | LowerBound | ElementLength nat
  | TrailingBytes | Dimensions int

type_synonym 'a text_result = "text_error + 'a"

definition from_be_bytes :: "u8s \<Rightarrow> 'a::len word" where
  "from_be_bytes bs = from_le_bytes (rev bs)"

definition read_i32 :: "u8s \<Rightarrow> string \<Rightarrow> int text_result" where
  "read_i32 raw what = (if length raw = 4 then Inr (sint (from_be_bytes raw :: 32 word)) else Inl (WrongLength what))"

definition read_i64 :: "u8s \<Rightarrow> string \<Rightarrow> int text_result" where
  "read_i64 raw what = (if length raw = 8 then Inr (sint (from_be_bytes raw :: 64 word)) else Inl (WrongLength what))"

definition u8_char :: "8 word \<Rightarrow> char" where
  "u8_char b = char_of (unat b)"

subsection \<open>Dates and times\<close>

definition fmt_int :: "nat \<Rightarrow> int \<Rightarrow> string" where
  "fmt_int k n = pad_dec k (nat n)"

definition fmt_time_of_day :: "int \<Rightarrow> string" where
  "fmt_time_of_day us =
     (let h = us div 3600000000;
          mi = us mod 3600000000 div 60000000;
          s = us mod 60000000 div 1000000;
          frac = us mod 1000000;
          hms = fmt_int 2 h @ '':'' @ fmt_int 2 mi @ '':'' @ fmt_int 2 s
      in if frac = 0 then hms else hms @ ''.'' @ fmt_int 6 frac)"

definition canonical_date :: "int \<times> int \<times> int \<Rightarrow> string \<Rightarrow> string text_result" where
  "canonical_date ymd what =
     (case ymd of (y, m, d) \<Rightarrow>
        if \<not> (1 \<le> y \<and> y \<le> 9999) then Inl (YearOutOfRange what)
        else Inr (fmt_int 4 y @ ''-'' @ fmt_int 2 m @ ''-'' @ fmt_int 2 d))"

definition date_to_text :: "u8s \<Rightarrow> string text_result" where
  "date_to_text raw =
     (case read_i32 raw ''date'' of
        Inl e \<Rightarrow> Inl e
      | Inr days \<Rightarrow>
          if days = 2 ^ 31 - 1 then Inr ''infinity''
          else if days = - (2 ^ 31) then Inr ''-infinity''
          else canonical_date (civil_from_pg_days days) ''date'')"

definition time_to_text :: "u8s \<Rightarrow> string text_result" where
  "time_to_text raw =
     (case read_i64 raw ''time'' of
        Inl e \<Rightarrow> Inl e
      | Inr us \<Rightarrow>
          if us < 0 then Inl TimeNegative
          else if 86400000000 < us then Inl TimeTooLate
          else Inr (fmt_time_of_day us))"

definition timestamp_sentinel :: "int \<Rightarrow> string option" where
  "timestamp_sentinel us =
     (if us = 2 ^ 63 - 1 then Some ''infinity'' else if us = - (2 ^ 63) then Some ''-infinity'' else None)"

definition split_timestamp :: "int \<Rightarrow> string \<Rightarrow> (string \<times> string) text_result" where
  "split_timestamp us what =
     (let days = us div 86400000000; tod = us mod 86400000000 in
      case canonical_date (civil_from_pg_days days) what of
        Inl e \<Rightarrow> Inl e
      | Inr date \<Rightarrow> Inr (date, fmt_time_of_day tod))"

definition timestamp_to_text :: "u8s \<Rightarrow> string text_result" where
  "timestamp_to_text raw =
     (case read_i64 raw ''timestamp'' of
        Inl e \<Rightarrow> Inl e
      | Inr us \<Rightarrow>
          (case timestamp_sentinel us of
             Some s \<Rightarrow> Inr s
           | None \<Rightarrow> map_sum id (\<lambda>(date, time). date @ '' '' @ time) (split_timestamp us ''timestamp'')))"

definition timestamptz_to_text :: "u8s \<Rightarrow> string text_result" where
  "timestamptz_to_text raw =
     (case read_i64 raw ''timestamptz'' of
        Inl e \<Rightarrow> Inl e
      | Inr us \<Rightarrow>
          (case timestamp_sentinel us of
             Some s \<Rightarrow> Inr s
           | None \<Rightarrow> map_sum id (\<lambda>(date, time). date @ ''T'' @ time @ ''Z'') (split_timestamp us ''timestamptz'')))"

subsection \<open>Identifiers, documents, characters\<close>

definition hex_digit :: "nat \<Rightarrow> char" where
  "hex_digit n = ''0123456789abcdef'' ! n"

fun uuid_chars :: "nat \<Rightarrow> u8s \<Rightarrow> string" where
  "uuid_chars i [] = []"
| "uuid_chars i (b # bs) =
     (if i \<in> {4, 6, 8, 10} then ''-'' else []) @
     hex_digit (unat b div 16) # hex_digit (unat b mod 16) # uuid_chars (i + 1) bs"

definition uuid_to_text :: "u8s \<Rightarrow> string text_result" where
  "uuid_to_text raw = (if length raw \<noteq> 16 then Inl (WrongLength ''uuid'') else Inr (uuid_chars 0 raw))"

definition json_to_text :: "u8s \<Rightarrow> bool \<Rightarrow> string text_result" where
  "json_to_text raw jsonb =
     (let text = (\<lambda>body. if utf8_valid (map u8_char body) then Inr (map u8_char body) else Inl NotUtf8) in
      if jsonb then
        (case raw of
           [] \<Rightarrow> Inl JsonbEmpty
         | v # rest \<Rightarrow> if v = 1 then text rest else Inl JsonbVersion)
      else text raw)"

definition char_byte_to_text :: "8 word \<Rightarrow> string text_result" where
  "char_byte_to_text b = (if b = 0 then Inr [] else if b \<le> 127 then Inr [u8_char b] else Inl CharNotAscii)"

subsection \<open>Numerics\<close>

definition group_chars :: "int \<Rightarrow> string" where
  "group_chars dig =
     map (\<lambda>n. digit_char (nat n)) [dig div 1000, (dig div 100) mod 10, (dig div 10) mod 10, dig mod 10]"

fun push_chars :: "bool \<Rightarrow> string \<Rightarrow> string" where
  "push_chars started [] = []"
| "push_chars started (c # cs) =
     (if \<not> started \<and> c = CHR ''0'' \<and> cs \<noteq> [] then push_chars started cs else c # push_chars True cs)"

definition push_group :: "int \<Rightarrow> nat \<Rightarrow> bool \<Rightarrow> string" where
  "push_group dig n strip_leading = push_chars (\<not> strip_leading) (take n (group_chars dig))"

definition digit_at :: "int list \<Rightarrow> int \<Rightarrow> int" where
  "digit_at digits i = (if 0 \<le> i \<and> nat i < length digits then digits ! nat i else 0)"

fun read_digits :: "nat \<Rightarrow> u8s \<Rightarrow> int list text_result" where
  "read_digits i (a # b # rest) =
     (let d = sint (from_be_bytes [a, b] :: 16 word) in
      if \<not> (0 \<le> d \<and> d \<le> 9999) then Inl (NumericDigit i) else map_sum id (\<lambda>ds. d # ds) (read_digits (i + 1) rest))"
| "read_digits i _ = Inr []"

definition numeric_integer :: "int list \<Rightarrow> int \<Rightarrow> string" where
  "numeric_integer digits weight =
     (if weight < 0 then ''0''
      else concat (map (\<lambda>i. push_group (digit_at digits (int i)) 4 (i = 0)) [0..<nat weight + 1]))"

function numeric_fraction :: "int list \<Rightarrow> int \<Rightarrow> nat \<Rightarrow> nat \<Rightarrow> string" where
  "numeric_fraction digits idx emitted dscale =
     (if emitted < dscale
      then push_group (digit_at digits idx) (min (dscale - emitted) 4) False @
        numeric_fraction digits (idx + 1) (emitted + 4) dscale
      else [])"
  by pat_completeness auto
termination
  by (relation "measure (\<lambda>(digits, idx, emitted, dscale). dscale - emitted)") auto

declare numeric_fraction.simps [simp del]

definition numeric_to_text :: "u8s \<Rightarrow> string text_result" where
  "numeric_to_text raw =
     (if length raw < 8 then Inl NumericShort
      else
        (let ndigits = sint (from_be_bytes (take 2 raw) :: 16 word);
             weight = sint (from_be_bytes (take 2 (drop 2 raw)) :: 16 word);
             sign = (from_be_bytes (take 2 (drop 4 raw)) :: 16 word);
             dscale = (from_be_bytes (take 2 (drop 6 raw)) :: 16 word) in
         if sign = 0xC000 then Inr ''NaN''
         else if sign = 0xD000 then Inr ''Infinity''
         else if sign = 0xF000 then Inr ''-Infinity''
         else if sign \<noteq> 0 \<and> sign \<noteq> 0x4000 then Inl NumericSign
         else if ndigits < 0 then Inl NumericNegative
         else if length raw \<noteq> 8 + 2 * nat ndigits then Inl NumericLength
         else if 0x3FFF < dscale then Inl NumericScale
         else
           (case read_digits 0 (drop 8 raw) of
              Inl e \<Rightarrow> Inl e
            | Inr digits \<Rightarrow>
                Inr ((if sign = 0x4000 then ''-'' else []) @ numeric_integer digits weight @
                     (if 0 < dscale then ''.'' @ numeric_fraction digits (weight + 1) 0 (unat dscale) else [])))))"

subsection \<open>Catalog vectors\<close>

datatype vector_elem = Int2 | Oid

fun elem_oid :: "vector_elem \<Rightarrow> 32 word" where
  "elem_oid Int2 = 21"
| "elem_oid Oid = 26"

fun elem_len :: "vector_elem \<Rightarrow> nat" where
  "elem_len Int2 = 2"
| "elem_len Oid = 4"

definition take_i32 :: "string \<Rightarrow> u8s \<Rightarrow> (int \<times> u8s) text_result" where
  "take_i32 fld raw =
     (if length raw < 4 then Inl (Truncated fld) else Inr (sint (from_be_bytes (take 4 raw) :: 32 word), drop 4 raw))"

definition fmt_elem :: "vector_elem \<Rightarrow> u8s \<Rightarrow> string" where
  "fmt_elem elem body =
     (case elem of
        Int2 \<Rightarrow>
          (let v = sint (from_be_bytes body :: 16 word) in (if v < 0 then ''-'' else []) @ to_dec (nat (abs v)))
      | Oid \<Rightarrow> to_dec (unat (from_be_bytes body :: 32 word)))"

fun vector_elems :: "vector_elem \<Rightarrow> nat \<Rightarrow> nat \<Rightarrow> u8s \<Rightarrow> (string \<times> u8s) text_result" where
  "vector_elems elem i 0 raw = Inr ([], raw)"
| "vector_elems elem i (Suc n) raw =
     (case take_i32 ''element length'' raw of
        Inl e \<Rightarrow> Inl e
      | Inr (len, rest) \<Rightarrow>
          if len \<noteq> int (elem_len elem) then Inl (ElementLength i)
          else if length rest < elem_len elem then Inl (Truncated ''element'')
          else
            (case vector_elems elem (i + 1) n (drop (elem_len elem) rest) of
               Inl e \<Rightarrow> Inl e
             | Inr (out, left) \<Rightarrow>
                 Inr ((if 0 < i then '' '' else []) @ fmt_elem elem (take (elem_len elem) rest) @ out, left)))"

definition vector_to_text :: "u8s \<Rightarrow> vector_elem \<Rightarrow> string text_result" where
  "vector_to_text raw elem =
     (case take_i32 ''ndim'' raw of
        Inl e \<Rightarrow> Inl e
      | Inr (ndim, r1) \<Rightarrow>
          (case take_i32 ''flags'' r1 of
             Inl e \<Rightarrow> Inl e
           | Inr (flags, r2) \<Rightarrow>
               (case take_i32 ''element oid'' r2 of
                  Inl e \<Rightarrow> Inl e
                | Inr (oid, r3) \<Rightarrow>
                    if flags \<noteq> 0 then Inl ArrayFlags
                    else if (word_of_int oid :: 32 word) \<noteq> elem_oid elem then Inl ElementOid
                    else if ndim \<noteq> 1 then Inl (Dimensions ndim)
                    else
                      (case take_i32 ''dimension length'' r3 of
                         Inl e \<Rightarrow> Inl e
                       | Inr (nitems, r4) \<Rightarrow>
                           (case take_i32 ''lower bound'' r4 of
                              Inl e \<Rightarrow> Inl e
                            | Inr (lbound, r5) \<Rightarrow>
                                if nitems < 0 then Inl NegativeLength
                                else if lbound \<noteq> 0 then Inl LowerBound
                                else
                                  (case vector_elems elem 0 (nat nitems) r5 of
                                     Inl e \<Rightarrow> Inl e
                                   | Inr (out, left) \<Rightarrow> if left \<noteq> [] then Inl TrailingBytes else Inr out))))))"

end
