(* ===== verification/Pg_Text_Correct.thy ===== *)
theory Pg_Text_Correct
  imports Pg_Text
begin

text \<open>
  What the PostgreSQL text decoders promise (\<open>Pg_Text\<close>): a numeric's text is its value cut off at the
  display scale, and different dates, times and timestamps have different texts.
\<close>

subsection \<open>Digits of a group\<close>

lemma parse_dec_Cons: "parse_dec (c # s) = digit_val c * 10 ^ length s + parse_dec s"
  using parse_dec_append [of "[c]" s] parse_dec_snoc [of "[]" c] by simp

lemma length_group_chars [simp]: "length (group_chars d) = 4"
  by (simp add: group_chars_def)

lemma group_chars_nat:
  "group_chars (int n) = map digit_char [n div 1000, n div 100 mod 10, n div 10 mod 10, n mod 10]"
  by (simp add: group_chars_def nat_div_distrib nat_mod_distrib)

lemma group_chars_take:
  assumes "n < 10000" and "k \<le> 4"
  shows "parse_dec (take k (group_chars (int n))) = n div 10 ^ (4 - k)"
proof -
  have small: "n div 1000 < 10" using assms(1) by (simp add: less_mult_imp_div_less)
  have step: "10 * (n div 10) + n mod 10 = n" "10 * (n div 100) + n div 10 mod 10 = n div 10"
    "10 * (n div 1000) + n div 100 mod 10 = n div 100"
    using mult_div_mod_eq [of 10 n] mult_div_mod_eq [of 10 "n div 10"] mult_div_mod_eq [of 10 "n div 100"]
    by (simp_all add: div_mult2_eq [symmetric])
  have one: "parse_dec [digit_char (n div 1000)] = n div 1000" using small parse_dec_snoc [of "[]"] by simp
  have two: "parse_dec [digit_char (n div 1000), digit_char (n div 100 mod 10)] = n div 100"
    using one step(3) parse_dec_snoc [of "[digit_char (n div 1000)]" "digit_char (n div 100 mod 10)"] by simp
  have three: "parse_dec [digit_char (n div 1000), digit_char (n div 100 mod 10), digit_char (n div 10 mod 10)] = n div 10"
    using two step(2) parse_dec_snoc [of "[digit_char (n div 1000), digit_char (n div 100 mod 10)]" "digit_char (n div 10 mod 10)"]
    by simp
  have four: "parse_dec [digit_char (n div 1000), digit_char (n div 100 mod 10), digit_char (n div 10 mod 10),
      digit_char (n mod 10)] = n"
    using three step(1) parse_dec_snoc [of "[digit_char (n div 1000), digit_char (n div 100 mod 10), digit_char (n div 10 mod 10)]"
      "digit_char (n mod 10)"] by simp
  from assms(2) consider "k = 0" | "k = 1" | "k = 2" | "k = 3" | "k = 4" by linarith
  then show ?thesis unfolding group_chars_nat
    by cases (use one two three four assms(1) in simp_all)
qed

lemma group_chars_digits: "n < 10000 \<Longrightarrow> list_all is_ascii_digit (group_chars (int n))"
  by (simp add: group_chars_nat less_mult_imp_div_less)

lemma push_chars_True [simp]: "push_chars True s = s"
  by (induction s) simp_all

lemma push_chars_value [simp]: "parse_dec (push_chars b s) = parse_dec s"
  by (cases b; induction s) (simp_all add: parse_dec_Cons)

lemma push_chars_digits: "list_all is_ascii_digit s \<Longrightarrow> list_all is_ascii_digit (push_chars b s)"
  by (cases b; induction s) simp_all

lemma push_chars_nonempty: "s \<noteq> [] \<Longrightarrow> push_chars b s \<noteq> []"
  by (cases b; induction s) simp_all

definition digits_ok :: "int list \<Rightarrow> bool" where
  "digits_ok ds \<longleftrightarrow> list_all (\<lambda>d. 0 \<le> d \<and> d \<le> 9999) ds"

lemma digit_at_nat:
  assumes "digits_ok ds"
  obtains n where "digit_at ds i = int n" "n < 10000"
proof -
  have "0 \<le> digit_at ds i \<and> digit_at ds i \<le> 9999" using assms by (auto simp: digits_ok_def digit_at_def list_all_length)
  with that [of "nat (digit_at ds i)"] show ?thesis by auto
qed

lemma push_group_value:
  assumes "digits_ok ds" and "k \<le> 4"
  shows "parse_dec (push_group (digit_at ds i) k b) = nat (digit_at ds i) div 10 ^ (4 - k)"
proof -
  from assms(1) obtain n where "digit_at ds i = int n" "n < 10000" by (rule digit_at_nat)
  with group_chars_take [of n k] assms(2) show ?thesis by (simp add: push_group_def)
qed

lemma push_group_digits:
  assumes "digits_ok ds"
  shows "list_all is_ascii_digit (push_group (digit_at ds i) k b)"
proof -
  from assms obtain n where "digit_at ds i = int n" "n < 10000" by (rule digit_at_nat)
  with group_chars_digits have "list_all is_ascii_digit (group_chars (digit_at ds i))" by simp
  then have "list_all is_ascii_digit (take k (group_chars (digit_at ds i)))"
    unfolding list_all_iff by (meson in_set_takeD)
  then show ?thesis unfolding push_group_def by (rule push_chars_digits)
qed

lemma length_push_group [simp]: "k \<le> 4 \<Longrightarrow> length (push_group d k False) = k"
  by (simp add: push_group_def)

subsection \<open>Runs of groups\<close>

text \<open>The groups from index \<open>i\<close> on, \<open>n\<close> of them, as one number.\<close>

primrec run :: "int list \<Rightarrow> int \<Rightarrow> nat \<Rightarrow> nat" where
  "run ds i 0 = 0"
| "run ds i (Suc n) = nat (digit_at ds i) * 10000 ^ n + run ds (i + 1) n"

lemma run_append: "run ds i (a + b) = run ds i a * 10000 ^ b + run ds (i + int a) b"
  by (induction a arbitrary: i) (simp_all add: power_add algebra_simps)

lemma run_before: "run ds (- int k) (k + n) = run ds 0 n"
  by (induction k) (simp_all add: digit_at_def)

lemma run_negative: "i + int n \<le> 0 \<Longrightarrow> run ds i n = 0"
  by (induction n arbitrary: i) (auto simp: digit_at_def)

text \<open>
  The number that base-10000 groups denote, the first of weight \<open>e\<close>, in whole units: groups of negative
  weight are cut off.
\<close>

fun scaled :: "int list \<Rightarrow> int \<Rightarrow> nat" where
  "scaled [] e = 0"
| "scaled (d # ds) e = (if e < 0 then 0 else nat d * 10000 ^ nat e + scaled ds (e - 1))"

lemma digit_at_shift: "digit_at (d # ds) (int (Suc k)) = digit_at ds (int k)"
  by (auto simp: digit_at_def nat_add_distrib)

lemma run_shift: "run (d # ds) (int (Suc k)) n = run ds (int k) n"
proof (induction n arbitrary: k)
  case (Suc n)
  from Suc.IH [of "Suc k"] digit_at_shift [of d ds k] show ?case by (simp add: add.commute)
qed simp

lemma run_scaled: "run ds 0 n = scaled ds (int n - 1)"
proof (induction ds arbitrary: n)
  case Nil
  have "run [] i n = 0" for i by (induction n arbitrary: i) (simp_all add: digit_at_def)
  then show ?case by simp
next
  case (Cons d ds)
  show ?case
  proof (cases n)
    case (Suc m)
    have "run (d # ds) 1 m = run ds 0 m" using run_shift [of d ds 0 m] by simp
    with Cons.IH [of m] Suc show ?thesis by (simp add: digit_at_def)
  qed simp
qed

lemma numeric_integer_value:
  assumes "digits_ok ds"
  shows "parse_dec (numeric_integer ds w) = (if w < 0 then 0 else run ds 0 (nat w + 1))"
proof (cases "w < 0")
  case False
  have "parse_dec (concat (map (\<lambda>i. push_group (digit_at ds (int i)) 4 (i = 0)) [0..<Suc n])) = run ds 0 (Suc n)" for n
  proof (induction n)
    case 0
    then show ?case using push_group_value [OF assms, of 4] by simp
  next
    case (Suc n)
    have "run ds 0 (Suc n + 1) = run ds 0 (Suc n) * 10000 ^ 1 + run ds (0 + int (Suc n)) 1" by (rule run_append)
    then have r: "run ds 0 (Suc (Suc n)) = run ds 0 (Suc n) * 10000 + nat (digit_at ds (int (Suc n)))" by simp
    have "parse_dec (push_group (digit_at ds (int (Suc n))) 4 False) = nat (digit_at ds (int (Suc n)))"
      using push_group_value [OF assms, of 4 "int (Suc n)" False] by simp
    with Suc r show ?case
      unfolding upt_Suc_append [OF le0] map_append concat_append parse_dec_append by simp
  qed
  from this [of "nat w"] show ?thesis using False unfolding numeric_integer_def Suc_eq_plus1 by simp
qed (simp add: numeric_integer_def parse_dec_Cons)

lemma numeric_integer_digits:
  assumes "digits_ok ds"
  shows "list_all is_ascii_digit (numeric_integer ds w) \<and> numeric_integer ds w \<noteq> []"
proof (cases "w < 0")
  case True
  then show ?thesis by (simp add: numeric_integer_def is_ascii_digit_def byte_def)
next
  case False
  have "push_group d 4 b \<noteq> []" for d b unfolding push_group_def
    by (rule push_chars_nonempty) (simp add: group_chars_def)
  then show ?thesis using False push_group_digits [OF assms, unfolded list_all_iff]
    by (auto simp: numeric_integer_def list_all_iff upt_rec [of 0])
qed

lemma scale_split:
  fixes a b :: nat
  assumes "k \<le> 4 * g"
  shows "(a * 10000 ^ g + b) div 10 ^ (4 * g - k) = a * 10 ^ k + b div 10 ^ (4 * g - k)"
proof -
  have "(10000 :: nat) ^ g = 10 ^ (4 * g)" by (simp add: power_mult)
  also have "\<dots> = 10 ^ k * 10 ^ (4 * g - k)" using assms by (simp flip: power_add)
  finally have "a * 10000 ^ g + b = b + (a * 10 ^ k) * 10 ^ (4 * g - k)" by (simp only: mult.assoc add.commute)
  then show ?thesis by (simp only: div_mult_self1 power_not_zero zero_neq_numeral [symmetric] not_False_eq_True)
qed

definition groups_for :: "nat \<Rightarrow> nat" where
  "groups_for k = (k + 3) div 4"

lemma groups_for_cases:
  "0 < k \<Longrightarrow> k \<le> 4 \<Longrightarrow> groups_for k = 1" "4 < k \<Longrightarrow> groups_for k = Suc (groups_for (k - 4))" "k \<le> 4 * groups_for k"
  by (simp_all add: groups_for_def)

lemma numeric_fraction_value:
  assumes "digits_ok ds"
  shows "length (numeric_fraction ds i e k) = k - e \<and> list_all is_ascii_digit (numeric_fraction ds i e k) \<and>
    parse_dec (numeric_fraction ds i e k) = run ds i (groups_for (k - e)) div 10 ^ (4 * groups_for (k - e) - (k - e))"
  using assms
proof (induction ds i e k rule: numeric_fraction.induct)
  case (1 ds i e k)
  show ?case
  proof (cases "e < k")
    case False
    then show ?thesis by (simp add: numeric_fraction.simps [of ds i e k] groups_for_def)
  next
    case True
    let ?rem = "k - e" and ?tl = "numeric_fraction ds (i + 1) (e + 4) k"
    note IH = 1(1) [OF True 1(2)]
    have eq: "numeric_fraction ds i e k = push_group (digit_at ds i) (min ?rem 4) False @ ?tl"
      using True by (simp add: numeric_fraction.simps [of ds i e k])
    have grp: "parse_dec (push_group (digit_at ds i) (min ?rem 4) False) = nat (digit_at ds i) div 10 ^ (4 - min ?rem 4)"
      by (rule push_group_value [OF 1(2)]) simp
    show ?thesis
    proof (cases "?rem \<le> 4")
      case True
      with \<open>e < k\<close> IH grp push_group_digits [OF 1(2)] groups_for_cases(1) [of ?rem] show ?thesis unfolding eq by simp
    next
      case False
      define r g where "r = k - (e + 4)" and "g = groups_for r"
      have rem: "?rem = 4 + r" using False by (simp add: r_def)
      then have g: "groups_for ?rem = Suc g" using groups_for_cases(2) [of ?rem] False by (simp add: g_def)
      have e4: "4 * Suc g - (4 + r) = 4 * g - r" by simp
      have "r \<le> 4 * g" unfolding g_def by (rule groups_for_cases(3))
      note split = scale_split [OF this, of "nat (digit_at ds i)" "run ds (i + 1) g"]
      from IH have IH: "length ?tl = r" "list_all is_ascii_digit ?tl" "parse_dec ?tl = run ds (i + 1) g div 10 ^ (4 * g - r)"
        by (simp_all only: r_def g_def)
      have "min ?rem 4 = 4" using False by simp
      with grp have grp: "parse_dec (push_group (digit_at ds i) 4 False) = nat (digit_at ds i)" by simp
      show ?thesis unfolding eq \<open>min ?rem 4 = 4\<close> g unfolding rem e4
        using IH grp split push_group_digits [OF 1(2)] by (simp add: parse_dec_append)
    qed
  qed
qed

subsection \<open>Payloads\<close>

text \<open>What \<open>numeric_send\<close> of the server writes for the groups \<open>ds\<close>.\<close>

definition be16 :: "16 word \<Rightarrow> u8s" where
  "be16 x = rev (to_le_bytes 2 x)"

definition numeric_payload :: "int \<Rightarrow> bool \<Rightarrow> nat \<Rightarrow> int list \<Rightarrow> u8s" where
  "numeric_payload w neg dscale ds =
     be16 (of_nat (length ds)) @ be16 (word_of_int w) @ be16 (if neg then 0x4000 else 0) @ be16 (of_nat dscale) @
     concat (map (\<lambda>d. be16 (word_of_int d)) ds)"

lemma length_be16 [simp]: "length (be16 x) = 2"
  by (simp add: be16_def)

lemma from_be16 [simp]: "from_be_bytes (be16 x) = x"
  by (simp add: be16_def from_be_bytes_def from_to_le)

lemma sint_of_small: "- (2 ^ 15) \<le> d \<Longrightarrow> d < 2 ^ 15 \<Longrightarrow> sint (word_of_int d :: 16 word) = d"
  by (simp add: signed_of_int signed_take_bit_int_eq_self)

lemma read_digits_payload:
  "digits_ok ds \<Longrightarrow> read_digits i (concat (map (\<lambda>d. be16 (word_of_int d)) ds)) = Inr ds"
proof (induction ds arbitrary: i)
  case (Cons d ds)
  obtain a b where ab: "be16 (word_of_int d) = [a, b]" by (simp add: be16_def to_le_numeral)
  then have "(from_be_bytes [a, b] :: 16 word) = word_of_int d" using from_be16 [of "word_of_int d"] by simp
  moreover have "0 \<le> d" "d \<le> 9999" "digits_ok ds" using Cons.prems by (simp_all add: digits_ok_def)
  moreover have "sint (word_of_int d :: 16 word) = d" using calculation by (intro sint_of_small) simp_all
  ultimately show ?case using Cons.IH ab by simp
qed simp

lemma scaled_negative: "e < 0 \<Longrightarrow> scaled ds e = 0"
  by (cases ds) simp_all

text \<open>
  C14: a numeric's text is its value, cut off and never rounded at the display scale. The text of a finite
  numeric is an optional sign, integer digits and, if the scale is not zero, a point and exactly as many
  digits as the scale; read as one number they are the value of the base-10000 groups in units of the
  last place, rounded towards zero.
\<close>

theorem numeric_text_is_truncated_value:
  assumes "digits_ok ds" and "length ds < 2 ^ 15" and "- (2 ^ 15) \<le> w" and "w < 2 ^ 15" and "dscale \<le> 0x3FFF"
  shows "\<exists>ip fp. numeric_to_text (numeric_payload w neg dscale ds) =
      Inr ((if neg then ''-'' else []) @ ip @ (if dscale = 0 then [] else ''.'' @ fp)) \<and>
    list_all is_ascii_digit (ip @ fp) \<and> ip \<noteq> [] \<and> length fp = dscale \<and>
    parse_dec (ip @ fp) = scaled ds (w + int (groups_for dscale)) div 10 ^ (4 * groups_for dscale - dscale)"
proof -
  let ?ip = "numeric_integer ds w" and ?fp = "numeric_fraction ds (w + 1) 0 dscale" and ?g = "groups_for dscale"
  note fp = numeric_fraction_value [OF assms(1), of "w + 1" 0 dscale]
  have out: "numeric_to_text (numeric_payload w neg dscale ds) =
      Inr ((if neg then ''-'' else []) @ ?ip @ (if dscale = 0 then [] else ''.'' @ ?fp))"
  proof -
    have ds: "sint (of_nat (length ds) :: 16 word) = int (length ds)"
      using sint_of_small [of "int (length ds)"] assms(2) by simp
    have sc: "unat (of_nat dscale :: 16 word) = dscale" using assms(5) by (simp add: unat_of_nat)
    then have "\<not> (0x3FFF :: 16 word) < of_nat dscale" "(0 :: 16 word) < of_nat dscale \<longleftrightarrow> dscale \<noteq> 0"
      using assms(5) by (simp_all add: word_less_nat_alt)
    with ds sc sint_of_small [OF assms(3,4)] read_digits_payload [OF assms(1), of 0] show ?thesis
      by (simp add: numeric_to_text_def numeric_payload_def Let_def length_concat o_def sum_list_triv)
  qed
  have "parse_dec (?ip @ ?fp) = (parse_dec ?ip * 10000 ^ ?g + run ds (w + 1) ?g) div 10 ^ (4 * ?g - dscale)"
    using scale_split [OF groups_for_cases(3) [of dscale], of "parse_dec ?ip" "run ds (w + 1) ?g"] fp
    by (simp add: parse_dec_append)
  also have "parse_dec ?ip * 10000 ^ ?g + run ds (w + 1) ?g = scaled ds (w + int ?g)"
  proof (cases "w < 0")
    case False
    with run_append [of ds 0 "nat w + 1" ?g] run_scaled [of ds "nat w + 1 + ?g"] numeric_integer_value [OF assms(1), of w]
    show ?thesis by (simp add: add.commute add.left_commute)
  next
    case True
    then have "parse_dec ?ip = 0" using numeric_integer_value [OF assms(1), of w] by simp
    moreover have "run ds (w + 1) ?g = scaled ds (w + int ?g)"
    proof (cases "w + int ?g < 0")
      case True
      then show ?thesis using run_negative [of "w + 1" ?g ds] scaled_negative by simp
    next
      case False
      define k where "k = nat (- (w + 1))"
      have k: "w + 1 = - int k" "k \<le> ?g" using True False by (simp_all add: k_def)
      then have e: "int (?g - k) - 1 = w + int ?g" by (simp add: of_nat_diff)
      have "run ds (w + 1) ?g = run ds 0 (?g - k)" using k run_before [of ds k "?g - k"] by simp
      also have "\<dots> = scaled ds (int (?g - k) - 1)" by (rule run_scaled)
      finally show ?thesis unfolding e .
    qed
    ultimately show ?thesis by simp
  qed
  finally have val: "parse_dec (?ip @ ?fp) = scaled ds (w + int ?g) div 10 ^ (4 * ?g - dscale)" .
  note ip = numeric_integer_digits [OF assms(1), of w]
  show ?thesis
  proof (rule exI [of _ ?ip], rule exI [of _ ?fp], intro conjI)
    show "list_all is_ascii_digit (?ip @ ?fp)" using ip fp by simp
    show "length ?fp = dscale" using fp by simp
    show "parse_dec (?ip @ ?fp) = scaled ds (w + int ?g) div 10 ^ (4 * ?g - dscale)" by (rule val)
  qed (use out ip in blast)+
qed

theorem numeric_text_is_truncated_value_witness:
  "\<exists>ip fp. numeric_to_text (numeric_payload 0 True 1 [1, 2500]) = Inr (''-'' @ ip @ ''.'' @ fp) \<and> parse_dec (ip @ fp) = 12"
proof -
  have "digits_ok [1, 2500]" by (simp add: digits_ok_def)
  from numeric_text_is_truncated_value [OF this, of 0 1 True]
  show ?thesis by (auto simp: groups_for_def)
qed

subsection \<open>Dates, times and timestamps\<close>

text \<open>The calendar never gives two days one date.\<close>

definition date_less :: "int \<times> int \<times> int \<Rightarrow> int \<times> int \<times> int \<Rightarrow> bool" where
  "date_less a b \<longleftrightarrow>
     (case (a, b) of ((y, m, d), (y', m', d')) \<Rightarrow> y < y' \<or> y = y' \<and> (m < m' \<or> m = m' \<and> d < d'))"

lemma date_less_trans: "date_less a b \<Longrightarrow> date_less b c \<Longrightarrow> date_less a c"
  by (auto simp: date_less_def split: prod.splits)

lemma date_less_irrefl: "\<not> date_less a a"
  by (auto simp: date_less_def split: prod.splits)

lemma date_less_next: "date_less a (next_day a)"
  by (cases a) (simp add: date_less_def)

lemma civil_increasing: "x < y \<Longrightarrow> date_less (civil_from_pg_days x) (civil_from_pg_days y)"
proof (induction y rule: int_gr_induct)
  case base
  then show ?case using date_less_next civil_next by simp
next
  case (step i)
  then show ?case using date_less_next [of "civil_from_pg_days i"] date_less_trans civil_next by metis
qed

lemma civil_inj: "civil_from_pg_days x = civil_from_pg_days y \<longleftrightarrow> x = y"
  using civil_increasing date_less_irrefl by (metis linorder_less_linear)

lemma fmt_int_length: "0 \<le> n \<Longrightarrow> n < 10 ^ k \<Longrightarrow> 0 < k \<Longrightarrow> length (fmt_int k n) = k"
  unfolding fmt_int_def by (rule length_pad_dec) (simp_all add: nat_less_iff)

lemma fmt_int_value: "0 \<le> n \<Longrightarrow> int (parse_dec (fmt_int k n)) = n"
  by (simp add: fmt_int_def)

lemma fmt_int_append:
  assumes "fmt_int k m @ a = fmt_int k n @ b" and "0 \<le> m" "m < 10 ^ k" "0 \<le> n" "n < 10 ^ k" "0 < k"
  shows "m = n \<and> a = b"
proof -
  have "fmt_int k m = fmt_int k n" "a = b" using assms fmt_int_length [of m k] fmt_int_length [of n k] by simp_all
  then show ?thesis using fmt_int_value assms by metis
qed

lemma month_day_bounds:
  "list_all (\<lambda>n. case month_day n of (m, d) \<Rightarrow> 1 \<le> m \<and> m \<le> 12 \<and> 1 \<le> d \<and> d \<le> 31) (map int [0..<366])"
  by code_simp

lemma civil_bounds: "case civil_from_pg_days z of (y, m, d) \<Rightarrow> 1 \<le> m \<and> m \<le> 12 \<and> 1 \<le> d \<and> d \<le> 31"
proof -
  obtain y n where n: "0 \<le> n" "days_before y + n < days_before (y + 1)" "z + 730425 = days_before y + n"
    by (rule day_in_year)
  have "days_before y + n - 730425 = z" using n(3) by linarith
  with civil_in_year [OF n(1,2)] have "civil_from_pg_days z = march_date y n" by simp
  moreover have "n < 366" using n(2) days_before_Suc [of y] by (simp split: if_splits)
  with n(1) have "n \<in> set (map int [0..<366])" by (auto intro!: image_eqI [of _ _ "nat n"])
  with month_day_bounds have "case month_day n of (m, d) \<Rightarrow> 1 \<le> m \<and> m \<le> 12 \<and> 1 \<le> d \<and> d \<le> 31"
    unfolding list_all_iff by (rule bspec)
  ultimately show ?thesis by (auto simp: march_date_def split: prod.splits)
qed

lemma canonical_date_inj:
  assumes "canonical_date (civil_from_pg_days x) w = Inr t" and "canonical_date (civil_from_pg_days y) w = Inr t'"
    and "t @ a = t' @ b"
  shows "x = y \<and> a = b"
proof -
  obtain yx mx dx where x: "civil_from_pg_days x = (yx, mx, dx)" by (metis prod_cases3)
  obtain yy my dy where y: "civil_from_pg_days y = (yy, my, dy)" by (metis prod_cases3)
  from assms x y have t: "t = fmt_int 4 yx @ ''-'' @ fmt_int 2 mx @ ''-'' @ fmt_int 2 dx"
      "t' = fmt_int 4 yy @ ''-'' @ fmt_int 2 my @ ''-'' @ fmt_int 2 dy"
    and r: "1 \<le> yx" "yx \<le> 9999" "1 \<le> yy" "yy \<le> 9999"
    by (auto simp: canonical_date_def split: if_splits)
  have b: "1 \<le> mx" "mx \<le> 12" "1 \<le> dx" "dx \<le> 31" "1 \<le> my" "my \<le> 12" "1 \<le> dy" "dy \<le> 31"
    using civil_bounds [of x] civil_bounds [of y] x y by simp_all
  from assms(3) t have 1: "fmt_int 4 yx @ ''-'' @ fmt_int 2 mx @ ''-'' @ fmt_int 2 dx @ a =
      fmt_int 4 yy @ ''-'' @ fmt_int 2 my @ ''-'' @ fmt_int 2 dy @ b" by simp
  from fmt_int_append [OF 1] r have "yx = yy" and 2: "fmt_int 2 mx @ ''-'' @ fmt_int 2 dx @ a = fmt_int 2 my @ ''-'' @ fmt_int 2 dy @ b"
    by simp_all
  from fmt_int_append [OF 2] b have "mx = my" and 3: "fmt_int 2 dx @ a = fmt_int 2 dy @ b" by simp_all
  from fmt_int_append [OF 3] b have "dx = dy" "a = b" by simp_all
  with x y \<open>yx = yy\<close> \<open>mx = my\<close> civil_inj [of x y] show ?thesis by simp
qed

lemma fmt_time_inj:
  assumes "fmt_time_of_day u @ a = fmt_time_of_day v @ b" and "a \<in> {[], ''Z''}" "b \<in> {[], ''Z''}"
    and "0 \<le> u" "u < 360000000000" "0 \<le> v" "v < 360000000000"
  shows "u = v"
proof -
  define hh where "hh x = x div 3600000000" for x :: int
  define mm where "mm x = x mod 3600000000 div 60000000" for x :: int
  define ss where "ss x = x mod 60000000 div 1000000" for x :: int
  define ff where "ff x = x mod 1000000" for x :: int
  define fr where "fr x = (if ff x = 0 then [] else ''.'' @ fmt_int 6 (ff x))" for x
  have out: "fmt_time_of_day x = fmt_int 2 (hh x) @ '':'' @ fmt_int 2 (mm x) @ '':'' @ fmt_int 2 (ss x) @ fr x" for x
    by (simp add: fmt_time_of_day_def hh_def mm_def ss_def ff_def fr_def Let_def)
  have whole: "x = 3600000000 * hh x + 60000000 * mm x + 1000000 * ss x + ff x" for x
  proof -
    have "x mod 3600000000 mod 60000000 = x mod 60000000" "x mod 60000000 mod 1000000 = x mod 1000000"
      by (simp_all add: mod_mod_cancel)
    then show ?thesis unfolding hh_def mm_def ss_def ff_def
      using mult_div_mod_eq [of 3600000000 x] mult_div_mod_eq [of 60000000 "x mod 3600000000"]
        mult_div_mod_eq [of 1000000 "x mod 60000000"] by linarith
  qed
  have bounds: "0 \<le> hh x" "hh x < 100" "0 \<le> mm x" "mm x < 100" "0 \<le> ss x" "ss x < 100" "0 \<le> ff x" "ff x < 1000000"
    if "0 \<le> x" "x < 360000000000" for x
  proof -
    have "x mod 3600000000 < 3600000000" "x mod 60000000 < 60000000" "0 \<le> x mod 3600000000" "0 \<le> x mod 60000000" by simp_all
    then show "0 \<le> hh x" "hh x < 100" "0 \<le> mm x" "mm x < 100" "0 \<le> ss x" "ss x < 100" "0 \<le> ff x" "ff x < 1000000"
      unfolding hh_def mm_def ss_def ff_def using that by linarith+
  qed
  note bu = bounds [OF assms(4,5)] and bv = bounds [OF assms(6,7)]
  from assms(1) have 1: "fmt_int 2 (hh u) @ '':'' @ fmt_int 2 (mm u) @ '':'' @ fmt_int 2 (ss u) @ fr u @ a =
      fmt_int 2 (hh v) @ '':'' @ fmt_int 2 (mm v) @ '':'' @ fmt_int 2 (ss v) @ fr v @ b" by (simp add: out)
  from fmt_int_append [OF 1] bu bv have h: "hh u = hh v"
    and 2: "fmt_int 2 (mm u) @ '':'' @ fmt_int 2 (ss u) @ fr u @ a = fmt_int 2 (mm v) @ '':'' @ fmt_int 2 (ss v) @ fr v @ b"
    by simp_all
  from fmt_int_append [OF 2] bu bv have m: "mm u = mm v" and 3: "fmt_int 2 (ss u) @ fr u @ a = fmt_int 2 (ss v) @ fr v @ b"
    by simp_all
  from fmt_int_append [OF 3] bu bv have s: "ss u = ss v" and 4: "fr u @ a = fr v @ b" by simp_all
  have "ff u = ff v"
  proof (cases "ff u = 0 \<or> ff v = 0")
    case True
    with 4 assms(2,3) show ?thesis by (auto simp: fr_def split: if_splits)
  next
    case False
    with 4 have 5: "fmt_int 6 (ff u) @ a = fmt_int 6 (ff v) @ b" by (simp add: fr_def)
    from fmt_int_append [OF 5] bu bv show ?thesis by simp
  qed
  with h m s whole [of u] whole [of v] show ?thesis by simp
qed

lemma from_be_inj:
  assumes "sint (from_be_bytes a :: 'a::len word) = sint (from_be_bytes b :: 'a word)"
    and "8 * length a = LENGTH('a)" "8 * length b = LENGTH('a)"
  shows "a = b"
proof -
  from assms(1) have "(from_le_bytes (rev a) :: 'a word) = from_le_bytes (rev b)" 
    unfolding from_be_bytes_def by (rule signed_word_eqI)
  moreover have "length a = length b" using assms(2,3) by simp
  ultimately have "rev a = rev b" using to_from_le [of "rev a"] to_from_le [of "rev b"] assms(2,3) by (metis length_rev)
  then show ?thesis by simp
qed

text \<open>No text of a date or a timestamp is that of an infinity.\<close>

lemma canonical_date_head:
  assumes "canonical_date (civil_from_pg_days x) w = Inr t"
  shows "t \<noteq> [] \<and> is_ascii_digit (hd t)"
proof -
  obtain y m d where "civil_from_pg_days x = (y, m, d)" by (metis prod_cases3)
  with assms have t: "t = fmt_int 4 y @ ''-'' @ fmt_int 2 m @ ''-'' @ fmt_int 2 d" by (auto simp: canonical_date_def split: if_splits)
  have "is_ascii_digit c" if "c \<in> set (fmt_int 4 y)" for c
    using that to_dec_digits [of c "nat y"] by (auto simp: fmt_int_def pad_dec_def is_ascii_digit_def byte_def)
  moreover have "fmt_int 4 y \<noteq> []" by (simp add: fmt_int_def pad_dec_def)
  ultimately show ?thesis using t by simp
qed

lemma infinity_head: "\<not> is_ascii_digit (hd (''infinity'' @ s))" "\<not> is_ascii_digit (hd (''-infinity'' @ s))"
  by (simp_all add: is_ascii_digit_def byte_def)

lemma date_text_inj:
  assumes "date_to_text raw = Inr t" and "date_to_text raw' = Inr t"
  shows "raw = raw'"
proof -
  let ?d = "sint (from_be_bytes raw :: 32 word)" and ?d' = "sint (from_be_bytes raw' :: 32 word)"
  from assms have len: "length raw = 4" "length raw' = 4" by (auto simp: date_to_text_def read_i32_def split: if_splits)
  have form: "x = 2 ^ 31 - 1 \<and> u = ''infinity'' \<or> x = - (2 ^ 31) \<and> u = ''-infinity'' \<or>
      canonical_date (civil_from_pg_days x) ''date'' = Inr u"
    if "date_to_text r = Inr u" "x = sint (from_be_bytes r :: 32 word)" for r u x
    using that by (auto simp: date_to_text_def read_i32_def split: if_splits)
  have "?d = ?d'"
  proof (cases "is_ascii_digit (hd t)")
    case True
    then have "t \<noteq> ''infinity''" "t \<noteq> ''-infinity''" using infinity_head [of "[]"] by auto
    with form [OF assms(1) refl] form [OF assms(2) refl]
    have "canonical_date (civil_from_pg_days ?d) ''date'' = Inr t" "canonical_date (civil_from_pg_days ?d') ''date'' = Inr t"
      by blast+
    from canonical_date_inj [OF this refl] show ?thesis by (rule conjunct1)
  next
    case False
    then have "canonical_date (civil_from_pg_days x) ''date'' \<noteq> Inr t" for x using canonical_date_head by blast
    with form [OF assms(1) refl] form [OF assms(2) refl] show ?thesis by auto
  qed
  then show ?thesis by (rule from_be_inj) (simp_all add: len)
qed

lemma time_text_inj:
  assumes "time_to_text raw = Inr t" and "time_to_text raw' = Inr t"
  shows "raw = raw'"
proof -
  let ?d = "sint (from_be_bytes raw :: 64 word)" and ?d' = "sint (from_be_bytes raw' :: 64 word)"
  from assms have "length raw = 8" "length raw' = 8" "0 \<le> ?d" "?d \<le> 86400000000" "0 \<le> ?d'" "?d' \<le> 86400000000"
    "fmt_time_of_day ?d @ [] = fmt_time_of_day ?d' @ []"
    by (auto simp: time_to_text_def read_i64_def split: if_splits)
  then show ?thesis using fmt_time_inj [of ?d "[]" ?d' "[]"] by (intro from_be_inj [where 'a = 64]) simp_all
qed

text \<open>The two timestamp forms: a separator and an end.\<close>

lemma stamp_inj:
  assumes "map_sum id (\<lambda>(date, time). date @ sep # time @ fin) (split_timestamp u w) = Inr t"
    and "map_sum id (\<lambda>(date, time). date @ sep # time @ fin) (split_timestamp v w) = Inr t" and "fin \<in> {[], ''Z''}"
  shows "u = v"
proof -
  have form: "\<exists>date. canonical_date (civil_from_pg_days (x div 86400000000)) w = Inr date \<and>
      t = date @ sep # fmt_time_of_day (x mod 86400000000) @ fin"
    if "map_sum id (\<lambda>(date, time). date @ sep # time @ fin) (split_timestamp x w) = Inr t" for x
    using that by (cases "canonical_date (civil_from_pg_days (x div 86400000000)) w") (simp_all add: split_timestamp_def Let_def)
  from form [OF assms(1)] form [OF assms(2)] obtain d d' where
    d: "canonical_date (civil_from_pg_days (u div 86400000000)) w = Inr d"
      "canonical_date (civil_from_pg_days (v div 86400000000)) w = Inr d'"
    and t: "d @ sep # fmt_time_of_day (u mod 86400000000) @ fin = d' @ sep # fmt_time_of_day (v mod 86400000000) @ fin"
    by metis
  from canonical_date_inj [OF d t] have days: "u div 86400000000 = v div 86400000000"
    and time: "fmt_time_of_day (u mod 86400000000) @ fin = fmt_time_of_day (v mod 86400000000) @ fin" by simp_all
  have "x mod 86400000000 < 360000000000" "0 \<le> x mod 86400000000" for x :: int
    using pos_mod_bound [of 86400000000 x] by linarith+
  from fmt_time_inj [OF time assms(3) assms(3)] this have "u mod 86400000000 = v mod 86400000000" by blast
  with days show ?thesis using mult_div_mod_eq [of 86400000000 u] mult_div_mod_eq [of 86400000000 v] by metis
qed

lemma stamp_head:
  "map_sum id (\<lambda>(date, time). date @ sep # time @ fin) (split_timestamp u w) = Inr t \<Longrightarrow> t \<noteq> [] \<and> is_ascii_digit (hd t)"
  using canonical_date_head [of "u div 86400000000" w]
  by (cases "canonical_date (civil_from_pg_days (u div 86400000000)) w") (auto simp: split_timestamp_def Let_def)

lemma timestamp_text_inj:
  assumes "timestamp_sentinel u = Some t \<or> timestamp_sentinel u = None \<and>
      map_sum id (\<lambda>(date, time). date @ sep # time @ fin) (split_timestamp u w) = Inr t"
    and "timestamp_sentinel v = Some t \<or> timestamp_sentinel v = None \<and>
      map_sum id (\<lambda>(date, time). date @ sep # time @ fin) (split_timestamp v w) = Inr t"
    and "fin \<in> {[], ''Z''}"
  shows "u = v"
proof -
  have sent: "timestamp_sentinel x = Some t \<Longrightarrow> \<not> is_ascii_digit (hd t)" for x
    using infinity_head [of "[]"] by (auto simp: timestamp_sentinel_def split: if_splits)
  have same: "timestamp_sentinel x = Some t \<Longrightarrow> timestamp_sentinel y = Some t \<Longrightarrow> x = y" for x y
    by (auto simp: timestamp_sentinel_def split: if_splits)
  from assms(1,2) sent same stamp_head [of sep fin _ w t] stamp_inj [OF _ _ assms(3), of sep u w t v] show ?thesis by blast
qed

text \<open>
  C38: no two values share a text. Dates, times of day, timestamps and zoned timestamps that have a canonical
  text, infinities included, have different texts unless they are the same payload.
\<close>

theorem temporal_texts_are_faithful:
  assumes "f \<in> {date_to_text, time_to_text, timestamp_to_text, timestamptz_to_text}"
    and "f raw = Inr t" and "f raw' = Inr t"
  shows "raw = raw'"
proof -
  let ?u = "sint (from_be_bytes raw :: 64 word)" and ?v = "sint (from_be_bytes raw' :: 64 word)"
  have stamp: "length r = 8 \<and> (timestamp_sentinel x = Some t \<or> timestamp_sentinel x = None \<and>
      map_sum id (\<lambda>(date, time). date @ CHR '' '' # time @ []) (split_timestamp x ''timestamp'') = Inr t)"
    if "timestamp_to_text r = Inr t" "x = sint (from_be_bytes r :: 64 word)" for r x
    using that by (auto simp: timestamp_to_text_def read_i64_def split: if_splits option.splits)
  have stamptz: "length r = 8 \<and> (timestamp_sentinel x = Some t \<or> timestamp_sentinel x = None \<and>
      map_sum id (\<lambda>(date, time). date @ CHR ''T'' # time @ ''Z'') (split_timestamp x ''timestamptz'') = Inr t)"
    if "timestamptz_to_text r = Inr t" "x = sint (from_be_bytes r :: 64 word)" for r x
    using that by (auto simp: timestamptz_to_text_def read_i64_def split: if_splits option.splits)
  from assms(1) consider "f = date_to_text" | "f = time_to_text" | "f = timestamp_to_text" | "f = timestamptz_to_text" by blast
  then show ?thesis
  proof cases
    case 1
    with assms(2,3) show ?thesis using date_text_inj by blast
  next
    case 2
    with assms(2,3) show ?thesis using time_text_inj by blast
  next
    case 3
    from stamp [OF assms(2) [unfolded 3] refl] stamp [OF assms(3) [unfolded 3] refl]
    have "length raw = 8" "length raw' = 8" "?u = ?v" using timestamp_text_inj [of ?u t "CHR '' ''" "[]" "''timestamp''" ?v] by auto
    then show ?thesis by (intro from_be_inj [where 'a = 64]) simp_all
  next
    case 4
    from stamptz [OF assms(2) [unfolded 4] refl] stamptz [OF assms(3) [unfolded 4] refl]
    have "length raw = 8" "length raw' = 8" "?u = ?v" using timestamp_text_inj [of ?u t "CHR ''T''" "''Z''" "''timestamptz''" ?v] by auto
    then show ?thesis by (intro from_be_inj [where 'a = 64]) simp_all
  qed
qed

theorem temporal_texts_are_faithful_witness:
  "\<forall>raw. date_to_text raw = Inr ''2000-01-01'' \<longleftrightarrow> raw = [0, 0, 0, 0]"
proof -
  have "date_to_text [0, 0, 0, 0] = Inr ''2000-01-01''" by code_simp
  then show ?thesis using temporal_texts_are_faithful [of date_to_text] by blast
qed

end
