(* ===== verification/Floats.thy ===== *)
theory Floats
  imports Ferro_Prelude "HOL-Library.Word"
begin

text \<open>
  Rust's \<open>f32\<close> and \<open>f64\<close> as their IEEE 754 bit patterns, with the conversions \<open>as\<close> performs between them
  and from and to integers: to the nearest value, ties to even, overflow to an infinity, truncation and
  saturation towards integers. A finite magnitude is a pair \<open>(m, e)\<close> for \<open>m * 2 ^ e\<close>. The payload of a NaN
  is not specified by the language; here it is the quiet one.
\<close>

subsection \<open>Magnitudes\<close>

fun bitlen :: "nat \<Rightarrow> nat" where
  "bitlen n = (if n = 0 then 0 else Suc (bitlen (n div 2)))"

declare bitlen.simps [simp del]

definition round_even :: "nat \<Rightarrow> nat \<Rightarrow> nat" where
  "round_even m k =
     (let q = m div 2 ^ k; r = m mod 2 ^ k in if 2 ^ k < 2 * r \<or> 2 * r = 2 ^ k \<and> odd q then q + 1 else q)"

definition pack :: "nat \<Rightarrow> int \<Rightarrow> nat \<Rightarrow> nat \<times> int \<Rightarrow> nat" where
  "pack p emin hi x =
     (case x of (m, e) \<Rightarrow>
        if m = 0 then 0
        else
          (let u = max emin (e + int (bitlen m) - int p);
               q = (if e \<le> u then round_even m (nat (u - e)) else m * 2 ^ nat (e - u)) in
           min (hi * 2 ^ (p - 1)) (nat (u - emin) * 2 ^ (p - 1) + q)))"

definition unpack :: "nat \<Rightarrow> int \<Rightarrow> nat \<Rightarrow> nat \<times> int" where
  "unpack p emin x =
     (let ex = x div 2 ^ (p - 1); man = x mod 2 ^ (p - 1) in
      if ex = 0 then (man, emin) else (man + 2 ^ (p - 1), emin + int ex - 1))"

subsection \<open>Patterns\<close>

definition f64_mag :: "64 word \<Rightarrow> nat" where
  "f64_mag b = unat b mod 2 ^ 63"

definition f64_neg :: "64 word \<Rightarrow> bool" where
  "f64_neg b \<longleftrightarrow> 2 ^ 63 \<le> unat b"

definition f64_inf :: nat where
  "f64_inf = 2047 * 2 ^ 52"

definition f64_of :: "bool \<Rightarrow> nat \<Rightarrow> 64 word" where
  "f64_of neg mag = word_of_nat ((if neg then 2 ^ 63 else 0) + mag)"

definition f64_is_finite :: "64 word \<Rightarrow> bool" where
  "f64_is_finite b \<longleftrightarrow> f64_mag b < f64_inf"

definition f64_is_nan :: "64 word \<Rightarrow> bool" where
  "f64_is_nan b \<longleftrightarrow> f64_inf < f64_mag b"

definition f64_is_zero :: "64 word \<Rightarrow> bool" where
  "f64_is_zero b \<longleftrightarrow> f64_mag b = 0"

definition f32_mag :: "32 word \<Rightarrow> nat" where
  "f32_mag b = unat b mod 2 ^ 31"

definition f32_neg :: "32 word \<Rightarrow> bool" where
  "f32_neg b \<longleftrightarrow> 2 ^ 31 \<le> unat b"

definition f32_inf :: nat where
  "f32_inf = 255 * 2 ^ 23"

definition f32_of :: "bool \<Rightarrow> nat \<Rightarrow> 32 word" where
  "f32_of neg mag = word_of_nat ((if neg then 2 ^ 31 else 0) + mag)"

definition f32_is_finite :: "32 word \<Rightarrow> bool" where
  "f32_is_finite b \<longleftrightarrow> f32_mag b < f32_inf"

definition f32_is_zero :: "32 word \<Rightarrow> bool" where
  "f32_is_zero b \<longleftrightarrow> f32_mag b = 0"

subsection \<open>Conversions\<close>

definition f64_to_f32 :: "64 word \<Rightarrow> 32 word" where
  "f64_to_f32 b =
     f32_of (f64_neg b)
       (if f64_is_finite b then pack 24 (- 149) 255 (unpack 53 (- 1074) (f64_mag b))
        else if f64_is_nan b then f32_inf + 2 ^ 22 else f32_inf)"

definition f32_to_f64 :: "32 word \<Rightarrow> 64 word" where
  "f32_to_f64 b =
     f64_of (f32_neg b)
       (if f32_is_finite b then pack 53 (- 1074) 2047 (unpack 24 (- 149) (f32_mag b))
        else if f32_inf < f32_mag b then f64_inf + 2 ^ 51 else f64_inf)"

definition int_to_f64 :: "int \<Rightarrow> 64 word" where
  "int_to_f64 n = f64_of (n < 0) (pack 53 (- 1074) 2047 (nat \<bar>n\<bar>, 0))"

definition f64_to_i128 :: "64 word \<Rightarrow> int" where
  "f64_to_i128 b =
     (if f64_is_nan b then 0
      else
        (let mag =
               (if f64_is_finite b then
                  (case unpack 53 (- 1074) (f64_mag b) of
                     (m, e) \<Rightarrow> int (if 0 \<le> e then m * 2 ^ nat e else m div 2 ^ nat (- e)))
                else 2 ^ 127) in
         if f64_neg b then max (- mag) (- (2 ^ 127)) else min mag (2 ^ 127 - 1)))"

text \<open>The integer a pattern stands for exactly, if any.\<close>

definition f64_int :: "64 word \<Rightarrow> int option" where
  "f64_int b =
     (if \<not> f64_is_finite b then None
      else
        (case unpack 53 (- 1074) (f64_mag b) of
           (m, e) \<Rightarrow>
             if 0 \<le> e \<or> 2 ^ nat (- e) dvd m
             then Some ((if f64_neg b then - 1 else 1) * int (if 0 \<le> e then m * 2 ^ nat e else m div 2 ^ nat (- e)))
             else None))"

subsection \<open>Packing is exact where there is room\<close>

lemma bitlen_bounds: "0 < n \<Longrightarrow> 2 ^ (bitlen n - 1) \<le> n \<and> n < 2 ^ bitlen n"
proof (induction n rule: bitlen.induct)
  case (1 n)
  show ?case
  proof (cases "n = 1")
    case True
    then show ?thesis by (simp add: bitlen.simps)
  next
    case False
    with 1 have "0 < n div 2" "2 ^ (bitlen (n div 2) - 1) \<le> n div 2 \<and> n div 2 < 2 ^ bitlen (n div 2)" by auto
    moreover have "bitlen n = Suc (bitlen (n div 2))" using 1 by (simp add: bitlen.simps [of n])
    moreover have "bitlen (n div 2) \<noteq> 0" using calculation(1) by (simp add: bitlen.simps [of "n div 2"])
    moreover have "2 ^ bitlen (n div 2) = 2 * (2::nat) ^ (bitlen (n div 2) - 1)"
      using calculation(4) by (cases "bitlen (n div 2)") simp_all
    ultimately show ?thesis by simp linarith
  qed
qed

lemma bitlen_unique: "2 ^ (k - 1) \<le> n \<Longrightarrow> n < 2 ^ k \<Longrightarrow> 0 < k \<Longrightarrow> bitlen n = k"
proof -
  assume a: "2 ^ (k - 1) \<le> n" "n < 2 ^ k" "0 < k"
  then have n: "0 < n" by (metis gr0I le_zero_eq power_not_zero zero_neq_numeral)
  note b = bitlen_bounds [OF n]
  have "bitlen n \<noteq> 0" using n by (simp add: bitlen.simps [of n])
  have "2 ^ (k - 1) < (2::nat) ^ bitlen n" using a(1) b by linarith
  then have "k - 1 < bitlen n" by simp
  moreover have "2 ^ (bitlen n - 1) < (2::nat) ^ k" using a(2) b by linarith
  then have "bitlen n - 1 < k" by simp
  ultimately show ?thesis using \<open>bitlen n \<noteq> 0\<close> a(3) by linarith
qed

lemma bitlen_pos: "0 < n \<Longrightarrow> 0 < bitlen n"
  by (simp add: bitlen.simps [of n])

lemma bitlen_le: "n < 2 ^ k \<Longrightarrow> bitlen n \<le> k"
proof (cases "n = 0")
  case False
  assume "n < 2 ^ k"
  with bitlen_bounds [of n] False have "2 ^ (bitlen n - 1) < (2::nat) ^ k" by linarith
  then have "bitlen n - 1 < k" by simp
  then show ?thesis by simp
qed (simp add: bitlen.simps)

lemma round_even_exact [simp]: "round_even (m * 2 ^ k) k = m"
  by (simp add: round_even_def)

text \<open>A pattern is packed from what it unpacks to.\<close>

lemma unpack_normal: "0 < p \<Longrightarrow> 2 ^ (p - 1) \<le> q \<Longrightarrow> q < 2 ^ p \<Longrightarrow>
  unpack p emin (k * 2 ^ (p - 1) + q) = (q, emin + int k)"
proof -
  assume a: "0 < p" "2 ^ (p - 1) \<le> q" "q < 2 ^ p"
  define w :: nat where "w = 2 ^ (p - 1)"
  have "2 ^ p = 2 * w" unfolding w_def using a(1) by (cases p) simp_all
  with a have q: "w \<le> q" "q < 2 * w" "0 < w" by (simp_all add: w_def)
  have "q div w = 1" using q by (simp add: div_nat_eqI)
  moreover have "q mod w = q - w" using q by (simp add: le_mod_geq)
  ultimately show ?thesis using q unfolding unpack_def w_def [symmetric] by (simp add: Let_def)
qed

lemma pack_pos:
  "0 < m \<Longrightarrow> max emin (e + int (bitlen m) - int p) = u \<Longrightarrow>
    (if e \<le> u then round_even m (nat (u - e)) else m * 2 ^ nat (e - u)) = q \<Longrightarrow>
    pack p emin hi (m, e) = min (hi * 2 ^ (p - 1)) (nat (u - emin) * 2 ^ (p - 1) + q)"
  unfolding pack_def Let_def prod.case by (cases "e \<le> u") simp_all

lemma pack_wide:
  assumes "0 < m" "bitlen m \<le> 53" "- 1000 \<le> e" "e \<le> 900"
  shows "pack 53 (- 1074) 2047 (m, e) = nat (e + int (bitlen m) + 1021) * 2 ^ 52 + m * 2 ^ (53 - bitlen m)"
    and "2 ^ 52 \<le> m * 2 ^ (53 - bitlen m)" "m * 2 ^ (53 - bitlen m) < 2 ^ 53"
proof -
  let ?L = "bitlen m"
  have L: "0 < ?L" using bitlen_pos assms(1) .
  note b = bitlen_bounds [OF assms(1)]
  have "2 ^ 52 = 2 ^ (?L - 1) * (2::nat) ^ (53 - ?L)" "2 ^ 53 = 2 ^ ?L * (2::nat) ^ (53 - ?L)"
    using L assms(2) by (simp_all flip: power_add)
  with b show lo: "2 ^ 52 \<le> m * 2 ^ (53 - ?L)" and hi: "m * 2 ^ (53 - ?L) < 2 ^ 53"
    by (metis mult_le_mono1, metis mult_less_mono1 zero_less_numeral zero_less_power)
  have u: "max (- 1074) (e + int ?L - int 53) = e + int ?L - 53" using assms L by simp
  have q: "(if e \<le> e + int ?L - 53 then round_even m (nat (e + int ?L - 53 - e)) else m * 2 ^ nat (e - (e + int ?L - 53))) =
    m * 2 ^ (53 - ?L)" using assms(2) round_even_exact [of m 0] by (auto simp: nat_diff_distrib)
  have "nat (e + int ?L + 1021) \<le> 1974" using assms by simp
  then have le: "nat (e + int ?L + 1021) * 2 ^ 52 + m * 2 ^ (53 - ?L) \<le> 2047 * 2 ^ 52" using hi by simp
  have "pack 53 (- 1074) 2047 (m, e) = min (2047 * 2 ^ 52) (nat (e + int ?L + 1021) * 2 ^ 52 + m * 2 ^ (53 - ?L))"
    using pack_pos [OF assms(1) u q, of 2047] by (simp add: algebra_simps)
  also have "\<dots> = nat (e + int ?L + 1021) * 2 ^ 52 + m * 2 ^ (53 - ?L)" using le by (rule min.absorb2)
  finally show "pack 53 (- 1074) 2047 (m, e) = nat (e + int (bitlen m) + 1021) * 2 ^ 52 + m * 2 ^ (53 - bitlen m)" .
qed

lemma unpack_wide:
  assumes "0 < m" "bitlen m \<le> 53" "- 1000 \<le> e" "e \<le> 900"
  shows "unpack 53 (- 1074) (pack 53 (- 1074) 2047 (m, e)) = (m * 2 ^ (53 - bitlen m), e - int (53 - bitlen m))"
  using unpack_normal [of 53 "m * 2 ^ (53 - bitlen m)" "- 1074" "nat (e + int (bitlen m) + 1021)"] pack_wide [OF assms] assms
  by simp


subsection \<open>Narrow floats survive the wide format\<close>

lemma unpack_24:
  "unpack 24 emin x = (if x div 2 ^ 23 = 0 then (x mod 2 ^ 23, emin) else (x mod 2 ^ 23 + 2 ^ 23, emin + int (x div 2 ^ 23) - 1))"
  by (cases "x div 2 ^ 23 = 0") (simp_all add: unpack_def Let_def)

lemma unpack_narrow:
  assumes "x < f32_inf" "unpack 24 (- 149) x = (m, e)" "0 < m"
  shows "bitlen m \<le> 24" "- 149 \<le> e" "e \<le> 104" "max (- 149) (e + int (bitlen m) - 24) = e" "nat (e + 149) * 2 ^ 23 + m = x"
proof -
  define ex man where "ex = x div 2 ^ 23" and "man = x mod 2 ^ 23"
  have x: "x = ex * 2 ^ 23 + man" "man < 2 ^ 23" by (simp_all add: ex_def man_def)
  have "ex < 255" using assms(1) x by (simp add: f32_inf_def)
  have u: "(m, e) = (if ex = 0 then (man, - 149) else (man + 2 ^ 23, - 149 + int ex - 1))"
    using assms(2) unfolding unpack_24 ex_def man_def by (rule sym)
  have "bitlen m \<le> 24 \<and> - 149 \<le> e \<and> e \<le> 104 \<and> max (- 149) (e + int (bitlen m) - 24) = e \<and> nat (e + 149) * 2 ^ 23 + m = x"
  proof (cases "ex = 0")
    case True
    with u x have "m = man" "e = - 149" by simp_all
    moreover have "bitlen m \<le> 23" using calculation x by (intro bitlen_le) simp
    ultimately show ?thesis using True x by simp
  next
    case False
    with u have m: "m = man + 2 ^ 23" "e = int ex - 150" by simp_all
    then have "bitlen m = 24" using x by (intro bitlen_unique) simp_all
    moreover have "nat (e + 149) = ex - 1" using m False by simp
    moreover have "(ex - 1) * 2 ^ 23 + 2 ^ 23 = ex * 2 ^ 23" using False by (cases ex) simp_all
    ultimately show ?thesis using m False x \<open>ex < 255\<close> by simp
  qed
  then show "bitlen m \<le> 24" "- 149 \<le> e" "e \<le> 104" "max (- 149) (e + int (bitlen m) - 24) = e" "nat (e + 149) * 2 ^ 23 + m = x"
    by blast+
qed

lemma pack_narrow:
  assumes "x < f32_inf"
  shows "pack 24 (- 149) 255 (unpack 53 (- 1074) (pack 53 (- 1074) 2047 (unpack 24 (- 149) x))) = x"
    and "pack 53 (- 1074) 2047 (unpack 24 (- 149) x) < f64_inf"
    and "pack 53 (- 1074) 2047 (unpack 24 (- 149) x) = 0 \<longleftrightarrow> x = 0"
proof -
  obtain m e where um: "unpack 24 (- 149) x = (m, e)" by fastforce
  have "pack 24 (- 149) 255 (unpack 53 (- 1074) (pack 53 (- 1074) 2047 (m, e))) = x \<and>
    pack 53 (- 1074) 2047 (m, e) < f64_inf \<and> (pack 53 (- 1074) 2047 (m, e) = 0 \<longleftrightarrow> x = 0)"
  proof (cases "m = 0")
    case True
    with um have "x = 0" by (simp add: unpack_24 split: if_splits)
    then show ?thesis using True by (simp add: pack_def unpack_def f64_inf_def)
  next
    case False
    then have m: "0 < m" by simp
    note n = unpack_narrow [OF assms um m]
    let ?q = "m * 2 ^ (53 - bitlen m)"
    have w: "bitlen m \<le> 53" "- 1000 \<le> e" "e \<le> 900" using n by simp_all
    note p = pack_wide [OF m w]
    have "bitlen ?q = 53" using p by (intro bitlen_unique) simp_all
    then have u: "max (- 149) (e - int (53 - bitlen m) + int (bitlen ?q) - int 24) = e" using n by simp
    have q: "(if e - int (53 - bitlen m) \<le> e then round_even ?q (nat (e - (e - int (53 - bitlen m))))
      else ?q * 2 ^ nat (e - int (53 - bitlen m) - e)) = m" by simp
    have "0 < ?q" using m by simp
    from pack_pos [OF this u q, of 255] n have "pack 24 (- 149) 255 (?q, e - int (53 - bitlen m)) = x"
      using assms by (simp add: f32_inf_def)
    moreover have "nat (e + int (bitlen m) + 1021) \<le> 1149" using n by simp
    then have "pack 53 (- 1074) 2047 (m, e) < f64_inf" using p by (simp add: f64_inf_def)
    moreover have "pack 53 (- 1074) 2047 (m, e) \<noteq> 0" using p(1) m by simp
    moreover have "x \<noteq> 0" using um False by (cases "x = 0") (simp_all add: unpack_24)
    ultimately show ?thesis using unpack_wide [OF m w] by simp
  qed
  then show "pack 24 (- 149) 255 (unpack 53 (- 1074) (pack 53 (- 1074) 2047 (unpack 24 (- 149) x))) = x"
    and "pack 53 (- 1074) 2047 (unpack 24 (- 149) x) < f64_inf"
    and "pack 53 (- 1074) 2047 (unpack 24 (- 149) x) = 0 \<longleftrightarrow> x = 0" by (simp_all add: um)
qed

lemma f64_of_parts: "mag < 2 ^ 63 \<Longrightarrow> f64_mag (f64_of neg mag) = mag \<and> f64_neg (f64_of neg mag) = neg"
proof -
  assume m: "mag < 2 ^ 63"
  define n where "n = (if neg then 2 ^ 63 else 0) + mag"
  have "n < 2 ^ 64" using m by (simp add: n_def)
  then have "unat (word_of_nat n :: 64 word) = n" by (simp add: unat_of_nat take_bit_nat_eq_self)
  then have "unat (f64_of neg mag) = n" by (simp add: f64_of_def n_def)
  with m show ?thesis by (simp add: f64_mag_def f64_neg_def n_def)
qed

lemma f32_parts: "f32_of (f32_neg b) (f32_mag b) = b"
proof -
  have "unat b < 2 ^ 32" using unsigned_less [of b] by simp
  then have "(if f32_neg b then 2 ^ 31 else 0) + f32_mag b = unat b"
    by (simp add: f32_neg_def f32_mag_def le_mod_geq)
  then show ?thesis by (simp add: f32_of_def)
qed

text \<open>Widening keeps what a pattern is, and narrowing undoes it.\<close>

lemma f32_to_f64_parts:
  assumes "f32_mag b \<le> f32_inf"
  shows "f64_neg (f32_to_f64 b) = f32_neg b" "f64_is_finite (f32_to_f64 b) = f32_is_finite b"
    "f64_is_zero (f32_to_f64 b) = f32_is_zero b" "f64_to_f32 (f32_to_f64 b) = b"
proof -
  let ?x = "if f32_is_finite b then pack 53 (- 1074) 2047 (unpack 24 (- 149) (f32_mag b)) else f64_inf"
  have w: "f32_to_f64 b = f64_of (f32_neg b) ?x" using assms by (simp add: f32_to_f64_def)
  have le: "f32_is_finite b \<Longrightarrow> ?x < f64_inf" using pack_narrow(2) [of "f32_mag b"] by (simp add: f32_is_finite_def)
  then have x: "?x < 2 ^ 63" "?x < f64_inf \<longleftrightarrow> f32_is_finite b" "?x = 0 \<longleftrightarrow> f32_mag b = 0"
    using pack_narrow(3) [of "f32_mag b"]
    by (cases "f32_is_finite b"; simp add: f32_is_finite_def f64_inf_def f32_inf_def)+
  then show neg: "f64_neg (f32_to_f64 b) = f32_neg b" and fin: "f64_is_finite (f32_to_f64 b) = f32_is_finite b"
    and "f64_is_zero (f32_to_f64 b) = f32_is_zero b"
    using f64_of_parts by (simp_all add: w f64_is_finite_def f64_is_zero_def f32_is_zero_def)
  have "f64_mag (f32_to_f64 b) = ?x" using x f64_of_parts by (simp add: w)
  then have "f64_to_f32 (f32_to_f64 b) = f32_of (f32_neg b) (f32_mag b)"
    using pack_narrow [of "f32_mag b"] assms fin neg
    by (cases "f32_is_finite b") (simp_all add: f64_to_f32_def f64_is_nan_def f32_is_finite_def)
  then show "f64_to_f32 (f32_to_f64 b) = b" by (simp add: f32_parts)
qed


subsection \<open>Integers as floats\<close>

lemma round_even_bounds: "m div 2 ^ k \<le> round_even m k" "round_even m k \<le> m div 2 ^ k + 1"
  by (simp_all add: round_even_def Let_def)

lemma pack_large:
  assumes "53 < bitlen m" "bitlen m \<le> 64"
  obtains q e where "unpack 53 (- 1074) (pack 53 (- 1074) 2047 (m, 0)) = (q, e)" "0 \<le> e" "e \<le> 12" "q \<le> 2 ^ 53"
    "pack 53 (- 1074) 2047 (m, 0) < f64_inf"
proof -
  let ?L = "bitlen m"
  have m: "0 < m" using assms(1) by (cases m) (simp_all add: bitlen.simps)
  define k q where "k = ?L - 53" and "q = round_even m k"
  have kL: "?L = k + 53" "1 \<le> k" "k \<le> 11" using assms by (simp_all add: k_def)
  have "2 ^ (52 + k) \<le> m" "m < 2 ^ (53 + k)" using bitlen_bounds [OF m] kL by (simp_all add: add.commute)
  then have "2 ^ 52 \<le> m div 2 ^ k" "m div 2 ^ k < 2 ^ 53"
    by (simp_all add: power_add less_eq_div_iff_mult_less_eq div_less_iff_less_mult)
  then have q: "2 ^ 52 \<le> q" "q \<le> 2 ^ 53" using round_even_bounds [of m k] by (simp_all add: q_def)
  have u: "max (- 1074) (0 + int ?L - int 53) = int k" using kL by simp
  have r: "(if 0 \<le> int k then round_even m (nat (int k - 0)) else m * 2 ^ nat (0 - int k)) = q" by (simp add: q_def)
  have "(k + 1074) * 2 ^ 52 + q \<le> 2047 * 2 ^ 52" using kL q by simp
  with pack_pos [OF m u r, of 2047] have p: "pack 53 (- 1074) 2047 (m, 0) = (k + 1074) * 2 ^ 52 + q"
    by (simp add: nat_add_distrib)
  have fin: "(k + 1074) * 2 ^ 52 + q < f64_inf" using kL q by (simp add: f64_inf_def)
  show ?thesis
  proof (cases "q = 2 ^ 53")
    case True
    have "(k + 1074) * 2 ^ 52 + q = (k + 1075) * 2 ^ 52 + 2 ^ 52" using True by simp
    with unpack_normal [of 53 "2 ^ 52" "- 1074" "k + 1075"]
    have "unpack 53 (- 1074) ((k + 1074) * 2 ^ 52 + q) = (2 ^ 52, - 1074 + int (k + 1075))" by simp
    with that [of "2 ^ 52" "int k + 1"] p fin kL show ?thesis by simp
  next
    case False
    with q unpack_normal [of 53 q "- 1074" "k + 1074"]
    have "unpack 53 (- 1074) ((k + 1074) * 2 ^ 52 + q) = (q, - 1074 + int (k + 1074))" by simp
    with that [of q "int k"] p fin kL q show ?thesis by simp
  qed
qed

text \<open>An integer that survives the round trip of the range check is the value of its float.\<close>

lemma int_to_f64_exact:
  assumes "\<bar>n\<bar> \<le> 2 ^ 63" and "f64_to_i128 (int_to_f64 n) = n"
  shows "f64_int (int_to_f64 n) = Some n"
proof -
  define m where "m = nat \<bar>n\<bar>"
  define x where "x = pack 53 (- 1074) 2047 (m, 0)"
  have n: "(if n < 0 then - 1 else 1) * int m = n" by (simp add: m_def)
  have "m < 2 ^ 64" using assms(1) by (simp add: m_def)
  then have L: "bitlen m \<le> 64" by (rule bitlen_le)
  have parts: "x < f64_inf \<Longrightarrow> f64_mag (int_to_f64 n) = x \<and> f64_neg (int_to_f64 n) = (n < 0)"
    using f64_of_parts [of x "n < 0"] by (simp add: int_to_f64_def x_def m_def f64_inf_def)
  consider "m = 0" | "0 < m" "bitlen m \<le> 53" | "53 < bitlen m" by linarith
  then show ?thesis
  proof cases
    case 1
    then have "x = 0" "n = 0" by (simp_all add: x_def m_def pack_def)
    with parts show ?thesis by (simp add: f64_int_def f64_is_finite_def f64_inf_def unpack_def)
  next
    case 2
    note p = pack_wide [OF 2, of 0] and u = unpack_wide [OF 2, of 0]
    have fin: "x < f64_inf" using p 2 by (simp add: x_def f64_inf_def)
    have "unpack 53 (- 1074) x = (m * 2 ^ (53 - bitlen m), - int (53 - bitlen m))" using u by (simp add: x_def)
    moreover have "0 \<le> - int (53 - bitlen m) \<Longrightarrow> bitlen m = 53" using 2 by simp
    moreover have "nat (53 - int (bitlen m)) = 53 - bitlen m" by (simp add: nat_diff_distrib)
    ultimately show ?thesis using parts [OF fin] fin n by (auto simp: f64_int_def f64_is_finite_def)
  next
    case 3
    obtain q e where u: "unpack 53 (- 1074) x = (q, e)" "0 \<le> e" "e \<le> 12" "q \<le> 2 ^ 53" and fin: "x < f64_inf"
      using pack_large [OF 3 L] unfolding x_def by metis
    have "2 ^ nat e \<le> (2::nat) ^ 12" using u by (intro power_increasing) simp_all
    with u have "q * 2 ^ nat e \<le> 2 ^ 53 * 2 ^ 12" by (intro mult_mono) simp_all
    define v where "v = int (q * 2 ^ nat e)"
    have "v \<le> int (2 ^ 53 * 2 ^ 12)" using \<open>q * 2 ^ nat e \<le> _\<close> unfolding v_def by (rule of_nat_mono)
    then have "0 \<le> v" "v < 2 ^ 127 - 1" by (simp_all add: v_def)
    with assms(2) u parts [OF fin] fin have "(if n < 0 then - 1 else 1) * v = n"
      by (auto simp: f64_to_i128_def f64_is_finite_def f64_is_nan_def Let_def v_def [symmetric] simp del: of_nat_mult of_nat_power split: if_splits)
    with u parts [OF fin] fin show ?thesis
      by (simp add: f64_int_def f64_is_finite_def v_def [symmetric] del: of_nat_mult of_nat_power)
  qed
qed

end
