(* ===== verification/Bytes.thy ===== *)
theory Bytes
  imports Utf8 Endian
begin

text \<open>
  Strings and byte slices: a Rust \<open>String\<close> is a list of characters, one per byte, in the model; on the wire it is a list
  of 8-bit words. \<open>String::from_utf8\<close> and \<open>String::from_utf8_lossy\<close> of the standard library go back.
\<close>

definition char_u8 :: "char \<Rightarrow> 8 word" where
  "char_u8 c = word_of_nat (byte c)"

definition as_bytes :: "string \<Rightarrow> u8s" where
  "as_bytes s = map char_u8 s"

definition u8_char :: "8 word \<Rightarrow> char" where
  "u8_char b = char_of (unat b)"

definition of_bytes :: "u8s \<Rightarrow> string" where
  "of_bytes bs = map u8_char bs"

lemma u8_char_u8 [simp]: "u8_char (char_u8 c) = c"
  by (simp add: u8_char_def char_u8_def byte_def unat_of_nat of_char_mod_256)

lemma char_u8_char [simp]: "char_u8 (u8_char b) = b"
proof -
  have "unat b < 256" using unsigned_less [of b] by simp
  then show ?thesis by (simp add: u8_char_def char_u8_def byte_def)
qed

lemma of_as_bytes [simp]: "of_bytes (as_bytes s) = s"
  by (simp add: of_bytes_def as_bytes_def comp_def)

lemma as_of_bytes [simp]: "as_bytes (of_bytes bs) = bs"
  by (simp add: of_bytes_def as_bytes_def comp_def)

lemma length_as_bytes [simp]: "length (as_bytes s) = length s" "length (of_bytes bs) = length bs"
  by (simp_all add: as_bytes_def of_bytes_def)

text \<open>
  \<open>from_utf8_lossy\<close> copies well-formed sequences and puts U+FFFD in place of each maximal ill-formed prefix: a lead byte
  with the continuation bytes that could still have completed it.
\<close>

definition replacement :: string where
  "replacement = [CHR 0xEF, CHR 0xBF, CHR 0xBD]"

definition three_start :: "char \<Rightarrow> char \<Rightarrow> bool" where
  "three_start a b \<longleftrightarrow> byte a = 224 \<and> in_bytes 160 191 b \<or> (in_bytes 225 236 a \<or> in_bytes 238 239 a) \<and> is_cont_byte b \<or>
     byte a = 237 \<and> in_bytes 128 159 b"

definition four_start :: "char \<Rightarrow> char \<Rightarrow> bool" where
  "four_start a b \<longleftrightarrow> byte a = 240 \<and> in_bytes 144 191 b \<or> in_bytes 241 243 a \<and> is_cont_byte b \<or>
     byte a = 244 \<and> in_bytes 128 143 b"

fun from_utf8_lossy :: "string \<Rightarrow> string" where
  "from_utf8_lossy [] = []"
| "from_utf8_lossy [a] = (if byte a < 128 then [a] else replacement)"
| "from_utf8_lossy [a, b] =
     (if byte a < 128 then a # from_utf8_lossy [b]
      else if in_bytes 194 223 a \<and> is_cont_byte b then [a, b]
      else if three_start a b \<or> four_start a b then replacement
      else replacement @ from_utf8_lossy [b])"
| "from_utf8_lossy [a, b, c] =
     (if byte a < 128 then a # from_utf8_lossy [b, c]
      else if in_bytes 194 223 a \<and> is_cont_byte b then a # b # from_utf8_lossy [c]
      else if three_start a b then (if is_cont_byte c then [a, b, c] else replacement @ from_utf8_lossy [c])
      else if four_start a b then (if is_cont_byte c then replacement else replacement @ from_utf8_lossy [c])
      else replacement @ from_utf8_lossy [b, c])"
| "from_utf8_lossy (a # b # c # d # s) =
     (if byte a < 128 then a # from_utf8_lossy (b # c # d # s)
      else if in_bytes 194 223 a \<and> is_cont_byte b then a # b # from_utf8_lossy (c # d # s)
      else if three_start a b then
        (if is_cont_byte c then a # b # c # from_utf8_lossy (d # s) else replacement @ from_utf8_lossy (c # d # s))
      else if four_start a b then
        (if is_cont_byte c then
           (if is_cont_byte d then a # b # c # d # from_utf8_lossy s else replacement @ from_utf8_lossy (d # s))
         else replacement @ from_utf8_lossy (c # d # s))
      else replacement @ from_utf8_lossy (b # c # d # s))"

lemma utf8_valid_single: "utf8_valid [a] \<longleftrightarrow> byte a < 128"
  by simp

declare utf8_valid.simps(2) [simp del]

lemma utf8_valid_Cons:
  "utf8_valid (a # b # s) \<longleftrightarrow>
     (if byte a < 128 then utf8_valid (b # s)
      else if in_bytes 194 223 a then is_cont_byte b \<and> utf8_valid s
      else if three_start a b then s \<noteq> [] \<and> is_cont_byte (hd s) \<and> utf8_valid (tl s)
      else four_start a b \<and> 2 \<le> length s \<and> is_cont_byte (hd s) \<and> is_cont_byte (s ! 1) \<and> utf8_valid (drop 2 s))"
  by (subst utf8_valid.simps(2), cases s; cases "tl s"; simp add: three_start_def [symmetric] four_start_def [symmetric])

lemma lossy_of_valid [simp]: "utf8_valid s \<Longrightarrow> from_utf8_lossy s = s"
  by (induction s rule: from_utf8_lossy.induct)
    (simp_all add: utf8_valid_Cons utf8_valid_single split: if_splits)

lemma valid_replacement: "utf8_valid (replacement @ s) \<longleftrightarrow> utf8_valid s"
  by (simp add: replacement_def utf8_valid_Cons three_start_def in_bytes_def byte_def is_cont_byte_def)

lemma valid_ascii: "byte a < 128 \<Longrightarrow> utf8_valid (a # s) \<longleftrightarrow> utf8_valid s"
  by (subst utf8_valid.simps) simp

lemma not_three_start: "in_bytes 194 223 a \<Longrightarrow> \<not> three_start a b" "byte a < 128 \<Longrightarrow> \<not> three_start a b"
  "four_start a b \<Longrightarrow> \<not> three_start a b" "four_start a b \<Longrightarrow> \<not> in_bytes 194 223 a" "four_start a b \<Longrightarrow> \<not> byte a < 128"
  "three_start a b \<Longrightarrow> \<not> in_bytes 194 223 a" "three_start a b \<Longrightarrow> \<not> byte a < 128" "in_bytes 194 223 a \<Longrightarrow> \<not> byte a < 128"
  by (auto simp: three_start_def four_start_def in_bytes_def)

lemma valid_multi:
  "in_bytes 194 223 a \<Longrightarrow> is_cont_byte b \<Longrightarrow> utf8_valid (a # b # s) \<longleftrightarrow> utf8_valid s"
  "three_start a b \<Longrightarrow> is_cont_byte c \<Longrightarrow> utf8_valid (a # b # c # s) \<longleftrightarrow> utf8_valid s"
  "four_start a b \<Longrightarrow> is_cont_byte c \<Longrightarrow> is_cont_byte d \<Longrightarrow> utf8_valid (a # b # c # d # s) \<longleftrightarrow> utf8_valid s"
  using not_three_start(3-5) [of a b] not_three_start(6,7) [of a b] not_three_start(8) [of a]
  by (auto simp: utf8_valid_Cons [of a])

lemma lossy_valid: "utf8_valid (from_utf8_lossy s)"
  by (induction s rule: from_utf8_lossy.induct)
    (simp_all add: valid_replacement valid_replacement [of "[]", simplified] valid_ascii valid_multi)

declare utf8_valid.simps(2) [simp]

end
