(* ===== verification/Pg_Bind.thy ===== *)
theory Pg_Bind
  imports Pool_Backend Pg_Text Floats Bytes
begin

text \<open>
  Binding parameters to PostgreSQL statements (\<open>ferro-backend-pg/src/bind.rs\<close>): the wrappers that implement
  \<open>ToSql\<close>, the boxing of a value, and the check that runs before a statement is sent. What the crate
  \<open>postgres-types\<close> provides (the \<open>ToSql\<close> of \<open>String\<close>, \<open>bool\<close>, \<open>Vec<u8>\<close> and the number types) is a record of
  functions, an argument of the definitions; so is the text \<open>Display\<close> prints for a finite float.
\<close>

subsection \<open>Types\<close>

datatype pg_type = PgType nat string pg_kind
and pg_kind = KindSimple | KindDomain pg_type | KindOther

fun ty_oid :: "pg_type \<Rightarrow> nat" where "ty_oid (PgType oid name kind) = oid"

fun ty_kind :: "pg_type \<Rightarrow> pg_kind" where "ty_kind (PgType oid name kind) = kind"

definition pg_builtin :: "nat \<Rightarrow> string \<Rightarrow> pg_type" where
  "pg_builtin oid name = PgType oid name KindSimple"

abbreviation "T_BOOL \<equiv> pg_builtin 16 ''bool''"
abbreviation "T_BYTEA \<equiv> pg_builtin 17 ''bytea''"
abbreviation "T_CHAR \<equiv> pg_builtin 18 ''char''"
abbreviation "T_NAME \<equiv> pg_builtin 19 ''name''"
abbreviation "T_INT8 \<equiv> pg_builtin 20 ''int8''"
abbreviation "T_INT2 \<equiv> pg_builtin 21 ''int2''"
abbreviation "T_INT2_VECTOR \<equiv> pg_builtin 22 ''int2vector''"
abbreviation "T_INT4 \<equiv> pg_builtin 23 ''int4''"
abbreviation "T_TEXT \<equiv> pg_builtin 25 ''text''"
abbreviation "T_OID \<equiv> pg_builtin 26 ''oid''"
abbreviation "T_OID_VECTOR \<equiv> pg_builtin 30 ''oidvector''"
abbreviation "T_JSON \<equiv> pg_builtin 114 ''json''"
abbreviation "T_FLOAT4 \<equiv> pg_builtin 700 ''float4''"
abbreviation "T_FLOAT8 \<equiv> pg_builtin 701 ''float8''"
abbreviation "T_BPCHAR \<equiv> pg_builtin 1042 ''bpchar''"
abbreviation "T_VARCHAR \<equiv> pg_builtin 1043 ''varchar''"
abbreviation "T_DATE \<equiv> pg_builtin 1082 ''date''"
abbreviation "T_TIME \<equiv> pg_builtin 1083 ''time''"
abbreviation "T_TIMESTAMP \<equiv> pg_builtin 1114 ''timestamp''"
abbreviation "T_TIMESTAMPTZ \<equiv> pg_builtin 1184 ''timestamptz''"
abbreviation "T_NUMERIC \<equiv> pg_builtin 1700 ''numeric''"
abbreviation "T_REGCLASS \<equiv> pg_builtin 2205 ''regclass''"
abbreviation "T_REGTYPE \<equiv> pg_builtin 2206 ''regtype''"
abbreviation "T_UUID \<equiv> pg_builtin 2950 ''uuid''"
abbreviation "T_JSONB \<equiv> pg_builtin 3802 ''jsonb''"

definition MAX_DOMAIN_DEPTH :: nat where
  "MAX_DOMAIN_DEPTH = 8"

fun unwrap_domain :: "nat \<Rightarrow> pg_type \<Rightarrow> pg_type" where
  "unwrap_domain 0 cur = cur"
| "unwrap_domain (Suc n) cur = (case ty_kind cur of KindDomain inner \<Rightarrow> unwrap_domain n inner | _ \<Rightarrow> cur)"

definition resolve_domain :: "pg_type \<Rightarrow> pg_type" where
  "resolve_domain ty = unwrap_domain MAX_DOMAIN_DEPTH ty"

subsection \<open>The driver's conversions\<close>

datatype wire_format = TextFormat | BinaryFormat

datatype is_null = IsNull | Wrote u8s

record pg_types =
  pt_string_accepts :: "pg_type \<Rightarrow> bool"
  pt_string_to_sql :: "string \<Rightarrow> pg_type \<Rightarrow> u8s option"
  pt_bool_accepts :: "pg_type \<Rightarrow> bool"
  pt_bool_to_sql :: "bool \<Rightarrow> pg_type \<Rightarrow> u8s option"
  pt_bytes_accepts :: "pg_type \<Rightarrow> bool"
  pt_bytes_to_sql :: "string \<Rightarrow> pg_type \<Rightarrow> u8s option"
  pt_i16_to_sql :: "16 word \<Rightarrow> pg_type \<Rightarrow> u8s option"
  pt_i32_to_sql :: "32 word \<Rightarrow> pg_type \<Rightarrow> u8s option"
  pt_i64_to_sql :: "64 word \<Rightarrow> pg_type \<Rightarrow> u8s option"
  pt_u32_to_sql :: "32 word \<Rightarrow> pg_type \<Rightarrow> u8s option"
  pt_f32_to_sql :: "32 word \<Rightarrow> pg_type \<Rightarrow> u8s option"
  pt_f64_to_sql :: "64 word \<Rightarrow> pg_type \<Rightarrow> u8s option"
  pt_display_f64 :: "64 word \<Rightarrow> string"

datatype to_sql_error = WrongType | ConversionFailed

definition wrote :: "u8s option \<Rightarrow> to_sql_error + is_null" where
  "wrote r = (case r of Some bs \<Rightarrow> Inr (Wrote bs) | None \<Rightarrow> Inl ConversionFailed)"

definition show_int :: "int \<Rightarrow> string" where
  "show_int n = (if n < 0 then ''-'' else []) @ to_dec (nat \<bar>n\<bar>)"

subsection \<open>The wrappers\<close>

definition is_text_input_target :: "pg_type \<Rightarrow> bool" where
  "is_text_input_target base \<longleftrightarrow>
     base \<in> {T_NUMERIC, T_DATE, T_TIME, T_TIMESTAMP, T_TIMESTAMPTZ, T_UUID, T_JSON, T_JSONB, T_INT2, T_INT4, T_INT8}"

definition i64_is_exact_as_f64 :: "64 word \<Rightarrow> bool" where
  "i64_is_exact_as_f64 n \<longleftrightarrow> f64_to_i128 (int_to_f64 (sint n)) = sint n"

definition pg_text_to_sql :: "pg_types \<Rightarrow> string \<Rightarrow> pg_type \<Rightarrow> to_sql_error + is_null" where
  "pg_text_to_sql pt s ty =
     (let base = resolve_domain ty in
      if is_text_input_target base then Inr (Wrote (as_bytes s)) else wrote (pt_string_to_sql pt s base))"

definition pg_text_accepts :: "pg_types \<Rightarrow> pg_type \<Rightarrow> bool" where
  "pg_text_accepts pt ty \<longleftrightarrow>
     (let base = resolve_domain ty in pt_string_accepts pt base \<or> is_text_input_target base)"

definition pg_text_format :: "pg_type \<Rightarrow> wire_format" where
  "pg_text_format ty = (if is_text_input_target (resolve_domain ty) then TextFormat else BinaryFormat)"

definition pg_int_to_sql :: "pg_types \<Rightarrow> 64 word \<Rightarrow> pg_type \<Rightarrow> to_sql_error + is_null" where
  "pg_int_to_sql pt w ty =
     (let base = resolve_domain ty; n = sint w in
      if base = T_INT2 then
        (if - (2 ^ 15) \<le> n \<and> n < 2 ^ 15 then wrote (pt_i16_to_sql pt (word_of_int n) base) else Inl ConversionFailed)
      else if base = T_INT4 then
        (if - (2 ^ 31) \<le> n \<and> n < 2 ^ 31 then wrote (pt_i32_to_sql pt (word_of_int n) base) else Inl ConversionFailed)
      else if base = T_INT8 then wrote (pt_i64_to_sql pt w base)
      else if base = T_OID then
        (if 0 \<le> n \<and> n < 2 ^ 32 then wrote (pt_u32_to_sql pt (word_of_int n) base) else Inl ConversionFailed)
      else if base = T_TEXT \<or> base = T_VARCHAR then Inr (Wrote (as_bytes (show_int n)))
      else if base = T_NUMERIC then Inr (Wrote (as_bytes (show_int n)))
      else if base = T_FLOAT8 then
        (if i64_is_exact_as_f64 w then wrote (pt_f64_to_sql pt (int_to_f64 n) base) else Inl ConversionFailed)
      else if base = T_BOOL then
        (if n = 0 then wrote (pt_bool_to_sql pt False base)
         else if n = 1 then wrote (pt_bool_to_sql pt True base)
         else Inl ConversionFailed)
      else Inl ConversionFailed)"

definition pg_int_accepts :: "pg_type \<Rightarrow> bool" where
  "pg_int_accepts ty \<longleftrightarrow>
     resolve_domain ty \<in> {T_INT2, T_INT4, T_INT8, T_TEXT, T_BOOL, T_NUMERIC, T_FLOAT8, T_VARCHAR, T_OID}"

definition pg_int_format :: "pg_type \<Rightarrow> wire_format" where
  "pg_int_format ty =
     (let base = resolve_domain ty in
      if base = T_TEXT \<or> base = T_VARCHAR \<or> base = T_NUMERIC then TextFormat else BinaryFormat)"

definition f64_numeric_text :: "pg_types \<Rightarrow> 64 word \<Rightarrow> string" where
  "f64_numeric_text pt f =
     (if f64_is_nan f then ''NaN''
      else if f64_mag f = f64_inf \<and> \<not> f64_neg f then ''Infinity''
      else if f64_mag f = f64_inf \<and> f64_neg f then ''-Infinity''
      else pt_display_f64 pt f)"

definition pg_float_to_sql :: "pg_types \<Rightarrow> 64 word \<Rightarrow> pg_type \<Rightarrow> to_sql_error + is_null" where
  "pg_float_to_sql pt f ty =
     (let base = resolve_domain ty in
      if base = T_FLOAT4 then wrote (pt_f32_to_sql pt (f64_to_f32 f) base)
      else if base = T_FLOAT8 then wrote (pt_f64_to_sql pt f base)
      else if base = T_NUMERIC then Inr (Wrote (as_bytes (f64_numeric_text pt f)))
      else Inl ConversionFailed)"

definition pg_float_accepts :: "pg_type \<Rightarrow> bool" where
  "pg_float_accepts ty \<longleftrightarrow> resolve_domain ty \<in> {T_FLOAT4, T_FLOAT8, T_NUMERIC}"

definition pg_float_format :: "pg_type \<Rightarrow> wire_format" where
  "pg_float_format ty = (if resolve_domain ty = T_NUMERIC then TextFormat else BinaryFormat)"

subsection \<open>Boxes\<close>

datatype boxed =
    PgNull | PgBool bool | PgInt "64 word" | PgFloat "64 word" | PgText string | PgBytes string | PgU64Text string
  | PgDecimalText string | PgDateText string | PgTimeText string | PgTimestampText string | PgTimestampTzText string
  | PgUuidText string | PgJsonText string

fun box_accepts :: "pg_types \<Rightarrow> boxed \<Rightarrow> pg_type \<Rightarrow> bool" where
  "box_accepts pt PgNull ty = True"
| "box_accepts pt (PgBool b) ty = pt_bool_accepts pt (resolve_domain ty)"
| "box_accepts pt (PgInt n) ty = pg_int_accepts ty"
| "box_accepts pt (PgFloat f) ty = pg_float_accepts ty"
| "box_accepts pt (PgText s) ty = pg_text_accepts pt ty"
| "box_accepts pt (PgBytes b) ty = pt_bytes_accepts pt (resolve_domain ty)"
| "box_accepts pt (PgU64Text s) ty = False"
| "box_accepts pt (PgDecimalText s) ty = (resolve_domain ty \<in> {T_NUMERIC})"
| "box_accepts pt (PgDateText s) ty = (resolve_domain ty \<in> {T_DATE})"
| "box_accepts pt (PgTimeText s) ty = (resolve_domain ty \<in> {T_TIME})"
| "box_accepts pt (PgTimestampText s) ty = (resolve_domain ty \<in> {T_TIMESTAMP})"
| "box_accepts pt (PgTimestampTzText s) ty = (resolve_domain ty \<in> {T_TIMESTAMPTZ})"
| "box_accepts pt (PgUuidText s) ty = (resolve_domain ty \<in> {T_UUID})"
| "box_accepts pt (PgJsonText s) ty = (resolve_domain ty \<in> {T_JSON, T_JSONB})"

fun box_to_sql :: "pg_types \<Rightarrow> boxed \<Rightarrow> pg_type \<Rightarrow> to_sql_error + is_null" where
  "box_to_sql pt PgNull ty = Inr IsNull"
| "box_to_sql pt (PgBool b) ty = wrote (pt_bool_to_sql pt b (resolve_domain ty))"
| "box_to_sql pt (PgInt n) ty = pg_int_to_sql pt n ty"
| "box_to_sql pt (PgFloat f) ty = pg_float_to_sql pt f ty"
| "box_to_sql pt (PgText s) ty = pg_text_to_sql pt s ty"
| "box_to_sql pt (PgBytes b) ty = wrote (pt_bytes_to_sql pt b (resolve_domain ty))"
| "box_to_sql pt (PgU64Text s) ty = Inr (Wrote (as_bytes s))"
| "box_to_sql pt (PgDecimalText s) ty = Inr (Wrote (as_bytes s))"
| "box_to_sql pt (PgDateText s) ty = Inr (Wrote (as_bytes s))"
| "box_to_sql pt (PgTimeText s) ty = Inr (Wrote (as_bytes s))"
| "box_to_sql pt (PgTimestampText s) ty = Inr (Wrote (as_bytes s))"
| "box_to_sql pt (PgTimestampTzText s) ty = Inr (Wrote (as_bytes s))"
| "box_to_sql pt (PgUuidText s) ty = Inr (Wrote (as_bytes s))"
| "box_to_sql pt (PgJsonText s) ty = Inr (Wrote (as_bytes s))"

fun box_format :: "boxed \<Rightarrow> pg_type \<Rightarrow> wire_format" where
  "box_format PgNull ty = BinaryFormat"
| "box_format (PgBool b) ty = BinaryFormat"
| "box_format (PgInt n) ty = pg_int_format ty"
| "box_format (PgFloat f) ty = pg_float_format ty"
| "box_format (PgText s) ty = pg_text_format ty"
| "box_format (PgBytes b) ty = BinaryFormat"
| "box_format _ ty = TextFormat"

text \<open>\<open>to_sql_checked!\<close>: the driver refuses a type the wrapper does not accept.\<close>

definition to_sql_checked :: "pg_types \<Rightarrow> boxed \<Rightarrow> pg_type \<Rightarrow> to_sql_error + is_null" where
  "to_sql_checked pt x ty = (if box_accepts pt x ty then box_to_sql pt x ty else Inl WrongType)"

fun value_to_boxed :: "val \<Rightarrow> boxed" where
  "value_to_boxed VNull = PgNull"
| "value_to_boxed (VBool b) = PgBool b"
| "value_to_boxed (VI64 n) = PgInt n"
| "value_to_boxed (VF64 f) = PgFloat f"
| "value_to_boxed (VText s) = PgText s"
| "value_to_boxed (VBytes b) = PgBytes b"
| "value_to_boxed (VU64 n) = PgU64Text (to_dec (unat n))"
| "value_to_boxed (VDecimal s) = PgDecimalText s"
| "value_to_boxed (VDate s) = PgDateText s"
| "value_to_boxed (VTime s) = PgTimeText s"
| "value_to_boxed (VTimestamp s) = PgTimestampText s"
| "value_to_boxed (VTimestampTz s) = PgTimestampTzText s"
| "value_to_boxed (VUuid s) = PgUuidText s"
| "value_to_boxed (VJson s) = PgJsonText s"

definition to_boxed_params :: "val list \<Rightarrow> boxed list" where
  "to_boxed_params params = map value_to_boxed params"

subsection \<open>The check before sending\<close>

definition eq_ignore_case :: "string \<Rightarrow> string \<Rightarrow> bool" where
  "eq_ignore_case a b \<longleftrightarrow> to_ascii_lowercase a = to_ascii_lowercase b"

definition is_pg_special_datetime_literal :: "string \<Rightarrow> bool" where
  "is_pg_special_datetime_literal s \<longleftrightarrow>
     (let t = trim s in
      list_ex (eq_ignore_case t)
        [''infinity'', ''-infinity'', ''+infinity'', ''now'', ''today'', ''tomorrow'', ''yesterday'', ''epoch''] \<or>
      eq_ignore_case t ''allballs'')"

definition is_pg_special_numeric_literal :: "string \<Rightarrow> bool" where
  "is_pg_special_numeric_literal s \<longleftrightarrow>
     (let t = trim s in
      list_ex (eq_ignore_case t) [''nan'', ''infinity'', ''-infinity'', ''+infinity'', ''inf''] \<or>
      eq_ignore_case t ''-inf'' \<or> eq_ignore_case t ''+inf'')"

datatype param_refusal = CannotBind | SpecialLiteral | OutOfRange pg_type

definition check_range :: "val \<Rightarrow> pg_type \<Rightarrow> param_refusal + unit" where
  "check_range v ty =
     (case v of
        VI64 w \<Rightarrow>
          (let n = sint w in
           if ty = T_INT4 \<and> \<not> (- (2 ^ 31) \<le> n \<and> n < 2 ^ 31) then Inl (OutOfRange ty)
           else if ty = T_INT2 \<and> \<not> (- (2 ^ 15) \<le> n \<and> n < 2 ^ 15) then Inl (OutOfRange ty)
           else if ty = T_FLOAT8 \<and> \<not> i64_is_exact_as_f64 w then Inl (OutOfRange ty)
           else if ty = T_OID \<and> \<not> (0 \<le> n \<and> n < 2 ^ 32) then Inl (OutOfRange ty)
           else if ty = T_BOOL \<and> n \<noteq> 0 \<and> n \<noteq> 1 then Inl (OutOfRange ty)
           else Inr ())
      | VF64 f \<Rightarrow>
          if ty = T_FLOAT4 \<and> f64_is_finite f \<and> \<not> f32_is_finite (f64_to_f32 f) then Inl (OutOfRange ty)
          else if ty = T_FLOAT4 \<and> \<not> f64_is_zero f \<and> f32_is_zero (f64_to_f32 f) then Inl (OutOfRange ty)
          else Inr ()
      | _ \<Rightarrow> Inr ())"

definition special_literal :: "val \<Rightarrow> pg_type \<Rightarrow> bool" where
  "special_literal v base \<longleftrightarrow>
     (case v of
        VText s \<Rightarrow>
          if base \<in> {T_DATE, T_TIME, T_TIMESTAMP, T_TIMESTAMPTZ} then is_pg_special_datetime_literal s
          else if base = T_NUMERIC then is_pg_special_numeric_literal s
          else False
      | _ \<Rightarrow> False)"

fun param_accepted :: "pg_types \<Rightarrow> val \<Rightarrow> pg_type \<Rightarrow> bool" where
  "param_accepted pt VNull ty = True"
| "param_accepted pt (VBool b) ty = pt_bool_accepts pt (resolve_domain ty)"
| "param_accepted pt (VI64 n) ty = pg_int_accepts ty"
| "param_accepted pt (VF64 f) ty = pg_float_accepts ty"
| "param_accepted pt (VText s) ty = pg_text_accepts pt ty"
| "param_accepted pt (VBytes b) ty = pt_bytes_accepts pt (resolve_domain ty)"
| "param_accepted pt (VU64 n) ty = False"
| "param_accepted pt (VDecimal s) ty = (resolve_domain ty \<in> {T_NUMERIC})"
| "param_accepted pt (VDate s) ty = (resolve_domain ty \<in> {T_DATE})"
| "param_accepted pt (VTime s) ty = (resolve_domain ty \<in> {T_TIME})"
| "param_accepted pt (VTimestamp s) ty = (resolve_domain ty \<in> {T_TIMESTAMP})"
| "param_accepted pt (VTimestampTz s) ty = (resolve_domain ty \<in> {T_TIMESTAMPTZ})"
| "param_accepted pt (VUuid s) ty = (resolve_domain ty \<in> {T_UUID})"
| "param_accepted pt (VJson s) ty = (resolve_domain ty \<in> {T_JSON, T_JSONB})"

definition check_param :: "pg_types \<Rightarrow> val \<Rightarrow> pg_type \<Rightarrow> param_refusal + unit" where
  "check_param pt v ty =
     (let base = resolve_domain ty in
      if \<not> param_accepted pt v ty then Inl CannotBind
      else if special_literal v base then Inl SpecialLiteral
      else check_range v base)"

definition accepts :: "pg_types \<Rightarrow> val \<Rightarrow> pg_type \<Rightarrow> bool" where
  "accepts pt v ty \<longleftrightarrow> (case check_param pt v ty of Inl _ \<Rightarrow> False | Inr _ \<Rightarrow> True)"


subsection \<open>What the driver documents\<close>

definition to_be_bytes :: "nat \<Rightarrow> 'a::len word \<Rightarrow> u8s" where
  "to_be_bytes k x = rev (to_le_bytes k x)"

text \<open>
  A conversion does not fail on a type it accepts, and the number types are written in PostgreSQL's native
  binary form: big-endian two's complement or IEEE patterns, one byte for a boolean.
\<close>

definition pt_laws :: "pg_types \<Rightarrow> bool" where
  "pt_laws pt \<longleftrightarrow>
     (\<forall>ty s. pt_string_accepts pt ty \<longrightarrow> pt_string_to_sql pt s ty \<noteq> None) \<and>
     (\<forall>ty b. pt_bool_accepts pt ty \<longrightarrow> pt_bool_to_sql pt b ty \<noteq> None) \<and>
     (\<forall>ty s. pt_bytes_accepts pt ty \<longrightarrow> pt_bytes_to_sql pt s ty \<noteq> None) \<and>
     (\<forall>b. pt_bool_to_sql pt b T_BOOL = Some [if b then 1 else 0]) \<and>
     (\<forall>x. pt_i16_to_sql pt x T_INT2 = Some (to_be_bytes 2 x)) \<and>
     (\<forall>x. pt_i32_to_sql pt x T_INT4 = Some (to_be_bytes 4 x)) \<and>
     (\<forall>x. pt_i64_to_sql pt x T_INT8 = Some (to_be_bytes 8 x)) \<and>
     (\<forall>x. pt_u32_to_sql pt x T_OID = Some (to_be_bytes 4 x)) \<and>
     (\<forall>x. pt_f32_to_sql pt x T_FLOAT4 = Some (to_be_bytes 4 x)) \<and>
     (\<forall>x. pt_f64_to_sql pt x T_FLOAT8 = Some (to_be_bytes 8 x))"

text \<open>One such driver: strings into the character types, and nothing else.\<close>

definition plain_types :: pg_types where
  "plain_types =
     \<lparr>pt_string_accepts = (\<lambda>ty. ty \<in> {T_TEXT, T_VARCHAR, T_BPCHAR, T_NAME}), pt_string_to_sql = (\<lambda>s ty. Some (as_bytes s)),
      pt_bool_accepts = (\<lambda>ty. ty = T_BOOL), pt_bool_to_sql = (\<lambda>b ty. Some [if b then 1 else 0]),
      pt_bytes_accepts = (\<lambda>ty. ty = T_BYTEA), pt_bytes_to_sql = (\<lambda>s ty. Some (as_bytes s)),
      pt_i16_to_sql = (\<lambda>x ty. Some (to_be_bytes 2 x)), pt_i32_to_sql = (\<lambda>x ty. Some (to_be_bytes 4 x)),
      pt_i64_to_sql = (\<lambda>x ty. Some (to_be_bytes 8 x)), pt_u32_to_sql = (\<lambda>x ty. Some (to_be_bytes 4 x)),
      pt_f32_to_sql = (\<lambda>x ty. Some (to_be_bytes 4 x)), pt_f64_to_sql = (\<lambda>x ty. Some (to_be_bytes 8 x)),
      pt_display_f64 = (\<lambda>f. case f64_int f of Some n \<Rightarrow> show_int n | None \<Rightarrow> ''0.5'')\<rparr>"

lemma pt_total:
  assumes "pt_laws pt"
  shows "pt_string_accepts pt ty \<Longrightarrow> \<exists>bs. pt_string_to_sql pt s ty = Some bs"
    "pt_bool_accepts pt ty \<Longrightarrow> \<exists>bs. pt_bool_to_sql pt b ty = Some bs"
    "pt_bytes_accepts pt ty \<Longrightarrow> \<exists>bs. pt_bytes_to_sql pt s ty = Some bs"
  using assms by (simp_all add: pt_laws_def)

lemma plain_types_laws: "pt_laws plain_types"
  by (simp add: pt_laws_def plain_types_def)

subsection \<open>The check is never looser than the driver\<close>

lemma resolve_builtin [simp]: "resolve_domain (pg_builtin oid name) = pg_builtin oid name"
proof -
  have "unwrap_domain n (pg_builtin oid name) = pg_builtin oid name" for n by (cases n) (simp_all add: pg_builtin_def)
  then show ?thesis by (simp add: resolve_domain_def)
qed

lemma resolve_one_domain [simp]: "resolve_domain (PgType oid name (KindDomain (pg_builtin oid' name'))) = pg_builtin oid' name'"
proof -
  have u: "unwrap_domain n (pg_builtin oid' name') = pg_builtin oid' name'" for n by (cases n) (simp_all add: pg_builtin_def)
  have m: "MAX_DOMAIN_DEPTH = Suc 7" by (simp add: MAX_DOMAIN_DEPTH_def)
  show ?thesis unfolding resolve_domain_def m unwrap_domain.simps ty_kind.simps pg_kind.case by (rule u)
qed

lemma param_accepted_boxed: "param_accepted pt v ty = box_accepts pt (value_to_boxed v) ty"
  by (cases v) simp_all

lemma check_param_ok:
  "check_param pt v ty = Inr () \<longleftrightarrow>
     box_accepts pt (value_to_boxed v) ty \<and> \<not> special_literal v (resolve_domain ty) \<and> check_range v (resolve_domain ty) = Inr ()"
  by (simp add: check_param_def param_accepted_boxed Let_def)

text \<open>What the range check leaves of an integer.\<close>

definition int_fits :: "64 word \<Rightarrow> pg_type \<Rightarrow> bool" where
  "int_fits w ty \<longleftrightarrow>
     (ty = T_INT2 \<longrightarrow> - (2 ^ 15) \<le> sint w \<and> sint w < 2 ^ 15) \<and> (ty = T_INT4 \<longrightarrow> - (2 ^ 31) \<le> sint w \<and> sint w < 2 ^ 31) \<and>
     (ty = T_OID \<longrightarrow> 0 \<le> sint w \<and> sint w < 2 ^ 32) \<and> (ty = T_FLOAT8 \<longrightarrow> i64_is_exact_as_f64 w) \<and>
     (ty = T_BOOL \<longrightarrow> sint w = 0 \<or> sint w = 1)"

lemma check_range_int: "check_range (VI64 w) ty = Inr () \<longleftrightarrow> int_fits w ty"
  unfolding check_range_def int_fits_def Let_def val.case by (simp add: pg_builtin_def)

lemma pg_int_targets:
  assumes "pg_int_accepts ty"
  obtains "resolve_domain ty = T_INT2" | "resolve_domain ty = T_INT4" | "resolve_domain ty = T_INT8"
    | "resolve_domain ty = T_TEXT" | "resolve_domain ty = T_BOOL" | "resolve_domain ty = T_NUMERIC"
    | "resolve_domain ty = T_FLOAT8" | "resolve_domain ty = T_VARCHAR" | "resolve_domain ty = T_OID"
  using assms by (auto simp: pg_int_accepts_def)

lemma pg_int_writes:
  assumes "pt_laws pt" "pg_int_accepts ty" "int_fits w (resolve_domain ty)"
  obtains bs where "pg_int_to_sql pt w ty = Inr (Wrote bs)"
    "bs = (let n = sint w; base = resolve_domain ty in
       if base = T_INT2 then to_be_bytes 2 (word_of_int n :: 16 word) else if base = T_INT4 then to_be_bytes 4 (word_of_int n :: 32 word)
       else if base = T_INT8 then to_be_bytes 8 w else if base = T_OID then to_be_bytes 4 (word_of_int n :: 32 word)
       else if base = T_FLOAT8 then to_be_bytes 8 (int_to_f64 n) else if base = T_BOOL then [if n = 1 then 1 else 0]
       else as_bytes (show_int n))"
  by (cases rule: pg_int_targets [OF assms(2)];
      use assms(1,3) that in \<open>force simp: pg_int_to_sql_def int_fits_def pt_laws_def wrote_def Let_def pg_builtin_def\<close>)

text \<open>
  The check that runs before a statement is sent is never looser than the driver: if it accepts a value for a
  parameter's type, the driver's own checked conversion of the boxed value succeeds.
\<close>

lemma preflight_never_looser:
  assumes "pt_laws pt" and "check_param pt v ty = Inr ()"
  shows "\<exists>out. to_sql_checked pt (value_to_boxed v) ty = Inr out"
proof -
  from assms(2) have acc: "box_accepts pt (value_to_boxed v) ty" and range: "check_range v (resolve_domain ty) = Inr ()"
    by (simp_all add: check_param_ok)
  have "\<exists>out. box_to_sql pt (value_to_boxed v) ty = Inr out"
  proof (cases v)
    case (VI64 w)
    with acc range have "pg_int_accepts ty" "int_fits w (resolve_domain ty)" by (simp_all add: check_range_int)
    from pg_int_writes [OF assms(1) this] VI64 show ?thesis by auto
  next
    case (VF64 f)
    with acc assms(1) show ?thesis
      by (auto simp: pg_float_accepts_def pg_float_to_sql_def pt_laws_def wrote_def Let_def pg_builtin_def)
  next
    case (VText s)
    with acc pt_total(1) [OF assms(1), of "resolve_domain ty" s] show ?thesis
      by (auto simp: pg_text_accepts_def pg_text_to_sql_def wrote_def Let_def)
  next
    case (VBool b)
    with acc pt_total(2) [OF assms(1), of "resolve_domain ty" b] show ?thesis by (auto simp: wrote_def)
  next
    case (VBytes b)
    with acc pt_total(3) [OF assms(1), of "resolve_domain ty" b] show ?thesis by (auto simp: wrote_def)
  qed simp_all
  with acc show ?thesis by (simp add: to_sql_checked_def)
qed

subsection \<open>Integers arrive as themselves\<close>

text \<open>How PostgreSQL reads a parameter of a type in the format it was sent in, as far as it denotes an integer.\<close>

definition read_int_text :: "string \<Rightarrow> int option" where
  "read_int_text s =
     (case s of
        [] \<Rightarrow> None
      | c # r \<Rightarrow>
          if c = CHR ''-'' then (if r \<noteq> [] \<and> list_all is_ascii_digit r then Some (- int (parse_dec r)) else None)
          else if list_all is_ascii_digit s then Some (int (parse_dec s)) else None)"

definition pg_reads :: "pg_type \<Rightarrow> wire_format \<Rightarrow> u8s \<Rightarrow> int option" where
  "pg_reads base fmt bs =
     (if fmt = TextFormat then
        (if base \<in> {T_TEXT, T_VARCHAR, T_NUMERIC} then read_int_text (map u8_char bs) else None)
      else if base = T_INT2 \<and> length bs = 2 then Some (sint (from_be_bytes bs :: 16 word))
      else if base = T_INT4 \<and> length bs = 4 then Some (sint (from_be_bytes bs :: 32 word))
      else if base = T_INT8 \<and> length bs = 8 then Some (sint (from_be_bytes bs :: 64 word))
      else if base = T_OID \<and> length bs = 4 then Some (uint (from_be_bytes bs :: 32 word))
      else if base = T_FLOAT8 \<and> length bs = 8 then f64_int (from_be_bytes bs)
      else if base = T_BOOL \<and> bs = [1] then Some 1
      else if base = T_BOOL \<and> bs = [0] then Some 0
      else None)"

lemma from_to_be: "8 * k = LENGTH('a) \<Longrightarrow> from_be_bytes (to_be_bytes k x) = x" for x :: "'a::len word"
  by (simp add: from_be_bytes_def to_be_bytes_def from_to_le)

lemma length_to_be [simp]: "length (to_be_bytes k x) = k"
  by (simp add: to_be_bytes_def)

lemma u8_char_char_u8 [simp]: "u8_char (char_u8 c) = c"
proof -
  have "byte c < 256" by (simp add: byte_def)
  then show ?thesis by (simp add: u8_char_def char_u8_def unat_of_nat take_bit_eq_mod byte_def)
qed

lemma as_bytes_chars [simp]: "map u8_char (as_bytes s) = s"
  by (simp add: as_bytes_def comp_def)

lemma read_show_int: "read_int_text (show_int n) = Some n"
proof -
  have d: "list_all is_ascii_digit (to_dec k)" for k using to_dec_digits by (auto simp: list_all_iff)
  have minus: "\<not> is_ascii_digit (CHR ''-'')" by (simp add: is_ascii_digit_def byte_def)
  show ?thesis
  proof (cases "n < 0")
    case True
    with d [of "nat (- n)"] show ?thesis by (simp add: read_int_text_def show_int_def)
  next
    case False
    obtain c r where c: "to_dec (nat n) = c # r" by (cases "to_dec (nat n)") simp_all
    moreover have "c \<noteq> CHR ''-''" using d [of "nat n"] minus c by auto
    moreover have "parse_dec (c # r) = nat n" using c parse_to_dec [of "nat n"] by simp
    ultimately show ?thesis using False d [of "nat n"] by (simp add: read_int_text_def show_int_def)
  qed
qed

lemma sint_of_int_small: "- (2 ^ (LENGTH('a) - 1)) \<le> n \<Longrightarrow> n < 2 ^ (LENGTH('a) - 1) \<Longrightarrow> sint (word_of_int n :: 'a::len word) = n"
  by (simp add: sint_sbintrunc' signed_take_bit_int_eq_self)

text \<open>
  C37: an integer that passes the check is bound as itself. Whatever type or domain the parameter has, the bytes
  written, read back in the type's own format, are that integer: nothing is truncated, wrapped, rounded or given
  another meaning.
\<close>

theorem accepted_integers_bind_exactly:
  assumes "pt_laws pt" and "check_param pt (VI64 n) ty = Inr ()"
  shows "\<exists>bs. to_sql_checked pt (value_to_boxed (VI64 n)) ty = Inr (Wrote bs) \<and>
    pg_reads (resolve_domain ty) (box_format (PgInt n) ty) bs = Some (sint n)"
proof -
  from assms(2) have acc: "pg_int_accepts ty" and fit: "int_fits n (resolve_domain ty)"
    by (simp_all add: check_param_ok check_range_int)
  obtain bs where w: "pg_int_to_sql pt n ty = Inr (Wrote bs)" and
    bs: "bs = (let m = sint n; base = resolve_domain ty in
       if base = T_INT2 then to_be_bytes 2 (word_of_int m :: 16 word) else if base = T_INT4 then to_be_bytes 4 (word_of_int m :: 32 word)
       else if base = T_INT8 then to_be_bytes 8 n else if base = T_OID then to_be_bytes 4 (word_of_int m :: 32 word)
       else if base = T_FLOAT8 then to_be_bytes 8 (int_to_f64 m) else if base = T_BOOL then [if m = 1 then 1 else 0]
       else as_bytes (show_int m))"
    using pg_int_writes [OF assms(1) acc fit] by metis
  have exact: "i64_is_exact_as_f64 n \<Longrightarrow> f64_int (int_to_f64 (sint n)) = Some (sint n)"
    using int_to_f64_exact [of "sint n"] sint_range_size [of n] by (simp add: i64_is_exact_as_f64_def word_size abs_le_iff)
  have "uint (word_of_int m :: 32 word) = m" if "0 \<le> m" "m < 2 ^ 32" for m
    using that by (simp add: uint_word_of_int_eq take_bit_int_eq_self)
  from this [of "sint n"] have oid: "0 \<le> sint n \<and> sint n < 2 ^ 32 \<Longrightarrow> uint (scast n :: 32 word) = sint n" by simp
  have narrow: "- (2 ^ 15) \<le> sint n \<and> sint n < 2 ^ 15 \<Longrightarrow> sint (scast n :: 16 word) = sint n"
    "- (2 ^ 31) \<le> sint n \<and> sint n < 2 ^ 31 \<Longrightarrow> sint (scast n :: 32 word) = sint n"
    using sint_of_int_small [where 'a = 16, of "sint n"] sint_of_int_small [where 'a = 32, of "sint n"] by simp_all
  have "pg_reads (resolve_domain ty) (pg_int_format ty) bs = Some (sint n)"
    by (cases rule: pg_int_targets [OF acc];
        use fit exact oid narrow bs in \<open>auto simp: int_fits_def pg_reads_def pg_int_format_def pg_builtin_def from_to_be read_show_int Let_def\<close>)
  with w acc show ?thesis by (auto simp: to_sql_checked_def)
qed

theorem accepted_integers_bind_exactly_witness:
  "\<exists>bs. to_sql_checked plain_types (value_to_boxed (VI64 (- 7))) T_INT2 = Inr (Wrote bs) \<and>
    pg_reads (resolve_domain T_INT2) (box_format (PgInt (- 7)) T_INT2) bs = Some (sint (- 7 :: 64 word))"
proof -
  have "check_param plain_types (VI64 (- 7)) T_INT2 = Inr ()"
    by (simp add: check_param_def pg_int_accepts_def special_literal_def check_range_int int_fits_def Let_def)
      (simp add: pg_builtin_def)
  with accepted_integers_bind_exactly [OF plain_types_laws] show ?thesis by blast
qed

end
