(* ===== verification/Values.thy ===== *)
theory Values
  imports Pool_Backend Fate
begin

text \<open>
  What the adapters and the codec share about the protocol's values (\<open>ferro-proto/src/value.rs\<close>): the type tag of
  a value, a cell that keeps the tag announced for its column, and the errors an adapter raises itself, without the
  server: a refused parameter (\<open>bind_error\<close>, the same function in \<open>bind.rs\<close> of MySQL and \<open>query.rs\<close> of PostgreSQL), an
  unsupported column, a cell that does not decode. None of them leaves the fate of a statement open.
\<close>

fun val_tag :: "val \<Rightarrow> 8 word" where
  "val_tag VNull = 0"
| "val_tag (VBool b) = 1"
| "val_tag (VI64 n) = 2"
| "val_tag (VF64 f) = 4"
| "val_tag (VText s) = 6"
| "val_tag (VBytes b) = 7"
| "val_tag (VU64 n) = 3"
| "val_tag (VDecimal s) = 5"
| "val_tag (VDate s) = 8"
| "val_tag (VTime s) = 9"
| "val_tag (VTimestamp s) = 10"
| "val_tag (VTimestampTz s) = 11"
| "val_tag (VUuid s) = 12"
| "val_tag (VJson s) = 13"

lemma map_sum_Inr: "map_sum f g x = Inr y \<longleftrightarrow> (\<exists>z. x = Inr z \<and> y = g z)"
  by (cases x) auto

definition cell_fits :: "val \<Rightarrow> col_meta \<Rightarrow> bool" where
  "cell_fits v m \<longleftrightarrow> v = VNull \<or> val_tag v = cm_tag m"

lemma map_sum_id_Inl: "map_sum id g x = Inl e \<longleftrightarrow> x = Inl e"
  by (cases x) auto

definition bind_error :: "string \<Rightarrow> pool_error" where
  "bind_error message =
     Sql \<lparr>se_code = errc_code EUnsupported, se_branch = errc_branch EUnsupported, se_sqlstate = None,
          se_errno = None, se_message = message\<rparr>"

definition own_refusal :: "pool_error \<Rightarrow> bool" where
  "own_refusal e \<longleftrightarrow> (\<exists>m. e = Backend m) \<or> (\<exists>r. e = Unsupported r) \<or> (\<exists>m. e = bind_error m)"

lemma own_refusal_known: "own_refusal e \<Longrightarrow> ep_branch (classify_fate e ctx) \<noteq> branch_indeterminate"
  by (auto simp: own_refusal_def classify_fate_def is_57014_def bind_error_def payload_def branch_indeterminate_def)

end
