(* ===== verification/Pg_Row.thy ===== *)
theory Pg_Row
  imports Pg_Bind Values
begin

text \<open>
  Rows of PostgreSQL results (\<open>ferro-backend-pg/src/rowmap.rs\<close>) and the two query paths, buffered and streamed
  (\<open>query.rs\<close>). The \<open>FromSql\<close> conversions of \<open>postgres-types\<close> and the client are arguments. A failed conversion
  of a parameter inside the driver is an error without a server error, which the error map reads as a lost
  connection; the check before sending exists to make it impossible.
\<close>

subsection \<open>Columns\<close>

datatype extract_kind =
    XBool | XI16 | XI32 | XI64 | XF32 | XF64 | XText | XBytes | XNumeric | XDate | XTime | XTimestamp | XTimestampTz
  | XUuid | XJson | XJsonb | XCharByte | XOidU32 | XRegOid | XInt2Vector | XOidVector

definition oid_extract_type :: "nat \<Rightarrow> extract_kind option" where
  "oid_extract_type oid =
     (if oid = ty_oid T_BOOL then Some XBool
      else if oid = ty_oid T_INT2 then Some XI16
      else if oid = ty_oid T_INT4 then Some XI32
      else if oid = ty_oid T_INT8 then Some XI64
      else if oid = ty_oid T_FLOAT4 then Some XF32
      else if oid = ty_oid T_FLOAT8 then Some XF64
      else if oid = ty_oid T_TEXT \<or> oid = ty_oid T_VARCHAR \<or> oid = ty_oid T_BPCHAR \<or> oid = ty_oid T_NAME then Some XText
      else if oid = ty_oid T_BYTEA then Some XBytes
      else if oid = ty_oid T_NUMERIC then Some XNumeric
      else if oid = ty_oid T_DATE then Some XDate
      else if oid = ty_oid T_TIME then Some XTime
      else if oid = ty_oid T_TIMESTAMP then Some XTimestamp
      else if oid = ty_oid T_TIMESTAMPTZ then Some XTimestampTz
      else if oid = ty_oid T_UUID then Some XUuid
      else if oid = ty_oid T_JSON then Some XJson
      else if oid = ty_oid T_JSONB then Some XJsonb
      else if oid = ty_oid T_CHAR then Some XCharByte
      else if oid = ty_oid T_OID then Some XOidU32
      else if oid = ty_oid T_REGTYPE \<or> oid = ty_oid T_REGCLASS then Some XRegOid
      else if oid = ty_oid T_INT2_VECTOR then Some XInt2Vector
      else if oid = ty_oid T_OID_VECTOR then Some XOidVector
      else None)"

record pg_col =
  pc_name :: string
  pc_type :: pg_type

definition unsupported_column :: "string \<Rightarrow> pg_type \<Rightarrow> pool_error" where
  "unsupported_column name ty = Unsupported (BackendRefusal (''unsupported type for column '' @ name))"

fun extract_tag :: "extract_kind \<Rightarrow> 8 word" where
  "extract_tag XBool = 1"
| "extract_tag XI16 = 2"
| "extract_tag XI32 = 2"
| "extract_tag XI64 = 2"
| "extract_tag XOidU32 = 2"
| "extract_tag XRegOid = 2"
| "extract_tag XF32 = 4"
| "extract_tag XF64 = 4"
| "extract_tag XText = 6"
| "extract_tag XCharByte = 6"
| "extract_tag XInt2Vector = 6"
| "extract_tag XOidVector = 6"
| "extract_tag XBytes = 7"
| "extract_tag XNumeric = 5"
| "extract_tag XDate = 8"
| "extract_tag XTime = 9"
| "extract_tag XTimestamp = 10"
| "extract_tag XTimestampTz = 11"
| "extract_tag XUuid = 12"
| "extract_tag XJson = 13"
| "extract_tag XJsonb = 13"

definition oid_to_tag :: "string \<Rightarrow> pg_type \<Rightarrow> 8 word result" where
  "oid_to_tag name ty =
     (case oid_extract_type (ty_oid ty) of Some x \<Rightarrow> Inr (extract_tag x) | None \<Rightarrow> Inl (unsupported_column name ty))"

subsection \<open>Cells\<close>

record from_sql =
  fs_bool :: "pg_type \<Rightarrow> u8s \<Rightarrow> bool option"
  fs_i8 :: "pg_type \<Rightarrow> u8s \<Rightarrow> 8 word option"
  fs_i16 :: "pg_type \<Rightarrow> u8s \<Rightarrow> 16 word option"
  fs_i32 :: "pg_type \<Rightarrow> u8s \<Rightarrow> 32 word option"
  fs_i64 :: "pg_type \<Rightarrow> u8s \<Rightarrow> 64 word option"
  fs_u32 :: "pg_type \<Rightarrow> u8s \<Rightarrow> 32 word option"
  fs_f32 :: "pg_type \<Rightarrow> u8s \<Rightarrow> 32 word option"
  fs_f64 :: "pg_type \<Rightarrow> u8s \<Rightarrow> 64 word option"
  fs_string :: "pg_type \<Rightarrow> u8s \<Rightarrow> string option"
  fs_bytes :: "pg_type \<Rightarrow> u8s \<Rightarrow> string option"

record pg_row =
  pr_columns :: "pg_col list"
  pr_cells :: "u8s option list"

definition get_opt :: "(pg_type \<Rightarrow> u8s \<Rightarrow> 'a option) \<Rightarrow> pg_row \<Rightarrow> nat \<Rightarrow> 'a option result" where
  "get_opt f row idx =
     (if length (pr_cells row) \<le> idx \<or> length (pr_columns row) \<le> idx then Inl (Backend ''column decode'')
      else
        (case pr_cells row ! idx of
           None \<Rightarrow> Inr None
         | Some raw \<Rightarrow>
             (case f (pc_type (pr_columns row ! idx)) raw of
                Some x \<Rightarrow> Inr (Some x)
              | None \<Rightarrow> Inl (Backend ''column decode''))))"

definition raw_bytes :: "pg_type \<Rightarrow> u8s \<Rightarrow> u8s option" where
  "raw_bytes ty raw = Some raw"

definition text_pool_error :: "text_error \<Rightarrow> pool_error" where
  "text_pool_error e =
     (case e of YearOutOfRange what \<Rightarrow> Unsupported (BackendRefusal what) | _ \<Rightarrow> Backend ''decode'')"

definition raw_text :: "pg_row \<Rightarrow> nat \<Rightarrow> (u8s \<Rightarrow> string text_result) \<Rightarrow> string option result" where
  "raw_text row idx render =
     (case get_opt raw_bytes row idx of
        Inl e \<Rightarrow> Inl e
      | Inr None \<Rightarrow> Inr None
      | Inr (Some b) \<Rightarrow> map_sum text_pool_error Some (render b))"

definition or_null :: "('a \<Rightarrow> val) \<Rightarrow> 'a option \<Rightarrow> val" where
  "or_null f x = (case x of None \<Rightarrow> VNull | Some a \<Rightarrow> f a)"

definition reg_oid :: "u8s option \<Rightarrow> val result" where
  "reg_oid x =
     (case x of
        None \<Rightarrow> Inr VNull
      | Some b \<Rightarrow>
          if length b \<noteq> 4 then Inl (Backend ''PG reg* payload must be 4 bytes'')
          else Inr (VI64 (ucast (from_be_bytes b :: 32 word))))"

definition char_cell :: "8 word option \<Rightarrow> val result" where
  "char_cell x = (case x of None \<Rightarrow> Inr VNull | Some b \<Rightarrow> map_sum text_pool_error VText (char_byte_to_text b))"

definition extract_cell :: "from_sql \<Rightarrow> extract_kind \<Rightarrow> pg_row \<Rightarrow> nat \<Rightarrow> val result" where
  "extract_cell fs x row idx =
     (case x of
        XBool \<Rightarrow> map_sum id (or_null VBool) (get_opt (fs_bool fs) row idx)
      | XI16 \<Rightarrow> map_sum id (or_null (\<lambda>n. VI64 (scast n))) (get_opt (fs_i16 fs) row idx)
      | XI32 \<Rightarrow> map_sum id (or_null (\<lambda>n. VI64 (scast n))) (get_opt (fs_i32 fs) row idx)
      | XI64 \<Rightarrow> map_sum id (or_null VI64) (get_opt (fs_i64 fs) row idx)
      | XF32 \<Rightarrow> map_sum id (or_null (\<lambda>f. VF64 (f32_to_f64 f))) (get_opt (fs_f32 fs) row idx)
      | XF64 \<Rightarrow> map_sum id (or_null VF64) (get_opt (fs_f64 fs) row idx)
      | XText \<Rightarrow> map_sum id (or_null VText) (get_opt (fs_string fs) row idx)
      | XBytes \<Rightarrow> map_sum id (or_null VBytes) (get_opt (fs_bytes fs) row idx)
      | XNumeric \<Rightarrow> map_sum id (or_null VDecimal) (raw_text row idx numeric_to_text)
      | XDate \<Rightarrow> map_sum id (or_null VDate) (raw_text row idx date_to_text)
      | XTime \<Rightarrow> map_sum id (or_null VTime) (raw_text row idx time_to_text)
      | XTimestamp \<Rightarrow> map_sum id (or_null VTimestamp) (raw_text row idx timestamp_to_text)
      | XTimestampTz \<Rightarrow> map_sum id (or_null VTimestampTz) (raw_text row idx timestamptz_to_text)
      | XUuid \<Rightarrow> map_sum id (or_null VUuid) (raw_text row idx uuid_to_text)
      | XJson \<Rightarrow> map_sum id (or_null VJson) (raw_text row idx (\<lambda>b. json_to_text b False))
      | XJsonb \<Rightarrow> map_sum id (or_null VJson) (raw_text row idx (\<lambda>b. json_to_text b True))
      | XCharByte \<Rightarrow> (case get_opt (fs_i8 fs) row idx of Inl e \<Rightarrow> Inl e | Inr b \<Rightarrow> char_cell b)
      | XOidU32 \<Rightarrow> map_sum id (or_null (\<lambda>n. VI64 (ucast n))) (get_opt (fs_u32 fs) row idx)
      | XRegOid \<Rightarrow> (case get_opt raw_bytes row idx of Inl e \<Rightarrow> Inl e | Inr b \<Rightarrow> reg_oid b)
      | XInt2Vector \<Rightarrow> map_sum id (or_null VText) (raw_text row idx (\<lambda>b. vector_to_text b Int2))
      | XOidVector \<Rightarrow> map_sum id (or_null VText) (raw_text row idx (\<lambda>b. vector_to_text b Oid)))"

definition extract_value :: "from_sql \<Rightarrow> pg_row \<Rightarrow> nat \<Rightarrow> nat \<Rightarrow> val result" where
  "extract_value fs row idx oid =
     (case oid_extract_type oid of
        Some x \<Rightarrow> extract_cell fs x row idx
      | None \<Rightarrow>
          if idx < length (pr_columns row)
          then Inl (unsupported_column (pc_name (pr_columns row ! idx)) (pc_type (pr_columns row ! idx)))
          else Inl (Unsupported (BackendRefusal ''unsupported column past the end of the row descriptor'')))"

lemma or_null_tag:
  assumes "map_sum id (or_null f) g = Inr v" and "\<And>a. val_tag (f a) = t"
  shows "v = VNull \<or> val_tag v = t"
proof -
  from assms(1) obtain x where "v = or_null f x" by (cases g) auto
  then show ?thesis using assms(2) by (cases x) (simp_all add: or_null_def)
qed

lemma char_cell_tag: "char_cell b = Inr v \<Longrightarrow> v = VNull \<or> val_tag v = 6"
  by (cases b) (auto simp: char_cell_def map_sum_Inr)

lemma reg_oid_tag: "reg_oid b = Inr v \<Longrightarrow> v = VNull \<or> val_tag v = 2"
  by (cases b) (auto simp: reg_oid_def split: if_splits)

lemma extract_cell_tag: "extract_cell fs x row idx = Inr v \<Longrightarrow> v = VNull \<or> val_tag v = extract_tag x"
proof (cases x)
  case XCharByte
  assume "extract_cell fs x row idx = Inr v"
  with XCharByte show ?thesis by (cases "get_opt (fs_i8 fs) row idx") (simp_all add: extract_cell_def char_cell_tag)
next
  case XRegOid
  assume "extract_cell fs x row idx = Inr v"
  with XRegOid show ?thesis by (cases "get_opt raw_bytes row idx") (simp_all add: extract_cell_def reg_oid_tag)
qed (simp only: extract_cell_def extract_kind.case extract_tag.simps, erule or_null_tag, rule val_tag.simps)+

subsection \<open>What is read can be bound\<close>

definition accepts_own :: "pg_types \<Rightarrow> bool" where
  "accepts_own pt \<longleftrightarrow>
     pt_string_accepts pt T_TEXT \<and> pt_string_accepts pt T_VARCHAR \<and> pt_string_accepts pt T_BPCHAR \<and>
     pt_string_accepts pt T_NAME \<and> pt_bool_accepts pt T_BOOL \<and> pt_bytes_accepts pt T_BYTEA"

text \<open>The built-in types an application reads and writes; those only a catalog query reads are not among them.\<close>

definition supported_types :: "pg_type list" where
  "supported_types =
     [T_BOOL, T_INT2, T_INT4, T_INT8, T_FLOAT4, T_FLOAT8, T_TEXT, T_VARCHAR, T_BPCHAR, T_NAME, T_BYTEA, T_NUMERIC, T_DATE,
      T_TIME, T_TIMESTAMP, T_TIMESTAMPTZ, T_UUID, T_JSON, T_JSONB, T_OID]"

lemma f32_round_trip_range:
  "(f64_is_finite (f32_to_f64 b) \<longrightarrow> f32_is_finite (f64_to_f32 (f32_to_f64 b))) \<and>
   (f64_is_zero (f32_to_f64 b) \<or> \<not> f32_is_zero (f64_to_f32 (f32_to_f64 b)))"
proof (cases "f32_mag b \<le> f32_inf")
  case True
  then show ?thesis using f32_to_f64_parts [OF True] by simp
next
  case False
  then have w: "f32_to_f64 b = f64_of (f32_neg b) (f64_inf + 2 ^ 51)"
    by (simp add: f32_to_f64_def f32_is_finite_def)
  have "f64_inf + 2 ^ 51 < 2 ^ 63" by (simp add: f64_inf_def)
  with f64_of_parts have mag: "f64_mag (f32_to_f64 b) = f64_inf + 2 ^ 51" by (simp add: w)
  then have n: "f64_to_f32 (f32_to_f64 b) = f32_of (f64_neg (f32_to_f64 b)) (f32_inf + 2 ^ 22)"
    by (simp add: f64_to_f32_def f64_is_finite_def f64_is_nan_def)
  have "unat (f32_of neg m) = (if neg then 2 ^ 31 else 0) + m" if "m < 2 ^ 31" for neg m
    using that by (cases neg) (simp_all add: f32_of_def unat_of_nat take_bit_nat_eq_self unat_word_ariths)
  then have "f32_mag (f64_to_f32 (f32_to_f64 b)) = f32_inf + 2 ^ 22" by (simp add: n f32_mag_def f32_inf_def)
  with mag show ?thesis by (simp add: f64_is_finite_def f32_is_zero_def)
qed

lemma extract_kinds:
  "oid_extract_type (ty_oid T_BOOL) = Some XBool" "oid_extract_type (ty_oid T_INT2) = Some XI16"
  "oid_extract_type (ty_oid T_INT4) = Some XI32" "oid_extract_type (ty_oid T_INT8) = Some XI64"
  "oid_extract_type (ty_oid T_FLOAT4) = Some XF32" "oid_extract_type (ty_oid T_FLOAT8) = Some XF64"
  "oid_extract_type (ty_oid T_TEXT) = Some XText" "oid_extract_type (ty_oid T_VARCHAR) = Some XText"
  "oid_extract_type (ty_oid T_BPCHAR) = Some XText" "oid_extract_type (ty_oid T_NAME) = Some XText"
  "oid_extract_type (ty_oid T_BYTEA) = Some XBytes" "oid_extract_type (ty_oid T_NUMERIC) = Some XNumeric"
  "oid_extract_type (ty_oid T_DATE) = Some XDate" "oid_extract_type (ty_oid T_TIME) = Some XTime"
  "oid_extract_type (ty_oid T_TIMESTAMP) = Some XTimestamp" "oid_extract_type (ty_oid T_TIMESTAMPTZ) = Some XTimestampTz"
  "oid_extract_type (ty_oid T_UUID) = Some XUuid" "oid_extract_type (ty_oid T_JSON) = Some XJson"
  "oid_extract_type (ty_oid T_JSONB) = Some XJsonb" "oid_extract_type (ty_oid T_OID) = Some XOidU32"
  by (simp_all add: oid_extract_type_def pg_builtin_def)

lemma sint_widen: "LENGTH('a) \<le> 64 \<Longrightarrow> sint (scast x :: 64 word) = sint x" for x :: "'a::len word"
proof -
  assume "LENGTH('a) \<le> 64"
  then have "(2 :: int) ^ (LENGTH('a) - 1) \<le> 2 ^ 63" by (intro power_increasing) simp_all
  then have "- (2 ^ 63) \<le> sint x" "sint x < 2 ^ 63" using sint_ge [of x] sint_lt [of x] by linarith+
  then show ?thesis using sint_of_int_small [where 'a = 64, of "sint x"] by simp
qed

lemma sint_zero_extend: "sint (ucast x :: 64 word) = uint x" for x :: "32 word"
proof -
  have "uint x < 2 ^ 32" using uint_lt2p [of x] by simp
  moreover have "0 \<le> uint x" by simp
  ultimately have "- (2 ^ 63) \<le> uint x" "uint x < 2 ^ 63"
    using order.trans [of "- (2 ^ 63)" 0 "uint x"] order.strict_trans [of "uint x" "2 ^ 32" "2 ^ 63"] by simp_all
  then show ?thesis using sint_of_int_small [where 'a = 64, of "uint x"] by (simp add: word_of_int_uint)
qed

lemma null_binds: "check_param pt VNull ty = Inr ()"
  by (simp add: check_param_ok special_literal_def check_range_def)

lemma own_type_binds:
  fixes i :: "16 word" and j :: "32 word"
  assumes "accepts_own pt"
  shows "check_param pt (VBool b) T_BOOL = Inr ()" "check_param pt (VI64 (scast i)) T_INT2 = Inr ()"
    "check_param pt (VI64 (scast j)) T_INT4 = Inr ()" "check_param pt (VI64 k) T_INT8 = Inr ()"
    "check_param pt (VF64 (f32_to_f64 f)) T_FLOAT4 = Inr ()" "check_param pt (VF64 g) T_FLOAT8 = Inr ()"
    "check_param pt (VText s) T_TEXT = Inr ()" "check_param pt (VText s) T_VARCHAR = Inr ()"
    "check_param pt (VText s) T_BPCHAR = Inr ()" "check_param pt (VText s) T_NAME = Inr ()"
    "check_param pt (VBytes s) T_BYTEA = Inr ()" "check_param pt (VDecimal s) T_NUMERIC = Inr ()"
    "check_param pt (VDate s) T_DATE = Inr ()" "check_param pt (VTime s) T_TIME = Inr ()"
    "check_param pt (VTimestamp s) T_TIMESTAMP = Inr ()" "check_param pt (VTimestampTz s) T_TIMESTAMPTZ = Inr ()"
    "check_param pt (VUuid s) T_UUID = Inr ()" "check_param pt (VJson s) T_JSON = Inr ()"
    "check_param pt (VJson s) T_JSONB = Inr ()" "check_param pt (VI64 (ucast (n :: 32 word))) T_OID = Inr ()"
  using assms sint_range_size [of i] sint_range_size [of j] uint_lt2p [of n] uint_ge_0 [of n] f32_round_trip_range [of f]
  by (simp_all add: check_param_ok accepts_own_def check_range_int int_fits_def special_literal_def pg_int_accepts_def
      pg_float_accepts_def pg_text_accepts_def Let_def sint_widen sint_zero_extend word_size check_range_def [of "VF64 _"]
      check_range_def [of "VText _"] check_range_def [of "VBool _"] check_range_def [of "VBytes _"] check_range_def [of "VDecimal _"]
      check_range_def [of "VDate _"] check_range_def [of "VTime _"] check_range_def [of "VTimestamp _"]
      check_range_def [of "VTimestampTz _"] check_range_def [of "VUuid _"] check_range_def [of "VJson _"])
    (simp_all add: pg_builtin_def)

lemma binds_from:
  assumes "oid_extract_type (ty_oid ty) = Some x" and "extract_value fs row idx (ty_oid ty) = Inr v"
    and "extract_cell fs x row idx = map_sum id (or_null f) g" and "\<And>a. check_param pt (f a) ty = Inr ()"
  shows "check_param pt v ty = Inr ()"
proof -
  from assms(1,2,3) obtain y where "v = or_null f y" by (auto simp: extract_value_def map_sum_Inr)
  then show ?thesis using assms(4) null_binds by (cases y) (simp_all add: or_null_def)
qed

text \<open>
  C36: for the types that are both read and bound (\<open>supported_types\<close>) what is read can be bound. A value extracted
  from a column of type \<open>bool\<close>, \<open>int2\<close>, \<open>int4\<close>, \<open>int8\<close>, \<open>float4\<close>, \<open>float8\<close>, \<open>text\<close>, \<open>varchar\<close>, \<open>bpchar\<close>, \<open>name\<close>, \<open>bytea\<close>,
  \<open>numeric\<close>, \<open>date\<close>, \<open>time\<close>, \<open>timestamp\<close>, \<open>timestamptz\<close>, \<open>uuid\<close>, \<open>json\<close>, \<open>jsonb\<close> or \<open>oid\<close> passes the check for a parameter of
  the same type, NaN and infinities included. The types the engine reads without binding them
  (\<open>"char"\<close>, \<open>regclass\<close>, \<open>regtype\<close>, \<open>int2vector\<close>, \<open>oidvector\<close>) are left out.
\<close>

theorem pg_read_value_binds:
  assumes "accepts_own pt" and "ty \<in> set supported_types" and "extract_value fs row idx (ty_oid ty) = Inr v"
  shows "check_param pt v ty = Inr ()"
proof -
  note [simp] = own_type_binds [OF assms(1)]
  from assms(2) show ?thesis unfolding supported_types_def set_simps insert_iff empty_iff
    by (elim disjE FalseE; use assms(3) in hypsubst)
      (rule binds_from, rule extract_kinds, assumption, simp only: extract_cell_def extract_kind.case, simp)+
qed

theorem pg_read_value_binds_witness:
  "check_param plain_types (VF64 (f32_to_f64 0x7FC00000)) T_FLOAT4 = Inr ()"
proof -
  let ?fs = "\<lparr>fs_bool = \<lambda>_ _. None, fs_i8 = \<lambda>_ _. None, fs_i16 = \<lambda>_ _. None, fs_i32 = \<lambda>_ _. None, fs_i64 = \<lambda>_ _. None,
    fs_u32 = \<lambda>_ _. None, fs_f32 = \<lambda>_ raw. Some (from_be_bytes raw), fs_f64 = \<lambda>_ _. None, fs_string = \<lambda>_ _. None,
    fs_bytes = \<lambda>_ _. None\<rparr>"
  let ?row = "\<lparr>pr_columns = [\<lparr>pc_name = ''x'', pc_type = T_FLOAT4\<rparr>], pr_cells = [Some [0x7F, 0xC0, 0, 0]]\<rparr>"
  have "(from_be_bytes [0x7F, 0xC0, 0, 0] :: 32 word) = 0x7FC00000" by (simp add: from_be_bytes_def from_le_bytes_def)
  then have "extract_value ?fs ?row 0 (ty_oid T_FLOAT4) = Inr (VF64 (f32_to_f64 0x7FC00000))"
    unfolding extract_value_def extract_kinds(5) by (simp add: extract_cell_def get_opt_def or_null_def)
  moreover have "accepts_own plain_types" by (simp add: accepts_own_def plain_types_def)
  moreover have "T_FLOAT4 \<in> set supported_types" by (simp add: supported_types_def)
  ultimately show ?thesis using pg_read_value_binds by blast
qed

end
