(* ===== verification/Pg_Query.thy ===== *)
theory Pg_Query
  imports Pg_Row Placeholder
begin

text \<open>
  The query paths of the PostgreSQL adapter (\<open>ferro-backend-pg/src/query.rs\<close>). The client is an argument: what
  preparing a statement answers, and what a statement sent with converted parameters answers. The buffered
  path returns whether anything was sent beside its result. The rewritten text comes through a cache, which changes
  nothing (\<open>Placeholder\<close>).
\<close>

subsection \<open>The client\<close>

record pg_stmt =
  st_columns :: "pg_col list"
  st_params :: "pg_type list"

datatype stream_end = StreamDone "64 word option" | StreamFailed "pg_db_error option"

record pg_client =
  cl_prepare :: "string \<Rightarrow> pg_db_error option + pg_stmt"
  cl_send :: "string \<Rightarrow> is_null list \<Rightarrow> pg_db_error option + (pg_row list \<times> stream_end)"

text \<open>\<open>query_raw\<close>: parameters are converted first, and a failed conversion is an error without a server error.\<close>

fun convert_all :: "pg_types \<Rightarrow> boxed list \<Rightarrow> pg_type list \<Rightarrow> is_null list option" where
  "convert_all pt (x # xs) (ty # tys) =
     (case to_sql_checked pt x ty of
        Inl _ \<Rightarrow> None
      | Inr out \<Rightarrow> map_option (\<lambda>outs. out # outs) (convert_all pt xs tys))"
| "convert_all pt _ _ = Some []"

definition query_raw :: "pg_types \<Rightarrow> pg_client \<Rightarrow> string \<Rightarrow> pg_stmt \<Rightarrow> boxed list \<Rightarrow> bool \<times> (pg_db_error option + (pg_row list \<times> stream_end))" where
  "query_raw pt cl sql stmt xs =
     (case convert_all pt xs (st_params stmt) of
        None \<Rightarrow> (False, Inl None)
      | Some outs \<Rightarrow> (True, cl_send cl sql outs))"

subsection \<open>Preparing\<close>

fun pg_build_cols :: "pg_col list \<Rightarrow> col_meta list result" where
  "pg_build_cols [] = Inr []"
| "pg_build_cols (col # cols) =
     (case oid_to_tag (pc_name col) (pc_type col) of
        Inl e \<Rightarrow> Inl e
      | Inr tag \<Rightarrow> map_sum id (\<lambda>ms. \<lparr>cm_name = pc_name col, cm_tag = tag\<rparr> # ms) (pg_build_cols cols))"

fun check_all :: "pg_types \<Rightarrow> val list \<Rightarrow> pg_type list \<Rightarrow> unit result" where
  "check_all pt (v # vs) (ty # tys) =
     (case check_param pt v ty of Inl _ \<Rightarrow> Inl (bind_error ''parameter'') | Inr _ \<Rightarrow> check_all pt vs tys)"
| "check_all pt _ _ = Inr ()"

definition validate_bind :: "pg_types \<Rightarrow> val list \<Rightarrow> pg_stmt \<Rightarrow> unit result" where
  "validate_bind pt params stmt =
     (if length params \<noteq> length (st_params stmt) then Inl (bind_error ''parameter count mismatch'')
      else check_all pt params (st_params stmt))"

subsection \<open>Buffered\<close>

fun extract_cells :: "from_sql \<Rightarrow> pg_row \<Rightarrow> nat \<Rightarrow> nat list \<Rightarrow> val list result" where
  "extract_cells fs row idx [] = Inr []"
| "extract_cells fs row idx (oid # oids) =
     (case extract_value fs row idx oid of
        Inl e \<Rightarrow> Inl e
      | Inr v \<Rightarrow> map_sum id (\<lambda>vs. v # vs) (extract_cells fs row (idx + 1) oids))"

fun collect_rows :: "from_sql \<Rightarrow> pg_row list \<Rightarrow> stream_end \<Rightarrow> (val list list \<times> 64 word) result" where
  "collect_rows fs [] (StreamDone affected) = Inr ([], case affected of Some n \<Rightarrow> n | None \<Rightarrow> 0)"
| "collect_rows fs [] (StreamFailed e) = Inl (pg_map e)"
| "collect_rows fs (row # rs) en =
     (case extract_cells fs row 0 (map (\<lambda>c. ty_oid (pc_type c)) (pr_columns row)) of
        Inl e \<Rightarrow> Inl e
      | Inr out \<Rightarrow> map_sum id (\<lambda>(rows, n). (out # rows, n)) (collect_rows fs rs en))"

definition pg_run :: "pg_types \<Rightarrow> from_sql \<Rightarrow> pg_client \<Rightarrow> string \<Rightarrow> val list \<Rightarrow> bool \<times> query_result result" where
  "pg_run pt fs cl sql params =
     (let normalized = placeholder_scan sql in
      case cl_prepare cl normalized of
        Inl e \<Rightarrow> (False, Inl (pg_map e))
      | Inr stmt \<Rightarrow>
          (case pg_build_cols (st_columns stmt) of
             Inl e \<Rightarrow> (False, Inl e)
           | Inr cols \<Rightarrow>
               (case validate_bind pt params stmt of
                  Inl e \<Rightarrow> (False, Inl e)
                | Inr _ \<Rightarrow>
                    (case query_raw pt cl normalized stmt (to_boxed_params params) of
                       (sent, Inl e) \<Rightarrow> (sent, Inl (pg_map e))
                     | (sent, Inr (rows, en)) \<Rightarrow>
                         (sent,
                          map_sum id
                            (\<lambda>(rows, affected). \<lparr>qr_cols = cols, qr_rows = rows, qr_affected = affected, qr_last_insert_id = None\<rparr>)
                            (collect_rows fs rows en))))))"

subsection \<open>Streamed\<close>

record pg_row_stream =
  ps_rows :: "pg_row list"
  ps_end :: stream_end
  ps_oids :: "nat list"
  ps_done :: bool

definition pg_stream :: "pg_types \<Rightarrow> pg_client \<Rightarrow> string \<Rightarrow> val list \<Rightarrow> (col_meta list \<times> pg_row_stream) result" where
  "pg_stream pt cl sql params =
     (let normalized = placeholder_scan sql in
      case cl_prepare cl normalized of
        Inl e \<Rightarrow> Inl (pg_map e)
      | Inr stmt \<Rightarrow>
          (case pg_build_cols (st_columns stmt) of
             Inl e \<Rightarrow> Inl e
           | Inr cols \<Rightarrow>
               (case validate_bind pt params stmt of
                  Inl e \<Rightarrow> Inl e
                | Inr _ \<Rightarrow>
                    (case query_raw pt cl normalized stmt (to_boxed_params params) of
                       (sent, Inl e) \<Rightarrow> Inl (pg_map e)
                     | (sent, Inr (rows, en)) \<Rightarrow>
                         Inr (cols,
                           \<lparr>ps_rows = rows, ps_end = en, ps_oids = map (\<lambda>c. ty_oid (pc_type c)) (st_columns stmt), ps_done = False\<rparr>)))))"

definition stream_next :: "from_sql \<Rightarrow> pg_row_stream \<Rightarrow> pg_row_stream \<times> val list result option" where
  "stream_next fs s =
     (if ps_done s then (s, None)
      else
        (case ps_rows s of
           row # rs \<Rightarrow>
             (case extract_cells fs row 0 (ps_oids s) of
                Inr out \<Rightarrow> (s\<lparr>ps_rows := rs\<rparr>, Some (Inr out))
              | Inl e \<Rightarrow> (s\<lparr>ps_rows := rs, ps_done := True\<rparr>, Some (Inl e)))
         | [] \<Rightarrow>
             (case ps_end s of
                StreamDone _ \<Rightarrow> (s\<lparr>ps_done := True\<rparr>, None)
              | StreamFailed e \<Rightarrow> (s\<lparr>ps_done := True\<rparr>, Some (Inl (pg_map e))))))"


subsection \<open>Rows keep the promise of the header\<close>

lemma pg_build_cols_tags:
  "pg_build_cols cols = Inr ms \<Longrightarrow> list_all2 (\<lambda>c m. oid_to_tag (pc_name c) (pc_type c) = Inr (cm_tag m)) cols ms"
  by (induction cols arbitrary: ms) (auto simp: map_sum_Inr split: sum.splits)

lemma extract_value_fits: "extract_value fs row idx (ty_oid ty) = Inr v \<Longrightarrow> oid_to_tag name ty = Inr tag \<Longrightarrow> v = VNull \<or> val_tag v = tag"
  by (auto simp: extract_value_def oid_to_tag_def split: option.splits if_splits dest: extract_cell_tag)

lemma extract_cells_fits:
  assumes "list_all2 (\<lambda>c m. oid_to_tag (pc_name c) (pc_type c) = Inr (cm_tag m)) cols ms"
    and "extract_cells fs row idx (map (\<lambda>c. ty_oid (pc_type c)) cols) = Inr vs"
  shows "list_all2 cell_fits vs ms"
  using assms
proof (induction cols ms arbitrary: idx vs rule: list_all2_induct)
  case (Cons c cs m ms)
  then show ?case using extract_value_fits [of fs row idx "pc_type c"]
    by (auto simp: map_sum_Inr cell_fits_def split: sum.splits)
qed simp

lemma collect_rows_fits:
  assumes "list_all2 (\<lambda>c m. oid_to_tag (pc_name c) (pc_type c) = Inr (cm_tag m)) cols ms"
    and "collect_rows fs rs en = Inr (rows, n)" and "list_all (\<lambda>r. pr_columns r = cols) rs"
  shows "list_all (\<lambda>row. list_all2 cell_fits row ms) rows"
  using assms(2,3)
proof (induction fs rs en arbitrary: rows n rule: collect_rows.induct)
  case (3 fs row rs en)
  then show ?case using extract_cells_fits [OF assms(1)] by (auto simp: map_sum_Inr split: sum.splits)
qed auto

lemma stream_next_oids: "ps_oids (fst (stream_next fs s)) = ps_oids s"
  by (auto simp: stream_next_def split: list.splits sum.splits stream_end.splits)

lemma stream_steps_oids: "ps_oids (((\<lambda>s. fst (stream_next fs s)) ^^ k) s) = ps_oids s"
  by (induction k) (simp_all add: stream_next_oids)

text \<open>
  C16: every row a PostgreSQL result yields has one cell per announced column, each NULL or of exactly the announced
  type: a stream at every pull, however many rows it yielded before, and a buffered result in every row (the
  driver's rows carry the columns of their statement).
\<close>

theorem pg_rows_match_header:
  "(\<forall>cols s k row. pg_stream pt cl sql params = Inr (cols, s) \<longrightarrow>
      snd (stream_next fs (((\<lambda>s. fst (stream_next fs s)) ^^ k) s)) = Some (Inr row) \<longrightarrow> list_all2 cell_fits row cols) \<and>
   (\<forall>sent r. (\<forall>stmt outs rows en. cl_prepare cl (placeholder_scan sql) = Inr stmt \<longrightarrow>
        cl_send cl (placeholder_scan sql) outs = Inr (rows, en) \<longrightarrow> list_all (\<lambda>w. pr_columns w = st_columns stmt) rows) \<longrightarrow>
      pg_run pt fs cl sql params = (sent, Inr r) \<longrightarrow> list_all (\<lambda>row. list_all2 cell_fits row (qr_cols r)) (qr_rows r))"
proof (intro conjI allI impI)
  fix cols s k row
  assume "pg_stream pt cl sql params = Inr (cols, s)"
    and n: "snd (stream_next fs (((\<lambda>s. fst (stream_next fs s)) ^^ k) s)) = Some (Inr row)"
  then obtain columns where c: "pg_build_cols columns = Inr cols" "ps_oids s = map (\<lambda>c. ty_oid (pc_type c)) columns"
    by (auto simp: pg_stream_def Let_def split: sum.splits prod.splits)
  from n obtain w where "extract_cells fs w 0 (ps_oids s) = Inr row"
    unfolding stream_next_def [of fs "((\<lambda>s. fst (stream_next fs s)) ^^ k) s"] stream_steps_oids
    by (auto split: if_splits list.splits sum.splits stream_end.splits)
  with extract_cells_fits [OF pg_build_cols_tags] c show "list_all2 cell_fits row cols" by metis
next
  fix sent r
  assume cols: "\<forall>stmt outs rows en. cl_prepare cl (placeholder_scan sql) = Inr stmt \<longrightarrow>
      cl_send cl (placeholder_scan sql) outs = Inr (rows, en) \<longrightarrow> list_all (\<lambda>w. pr_columns w = st_columns stmt) rows"
    and "pg_run pt fs cl sql params = (sent, Inr r)"
  then obtain stmt outs rs en where p: "cl_prepare cl (placeholder_scan sql) = Inr stmt" "pg_build_cols (st_columns stmt) = Inr (qr_cols r)"
      "cl_send cl (placeholder_scan sql) outs = Inr (rs, en)" "collect_rows fs rs en = Inr (qr_rows r, qr_affected r)"
    by (auto simp: pg_run_def query_raw_def Let_def map_sum_Inr split: sum.splits prod.splits option.splits)
  with collect_rows_fits [OF pg_build_cols_tags [OF p(2)] p(4)] cols
  show "list_all (\<lambda>row. list_all2 cell_fits row (qr_cols r)) (qr_rows r)" by blast
qed

text \<open>A client whose statements have one integer parameter and yield one integer row.\<close>

definition demo_from_sql :: from_sql where
  "demo_from_sql =
     \<lparr>fs_bool = \<lambda>_ _. None, fs_i8 = \<lambda>_ _. None, fs_i16 = \<lambda>_ _. None, fs_i32 = \<lambda>_ raw. Some (from_be_bytes raw),
      fs_i64 = \<lambda>_ _. None, fs_u32 = \<lambda>_ _. None, fs_f32 = \<lambda>_ _. None, fs_f64 = \<lambda>_ _. None, fs_string = \<lambda>_ _. None,
      fs_bytes = \<lambda>_ _. None\<rparr>"

definition demo_columns :: "pg_col list" where
  "demo_columns = [\<lparr>pc_name = ''n'', pc_type = T_INT4\<rparr>]"

definition demo_client :: "stream_end \<Rightarrow> pg_client" where
  "demo_client en =
     \<lparr>cl_prepare = \<lambda>_. Inr \<lparr>st_columns = demo_columns, st_params = [T_INT4]\<rparr>,
      cl_send = \<lambda>_ _. Inr ([\<lparr>pr_columns = demo_columns, pr_cells = [Some [0, 0, 0, 1]]\<rparr>], en)\<rparr>"

lemma demo_run:
  "pg_run plain_types demo_from_sql (demo_client en) ''?'' [VI64 1] =
     (True, map_sum id (\<lambda>(rows, n). \<lparr>qr_cols = [\<lparr>cm_name = ''n'', cm_tag = 2\<rparr>], qr_rows = rows, qr_affected = n, qr_last_insert_id = None\<rparr>)
       (case en of StreamDone n \<Rightarrow> Inr ([[VI64 1]], case n of Some n \<Rightarrow> n | None \<Rightarrow> 0) | StreamFailed e \<Rightarrow> Inl (pg_map e)))"
proof -
  have "check_param plain_types (VI64 1) T_INT4 = Inr ()"
    by (simp add: check_param_ok pg_int_accepts_def special_literal_def check_range_int int_fits_def) (simp add: pg_builtin_def)
  moreover have "to_sql_checked plain_types (PgInt 1) T_INT4 = Inr (Wrote (to_be_bytes 4 (1 :: 32 word)))"
    by (simp add: to_sql_checked_def pg_int_accepts_def pg_int_to_sql_def plain_types_def wrote_def Let_def) (simp add: pg_builtin_def)
  moreover have "oid_to_tag ''n'' T_INT4 = Inr 2" unfolding oid_to_tag_def extract_kinds by simp
  moreover have "extract_value demo_from_sql \<lparr>pr_columns = demo_columns, pr_cells = [Some [0, 0, 0, 1]]\<rparr> 0 (ty_oid T_INT4) = Inr (VI64 1)"
    unfolding extract_value_def extract_kinds
    by (simp add: extract_cell_def get_opt_def demo_from_sql_def demo_columns_def or_null_def from_be_bytes_def from_le_bytes_def)
  ultimately show ?thesis
    by (cases en) (simp_all add: pg_run_def demo_client_def demo_columns_def validate_bind_def query_raw_def to_boxed_params_def Let_def)
qed

theorem pg_rows_match_header_witness:
  "list_all (\<lambda>row. list_all2 cell_fits row [\<lparr>cm_name = ''n'', cm_tag = 2\<rparr>]) [[VI64 1]]"
proof -
  let ?cl = "demo_client (StreamDone None)"
  have "pg_run plain_types demo_from_sql ?cl ''?'' [VI64 1] =
    (True, Inr \<lparr>qr_cols = [\<lparr>cm_name = ''n'', cm_tag = 2\<rparr>], qr_rows = [[VI64 1]], qr_affected = 0, qr_last_insert_id = None\<rparr>)"
    by (simp add: demo_run)
  moreover have "\<forall>stmt outs rows en. cl_prepare ?cl (placeholder_scan ''?'') = Inr stmt \<longrightarrow>
      cl_send ?cl (placeholder_scan ''?'') outs = Inr (rows, en) \<longrightarrow> list_all (\<lambda>w. pr_columns w = st_columns stmt) rows"
    by (simp add: demo_client_def)
  ultimately show ?thesis
    using pg_rows_match_header [of plain_types ?cl "''?''" "[VI64 1]" demo_from_sql] by fastforce
qed

subsection \<open>Refusals have a known fate\<close>

lemma get_opt_refusal: "get_opt f row idx = Inl e \<Longrightarrow> own_refusal e"
  by (auto simp: get_opt_def own_refusal_def split: if_splits option.splits)

lemma text_error_refusal: "own_refusal (text_pool_error e)"
  by (simp add: text_pool_error_def own_refusal_def split: text_error.split)

lemma raw_text_refusal: "raw_text row idx f = Inl e \<Longrightarrow> own_refusal e"
proof -
  assume a: "raw_text row idx f = Inl e"
  show ?thesis
  proof (cases "get_opt raw_bytes row idx")
    case (Inr b)
    with a show ?thesis
      by (cases b; cases "f (the b)") (auto simp: raw_text_def text_error_refusal)
  qed (use a get_opt_refusal in \<open>auto simp: raw_text_def\<close>)
qed

lemma extract_cell_refusal: "extract_cell fs x row idx = Inl e \<Longrightarrow> own_refusal e"
proof (cases x)
  case XCharByte
  assume "extract_cell fs x row idx = Inl e"
  with XCharByte show ?thesis
    by (cases "get_opt (fs_i8 fs) row idx")
      (auto simp: extract_cell_def char_cell_def text_error_refusal map_sum_def split: option.splits sum.splits dest: get_opt_refusal)
next
  case XRegOid
  assume "extract_cell fs x row idx = Inl e"
  with XRegOid show ?thesis
    by (cases "get_opt raw_bytes row idx")
      (auto simp: extract_cell_def reg_oid_def own_refusal_def split: option.splits if_splits dest: get_opt_refusal)
qed (simp_all only: extract_cell_def extract_kind.case map_sum_id_Inl, (erule get_opt_refusal raw_text_refusal)+)

lemma extract_value_refusal: "extract_value fs row idx oid = Inl e \<Longrightarrow> own_refusal e"
  by (auto simp: extract_value_def own_refusal_def unsupported_column_def split: option.splits if_splits
      dest: extract_cell_refusal)

lemma extract_cells_refusal: "extract_cells fs row idx oids = Inl e \<Longrightarrow> own_refusal e"
  by (induction oids arbitrary: idx) (auto simp: map_sum_id_Inl split: sum.splits dest: extract_value_refusal)

lemma pg_build_cols_refusal: "pg_build_cols cols = Inl e \<Longrightarrow> own_refusal e"
  by (induction cols)
    (auto simp: map_sum_id_Inl oid_to_tag_def own_refusal_def unsupported_column_def split: sum.splits option.splits)

lemma check_all_refusal: "check_all pt vs tys = Inl e \<Longrightarrow> own_refusal e"
  by (induction pt vs tys rule: check_all.induct) (auto simp: own_refusal_def split: sum.splits)

lemma collect_rows_errors: "collect_rows fs rs en = Inl e \<Longrightarrow> own_refusal e \<or> (\<exists>de. en = StreamFailed de \<and> e = pg_map de)"
  by (induction fs rs en rule: collect_rows.induct) (auto simp: map_sum_id_Inl split: sum.splits dest: extract_cells_refusal)

lemma checked_params_convert:
  "pt_laws pt \<Longrightarrow> check_all pt vs tys = Inr () \<Longrightarrow> \<exists>outs. convert_all pt (map value_to_boxed vs) tys = Some outs"
proof (induction pt vs tys rule: check_all.induct)
  case (1 pt v vs ty tys)
  then show ?case using preflight_never_looser [of pt v ty] by (auto split: sum.splits)
qed simp_all

text \<open>
  C15: a PostgreSQL statement is never reported as possibly executed because of a parameter or a column. Inside the
  driver a parameter that does not convert is an error without a server error, which reads as a lost connection;
  since the check before sending is never looser than the conversion, an error that is indeterminate for some
  caller comes from the server or the connection: while preparing, on sending, or in the middle of the rows.
\<close>

theorem pg_refusals_have_known_fate:
  assumes "pt_laws pt" and "pg_run pt fs cl sql params = (sent, Inl e)"
    and "ep_branch (classify_fate e ctx) = branch_indeterminate"
  shows "\<exists>de. e = pg_map de \<and>
    (\<not> sent \<and> cl_prepare cl (placeholder_scan sql) = Inl de \<or>
     sent \<and> (\<exists>outs. cl_send cl (placeholder_scan sql) outs = Inl de \<or>
       (\<exists>rows. cl_send cl (placeholder_scan sql) outs = Inr (rows, StreamFailed de))))"
proof (cases "cl_prepare cl (placeholder_scan sql)")
  case (Inl de)
  with assms(2) show ?thesis by (auto simp: pg_run_def)
next
  case (Inr stmt)
  have own: "\<not> own_refusal e" using assms(3) own_refusal_known by blast
  from assms(2) own Inr obtain cols where cols: "pg_build_cols (st_columns stmt) = Inr cols"
    by (cases "pg_build_cols (st_columns stmt)") (auto simp: pg_run_def dest: pg_build_cols_refusal)
  from assms(2) own Inr cols have ok: "validate_bind pt params stmt = Inr ()"
    by (cases "validate_bind pt params stmt")
      (auto simp: pg_run_def validate_bind_def own_refusal_def split: if_splits dest: check_all_refusal)
  then have "check_all pt params (st_params stmt) = Inr ()" by (simp add: validate_bind_def split: if_splits)
  from checked_params_convert [OF assms(1) this] obtain outs where
    "convert_all pt (to_boxed_params params) (st_params stmt) = Some outs" by (auto simp: to_boxed_params_def)
  with assms(2) Inr cols ok own consider (send) de where "sent" "e = pg_map de" "cl_send cl (placeholder_scan sql) outs = Inl de"
    | (rows) de rows where "sent" "e = pg_map de" "cl_send cl (placeholder_scan sql) outs = Inr (rows, StreamFailed de)"
    by (cases "cl_send cl (placeholder_scan sql) outs")
      (auto simp: pg_run_def query_raw_def map_sum_id_Inl dest!: collect_rows_errors)
  then show ?thesis by cases blast+
qed

theorem pg_refusals_have_known_fate_witness:
  "\<exists>de. ConnectionLost = pg_map de \<and>
    (\<not> True \<and> cl_prepare (demo_client (StreamFailed None)) (placeholder_scan ''?'') = Inl de \<or>
     True \<and> (\<exists>outs. cl_send (demo_client (StreamFailed None)) (placeholder_scan ''?'') outs = Inl de \<or>
       (\<exists>rows. cl_send (demo_client (StreamFailed None)) (placeholder_scan ''?'') outs = Inr (rows, StreamFailed de))))"
proof -
  have "pg_map None = ConnectionLost" by (simp add: pg_map_def pg_is_session_fatal_def)
  then have r: "pg_run plain_types demo_from_sql (demo_client (StreamFailed None)) ''?'' [VI64 1] = (True, Inl ConnectionLost)"
    by (simp add: demo_run)
  have b: "ep_branch (classify_fate ConnectionLost \<lparr>oc_readonly = False, oc_sent = True, oc_in_tx = False\<rparr>) = branch_indeterminate"
    by (simp add: classify_fate_def is_57014_def payload_def branch_indeterminate_def)
  from pg_refusals_have_known_fate [OF plain_types_laws r b] show ?thesis .
qed

end
