(* ===== verification/My_Text.thy ===== *)
theory My_Text
  imports Pool_Backend Decimal Utf8 Floats
begin

text \<open>
  From the MySQL driver's cells to the protocol's values and back: the canonical texts
  (\<open>ferro-backend-mysql/src/mytext.rs\<close>), the column classifier with the extraction of a cell (\<open>rowmap.rs\<close>),
  the binding of parameters (\<open>bind.rs\<close>) and the session tracker (\<open>tracker.rs\<close>). A component of a date or a
  time is a natural number; a cast to a narrower integer is written out. The driver's types are those of
  \<open>mysql_common\<close>, as the sources quote them. The message of an error is its leading word.
\<close>

subsection \<open>Cells\<close>

datatype my_value =
    MyNULL | MyBytes string | MyInt "64 word" | MyUInt "64 word" | MyFloat "32 word" | MyDouble "64 word"
  | MyDate nat nat nat nat nat nat nat
  | MyTime bool nat nat nat nat nat

definition MAX_TIME_US :: nat where
  "MAX_TIME_US = (838 * 3600 + 59 * 60 + 59) * 1000000 + 999999"

definition ZERO_DATETIME :: string where
  "ZERO_DATETIME = ''0000-00-00 00:00:00''"

definition date_parts :: "my_value \<Rightarrow> string \<Rightarrow> (nat \<times> nat \<times> nat \<times> nat \<times> nat \<times> nat \<times> nat) result" where
  "date_parts v what =
     (case v of MyDate y mo d h mi s us \<Rightarrow> Inr (y, mo, d, h, mi, s, us) | _ \<Rightarrow> Inl (Backend what))"

definition my_canonical_date :: "nat \<Rightarrow> nat \<Rightarrow> nat \<Rightarrow> string" where
  "my_canonical_date y mo d = pad_dec 4 y @ ''-'' @ pad_dec 2 mo @ ''-'' @ pad_dec 2 d"

definition fmt_clock :: "nat \<Rightarrow> nat \<Rightarrow> nat \<Rightarrow> nat \<Rightarrow> string" where
  "fmt_clock h mi s us =
     pad_dec 2 h @ '':'' @ pad_dec 2 mi @ '':'' @ pad_dec 2 s @ (if us = 0 then [] else ''.'' @ pad_dec 6 us)"

definition check_time_of_day :: "nat \<Rightarrow> nat \<Rightarrow> nat \<Rightarrow> nat \<Rightarrow> string \<Rightarrow> unit result" where
  "check_time_of_day h mi s us what =
     (if 23 < h \<or> 59 < mi \<or> 59 < s \<or> 1000000 \<le> us then Inl (Backend what) else Inr ())"

subsection \<open>Canonical texts\<close>

definition my_date_to_text :: "my_value \<Rightarrow> string result" where
  "my_date_to_text v =
     (case date_parts v ''date'' of
        Inl e \<Rightarrow> Inl e
      | Inr (y, mo, d, h, mi, s, us) \<Rightarrow>
          if (h, mi, s, us) \<noteq> (0, 0, 0, 0) then Inl (Backend ''date'') else Inr (my_canonical_date y mo d))"

definition my_datetime_to_text :: "my_value \<Rightarrow> string result" where
  "my_datetime_to_text v =
     (case date_parts v ''datetime'' of
        Inl e \<Rightarrow> Inl e
      | Inr (y, mo, d, h, mi, s, us) \<Rightarrow>
          (case check_time_of_day h mi s us ''datetime'' of
             Inl e \<Rightarrow> Inl e
           | Inr _ \<Rightarrow> Inr (my_canonical_date y mo d @ '' '' @ fmt_clock h mi s us)))"

definition my_timestamptz_to_text :: "my_value \<Rightarrow> string result" where
  "my_timestamptz_to_text v =
     (case date_parts v ''timestamp'' of
        Inl e \<Rightarrow> Inl e
      | Inr (y, mo, d, h, mi, s, us) \<Rightarrow>
          (case check_time_of_day h mi s us ''timestamp'' of
             Inl e \<Rightarrow> Inl e
           | Inr _ \<Rightarrow>
               if (y, mo, d, h, mi, s, us) = (0, 0, 0, 0, 0, 0, 0) then Inr ZERO_DATETIME
               else Inr (my_canonical_date y mo d @ ''T'' @ fmt_clock h mi s us @ ''Z'')))"

definition saturate :: "nat \<Rightarrow> nat" where
  "saturate n = min n (2 ^ 64 - 1)"

definition my_time_to_text :: "my_value \<Rightarrow> string result" where
  "my_time_to_text v =
     (case v of
        MyTime neg days h mi s us \<Rightarrow>
          (case check_time_of_day h mi s us ''time'' of
             Inl e \<Rightarrow> Inl e
           | Inr _ \<Rightarrow>
               (let t1 = saturate (saturate (days * 86400) * 1000000);
                    t2 = saturate (t1 + h * 3600 * 1000000);
                    t3 = saturate (t2 + mi * 60 * 1000000);
                    t4 = saturate (t3 + s * 1000000);
                    total = saturate (t4 + us) in
                if MAX_TIME_US < total then Inl (Backend ''time'')
                else
                  Inr ((if neg \<and> total \<noteq> 0 then ''-'' else []) @
                       fmt_clock (total div 3600000000) (total mod 3600000000 div 60000000)
                         (total mod 60000000 div 1000000) (total mod 1000000))))
      | _ \<Rightarrow> Inl (Backend ''time''))"

definition bytes_utf8 :: "my_value \<Rightarrow> string \<Rightarrow> string result" where
  "bytes_utf8 v what =
     (case v of MyBytes raw \<Rightarrow> if utf8_valid raw then Inr raw else Inl (Backend what) | _ \<Rightarrow> Inl (Backend what))"

definition strip_sign :: "string \<Rightarrow> string" where
  "strip_sign s = (case s of c # r \<Rightarrow> if c = CHR ''-'' \<or> c = CHR ''+'' then r else s | [] \<Rightarrow> [])"

definition split_once :: "char \<Rightarrow> string \<Rightarrow> (string \<times> string) option" where
  "split_once c s =
     (if c \<in> set s then Some (takeWhile (\<lambda>x. x \<noteq> c) s, drop 1 (dropWhile (\<lambda>x. x \<noteq> c) s)) else None)"

definition digits_ok :: "string \<Rightarrow> bool" where
  "digits_ok p \<longleftrightarrow> p \<noteq> [] \<and> list_all is_ascii_digit p"

definition is_decimal_text :: "string \<Rightarrow> bool" where
  "is_decimal_text s \<longleftrightarrow>
     (case split_once (CHR ''.'') (strip_sign s) of
        Some (i, f) \<Rightarrow> digits_ok i \<and> digits_ok f
      | None \<Rightarrow> digits_ok (strip_sign s))"

definition my_decimal_to_text :: "my_value \<Rightarrow> string result" where
  "my_decimal_to_text v =
     (case bytes_utf8 v ''decimal'' of
        Inl e \<Rightarrow> Inl e
      | Inr t \<Rightarrow>
          (let body = strip_sign t in
           case (case split_once (CHR ''.'') body of Some (i, f) \<Rightarrow> (i, Some f) | None \<Rightarrow> (body, None)) of
             (i, f) \<Rightarrow>
               if \<not> digits_ok i \<or> (case f of None \<Rightarrow> False | Some f \<Rightarrow> \<not> digits_ok f) then Inl (Backend ''decimal'')
               else Inr t))"

definition my_json_to_text :: "my_value \<Rightarrow> string result" where
  "my_json_to_text v = bytes_utf8 v ''json''"

end
