(* ===== verification/My_Bind.thy ===== *)
theory My_Bind
  imports My_Text Values
begin

text \<open>
  Parameters of MySQL statements (\<open>ferro-backend-mysql/src/bind.rs\<close>): from the protocol's values to the
  driver's, with the two checks made before anything is sent. The slices of the parsers lie between ASCII
  bytes, so no slice of the code is cut inside a character.
\<close>

subsection \<open>Parsing canonical texts\<close>

definition digits :: "string \<Rightarrow> nat option" where
  "digits s = (if s = [] \<or> 9 < length s \<or> \<not> list_all is_ascii_digit s then None else Some (parse_dec s))"

definition split_date :: "string \<Rightarrow> (nat \<times> nat \<times> nat) option" where
  "split_date s =
     (if length s \<noteq> 10 \<or> s ! 4 \<noteq> CHR ''-'' \<or> s ! 7 \<noteq> CHR ''-'' then None
      else
        (case digits (take 4 s) of
           None \<Rightarrow> None
         | Some y \<Rightarrow>
             (case digits (take 2 (drop 5 s)) of
                None \<Rightarrow> None
              | Some mo \<Rightarrow>
                  (case digits (take 2 (drop 8 s)) of
                     None \<Rightarrow> None
                   | Some d \<Rightarrow>
                       (let y = y mod 2 ^ 16; mo = mo mod 2 ^ 8; d = d mod 2 ^ 8 in
                        if 12 < mo \<or> 31 < d then None else Some (y, mo, d))))))"

definition split_time_of_day :: "string \<Rightarrow> (nat \<times> nat \<times> nat \<times> nat) option" where
  "split_time_of_day s =
     (case (case split_once (CHR ''.'') s of Some (hms, f) \<Rightarrow> (hms, Some f) | None \<Rightarrow> (s, None)) of
        (hms, frac) \<Rightarrow>
          if length hms \<noteq> 8 \<or> hms ! 2 \<noteq> CHR '':'' \<or> hms ! 5 \<noteq> CHR '':'' then None
          else
            (case digits (take 2 hms) of
               None \<Rightarrow> None
             | Some h \<Rightarrow>
                 (case digits (take 2 (drop 3 hms)) of
                    None \<Rightarrow> None
                  | Some mi \<Rightarrow>
                      (case digits (take 2 (drop 6 hms)) of
                         None \<Rightarrow> None
                       | Some sec \<Rightarrow>
                           (let h = h mod 2 ^ 8; mi = mi mod 2 ^ 8; sec = sec mod 2 ^ 8 in
                            if 23 < h \<or> 59 < mi \<or> 59 < sec then None
                            else
                              (case frac of
                                 None \<Rightarrow> Some (h, mi, sec, 0)
                               | Some f \<Rightarrow>
                                   if length f = 6
                                   then map_option (\<lambda>us. (h, mi, sec, us)) (digits f)
                                   else None))))))"

definition split_date_and_time :: "string \<Rightarrow> char \<Rightarrow> my_value option" where
  "split_date_and_time s sep =
     (if length s \<le> 10 \<or> s ! 10 \<noteq> sep then None
      else
        (case split_date (take 10 s) of
           None \<Rightarrow> None
         | Some (y, mo, d) \<Rightarrow>
             (case split_time_of_day (drop 11 s) of
                None \<Rightarrow> None
              | Some (h, mi, sec, us) \<Rightarrow> Some (MyDate y mo d h mi sec us))))"

definition split_naive_datetime :: "string \<Rightarrow> my_value option" where
  "split_naive_datetime s = split_date_and_time s (CHR '' '')"

definition split_time :: "string \<Rightarrow> my_value option" where
  "split_time s =
     (case (case s of c # r \<Rightarrow> if c = CHR ''-'' then (True, r) else (False, s) | [] \<Rightarrow> (False, [])) of
        (neg, rest) \<Rightarrow>
          (case split_once (CHR '':'') rest of
             None \<Rightarrow> None
           | Some (hh, tail) \<Rightarrow>
               if hh = [] \<or> 3 < length hh then None
               else
                 (case digits hh of
                    None \<Rightarrow> None
                  | Some hours \<Rightarrow>
                      (case split_time_of_day (''00:'' @ tail) of
                         None \<Rightarrow> None
                       | Some (z, mi, sec, us) \<Rightarrow>
                           (let total_us = hours * 3600 * 1000000 + mi * 60 * 1000000 + sec * 1000000 + us in
                            if MAX_TIME_US < total_us then None
                            else Some (MyTime (neg \<and> total_us \<noteq> 0) (hours div 24) (hours mod 24) mi sec us))))))"

definition parse_date :: "string \<Rightarrow> my_value option" where
  "parse_date s = (case split_date s of None \<Rightarrow> None | Some (y, mo, d) \<Rightarrow> Some (MyDate y mo d 0 0 0 0))"

definition parse_datetime :: "string \<Rightarrow> my_value option" where
  "parse_datetime s = split_naive_datetime s"

definition parse_rfc3339_utc :: "string \<Rightarrow> my_value option" where
  "parse_rfc3339_utc s =
     (if s = ZERO_DATETIME then Some (MyDate 0 0 0 0 0 0 0)
      else if s = [] \<or> last s \<noteq> CHR ''Z'' then None
      else
        (let body = butlast s in
         if length body \<le> 10 \<or> body ! 10 \<noteq> CHR ''T'' then None else split_date_and_time body (CHR ''T'')))"

definition parse_time :: "string \<Rightarrow> my_value option" where
  "parse_time s = split_time s"

subsection \<open>Binding\<close>

definition reject :: "nat \<Rightarrow> string \<Rightarrow> string \<Rightarrow> pool_error" where
  "reject idx kind t = bind_error (''parameter '' @ to_dec idx @ '': '' @ t @ '' has no MySQL/MariaDB '' @ kind @ '' representation'')"

definition or_reject :: "nat \<Rightarrow> string \<Rightarrow> string \<Rightarrow> my_value option \<Rightarrow> my_value result" where
  "or_reject idx kind t p = (case p of Some m \<Rightarrow> Inr m | None \<Rightarrow> Inl (reject idx kind t))"

fun value_to_my :: "val \<Rightarrow> nat \<Rightarrow> my_value result" where
  "value_to_my VNull idx = Inr MyNULL"
| "value_to_my (VBool b) idx = Inr (MyInt (if b then 1 else 0))"
| "value_to_my (VI64 n) idx = Inr (MyInt n)"
| "value_to_my (VF64 f) idx = Inr (MyDouble f)"
| "value_to_my (VText s) idx = Inr (MyBytes s)"
| "value_to_my (VBytes b) idx = Inr (MyBytes b)"
| "value_to_my (VU64 n) idx = Inr (MyUInt n)"
| "value_to_my (VUuid s) idx = Inr (MyBytes s)"
| "value_to_my (VJson s) idx = Inr (MyBytes s)"
| "value_to_my (VDecimal s) idx = (if is_decimal_text s then Inr (MyBytes s) else Inl (reject idx ''DECIMAL'' s))"
| "value_to_my (VDate s) idx = or_reject idx ''DATE'' s (parse_date s)"
| "value_to_my (VTime s) idx = or_reject idx ''TIME'' s (parse_time s)"
| "value_to_my (VTimestamp s) idx = or_reject idx ''TIMESTAMP'' s (parse_datetime s)"
| "value_to_my (VTimestampTz s) idx = or_reject idx ''TIMESTAMPTZ'' s (parse_rfc3339_utc s)"

definition validate_arity :: "val list \<Rightarrow> nat \<Rightarrow> unit result" where
  "validate_arity params num_params =
     (if length params \<noteq> num_params then Inl (bind_error ''parameter count mismatch'') else Inr ())"

datatype my_params = ParamsEmpty | Positional "my_value list"

fun bind_all :: "nat \<Rightarrow> val list \<Rightarrow> my_value list result" where
  "bind_all idx [] = Inr []"
| "bind_all idx (v # vs) =
     (case value_to_my v idx of
        Inl e \<Rightarrow> Inl e
      | Inr m \<Rightarrow> (case bind_all (idx + 1) vs of Inl e \<Rightarrow> Inl e | Inr ms \<Rightarrow> Inr (m # ms)))"

definition to_params :: "val list \<Rightarrow> my_params result" where
  "to_params params = (if params = [] then Inr ParamsEmpty else map_sum id Positional (bind_all 0 params))"

subsection \<open>What is printed is parsed back\<close>

lemma pad_dec_digits: "list_all is_ascii_digit (pad_dec k n)"
proof -
  have "is_ascii_digit (CHR ''0'')" by (simp add: is_ascii_digit_def byte_def)
  then show ?thesis using to_dec_digits [of _ n] by (auto simp: pad_dec_def list_all_iff)
qed

lemma digits_pad_dec: "n < 10 ^ k \<Longrightarrow> 0 < k \<Longrightarrow> k \<le> 9 \<Longrightarrow> digits (pad_dec k n) = Some n"
  using length_pad_dec [of n k] pad_dec_digits [of k n] by (auto simp: digits_def)

lemma pad_dec_plain: "c \<in> set (pad_dec k n) \<Longrightarrow> is_ascii_digit c"
  using pad_dec_digits [of k n] by (auto simp: list_all_iff)

lemma split_date_print:
  assumes "y \<le> 9999" "mo \<le> 12" "d \<le> 31"
  shows "split_date (my_canonical_date y mo d) = Some (y, mo, d)" "length (my_canonical_date y mo d) = 10"
proof -
  have l: "length (pad_dec 4 y) = 4" "length (pad_dec 2 mo) = 2" "length (pad_dec 2 d) = 2"
    using assms by (auto intro!: length_pad_dec)
  moreover have "digits (pad_dec 4 y) = Some y" "digits (pad_dec 2 mo) = Some mo" "digits (pad_dec 2 d) = Some d"
    using assms by (auto intro!: digits_pad_dec)
  ultimately show "split_date (my_canonical_date y mo d) = Some (y, mo, d)" "length (my_canonical_date y mo d) = 10"
    using assms by (simp_all add: split_date_def my_canonical_date_def nth_append)
qed

lemma split_once_absent: "c \<notin> set s \<Longrightarrow> split_once c s = None"
  by (simp add: split_once_def)

lemma split_once_append: "c \<notin> set s \<Longrightarrow> split_once c (s @ c # t) = Some (s, t)"
proof -
  assume "c \<notin> set s"
  then have "takeWhile (\<lambda>x. x \<noteq> c) (s @ c # t) = s" "dropWhile (\<lambda>x. x \<noteq> c) (s @ c # t) = c # t"
    by (induction s) auto
  then show ?thesis by (simp add: split_once_def)
qed

text \<open>The wall clock; the hour field may also be the placeholder of a duration.\<close>

lemma split_time_of_day_print:
  assumes "h \<le> 23" "mi \<le> 59" "s \<le> 59" "us < 1000000"
  shows "split_time_of_day (fmt_clock h mi s us) = Some (h, mi, s, us)"
proof -
  let ?hms = "pad_dec 2 h @ '':'' @ pad_dec 2 mi @ '':'' @ pad_dec 2 s"
  have l: "length (pad_dec 2 h) = 2" "length (pad_dec 2 mi) = 2" "length (pad_dec 2 s) = 2" "length (pad_dec 6 us) = 6"
    using assms by (auto intro!: length_pad_dec)
  have d: "digits (pad_dec 2 h) = Some h" "digits (pad_dec 2 mi) = Some mi" "digits (pad_dec 2 s) = Some s"
    "digits (pad_dec 6 us) = Some us" using assms by (auto intro!: digits_pad_dec)
  have "\<not> is_ascii_digit (CHR ''.'')" by (simp add: is_ascii_digit_def byte_def)
  then have dot: "CHR ''.'' \<notin> set ?hms" using pad_dec_plain by auto
  have "split_once (CHR ''.'') (fmt_clock h mi s us) = (if us = 0 then None else Some (?hms, pad_dec 6 us))"
    using split_once_absent [OF dot] split_once_append [OF dot, of "pad_dec 6 us"] by (simp add: fmt_clock_def)
  moreover have "us = 0 \<Longrightarrow> fmt_clock h mi s us = ?hms" by (simp add: fmt_clock_def)
  ultimately show ?thesis using l d assms
    by (cases "us = 0") (simp_all add: split_time_of_day_def nth_append)
qed

lemma length_fmt_clock_pos: "fmt_clock h mi s us \<noteq> []"
  by (simp add: fmt_clock_def)

lemma split_date_and_time_print:
  assumes "y \<le> 9999" "mo \<le> 12" "d \<le> 31" "h \<le> 23" "mi \<le> 59" "s \<le> 59" "us < 1000000"
  shows "split_date_and_time (my_canonical_date y mo d @ sep # fmt_clock h mi s us) sep = Some (MyDate y mo d h mi s us)"
  using split_date_print [OF assms(1-3)] split_time_of_day_print [OF assms(4-7)]
  by (simp add: split_date_and_time_def nth_append)

text \<open>Durations: saturation only happens beyond the limit, and the day overflow is folded and split.\<close>

lemma saturate_small: "n < 2 ^ 64 \<Longrightarrow> saturate n = n"
  by (simp add: saturate_def)

lemma saturate_mono: "m \<le> n \<Longrightarrow> saturate m \<le> saturate n"
  by (simp add: saturate_def)

definition total_us :: "nat \<Rightarrow> nat \<Rightarrow> nat \<Rightarrow> nat \<Rightarrow> nat \<Rightarrow> nat" where
  "total_us days h mi s us = days * 86400 * 1000000 + h * 3600 * 1000000 + mi * 60 * 1000000 + s * 1000000 + us"

lemma time_total:
  assumes "h \<le> 23" "mi \<le> 59" "s \<le> 59" "us < 1000000"
  shows "saturate (saturate (saturate (saturate (saturate (saturate (days * 86400) * 1000000) + h * 3600 * 1000000)
      + mi * 60 * 1000000) + s * 1000000) + us) = saturate (total_us days h mi s us)"
  using assms by (simp add: saturate_def total_us_def min_def)

lemma div_mod_part: "r < c \<Longrightarrow> (a * c + r) div c = a \<and> (a * c + r) mod c = r" for a c r :: nat
  by simp

lemma total_us_parts:
  assumes "h \<le> 23" "mi \<le> 59" "s \<le> 59" "us < 1000000"
  shows "total_us days h mi s us div 3600000000 = 24 * days + h"
    "total_us days h mi s us mod 3600000000 div 60000000 = mi"
    "total_us days h mi s us mod 60000000 div 1000000 = s" "total_us days h mi s us mod 1000000 = us"
proof -
  let ?t = "total_us days h mi s us"
  have whole: "?t = (24 * days + h) * 3600000000 + (mi * 60000000 + (s * 1000000 + us))"
    "?t = ((24 * days + h) * 60 + mi) * 60000000 + (s * 1000000 + us)"
    "?t = (((24 * days + h) * 60 + mi) * 60 + s) * 1000000 + us"
    by (simp_all add: total_us_def)
  have "s * 1000000 + us < 60000000" using assms by simp
  moreover from this have "mi * 60000000 + (s * 1000000 + us) < 3600000000" using assms by simp
  ultimately show "?t div 3600000000 = 24 * days + h" "?t mod 3600000000 div 60000000 = mi"
    "?t mod 60000000 div 1000000 = s" "?t mod 1000000 = us"
    using div_mod_part [of _ 3600000000] div_mod_part [of _ 60000000] div_mod_part [of _ 1000000] assms(4) whole by metis+
qed

lemma time_to_text_form:
  assumes "my_time_to_text (MyTime neg days h mi s us) = Inr t"
  shows "h \<le> 23" "mi \<le> 59" "s \<le> 59" "us < 1000000" "total_us days h mi s us \<le> MAX_TIME_US"
    "t = (if neg \<and> total_us days h mi s us \<noteq> 0 then ''-'' else []) @ fmt_clock (24 * days + h) mi s us"
proof -
  from assms show r: "h \<le> 23" "mi \<le> 59" "s \<le> 59" "us < 1000000"
    by (auto simp: my_time_to_text_def check_time_of_day_def split: if_splits)
  let ?t = "total_us days h mi s us"
  from assms r time_total [OF r, of days] have le: "saturate ?t \<le> MAX_TIME_US"
    and t: "t = (if neg \<and> saturate ?t \<noteq> 0 then ''-'' else []) @
      fmt_clock (saturate ?t div 3600000000) (saturate ?t mod 3600000000 div 60000000) (saturate ?t mod 60000000 div 1000000)
        (saturate ?t mod 1000000)"
    by (auto simp: my_time_to_text_def check_time_of_day_def Let_def split: if_splits)
  have "saturate ?t = ?t" using le by (auto simp: saturate_def MAX_TIME_US_def min_def split: if_splits)
  with le t total_us_parts [OF r, of days] show "?t \<le> MAX_TIME_US"
    "t = (if neg \<and> ?t \<noteq> 0 then ''-'' else []) @ fmt_clock (24 * days + h) mi s us" by simp_all
qed

lemma time_to_text_ok:
  assumes "h \<le> 23" "mi \<le> 59" "s \<le> 59" "us < 1000000" "total_us days h mi s us \<le> MAX_TIME_US"
  shows "my_time_to_text (MyTime neg days h mi s us) =
    Inr ((if neg \<and> total_us days h mi s us \<noteq> 0 then ''-'' else []) @ fmt_clock (24 * days + h) mi s us)"
proof -
  have sat: "saturate (total_us days h mi s us) = total_us days h mi s us"
    using assms(5) by (intro saturate_small) (simp add: MAX_TIME_US_def)
  have ok: "check_time_of_day h mi s us ''time'' = Inr ()" using assms by (simp add: check_time_of_day_def)
  show ?thesis
    unfolding my_time_to_text_def my_value.case ok sum.case Let_def time_total [OF assms(1-4)] sat total_us_parts [OF assms(1-4)]
    using assms(5) by simp
qed

lemma split_time_print:
  assumes "my_time_to_text (MyTime neg days h mi s us) = Inr t"
  shows "split_time t = Some (MyTime (neg \<and> total_us days h mi s us \<noteq> 0) days h mi s us)"
proof -
  note f = time_to_text_form [OF assms]
  let ?H = "24 * days + h" and ?t = "total_us days h mi s us"
  define rest where "rest = pad_dec 2 mi @ '':'' @ pad_dec 2 s @ (if us = 0 then [] else ''.'' @ pad_dec 6 us)"
  have clock: "fmt_clock x mi s us = pad_dec 2 x @ CHR '':'' # rest" for x by (simp add: fmt_clock_def rest_def)
  have "?H * 3600000000 \<le> ?t" by (simp add: total_us_def)
  then have "?H \<le> 838" using f(5) by (simp add: MAX_TIME_US_def)
  then have "length (to_dec ?H) \<le> 3" by (intro length_to_dec_le) simp_all
  then have len: "length (pad_dec 2 ?H) \<le> 3" "pad_dec 2 ?H \<noteq> []" by (simp_all add: pad_dec_def)
  then have H: "digits (pad_dec 2 ?H) = Some ?H" using pad_dec_digits [of 2 ?H] by (simp add: digits_def)
  have nd: "\<not> is_ascii_digit (CHR '':'')" "\<not> is_ascii_digit (CHR ''-'')" by (simp_all add: is_ascii_digit_def byte_def)
  then have "CHR '':'' \<notin> set (pad_dec 2 ?H)" using pad_dec_plain by blast
  then have cut1: "split_once (CHR '':'') (fmt_clock ?H mi s us) = Some (pad_dec 2 ?H, rest)"
    unfolding clock by (rule split_once_append)
  have "pad_dec 2 0 = ''00''" by code_simp
  then have "split_time_of_day (''00:'' @ rest) = Some (0, mi, s, us)"
    using split_time_of_day_print [of 0 mi s us] f(1-4) by (simp add: clock)
  moreover have "\<exists>c r. fmt_clock ?H mi s us = c # r \<and> c \<noteq> CHR ''-''"
    using len(2) nd(2) pad_dec_plain [of _ 2 ?H] unfolding clock by (cases "pad_dec 2 ?H") auto
  moreover have "?H * 3600 * 1000000 + mi * 60 * 1000000 + s * 1000000 + us = ?t" by (simp add: total_us_def)
  moreover have "(24 * days + h) div 24 = days" "(24 * days + h) mod 24 = h" using f(1) by simp_all
  ultimately show ?thesis using f(5,6) cut1 len H
    by (cases "neg \<and> ?t \<noteq> 0") (auto simp: split_time_def Let_def simp del: One_nat_def)
qed

end
