(* ===== verification/My_Row.thy ===== *)
theory My_Row
  imports My_Bind Values
begin

text \<open>
  Rows of MySQL results: the column classifier, the tag a column promises and the extraction of a cell
  (\<open>ferro-backend-mysql/src/rowmap.rs\<close>), the checks and the row mapping of a buffered query (\<open>query.rs\<close>), and
  the session tracker (\<open>tracker.rs\<close>). What the driver delivers (a prepared statement, a drained result, an OK
  packet) is an argument.
\<close>

subsection \<open>Columns\<close>

datatype column_type =
    TypeTiny | TypeShort | TypeLong | TypeInt24 | TypeLonglong | TypeFloat | TypeDouble | TypeDecimal | TypeNewdecimal
  | TypeDate | TypeTime | TypeDatetime | TypeTimestamp | TypeJson | TypeVarchar | TypeVarString | TypeString
  | TypeBlob | TypeTinyBlob | TypeMediumBlob | TypeLongBlob | TypeYear | TypeBit | TypeEnum | TypeSet | TypeGeometry
  | TypeVector | TypeNull | TypeOther nat

record my_column =
  mc_name :: string
  mc_type :: column_type
  mc_unsigned :: bool
  mc_set :: bool
  mc_charset :: nat
  mc_length :: nat

datatype my_kind =
    KBool | KI64 | KU64 | KF64 | KText | KBytes | KDecimal | KDate | KTime | KTimestamp | KTimestampTz | KJson | KNull

definition BINARY_COLLATION_ID :: nat where
  "BINARY_COLLATION_ID = 63"

definition unsupported :: "my_column \<Rightarrow> string \<Rightarrow> pool_error" where
  "unsupported col what = Unsupported (BackendRefusal (''unsupported type for column '' @ mc_name col @ '': MySQL '' @ what))"

definition decode_err :: "my_column \<Rightarrow> string \<Rightarrow> pool_error" where
  "decode_err col detail = Backend (''column '' @ mc_name col @ '' decode: '' @ detail)"

definition string_family_kind :: "my_column \<Rightarrow> my_kind" where
  "string_family_kind col = (if mc_charset col = BINARY_COLLATION_ID then KBytes else KText)"

definition column_kind :: "my_column \<Rightarrow> my_kind result" where
  "column_kind col =
     (case mc_type col of
        TypeTiny \<Rightarrow> if mc_length col = 1 then Inr KBool else Inr KI64
      | TypeShort \<Rightarrow> Inr KI64
      | TypeLong \<Rightarrow> Inr KI64
      | TypeInt24 \<Rightarrow> Inr KI64
      | TypeLonglong \<Rightarrow> if mc_unsigned col then Inr KU64 else Inr KI64
      | TypeFloat \<Rightarrow> Inr KF64
      | TypeDouble \<Rightarrow> Inr KF64
      | TypeDecimal \<Rightarrow> Inr KDecimal
      | TypeNewdecimal \<Rightarrow> Inr KDecimal
      | TypeDate \<Rightarrow> Inr KDate
      | TypeTime \<Rightarrow> Inr KTime
      | TypeDatetime \<Rightarrow> Inr KTimestamp
      | TypeTimestamp \<Rightarrow> Inr KTimestampTz
      | TypeJson \<Rightarrow> Inr KJson
      | TypeYear \<Rightarrow> Inl (unsupported col ''YEAR'')
      | TypeBit \<Rightarrow> Inl (unsupported col ''BIT'')
      | TypeEnum \<Rightarrow> Inr (string_family_kind col)
      | TypeSet \<Rightarrow> Inl (unsupported col ''SET'')
      | TypeGeometry \<Rightarrow> Inl (unsupported col ''GEOMETRY'')
      | TypeVector \<Rightarrow> Inl (unsupported col ''VECTOR'')
      | TypeNull \<Rightarrow> Inr KNull
      | TypeOther _ \<Rightarrow> Inl (unsupported col ''out-of-scope column type'')
      | _ \<Rightarrow> if mc_set col then Inl (unsupported col ''SET'') else Inr (string_family_kind col))"

fun kind_tag :: "my_kind \<Rightarrow> 8 word" where
  "kind_tag KBool = 1"
| "kind_tag KI64 = 2"
| "kind_tag KU64 = 3"
| "kind_tag KF64 = 4"
| "kind_tag KText = 6"
| "kind_tag KBytes = 7"
| "kind_tag KDecimal = 5"
| "kind_tag KDate = 8"
| "kind_tag KTime = 9"
| "kind_tag KTimestamp = 10"
| "kind_tag KTimestampTz = 11"
| "kind_tag KJson = 13"
| "kind_tag KNull = 0"

definition column_to_tag :: "my_column \<Rightarrow> 8 word result" where
  "column_to_tag col = map_sum id kind_tag (column_kind col)"

definition refuse_prepared_null :: "my_column list \<Rightarrow> unit result" where
  "refuse_prepared_null columns =
     (case List.find (\<lambda>c. mc_type c = TypeNull) columns of
        Some col \<Rightarrow> Inl (unsupported col ''NULL-typed'')
      | None \<Rightarrow> Inr ())"

subsection \<open>Cells\<close>

definition render :: "my_column \<Rightarrow> my_value \<Rightarrow> (my_value \<Rightarrow> string result) \<Rightarrow> string result" where
  "render col v renderer =
     (case renderer v of Inl (Backend detail) \<Rightarrow> Inl (decode_err col detail) | r \<Rightarrow> r)"

definition as_i64 :: "my_value \<Rightarrow> my_column \<Rightarrow> 64 word result" where
  "as_i64 v col =
     (case v of
        MyInt n \<Rightarrow> Inr n
      | MyUInt n \<Rightarrow> if unat n \<le> 2 ^ 63 - 1 then Inr n else Inl (decode_err col ''expected a signed integer cell'')
      | _ \<Rightarrow> Inl (decode_err col ''expected a signed integer cell''))"

definition u64_of :: "my_value \<Rightarrow> string + 64 word" where
  "u64_of v =
     (case v of
        MyUInt n \<Rightarrow> Inr n
      | MyInt n \<Rightarrow> if 0 \<le> sint n then Inr n else Inl ''negative value in a BIGINT UNSIGNED column''
      | _ \<Rightarrow> Inl ''expected an unsigned integer cell'')"

definition as_u64 :: "my_value \<Rightarrow> my_column \<Rightarrow> 64 word result" where
  "as_u64 v col = map_sum (decode_err col) id (u64_of v)"

definition as_f64 :: "my_value \<Rightarrow> my_column \<Rightarrow> 64 word result" where
  "as_f64 v col =
     (case v of
        MyDouble f \<Rightarrow> Inr f
      | MyFloat f \<Rightarrow> Inr (f32_to_f64 f)
      | _ \<Rightarrow> Inl (decode_err col ''expected a floating cell''))"

definition as_bytes :: "my_value \<Rightarrow> my_column \<Rightarrow> string result" where
  "as_bytes v col =
     (case v of MyBytes b \<Rightarrow> Inr b | _ \<Rightarrow> Inl (decode_err col ''expected a byte-string cell''))"

definition extract_kind :: "my_kind \<Rightarrow> my_value \<Rightarrow> my_column \<Rightarrow> val result" where
  "extract_kind k v col =
     (case k of
        KBool \<Rightarrow> map_sum id (\<lambda>n. VBool (n \<noteq> 0)) (as_i64 v col)
      | KI64 \<Rightarrow> map_sum id VI64 (as_i64 v col)
      | KU64 \<Rightarrow> map_sum id VU64 (as_u64 v col)
      | KF64 \<Rightarrow> map_sum id VF64 (as_f64 v col)
      | KText \<Rightarrow>
          (case as_bytes v col of
             Inl e \<Rightarrow> Inl e
           | Inr b \<Rightarrow> if utf8_valid b then Inr (VText b) else Inl (decode_err col ''invalid UTF-8 in a TEXT column''))
      | KBytes \<Rightarrow> map_sum id VBytes (as_bytes v col)
      | KDecimal \<Rightarrow> map_sum id VDecimal (render col v my_decimal_to_text)
      | KDate \<Rightarrow> map_sum id VDate (render col v my_date_to_text)
      | KTime \<Rightarrow> map_sum id VTime (render col v my_time_to_text)
      | KTimestamp \<Rightarrow> map_sum id VTimestamp (render col v my_datetime_to_text)
      | KTimestampTz \<Rightarrow> map_sum id VTimestampTz (render col v my_timestamptz_to_text)
      | KJson \<Rightarrow> map_sum id VJson (render col v my_json_to_text)
      | KNull \<Rightarrow> Inl (decode_err col ''a non-NULL cell in a NULL-typed column''))"

definition extract_value :: "my_value \<Rightarrow> my_column \<Rightarrow> val result" where
  "extract_value v col =
     (if v = MyNULL then Inr VNull
      else (case column_kind col of Inl e \<Rightarrow> Inl e | Inr k \<Rightarrow> extract_kind k v col))"

lemma render_Inr: "render col v f = Inr t \<longleftrightarrow> f v = Inr t"
  by (cases "f v") (auto simp: render_def split: pool_error.splits)

lemma extract_kind_tag: "extract_kind k v col = Inr x \<Longrightarrow> val_tag x = kind_tag k"
  by (cases k) (auto simp: extract_kind_def map_sum_Inr split: sum.splits if_splits)

text \<open>The bytes of a date or time the server can hold.\<close>

fun server_cell :: "my_value \<Rightarrow> bool" where
  "server_cell (MyDate y mo d h mi s us) \<longleftrightarrow> y \<le> 9999 \<and> mo \<le> 12 \<and> d \<le> 31"
| "server_cell _ \<longleftrightarrow> True"

text \<open>The kinds whose texts are parsed when they are bound back.\<close>

lemma decimal_text_iff: "my_decimal_to_text v = Inr t \<longleftrightarrow> v = MyBytes t \<and> utf8_valid t \<and> is_decimal_text t"
  by (cases v) (auto simp: my_decimal_to_text_def bytes_utf8_def is_decimal_text_def Let_def split: option.splits prod.splits)

lemma date_text_binds:
  assumes "my_date_to_text v = Inr t" "server_cell v"
  shows "parse_date t = Some v"
proof -
  from assms(1) obtain y mo d where v: "v = MyDate y mo d 0 0 0 0" "t = my_canonical_date y mo d"
    by (cases v) (auto simp: my_date_to_text_def date_parts_def split: if_splits)
  with assms(2) split_date_print [of y mo d] show ?thesis by (simp add: parse_date_def)
qed

lemma stamp_text_form:
  assumes "my_datetime_to_text v = Inr t \<or> my_timestamptz_to_text v = Inr t"
  obtains y mo d h mi s us where "v = MyDate y mo d h mi s us" "h \<le> 23" "mi \<le> 59" "s \<le> 59" "us < 1000000"
  using assms
  by (cases v) (auto simp: my_datetime_to_text_def my_timestamptz_to_text_def date_parts_def check_time_of_day_def split: if_splits)

lemma datetime_text_binds:
  assumes "my_datetime_to_text v = Inr t" "server_cell v"
  shows "parse_datetime t = Some v"
proof -
  from assms(1) obtain y mo d h mi s us where v: "v = MyDate y mo d h mi s us" and
    r: "h \<le> 23" "mi \<le> 59" "s \<le> 59" "us < 1000000" using stamp_text_form by metis
  with assms have "t = my_canonical_date y mo d @ CHR '' '' # fmt_clock h mi s us"
    by (auto simp: my_datetime_to_text_def date_parts_def check_time_of_day_def)
  with split_date_and_time_print [of y mo d h mi s us "CHR '' ''"] assms(2) v r show ?thesis
    by (simp add: parse_datetime_def split_naive_datetime_def)
qed

lemma timestamptz_text_binds:
  assumes "my_timestamptz_to_text v = Inr t" "server_cell v"
  shows "parse_rfc3339_utc t = Some v"
proof -
  from assms(1) obtain y mo d h mi s us where v: "v = MyDate y mo d h mi s us" and
    r: "h \<le> 23" "mi \<le> 59" "s \<le> 59" "us < 1000000" using stamp_text_form by metis
  let ?body = "my_canonical_date y mo d @ CHR ''T'' # fmt_clock h mi s us"
  from v assms(2) have c: "y \<le> 9999" "mo \<le> 12" "d \<le> 31" by simp_all
  show ?thesis
  proof (cases "(y, mo, d, h, mi, s, us) = (0, 0, 0, 0, 0, 0, 0)")
    case True
    with assms(1) v show ?thesis
      by (simp add: my_timestamptz_to_text_def date_parts_def check_time_of_day_def parse_rfc3339_utc_def)
  next
    case False
    with assms(1) v r have t: "t = ?body @ ''Z''"
      by (auto simp: my_timestamptz_to_text_def date_parts_def check_time_of_day_def)
    have len: "length (my_canonical_date y mo d) = 10" using split_date_print [OF c] by simp
    then have "?body ! 10 = CHR ''T''" by (simp add: nth_append)
    moreover have "t ! 10 = CHR ''T''" using len t by (simp add: nth_append)
    then have "t \<noteq> ZERO_DATETIME" by (auto simp: ZERO_DATETIME_def)
    moreover have "butlast t = ?body" unfolding t by (rule butlast_snoc)
    moreover have "last t = CHR ''Z''" "t \<noteq> []" "10 < length ?body" using t len by simp_all
    ultimately show ?thesis using split_date_and_time_print [OF c r, of "CHR ''T''"] v
      by (simp add: parse_rfc3339_utc_def Let_def)
  qed
qed


lemma as_i64_bool: "as_i64 (MyInt (if b then 1 else 0)) col = Inr (if b then 1 else 0)"
  by (simp add: as_i64_def)

lemma time_text_reads_back:
  assumes "my_time_to_text v = Inr t"
  shows "\<exists>m. parse_time t = Some m \<and> my_time_to_text m = Inr t"
proof -
  from assms obtain neg days h mi s us where v: "v = MyTime neg days h mi s us"
    by (cases v) (auto simp: my_time_to_text_def)
  let ?m = "MyTime (neg \<and> total_us days h mi s us \<noteq> 0) days h mi s us"
  note f = time_to_text_form [OF assms [unfolded v]]
  from time_to_text_ok [OF f(1-5)] f(6) have "my_time_to_text ?m = Inr t" by simp
  with split_time_print [OF assms [unfolded v]] show ?thesis by (simp add: parse_time_def)
qed

text \<open>
  C35: a value that is read can be written back and reads as the same value. A value extracted from a cell of a
  column binds as a parameter, and the parameter, read as a cell of that column, gives the value again. The parameter
  need not be the cell: \<open>TINYINT(1)\<close> keeps only its truth value, a \<open>FLOAT\<close> is bound as a double and a negative zero
  time loses its sign; what agrees is the value the client sees. A cell that holds a date must be
  one a server can send: year up to 9999, month up to 12, day up to 31 (\<open>server_cell\<close>).
\<close>

theorem mysql_read_bind_read:
  assumes "extract_value cell col = Inr v" and "server_cell cell"
  shows "\<exists>m. value_to_my v idx = Inr m \<and> extract_value m col = Inr v"
proof (cases "cell = MyNULL")
  case True
  with assms(1) show ?thesis by (auto simp: extract_value_def)
next
  case False
  with assms(1) obtain k where k: "column_kind col = Inr k" "extract_kind k cell col = Inr v"
    by (auto simp: extract_value_def split: sum.splits)
  have "\<exists>m. m \<noteq> MyNULL \<and> value_to_my v idx = Inr m \<and> extract_kind k m col = Inr v"
  proof (cases k)
    case KDate
    with k obtain t where "my_date_to_text cell = Inr t" "v = VDate t" by (auto simp: extract_kind_def map_sum_Inr render_Inr)
    with date_text_binds assms(2) False KDate show ?thesis
      by (auto simp: extract_kind_def map_sum_Inr render_Inr or_reject_def)
  next
    case KTime
    with k obtain t where t: "my_time_to_text cell = Inr t" "v = VTime t" by (auto simp: extract_kind_def map_sum_Inr render_Inr)
    from time_text_reads_back [OF t(1)] obtain m where "parse_time t = Some m" "my_time_to_text m = Inr t" by blast
    with t KTime show ?thesis
      by (intro exI [of _ m]) (auto simp: extract_kind_def map_sum_Inr render_Inr or_reject_def my_time_to_text_def)
  next
    case KTimestamp
    with k obtain t where "my_datetime_to_text cell = Inr t" "v = VTimestamp t"
      by (auto simp: extract_kind_def map_sum_Inr render_Inr)
    with datetime_text_binds assms(2) False KTimestamp show ?thesis
      by (auto simp: extract_kind_def map_sum_Inr render_Inr or_reject_def)
  next
    case KTimestampTz
    with k obtain t where "my_timestamptz_to_text cell = Inr t" "v = VTimestampTz t"
      by (auto simp: extract_kind_def map_sum_Inr render_Inr)
    with timestamptz_text_binds assms(2) False KTimestampTz show ?thesis
      by (auto simp: extract_kind_def map_sum_Inr render_Inr or_reject_def)
  next
    case KDecimal
    with k show ?thesis by (auto simp: extract_kind_def map_sum_Inr render_Inr decimal_text_iff)
  next
    case KJson
    with k show ?thesis
      by (cases cell) (auto simp: extract_kind_def map_sum_Inr render_Inr my_json_to_text_def bytes_utf8_def split: if_splits)
  next
    case KText
    with k show ?thesis by (cases cell) (auto simp: extract_kind_def as_bytes_def split: if_splits)
  next
    case KBool
    with k show ?thesis by (auto simp: extract_kind_def map_sum_Inr as_i64_bool)
  qed (use k in \<open>auto simp: extract_kind_def map_sum_Inr as_i64_def as_u64_def u64_of_def as_f64_def as_bytes_def\<close>)
  with k(1) show ?thesis by (auto simp: extract_value_def)
qed

theorem mysql_read_bind_read_witness:
  "\<exists>m. value_to_my (VTime ''-26:00:00.000001'') 0 = Inr m \<and>
     extract_value m \<lparr>mc_name = ''t'', mc_type = TypeTime, mc_unsigned = False, mc_set = False, mc_charset = 63, mc_length = 10\<rparr> =
       Inr (VTime ''-26:00:00.000001'')"
proof -
  have "extract_value (MyTime True 1 2 0 0 1)
      \<lparr>mc_name = ''t'', mc_type = TypeTime, mc_unsigned = False, mc_set = False, mc_charset = 63, mc_length = 10\<rparr> =
    Inr (VTime ''-26:00:00.000001'')"
  proof -
    have "fmt_clock 26 0 0 1 = ''26:00:00.000001''" by code_simp
    then show ?thesis
      by (simp add: extract_value_def column_kind_def extract_kind_def render_def my_time_to_text_def check_time_of_day_def
          saturate_def MAX_TIME_US_def Let_def)
  qed
  from mysql_read_bind_read [OF this] show ?thesis by simp
qed

end
