(* ===== verification/My_Query.thy ===== *)
theory My_Query
  imports My_Row
begin

text \<open>
  The buffered query of the MySQL adapter (\<open>ferro-backend-mysql/src/query.rs\<close>) with the state of the connection
  it touches (\<open>conn.rs\<close>) and the session tracker (\<open>tracker.rs\<close>). The driver \<open>mysql_async\<close> is an argument: a
  record of its calls on a world and a driver connection, each with the microseconds it takes, and the accessors
  of a connection. A call that takes the connection by value returns it only where the driver does.
\<close>

subsection \<open>The session tracker\<close>

datatype session_change = SystemVariables "string list" | TransactionState string | IsTracked bool | OtherChange

record ok_packet =
  ok_in_trans :: bool
  ok_state_changed :: bool
  ok_changes :: "session_change list"

record tracker_summary =
  ts_has_sysvar :: bool
  ts_has_nonallowlisted_sysvar :: bool
  ts_has_txstate :: bool
  ts_state_changed_flag :: bool

definition SESSION_MUTATION_ALLOWLIST :: "string list" where
  "SESSION_MUTATION_ALLOWLIST = [''autocommit'']"

definition is_allowlisted_var :: "string \<Rightarrow> bool" where
  "is_allowlisted_var name \<longleftrightarrow>
     list_ex (\<lambda>allowed. to_ascii_lowercase allowed = to_ascii_lowercase name) SESSION_MUTATION_ALLOWLIST"

definition tx_status_from_ok :: "ok_packet option \<Rightarrow> tx_status" where
  "tx_status_from_ok ok = (case ok of Some p \<Rightarrow> if ok_in_trans p then InTx else Idle | None \<Rightarrow> Idle)"

definition is_mutation :: "tracker_summary \<Rightarrow> bool" where
  "is_mutation s \<longleftrightarrow>
     ts_has_nonallowlisted_sysvar s \<or> ts_state_changed_flag s \<and> \<not> ts_has_sysvar s \<and> \<not> ts_has_txstate s"

fun note_change :: "session_change \<Rightarrow> tracker_summary \<Rightarrow> tracker_summary" where
  "note_change (SystemVariables vars) s =
     (let s = s\<lparr>ts_has_sysvar := True\<rparr> in
      if list_ex (\<lambda>v. \<not> is_allowlisted_var v) vars then s\<lparr>ts_has_nonallowlisted_sysvar := True\<rparr> else s)"
| "note_change (TransactionState _) s = s\<lparr>ts_has_txstate := True\<rparr>"
| "note_change (IsTracked _) s = s"
| "note_change OtherChange s = s"

definition summarize :: "session_change list \<Rightarrow> bool \<Rightarrow> tracker_summary" where
  "summarize changes flag =
     fold note_change changes
       \<lparr>ts_has_sysvar = False, ts_has_nonallowlisted_sysvar = False, ts_has_txstate = False, ts_state_changed_flag = flag\<rparr>"

definition ok_reports_session_mutation :: "ok_packet option \<Rightarrow> bool" where
  "ok_reports_session_mutation ok =
     (case ok of None \<Rightarrow> False | Some p \<Rightarrow> is_mutation (summarize (ok_changes p) (ok_state_changed p)))"

text \<open>The rule the module's table states, over the whole packet at once.\<close>

definition real_mutation :: "ok_packet \<Rightarrow> bool" where
  "real_mutation p \<longleftrightarrow>
     (\<exists>vars \<in> {vars. SystemVariables vars \<in> set (ok_changes p)}. \<exists>v \<in> set vars. to_ascii_lowercase v \<noteq> ''autocommit'') \<or>
     ok_state_changed p \<and> (\<forall>c \<in> set (ok_changes p). case c of SystemVariables _ \<Rightarrow> False | TransactionState _ \<Rightarrow> False | _ \<Rightarrow> True)"

fun is_sysvar :: "session_change \<Rightarrow> bool" where
  "is_sysvar (SystemVariables vars) = True"
| "is_sysvar _ = False"

fun is_txstate :: "session_change \<Rightarrow> bool" where
  "is_txstate (TransactionState x) = True"
| "is_txstate _ = False"

fun names_foreign_var :: "session_change \<Rightarrow> bool" where
  "names_foreign_var (SystemVariables vars) = list_ex (\<lambda>v. \<not> is_allowlisted_var v) vars"
| "names_foreign_var _ = False"

lemma fold_note_change:
  "fold note_change cs s =
     s\<lparr>ts_has_sysvar := (ts_has_sysvar s \<or> list_ex is_sysvar cs),
       ts_has_nonallowlisted_sysvar := (ts_has_nonallowlisted_sysvar s \<or> list_ex names_foreign_var cs),
       ts_has_txstate := (ts_has_txstate s \<or> list_ex is_txstate cs)\<rparr>"
proof (induction cs arbitrary: s)
  case (Cons c cs)
  then show ?case by (cases c) (simp_all add: Let_def)
qed simp

lemma allowlisted_iff: "is_allowlisted_var v \<longleftrightarrow> to_ascii_lowercase v = ''autocommit''"
proof -
  have "to_ascii_lowercase ''autocommit'' = ''autocommit''" by code_simp
  then show ?thesis by (auto simp: is_allowlisted_var_def SESSION_MUTATION_ALLOWLIST_def)
qed

lemma mutation_iff_real: "ok_reports_session_mutation (Some p) \<longleftrightarrow> real_mutation p"
proof -
  have foreign: "list_ex names_foreign_var cs \<longleftrightarrow>
      (\<exists>vars \<in> {vars. SystemVariables vars \<in> set cs}. \<exists>v \<in> set vars. to_ascii_lowercase v \<noteq> ''autocommit'')" for cs
    by (induction cs rule: list.induct) (auto simp: list_ex_iff allowlisted_iff elim!: names_foreign_var.elims)
  have quiet: "\<not> list_ex is_sysvar cs \<and> \<not> list_ex is_txstate cs \<longleftrightarrow>
      (\<forall>c \<in> set cs. case c of SystemVariables _ \<Rightarrow> False | TransactionState _ \<Rightarrow> False | _ \<Rightarrow> True)" for cs
  proof (induction cs)
    case (Cons c cs)
    then show ?case by (cases c) auto
  qed simp
  show ?thesis
    unfolding ok_reports_session_mutation_def real_mutation_def is_mutation_def summarize_def fold_note_change option.case
    using foreign [of "ok_changes p"] quiet [of "ok_changes p"] by simp
qed

subsection \<open>The query\<close>

record my_drained =
  dr_columns :: "my_column list option"
  dr_rows :: "my_value list list"
  dr_affected :: "64 word"
  dr_last_insert_id :: "64 word option"

type_synonym ('w, 'd, 'a) call = "'w \<Rightarrow> 'd \<Rightarrow> nat \<times> 'w \<times> (mysql_error + 'a) \<times> 'd"

record ('w, 'd, 'q, 's) mysql_async =
  ma_new :: "'w \<Rightarrow> nat \<times> 'w \<times> (mysql_error + 'd)"
  ma_id :: "'d \<Rightarrow> 32 word"
  ma_ok :: "'d \<Rightarrow> ok_packet option"
  ma_affected :: "'d \<Rightarrow> 64 word"
  ma_last_insert_id :: "'d \<Rightarrow> 64 word option"
  ma_disconnected :: "'d \<Rightarrow> bool"
  ma_ping :: "('w, 'd, unit) call"
  ma_reset :: "('w, 'd, unit) call"
  ma_query_drop :: "string \<Rightarrow> ('w, 'd, unit) call"
  ma_prep :: "string \<Rightarrow> ('w, 'd, my_column list \<times> nat) call"
  ma_drain :: "string \<Rightarrow> my_params \<Rightarrow> ('w, 'd, my_drained) call"
  ma_run :: "string \<Rightarrow> my_params \<Rightarrow> 'w \<Rightarrow> 'd \<Rightarrow> nat \<times> 'w \<times> (mysql_error + 'q)"
  ma_columns :: "'q \<Rightarrow> my_column list"
  ma_into_conn :: "'q \<Rightarrow> 'w \<Rightarrow> nat \<times> 'w \<times> (mysql_error + 'd)"
  ma_stream_and_drop :: "'q \<Rightarrow> 'w \<Rightarrow> nat \<times> 'w \<times> (mysql_error + 's option)"
  ma_next :: "'s \<Rightarrow> 'w \<Rightarrow> nat \<times> 'w \<times> (mysql_error + my_value list) option \<times> 's"
  ma_stream_into_conn :: "'s \<Rightarrow> 'w \<Rightarrow> nat \<times> 'w \<times> (mysql_error + 'd)"

text \<open>The pooled connection. \<open>mq_mysql\<close> is \<open>None\<close> while the driver's handle is parked in a row stream.\<close>

record 'd my_conn =
  mq_mysql :: "'d option"
  mq_conn_id :: "32 word"
  mq_session_mutated :: bool
  mq_closed :: bool

text \<open>
  \<open>driver_mut\<close> panics on a parked connection. The model has no unwinding: the panic is the distinguished error
  \<open>driver_panic\<close>, which no other operation returns, and nothing of the call happens. In the program the task that made
  the call ends instead, and its caller gets no answer.
\<close>

definition driver_panic :: pool_error where
  "driver_panic = Backend ''MysqlConn::driver_mut on a PARKED conn''"

definition on_driver ::
  "('w \<Rightarrow> 'd \<Rightarrow> 'd my_conn \<Rightarrow> nat \<times> 'w \<times> 'a result \<times> 'd my_conn) \<Rightarrow> 'w \<Rightarrow> 'd my_conn \<Rightarrow> nat \<times> 'w \<times> 'a result \<times> 'd my_conn" where
  "on_driver f w c = (case mq_mysql c of None \<Rightarrow> (0, w, Inl driver_panic, c) | Some d \<Rightarrow> f w d c)"

definition last_ok :: "('w, 'd, 'q, 's) mysql_async \<Rightarrow> 'd my_conn \<Rightarrow> ok_packet option" where
  "last_ok D c = Option.bind (mq_mysql c) (ma_ok D)"

definition map_stmt_error :: "mysql_error \<Rightarrow> 'd my_conn \<Rightarrow> 'd my_conn \<times> pool_error" where
  "map_stmt_error e c = ((if e = MyFatal then c\<lparr>mq_closed := True\<rparr> else c), mysql_map e)"

definition record_session_mutation :: "('w, 'd, 'q, 's) mysql_async \<Rightarrow> 'd my_conn \<Rightarrow> 'd my_conn" where
  "record_session_mutation D c =
     c\<lparr>mq_session_mutated := (mq_session_mutated c \<or> ok_reports_session_mutation (last_ok D c))\<rparr>"

text \<open>A statement that failed in the driver after \<open>t\<close> microseconds.\<close>

definition stmt_failed :: "nat \<Rightarrow> 'w \<Rightarrow> mysql_error \<Rightarrow> 'd my_conn \<Rightarrow> nat \<times> 'w \<times> 'a result \<times> 'd my_conn" where
  "stmt_failed t w e c = (case map_stmt_error e c of (c, e) \<Rightarrow> (t, w, Inl e, c))"

fun build_cols :: "my_column list \<Rightarrow> col_meta list result" where
  "build_cols [] = Inr []"
| "build_cols (col # cols) =
     (case column_to_tag col of
        Inl e \<Rightarrow> Inl e
      | Inr tag \<Rightarrow> map_sum id (\<lambda>ms. \<lparr>cm_name = mc_name col, cm_tag = tag\<rparr> # ms) (build_cols cols))"

fun map_cells :: "my_column list \<Rightarrow> nat \<Rightarrow> my_value list \<Rightarrow> val list result" where
  "map_cells [] idx row = Inr []"
| "map_cells (col # cols) idx row =
     (if length row \<le> idx then Inl (Backend ''row cell index out of range'')
      else
        (case extract_value (row ! idx) col of
           Inl e \<Rightarrow> Inl e
         | Inr v \<Rightarrow> map_sum id (\<lambda>vs. v # vs) (map_cells cols (idx + 1) row)))"

fun map_rows :: "my_column list \<Rightarrow> my_value list list \<Rightarrow> val list list result" where
  "map_rows columns [] = Inr []"
| "map_rows columns (r # rs) =
     (case map_cells columns 0 r of Inl e \<Rightarrow> Inl e | Inr row \<Rightarrow> map_sum id (\<lambda>rows. row # rows) (map_rows columns rs))"

definition check_prepared :: "my_column list \<Rightarrow> col_meta list option result" where
  "check_prepared prepared =
     (if prepared = [] then Inr None
      else
        (case refuse_prepared_null prepared of
           Inl e \<Rightarrow> Inl e
         | Inr _ \<Rightarrow> map_sum id Some (build_cols prepared)))"

definition describe_rows ::
  "my_column list \<Rightarrow> col_meta list option \<Rightarrow> my_column list option \<Rightarrow> (col_meta list \<times> my_column list) result" where
  "describe_rows prepared pre_cols executed =
     (case (if executed = Some [] then None else executed) of
        Some ex \<Rightarrow> map_sum id (\<lambda>cols. (cols, ex)) (build_cols ex)
      | None \<Rightarrow> (case pre_cols of Some cols \<Rightarrow> Inr (cols, prepared) | None \<Rightarrow> Inr ([], [])))"

definition drained_result :: "my_column list \<Rightarrow> col_meta list option \<Rightarrow> my_drained \<Rightarrow> query_result result" where
  "drained_result prepared pre_cols dr =
     (case describe_rows prepared pre_cols (dr_columns dr) of
        Inl e \<Rightarrow> Inl e
      | Inr (cols, columns) \<Rightarrow>
          map_sum id
            (\<lambda>rows. \<lparr>qr_cols = cols, qr_rows = rows, qr_affected = dr_affected dr, qr_last_insert_id = dr_last_insert_id dr\<rparr>)
            (map_rows columns (dr_rows dr)))"

text \<open>What \<open>run\<close> decides before it sends anything, and the execution.\<close>

definition preflight :: "my_column list \<Rightarrow> nat \<Rightarrow> val list \<Rightarrow> (col_meta list option \<times> my_params) result" where
  "preflight prepared num_params params =
     (case check_prepared prepared of
        Inl e \<Rightarrow> Inl e
      | Inr pre_cols \<Rightarrow>
          (case validate_arity params num_params of
             Inl e \<Rightarrow> Inl e
           | Inr _ \<Rightarrow> (case to_params params of Inl e \<Rightarrow> Inl e | Inr bound \<Rightarrow> Inr (pre_cols, bound))))"

definition my_query ::
  "('w, 'd, 'q, 's) mysql_async \<Rightarrow> string \<Rightarrow> val list \<Rightarrow> 'w \<Rightarrow> 'd my_conn \<Rightarrow> nat \<times> 'w \<times> query_result result \<times> 'd my_conn" where
  "my_query D sql params =
     on_driver (\<lambda>w d c.
       case ma_prep D sql w d of
         (t, w, Inl e, d) \<Rightarrow> stmt_failed t w e (c\<lparr>mq_mysql := Some d\<rparr>)
       | (t, w, Inr (prepared, num_params), d) \<Rightarrow>
           (case preflight prepared num_params params of
              Inl e \<Rightarrow> (t, w, Inl e, c\<lparr>mq_mysql := Some d\<rparr>)
            | Inr (pre_cols, bound) \<Rightarrow>
                (case ma_drain D sql bound w d of
                   (t', w, Inl e, d) \<Rightarrow> stmt_failed (t + t') w e (c\<lparr>mq_mysql := Some d\<rparr>)
                 | (t', w, Inr dr, d) \<Rightarrow>
                     (t + t', w, drained_result prepared pre_cols dr, record_session_mutation D (c\<lparr>mq_mysql := Some d\<rparr>)))))"

subsection \<open>Rows keep the promise of the header\<close>

lemma extract_fits: "extract_value v col = Inr x \<Longrightarrow> column_to_tag col = Inr tag \<Longrightarrow> x = VNull \<or> val_tag x = tag"
  using extract_kind_tag by (auto simp: extract_value_def column_to_tag_def map_sum_Inr split: if_splits sum.splits)

lemma build_cols_tags: "build_cols cols = Inr ms \<Longrightarrow> list_all2 (\<lambda>col m. column_to_tag col = Inr (cm_tag m)) cols ms"
  by (induction cols arbitrary: ms) (auto simp: map_sum_Inr split: sum.splits)

lemma map_cells_fits:
  "map_cells cols idx row = Inr vs \<Longrightarrow> list_all2 (\<lambda>col m. column_to_tag col = Inr (cm_tag m)) cols ms \<Longrightarrow> list_all2 cell_fits vs ms"
proof (induction cols arbitrary: idx vs ms)
  case (Cons col cols)
  then show ?case using extract_fits
    by (auto simp: map_sum_Inr cell_fits_def list_all2_Cons1 split: if_splits sum.splits)
qed simp

lemma map_rows_fits:
  "map_rows cols rs = Inr rows \<Longrightarrow> list_all2 (\<lambda>col m. column_to_tag col = Inr (cm_tag m)) cols ms \<Longrightarrow>
    list_all (\<lambda>row. list_all2 cell_fits row ms) rows"
  by (induction rs arbitrary: rows) (auto simp: map_sum_Inr split: sum.splits dest: map_cells_fits)

lemma describe_rows_tags:
  assumes "describe_rows prepared pre ex = Inr (cols, columns)" and "check_prepared prepared = Inr pre"
  shows "list_all2 (\<lambda>col m. column_to_tag col = Inr (cm_tag m)) columns cols"
  using assms build_cols_tags
  by (auto simp: describe_rows_def check_prepared_def map_sum_Inr split: option.splits if_splits sum.splits)

text \<open>
  C17: every row of a buffered MySQL result has one cell per announced column, and each cell is NULL or carries
  exactly the type tag announced for its column.
\<close>

theorem mysql_rows_match_header:
  assumes "my_query D sql params w c = (t, w', Inr r, c')"
  shows "list_all (\<lambda>row. list_all2 cell_fits row (qr_cols r)) (qr_rows r)"
proof -
  from assms obtain prepared n pre bound dr where p: "preflight prepared n params = Inr (pre, bound)" "drained_result prepared pre dr = Inr r"
    by (auto simp: my_query_def on_driver_def stmt_failed_def map_stmt_error_def split: sum.splits prod.splits option.splits)
  from p(1) have cp: "check_prepared prepared = Inr pre" by (auto simp: preflight_def split: sum.splits)
  from p(2) obtain cols columns where "describe_rows prepared pre (dr_columns dr) = Inr (cols, columns)"
    "map_rows columns (dr_rows dr) = Inr (qr_rows r)" "qr_cols r = cols"
    by (auto simp: drained_result_def map_sum_Inr split: sum.splits prod.splits)
  with map_rows_fits describe_rows_tags cp show ?thesis by blast
qed

text \<open>
  A small server for examples. Its connection counts the statements it ran; a statement's one column is an integer
  at prepare and an unsigned bigint when executed; \<open>fails\<close> says how an execution fails.
\<close>

definition demo_ok :: ok_packet where
  "demo_ok = \<lparr>ok_in_trans = False, ok_state_changed = False, ok_changes = []\<rparr>"

definition demo_column :: "column_type \<Rightarrow> my_column" where
  "demo_column ty = \<lparr>mc_name = ''p'', mc_type = ty, mc_unsigned = True, mc_set = False, mc_charset = 63, mc_length = 20\<rparr>"

definition demo_async :: "mysql_error option \<Rightarrow> (unit, nat, nat, nat) mysql_async" where
  "demo_async fails =
     \<lparr>ma_new = \<lambda>w. (0, w, Inr 0), ma_id = \<lambda>_. 7, ma_ok = \<lambda>_. Some demo_ok, ma_affected = \<lambda>_. 0, ma_last_insert_id = \<lambda>_. None,
      ma_disconnected = \<lambda>_. False, ma_ping = \<lambda>w d. (0, w, Inr (), d), ma_reset = \<lambda>w d. (0, w, Inr (), 0),
      ma_query_drop = \<lambda>_ w d. (0, w, Inr (), d + 1), ma_prep = \<lambda>_ w d. (0, w, Inr ([demo_column TypeLong], 1), d),
      ma_drain = \<lambda>_ _ w d. (1, w,
        (case fails of Some e \<Rightarrow> Inl e
         | None \<Rightarrow> Inr \<lparr>dr_columns = Some [demo_column TypeLonglong], dr_rows = [[MyInt 5], [MyNULL]], dr_affected = 0, dr_last_insert_id = None\<rparr>), d + 1),
      ma_run = \<lambda>_ _ w d. (1, w, case fails of Some e \<Rightarrow> Inl e | None \<Rightarrow> Inr (d + 1)), ma_columns = \<lambda>_. [demo_column TypeLonglong],
      ma_into_conn = \<lambda>q w. (0, w, Inr q), ma_stream_and_drop = \<lambda>q w. (0, w, Inr (Some q)), ma_next = \<lambda>s w. (0, w, None, s),
      ma_stream_into_conn = \<lambda>s w. (0, w, Inr s)\<rparr>"

definition demo_my_conn :: "nat my_conn" where
  "demo_my_conn = \<lparr>mq_mysql = Some 0, mq_conn_id = 7, mq_session_mutated = False, mq_closed = False\<rparr>"

lemma demo_query:
  "my_query (demo_async fails) ''SELECT ?'' [VI64 5] () demo_my_conn =
    (case fails of
       Some e \<Rightarrow> (1, (), Inl (mysql_map e), demo_my_conn\<lparr>mq_mysql := Some 1, mq_closed := (e = MyFatal)\<rparr>)
     | None \<Rightarrow>
         (1, (), Inr \<lparr>qr_cols = [\<lparr>cm_name = ''p'', cm_tag = 3\<rparr>], qr_rows = [[VU64 5], [VNull]], qr_affected = 0, qr_last_insert_id = None\<rparr>,
          demo_my_conn\<lparr>mq_mysql := Some 1\<rparr>))"
  by (simp add: my_query_def on_driver_def preflight_def demo_async_def demo_my_conn_def demo_column_def check_prepared_def
      refuse_prepared_null_def column_to_tag_def column_kind_def validate_arity_def to_params_def drained_result_def describe_rows_def
      extract_value_def extract_kind_def as_u64_def u64_of_def record_session_mutation_def ok_reports_session_mutation_def last_ok_def
      demo_ok_def summarize_def is_mutation_def stmt_failed_def map_stmt_error_def split: option.split)

theorem mysql_rows_match_header_witness:
  "list_all (\<lambda>row. list_all2 cell_fits row [\<lparr>cm_name = ''p'', cm_tag = 3\<rparr>]) [[VU64 5], [VNull]]"
  using mysql_rows_match_header [OF demo_query [of None, unfolded option.case]] by simp

subsection \<open>Refusals have a known fate\<close>

lemma value_to_my_errors: "value_to_my v idx = Inl e \<Longrightarrow> \<exists>msg. e = bind_error msg"
  by (cases v) (auto simp: or_reject_def reject_def split: if_splits option.splits)

lemma bind_all_errors: "bind_all idx vs = Inl e \<Longrightarrow> \<exists>msg. e = bind_error msg"
  by (induction vs arbitrary: idx) (auto split: sum.splits dest: value_to_my_errors)

lemma to_params_errors: "to_params vs = Inl e \<Longrightarrow> \<exists>msg. e = bind_error msg"
  unfolding to_params_def by (cases "bind_all 0 vs") (auto dest: bind_all_errors split: if_splits)


lemma unsupported_refusal [intro]: "own_refusal (unsupported col what)" "own_refusal (decode_err col what)"
  by (simp_all add: own_refusal_def unsupported_def decode_err_def)

lemma column_kind_refusal: "column_kind col = Inl e \<Longrightarrow> own_refusal e"
  by (auto simp: column_kind_def split: column_type.splits if_splits)

lemma renderer_refusal:
  assumes "f \<in> {my_decimal_to_text, my_date_to_text, my_time_to_text, my_datetime_to_text, my_timestamptz_to_text, my_json_to_text}"
    and "f v = Inl e"
  shows "\<exists>m. e = Backend m"
proof -
  have "date_parts v what = Inl x \<Longrightarrow> \<exists>m. x = Backend m" for what x by (cases v) (auto simp: date_parts_def)
  moreover have "check_time_of_day h mi s us what = Inl x \<Longrightarrow> \<exists>m. x = Backend m" for h mi s us what x
    by (auto simp: check_time_of_day_def split: if_splits)
  moreover have "bytes_utf8 v what = Inl x \<Longrightarrow> \<exists>m. x = Backend m" for what x
    by (cases v) (auto simp: bytes_utf8_def split: if_splits)
  ultimately show ?thesis using assms
    by (auto simp: my_decimal_to_text_def my_date_to_text_def my_time_to_text_def my_datetime_to_text_def
        my_timestamptz_to_text_def my_json_to_text_def Let_def split: sum.splits if_splits my_value.splits prod.splits)
qed

lemma render_refusal:
  "f \<in> {my_decimal_to_text, my_date_to_text, my_time_to_text, my_datetime_to_text, my_timestamptz_to_text, my_json_to_text} \<Longrightarrow>
    render col v f = Inl e \<Longrightarrow> own_refusal e"
  using renderer_refusal [of f v] by (cases "f v") (auto simp: render_def)

lemma extract_refusal: "extract_value v col = Inl e \<Longrightarrow> own_refusal e"
proof -
  assume a: "extract_value v col = Inl e"
  show ?thesis
  proof (cases "column_kind col")
    case (Inl x)
    with a show ?thesis by (auto simp: extract_value_def split: if_splits intro: column_kind_refusal)
  next
    case (Inr k)
    with a have "extract_kind k v col = Inl e" by (simp add: extract_value_def split: if_splits)
    then show ?thesis
      by (cases k; cases v)
        (auto simp: extract_kind_def map_sum_id_Inl as_i64_def as_u64_def u64_of_def as_f64_def as_bytes_def
          split: if_splits dest: render_refusal [rotated])
  qed
qed

lemma column_to_tag_refusal: "column_to_tag col = Inl e \<Longrightarrow> own_refusal e"
  by (simp add: column_to_tag_def map_sum_id_Inl column_kind_refusal)

lemma build_cols_refusal: "build_cols cols = Inl e \<Longrightarrow> own_refusal e"
  by (induction cols) (auto simp: map_sum_id_Inl split: sum.splits dest: column_to_tag_refusal)

lemma map_cells_refusal: "map_cells cols idx row = Inl e \<Longrightarrow> own_refusal e"
  by (induction cols arbitrary: idx) (auto simp: map_sum_id_Inl own_refusal_def split: sum.splits if_splits dest: extract_refusal)

lemma map_rows_refusal: "map_rows cols rs = Inl e \<Longrightarrow> own_refusal e"
  by (induction rs) (auto simp: map_sum_id_Inl split: sum.splits dest: map_cells_refusal)

lemma drained_refusal: "drained_result prepared pre dr = Inl e \<Longrightarrow> own_refusal e"
  by (auto simp: drained_result_def describe_rows_def map_sum_id_Inl split: sum.splits prod.splits option.splits if_splits
      dest: map_rows_refusal build_cols_refusal)

lemma check_prepared_refusal: "check_prepared prepared = Inl e \<Longrightarrow> own_refusal e"
  by (auto simp: check_prepared_def refuse_prepared_null_def map_sum_id_Inl split: sum.splits option.splits if_splits dest: build_cols_refusal)

lemma preflight_refusal: "preflight prepared n params = Inl e \<Longrightarrow> own_refusal e"
  by (auto simp: preflight_def validate_arity_def own_refusal_def [of "bind_error _"] split: sum.splits if_splits
      dest!: check_prepared_refusal to_params_errors)

lemma preflight_params: "preflight prepared n params = Inr (pre, bound) \<Longrightarrow> n = length params \<and> to_params params = Inr bound"
  by (auto simp: preflight_def validate_arity_def split: sum.splits if_splits)

text \<open>
  C18: a MySQL statement is never reported as possibly executed because of one of the adapter's own refusals. If
  the error of a query is indeterminate for some caller, the driver failed: while preparing, or while executing
  with every parameter bound. A refused parameter or column is refused with a known fate.
\<close>

theorem mysql_refusals_have_known_fate:
  assumes "my_query D sql params w c = (t, w', Inl e, c')" and "ep_branch (classify_fate e ctx) = branch_indeterminate"
  shows "\<exists>d d' t1 w1 me. mq_mysql c = Some d \<and> e = mysql_map me \<and>
    (ma_prep D sql w d = (t1, w1, Inl me, d') \<or>
     (\<exists>t2 w2 d2 prepared bound. ma_prep D sql w d = (t2, w2, Inr (prepared, length params), d2) \<and>
       to_params params = Inr bound \<and> ma_drain D sql bound w2 d2 = (t1, w1, Inl me, d')))"
proof -
  have own: "\<not> own_refusal e" using assms(2) own_refusal_known by blast
  from assms(1) own obtain d where d: "mq_mysql c = Some d"
    by (cases "mq_mysql c") (auto simp: my_query_def on_driver_def driver_panic_def own_refusal_def)
  obtain t1 w1 r d1 where pr: "ma_prep D sql w d = (t1, w1, r, d1)" by (metis prod_cases4)
  show ?thesis
  proof (cases r)
    case (Inl me)
    with assms(1) d pr have "e = mysql_map me"
      by (simp add: my_query_def on_driver_def stmt_failed_def map_stmt_error_def split: if_splits)
    with d pr Inl show ?thesis by blast
  next
    case (Inr pn)
    then obtain prepared n where pn: "pn = (prepared, n)" by fastforce
    with assms(1) d pr Inr own obtain pre bound where f: "preflight prepared n params = Inr (pre, bound)"
      by (cases "preflight prepared n params") (auto simp: my_query_def on_driver_def dest: preflight_refusal)
    obtain t2 w2 x d2 where dr: "ma_drain D sql bound w1 d1 = (t2, w2, x, d2)" by (metis prod_cases4)
    with assms(1) d pr Inr pn f own obtain me where "x = Inl me" "e = mysql_map me"
      by (cases x) (auto simp: my_query_def on_driver_def stmt_failed_def map_stmt_error_def split: if_splits dest: drained_refusal)
    with preflight_params [OF f] d pr Inr pn dr show ?thesis by (intro exI conjI disjI2) auto
  qed
qed

theorem mysql_refusals_have_known_fate_witness:
  "\<exists>d d' t1 w1 me. mq_mysql demo_my_conn = Some d \<and> ConnectionLost = mysql_map me \<and>
    (ma_prep (demo_async (Some MyFatal)) ''SELECT ?'' () d = (t1, w1, Inl me, d') \<or>
     (\<exists>t2 w2 d2 prepared bound. ma_prep (demo_async (Some MyFatal)) ''SELECT ?'' () d = (t2, w2, Inr (prepared, length [VI64 5]), d2) \<and>
       to_params [VI64 5] = Inr bound \<and> ma_drain (demo_async (Some MyFatal)) ''SELECT ?'' bound w2 d2 = (t1, w1, Inl me, d')))"
proof -
  have q: "my_query (demo_async (Some MyFatal)) ''SELECT ?'' [VI64 5] () demo_my_conn =
      (1, (), Inl ConnectionLost, demo_my_conn\<lparr>mq_mysql := Some 1, mq_closed := True\<rparr>)"
    by (simp add: demo_query mysql_map_def)
  have b: "ep_branch (classify_fate ConnectionLost \<lparr>oc_readonly = False, oc_sent = True, oc_in_tx = False\<rparr>) = branch_indeterminate"
    by (simp add: classify_fate_def is_57014_def payload_def branch_indeterminate_def)
  from mysql_refusals_have_known_fate [OF q b] show ?thesis .
qed

end
