(* ===== verification/My_Stream.thy ===== *)
theory My_Stream
  imports My_Query Fake
begin

text \<open>
  The MySQL backend (\<open>ferro-backend-mysql/src/conn.rs\<close>, \<open>stream.rs\<close>): streaming takes the driver's handle out of the
  pooled connection and puts it back when the stream is reclaimed. The backend is an instance of the pool's
  backend record; over a driver that keeps its documented promises it keeps the contract of \<open>Pool_Contract\<close>.
\<close>

subsection \<open>The connection\<close>

definition is_parked :: "'d my_conn \<Rightarrow> bool" where
  "is_parked c \<longleftrightarrow> mq_mysql c = None"

definition unpark :: "'d \<Rightarrow> 'd my_conn \<Rightarrow> 'd my_conn" where
  "unpark d c = c\<lparr>mq_mysql := Some d\<rparr>"

definition my_connect :: "('w, 'd, 'q, 's) mysql_async \<Rightarrow> 'w \<Rightarrow> nat \<times> 'w \<times> 'd my_conn result" where
  "my_connect D w =
     (case ma_new D w of
        (t, w, Inl _) \<Rightarrow> (t, w, Inl ConnectionLost)
      | (t, w, Inr d) \<Rightarrow>
          (t, w, Inr \<lparr>mq_mysql = Some d, mq_conn_id = ma_id D d, mq_session_mutated = False, mq_closed = False\<rparr>))"

definition my_ping :: "('w, 'd, 'q, 's) mysql_async \<Rightarrow> ('w, 'd my_conn, unit result) async" where
  "my_ping D =
     on_driver (\<lambda>w d c.
       case ma_ping D w d of
         (t, w, Inl _, d) \<Rightarrow> (t, w, Inl ConnectionLost, c\<lparr>mq_mysql := Some d, mq_closed := True\<rparr>)
       | (t, w, Inr _, d) \<Rightarrow> (t, w, Inr (), c\<lparr>mq_mysql := Some d\<rparr>))"

definition my_is_closed :: "('w, 'd, 'q, 's) mysql_async \<Rightarrow> 'd my_conn \<Rightarrow> bool" where
  "my_is_closed D c = (case mq_mysql c of None \<Rightarrow> True | Some d \<Rightarrow> mq_closed c \<or> ma_disconnected D d)"

definition my_tx_status :: "('w, 'd, 'q, 's) mysql_async \<Rightarrow> 'd my_conn \<Rightarrow> tx_status" where
  "my_tx_status D c = (case mq_mysql c of Some d \<Rightarrow> tx_status_from_ok (ma_ok D d) | None \<Rightarrow> Failed)"

definition my_take_session_mutated :: "'d my_conn \<Rightarrow> bool \<times> 'd my_conn" where
  "my_take_session_mutated c = (mq_session_mutated c, c\<lparr>mq_session_mutated := False\<rparr>)"

definition my_reset :: "('w, 'd, 'q, 's) mysql_async \<Rightarrow> reset_profile \<Rightarrow> ('w, 'd my_conn, unit result) async" where
  "my_reset D profile =
     on_driver (\<lambda>w d c.
       case ma_reset D w d of
         (t, w, Inr _, d) \<Rightarrow> (t, w, Inr (), c\<lparr>mq_mysql := Some d, mq_session_mutated := False\<rparr>)
       | (t, w, Inl _, d) \<Rightarrow> (t, w, Inl ConnectionLost, c\<lparr>mq_mysql := Some d, mq_closed := True\<rparr>))"

definition my_simple_query :: "('w, 'd, 'q, 's) mysql_async \<Rightarrow> string \<Rightarrow> ('w, 'd my_conn, 64 word result) async" where
  "my_simple_query D sql =
     on_driver (\<lambda>w d c.
       case ma_query_drop D sql w d of
         (t, w, Inr _, d) \<Rightarrow> (t, w, Inr (ma_affected D d), record_session_mutation D (c\<lparr>mq_mysql := Some d\<rparr>))
       | (t, w, Inl e, d) \<Rightarrow> stmt_failed t w e (c\<lparr>mq_mysql := Some d\<rparr>))"

subsection \<open>Streams\<close>

datatype 's my_row_stream =
    StreamRows 's "my_column list" bool
  | NoRows "64 word" "64 word option"

definition my_next ::
  "('w, 'd, 'q, 's) mysql_async \<Rightarrow> 'w \<Rightarrow> 'd my_conn \<Rightarrow> 's my_row_stream \<Rightarrow>
   nat \<times> 'w \<times> val list result option \<times> 'd my_conn \<times> 's my_row_stream" where
  "my_next D w c rs =
     (case rs of
        NoRows _ _ \<Rightarrow> (0, w, None, c, rs)
      | StreamRows s columns done \<Rightarrow>
          if done then (0, w, None, c, rs)
          else
            (case ma_next D s w of
               (t, w, Some (Inr row), s) \<Rightarrow>
                 (case map_cells columns 0 row of
                    Inr out \<Rightarrow> (t, w, Some (Inr out), c, StreamRows s columns False)
                  | Inl e \<Rightarrow> (t, w, Some (Inl e), c, StreamRows s columns True))
             | (t, w, Some (Inl e), s) \<Rightarrow> (t, w, Some (Inl (mysql_map e)), c, StreamRows s columns True)
             | (t, w, None, s) \<Rightarrow> (t, w, None, c, StreamRows s columns True)))"

text \<open>The executed columns are refused: the statement has run, so the connection is taken back first.\<close>

definition refuse_executed ::
  "('w, 'd, 'q, 's) mysql_async \<Rightarrow> nat \<Rightarrow> pool_error \<Rightarrow> 'q \<Rightarrow> 'w \<Rightarrow> 'd my_conn \<Rightarrow> nat \<times> 'w \<times> 'a result \<times> 'd my_conn" where
  "refuse_executed D t e q w c =
     (case ma_into_conn D q w of
        (t', w, Inr d) \<Rightarrow> (t + t', w, Inl e, record_session_mutation D (unpark d c))
      | (t', w, Inl drain) \<Rightarrow> (t + t', w, Inl (mysql_map drain), c))"

definition start_rows ::
  "('w, 'd, 'q, 's) mysql_async \<Rightarrow> nat \<Rightarrow> string \<Rightarrow> col_meta list \<Rightarrow> my_column list \<Rightarrow> 'q \<Rightarrow> 'w \<Rightarrow> 'd my_conn \<Rightarrow>
   nat \<times> 'w \<times> (col_meta list \<times> 's my_row_stream) result \<times> 'd my_conn" where
  "start_rows D t msg cols columns q w c =
     (case ma_stream_and_drop D q w of
        (t', w, Inr (Some s)) \<Rightarrow> (t + t', w, Inr (cols, StreamRows s columns False), c)
      | (t', w, Inr None) \<Rightarrow> (t + t', w, Inl (Backend msg), c)
      | (t', w, Inl e) \<Rightarrow> stmt_failed (t + t') w e c)"

text \<open>The prepared statement declares no column: a statement without a result set, or a \<open>CALL\<close>.\<close>

definition open_unprepared ::
  "('w, 'd, 'q, 's) mysql_async \<Rightarrow> nat \<Rightarrow> col_meta list \<Rightarrow> 'q \<Rightarrow> 'w \<Rightarrow> 'd my_conn \<Rightarrow>
   nat \<times> 'w \<times> (col_meta list \<times> 's my_row_stream) result \<times> 'd my_conn" where
  "open_unprepared D t cols q w c =
     (let executed = ma_columns D q in
      if executed = [] then
        (case ma_into_conn D q w of
           (t', w, Inl e) \<Rightarrow> (t + t', w, Inl (mysql_map e), c)
         | (t', w, Inr d) \<Rightarrow>
             (t + t', w, Inr (cols, NoRows (ma_affected D d) (ma_last_insert_id D d)), record_session_mutation D (unpark d c)))
      else
        (case build_cols executed of
           Inl e \<Rightarrow> refuse_executed D t e q w c
         | Inr call_cols \<Rightarrow> start_rows D t ''EXECUTED metadata declared result columns'' call_cols executed q w c))"

definition open_prepared ::
  "('w, 'd, 'q, 's) mysql_async \<Rightarrow> nat \<Rightarrow> col_meta list \<Rightarrow> my_column list \<Rightarrow> 'q \<Rightarrow> 'w \<Rightarrow> 'd my_conn \<Rightarrow>
   nat \<times> 'w \<times> (col_meta list \<times> 's my_row_stream) result \<times> 'd my_conn" where
  "open_prepared D t cols columns q w c =
     (let executed = ma_columns D q; msg = ''prepared metadata declared result columns'' in
      if executed = [] then start_rows D t msg cols columns q w c
      else
        (case build_cols executed of
           Inl e \<Rightarrow> refuse_executed D t e q w c
         | Inr cols \<Rightarrow> start_rows D t msg cols executed q w c))"

definition stream_preflight :: "my_column list \<Rightarrow> nat \<Rightarrow> val list \<Rightarrow> (col_meta list \<times> my_params) result" where
  "stream_preflight columns num_params params =
     (case refuse_prepared_null columns of
        Inl e \<Rightarrow> Inl e
      | Inr _ \<Rightarrow>
          (case build_cols columns of
             Inl e \<Rightarrow> Inl e
           | Inr cols \<Rightarrow>
               (case validate_arity params num_params of
                  Inl e \<Rightarrow> Inl e
                | Inr _ \<Rightarrow> (case to_params params of Inl e \<Rightarrow> Inl e | Inr bound \<Rightarrow> Inr (cols, bound)))))"

text \<open>\<open>open\<close>. The handle is parked before the statement runs; a statement that fails to run consumes it.\<close>

definition my_open ::
  "('w, 'd, 'q, 's) mysql_async \<Rightarrow> string \<Rightarrow> val list \<Rightarrow> ('w, 'd my_conn, (col_meta list \<times> 's my_row_stream) result) async" where
  "my_open D sql params =
     on_driver (\<lambda>w d c.
       case ma_prep D sql w d of
         (t, w, Inl e, d) \<Rightarrow> stmt_failed t w e (c\<lparr>mq_mysql := Some d\<rparr>)
       | (t, w, Inr (columns, num_params), d) \<Rightarrow>
           (case stream_preflight columns num_params params of
              Inl e \<Rightarrow> (t, w, Inl e, c\<lparr>mq_mysql := Some d\<rparr>)
            | Inr (cols, bound) \<Rightarrow>
                (let c = c\<lparr>mq_mysql := None\<rparr> in
                 case ma_run D sql bound w d of
                   (t', w, Inl e) \<Rightarrow> stmt_failed (t + t') w e c
                 | (t', w, Inr q) \<Rightarrow>
                     if columns = [] then open_unprepared D (t + t') cols q w c
                     else open_prepared D (t + t') cols columns q w c)))"

definition my_reclaim ::
  "('w, 'd, 'q, 's) mysql_async \<Rightarrow> 's my_row_stream \<Rightarrow> ('w, 'd my_conn, reclaimed result) async" where
  "my_reclaim D rs w c =
     (case rs of
        NoRows affected last_insert_id \<Rightarrow> (0, w, Inr \<lparr>rc_affected = affected, rc_last_insert_id = last_insert_id\<rparr>, c)
      | StreamRows s _ _ \<Rightarrow>
          (case ma_stream_into_conn D s w of
             (t, w, Inl e) \<Rightarrow> (t, w, Inl (mysql_map e), c)
           | (t, w, Inr d) \<Rightarrow>
               (t, w, Inr \<lparr>rc_affected = ma_affected D d, rc_last_insert_id = ma_last_insert_id D d\<rparr>,
                record_session_mutation D (unpark d c))))"

definition mysql_backend :: "('w, 'd, 'q, 's) mysql_async \<Rightarrow> ('w, 'd my_conn, 's my_row_stream, unit, unit) backend" where
  "mysql_backend D =
     \<lparr>be_connect = my_connect D, be_ping = my_ping D, be_is_closed = my_is_closed D, be_dialect = MySql,
      be_tx_status = my_tx_status D, be_take_session_mutated = my_take_session_mutated,
      be_apply_readonly = apply_readonly_default, be_supports_copy = False,
      be_clean_reset_profile = Some Full, be_reset = my_reset D, be_simple_query = my_simple_query D,
      be_query = my_query D, be_query_stream = my_open D, be_row_next = my_next D,
      be_reclaim_stream = my_reclaim D, be_copy_in = copy_default,
      be_sink_send = \<lambda>chunk w c s. (0, w, Inl (Unsupported CopyNotSupported), c, s),
      be_sink_finish = \<lambda>s w c. (0, w, Inl (Unsupported CopyNotSupported), c),
      be_sink_abort = \<lambda>s w c. (0, w, Inl (Unsupported CopyNotSupported), c),
      be_copy_out = copy_default,
      be_copy_next = \<lambda>w c s. (0, w, None, c, s),
      be_copy_rows_affected = \<lambda>s. 0\<rparr>"

subsection \<open>What the driver promises\<close>

text \<open>
  A view of the server through the driver: whether a connection is in step with the protocol, out of transactions,
  what earlier statements may have left in its session (\<open>sv_residue\<close>), and which running statement or row stream came
  from which connection. \<open>settled\<close> says what is known of a connection after a statement on it was answered: an OK packet
  is there, a packet without the transaction flag means that no transaction is open, and a statement whose packet reports
  no change adds at most itself, as unreported, to what is left in the session. Of a statement whose packet reports a
  change nothing is said. The laws are hypotheses about the driver and the server, which are not part of this repository.
\<close>

record ('d, 'q, 's) server_view =
  sv_step :: "'d \<Rightarrow> bool"
  sv_no_tx :: "'d \<Rightarrow> bool"
  sv_residue :: "'d \<Rightarrow> (string \<times> bool) set"
  sv_ran :: "'d \<Rightarrow> string \<Rightarrow> 'q \<Rightarrow> bool"
  sv_flowing :: "'d \<Rightarrow> string \<Rightarrow> 's \<Rightarrow> bool"

definition settled ::
  "('w, 'd, 'q, 's) mysql_async \<Rightarrow> ('d, 'q, 's) server_view \<Rightarrow> string \<Rightarrow> 'd \<Rightarrow> 'd \<Rightarrow> bool" where
  "settled D V sql d0 d \<longleftrightarrow>
     sv_step V d \<and> (\<exists>p. ma_ok D d = Some p \<and> (\<not> ok_in_trans p \<longrightarrow> sv_no_tx V d)) \<and>
     (\<not> ok_reports_session_mutation (ma_ok D d) \<longrightarrow> sv_residue V d \<subseteq> insert (sql, False) (sv_residue V d0))"

definition session_laws :: "('w, 'd, 'q, 's) mysql_async \<Rightarrow> ('d, 'q, 's) server_view \<Rightarrow> bool" where
  "session_laws D V \<longleftrightarrow>
     (\<forall>w t w' d. ma_new D w = (t, w', Inr d) \<longrightarrow> sv_step V d \<and> sv_no_tx V d \<and> sv_residue V d = {}) \<and>
     (\<forall>w d t w' u d'. ma_ping D w d = (t, w', Inr u, d') \<longrightarrow>
        sv_step V d' = sv_step V d \<and> sv_no_tx V d' = sv_no_tx V d \<and> sv_residue V d' = sv_residue V d) \<and>
     (\<forall>w d t w' u d'. sv_step V d \<longrightarrow> sv_no_tx V d \<longrightarrow> ma_reset D w d = (t, w', Inr u, d') \<longrightarrow>
        sv_step V d' \<and> sv_no_tx V d' \<and> sv_residue V d' = {})"

definition text_laws :: "('w, 'd, 'q, 's) mysql_async \<Rightarrow> ('d, 'q, 's) server_view \<Rightarrow> bool" where
  "text_laws D V \<longleftrightarrow>
     (\<forall>sql w d t w' r d'. sv_step V d \<longrightarrow> ma_query_drop D sql w d = (t, w', r, d') \<longrightarrow>
        sv_step V d' \<and> (\<not> isl r \<longrightarrow> settled D V sql d d')) \<and>
     (\<forall>w d t w' r d'. sv_step V d \<longrightarrow> ma_query_drop D ''ROLLBACK'' w d = (t, w', r, d') \<longrightarrow>
        (isl r \<and> \<not> sv_no_tx V d \<or> sv_no_tx V d') \<and> (\<not> isl r \<longrightarrow> sv_residue V d' \<subseteq> sv_residue V d))"

definition statement_laws :: "('w, 'd, 'q, 's) mysql_async \<Rightarrow> ('d, 'q, 's) server_view \<Rightarrow> bool" where
  "statement_laws D V \<longleftrightarrow>
     (\<forall>sql w d t w' r d'. ma_prep D sql w d = (t, w', r, d') \<longrightarrow>
        (sv_step V d \<longrightarrow> sv_step V d') \<and> sv_residue V d' \<subseteq> sv_residue V d) \<and>
     (\<forall>sql bound w d t w' r d'. sv_step V d \<longrightarrow> ma_drain D sql bound w d = (t, w', r, d') \<longrightarrow>
        sv_step V d' \<and> (\<not> isl r \<longrightarrow> settled D V sql d d'))"

definition owned_laws :: "('w, 'd, 'q, 's) mysql_async \<Rightarrow> ('d, 'q, 's) server_view \<Rightarrow> bool" where
  "owned_laws D V \<longleftrightarrow>
     (\<forall>sql bound w d t w' q. sv_step V d \<longrightarrow> ma_run D sql bound w d = (t, w', Inr q) \<longrightarrow> sv_ran V d sql q) \<and>
     (\<forall>d sql q w t w' d'. sv_ran V d sql q \<longrightarrow> ma_into_conn D q w = (t, w', Inr d') \<longrightarrow>
        settled D V sql d d') \<and>
     (\<forall>d sql q w t w' s. sv_ran V d sql q \<longrightarrow> ma_stream_and_drop D q w = (t, w', Inr (Some s)) \<longrightarrow> sv_flowing V d sql s) \<and>
     (\<forall>d sql s w t w' x s'. sv_flowing V d sql s \<longrightarrow> ma_next D s w = (t, w', x, s') \<longrightarrow> sv_flowing V d sql s') \<and>
     (\<forall>d sql s w t w' d'. sv_flowing V d sql s \<longrightarrow> ma_stream_into_conn D s w = (t, w', Inr d') \<longrightarrow>
        settled D V sql d d')"

definition driver_laws :: "('w, 'd, 'q, 's) mysql_async \<Rightarrow> ('d, 'q, 's) server_view \<Rightarrow> bool" where
  "driver_laws D V \<longleftrightarrow> session_laws D V \<and> text_laws D V \<and> statement_laws D V \<and> owned_laws D V"

lemma law_session:
  assumes "driver_laws D V"
  shows law_new: "ma_new D w = (t, w', Inr d) \<Longrightarrow> sv_step V d \<and> sv_no_tx V d \<and> sv_residue V d = {}"
    and law_ping: "ma_ping D w d = (t, w', Inr u, d') \<Longrightarrow>
      sv_step V d' = sv_step V d \<and> sv_no_tx V d' = sv_no_tx V d \<and> sv_residue V d' = sv_residue V d"
    and law_reset: "sv_step V d \<Longrightarrow> sv_no_tx V d \<Longrightarrow> ma_reset D w d = (t, w', Inr u, d') \<Longrightarrow>
      sv_step V d' \<and> sv_no_tx V d' \<and> sv_residue V d' = {}"
  using assms unfolding driver_laws_def session_laws_def by metis+

lemma law_statement:
  assumes "driver_laws D V" and "sv_step V d"
  shows law_text: "ma_query_drop D sql w d = (t, w', r1, d') \<Longrightarrow>
      sv_step V d' \<and> (\<not> isl r1 \<longrightarrow> settled D V sql d d')"
    and law_rollback: "ma_query_drop D ''ROLLBACK'' w d = (t, w', r1, d') \<Longrightarrow>
      (isl r1 \<and> \<not> sv_no_tx V d \<or> sv_no_tx V d') \<and> (\<not> isl r1 \<longrightarrow> sv_residue V d' \<subseteq> sv_residue V d)"
    and law_drain: "ma_drain D sql bound w d = (t, w', r2, d') \<Longrightarrow>
      sv_step V d' \<and> (\<not> isl r2 \<longrightarrow> settled D V sql d d')"
    and law_run: "ma_run D sql bound w d = (t, w', Inr q) \<Longrightarrow> sv_ran V d sql q"
  using assms unfolding driver_laws_def text_laws_def statement_laws_def owned_laws_def by metis+

lemma law_owned:
  assumes "driver_laws D V"
  shows law_prep: "ma_prep D sql w d = (t, w', r, d') \<Longrightarrow> (sv_step V d \<longrightarrow> sv_step V d') \<and> sv_residue V d' \<subseteq> sv_residue V d"
    and law_into_conn: "sv_ran V d sql q \<Longrightarrow> ma_into_conn D q w = (t, w', Inr d') \<Longrightarrow>
      settled D V sql d d'"
    and law_stream: "sv_ran V d sql q \<Longrightarrow> ma_stream_and_drop D q w = (t, w', Inr (Some s)) \<Longrightarrow> sv_flowing V d sql s"
    and law_next: "sv_flowing V d sql s \<Longrightarrow> ma_next D s w = (t, w', x, s') \<Longrightarrow> sv_flowing V d sql s'"
    and law_stream_into_conn: "sv_flowing V d sql s \<Longrightarrow> ma_stream_into_conn D s w = (t, w', Inr d') \<Longrightarrow>
      settled D V sql d d'"
  using assms unfolding driver_laws_def statement_laws_def owned_laws_def by metis+

subsection \<open>The backend keeps the pool's contract\<close>

definition my_in_step :: "('d, 'q, 's) server_view \<Rightarrow> 'd my_conn \<Rightarrow> bool" where
  "my_in_step V c \<longleftrightarrow> pred_option (sv_step V) (mq_mysql c)"

definition my_no_tx :: "('d, 'q, 's) server_view \<Rightarrow> 'd my_conn \<Rightarrow> bool" where
  "my_no_tx V c \<longleftrightarrow> (\<exists>d. mq_mysql c = Some d \<and> sv_no_tx V d)"

definition my_residue :: "('d, 'q, 's) server_view \<Rightarrow> 'd my_conn \<Rightarrow> (string \<times> bool) set" where
  "my_residue V c = (case mq_mysql c of None \<Rightarrow> {} | Some d \<Rightarrow> sv_residue V d)"

text \<open>A row stream that came from \<open>c0\<close> and whose handle is parked in it; without rows the connection is back already.\<close>

definition my_owned :: "('d, 'q, 's) server_view \<Rightarrow> 'd my_conn \<Rightarrow> string \<Rightarrow> 'd my_conn \<Rightarrow> 's \<Rightarrow> bool" where
  "my_owned V c0 sql c s \<longleftrightarrow> is_parked c \<and> (\<exists>d. sv_flowing V d sql s \<and> sv_residue V d \<subseteq> my_residue V c0)"

definition my_answered ::
  "('w, 'd, 'q, 's) mysql_async \<Rightarrow> ('d, 'q, 's) server_view \<Rightarrow> string \<Rightarrow> 'd my_conn \<Rightarrow> 'd my_conn \<Rightarrow> bool" where
  "my_answered D V sql c0 c \<longleftrightarrow>
     (\<exists>d0 d. mq_mysql c = Some d \<and> settled D V sql d0 d \<and> sv_residue V d0 \<subseteq> my_residue V c0 \<and>
        (ok_reports_session_mutation (ma_ok D d) \<longrightarrow> mq_session_mutated c))"

definition my_rows :: "('w, 'd, 'q, 's) mysql_async \<Rightarrow> ('d, 'q, 's) server_view \<Rightarrow> (bool \<Rightarrow> bool) \<Rightarrow>
    'd my_conn \<Rightarrow> string \<Rightarrow> 'd my_conn \<Rightarrow> 's my_row_stream \<Rightarrow> bool" where
  "my_rows D V P c0 sql c rs \<longleftrightarrow>
     (case rs of
        StreamRows s _ done \<Rightarrow> P done \<and> my_owned V c0 sql c s
      | NoRows _ _ \<Rightarrow> my_answered D V sql c0 c)"

definition my_broken :: "('d, 'q, 's) server_view \<Rightarrow> 'd my_conn \<Rightarrow> 's my_row_stream \<Rightarrow> bool" where
  "my_broken V c rs \<longleftrightarrow> (\<exists>s columns d sql. rs = StreamRows s columns True \<and> is_parked c \<and> sv_flowing V d sql s)"

lemma my_rows_pull:
  assumes "driver_laws D V"
  shows "pull_stream (my_next D) (my_rows D V Not) (my_rows D V id) (my_broken V) (my_broken V)"
proof -
  note [dest] = law_next [OF assms]
  show ?thesis
    by unfold_locales
      (auto simp: my_next_def my_rows_def my_broken_def my_owned_def
        split: my_row_stream.splits if_splits prod.splits option.splits sum.splits)
qed

lemma answered_facts:
  assumes "my_answered D V sql c0 c"
  shows "my_in_step V c" "my_tx_status D c = Idle \<Longrightarrow> my_no_tx V c"
    "\<not> mq_session_mutated c \<Longrightarrow> my_residue V c \<subseteq> insert (sql, False) (my_residue V c0)"
  using assms
  by (auto simp: my_answered_def settled_def my_in_step_def my_no_tx_def my_residue_def my_tx_status_def tx_status_from_ok_def
      split: if_splits)

lemma recorded_answered:
  assumes "settled D V sql d0 d" "sv_residue V d0 \<subseteq> my_residue V c0" "mq_mysql c = Some d"
  shows "my_answered D V sql c0 (record_session_mutation D c)"
  using assms by (auto simp: my_answered_def record_session_mutation_def last_ok_def)

lemma stmt_failed_driver:
  "stmt_failed t w e c = (t', w', r, c') \<Longrightarrow> isl r \<and> mq_mysql c' = mq_mysql c"
  by (auto simp: stmt_failed_def map_stmt_error_def)

lemma my_simple_query_after:
  assumes L: "driver_laws D V" and c: "my_in_step V c" and q: "my_simple_query D sql w c = (t, w', r, c')"
  shows "my_in_step V c'" and "\<not> isl r \<Longrightarrow> my_answered D V sql c c'"
proof -
  have "my_in_step V c' \<and> (\<not> isl r \<longrightarrow> my_answered D V sql c c')"
  proof (cases "mq_mysql c")
    case None
    with q c show ?thesis by (auto simp: my_simple_query_def on_driver_def)
  next
    case (Some d)
    obtain t1 w1 r1 d1 where k: "ma_query_drop D sql w d = (t1, w1, r1, d1)" by (metis prod_cases4)
    have step: "sv_step V d" using c Some by (simp add: my_in_step_def)
    note l = law_text [OF L step k]
    show ?thesis
    proof (cases r1)
      case (Inl e)
      with q Some k have "stmt_failed t1 w1 e (c\<lparr>mq_mysql := Some d1\<rparr>) = (t, w', r, c')"
        by (simp add: my_simple_query_def on_driver_def)
      from stmt_failed_driver [OF this] l show ?thesis by (simp add: my_in_step_def)
    next
      case (Inr u)
      with q Some k have "c' = record_session_mutation D (c\<lparr>mq_mysql := Some d1\<rparr>)"
        by (simp add: my_simple_query_def on_driver_def)
      moreover have "settled D V sql d d1" using l Inr by simp
      ultimately have "my_answered D V sql c c'"
        using recorded_answered Some by (fastforce simp: my_residue_def)
      then show ?thesis using answered_facts(1) by blast
    qed
  qed
  then show "my_in_step V c'" "\<not> isl r \<Longrightarrow> my_answered D V sql c c'" by simp_all
qed

lemma my_query_after:
  assumes L: "driver_laws D V" and c: "my_in_step V c" and q: "my_query D sql params w c = (t, w', r, c')"
  shows "my_in_step V c'" and "\<not> isl r \<Longrightarrow> my_answered D V sql c c'"
proof -
  have "my_in_step V c' \<and> (\<not> isl r \<longrightarrow> my_answered D V sql c c')"
  proof (cases "mq_mysql c")
    case None
    with q c show ?thesis by (auto simp: my_query_def on_driver_def)
  next
    case (Some d)
    obtain t1 w1 r1 d1 where k: "ma_prep D sql w d = (t1, w1, r1, d1)" by (metis prod_cases4)
    have step: "sv_step V d1" using c Some law_prep [OF L k] by (simp add: my_in_step_def)
    have pr: "sv_residue V d1 \<subseteq> my_residue V c" using Some law_prep [OF L k] by (simp add: my_residue_def)
    show ?thesis
    proof (cases r1)
      case (Inl e)
      with q Some k have "stmt_failed t1 w1 e (c\<lparr>mq_mysql := Some d1\<rparr>) = (t, w', r, c')"
        by (simp add: my_query_def on_driver_def)
      from stmt_failed_driver [OF this] step show ?thesis by (simp add: my_in_step_def)
    next
      case (Inr pn)
      then obtain prepared n where pn: "r1 = Inr (prepared, n)" by (cases pn) simp
      show ?thesis
      proof (cases "preflight prepared n params")
        case (Inl e)
        with q Some k pn step show ?thesis by (auto simp: my_query_def on_driver_def my_in_step_def)
      next
        case (Inr pb)
        then obtain pre bound where f: "preflight prepared n params = Inr (pre, bound)" by (cases pb) simp
        obtain t2 w2 r2 d2 where e: "ma_drain D sql bound w1 d1 = (t2, w2, r2, d2)" by (metis prod_cases4)
        note l = law_drain [OF L step e]
        show ?thesis
        proof (cases r2)
          case (Inl x)
          with q Some k pn f e have "stmt_failed (t1 + t2) w2 x (c\<lparr>mq_mysql := Some d2\<rparr>) = (t, w', r, c')"
            by (simp add: my_query_def on_driver_def)
          from stmt_failed_driver [OF this] l show ?thesis by (simp add: my_in_step_def)
        next
          case (Inr dr)
          with q Some k pn f e have "c' = record_session_mutation D (c\<lparr>mq_mysql := Some d2\<rparr>)"
            by (simp add: my_query_def on_driver_def)
          moreover have "settled D V sql d1 d2" using l Inr by simp
          ultimately have "my_answered D V sql c c'"
            using recorded_answered pr by fastforce
          then show ?thesis using answered_facts(1) by blast
        qed
      qed
    qed
  qed
  then show "my_in_step V c'" "\<not> isl r \<Longrightarrow> my_answered D V sql c c'" by simp_all
qed

text \<open>Opening a stream: whatever happened, the connection is in step or parked, and an open stream owns the handle.\<close>

definition opened ::
  "('w, 'd, 'q, 's) mysql_async \<Rightarrow> ('d, 'q, 's) server_view \<Rightarrow> 'd my_conn \<Rightarrow> string \<Rightarrow>
   nat \<times> 'w \<times> (col_meta list \<times> 's my_row_stream) result \<times> 'd my_conn \<Rightarrow> bool" where
  "opened D V c0 sql out \<longleftrightarrow>
     (case out of
        (_, _, Inl _, c) \<Rightarrow> my_in_step V c
      | (_, _, Inr (_, rs), c) \<Rightarrow> my_rows D V Not c0 sql c rs)"

lemma opened_simps [simp]:
  "opened D V c0 sql (t, w, Inl e, c) \<longleftrightarrow> my_in_step V c"
  "opened D V c0 sql (t, w, Inr (cols, rs), c) \<longleftrightarrow> my_rows D V Not c0 sql c rs"
  by (simp_all add: opened_def)

lemma opened_failed: "my_in_step V c \<Longrightarrow> opened D V c0 sql (stmt_failed t w e c)"
  by (simp add: opened_def stmt_failed_def map_stmt_error_def my_in_step_def)

lemma parked_in_step: "is_parked c \<Longrightarrow> my_in_step V c"
  by (simp add: is_parked_def my_in_step_def)

lemma start_rows_opened:
  assumes "driver_laws D V" "sv_ran V d sql q" "sv_residue V d \<subseteq> my_residue V c0" "is_parked c"
  shows "opened D V c0 sql (start_rows D t msg cols columns q w c)"
proof -
  obtain t' w' r where r: "ma_stream_and_drop D q w = (t', w', r)" by (metis prod_cases3)
  show ?thesis
  proof (cases r)
    case (Inr s)
    with r assms law_stream [OF assms(1,2), of w t' w'] show ?thesis
      by (cases s) (auto simp: start_rows_def parked_in_step my_rows_def my_owned_def intro!: exI [of _ d])
  qed (use r assms in \<open>simp add: start_rows_def opened_failed parked_in_step\<close>)
qed

lemma refuse_executed_opened:
  assumes "driver_laws D V" "sv_ran V d sql q" "sv_residue V d \<subseteq> my_residue V c0" "is_parked c"
  shows "opened D V c0 sql (refuse_executed D t e q w c)"
  using assms law_into_conn [OF assms(1,2)]
  by (auto simp: refuse_executed_def opened_def parked_in_step unpark_def
      intro!: answered_facts(1) [OF recorded_answered] split: prod.split sum.split)

lemma open_unprepared_opened:
  assumes "driver_laws D V" "sv_ran V d sql q" "sv_residue V d \<subseteq> my_residue V c0" "is_parked c"
  shows "opened D V c0 sql (open_unprepared D t cols q w c)"
proof (cases "ma_columns D q = []")
  case True
  then show ?thesis using assms law_into_conn [OF assms(1,2)]
    by (auto simp: open_unprepared_def opened_def parked_in_step unpark_def my_rows_def
        intro!: recorded_answered split: prod.split sum.split)
next
  case False
  then show ?thesis using start_rows_opened [OF assms] refuse_executed_opened [OF assms]
    by (simp add: open_unprepared_def Let_def split: sum.split)
qed

lemma open_prepared_opened:
  assumes "driver_laws D V" "sv_ran V d sql q" "sv_residue V d \<subseteq> my_residue V c0" "is_parked c"
  shows "opened D V c0 sql (open_prepared D t cols columns q w c)"
  using start_rows_opened [OF assms] refuse_executed_opened [OF assms] by (simp add: open_prepared_def Let_def split: sum.split)

lemma my_open_opened:
  assumes L: "driver_laws D V" and c: "my_in_step V c"
  shows "opened D V c sql (my_open D sql params w c)"
proof (cases "mq_mysql c")
  case None
  with c show ?thesis by (simp add: my_open_def on_driver_def opened_def)
next
  case (Some d)
  obtain t1 w1 r1 d1 where k: "ma_prep D sql w d = (t1, w1, r1, d1)" by (metis prod_cases4)
  have step: "sv_step V d1" using c Some law_prep [OF L k] by (simp add: my_in_step_def)
  have pr: "sv_residue V d1 \<subseteq> my_residue V c" using Some law_prep [OF L k] by (simp add: my_residue_def)
  have failed: "my_in_step V (c\<lparr>mq_mysql := Some d1\<rparr>)" using step by (simp add: my_in_step_def)
  show ?thesis
  proof (cases r1)
    case (Inl e)
    with Some k failed show ?thesis by (simp add: my_open_def on_driver_def opened_failed)
  next
    case (Inr pn)
    then obtain columns n where pn: "r1 = Inr (columns, n)" by (cases pn) simp
    show ?thesis
    proof (cases "stream_preflight columns n params")
      case (Inl e)
      with Some k pn failed show ?thesis by (simp add: my_open_def on_driver_def opened_def)
    next
      case (Inr cb)
      then obtain cols bound where f: "stream_preflight columns n params = Inr (cols, bound)" by (cases cb) simp
      obtain t2 w2 r2 where e: "ma_run D sql bound w1 d1 = (t2, w2, r2)" by (metis prod_cases3)
      have parked: "is_parked (c\<lparr>mq_mysql := None\<rparr>)" by (simp add: is_parked_def)
      show ?thesis
      proof (cases r2)
        case (Inl x)
        with Some k pn f e parked show ?thesis
          by (simp add: my_open_def on_driver_def opened_failed parked_in_step)
      next
        case (Inr q)
        note ran = law_run [OF L step e [unfolded Inr]]
        from Some k pn f e Inr open_unprepared_opened [OF L ran pr parked] open_prepared_opened [OF L ran pr parked]
        show ?thesis by (simp add: my_open_def on_driver_def Let_def)
      qed
    qed
  qed
qed

text \<open>Reclaiming a stream puts the connection back as the driver left it.\<close>

lemma my_reclaim_after:
  assumes L: "driver_laws D V" and q: "my_reclaim D rs w c = (t, w', Inr rc, c')"
  shows "my_rows D V P c0 sql c rs \<Longrightarrow> my_answered D V sql c0 c'"
    and "my_broken V c rs \<Longrightarrow> my_in_step V c'"
proof -
  show "my_answered D V sql c0 c'" if "my_rows D V P c0 sql c rs"
  proof (cases rs)
    case (StreamRows s columns fin)
    with that obtain d where d: "sv_flowing V d sql s" "sv_residue V d \<subseteq> my_residue V c0"
      by (auto simp: my_rows_def my_owned_def)
    with q StreamRows law_stream_into_conn [OF L d(1)] show ?thesis
      by (auto simp: my_reclaim_def unpark_def intro!: recorded_answered split: prod.splits sum.splits)
  next
    case (NoRows a l)
    with q that show ?thesis by (auto simp: my_reclaim_def my_rows_def)
  qed
  show "my_in_step V c'" if "my_broken V c rs"
  proof -
    from that obtain s columns d sql where d: "rs = StreamRows s columns True" "sv_flowing V d sql s" by (auto simp: my_broken_def)
    with q obtain d' where "ma_stream_into_conn D s w = (t, w', Inr d')" "c' = record_session_mutation D (unpark d' c)"
      by (auto simp: my_reclaim_def split: prod.splits sum.splits)
    then show ?thesis using law_stream_into_conn [OF L d(2)]
      by (simp add: my_in_step_def record_session_mutation_def unpark_def settled_def)
  qed
qed

lemma mysql_backend_sel [simp]:
  "be_connect (mysql_backend D) = my_connect D" "be_ping (mysql_backend D) = my_ping D"
  "be_is_closed (mysql_backend D) = my_is_closed D" "be_dialect (mysql_backend D) = MySql"
  "be_tx_status (mysql_backend D) = my_tx_status D"
  "be_take_session_mutated (mysql_backend D) = my_take_session_mutated"
  "be_apply_readonly (mysql_backend D) = apply_readonly_default"
  "be_clean_reset_profile (mysql_backend D) = Some Full"
  "be_reset (mysql_backend D) = my_reset D" "be_simple_query (mysql_backend D) = my_simple_query D"
  "be_query (mysql_backend D) = my_query D" "be_query_stream (mysql_backend D) = my_open D"
  "be_row_next (mysql_backend D) = my_next D" "be_reclaim_stream (mysql_backend D) = my_reclaim D"
  "be_copy_in (mysql_backend D) = copy_default" "be_copy_out (mysql_backend D) = copy_default"
  by (simp_all add: mysql_backend_def)

lemma my_reset_after:
  assumes "driver_laws D V" "my_in_step V c" "my_no_tx V c" "my_reset D pr w c = (t, w', Inr u, c')"
  shows "my_in_step V c' \<and> my_no_tx V c' \<and> my_residue V c' = {}"
proof -
  from assms(3) obtain d where d: "mq_mysql c = Some d" "sv_no_tx V d" by (auto simp: my_no_tx_def)
  obtain t1 w1 r d1 where k: "ma_reset D w d = (t1, w1, r, d1)" by (metis prod_cases4)
  with assms(4) d obtain x where r: "r = Inr x" and c': "mq_mysql c' = Some d1"
    by (cases r) (auto simp: my_reset_def on_driver_def)
  have "sv_step V d" using assms(2) d by (simp add: my_in_step_def)
  from law_reset [OF assms(1) this d(2) k [unfolded r]] c' show ?thesis
    by (simp add: my_in_step_def my_no_tx_def my_residue_def)
qed

lemma my_ping_after:
  assumes L: "driver_laws D V" and q: "my_ping D w c = (t, w', Inr u, c')"
  shows "my_in_step V c' = my_in_step V c \<and> my_no_tx V c' = my_no_tx V c \<and> my_residue V c' \<subseteq> my_residue V c"
proof (cases "mq_mysql c")
  case None
  with q show ?thesis by (simp add: my_ping_def on_driver_def)
next
  case (Some d)
  obtain t1 w1 r d1 where k: "ma_ping D w d = (t1, w1, r, d1)" by (metis prod_cases4)
  with q Some obtain x where r: "r = Inr x" and c': "mq_mysql c' = Some d1"
    by (cases r) (auto simp: my_ping_def on_driver_def)
  from law_ping [OF L k [unfolded r]] c' Some show ?thesis
    by (simp add: my_in_step_def my_no_tx_def my_residue_def)
qed

lemma my_rollback_after:
  assumes L: "driver_laws D V" and c: "my_in_step V c" and q: "my_simple_query D ''ROLLBACK'' w c = (t, w', r, c')"
  shows "(my_no_tx V c \<longrightarrow> my_no_tx V c') \<and> (\<not> isl r \<longrightarrow> my_no_tx V c' \<and> my_residue V c' \<subseteq> my_residue V c)"
proof (cases "mq_mysql c")
  case None
  with q show ?thesis by (auto simp: my_simple_query_def on_driver_def)
next
  case (Some d)
  obtain t1 w1 r1 d1 where k: "ma_query_drop D ''ROLLBACK'' w d = (t1, w1, r1, d1)" by (metis prod_cases4)
  have "sv_step V d" using c Some by (simp add: my_in_step_def)
  from law_rollback [OF L this k] q Some k show ?thesis
    by (cases r1)
      (auto simp: my_simple_query_def on_driver_def my_no_tx_def my_residue_def record_session_mutation_def stmt_failed_def map_stmt_error_def)
qed

lemma mysql_session_laws:
  assumes L: "driver_laws D V"
  shows "session_backend_axioms (mysql_backend D) (my_rows D V Not) (my_rows D V id) (my_broken V)
     (\<lambda>c0 sql c s. False) (\<lambda>c0 sql c s. False) (\<lambda>c s. False) (my_no_tx V)
     (my_in_step V) (my_residue V) (\<lambda>c0 sql c s. False)"
proof unfold_locales
  fix w d w' c
  assume "be_connect (mysql_backend D) w = (d, w', Inr c)"
  then show "my_in_step V c \<and> my_no_tx V c \<and> my_residue V c = {}"
    by (auto simp: my_connect_def my_in_step_def my_no_tx_def my_residue_def split: prod.splits sum.splits dest!: law_new [OF L])
next
  fix w c d w' n c'
  assume a: "be_simple_query (mysql_backend D) ''ROLLBACK'' w c = (d, w', Inr n, c')" "my_in_step V c"
  then have q: "my_simple_query D ''ROLLBACK'' w c = (d, w', Inr n, c')" by simp
  show "my_in_step V c' \<and> my_no_tx V c' \<and> my_residue V c' \<subseteq> my_residue V c"
    using my_rollback_after [OF L a(2) q] my_simple_query_after(1) [OF L a(2) q] by simp
next
  fix w c d w' r c'
  assume a: "be_simple_query (mysql_backend D) ''ROLLBACK'' w c = (d, w', r, c')" "my_in_step V c" "my_no_tx V c"
  then have q: "my_simple_query D ''ROLLBACK'' w c = (d, w', r, c')" by simp
  show "my_no_tx V c'" using my_rollback_after [OF L a(2) q] a(3) by simp
next
  fix w c d w' u c'
  assume a: "be_reset (mysql_backend D) Full w c = (d, w', Inr u, c')" "my_in_step V c" "my_no_tx V c"
  show "my_in_step V c' \<and> my_no_tx V c' \<and> my_residue V c' = {}" by (rule my_reset_after [OF L a(2,3) a(1) [simplified]])
next
  fix pr w c d w' u c'
  assume a: "be_reset (mysql_backend D) pr w c = (d, w', Inr u, c')" "my_in_step V c" "my_no_tx V c"
  show "my_in_step V c' \<and> my_no_tx V c' \<and> my_residue V c' \<subseteq> my_residue V c"
    using my_reset_after [OF L a(2,3) a(1) [simplified]] by simp
next
  fix w c d w' u c'
  assume a: "be_ping (mysql_backend D) w c = (d, w', Inr u, c')"
  show "my_in_step V c' = my_in_step V c \<and> my_no_tx V c' = my_no_tx V c \<and> my_residue V c' \<subseteq> my_residue V c"
    by (rule my_ping_after [OF L a [simplified]])
next
  fix c sql w d w' n c'
  assume a: "my_in_step V c" "be_simple_query (mysql_backend D) sql w c = (d, w', Inr n, c')" "be_tx_status (mysql_backend D) c' = Idle"
  then show "my_no_tx V c'" using answered_facts(2) [OF my_simple_query_after(2) [OF L a(1) a(2) [simplified]]] by simp
next
  fix c sql ps w d w' q' c'
  assume a: "my_in_step V c" "be_query (mysql_backend D) sql ps w c = (d, w', Inr q', c')" "be_tx_status (mysql_backend D) c' = Idle"
  then show "my_no_tx V c'" using answered_facts(2) [OF my_query_after(2) [OF L a(1) a(2) [simplified]]] by simp
next
  fix c sql w d w' n c'
  assume a: "my_in_step V c" "be_simple_query (mysql_backend D) sql w c = (d, w', Inr n, c')"
    "\<not> fst (be_take_session_mutated (mysql_backend D) c')"
  then show "my_residue V c' \<subseteq> insert (sql, False) (my_residue V c)" using answered_facts(3) [OF my_simple_query_after(2) [OF L a(1) a(2) [simplified]]]
    by (simp add: my_take_session_mutated_def)
next
  fix c sql ps w d w' q' c'
  assume a: "my_in_step V c" "be_query (mysql_backend D) sql ps w c = (d, w', Inr q', c')"
    "\<not> fst (be_take_session_mutated (mysql_backend D) c')"
  then show "my_residue V c' \<subseteq> insert (sql, False) (my_residue V c)" using answered_facts(3) [OF my_query_after(2) [OF L a(1) a(2) [simplified]]]
    by (simp add: my_take_session_mutated_def)
next
  fix c0 sql c rs w d w' rc c'
  assume a: "my_rows D V id c0 sql c rs" "be_reclaim_stream (mysql_backend D) rs w c = (d, w', Inr rc, c')"
    "\<not> fst (be_take_session_mutated (mysql_backend D) c')"
  then show "my_residue V c' \<subseteq> insert (sql, False) (my_residue V c0)" using answered_facts(3) [OF my_reclaim_after(1) [OF L a(2) [simplified] a(1)]]
    by (simp add: my_take_session_mutated_def)
next
  fix c0 sql c rs w d w' rc c'
  assume a: "my_rows D V id c0 sql c rs" "be_reclaim_stream (mysql_backend D) rs w c = (d, w', Inr rc, c')"
  then show "my_in_step V c' \<and> (be_tx_status (mysql_backend D) c' = Idle \<longrightarrow> my_no_tx V c')"
    using answered_facts(1,2) [OF my_reclaim_after(1) [OF L a(2) [simplified] a(1)]] by simp
next
  fix c sql ps w d w' e c'
  assume "my_in_step V c" "be_query_stream (mysql_backend D) sql ps w c = (d, w', Inl e, c')"
  then show "my_in_step V c'" using my_open_opened [OF L, of c sql ps w] by simp
next
  fix c sql ps w d w' cols rs c'
  assume "my_in_step V c" "be_query_stream (mysql_backend D) sql ps w c = (d, w', Inr (cols, rs), c')"
  then show "my_rows D V Not c sql c' rs" using my_open_opened [OF L, of c sql ps w] by simp
qed (auto simp: apply_readonly_default_def my_take_session_mutated_def copy_default_def my_in_step_def my_no_tx_def my_residue_def
    dest: my_simple_query_after(1) [OF L, unfolded my_in_step_def] my_query_after(1) [OF L, unfolded my_in_step_def]
      my_reclaim_after(2) [OF L, unfolded my_in_step_def])

lemma mysql_session_backend:
  assumes L: "driver_laws D V"
  shows "session_backend (mysql_backend D) (my_rows D V Not) (my_rows D V id) (my_broken V) (my_broken V)
    (\<lambda>c0 sql c s. False) (\<lambda>c0 sql c s. False) (\<lambda>c s. False) (\<lambda>c s. False) (my_no_tx V) (my_in_step V) (my_residue V)
    (\<lambda>c0 sql c s. False)"
proof (rule session_backend.intro)
  show "pull_stream (be_row_next (mysql_backend D)) (my_rows D V Not) (my_rows D V id) (my_broken V) (my_broken V)"
    by (simp add: my_rows_pull [OF L])
  show "pull_stream (be_copy_next (mysql_backend D)) (\<lambda>c0 sql c s. False) (\<lambda>c0 sql c s. False) (\<lambda>c s. False) (\<lambda>c s. False)"
    by unfold_locales simp_all
qed (rule mysql_session_laws [OF L])

text \<open>
  A pool over the MySQL backend: in every state it can reach, with row streams opened, failed, abandoned and reclaimed
  in between, a connection that a checkout hands out has the driver's handle, and the session behind it is in step, out
  of transactions and holds only what neither the lexer nor the session tracker reported. The model has no
  unwinding: a call on a parked connection, which panics in \<open>driver_mut\<close>, answers the distinguished error \<open>driver_panic\<close>
  and leaves the connection as it is.
\<close>

lemma mysql_handed_out:
  assumes "driver_laws D V" and "reachable (mysql_backend D) cfg (p, ss)"
    and "checkout_declared (mysql_backend D) readonly p = (Inr k, p')"
  shows "\<exists>d. mq_mysql (co_conn k) = Some d \<and> sv_step V d \<and> sv_no_tx V d \<and>
    (\<forall>(sql, reported) \<in> sv_residue V d. \<not> reported \<and> engine_sql MySql (pin_functions cfg) (pin_on_unknown cfg) sql)"
  using pooled_backend.handed_out_residue
    [OF pooled_backend.intro [OF mysql_session_backend [OF assms(1)]] assms(2) refl refl assms(3)]
  by (auto simp: my_in_step_def my_no_tx_def my_residue_def)

text \<open>A driver over the connections of the in-memory backend, which know their transaction and their statements, keeps the laws.\<close>

definition fake_ok :: "fake_conn \<Rightarrow> ok_packet" where
  "fake_ok d = \<lparr>ok_in_trans = (fc_tx_status d \<noteq> Idle), ok_state_changed = False, ok_changes = []\<rparr>"

definition fake_fresh :: fake_conn where
  "fake_fresh = projr (snd (snd (fake_connect fake_new)))"

definition fake_async :: "(unit, fake_conn, fake_conn, fake_conn) mysql_async" where
  "fake_async =
     \<lparr>ma_new = \<lambda>w. (0, w, Inr fake_fresh), ma_id = \<lambda>_. 7, ma_ok = \<lambda>d. Some (fake_ok d), ma_affected = \<lambda>_. 0,
      ma_last_insert_id = \<lambda>_. None, ma_disconnected = fc_closed, ma_ping = \<lambda>w d. (0, w, Inr (), d),
      ma_reset = \<lambda>w d. (0, w, Inr (), d\<lparr>fc_recorded := fc_recorded d @ [''RESET:Full'']\<rparr>),
      ma_query_drop = \<lambda>sql w d. (0, w, Inr (), recording ''TEXT:'' sql d), ma_prep = \<lambda>_ w d. (0, w, Inr ([], 0), d),
      ma_drain = \<lambda>sql _ w d.
        (0, w, Inr \<lparr>dr_columns = None, dr_rows = [], dr_affected = 0, dr_last_insert_id = None\<rparr>, recording ''PREPARED:'' sql d),
      ma_run = \<lambda>sql _ w d. (0, w, Inr (recording ''PREPARED:'' sql d)), ma_columns = \<lambda>_. [],
      ma_into_conn = \<lambda>q w. (0, w, Inr q), ma_stream_and_drop = \<lambda>q w. (0, w, Inr (Some q)), ma_next = \<lambda>s w. (0, w, None, s),
      ma_stream_into_conn = \<lambda>s w. (0, w, Inr s)\<rparr>"

definition fake_view :: "(fake_conn, fake_conn, fake_conn) server_view" where
  "fake_view =
     \<lparr>sv_step = \<lambda>_. True, sv_no_tx = \<lambda>d. fc_tx_status d = Idle,
      sv_residue = \<lambda>d. {(s, False) | s. s \<in> set (since_reset d) \<and> \<not> leaves_nothing s},
      sv_ran = \<lambda>d sql q. q = recording ''PREPARED:'' sql d, sv_flowing = \<lambda>d sql s. s = recording ''PREPARED:'' sql d\<rparr>"

lemma fake_settled: "settled fake_async fake_view sql d (recording leaf sql d)"
  by (auto simp: settled_def fake_async_def fake_view_def fake_ok_def since_reset_def)

lemma fake_driver_laws: "driver_laws fake_async fake_view"
proof -
  have "session_laws fake_async fake_view"
    by (simp add: session_laws_def fake_async_def fake_view_def fake_fresh_def fake_connect_def fake_new_def parked_def
        since_reset_def)
  moreover have "text_laws fake_async fake_view"
    using fake_settled
    by (auto simp: text_laws_def fake_async_def fake_view_def rollback_closes since_reset_def leaves_nothing_def)
  moreover have "statement_laws fake_async fake_view"
    using fake_settled by (auto simp: statement_laws_def fake_async_def fake_view_def)
  moreover have "owned_laws fake_async fake_view"
    using fake_settled by (auto simp: owned_laws_def fake_async_def fake_view_def)
  ultimately show ?thesis by (simp add: driver_laws_def)
qed

subsection \<open>A statement that fails while its stream opens\<close>

text \<open>
  A streamed statement that the server refuses while it runs leaves the connection parked for good: its handle was
  consumed. An autocommit checkout is dropped and discarded after it, but a transaction whose actor takes the error as
  the statement's own keeps the checkout, and its next statement, \<open>ROLLBACK\<close> included, panics in \<open>driver_mut\<close>.
\<close>

lemma failed_stream_open_strands_transaction:
  assumes "mq_mysql c = Some d" "ma_prep D sql w d = (t, w1, Inr (columns, n), d1)"
    and "stream_preflight columns n params = Inr (cols, bound)" "ma_run D sql bound w1 d1 = (t1, w2, Inl (MyServer code state msg))"
  shows "my_open D sql params w c = (t + t1, w2, Inl (mysql_map (MyServer code state msg)), c\<lparr>mq_mysql := None\<rparr>)"
    and "my_simple_query D sql' w3 (c\<lparr>mq_mysql := None\<rparr>) = (0, w3, Inl driver_panic, c\<lparr>mq_mysql := None\<rparr>)"
  using assms by (simp_all add: my_open_def my_simple_query_def on_driver_def stmt_failed_def map_stmt_error_def Let_def)

end
