(* ===== verification/Msgpack.thy ===== *)
theory Msgpack
  imports Frame Bytes
begin

text \<open>
  MessagePack, as the protocol's codecs use it. The crates \<open>rmp\<close> and \<open>rmp-serde\<close> are not part of the repository: a
  record holds the functions the codecs call, and the locale \<open>rmp_lib\<close> what their documentation promises. The record
  \<open>msgpack\<close> implements the format's own specification and satisfies the locale. Then the helpers of
  \<open>ferro-proto/src/value.rs\<close>, \<open>messages.rs\<close>, \<open>messages/sql.rs\<close> and \<open>messages/http.rs\<close> that every message shares, and what they
  read back from what was written.
\<close>

subsection \<open>The library\<close>

datatype marker = MNull | MTrue | MFalse | MOther string

text \<open>What \<open>serde\<close> hands to the serializer of a derived struct, and the type a derived deserializer asks for.\<close>

datatype ser =
    SUint "64 word" | SInt "64 word" | SBool bool | SStr string | SNil | SArr "ser list"

datatype shape =
    ShUint nat | ShInt nat | ShBool | ShStr | ShOpt shape | ShVec shape | ShStruct "shape list"

definition str_ok :: "string \<Rightarrow> bool" where
  "str_ok s \<longleftrightarrow> utf8_valid s \<and> length s < 2 ^ 32"

primrec shaped :: "shape \<Rightarrow> ser \<Rightarrow> bool" where
  "shaped (ShUint k) v = (case v of SUint n \<Rightarrow> unat n < 2 ^ k | _ \<Rightarrow> False)"
| "shaped (ShInt k) v = (case v of SInt n \<Rightarrow> - (2 ^ (k - 1)) \<le> sint n \<and> sint n < 2 ^ (k - 1) | _ \<Rightarrow> False)"
| "shaped ShBool v = (case v of SBool b \<Rightarrow> True | _ \<Rightarrow> False)"
| "shaped ShStr v = (case v of SStr s \<Rightarrow> str_ok s | _ \<Rightarrow> False)"
| "shaped (ShOpt sh) v = (v = SNil \<or> shaped sh v)"
| "shaped (ShVec sh) v = (case v of SArr vs \<Rightarrow> length vs < 2 ^ 32 \<and> list_all (shaped sh) vs | _ \<Rightarrow> False)"
| "shaped (ShStruct shs) v =
     (case v of SArr vs \<Rightarrow> length vs < 2 ^ 32 \<and> list_all2 (\<lambda>p v. p v) (map shaped shs) vs | _ \<Rightarrow> False)"

record rmp =
  mp_write_array_len :: "32 word \<Rightarrow> u8s"
  mp_write_pfix :: "8 word \<Rightarrow> u8s"
  mp_write_nil :: u8s
  mp_write_bool :: "bool \<Rightarrow> u8s"
  mp_write_sint :: "64 word \<Rightarrow> u8s"
  mp_write_uint :: "64 word \<Rightarrow> u8s"
  mp_write_f64 :: "64 word \<Rightarrow> u8s"
  mp_write_str :: "u8s \<Rightarrow> u8s"
  mp_write_bin :: "u8s \<Rightarrow> u8s"
  mp_read_array_len :: "u8s \<Rightarrow> string + 32 word \<times> u8s"
  mp_read_pfix :: "u8s \<Rightarrow> string + 8 word \<times> u8s"
  mp_read_marker :: "u8s \<Rightarrow> string + marker \<times> u8s"
  mp_read_int :: "int \<Rightarrow> int \<Rightarrow> u8s \<Rightarrow> string + int \<times> u8s"
  mp_read_f64 :: "u8s \<Rightarrow> string + 64 word \<times> u8s"
  mp_read_str_len :: "u8s \<Rightarrow> string + 32 word \<times> u8s"
  mp_read_bin_len :: "u8s \<Rightarrow> string + 32 word \<times> u8s"
  mp_serialize :: "ser \<Rightarrow> u8s"
  mp_deserialize :: "shape \<Rightarrow> u8s \<Rightarrow> string + ser \<times> u8s"

definition not_nil :: "u8s \<Rightarrow> bool" where
  "not_nil w \<longleftrightarrow> w \<noteq> [] \<and> hd w \<noteq> 0xc0"

locale rmp_lib =
  fixes R :: rmp
  assumes array: "mp_read_array_len R (mp_write_array_len R n @ rest) = Inr (n, rest)"
    and pfix: "unat tag < 128 \<Longrightarrow> mp_read_pfix R (mp_write_pfix R tag @ rest) = Inr (tag, rest)"
    and nil: "mp_write_nil R = [0xc0]" "mp_read_marker R (0xc0 # rest) = Inr (MNull, rest)"
    and bool: "mp_read_marker R (mp_write_bool R c @ rest) = Inr (if c then MTrue else MFalse, rest)"
    and uint: "lo \<le> uint x \<Longrightarrow> uint x \<le> hi \<Longrightarrow> mp_read_int R lo hi (mp_write_uint R x @ rest) = Inr (uint x, rest)"
    and sint: "lo \<le> sint x \<Longrightarrow> sint x \<le> hi \<Longrightarrow> mp_read_int R lo hi (mp_write_sint R x @ rest) = Inr (sint x, rest)"
    and int_range: "mp_read_int R lo hi b = Inr (i, rest) \<Longrightarrow> lo \<le> i \<and> i \<le> hi"
    and f64: "mp_read_f64 R (mp_write_f64 R x @ rest) = Inr (x, rest)"
    and str: "length s < 2 ^ 32 \<Longrightarrow> mp_read_str_len R (mp_write_str R s @ rest) = Inr (word_of_nat (length s), s @ rest)"
    and bin: "length s < 2 ^ 32 \<Longrightarrow> mp_read_bin_len R (mp_write_bin R s @ rest) = Inr (word_of_nat (length s), s @ rest)"
    and bin_body: "\<exists>header. mp_write_bin R s = header @ s"
    and consumes: "mp_read_array_len R b = Inr (m, rest) \<Longrightarrow> length rest < length b"
      "mp_read_pfix R b = Inr (t, rest) \<Longrightarrow> length rest < length b"
      "mp_read_marker R b = Inr (mk, rest) \<Longrightarrow> length rest < length b"
      "mp_read_int R lo hi b = Inr (i, rest) \<Longrightarrow> length rest < length b"
      "mp_read_f64 R b = Inr (x, rest) \<Longrightarrow> length rest < length b"
      "mp_read_str_len R b = Inr (m, rest) \<Longrightarrow> length rest < length b"
      "mp_read_bin_len R b = Inr (m, rest) \<Longrightarrow> length rest < length b"
    and markers: "not_nil (mp_write_array_len R n)" "not_nil (mp_write_bool R c)" "not_nil (mp_write_uint R x)"
      "not_nil (mp_write_sint R x)" "not_nil (mp_write_str R s)" "not_nil (mp_write_bin R s)"
    and serialize:
      "mp_serialize R (SUint x) = mp_write_uint R x" "mp_serialize R (SInt x) = mp_write_sint R x"
      "mp_serialize R (SBool c) = mp_write_bool R c" "mp_serialize R (SStr u) = mp_write_str R (as_bytes u)"
      "mp_serialize R SNil = mp_write_nil R"
      "mp_serialize R (SArr vs) = mp_write_array_len R (word_of_nat (length vs)) @ concat (map (mp_serialize R) vs)"
    and deserialize: "shaped sh v \<Longrightarrow> mp_deserialize R sh (mp_serialize R v @ rest) = Inr (v, rest)"
    and deserialized: "mp_deserialize R sh b = Inr (v, rest) \<Longrightarrow> shaped sh v"

subsection \<open>Reading one value after another\<close>

type_synonym 'a reader = "u8s \<Rightarrow> codec_error + 'a \<times> u8s"

text \<open>The \<open>?\<close> operator over an advancing cursor, and a call into the library whose error becomes \<open>Malformed\<close>.\<close>

definition then_read :: "'a reader \<Rightarrow> ('a \<Rightarrow> 'b reader) \<Rightarrow> 'b reader" where
  "then_read r k b = (case r b of Inl e \<Rightarrow> Inl e | Inr (a, rest) \<Rightarrow> k a rest)"

definition give :: "'a \<Rightarrow> 'a reader" where
  "give a b = Inr (a, b)"

definition fail :: "codec_error \<Rightarrow> 'a reader" where
  "fail e b = Inl e"

definition lib :: "string \<Rightarrow> (u8s \<Rightarrow> string + 'a \<times> u8s) \<Rightarrow> 'a reader" where
  "lib what r b = (case r b of Inl e \<Rightarrow> Inl (Malformed (what @ '': '' @ e)) | Inr x \<Rightarrow> Inr x)"

fun read_n :: "nat \<Rightarrow> 'a reader \<Rightarrow> 'a list reader" where
  "read_n 0 r = give []"
| "read_n (Suc n) r = then_read r (\<lambda>a. then_read (read_n n r) (\<lambda>as. give (a # as)))"

subsection \<open>Shared readers and writers\<close>

definition bound_len :: "nat \<Rightarrow> nat \<Rightarrow> codec_error + unit" where
  "bound_len len remaining = (if remaining < len then Inl (Truncated len remaining) else Inr ())"

definition bounded :: "nat \<Rightarrow> 'a reader \<Rightarrow> 'a reader" where
  "bounded len r b = (case bound_len len (length b) of Inl e \<Rightarrow> Inl e | Inr _ \<Rightarrow> r b)"

definition read_exact :: "nat \<Rightarrow> u8s reader" where
  "read_exact len b = Inr (take len b, drop len b)"

fun marker_debug :: "marker \<Rightarrow> string" where
  "marker_debug MNull = ''Null''"
| "marker_debug MTrue = ''True''"
| "marker_debug MFalse = ''False''"
| "marker_debug (MOther s) = s"

definition read_nil :: "rmp \<Rightarrow> unit reader" where
  "read_nil R = then_read (lib ''nil'' (mp_read_marker R))
     (\<lambda>m. if m = MNull then give () else fail (Malformed (''expected nil, got '' @ marker_debug m)))"

definition read_bool :: "rmp \<Rightarrow> bool reader" where
  "read_bool R = then_read (lib ''bool'' (mp_read_marker R))
     (\<lambda>m. case m of MTrue \<Rightarrow> give True | MFalse \<Rightarrow> give False
          | _ \<Rightarrow> fail (Malformed (''expected bool, got '' @ marker_debug m)))"

definition read_str :: "rmp \<Rightarrow> string reader" where
  "read_str R = then_read (lib ''str len'' (mp_read_str_len R)) (\<lambda>len. bounded (unat len)
     (then_read (read_exact (unat len))
       (\<lambda>buf. if utf8_valid (of_bytes buf) then give (of_bytes buf) else fail (Malformed ''invalid utf8''))))"

definition read_str_lossy :: "rmp \<Rightarrow> string reader" where
  "read_str_lossy R = then_read (lib ''str len'' (mp_read_str_len R)) (\<lambda>len. bounded (unat len)
     (then_read (read_exact (unat len)) (\<lambda>buf. give (from_utf8_lossy (of_bytes buf)))))"

definition read_bin :: "rmp \<Rightarrow> string reader" where
  "read_bin R = then_read (lib ''bin len'' (mp_read_bin_len R)) (\<lambda>len. bounded (unat len)
     (then_read (read_exact (unat len)) (\<lambda>buf. give (of_bytes buf))))"

definition write_str :: "rmp \<Rightarrow> string \<Rightarrow> u8s" where
  "write_str R s = mp_write_str R (as_bytes s)"

definition write_bin :: "rmp \<Rightarrow> string \<Rightarrow> u8s" where
  "write_bin R s = mp_write_bin R (as_bytes s)"

text \<open>\<open>read_int\<close> at an unsigned type of the width of the result, and at \<open>i64\<close>.\<close>

definition read_word :: "rmp \<Rightarrow> string \<Rightarrow> 'a::len word reader" where
  "read_word R what = then_read (lib what (mp_read_int R 0 (2 ^ LENGTH('a) - 1))) (\<lambda>n. give (word_of_int n))"

definition read_i64 :: "rmp \<Rightarrow> string \<Rightarrow> 64 word reader" where
  "read_i64 R what = then_read (lib what (mp_read_int R (- (2 ^ 63)) (2 ^ 63 - 1))) (\<lambda>n. give (word_of_int n))"

definition write_word :: "rmp \<Rightarrow> 'a::len word \<Rightarrow> u8s" where
  "write_word R n = mp_write_uint R (ucast n)"

fun peek_nil :: "bool reader" where
  "peek_nil [] = Inl (Truncated 1 0)"
| "peek_nil (b # rest) = (if b = 0xc0 then Inr (True, rest) else Inr (False, b # rest))"

definition read_opt :: "'a reader \<Rightarrow> 'a option reader" where
  "read_opt r = then_read peek_nil (\<lambda>nil. if nil then give None else then_read r (\<lambda>x. give (Some x)))"

definition write_opt :: "rmp \<Rightarrow> ('a \<Rightarrow> u8s) \<Rightarrow> 'a option \<Rightarrow> u8s" where
  "write_opt R w v = (case v of None \<Rightarrow> mp_write_nil R | Some x \<Rightarrow> w x)"

definition expect_arity :: "rmp \<Rightarrow> string \<Rightarrow> 32 word \<Rightarrow> unit reader" where
  "expect_arity R what want = then_read (lib (what @ '' array'') (mp_read_array_len R))
     (\<lambda>n. if n \<noteq> want then fail (Malformed (what @ '' len '' @ to_dec (unat n) @ '' != '' @ to_dec (unat want)))
          else give ())"

definition expect_end :: "unit reader" where
  "expect_end rd = (if rd = [] then Inr ((), []) else Inl (TrailingBytes (length rd)))"

text \<open>A list: its length, checked against the bytes that are left, then its elements.\<close>

definition write_vec :: "rmp \<Rightarrow> ('a \<Rightarrow> u8s) \<Rightarrow> 'a list \<Rightarrow> u8s" where
  "write_vec R w xs = mp_write_array_len R (word_of_nat (length xs)) @ concat (map w xs)"

definition read_vec :: "rmp \<Rightarrow> string \<Rightarrow> 'a reader \<Rightarrow> 'a list reader" where
  "read_vec R what r = then_read (lib what (mp_read_array_len R)) (\<lambda>n. bounded (unat n) (read_n (unat n) r))"

text \<open>A whole message: everything read, nothing left.\<close>

definition decoded :: "'a reader \<Rightarrow> u8s \<Rightarrow> codec_error + 'a" where
  "decoded r b = (case r b of Inl e \<Rightarrow> Inl e | Inr (m, _) \<Rightarrow> Inr m)"

subsection \<open>Derived messages\<close>

definition to_vec :: "rmp \<Rightarrow> ser \<Rightarrow> u8s" where
  "to_vec R v = mp_serialize R v"

definition from_slice :: "rmp \<Rightarrow> shape \<Rightarrow> (ser \<Rightarrow> 'm option) \<Rightarrow> u8s \<Rightarrow> codec_error + 'm" where
  "from_slice R sh conv b =
     (case mp_deserialize R sh b of
        Inl e \<Rightarrow> Inl (Malformed e)
      | Inr (v, rest) \<Rightarrow>
          (case conv v of
             None \<Rightarrow> Inl (Malformed ''shape'')
           | Some m \<Rightarrow> if rest \<noteq> [] then Inl (TrailingBytes (length rest)) else Inr m))"

subsection \<open>What is written is read back\<close>

definition reads :: "'a reader \<Rightarrow> u8s \<Rightarrow> 'a \<Rightarrow> bool" where
  "reads r w x \<longleftrightarrow> (\<forall>rest. r (w @ rest) = Inr (x, rest))"

named_theorems read_back

lemma readsI: "(\<And>rest. r (w @ rest) = Inr (x, rest)) \<Longrightarrow> reads r w x"
  by (simp add: reads_def)

lemma readsD: "reads r w x \<Longrightarrow> r (w @ rest) = Inr (x, rest)"
  by (simp add: reads_def)

lemma reads_then: "reads r w x \<Longrightarrow> then_read r k (w @ rest) = k x rest"
  by (simp add: reads_def then_read_def)

lemma then_give [read_back]: "then_read (give x) k b = k x b" "give x b = Inr (x, b)"
  by (simp_all add: then_read_def give_def)

lemma then_assoc [read_back]: "then_read (then_read r k) l = then_read r (\<lambda>x. then_read (k x) l)"
  by (rule ext) (simp add: then_read_def split: sum.split)

lemma reads_read_n: "(\<And>x. x \<in> set xs \<Longrightarrow> reads r (w x) x) \<Longrightarrow> reads (read_n (length xs) r) (concat (map w xs)) xs"
  by (induction xs) (simp_all add: reads_def then_read_def give_def)

lemma lib_reads: "(\<And>rest. r (w @ rest) = Inr (x, rest)) \<Longrightarrow> reads (lib what r) w x"
  by (simp add: reads_def lib_def)

lemma bounded_enough [simp]: "len \<le> length b \<Longrightarrow> bounded len r b = r b"
  by (simp add: bounded_def bound_len_def)

lemma bounded_InrD: "bounded len r b = Inr x \<Longrightarrow> len \<le> length b \<and> r b = Inr x"
  by (auto simp: bounded_def bound_len_def split: if_splits)

lemma length_concat_ge: "(\<And>x. x \<in> set xs \<Longrightarrow> w x \<noteq> []) \<Longrightarrow> length xs \<le> length (concat (map w xs))"
proof (induction xs)
  case (Cons x xs)
  then have "1 \<le> length (w x)" by (simp add: Suc_le_eq)
  moreover have "length xs \<le> length (concat (map w xs))" using Cons by simp
  ultimately show ?case by simp
qed simp

lemma not_nilD: "not_nil w \<Longrightarrow> w \<noteq> []"
  by (simp add: not_nil_def)

lemma not_nil_append: "not_nil w \<Longrightarrow> not_nil (w @ v)"
  by (simp add: not_nil_def)

lemma peek_not_nil: "not_nil w \<Longrightarrow> then_read peek_nil k (w @ rest) = k False (w @ rest)"
  by (cases w) (simp_all add: not_nil_def then_read_def)

lemma peek_nil_nil: "then_read peek_nil k (0xc0 # rest) = k True rest"
  by (simp add: then_read_def)

lemma unat_of_length: "n < 2 ^ 32 \<Longrightarrow> unat (word_of_nat n :: 32 word) = n" "n < 4294967296 \<Longrightarrow> unat (word_of_nat n :: 32 word) = n"
  by (simp_all add: unat_of_nat)

lemma expect_end_nil [read_back]: "then_read expect_end k rest = (if rest = [] then k () [] else Inl (TrailingBytes (length rest)))"
  by (simp add: then_read_def expect_end_def)

context rmp_lib
begin

lemma reads_array: "reads (lib what (mp_read_array_len R)) (mp_write_array_len R n) n"
  by (rule lib_reads) (rule array)

lemma reads_arity: "reads (expect_arity R what n) (mp_write_array_len R n) ()"
  by (rule readsI) (simp add: expect_arity_def reads_then [OF reads_array] give_def)

lemma reads_bool: "reads (read_bool R) (mp_write_bool R b) b"
proof (rule readsI)
  fix rest
  have "reads (lib ''bool'' (mp_read_marker R)) (mp_write_bool R b) (if b then MTrue else MFalse)"
    by (rule lib_reads) (rule bool)
  then show "read_bool R (mp_write_bool R b @ rest) = Inr (b, rest)" by (simp add: read_bool_def reads_then give_def)
qed

lemma reads_nil: "reads (read_nil R) (mp_write_nil R) ()"
  by (rule readsI) (simp add: read_nil_def nil then_read_def lib_def give_def)

lemma reads_body:
  fixes r :: "u8s \<Rightarrow> string + 32 word \<times> u8s"
  assumes "length s < 2 ^ 32" "\<And>rest. r (w @ rest) = Inr (word_of_nat (length s), as_bytes s @ rest)"
  shows "then_read (lib what r) (\<lambda>len. bounded (unat len) (then_read (read_exact (unat len)) k)) (w @ rest) = k (as_bytes s) rest"
  using assms by (simp add: then_read_def lib_def unat_of_length read_exact_def)

lemma reads_str: "str_ok s \<Longrightarrow> reads (read_str R) (write_str R s) s"
  by (rule readsI) (simp add: read_str_def write_str_def str_ok_def reads_body [OF _ str [of "as_bytes s", simplified]] give_def)

lemma reads_str_lossy: "str_ok s \<Longrightarrow> reads (read_str_lossy R) (write_str R s) s"
  by (rule readsI) (simp add: read_str_lossy_def write_str_def str_ok_def reads_body [OF _ str [of "as_bytes s", simplified]] give_def)

lemma reads_bin: "length s < 2 ^ 32 \<Longrightarrow> reads (read_bin R) (write_bin R s) s"
  by (rule readsI) (simp add: read_bin_def write_bin_def reads_body [OF _ bin [of "as_bytes s", simplified]] give_def)

lemma reads_word:
  fixes x :: "'a::len word"
  assumes "LENGTH('a) \<le> 64"
  shows "reads (read_word R what) (write_word R x) x"
proof (rule readsI)
  fix rest
  have "uint x < 2 ^ 64"
    by (rule order.strict_trans2 [OF uint_lt2p power_increasing [OF assms]]) simp
  then have "uint (ucast x :: 64 word) = uint x"
    by (simp add: unsigned_ucast_eq take_bit_int_eq_self)
  moreover have "0 \<le> uint x" "uint x \<le> 2 ^ LENGTH('a) - 1" using uint_lt2p [of x] by simp_all
  ultimately have "reads (lib what (mp_read_int R 0 (2 ^ LENGTH('a) - 1))) (write_word R x) (uint x)"
    unfolding write_word_def using uint [of 0 "ucast x"] by (intro lib_reads) simp
  then show "read_word R what (write_word R x @ rest) = Inr (x, rest)"
    by (simp add: read_word_def reads_then give_def)
qed

lemma reads_uint: "reads (read_word R what) (mp_write_uint R x) x"
  using reads_word [of what x] by (simp add: write_word_def)

lemma reads_i64: "reads (read_i64 R what) (mp_write_sint R x) x"
proof (rule readsI)
  fix rest
  have "- (2 ^ 63) \<le> sint x" "sint x \<le> 2 ^ 63 - 1" using sint_ge [of x] sint_lt [of x] by simp_all
  then have "reads (lib what (mp_read_int R (- (2 ^ 63)) (2 ^ 63 - 1))) (mp_write_sint R x) (sint x)"
    by (intro lib_reads sint)
  then show "read_i64 R what (mp_write_sint R x @ rest) = Inr (x, rest)" by (simp add: read_i64_def reads_then give_def)
qed

lemma reads_opt:
  assumes "\<And>x. v = Some x \<Longrightarrow> reads r (w x) x" "\<And>x. not_nil (w x)"
  shows "reads (read_opt r) (write_opt R w v) v"
proof (rule readsI)
  fix rest
  show "read_opt r (write_opt R w v @ rest) = Inr (v, rest)"
    using assms by (cases v) (simp_all add: read_opt_def write_opt_def nil then_read_def [of peek_nil] peek_not_nil [unfolded then_read_def]
       reads_then give_def)
qed

lemma reads_vec:
  assumes "length xs < 2 ^ 32" "\<And>x. x \<in> set xs \<Longrightarrow> reads r (w x) x" "\<And>x. w x \<noteq> []"
  shows "reads (read_vec R what r) (write_vec R w xs) xs"
proof (rule readsI)
  fix rest
  have "length xs \<le> length (concat (map w xs) @ rest)" using length_concat_ge [of xs w] assms(3) by simp
  then show "read_vec R what r (write_vec R w xs @ rest) = Inr (xs, rest)"
    using assms(1) readsD [OF reads_read_n [OF assms(2)], of xs rest]
    by (simp add: read_vec_def write_vec_def reads_then [OF reads_array] unat_of_length del: length_concat)
qed

end

subsection \<open>What is read is well formed\<close>

text \<open>
  \<open>gives n r p\<close>: from a payload of at most \<open>n\<close> bytes the reader returns only values with \<open>p\<close>, and never more bytes than
  it was given. The bound lets a property speak about how much a decoder may allocate.
\<close>

definition gives :: "nat \<Rightarrow> 'a reader \<Rightarrow> ('a \<Rightarrow> bool) \<Rightarrow> bool" where
  "gives n r p \<longleftrightarrow> (\<forall>b x rest. length b \<le> n \<longrightarrow> r b = Inr (x, rest) \<longrightarrow> p x \<and> length rest \<le> length b)"

lemma givesI: "(\<And>b x rest. length b \<le> n \<Longrightarrow> r b = Inr (x, rest) \<Longrightarrow> p x \<and> length rest \<le> length b) \<Longrightarrow> gives n r p"
  by (simp add: gives_def)

lemma givesD: "gives n r p \<Longrightarrow> length b \<le> n \<Longrightarrow> r b = Inr (x, rest) \<Longrightarrow> p x \<and> length rest \<le> length b"
  by (simp add: gives_def)

lemma gives_then: "gives n r p \<Longrightarrow> (\<And>x. p x \<Longrightarrow> gives n (k x) q) \<Longrightarrow> gives n (then_read r k) q"
proof (rule givesI)
  fix b y rest
  assume r: "gives n r p" "\<And>x. p x \<Longrightarrow> gives n (k x) q" and b: "length b \<le> n" "then_read r k b = Inr (y, rest)"
  from b obtain x b' where x: "r b = Inr (x, b')" "k x b' = Inr (y, rest)" by (auto simp: then_read_def split: sum.splits)
  from givesD [OF r(1) b(1) x(1)] have "p x" "length b' \<le> length b" by simp_all
  with givesD [OF r(2) _ x(2)] b(1) show "q y \<and> length rest \<le> length b" by simp
qed

lemma gives_give: "p x \<Longrightarrow> gives n (give x) p"
  by (simp add: gives_def give_def)

lemma gives_map: "gives n r p \<Longrightarrow> (\<And>x. p x \<Longrightarrow> q (f x)) \<Longrightarrow> gives n (then_read r (\<lambda>x. give (f x))) q"
  by (erule gives_then) (auto intro: gives_give)

lemma gives_fail: "gives n (fail e) p"
  by (simp add: gives_def fail_def)

lemma gives_lib: "(\<And>b x rest. r b = Inr (x, rest) \<Longrightarrow> p x \<and> length rest \<le> length b) \<Longrightarrow> gives n (lib what r) p"
  by (auto simp: gives_def lib_def split: sum.splits)

lemma gives_mono: "gives n r p \<Longrightarrow> (\<And>x. p x \<Longrightarrow> q x) \<Longrightarrow> gives n r q"
  by (simp add: gives_def)

lemma gives_read_n: "gives n r p \<Longrightarrow> gives n (read_n k r) (\<lambda>xs. length xs = k \<and> list_all p xs)"
proof (induction k)
  case (Suc k)
  show ?case unfolding read_n.simps
    by (intro gives_then [OF Suc.prems] gives_then [OF Suc.IH [OF Suc.prems]] gives_give) simp
qed (simp add: gives_give)

lemma gives_bounded: "(len \<le> n \<Longrightarrow> gives n r p) \<Longrightarrow> gives n (bounded len r) p"
  by (auto simp: gives_def dest!: bounded_InrD)

lemma gives_opt: "gives n r p \<Longrightarrow> gives n (read_opt r) (pred_option p)"
  unfolding read_opt_def
proof (rule gives_then [where p = "\<lambda>_. True"])
  show "gives n peek_nil (\<lambda>_. True)"
  proof (rule givesI)
    fix b x rest assume "peek_nil b = Inr (x, rest)"
    then show "True \<and> length rest \<le> length b" by (cases b) (auto split: if_splits)
  qed
  show "gives n r p \<Longrightarrow> gives n (if x then give None else then_read r (\<lambda>x. give (Some x))) (pred_option p)" for x
    by (cases x) (auto intro!: gives_give gives_then)
qed

lemma gives_end: "gives n expect_end (\<lambda>_. True)"
  by (auto simp: gives_def expect_end_def)

lemma gives_exact:
  assumes "\<And>buf. length buf = len \<Longrightarrow> gives n (k buf) q"
  shows "gives n (bounded len (then_read (read_exact len) k)) q"
proof (rule givesI)
  fix b x rest
  assume b: "length b \<le> n" "bounded len (then_read (read_exact len) k) b = Inr (x, rest)"
  then have l: "len \<le> length b" and k: "k (take len b) (drop len b) = Inr (x, rest)"
    by (auto simp: then_read_def read_exact_def dest!: bounded_InrD)
  from l have "length (take len b) = len" by simp
  from givesD [OF assms [OF this] _ k] b(1) have "q x" "length rest \<le> length b - len" by simp_all
  then show "q x \<and> length rest \<le> length b" by simp
qed

lemma gives_decoded: "gives (length b) r p \<Longrightarrow> decoded r b = Inr x \<Longrightarrow> p x"
  by (auto simp: decoded_def gives_def split: sum.splits)

context rmp_lib
begin

lemma gives_array: "gives n (lib what (mp_read_array_len R)) (\<lambda>_. True)"
  by (rule gives_lib) (auto dest: consumes)

lemma gives_vec: "gives n r p \<Longrightarrow> gives n (read_vec R what r) (\<lambda>xs. length xs \<le> n \<and> length xs < 2 ^ 32 \<and> list_all p xs)"
  unfolding read_vec_def
proof (rule gives_then [OF gives_array], rule gives_bounded)
  fix len :: "32 word"
  assume "gives n r p" "unat len \<le> n"
  moreover have "unat len < 2 ^ 32" using unsigned_less [of len] by simp
  ultimately show "gives n (read_n (unat len) r) (\<lambda>xs. length xs \<le> n \<and> length xs < 2 ^ 32 \<and> list_all p xs)"
    by (auto intro: gives_mono [OF gives_read_n])
qed

lemma gives_arity: "gives n (expect_arity R what want) (\<lambda>_. True)"
  unfolding expect_arity_def by (rule gives_then [OF gives_array]) (auto intro: gives_give gives_fail)

lemma gives_bool: "gives n (read_bool R) (\<lambda>_. True)"
  unfolding read_bool_def
  by (rule gives_then [OF gives_lib [where p = "\<lambda>_. True"]]) (auto intro: gives_give gives_fail split: marker.split dest: consumes)

lemma gives_word: "gives n (read_word R what) (\<lambda>_. True)"
  unfolding read_word_def by (rule gives_then [OF gives_lib [where p = "\<lambda>_. True"]]) (auto intro: gives_give dest: consumes)

lemma gives_i64: "gives n (read_i64 R what) (\<lambda>_. True)"
  unfolding read_i64_def by (rule gives_then [OF gives_lib [where p = "\<lambda>_. True"]]) (auto intro: gives_give dest: consumes)

lemma gives_body:
  assumes "\<And>b m rest. r b = Inr (m, rest) \<Longrightarrow> length rest < length b"
    and "\<And>buf. length buf < 2 ^ 32 \<Longrightarrow> length buf \<le> n \<Longrightarrow> gives n (k buf) q"
  shows "gives n (then_read (lib what r) (\<lambda>len. bounded (unat (len :: 32 word)) (then_read (read_exact (unat len)) k))) q"
proof (rule gives_then [OF gives_lib [where p = "\<lambda>_. True"]])
  fix len :: "32 word"
  have "unat len < 2 ^ 32" using unsigned_less [of len] by simp
  then have "unat len \<le> n \<Longrightarrow> gives n (bounded (unat len) (then_read (read_exact (unat len)) k)) q"
    by (intro gives_exact assms(2)) simp_all
  then show "gives n (bounded (unat len) (then_read (read_exact (unat len)) k)) q"
    by (auto simp: gives_def dest: bounded_InrD)
qed (auto dest: assms(1))

lemma gives_str: "gives n (read_str R) str_ok"
  unfolding read_str_def by (rule gives_body) (auto intro: gives_give gives_fail dest: consumes simp: str_ok_def)

lemma gives_str_lossy: "gives n (read_str_lossy R) utf8_valid"
  unfolding read_str_lossy_def by (rule gives_body) (auto intro: gives_give dest: consumes simp: lossy_valid)

lemma gives_bin: "gives n (read_bin R) (\<lambda>s. length s < 2 ^ 32 \<and> length s \<le> n)"
  unfolding read_bin_def by (rule gives_body) (auto intro: gives_give dest: consumes)

lemma gives_nil: "gives n (read_nil R) (\<lambda>_. True)"
  unfolding read_nil_def
  by (rule gives_then [OF gives_lib [where p = "\<lambda>_. True"]]) (auto intro: gives_give gives_fail dest: consumes)

end

end
