(* ===== verification/Msgpack_Format.thy ===== *)
theory Msgpack_Format
  imports Msgpack
begin

text \<open>
  The MessagePack format: every family the codecs use, in its smallest width when writing and in any width when
  reading, as the format's specification defines it. It is a library that keeps the laws of \<open>rmp_lib\<close>.
\<close>

subsection \<open>Big-endian integers\<close>

definition be_bytes :: "nat \<Rightarrow> nat \<Rightarrow> u8s" where
  "be_bytes k n = rev (to_le_bytes k (word_of_nat n :: 64 word))"

definition take_be :: "nat \<Rightarrow> u8s \<Rightarrow> string + nat \<times> u8s" where
  "take_be k b = (if length b < k then Inl ''eof'' else Inr (le_nat (rev (take k b)), drop k b))"

lemma take_be_bytes: "k \<le> 8 \<Longrightarrow> n < 256 ^ k \<Longrightarrow> take_be k (be_bytes k n @ rest) = Inr (n, rest)"
proof -
  assume k: "k \<le> 8" "n < 256 ^ k"
  have "(256 :: nat) ^ k \<le> 256 ^ 8" using k by (intro power_increasing) simp_all
  with k have "n < 2 ^ 64" by simp
  then have "unat (word_of_nat n :: 64 word) = n" by (simp add: unat_of_nat)
  then show ?thesis using k by (simp add: take_be_def be_bytes_def le_nat_to_le)
qed

lemma take_be_less: "take_be k b = Inr (n, rest) \<Longrightarrow> n < 256 ^ k \<and> length rest \<le> length b"
  using le_nat_bound [of "rev (take k b)"] by (auto simp: take_be_def min_def split: if_splits)

lemma u32_less: "unat (x :: 32 word) < 4294967296" and u64_less: "unat (y :: 64 word) < 18446744073709551616"
  using unsigned_less [of x] unsigned_less [of y] by simp_all

definition octet :: "nat \<Rightarrow> 8 word" where
  "octet n = word_of_nat n"

lemma unat_octet: "n < 256 \<Longrightarrow> unat (octet n) = n"
  by (simp add: octet_def unat_of_nat)

lemma octet_eq: "n < 256 \<Longrightarrow> octet n = numeral k \<longleftrightarrow> n = unat (numeral k :: 8 word)"
  by (metis unat_octet word_unat_eq_iff)

lemma sint_unat: "sint (x :: 64 word) = (if unat x < 9223372036854775808 then int (unat x) else int (unat x) - 18446744073709551616)"
proof -
  have r: "- 9223372036854775808 \<le> sint x" "sint x < 9223372036854775808" using sint_ge [of x] sint_lt [of x] by simp_all
  define n where "n = unat x"
  have u: "int n = sint x mod 18446744073709551616" using uint_sint [of x] by (simp add: n_def take_bit_eq_mod)
  have "sint x < 0 \<Longrightarrow> (sint x + 18446744073709551616) mod 18446744073709551616 = sint x + 18446744073709551616"
    using r by (intro mod_pos_pos_trivial) simp_all
  then show ?thesis using r u unfolding n_def [symmetric] by (cases "0 \<le> sint x") (simp_all add: mod_pos_pos_trivial)
qed

subsection \<open>Families\<close>

definition f_array_len :: "32 word \<Rightarrow> u8s" where
  "f_array_len n =
     (if unat n < 16 then [octet (0x90 + unat n)] else if unat n < 65536 then 0xdc # be_bytes 2 (unat n) else 0xdd # be_bytes 4 (unat n))"

definition f_read_array_len :: "u8s \<Rightarrow> string + 32 word \<times> u8s" where
  "f_read_array_len b =
     (case b of
        [] \<Rightarrow> Inl ''eof''
      | m # b \<Rightarrow>
          if 0x90 \<le> unat m \<and> unat m < 0xa0 then Inr (word_of_nat (unat m - 0x90), b)
          else if m = 0xdc then map_sum id (map_prod word_of_nat id) (take_be 2 b)
          else if m = 0xdd then map_sum id (map_prod word_of_nat id) (take_be 4 b)
          else Inl ''marker'')"

definition f_uint :: "64 word \<Rightarrow> u8s" where
  "f_uint x =
     (let n = unat x in
      if n < 128 then [octet n] else if n < 256 then 0xcc # be_bytes 1 n else if n < 65536 then 0xcd # be_bytes 2 n
      else if n < 4294967296 then 0xce # be_bytes 4 n else 0xcf # be_bytes 8 n)"

definition f_sint :: "64 word \<Rightarrow> u8s" where
  "f_sint x =
     (let i = sint x in
      if 0 \<le> i then f_uint x
      else if - 32 \<le> i then [octet (nat (i + 256))]
      else if - 128 \<le> i then 0xd0 # be_bytes 1 (nat (i + 256))
      else if - 32768 \<le> i then 0xd1 # be_bytes 2 (nat (i + 65536))
      else if - 2147483648 \<le> i then 0xd2 # be_bytes 4 (nat (i + 4294967296))
      else 0xd3 # be_bytes 8 (unat x))"

definition signed_of :: "nat \<Rightarrow> nat \<Rightarrow> int" where
  "signed_of k n = (if 2 * n < 256 ^ k then int n else int n - 256 ^ k)"

definition f_any_int :: "u8s \<Rightarrow> string + int \<times> u8s" where
  "f_any_int b =
     (case b of
        [] \<Rightarrow> Inl ''eof''
      | m # b \<Rightarrow>
          if unat m < 0x80 then Inr (int (unat m), b)
          else if 0xe0 \<le> unat m then Inr (int (unat m) - 256, b)
          else if m = 0xcc then map_sum id (map_prod int id) (take_be 1 b)
          else if m = 0xcd then map_sum id (map_prod int id) (take_be 2 b)
          else if m = 0xce then map_sum id (map_prod int id) (take_be 4 b)
          else if m = 0xcf then map_sum id (map_prod int id) (take_be 8 b)
          else if m = 0xd0 then map_sum id (map_prod (signed_of 1) id) (take_be 1 b)
          else if m = 0xd1 then map_sum id (map_prod (signed_of 2) id) (take_be 2 b)
          else if m = 0xd2 then map_sum id (map_prod (signed_of 4) id) (take_be 4 b)
          else if m = 0xd3 then map_sum id (map_prod (signed_of 8) id) (take_be 8 b)
          else Inl ''marker'')"

definition f_read_int :: "int \<Rightarrow> int \<Rightarrow> u8s \<Rightarrow> string + int \<times> u8s" where
  "f_read_int lo hi b =
     (case f_any_int b of
        Inl e \<Rightarrow> Inl e
      | Inr (i, rest) \<Rightarrow> if lo \<le> i \<and> i \<le> hi then Inr (i, rest) else Inl ''range'')"

definition f_f64 :: "64 word \<Rightarrow> u8s" where
  "f_f64 x = 0xcb # be_bytes 8 (unat x)"

definition f_read_f64 :: "u8s \<Rightarrow> string + 64 word \<times> u8s" where
  "f_read_f64 b =
     (case b of
        [] \<Rightarrow> Inl ''eof''
      | m # b \<Rightarrow> if m = 0xcb then map_sum id (map_prod word_of_nat id) (take_be 8 b) else Inl ''marker'')"

definition f_str :: "u8s \<Rightarrow> u8s" where
  "f_str s =
     (let n = length s in
      (if n < 32 then [octet (0xa0 + n)] else if n < 256 then 0xd9 # be_bytes 1 n
       else if n < 65536 then 0xda # be_bytes 2 n else 0xdb # be_bytes 4 n) @ s)"

definition f_read_str_len :: "u8s \<Rightarrow> string + 32 word \<times> u8s" where
  "f_read_str_len b =
     (case b of
        [] \<Rightarrow> Inl ''eof''
      | m # b \<Rightarrow>
          if 0xa0 \<le> unat m \<and> unat m < 0xc0 then Inr (word_of_nat (unat m - 0xa0), b)
          else if m = 0xd9 then map_sum id (map_prod word_of_nat id) (take_be 1 b)
          else if m = 0xda then map_sum id (map_prod word_of_nat id) (take_be 2 b)
          else if m = 0xdb then map_sum id (map_prod word_of_nat id) (take_be 4 b)
          else Inl ''marker'')"

definition f_bin :: "u8s \<Rightarrow> u8s" where
  "f_bin s =
     (let n = length s in
      (if n < 256 then 0xc4 # be_bytes 1 n else if n < 65536 then 0xc5 # be_bytes 2 n else 0xc6 # be_bytes 4 n) @ s)"

definition f_read_bin_len :: "u8s \<Rightarrow> string + 32 word \<times> u8s" where
  "f_read_bin_len b =
     (case b of
        [] \<Rightarrow> Inl ''eof''
      | m # b \<Rightarrow>
          if m = 0xc4 then map_sum id (map_prod word_of_nat id) (take_be 1 b)
          else if m = 0xc5 then map_sum id (map_prod word_of_nat id) (take_be 2 b)
          else if m = 0xc6 then map_sum id (map_prod word_of_nat id) (take_be 4 b)
          else Inl ''marker'')"

definition f_read_marker :: "u8s \<Rightarrow> string + marker \<times> u8s" where
  "f_read_marker b =
     (case b of
        [] \<Rightarrow> Inl ''eof''
      | m # b \<Rightarrow> Inr (if m = 0xc0 then MNull else if m = 0xc3 then MTrue else if m = 0xc2 then MFalse else MOther ''marker'', b))"

definition f_read_pfix :: "u8s \<Rightarrow> string + 8 word \<times> u8s" where
  "f_read_pfix b = (case b of [] \<Rightarrow> Inl ''eof'' | m # b \<Rightarrow> if unat m < 0x80 then Inr (m, b) else Inl ''marker'')"

subsection \<open>They read what they write\<close>

lemma f_array: "f_read_array_len (f_array_len n @ rest) = Inr (n, rest)"
  using u32_less [of n] by (simp add: f_array_len_def f_read_array_len_def take_be_bytes unat_octet)

lemma f_uint: "f_any_int (f_uint x @ rest) = Inr (uint x, rest)"
  using u64_less [of x] by (simp add: f_uint_def f_any_int_def take_be_bytes unat_octet Let_def)

lemma f_sint: "f_any_int (f_sint x @ rest) = Inr (sint x, rest)"
proof -
  note u = sint_unat [of x]
  consider "0 \<le> sint x" | "- 32 \<le> sint x" "sint x < 0" | "- 128 \<le> sint x" "sint x < - 32"
    | "- 32768 \<le> sint x" "sint x < - 128" | "- 2147483648 \<le> sint x" "sint x < - 32768" | "sint x < - 2147483648"
    by linarith
  then show ?thesis
  proof cases
    case 1
    then have "uint x = sint x" using u u64_less [of x] by (simp split: if_splits)
    with 1 show ?thesis by (simp add: f_sint_def f_uint)
  next
    case 2
    then have "nat (sint x + 256) < 256" "224 \<le> nat (sint x + 256)" by simp_all
    with 2 show ?thesis by (simp add: f_sint_def f_any_int_def unat_octet)
  next
    case 3
    then show ?thesis by (simp add: f_sint_def f_any_int_def take_be_bytes signed_of_def)
  next
    case 4
    then show ?thesis by (simp add: f_sint_def f_any_int_def take_be_bytes signed_of_def)
  next
    case 5
    then show ?thesis by (simp add: f_sint_def f_any_int_def take_be_bytes signed_of_def)
  next
    case 6
    then show ?thesis using u u64_less [of x] by (simp add: f_sint_def f_any_int_def take_be_bytes signed_of_def)
  qed
qed

lemma f_f64: "f_read_f64 (f_f64 x @ rest) = Inr (x, rest)"
  using u64_less [of x] by (simp add: f_f64_def f_read_f64_def take_be_bytes)

lemma f_str: "length s < 2 ^ 32 \<Longrightarrow> f_read_str_len (f_str s @ rest) = Inr (word_of_nat (length s), s @ rest)"
  by (simp add: f_str_def f_read_str_len_def take_be_bytes unat_octet Let_def)

lemma f_bin: "length s < 2 ^ 32 \<Longrightarrow> f_read_bin_len (f_bin s @ rest) = Inr (word_of_nat (length s), s @ rest)"
  by (simp add: f_bin_def f_read_bin_len_def take_be_bytes Let_def)

lemma f_bin_body: "\<exists>header. f_bin s = header @ s"
  by (simp add: f_bin_def Let_def)

lemma f_not_nil:
  "not_nil (f_array_len n)" "not_nil (f_uint x)" "not_nil (f_sint x)" "not_nil (f_str s)" "not_nil (f_bin s)"
  by (auto simp: not_nil_def f_array_len_def f_uint_def f_sint_def f_str_def f_bin_def Let_def octet_eq)

lemma take_be_map: "map_sum id (map_prod f id) (take_be k b) = Inr (m, rest) \<Longrightarrow> length rest \<le> length b"
  by (auto simp: take_be_def split: if_splits)

lemma f_consumes:
  "f_read_array_len b = Inr (m, rest) \<Longrightarrow> length rest < length b" "f_read_pfix b = Inr (t, rest) \<Longrightarrow> length rest < length b"
  "f_read_marker b = Inr (mk, rest) \<Longrightarrow> length rest < length b" "f_read_f64 b = Inr (x, rest) \<Longrightarrow> length rest < length b"
  "f_read_str_len b = Inr (m, rest) \<Longrightarrow> length rest < length b" "f_read_bin_len b = Inr (m, rest) \<Longrightarrow> length rest < length b"
  by (auto simp: f_read_array_len_def f_read_pfix_def f_read_marker_def f_read_f64_def f_read_str_len_def f_read_bin_len_def
     less_Suc_eq_le split: list.splits if_splits dest!: take_be_map)

lemma f_int_consumes: "f_any_int b = Inr (i, rest) \<Longrightarrow> length rest < length b"
  by (auto simp: f_any_int_def less_Suc_eq_le split: list.splits if_splits dest!: take_be_map)

subsection \<open>Derived structs\<close>

fun f_serialize :: "ser \<Rightarrow> u8s" where
  "f_serialize (SUint x) = f_uint x"
| "f_serialize (SInt x) = f_sint x"
| "f_serialize (SBool c) = [if c then 0xc3 else 0xc2]"
| "f_serialize (SStr s) = f_str (as_bytes s)"
| "f_serialize SNil = [0xc0]"
| "f_serialize (SArr vs) = f_array_len (word_of_nat (length vs)) @ concat (map f_serialize vs)"

definition f_then :: "(u8s \<Rightarrow> string + 'a \<times> u8s) \<Rightarrow> ('a \<Rightarrow> u8s \<Rightarrow> string + 'b \<times> u8s) \<Rightarrow> u8s \<Rightarrow> string + 'b \<times> u8s" where
  "f_then r k b = (case r b of Inl e \<Rightarrow> Inl e | Inr (a, rest) \<Rightarrow> k a rest)"

fun f_all :: "(u8s \<Rightarrow> string + ser \<times> u8s) list \<Rightarrow> u8s \<Rightarrow> string + ser list \<times> u8s" where
  "f_all [] = (\<lambda>b. Inr ([], b))"
| "f_all (r # rs) = f_then r (\<lambda>v. f_then (f_all rs) (\<lambda>vs b. Inr (v # vs, b)))"

definition f_string :: "u8s \<Rightarrow> string + ser \<times> u8s" where
  "f_string = f_then f_read_str_len (\<lambda>n b.
     if length b < unat n then Inl ''eof''
     else if utf8_valid (of_bytes (take (unat n) b)) then Inr (SStr (of_bytes (take (unat n) b)), drop (unat n) b)
     else Inl ''utf8'')"

primrec f_deserialize :: "shape \<Rightarrow> u8s \<Rightarrow> string + ser \<times> u8s" where
  "f_deserialize (ShUint k) = f_then (f_read_int 0 (min (2 ^ k - 1) (2 ^ 64 - 1))) (\<lambda>i b. Inr (SUint (word_of_int i), b))"
| "f_deserialize (ShInt k) =
     f_then (f_read_int (max (- (2 ^ (k - 1))) (- (2 ^ 63))) (min (2 ^ (k - 1) - 1) (2 ^ 63 - 1))) (\<lambda>i b. Inr (SInt (word_of_int i), b))"
| "f_deserialize ShBool =
     f_then f_read_marker (\<lambda>m b. case m of MTrue \<Rightarrow> Inr (SBool True, b) | MFalse \<Rightarrow> Inr (SBool False, b) | _ \<Rightarrow> Inl ''bool'')"
| "f_deserialize ShStr = f_string"
| "f_deserialize (ShOpt sh) = (\<lambda>b. if b \<noteq> [] \<and> hd b = 0xc0 then Inr (SNil, tl b) else f_deserialize sh b)"
| "f_deserialize (ShVec sh) =
     f_then f_read_array_len (\<lambda>n. f_then (f_all (replicate (unat n) (f_deserialize sh))) (\<lambda>vs b. Inr (SArr vs, b)))"
| "f_deserialize (ShStruct shs) =
     f_then f_read_array_len (\<lambda>n.
       if unat n \<noteq> length shs then (\<lambda>b. Inl ''length'')
       else f_then (f_all (map f_deserialize shs)) (\<lambda>vs b. Inr (SArr vs, b)))"

definition msgpack :: rmp where
  "msgpack = \<lparr>mp_write_array_len = f_array_len, mp_write_pfix = (\<lambda>t. [t]), mp_write_nil = [0xc0],
     mp_write_bool = (\<lambda>c. [if c then 0xc3 else 0xc2]), mp_write_sint = f_sint, mp_write_uint = f_uint,
     mp_write_f64 = f_f64, mp_write_str = f_str, mp_write_bin = f_bin, mp_read_array_len = f_read_array_len,
     mp_read_pfix = f_read_pfix, mp_read_marker = f_read_marker, mp_read_int = f_read_int, mp_read_f64 = f_read_f64,
     mp_read_str_len = f_read_str_len, mp_read_bin_len = f_read_bin_len, mp_serialize = f_serialize,
     mp_deserialize = f_deserialize\<rparr>"

lemma f_all_reads:
  "list_all2 (\<lambda>r v. \<forall>rest. r (f_serialize v @ rest) = Inr (v, rest)) rs vs \<Longrightarrow>
     f_all rs (concat (map f_serialize vs) @ rest) = Inr (vs, rest)"
  by (induction rs vs arbitrary: rest rule: list_all2_induct) (simp_all add: f_then_def)

lemma f_all_gives: "f_all rs b = Inr (vs, rest) \<Longrightarrow> list_all2 (\<lambda>r v. \<exists>b rest. r b = Inr (v, rest)) rs vs"
  by (induction rs arbitrary: b vs rest) (fastforce simp: f_then_def split: sum.splits)+

lemma f_read_int_reads:
  "lo \<le> uint x \<Longrightarrow> uint x \<le> hi \<Longrightarrow> f_read_int lo hi (f_uint x @ rest) = Inr (uint x, rest)"
  "lo \<le> sint x \<Longrightarrow> sint x \<le> hi \<Longrightarrow> f_read_int lo hi (f_sint x @ rest) = Inr (sint x, rest)"
  by (simp_all add: f_read_int_def f_uint f_sint)

lemma f_read_int_range: "f_read_int lo hi b = Inr (i, rest) \<Longrightarrow> lo \<le> i \<and> i \<le> hi"
  by (auto simp: f_read_int_def split: sum.splits if_splits)

lemma f_read_int_consumes: "f_read_int lo hi b = Inr (i, rest) \<Longrightarrow> length rest < length b"
  by (auto simp: f_read_int_def split: sum.splits if_splits dest!: f_int_consumes)

lemma f_string_reads: "str_ok s \<Longrightarrow> f_string (f_str (as_bytes s) @ rest) = Inr (SStr s, rest)"
  using f_str [of "as_bytes s" rest] by (simp add: f_string_def f_then_def str_ok_def unat_of_length)

lemma f_string_gives: "f_string b = Inr (v, rest) \<Longrightarrow> shaped ShStr v"
  using u32_less by (auto simp: f_string_def f_then_def str_ok_def min_def split: sum.splits if_splits)

lemma shaped_not_nil: "shaped sh v \<Longrightarrow> v \<noteq> SNil \<Longrightarrow> not_nil (f_serialize v)"
  by (cases v) (simp_all add: f_not_nil not_nil_append not_nil_def [of "[_]"])

lemma f_deserialize_reads: "shaped sh v \<Longrightarrow> f_deserialize sh (f_serialize v @ rest) = Inr (v, rest)"
proof (induction sh arbitrary: v rest)
  case (ShUint k)
  then obtain x where v: "v = SUint x" and x: "unat x < 2 ^ k" by (cases v) auto
  from x have "int (unat x) < int (2 ^ k)" by (subst of_nat_less_iff)
  then have "uint x \<le> min (2 ^ k - 1) (2 ^ 64 - 1)" using uint_lt2p [of x] by simp
  from f_read_int_reads(1) [OF _ this] show ?case by (simp add: v f_then_def)
next
  case (ShInt k)
  then obtain x where v: "v = SInt x" and x: "- (2 ^ (k - 1)) \<le> sint x" "sint x < 2 ^ (k - 1)" by (cases v) auto
  from x have "max (- (2 ^ (k - 1))) (- (2 ^ 63)) \<le> sint x" "sint x \<le> min (2 ^ (k - 1) - 1) (2 ^ 63 - 1)"
    using sint_ge [of x] sint_lt [of x] by simp_all
  from f_read_int_reads(2) [OF this] show ?case by (simp add: v f_then_def)
next
  case ShBool
  then show ?case by (cases v) (auto simp: f_then_def f_read_marker_def)
next
  case ShStr
  then show ?case by (cases v) (auto simp: f_string_reads)
next
  case (ShOpt sh)
  show ?case
  proof (cases "v = SNil")
    case False
    then have "not_nil (f_serialize v)" using ShOpt.prems shaped_not_nil by auto
    then show ?thesis using ShOpt False by (simp add: not_nil_def)
  qed simp
next
  case (ShVec sh)
  then obtain vs where v: "v = SArr vs" and n: "length vs < 2 ^ 32" and vs: "list_all (shaped sh) vs" by (cases v) auto
  from vs have "list_all2 (\<lambda>r v. \<forall>rest. r (f_serialize v @ rest) = Inr (v, rest)) (replicate (length vs) (f_deserialize sh)) vs"
    using ShVec.IH by (simp add: list_all2_conv_all_nth list_all_length)
  from f_all_reads [OF this] show ?case using n by (simp add: v f_then_def f_array unat_of_length)
next
  case (ShStruct shs)
  then obtain vs where v: "v = SArr vs" and n: "length vs < 2 ^ 32" and vs: "list_all2 (\<lambda>p v. p v) (map shaped shs) vs"
    by (cases v) auto
  from vs have "list_all2 (\<lambda>r v. \<forall>rest. r (f_serialize v @ rest) = Inr (v, rest)) (map f_deserialize shs) vs"
    using ShStruct.IH by (simp add: list_all2_conv_all_nth)
  from f_all_reads [OF this] show ?case using n list_all2_lengthD [OF vs] by (simp add: v f_then_def f_array unat_of_length)
qed

lemma f_deserialize_gives: "f_deserialize sh b = Inr (v, rest) \<Longrightarrow> shaped sh v"
proof (induction sh arbitrary: b v rest)
  case (ShUint k)
  then obtain i where i: "v = SUint (word_of_int i)" "0 \<le> i" "i \<le> 2 ^ k - 1" "i \<le> 2 ^ 64 - 1"
    by (auto simp: f_then_def split: sum.splits dest!: f_read_int_range)
  then have "int (unat (word_of_int i :: 64 word)) < int (2 ^ k)" by (simp add: uint_word_of_int_eq take_bit_int_eq_self)
  then show ?case using i by (subst (asm) of_nat_less_iff) simp
next
  case (ShInt k)
  then obtain i where i: "v = SInt (word_of_int i)" "- (2 ^ (k - 1)) \<le> i" "- (2 ^ 63) \<le> i" "i \<le> 2 ^ (k - 1) - 1" "i \<le> 2 ^ 63 - 1"
    by (auto simp: f_then_def split: sum.splits dest!: f_read_int_range)
  then have "sint (word_of_int i :: 64 word) = i" by (simp add: sint_sbintrunc' signed_take_bit_int_eq_self)
  then show ?case using i by simp
next
  case ShBool
  then show ?case by (auto simp: f_then_def split: sum.splits marker.splits)
next
  case ShStr
  then show ?case using f_string_gives by simp
next
  case (ShOpt sh)
  then show ?case by (auto split: if_splits)
next
  case (ShVec sh)
  then obtain n vs b' where v: "v = SArr vs" and vs: "f_all (replicate (unat (n :: 32 word)) (f_deserialize sh)) b' = Inr (vs, rest)"
    by (auto simp: f_then_def split: sum.splits)
  from f_all_gives [OF vs] show ?case using ShVec.IH u32_less [of n]
    by (simp add: v list_all2_conv_all_nth list_all_length) metis
next
  case (ShStruct shs)
  then obtain n vs b' where v: "v = SArr vs" "unat (n :: 32 word) = length shs" and vs: "f_all (map f_deserialize shs) b' = Inr (vs, rest)"
    by (auto simp: f_then_def split: sum.splits if_splits)
  from f_all_gives [OF vs] show ?case using ShStruct.IH u32_less [of n] v
    by (simp add: list_all2_conv_all_nth) (metis nth_mem)
qed

interpretation format: rmp_lib msgpack
proof unfold_locales
qed (simp_all add: msgpack_def f_array f_read_pfix_def f_read_marker_def f_read_int_reads f_f64 f_str f_bin f_not_nil
   f_deserialize_reads f_consumes f_read_int_consumes f_read_int_range f_deserialize_gives f_bin_body not_nil_def [of "[_]"])

end
