(* ===== verification/Messages.thy ===== *)
theory Messages
  imports Msgpack_Format Values
begin

text \<open>
  The protocol's messages (\<open>ferro-proto/src/messages.rs\<close>, \<open>messages/tx.rs\<close>, \<open>messages/admin.rs\<close>, \<open>messages/copy.rs\<close>) and the
  typed values they carry (\<open>value.rs\<close>). A message declared by \<open>msg!\<close> is a struct whose codec \<open>serde\<close> derives: its
  fields in declaration order, an absent option as \<open>nil\<close>. The locale \<open>derived_message\<close> states what such a codec gives and
  is interpreted on every one of them. \<open>Outcome\<close>, \<open>CopyData\<close> and \<open>Value\<close> have hand-written codecs.
\<close>

subsection \<open>Derived structs\<close>

text \<open>Fields to and from what \<open>serde\<close> sees. The deserializer returns only what its shape asks for, so the other cases do not arise.\<close>

definition ser_u :: "'a::len word \<Rightarrow> ser" where
  "ser_u n = SUint (ucast n)"

definition ser_i :: "'a::len word \<Rightarrow> ser" where
  "ser_i n = SInt (scast n)"

definition ser_opt :: "('a \<Rightarrow> ser) \<Rightarrow> 'a option \<Rightarrow> ser" where
  "ser_opt f v = (case v of None \<Rightarrow> SNil | Some x \<Rightarrow> f x)"

definition u_of :: "ser \<Rightarrow> 'a::len word" where
  "u_of v = (case v of SUint n \<Rightarrow> ucast n | _ \<Rightarrow> 0)"

definition i_of :: "ser \<Rightarrow> 'a::len word" where
  "i_of v = (case v of SInt n \<Rightarrow> ucast n | _ \<Rightarrow> 0)"

definition b_of :: "ser \<Rightarrow> bool" where
  "b_of v = (case v of SBool b \<Rightarrow> b | _ \<Rightarrow> False)"

definition s_of :: "ser \<Rightarrow> string" where
  "s_of v = (case v of SStr s \<Rightarrow> s | _ \<Rightarrow> [])"

definition opt_of :: "(ser \<Rightarrow> 'a) \<Rightarrow> ser \<Rightarrow> 'a option" where
  "opt_of g v = (if v = SNil then None else Some (g v))"

definition vec_of :: "(ser \<Rightarrow> 'a) \<Rightarrow> ser \<Rightarrow> 'a list" where
  "vec_of g v = (case v of SArr vs \<Rightarrow> map g vs | _ \<Rightarrow> [])"

locale derived_message =
  fixes sh :: shape and ser :: "'m \<Rightarrow> ser" and conv :: "ser \<Rightarrow> 'm option" and wf :: "'m \<Rightarrow> bool"
  assumes conv_ser: "conv (ser m) = Some m"
    and ser_shaped: "wf m \<Longrightarrow> shaped sh (ser m)"
    and shaped_conv: "shaped sh v \<Longrightarrow> \<exists>m. conv v = Some m \<and> wf m"
begin

lemma decode_encode:
  assumes "rmp_lib R" "wf m"
  shows "from_slice R sh conv (to_vec R (ser m) @ rest) = (if rest = [] then Inr m else Inl (TrailingBytes (length rest)))"
  using rmp_lib.deserialize [OF assms(1) ser_shaped [OF assms(2)], of rest]
  by (simp add: from_slice_def to_vec_def conv_ser)

lemma decode_wf: "rmp_lib R \<Longrightarrow> from_slice R sh conv b = Inr m \<Longrightarrow> wf m"
  by (auto simp: from_slice_def split: sum.splits option.splits if_splits dest!: rmp_lib.deserialized shaped_conv)

end

named_theorems derived

lemma ucast_back: "LENGTH('a) \<le> 64 \<Longrightarrow> ucast (ucast x :: 64 word) = x" for x :: "'a::len word"
  by (rule bit_word_eqI) (simp add: bit_ucast_iff)

lemma ucast_scast_back: "LENGTH('a) \<le> 64 \<Longrightarrow> ucast (scast x :: 64 word) = x" for x :: "'a::len word"
  by (rule bit_word_eqI) (simp add: bit_simps)

lemma unat_ucast_less: "unat (ucast x :: 64 word) < 2 ^ LENGTH('a)" for x :: "'a::len word"
  by (simp add: unsigned_ucast_eq order.strict_trans1 [OF take_bit_nat_less_eq_self unsigned_less])

lemma sint_scast_range:
  fixes x :: "'a::len word"
  assumes "LENGTH('a) \<le> 64"
  shows "- (2 ^ (LENGTH('a) - 1)) \<le> sint (scast x :: 64 word) \<and> sint (scast x :: 64 word) < 2 ^ (LENGTH('a) - 1)"
proof -
  have "(2 :: int) ^ (LENGTH('a) - 1) \<le> 2 ^ 63" using assms by (intro power_increasing) simp_all
  then have "sint (scast x :: 64 word) = sint x"
    using sint_ge [of x] sint_lt [of x] by (simp add: signed_scast_eq signed_take_bit_int_eq_self)
  then show ?thesis using sint_ge [of x] sint_lt [of x] by simp
qed

lemma field_simps [derived]:
  fixes n8 :: "8 word" and n16 :: "16 word" and n32 :: "32 word" and n64 :: "64 word"
  shows "u_of (ser_u n8) = n8" "u_of (ser_u n16) = n16" "u_of (ser_u n32) = n32" "u_of (ser_u n64) = n64"
    "i_of (ser_i n32) = n32" "s_of (SStr s) = s" "b_of (SBool b) = b"
    "opt_of s_of (ser_opt SStr so) = so" "opt_of b_of (ser_opt SBool bo) = bo"
    "opt_of u_of (ser_opt ser_u uo) = (uo :: 8 word option)" "opt_of u_of (ser_opt ser_u vo) = (vo :: 32 word option)"
    "opt_of u_of (ser_opt ser_u wo) = (wo :: 64 word option)" "opt_of i_of (ser_opt ser_i xo) = (xo :: 32 word option)"
  by (simp_all add: u_of_def ser_u_def i_of_def ser_i_def s_of_def b_of_def opt_of_def ser_opt_def ucast_back ucast_scast_back
     split: option.split)

lemma field_shaped [derived]:
  fixes n8 :: "8 word" and n16 :: "16 word" and n32 :: "32 word" and n64 :: "64 word"
  shows "shaped (ShUint 8) (ser_u n8)" "shaped (ShUint 16) (ser_u n16)" "shaped (ShUint 32) (ser_u n32)"
    "shaped (ShUint 64) (ser_u n64)" "shaped (ShInt 32) (ser_i n32)" "shaped ShStr (SStr s) \<longleftrightarrow> str_ok s"
    "shaped ShBool (SBool b)" "shaped (ShStruct shs) (SArr vs) \<longleftrightarrow> length vs < 2 ^ 32 \<and> list_all2 shaped shs vs"
  using unat_ucast_less [of n8] unat_ucast_less [of n16] unat_ucast_less [of n32] unat_ucast_less [of n64]
    sint_scast_range [of n32]
  by (simp_all add: ser_u_def ser_i_def list_all2_map1)

lemma opt_shaped [derived]: "shaped (ShOpt sh) (ser_opt f v)" if "pred_option (\<lambda>x. shaped sh (f x)) v"
  using that by (cases v) (simp_all add: ser_opt_def)

lemma shaped_struct [derived]: "shaped (ShStruct shs) v \<longleftrightarrow> (\<exists>vs. v = SArr vs \<and> length vs < 2 ^ 32 \<and> list_all2 shaped shs vs)"
  by (cases v) (simp_all add: list_all2_map1)

lemma shaped_str: "shaped ShStr v \<Longrightarrow> str_ok (s_of v)" "shaped (ShOpt ShStr) v \<Longrightarrow> pred_option str_ok (opt_of s_of v)"
  by (auto simp: s_of_def opt_of_def split: ser.splits)

declare shaped.simps [simp del]

lemma opt_shaped_any [derived]:
  "shaped (ShOpt ShBool) (ser_opt SBool bo)" "shaped (ShOpt (ShUint 8)) (ser_opt ser_u (uo :: 8 word option))"
  "shaped (ShOpt (ShUint 32)) (ser_opt ser_u (vo :: 32 word option))"
  "shaped (ShOpt (ShUint 64)) (ser_opt ser_u (wo :: 64 word option))"
  "shaped (ShOpt (ShInt 32)) (ser_opt ser_i (xo :: 32 word option))"
  by (rule opt_shaped, simp add: field_shaped option.pred_set)+

lemmas shape_parts = list_all2_Cons1 list_all2_Nil

subsection \<open>Core messages\<close>

record hello =
  hl_client_version :: "32 word"
  hl_type_registry_hash :: string
  hl_manifest_hash :: "string option"
  hl_pid :: "32 word"
  hl_features :: "32 word"

definition hello_shape :: shape where
  "hello_shape = ShStruct [ShUint 32, ShStr, ShOpt ShStr, ShUint 32, ShUint 32]"

definition hello_ser :: "hello \<Rightarrow> ser" where
  "hello_ser m = SArr [ser_u (hl_client_version m), SStr (hl_type_registry_hash m), ser_opt SStr (hl_manifest_hash m), ser_u (hl_pid m), ser_u (hl_features m)]"

definition hello_conv :: "ser \<Rightarrow> hello option" where
  "hello_conv v =
     (case v of
        SArr [v0, v1, v2, v3, v4] \<Rightarrow>
          Some \<lparr>hl_client_version = u_of v0, hl_type_registry_hash = s_of v1, hl_manifest_hash = opt_of s_of v2, hl_pid = u_of v3, hl_features = u_of v4\<rparr>
      | _ \<Rightarrow> None)"

definition hello_wf :: "hello \<Rightarrow> bool" where
  "hello_wf m \<longleftrightarrow> str_ok (hl_type_registry_hash m) \<and> pred_option str_ok (hl_manifest_hash m)"

definition hello_encode :: "rmp \<Rightarrow> hello \<Rightarrow> u8s" where
  "hello_encode R m = to_vec R (hello_ser m)"

definition hello_decode :: "rmp \<Rightarrow> u8s \<Rightarrow> codec_error + hello" where
  "hello_decode R = from_slice R hello_shape hello_conv"

interpretation hello_msg: derived_message hello_shape hello_ser hello_conv hello_wf
  by unfold_locales (auto simp: hello_shape_def hello_ser_def hello_conv_def hello_wf_def derived shape_parts shaped_str)

record pool_info =
  pi_name :: string
  pi_kind :: string
  pi_server_version :: "string option"
  pi_literals_are_standard :: "bool option"

definition pool_info_shape :: shape where
  "pool_info_shape = ShStruct [ShStr, ShStr, ShOpt ShStr, ShOpt ShBool]"

definition pool_info_ser :: "pool_info \<Rightarrow> ser" where
  "pool_info_ser m = SArr [SStr (pi_name m), SStr (pi_kind m), ser_opt SStr (pi_server_version m), ser_opt SBool (pi_literals_are_standard m)]"

definition pool_info_conv :: "ser \<Rightarrow> pool_info option" where
  "pool_info_conv v =
     (case v of
        SArr [v0, v1, v2, v3] \<Rightarrow>
          Some \<lparr>pi_name = s_of v0, pi_kind = s_of v1, pi_server_version = opt_of s_of v2, pi_literals_are_standard = opt_of b_of v3\<rparr>
      | _ \<Rightarrow> None)"

definition pool_info_of :: "ser \<Rightarrow> pool_info" where
  "pool_info_of v =
     (case pool_info_conv v of
        Some m \<Rightarrow> m
      | None \<Rightarrow> \<lparr>pi_name = [], pi_kind = [], pi_server_version = None, pi_literals_are_standard = None\<rparr>)"

definition pool_info_wf :: "pool_info \<Rightarrow> bool" where
  "pool_info_wf m \<longleftrightarrow> str_ok (pi_name m) \<and> str_ok (pi_kind m) \<and> pred_option str_ok (pi_server_version m)"

definition pool_info_encode :: "rmp \<Rightarrow> pool_info \<Rightarrow> u8s" where
  "pool_info_encode R m = to_vec R (pool_info_ser m)"

definition pool_info_decode :: "rmp \<Rightarrow> u8s \<Rightarrow> codec_error + pool_info" where
  "pool_info_decode R = from_slice R pool_info_shape pool_info_conv"

interpretation pool_info_msg: derived_message pool_info_shape pool_info_ser pool_info_conv pool_info_wf
  by unfold_locales (auto simp: pool_info_shape_def pool_info_ser_def pool_info_conv_def pool_info_wf_def derived shape_parts shaped_str)

lemma pool_info_back: "pool_info_of (pool_info_ser m) = m"
  by (simp add: pool_info_of_def pool_info_msg.conv_ser)

lemma pool_infos:
  "vec_of pool_info_of (SArr (map pool_info_ser ms)) = ms"
  "length ms < 2 ^ 32 \<Longrightarrow> list_all pool_info_wf ms \<Longrightarrow> shaped (ShVec pool_info_shape) (SArr (map pool_info_ser ms))"
  by (simp_all add: vec_of_def comp_def pool_info_back shaped.simps list_all_iff pool_info_msg.ser_shaped)

lemma shaped_pool_infos:
  assumes "shaped (ShVec pool_info_shape) v"
  shows "length (vec_of pool_info_of v) < 2 ^ 32 \<and> list_all pool_info_wf (vec_of pool_info_of v)"
  using assms by (auto simp: shaped.simps vec_of_def list_all_iff pool_info_of_def split: ser.splits dest!: pool_info_msg.shaped_conv bspec)

record hello_ack =
  ha_engine_version :: "32 word"
  ha_boot_epoch :: "64 word"
  ha_features :: "32 word"
  ha_pools :: "pool_info list"
  ha_type_registry_hash :: string

definition hello_ack_shape :: shape where
  "hello_ack_shape = ShStruct [ShUint 32, ShUint 64, ShUint 32, ShVec pool_info_shape, ShStr]"

definition hello_ack_ser :: "hello_ack \<Rightarrow> ser" where
  "hello_ack_ser m = SArr [ser_u (ha_engine_version m), ser_u (ha_boot_epoch m), ser_u (ha_features m), SArr (map pool_info_ser (ha_pools m)), SStr (ha_type_registry_hash m)]"

definition hello_ack_conv :: "ser \<Rightarrow> hello_ack option" where
  "hello_ack_conv v =
     (case v of
        SArr [v0, v1, v2, v3, v4] \<Rightarrow>
          Some \<lparr>ha_engine_version = u_of v0, ha_boot_epoch = u_of v1, ha_features = u_of v2, ha_pools = vec_of pool_info_of v3, ha_type_registry_hash = s_of v4\<rparr>
      | _ \<Rightarrow> None)"

definition hello_ack_wf :: "hello_ack \<Rightarrow> bool" where
  "hello_ack_wf m \<longleftrightarrow> length (ha_pools m) < 2 ^ 32 \<and> list_all pool_info_wf (ha_pools m) \<and> str_ok (ha_type_registry_hash m)"

definition hello_ack_encode :: "rmp \<Rightarrow> hello_ack \<Rightarrow> u8s" where
  "hello_ack_encode R m = to_vec R (hello_ack_ser m)"

definition hello_ack_decode :: "rmp \<Rightarrow> u8s \<Rightarrow> codec_error + hello_ack" where
  "hello_ack_decode R = from_slice R hello_ack_shape hello_ack_conv"

interpretation hello_ack_msg: derived_message hello_ack_shape hello_ack_ser hello_ack_conv hello_ack_wf
  by unfold_locales
    (auto simp: hello_ack_shape_def hello_ack_ser_def hello_ack_conv_def hello_ack_wf_def derived shape_parts shaped_str pool_infos
       dest!: shaped_pool_infos)

record ping =
  png_token :: "64 word"

definition ping_shape :: shape where
  "ping_shape = ShStruct [ShUint 64]"

definition ping_ser :: "ping \<Rightarrow> ser" where
  "ping_ser m = SArr [ser_u (png_token m)]"

definition ping_conv :: "ser \<Rightarrow> ping option" where
  "ping_conv v =
     (case v of
        SArr [v0] \<Rightarrow>
          Some \<lparr>png_token = u_of v0\<rparr>
      | _ \<Rightarrow> None)"

definition ping_wf :: "ping \<Rightarrow> bool" where
  "ping_wf m \<longleftrightarrow> True"

definition ping_encode :: "rmp \<Rightarrow> ping \<Rightarrow> u8s" where
  "ping_encode R m = to_vec R (ping_ser m)"

definition ping_decode :: "rmp \<Rightarrow> u8s \<Rightarrow> codec_error + ping" where
  "ping_decode R = from_slice R ping_shape ping_conv"

interpretation ping_msg: derived_message ping_shape ping_ser ping_conv ping_wf
  by unfold_locales (auto simp: ping_shape_def ping_ser_def ping_conv_def ping_wf_def derived shape_parts shaped_str)

record pong =
  pong_token :: "64 word"

definition pong_shape :: shape where
  "pong_shape = ShStruct [ShUint 64]"

definition pong_ser :: "pong \<Rightarrow> ser" where
  "pong_ser m = SArr [ser_u (pong_token m)]"

definition pong_conv :: "ser \<Rightarrow> pong option" where
  "pong_conv v =
     (case v of
        SArr [v0] \<Rightarrow>
          Some \<lparr>pong_token = u_of v0\<rparr>
      | _ \<Rightarrow> None)"

definition pong_wf :: "pong \<Rightarrow> bool" where
  "pong_wf m \<longleftrightarrow> True"

definition pong_encode :: "rmp \<Rightarrow> pong \<Rightarrow> u8s" where
  "pong_encode R m = to_vec R (pong_ser m)"

definition pong_decode :: "rmp \<Rightarrow> u8s \<Rightarrow> codec_error + pong" where
  "pong_decode R = from_slice R pong_shape pong_conv"

interpretation pong_msg: derived_message pong_shape pong_ser pong_conv pong_wf
  by unfold_locales (auto simp: pong_shape_def pong_ser_def pong_conv_def pong_wf_def derived shape_parts shaped_str)

datatype goodbye = Goodbye

definition goodbye_shape :: shape where
  "goodbye_shape = ShStruct []"

definition goodbye_ser :: "goodbye \<Rightarrow> ser" where
  "goodbye_ser m = SArr []"

definition goodbye_conv :: "ser \<Rightarrow> goodbye option" where
  "goodbye_conv v =
     (case v of
        SArr [] \<Rightarrow>
          Some Goodbye
      | _ \<Rightarrow> None)"

definition goodbye_wf :: "goodbye \<Rightarrow> bool" where
  "goodbye_wf m \<longleftrightarrow> True"

definition goodbye_encode :: "rmp \<Rightarrow> goodbye \<Rightarrow> u8s" where
  "goodbye_encode R m = to_vec R (goodbye_ser m)"

definition goodbye_decode :: "rmp \<Rightarrow> u8s \<Rightarrow> codec_error + goodbye" where
  "goodbye_decode R = from_slice R goodbye_shape goodbye_conv"

lemma only_goodbye: "Goodbye = m"
  by (cases m) simp

interpretation goodbye_msg: derived_message goodbye_shape goodbye_ser goodbye_conv goodbye_wf
  by unfold_locales (auto simp: goodbye_shape_def goodbye_ser_def goodbye_conv_def goodbye_wf_def only_goodbye derived shape_parts shaped_str)

record window_update =
  wu_frames :: "32 word"
  wu_bytes :: "32 word"

definition window_update_shape :: shape where
  "window_update_shape = ShStruct [ShUint 32, ShUint 32]"

definition window_update_ser :: "window_update \<Rightarrow> ser" where
  "window_update_ser m = SArr [ser_u (wu_frames m), ser_u (wu_bytes m)]"

definition window_update_conv :: "ser \<Rightarrow> window_update option" where
  "window_update_conv v =
     (case v of
        SArr [v0, v1] \<Rightarrow>
          Some \<lparr>wu_frames = u_of v0, wu_bytes = u_of v1\<rparr>
      | _ \<Rightarrow> None)"

definition window_update_wf :: "window_update \<Rightarrow> bool" where
  "window_update_wf m \<longleftrightarrow> True"

definition window_update_encode :: "rmp \<Rightarrow> window_update \<Rightarrow> u8s" where
  "window_update_encode R m = to_vec R (window_update_ser m)"

definition window_update_decode :: "rmp \<Rightarrow> u8s \<Rightarrow> codec_error + window_update" where
  "window_update_decode R = from_slice R window_update_shape window_update_conv"

interpretation window_update_msg: derived_message window_update_shape window_update_ser window_update_conv window_update_wf
  by unfold_locales (auto simp: window_update_shape_def window_update_ser_def window_update_conv_def window_update_wf_def derived shape_parts shaped_str)

record oob_ref =
  oob_fd_index :: "32 word"
  oob_len :: "64 word"
  oob_encoding :: "8 word"

definition oob_ref_shape :: shape where
  "oob_ref_shape = ShStruct [ShUint 32, ShUint 64, ShUint 8]"

definition oob_ref_ser :: "oob_ref \<Rightarrow> ser" where
  "oob_ref_ser m = SArr [ser_u (oob_fd_index m), ser_u (oob_len m), ser_u (oob_encoding m)]"

definition oob_ref_conv :: "ser \<Rightarrow> oob_ref option" where
  "oob_ref_conv v =
     (case v of
        SArr [v0, v1, v2] \<Rightarrow>
          Some \<lparr>oob_fd_index = u_of v0, oob_len = u_of v1, oob_encoding = u_of v2\<rparr>
      | _ \<Rightarrow> None)"

definition oob_ref_wf :: "oob_ref \<Rightarrow> bool" where
  "oob_ref_wf m \<longleftrightarrow> True"

definition oob_ref_encode :: "rmp \<Rightarrow> oob_ref \<Rightarrow> u8s" where
  "oob_ref_encode R m = to_vec R (oob_ref_ser m)"

definition oob_ref_decode :: "rmp \<Rightarrow> u8s \<Rightarrow> codec_error + oob_ref" where
  "oob_ref_decode R = from_slice R oob_ref_shape oob_ref_conv"

interpretation oob_ref_msg: derived_message oob_ref_shape oob_ref_ser oob_ref_conv oob_ref_wf
  by unfold_locales (auto simp: oob_ref_shape_def oob_ref_ser_def oob_ref_conv_def oob_ref_wf_def derived shape_parts shaped_str)

record error_body =
  eb_code :: "16 word"
  eb_branch :: "8 word"
  eb_sqlstate :: "string option"
  eb_errno :: "(32 word) option"
  eb_message :: string
  eb_detail :: "string option"
  eb_retry_after_ms :: "(32 word) option"

definition error_body_shape :: shape where
  "error_body_shape = ShStruct [ShUint 16, ShUint 8, ShOpt ShStr, ShOpt (ShInt 32), ShStr, ShOpt ShStr, ShOpt (ShUint 32)]"

definition error_body_ser :: "error_body \<Rightarrow> ser" where
  "error_body_ser m = SArr [ser_u (eb_code m), ser_u (eb_branch m), ser_opt SStr (eb_sqlstate m), ser_opt ser_i (eb_errno m), SStr (eb_message m), ser_opt SStr (eb_detail m), ser_opt ser_u (eb_retry_after_ms m)]"

definition error_body_conv :: "ser \<Rightarrow> error_body option" where
  "error_body_conv v =
     (case v of
        SArr [v0, v1, v2, v3, v4, v5, v6] \<Rightarrow>
          Some \<lparr>eb_code = u_of v0, eb_branch = u_of v1, eb_sqlstate = opt_of s_of v2, eb_errno = opt_of i_of v3, eb_message = s_of v4, eb_detail = opt_of s_of v5, eb_retry_after_ms = opt_of u_of v6\<rparr>
      | _ \<Rightarrow> None)"

definition error_body_wf :: "error_body \<Rightarrow> bool" where
  "error_body_wf m \<longleftrightarrow> pred_option str_ok (eb_sqlstate m) \<and> str_ok (eb_message m) \<and> pred_option str_ok (eb_detail m)"

definition error_body_encode :: "rmp \<Rightarrow> error_body \<Rightarrow> u8s" where
  "error_body_encode R m = to_vec R (error_body_ser m)"

definition error_body_decode :: "rmp \<Rightarrow> u8s \<Rightarrow> codec_error + error_body" where
  "error_body_decode R = from_slice R error_body_shape error_body_conv"

interpretation error_body_msg: derived_message error_body_shape error_body_ser error_body_conv error_body_wf
  by unfold_locales (auto simp: error_body_shape_def error_body_ser_def error_body_conv_def error_body_wf_def derived shape_parts shaped_str)

subsection \<open>Transactions\<close>

record begin_request =
  brq_pool :: string
  brq_isolation :: "(8 word) option"
  brq_readonly :: bool

definition begin_request_shape :: shape where
  "begin_request_shape = ShStruct [ShStr, ShOpt (ShUint 8), ShBool]"

definition begin_request_ser :: "begin_request \<Rightarrow> ser" where
  "begin_request_ser m = SArr [SStr (brq_pool m), ser_opt ser_u (brq_isolation m), SBool (brq_readonly m)]"

definition begin_request_conv :: "ser \<Rightarrow> begin_request option" where
  "begin_request_conv v =
     (case v of
        SArr [v0, v1, v2] \<Rightarrow>
          Some \<lparr>brq_pool = s_of v0, brq_isolation = opt_of u_of v1, brq_readonly = b_of v2\<rparr>
      | _ \<Rightarrow> None)"

definition begin_request_wf :: "begin_request \<Rightarrow> bool" where
  "begin_request_wf m \<longleftrightarrow> str_ok (brq_pool m)"

definition begin_request_encode :: "rmp \<Rightarrow> begin_request \<Rightarrow> u8s" where
  "begin_request_encode R m = to_vec R (begin_request_ser m)"

definition begin_request_decode :: "rmp \<Rightarrow> u8s \<Rightarrow> codec_error + begin_request" where
  "begin_request_decode R = from_slice R begin_request_shape begin_request_conv"

interpretation begin_request_msg: derived_message begin_request_shape begin_request_ser begin_request_conv begin_request_wf
  by unfold_locales (auto simp: begin_request_shape_def begin_request_ser_def begin_request_conv_def begin_request_wf_def derived shape_parts shaped_str)

record begin_response =
  brs_tx_id :: "64 word"

definition begin_response_shape :: shape where
  "begin_response_shape = ShStruct [ShUint 64]"

definition begin_response_ser :: "begin_response \<Rightarrow> ser" where
  "begin_response_ser m = SArr [ser_u (brs_tx_id m)]"

definition begin_response_conv :: "ser \<Rightarrow> begin_response option" where
  "begin_response_conv v =
     (case v of
        SArr [v0] \<Rightarrow>
          Some \<lparr>brs_tx_id = u_of v0\<rparr>
      | _ \<Rightarrow> None)"

definition begin_response_wf :: "begin_response \<Rightarrow> bool" where
  "begin_response_wf m \<longleftrightarrow> True"

definition begin_response_encode :: "rmp \<Rightarrow> begin_response \<Rightarrow> u8s" where
  "begin_response_encode R m = to_vec R (begin_response_ser m)"

definition begin_response_decode :: "rmp \<Rightarrow> u8s \<Rightarrow> codec_error + begin_response" where
  "begin_response_decode R = from_slice R begin_response_shape begin_response_conv"

interpretation begin_response_msg: derived_message begin_response_shape begin_response_ser begin_response_conv begin_response_wf
  by unfold_locales (auto simp: begin_response_shape_def begin_response_ser_def begin_response_conv_def begin_response_wf_def derived shape_parts shaped_str)

record tx_control =
  tc_tx_id :: "64 word"

definition tx_control_shape :: shape where
  "tx_control_shape = ShStruct [ShUint 64]"

definition tx_control_ser :: "tx_control \<Rightarrow> ser" where
  "tx_control_ser m = SArr [ser_u (tc_tx_id m)]"

definition tx_control_conv :: "ser \<Rightarrow> tx_control option" where
  "tx_control_conv v =
     (case v of
        SArr [v0] \<Rightarrow>
          Some \<lparr>tc_tx_id = u_of v0\<rparr>
      | _ \<Rightarrow> None)"

definition tx_control_wf :: "tx_control \<Rightarrow> bool" where
  "tx_control_wf m \<longleftrightarrow> True"

definition tx_control_encode :: "rmp \<Rightarrow> tx_control \<Rightarrow> u8s" where
  "tx_control_encode R m = to_vec R (tx_control_ser m)"

definition tx_control_decode :: "rmp \<Rightarrow> u8s \<Rightarrow> codec_error + tx_control" where
  "tx_control_decode R = from_slice R tx_control_shape tx_control_conv"

interpretation tx_control_msg: derived_message tx_control_shape tx_control_ser tx_control_conv tx_control_wf
  by unfold_locales (auto simp: tx_control_shape_def tx_control_ser_def tx_control_conv_def tx_control_wf_def derived shape_parts shaped_str)

record savepoint_request =
  sr_tx_id :: "64 word"
  sr_name :: "string option"

definition savepoint_request_shape :: shape where
  "savepoint_request_shape = ShStruct [ShUint 64, ShOpt ShStr]"

definition savepoint_request_ser :: "savepoint_request \<Rightarrow> ser" where
  "savepoint_request_ser m = SArr [ser_u (sr_tx_id m), ser_opt SStr (sr_name m)]"

definition savepoint_request_conv :: "ser \<Rightarrow> savepoint_request option" where
  "savepoint_request_conv v =
     (case v of
        SArr [v0, v1] \<Rightarrow>
          Some \<lparr>sr_tx_id = u_of v0, sr_name = opt_of s_of v1\<rparr>
      | _ \<Rightarrow> None)"

definition savepoint_request_wf :: "savepoint_request \<Rightarrow> bool" where
  "savepoint_request_wf m \<longleftrightarrow> pred_option str_ok (sr_name m)"

definition savepoint_request_encode :: "rmp \<Rightarrow> savepoint_request \<Rightarrow> u8s" where
  "savepoint_request_encode R m = to_vec R (savepoint_request_ser m)"

definition savepoint_request_decode :: "rmp \<Rightarrow> u8s \<Rightarrow> codec_error + savepoint_request" where
  "savepoint_request_decode R = from_slice R savepoint_request_shape savepoint_request_conv"

interpretation savepoint_request_msg: derived_message savepoint_request_shape savepoint_request_ser savepoint_request_conv savepoint_request_wf
  by unfold_locales (auto simp: savepoint_request_shape_def savepoint_request_ser_def savepoint_request_conv_def savepoint_request_wf_def derived shape_parts shaped_str)

subsection \<open>Administration\<close>

record backup_request =
  bkq_pool :: string
  bkq_file :: string
  bkq_replace :: bool
  bkq_timeout_ms :: "(32 word) option"

definition backup_request_shape :: shape where
  "backup_request_shape = ShStruct [ShStr, ShStr, ShBool, ShOpt (ShUint 32)]"

definition backup_request_ser :: "backup_request \<Rightarrow> ser" where
  "backup_request_ser m = SArr [SStr (bkq_pool m), SStr (bkq_file m), SBool (bkq_replace m), ser_opt ser_u (bkq_timeout_ms m)]"

definition backup_request_conv :: "ser \<Rightarrow> backup_request option" where
  "backup_request_conv v =
     (case v of
        SArr [v0, v1, v2, v3] \<Rightarrow>
          Some \<lparr>bkq_pool = s_of v0, bkq_file = s_of v1, bkq_replace = b_of v2, bkq_timeout_ms = opt_of u_of v3\<rparr>
      | _ \<Rightarrow> None)"

definition backup_request_wf :: "backup_request \<Rightarrow> bool" where
  "backup_request_wf m \<longleftrightarrow> str_ok (bkq_pool m) \<and> str_ok (bkq_file m)"

definition backup_request_encode :: "rmp \<Rightarrow> backup_request \<Rightarrow> u8s" where
  "backup_request_encode R m = to_vec R (backup_request_ser m)"

definition backup_request_decode :: "rmp \<Rightarrow> u8s \<Rightarrow> codec_error + backup_request" where
  "backup_request_decode R = from_slice R backup_request_shape backup_request_conv"

interpretation backup_request_msg: derived_message backup_request_shape backup_request_ser backup_request_conv backup_request_wf
  by unfold_locales (auto simp: backup_request_shape_def backup_request_ser_def backup_request_conv_def backup_request_wf_def derived shape_parts shaped_str)

record backup_response =
  bks_bytes :: "64 word"
  bks_queue_us :: "64 word"
  bks_exec_us :: "64 word"

definition backup_response_shape :: shape where
  "backup_response_shape = ShStruct [ShUint 64, ShUint 64, ShUint 64]"

definition backup_response_ser :: "backup_response \<Rightarrow> ser" where
  "backup_response_ser m = SArr [ser_u (bks_bytes m), ser_u (bks_queue_us m), ser_u (bks_exec_us m)]"

definition backup_response_conv :: "ser \<Rightarrow> backup_response option" where
  "backup_response_conv v =
     (case v of
        SArr [v0, v1, v2] \<Rightarrow>
          Some \<lparr>bks_bytes = u_of v0, bks_queue_us = u_of v1, bks_exec_us = u_of v2\<rparr>
      | _ \<Rightarrow> None)"

definition backup_response_wf :: "backup_response \<Rightarrow> bool" where
  "backup_response_wf m \<longleftrightarrow> True"

definition backup_response_encode :: "rmp \<Rightarrow> backup_response \<Rightarrow> u8s" where
  "backup_response_encode R m = to_vec R (backup_response_ser m)"

definition backup_response_decode :: "rmp \<Rightarrow> u8s \<Rightarrow> codec_error + backup_response" where
  "backup_response_decode R = from_slice R backup_response_shape backup_response_conv"

interpretation backup_response_msg: derived_message backup_response_shape backup_response_ser backup_response_conv backup_response_wf
  by unfold_locales (auto simp: backup_response_shape_def backup_response_ser_def backup_response_conv_def backup_response_wf_def derived shape_parts shaped_str)

subsection \<open>COPY\<close>

record copy_request =
  cr_pool :: string
  cr_sql :: string
  cr_readonly :: bool
  cr_timeout_ms :: "(32 word) option"
  cr_tx_id :: "(64 word) option"

definition copy_request_shape :: shape where
  "copy_request_shape = ShStruct [ShStr, ShStr, ShBool, ShOpt (ShUint 32), ShOpt (ShUint 64)]"

definition copy_request_ser :: "copy_request \<Rightarrow> ser" where
  "copy_request_ser m = SArr [SStr (cr_pool m), SStr (cr_sql m), SBool (cr_readonly m), ser_opt ser_u (cr_timeout_ms m), ser_opt ser_u (cr_tx_id m)]"

definition copy_request_conv :: "ser \<Rightarrow> copy_request option" where
  "copy_request_conv v =
     (case v of
        SArr [v0, v1, v2, v3, v4] \<Rightarrow>
          Some \<lparr>cr_pool = s_of v0, cr_sql = s_of v1, cr_readonly = b_of v2, cr_timeout_ms = opt_of u_of v3, cr_tx_id = opt_of u_of v4\<rparr>
      | _ \<Rightarrow> None)"

definition copy_request_wf :: "copy_request \<Rightarrow> bool" where
  "copy_request_wf m \<longleftrightarrow> str_ok (cr_pool m) \<and> str_ok (cr_sql m)"

definition copy_request_encode :: "rmp \<Rightarrow> copy_request \<Rightarrow> u8s" where
  "copy_request_encode R m = to_vec R (copy_request_ser m)"

definition copy_request_decode :: "rmp \<Rightarrow> u8s \<Rightarrow> codec_error + copy_request" where
  "copy_request_decode R = from_slice R copy_request_shape copy_request_conv"

interpretation copy_request_msg: derived_message copy_request_shape copy_request_ser copy_request_conv copy_request_wf
  by unfold_locales (auto simp: copy_request_shape_def copy_request_ser_def copy_request_conv_def copy_request_wf_def derived shape_parts shaped_str)

datatype copy_done = CopyDone

definition copy_done_shape :: shape where
  "copy_done_shape = ShStruct []"

definition copy_done_ser :: "copy_done \<Rightarrow> ser" where
  "copy_done_ser m = SArr []"

definition copy_done_conv :: "ser \<Rightarrow> copy_done option" where
  "copy_done_conv v =
     (case v of
        SArr [] \<Rightarrow>
          Some CopyDone
      | _ \<Rightarrow> None)"

definition copy_done_wf :: "copy_done \<Rightarrow> bool" where
  "copy_done_wf m \<longleftrightarrow> True"

definition copy_done_encode :: "rmp \<Rightarrow> copy_done \<Rightarrow> u8s" where
  "copy_done_encode R m = to_vec R (copy_done_ser m)"

definition copy_done_decode :: "rmp \<Rightarrow> u8s \<Rightarrow> codec_error + copy_done" where
  "copy_done_decode R = from_slice R copy_done_shape copy_done_conv"

lemma only_copy_done: "CopyDone = m"
  by (cases m) simp

interpretation copy_done_msg: derived_message copy_done_shape copy_done_ser copy_done_conv copy_done_wf
  by unfold_locales (auto simp: copy_done_shape_def copy_done_ser_def copy_done_conv_def copy_done_wf_def only_copy_done derived shape_parts shaped_str)

subsection \<open>Statistics\<close>

record stats =
  sts_queue_us :: "64 word"
  sts_exec_us :: "64 word"
  sts_rows :: "64 word"
  sts_bytes :: "64 word"

definition stats_shape :: shape where
  "stats_shape = ShStruct [ShUint 64, ShUint 64, ShUint 64, ShUint 64]"

definition stats_ser :: "stats \<Rightarrow> ser" where
  "stats_ser m = SArr [ser_u (sts_queue_us m), ser_u (sts_exec_us m), ser_u (sts_rows m), ser_u (sts_bytes m)]"

definition stats_conv :: "ser \<Rightarrow> stats option" where
  "stats_conv v =
     (case v of
        SArr [v0, v1, v2, v3] \<Rightarrow>
          Some \<lparr>sts_queue_us = u_of v0, sts_exec_us = u_of v1, sts_rows = u_of v2, sts_bytes = u_of v3\<rparr>
      | _ \<Rightarrow> None)"

definition stats_wf :: "stats \<Rightarrow> bool" where
  "stats_wf m \<longleftrightarrow> True"

definition stats_encode :: "rmp \<Rightarrow> stats \<Rightarrow> u8s" where
  "stats_encode R m = to_vec R (stats_ser m)"

definition stats_decode :: "rmp \<Rightarrow> u8s \<Rightarrow> codec_error + stats" where
  "stats_decode R = from_slice R stats_shape stats_conv"

interpretation stats_msg: derived_message stats_shape stats_ser stats_conv stats_wf
  by unfold_locales (auto simp: stats_shape_def stats_ser_def stats_conv_def stats_wf_def derived shape_parts shaped_str)

subsection \<open>Typed values\<close>

fun val_payload :: "rmp \<Rightarrow> val \<Rightarrow> u8s" where
  "val_payload R VNull = mp_write_nil R"
| "val_payload R (VBool b) = mp_write_bool R b"
| "val_payload R (VI64 n) = mp_write_sint R n"
| "val_payload R (VF64 f) = mp_write_f64 R f"
| "val_payload R (VText s) = write_str R s"
| "val_payload R (VBytes b) = write_bin R b"
| "val_payload R (VU64 n) = mp_write_uint R n"
| "val_payload R (VDecimal s) = write_str R s"
| "val_payload R (VDate s) = write_str R s"
| "val_payload R (VTime s) = write_str R s"
| "val_payload R (VTimestamp s) = write_str R s"
| "val_payload R (VTimestampTz s) = write_str R s"
| "val_payload R (VUuid s) = write_str R s"
| "val_payload R (VJson s) = write_str R s"

definition val_encode :: "rmp \<Rightarrow> val \<Rightarrow> u8s" where
  "val_encode R v = mp_write_array_len R 2 @ mp_write_pfix R (val_tag v) @ val_payload R v"

definition val_body :: "rmp \<Rightarrow> 8 word \<Rightarrow> val reader" where
  "val_body R t =
     (if t = 0 then then_read (read_nil R) (\<lambda>_. give VNull)
      else if t = 1 then then_read (read_bool R) (\<lambda>b. give (VBool b))
      else if t = 2 then then_read (read_i64 R ''i64'') (\<lambda>n. give (VI64 n))
      else if t = 4 then then_read (lib ''f64'' (mp_read_f64 R)) (\<lambda>f. give (VF64 f))
      else if t = 6 then then_read (read_str R) (\<lambda>s. give (VText s))
      else if t = 7 then then_read (read_bin R) (\<lambda>b. give (VBytes b))
      else if t = 3 then then_read (read_word R ''u64'') (\<lambda>n. give (VU64 n))
      else if t = 5 then then_read (read_str R) (\<lambda>s. give (VDecimal s))
      else if t = 8 then then_read (read_str R) (\<lambda>s. give (VDate s))
      else if t = 9 then then_read (read_str R) (\<lambda>s. give (VTime s))
      else if t = 10 then then_read (read_str R) (\<lambda>s. give (VTimestamp s))
      else if t = 11 then then_read (read_str R) (\<lambda>s. give (VTimestampTz s))
      else if t = 12 then then_read (read_str R) (\<lambda>s. give (VUuid s))
      else if t = 13 then then_read (read_str R) (\<lambda>s. give (VJson s))
      else fail (Malformed (''unsupported TypedValue tag '' @ to_dec (unat t))))"

definition val_decode :: "rmp \<Rightarrow> val reader" where
  "val_decode R =
     then_read (lib ''array'' (mp_read_array_len R)) (\<lambda>len.
       if len \<noteq> 2 then fail (Malformed (''TypedValue array len '' @ to_dec (unat len) @ '' != 2''))
       else then_read (lib ''tag'' (mp_read_pfix R)) (val_body R))"

fun val_ok :: "val \<Rightarrow> bool" where
  "val_ok (VText s) = str_ok s"
| "val_ok (VBytes b) = (length b < 2 ^ 32)"
| "val_ok (VDecimal s) = str_ok s"
| "val_ok (VDate s) = str_ok s"
| "val_ok (VTime s) = str_ok s"
| "val_ok (VTimestamp s) = str_ok s"
| "val_ok (VTimestampTz s) = str_ok s"
| "val_ok (VUuid s) = str_ok s"
| "val_ok (VJson s) = str_ok s"
| "val_ok v = True"

context rmp_lib
begin

lemma reads_f64: "reads (lib what (mp_read_f64 R)) (mp_write_f64 R x) x"
  by (rule lib_reads) (rule f64)

lemma reads_pfix: "unat t < 128 \<Longrightarrow> reads (lib what (mp_read_pfix R)) (mp_write_pfix R t) t"
  by (rule lib_reads) (rule pfix)

lemmas then_back [read_back] =
  reads_then [OF reads_array] reads_then [OF reads_arity] reads_then [OF reads_bool] reads_then [OF reads_nil]
  reads_then [OF reads_str] reads_then [OF reads_str_lossy] reads_then [OF reads_bin] reads_then [OF reads_uint]
  reads_then [OF reads_i64] reads_then [OF reads_f64] reads_then [OF reads_pfix]

lemma val_tag_small: "unat (val_tag v) < 128"
  by (cases v) simp_all

lemma reads_val: "val_ok v \<Longrightarrow> reads (val_decode R) (val_encode R v) v"
  by (rule readsI, cases v) (simp_all add: val_decode_def val_encode_def val_body_def read_back val_tag_small)

lemma val_not_nil: "not_nil (val_encode R v)"
  by (simp add: val_encode_def not_nil_append markers)

end

subsection \<open>Outcomes\<close>

datatype outcome = OkBody u8s | ErrorBody error_body | CancelledBody

definition outcome_encode :: "rmp \<Rightarrow> outcome \<Rightarrow> u8s" where
  "outcome_encode R o' =
     mp_write_array_len R 2 @
     (case o' of
        OkBody body \<Rightarrow> mp_write_pfix R 0 @ body
      | ErrorBody ep \<Rightarrow> mp_write_pfix R 1 @ error_body_encode R ep
      | CancelledBody \<Rightarrow> mp_write_pfix R 2 @ mp_write_nil R)"

definition outcome_decode :: "rmp \<Rightarrow> u8s \<Rightarrow> codec_error + outcome" where
  "outcome_decode R = decoded
     (then_read (lib ''outcome'' (mp_read_array_len R)) (\<lambda>len.
        if len \<noteq> 2 then fail (Malformed (''outcome len '' @ to_dec (unat len) @ '' != 2''))
        else then_read (lib ''status'' (mp_read_pfix R)) (\<lambda>s rd.
          if s = 0 then Inr (OkBody rd, [])
          else if s = 1 then map_sum id (\<lambda>ep. (ErrorBody ep, [])) (error_body_decode R rd)
          else if s = 2 then
            then_read (lib ''cancelled body'' (mp_read_marker R)) (\<lambda>m.
              if m = MNull then give CancelledBody
              else fail (Malformed (''cancelled body expected nil, got '' @ marker_debug m))) rd
          else Inl (Malformed (''unknown outcome status '' @ to_dec (unat s))))))"

fun outcome_wf :: "outcome \<Rightarrow> bool" where
  "outcome_wf (ErrorBody ep) = error_body_wf ep"
| "outcome_wf o' = True"

subsection \<open>COPY chunks\<close>

definition copy_data_encode :: "rmp \<Rightarrow> string \<Rightarrow> u8s" where
  "copy_data_encode R data = mp_write_array_len R 1 @ write_bin R data"

definition data_range :: "rmp \<Rightarrow> u8s \<Rightarrow> codec_error + nat \<times> nat" where
  "data_range R b = decoded
     (then_read (lib ''CopyData array'' (mp_read_array_len R)) (\<lambda>n.
        if n \<noteq> 1 then fail (Malformed (''CopyData len '' @ to_dec (unat n) @ '' != 1''))
        else then_read (lib ''CopyData data'' (mp_read_bin_len R)) (\<lambda>len rd.
          let start = length b - length rd in
          if length rd < unat len then
            Inl (Malformed (''CopyData declares '' @ to_dec (unat len) @ '' bytes, carries '' @ to_dec (length rd)))
          else if unat len < length rd then Inl (TrailingBytes (length rd - unat len))
          else Inr ((start, start + unat len), [])))) b"

definition copy_data_decode :: "rmp \<Rightarrow> u8s \<Rightarrow> codec_error + string" where
  "copy_data_decode R b = map_sum id (\<lambda>(i, j). of_bytes (Frame.slice i j b)) (data_range R b)"

subsection \<open>Round trips\<close>

lemma decoded_eq: "decoded r b = (case r b of Inl e \<Rightarrow> Inl e | Inr (m, _) \<Rightarrow> Inr m)"
  by (simp add: decoded_def)

context rmp_lib
begin

lemma outcome_back: "outcome_wf o' \<Longrightarrow> outcome_decode R (outcome_encode R o') = Inr o'"
  using error_body_msg.decode_encode [OF rmp_lib_axioms, of _ "[]"]
  by (cases o') (simp_all add: outcome_decode_def outcome_encode_def decoded_def read_back error_body_encode_def error_body_decode_def
    then_read_def [of "lib _ (mp_read_marker R)"] lib_def nil)

lemma cancelled_ignores_rest: "outcome_decode R (outcome_encode R CancelledBody @ rest) = Inr CancelledBody"
  by (simp add: outcome_decode_def outcome_encode_def decoded_def read_back then_read_def [of "lib _ (mp_read_marker R)"] lib_def nil)

lemma copy_data_back:
  assumes "length data < 2 ^ 32"
  shows "copy_data_decode R (copy_data_encode R data @ rest) = (if rest = [] then Inr data else Inl (TrailingBytes (length rest)))"
proof -
  obtain header where h: "mp_write_bin R (as_bytes data) = header @ as_bytes data" using bin_body by blast
  from bin [of "as_bytes data" rest] assms have
    "mp_read_bin_len R (header @ as_bytes data @ rest) = Inr (word_of_nat (length data), as_bytes data @ rest)" by (simp add: h)
  then show ?thesis using assms
    by (simp add: copy_data_decode_def data_range_def copy_data_encode_def decoded_def read_back write_bin_def h
       then_read_def [of "lib _ (mp_read_bin_len R)"] lib_def unat_of_length Let_def Frame.slice_def)
qed

end

text \<open>
  The decoder of an outcome checks that the body of a cancelled one is \<open>nil\<close>, but unlike every other decoder it does not
  check that nothing follows.
\<close>

lemma cancelled_outcome_ignores_trailing:
  "rmp_lib R \<Longrightarrow> outcome_decode R (outcome_encode R CancelledBody @ rest) = Inr CancelledBody"
  by (rule rmp_lib.cancelled_ignores_rest)

end
