(* ===== verification/Messages_Sql.thy ===== *)
theory Messages_Sql
  imports Messages
begin

text \<open>
  The messages of the SQL service (\<open>ferro-proto/src/messages/sql.rs\<close>): the request, the buffered answer, and the head and
  the row batches of a streamed answer. Every decoder reads what its encoder wrote, refuses anything after it, and never
  builds more elements than the payload has bytes.
\<close>

subsection \<open>Columns and rows\<close>

definition col_meta_ser :: "col_meta \<Rightarrow> ser" where
  "col_meta_ser c = SArr [SStr (cm_name c), ser_u (cm_tag c)]"

definition col_meta_encode :: "rmp \<Rightarrow> col_meta \<Rightarrow> u8s" where
  "col_meta_encode R c = to_vec R (col_meta_ser c)"

definition col_meta_decode_at :: "rmp \<Rightarrow> col_meta reader" where
  "col_meta_decode_at R =
     then_read (expect_arity R ''ColMeta'' 2) (\<lambda>_. then_read (read_str R) (\<lambda>name.
     then_read (read_word R ''ColMeta tag'') (\<lambda>tag. give \<lparr>cm_name = name, cm_tag = tag\<rparr>)))"

definition cols_encode :: "rmp \<Rightarrow> col_meta list \<Rightarrow> u8s" where
  "cols_encode R cols = write_vec R (col_meta_encode R) cols"

definition cols_decode :: "rmp \<Rightarrow> col_meta list reader" where
  "cols_decode R = read_vec R ''cols array'' (col_meta_decode_at R)"

definition rows_encode :: "rmp \<Rightarrow> val list list \<Rightarrow> u8s" where
  "rows_encode R rows = write_vec R (write_vec R (val_encode R)) rows"

definition rows_decode :: "rmp \<Rightarrow> val list list reader" where
  "rows_decode R = read_vec R ''rows array'' (read_vec R ''row array'' (val_decode R))"

subsection \<open>The request\<close>

record exec_request =
  er_pool :: string
  er_sql :: "string option"
  er_query_id :: "string option"
  er_params :: "val list"
  er_timeout_ms :: "32 word option"
  er_readonly :: bool
  er_fetch :: "8 word"
  er_tx_id :: "64 word option"
  er_traceparent :: "string option"

definition exec_request_encode :: "rmp \<Rightarrow> exec_request \<Rightarrow> u8s" where
  "exec_request_encode R q =
     mp_write_array_len R 9 @ write_str R (er_pool q) @ write_opt R (write_str R) (er_sql q) @
     write_opt R (write_str R) (er_query_id q) @ write_vec R (val_encode R) (er_params q) @
     write_opt R (write_word R) (er_timeout_ms q) @ mp_write_bool R (er_readonly q) @ write_word R (er_fetch q) @
     write_opt R (mp_write_uint R) (er_tx_id q) @ write_opt R (write_str R) (er_traceparent q)"

definition exec_request_read :: "rmp \<Rightarrow> exec_request reader" where
  "exec_request_read R =
     then_read (expect_arity R ''ExecRequest'' 9) (\<lambda>_. then_read (read_str R) (\<lambda>pool.
     then_read (read_opt (read_str R)) (\<lambda>sql. then_read (read_opt (read_str R)) (\<lambda>query_id.
     then_read (read_vec R ''params array'' (val_decode R)) (\<lambda>params.
     then_read (read_opt (read_word R ''opt u32'')) (\<lambda>timeout_ms. then_read (read_bool R) (\<lambda>readonly.
     then_read (read_word R ''fetch'') (\<lambda>fetch. then_read (read_opt (read_word R ''opt u64'')) (\<lambda>tx_id.
     then_read (read_opt (read_str_lossy R)) (\<lambda>traceparent. then_read expect_end (\<lambda>_.
       give \<lparr>er_pool = pool, er_sql = sql, er_query_id = query_id, er_params = params, er_timeout_ms = timeout_ms,
         er_readonly = readonly, er_fetch = fetch, er_tx_id = tx_id, er_traceparent = traceparent\<rparr>)))))))))))"

definition exec_request_decode :: "rmp \<Rightarrow> u8s \<Rightarrow> codec_error + exec_request" where
  "exec_request_decode R = decoded (exec_request_read R)"

subsection \<open>The buffered answer\<close>

record exec_ok =
  eo_cols :: "col_meta list"
  eo_rows :: "val list list"
  eo_affected :: "64 word"
  eo_last_insert_id :: "val option"
  eo_stats :: stats

definition exec_ok_encode :: "rmp \<Rightarrow> exec_ok \<Rightarrow> u8s" where
  "exec_ok_encode R m =
     mp_write_array_len R 5 @ cols_encode R (eo_cols m) @ rows_encode R (eo_rows m) @ mp_write_uint R (eo_affected m) @
     write_opt R (val_encode R) (eo_last_insert_id m) @ stats_encode R (eo_stats m)"

definition exec_ok_read :: "rmp \<Rightarrow> exec_ok reader" where
  "exec_ok_read R =
     then_read (expect_arity R ''ExecOk'' 5) (\<lambda>_. then_read (cols_decode R) (\<lambda>cols. then_read (rows_decode R) (\<lambda>rows.
     then_read (read_word R ''affected'') (\<lambda>affected. then_read (read_opt (val_decode R)) (\<lambda>last_insert_id rd.
       map_sum id (\<lambda>stats.
         (\<lparr>eo_cols = cols, eo_rows = rows, eo_affected = affected, eo_last_insert_id = last_insert_id, eo_stats = stats\<rparr>, []))
         (stats_decode R rd))))))"

definition exec_ok_decode :: "rmp \<Rightarrow> u8s \<Rightarrow> codec_error + exec_ok" where
  "exec_ok_decode R = decoded (exec_ok_read R)"

subsection \<open>The streamed answer\<close>

definition stream_head_encode :: "rmp \<Rightarrow> col_meta list \<Rightarrow> u8s" where
  "stream_head_encode R cols = mp_write_array_len R 1 @ cols_encode R cols"

definition stream_head_decode :: "rmp \<Rightarrow> u8s \<Rightarrow> codec_error + col_meta list" where
  "stream_head_decode R = decoded
     (then_read (expect_arity R ''StreamHead'' 1) (\<lambda>_. then_read (cols_decode R) (\<lambda>cols. then_read expect_end (\<lambda>_. give cols))))"

definition stream_data_encode :: "rmp \<Rightarrow> val list list \<Rightarrow> u8s" where
  "stream_data_encode R rows = mp_write_array_len R 1 @ rows_encode R rows"

definition stream_data_decode :: "rmp \<Rightarrow> u8s \<Rightarrow> codec_error + val list list" where
  "stream_data_decode R = decoded
     (then_read (expect_arity R ''StreamData'' 1) (\<lambda>_. then_read (rows_decode R) (\<lambda>rows. then_read expect_end (\<lambda>_. give rows))))"

subsection \<open>Well-formed messages\<close>

text \<open>What every Rust value of these types satisfies, and lengths that fit the 32-bit length of an array.\<close>

definition vec_ok :: "('a \<Rightarrow> bool) \<Rightarrow> 'a list \<Rightarrow> bool" where
  "vec_ok p xs \<longleftrightarrow> length xs < 2 ^ 32 \<and> list_all p xs"

definition exec_request_wf :: "exec_request \<Rightarrow> bool" where
  "exec_request_wf q \<longleftrightarrow> str_ok (er_pool q) \<and> pred_option str_ok (er_sql q) \<and> pred_option str_ok (er_query_id q) \<and>
     vec_ok val_ok (er_params q) \<and> pred_option str_ok (er_traceparent q)"

definition cols_ok :: "col_meta list \<Rightarrow> bool" where
  "cols_ok = vec_ok (\<lambda>c. str_ok (cm_name c))"

definition rows_ok :: "val list list \<Rightarrow> bool" where
  "rows_ok = vec_ok (vec_ok val_ok)"

definition exec_ok_wf :: "exec_ok \<Rightarrow> bool" where
  "exec_ok_wf m \<longleftrightarrow> cols_ok (eo_cols m) \<and> rows_ok (eo_rows m) \<and> pred_option val_ok (eo_last_insert_id m)"

context rmp_lib
begin

lemma vec_not_nil: "not_nil (write_vec R w xs)"
  by (simp add: write_vec_def not_nil_append markers)

lemma str_not_nil: "not_nil (write_str R s)"
  by (simp add: write_str_def markers)

lemma word_not_nil: "not_nil (write_word R x)"
  by (simp add: write_word_def markers)

lemma reads_vec_ok: "vec_ok p xs \<Longrightarrow> (\<And>x. p x \<Longrightarrow> reads r (w x) x) \<Longrightarrow> (\<And>x. not_nil (w x)) \<Longrightarrow> reads (read_vec R what r) (write_vec R w xs) xs"
  by (rule reads_vec) (auto simp: vec_ok_def list_all_iff not_nilD)

lemma reads_opt_ok: "pred_option p v \<Longrightarrow> (\<And>x. p x \<Longrightarrow> reads r (w x) x) \<Longrightarrow> (\<And>x. not_nil (w x)) \<Longrightarrow> reads (read_opt r) (write_opt R w v) v"
  by (rule reads_opt) (auto simp: option.pred_set)

lemma reads_opt_str: "pred_option str_ok v \<Longrightarrow> reads (read_opt (read_str R)) (write_opt R (write_str R) v) v"
  by (erule reads_opt_ok) (simp_all add: reads_str str_not_nil)

lemma reads_opt_lossy: "pred_option str_ok v \<Longrightarrow> reads (read_opt (read_str_lossy R)) (write_opt R (write_str R) v) v"
  by (erule reads_opt_ok) (simp_all add: reads_str_lossy str_not_nil)

lemma reads_opt_u32: "reads (read_opt (read_word R what)) (write_opt R (write_word R) v) v" for v :: "32 word option"
  by (rule reads_opt) (simp_all add: reads_word word_not_nil)

lemma reads_opt_u64: "reads (read_opt (read_word R what)) (write_opt R (mp_write_uint R) v) v"
  by (rule reads_opt) (simp_all add: reads_uint markers)

lemma reads_opt_val: "pred_option val_ok v \<Longrightarrow> reads (read_opt (val_decode R)) (write_opt R (val_encode R) v) v"
  by (erule reads_opt_ok) (simp_all add: reads_val val_not_nil)

lemma then_word_back [read_back]:
  "then_read (read_word R what) k (write_word R (x :: 8 word) @ rest) = k x rest"
  "then_read (read_word R what) l (write_word R (y :: 16 word) @ rest) = l y rest"
  "then_read (read_word R what) m (write_word R (z :: 32 word) @ rest) = m z rest"
  by (rule reads_then, rule reads_word, simp)+

lemma reads_col: "str_ok (cm_name c) \<Longrightarrow> reads (col_meta_decode_at R) (col_meta_encode R c) c"
proof (rule readsI)
  fix rest
  assume c: "str_ok (cm_name c)"
  have "col_meta_encode R c = mp_write_array_len R 2 @ write_str R (cm_name c) @ write_word R (cm_tag c)"
    by (simp add: col_meta_encode_def col_meta_ser_def to_vec_def serialize ser_u_def write_str_def write_word_def)
  then show "col_meta_decode_at R (col_meta_encode R c @ rest) = Inr (c, rest)"
    using c by (simp add: col_meta_decode_at_def read_back)
qed

lemma col_not_nil: "not_nil (col_meta_encode R c)"
  by (simp add: col_meta_encode_def col_meta_ser_def to_vec_def serialize not_nil_append markers)

lemma reads_cols: "cols_ok cols \<Longrightarrow> reads (cols_decode R) (cols_encode R cols) cols"
  unfolding cols_decode_def cols_encode_def cols_ok_def
  by (erule reads_vec_ok) (simp_all add: reads_col col_not_nil)

lemma reads_row: "vec_ok val_ok row \<Longrightarrow> reads (read_vec R what (val_decode R)) (write_vec R (val_encode R) row) row"
  by (erule reads_vec_ok) (simp_all add: reads_val val_not_nil)

lemma reads_rows: "rows_ok rows \<Longrightarrow> reads (rows_decode R) (rows_encode R rows) rows"
  unfolding rows_decode_def rows_encode_def rows_ok_def by (erule reads_vec_ok) (simp_all add: reads_row vec_not_nil)

lemmas then_sql_back [read_back] =
  reads_then [OF reads_opt_str] reads_then [OF reads_opt_lossy] reads_then [OF reads_opt_u32] reads_then [OF reads_opt_u64]
  reads_then [OF reads_opt_val] reads_then [OF reads_cols] reads_then [OF reads_rows] reads_then [OF reads_row]

lemma exec_request_back:
  "exec_request_wf q \<Longrightarrow>
   exec_request_decode R (exec_request_encode R q @ rest) = (if rest = [] then Inr q else Inl (TrailingBytes (length rest)))"
  by (simp add: exec_request_decode_def exec_request_read_def exec_request_encode_def exec_request_wf_def decoded_def read_back)

lemma exec_ok_back:
  "exec_ok_wf m \<Longrightarrow>
   exec_ok_decode R (exec_ok_encode R m @ rest) = (if rest = [] then Inr m else Inl (TrailingBytes (length rest)))"
  using stats_msg.decode_encode [OF rmp_lib_axioms, of "eo_stats m" rest]
  by (simp add: exec_ok_decode_def exec_ok_read_def exec_ok_encode_def exec_ok_wf_def decoded_def read_back stats_decode_def
     stats_encode_def stats_wf_def)

lemma stream_back:
  "cols_ok cols \<Longrightarrow>
   stream_head_decode R (stream_head_encode R cols @ rest) = (if rest = [] then Inr cols else Inl (TrailingBytes (length rest)))"
  "rows_ok rows \<Longrightarrow>
   stream_data_decode R (stream_data_encode R rows @ rest) = (if rest = [] then Inr rows else Inl (TrailingBytes (length rest)))"
  by (simp_all add: stream_head_decode_def stream_head_encode_def stream_data_decode_def stream_data_encode_def decoded_def read_back)

end

subsection \<open>What a decoder accepts\<close>

definition exec_request_sane :: "nat \<Rightarrow> exec_request \<Rightarrow> bool" where
  "exec_request_sane n q \<longleftrightarrow> str_ok (er_pool q) \<and> pred_option str_ok (er_sql q) \<and> pred_option str_ok (er_query_id q) \<and>
     length (er_params q) \<le> n \<and> list_all val_ok (er_params q) \<and> pred_option utf8_valid (er_traceparent q)"

context rmp_lib
begin

lemma gives_val: "gives n (val_decode R) val_ok"
proof -
  have f: "gives n (lib ''f64'' (mp_read_f64 R)) (\<lambda>_. True)" and t: "gives n (lib ''tag'' (mp_read_pfix R)) (\<lambda>_. True)"
    by (rule gives_lib, auto dest: consumes)+
  have s: "gives n (then_read (read_str R) (\<lambda>s. give (VText s))) val_ok"
    "gives n (then_read (read_str R) (\<lambda>s. give (VDecimal s))) val_ok"
    "gives n (then_read (read_str R) (\<lambda>s. give (VDate s))) val_ok"
    "gives n (then_read (read_str R) (\<lambda>s. give (VTime s))) val_ok"
    "gives n (then_read (read_str R) (\<lambda>s. give (VTimestamp s))) val_ok"
    "gives n (then_read (read_str R) (\<lambda>s. give (VTimestampTz s))) val_ok"
    "gives n (then_read (read_str R) (\<lambda>s. give (VUuid s))) val_ok"
    "gives n (then_read (read_str R) (\<lambda>s. give (VJson s))) val_ok"
    by (rule gives_map [OF gives_str], simp)+
  have o: "gives n (then_read (read_nil R) (\<lambda>_. give VNull)) val_ok"
    "gives n (then_read (read_bool R) (\<lambda>b. give (VBool b))) val_ok"
    "gives n (then_read (read_i64 R ''i64'') (\<lambda>i. give (VI64 i))) val_ok"
    "gives n (then_read (lib ''f64'' (mp_read_f64 R)) (\<lambda>f. give (VF64 f))) val_ok"
    "gives n (then_read (read_bin R) (\<lambda>b. give (VBytes b))) val_ok"
    "gives n (then_read (read_word R ''u64'') (\<lambda>u. give (VU64 u))) val_ok"
    by (rule gives_map [OF gives_nil] gives_map [OF gives_bool] gives_map [OF gives_i64] gives_map [OF f] gives_map [OF gives_bin]
        gives_map [OF gives_word], simp)+
  have "gives n (val_body R tag) val_ok" for tag
    by (simp add: val_body_def s o gives_fail)
  then have "gives n (then_read (lib ''tag'' (mp_read_pfix R)) (val_body R)) val_ok" by (intro gives_then [OF t])
  then show ?thesis unfolding val_decode_def by (intro gives_then [OF gives_array]) (simp add: gives_fail)
qed

lemma gives_exec_request: "gives n (exec_request_read R) (exec_request_sane n)"
  unfolding exec_request_read_def exec_request_sane_def
  by (rule gives_then [OF gives_arity], rule gives_then [OF gives_str], rule gives_then [OF gives_opt [OF gives_str]],
      rule gives_then [OF gives_opt [OF gives_str]], rule gives_then [OF gives_vec [OF gives_val]],
      rule gives_then [OF gives_opt [OF gives_word]], rule gives_then [OF gives_bool], rule gives_then [OF gives_word],
      rule gives_then [OF gives_opt [OF gives_word]], rule gives_then [OF gives_opt [OF gives_str_lossy]],
      rule gives_then [OF gives_end], rule gives_give) simp

end

subsection \<open>Properties\<close>

text \<open>
  C32: What is sent is what arrives: a request, and an answer inside its outcome, decode to themselves, whatever the values,
  and the streamed head and batches too.
\<close>

theorem sql_messages_round_trip:
  assumes "rmp_lib R" "exec_request_wf q" "exec_ok_wf a" "cols_ok cols" "rows_ok rows"
  shows "exec_request_decode R (exec_request_encode R q) = Inr q \<and>
    outcome_decode R (outcome_encode R (OkBody (exec_ok_encode R a))) = Inr (OkBody (exec_ok_encode R a)) \<and>
    exec_ok_decode R (exec_ok_encode R a) = Inr a \<and>
    stream_head_decode R (stream_head_encode R cols) = Inr cols \<and>
    stream_data_decode R (stream_data_encode R rows) = Inr rows"
  using rmp_lib.exec_request_back [OF assms(1,2), of "[]"] rmp_lib.exec_ok_back [OF assms(1,3), of "[]"]
    rmp_lib.stream_back(1) [OF assms(1,4), of "[]"] rmp_lib.stream_back(2) [OF assms(1,5), of "[]"]
    rmp_lib.outcome_back [OF assms(1), of "OkBody (exec_ok_encode R a)"]
  by simp

definition demo_request :: exec_request where
  "demo_request = \<lparr>er_pool = ''main'', er_sql = Some ''SELECT ?'', er_query_id = None, er_params = [VI64 (- 1), VText ''a'', VNull],
     er_timeout_ms = Some 30000, er_readonly = True, er_fetch = 2, er_tx_id = None, er_traceparent = None\<rparr>"

definition demo_answer :: exec_ok where
  "demo_answer = \<lparr>eo_cols = [\<lparr>cm_name = ''id'', cm_tag = 2\<rparr>], eo_rows = [[VI64 7], [VNull]], eo_affected = 2,
     eo_last_insert_id = Some (VU64 9), eo_stats = \<lparr>sts_queue_us = 1, sts_exec_us = 2, sts_rows = 2, sts_bytes = 40\<rparr>\<rparr>"

theorem sql_messages_round_trip_witness:
  "exec_request_decode msgpack (exec_request_encode msgpack demo_request) = Inr demo_request \<and>
   exec_ok_decode msgpack (exec_ok_encode msgpack demo_answer) = Inr demo_answer"
proof -
  have "exec_request_wf demo_request" "exec_ok_wf demo_answer"
    by (simp_all add: exec_request_wf_def demo_request_def str_ok_def byte_def vec_ok_def exec_ok_wf_def demo_answer_def
        cols_ok_def rows_ok_def)
  from sql_messages_round_trip [OF format.rmp_lib_axioms this, of "[]" "[]"] show ?thesis
    by (simp add: cols_ok_def rows_ok_def vec_ok_def)
qed

text \<open>
  C33: What the request decoder lets through is well formed, whatever bytes a client sends: names and SQL are valid UTF-8,
  parameters are values that can be encoded, and there are at most as many of them as the payload has bytes, so a length
  that lies cannot make the engine allocate more than it was sent.
\<close>

theorem decoded_request_is_sane:
  assumes "rmp_lib R" "exec_request_decode R b = Inr q"
  shows "exec_request_sane (length b) q"
  using gives_decoded [OF rmp_lib.gives_exec_request [OF assms(1)]] assms(2) unfolding exec_request_decode_def by blast

theorem decoded_request_is_sane_witness:
  "exec_request_sane (length (exec_request_encode msgpack demo_request)) demo_request"
  using decoded_request_is_sane [OF format.rmp_lib_axioms, of "exec_request_encode msgpack demo_request" demo_request]
    format.exec_request_back [of demo_request "[]"]
  by (simp add: exec_request_wf_def demo_request_def str_ok_def byte_def vec_ok_def)

end
