(* ===== verification/Messages_Http.thy ===== *)
theory Messages_Http
  imports Messages_Sql
begin

text \<open>
  The messages of the HTTP service (\<open>ferro-proto/src/messages/http.rs\<close>): the request, the head of a response, a piece of its
  body, and the terminal with its statistics.
\<close>

definition U64_WIRE_BOUND :: "64 word" where
  "U64_WIRE_BOUND = 2 ^ 63"

record header_field =
  hf_name :: string
  hf_value :: string

definition header_encode :: "rmp \<Rightarrow> header_field \<Rightarrow> u8s" where
  "header_encode R h = mp_write_array_len R 2 @ write_str R (hf_name h) @ write_bin R (hf_value h)"

definition header_read :: "rmp \<Rightarrow> header_field reader" where
  "header_read R =
     then_read (expect_arity R ''header'' 2) (\<lambda>_. then_read (read_str R) (\<lambda>name. then_read (read_bin R) (\<lambda>v.
       give \<lparr>hf_name = name, hf_value = v\<rparr>)))"

definition write_headers :: "rmp \<Rightarrow> header_field list \<Rightarrow> u8s" where
  "write_headers R hs = write_vec R (header_encode R) hs"

definition read_headers :: "rmp \<Rightarrow> header_field list reader" where
  "read_headers R = read_vec R ''headers array'' (header_read R)"

subsection \<open>The request\<close>

record http_request =
  hq_upstream :: string
  hq_method :: string
  hq_target :: string
  hq_origin :: "string option"
  hq_headers :: "header_field list"
  hq_body :: "string option"
  hq_timeout_ms :: "32 word option"
  hq_connect_timeout_ms :: "32 word option"
  hq_read_timeout_ms :: "32 word option"
  hq_idempotent :: "bool option"
  hq_decode :: bool
  hq_route :: "string option"
  hq_traceparent :: "string option"

definition http_request_encode :: "rmp \<Rightarrow> http_request \<Rightarrow> u8s" where
  "http_request_encode R q =
     mp_write_array_len R 13 @ write_str R (hq_upstream q) @ write_str R (hq_method q) @ write_str R (hq_target q) @
     write_opt R (write_str R) (hq_origin q) @ write_headers R (hq_headers q) @ write_opt R (write_bin R) (hq_body q) @
     write_opt R (write_word R) (hq_timeout_ms q) @ write_opt R (write_word R) (hq_connect_timeout_ms q) @
     write_opt R (write_word R) (hq_read_timeout_ms q) @ write_opt R (mp_write_bool R) (hq_idempotent q) @
     mp_write_bool R (hq_decode q) @ write_opt R (write_str R) (hq_route q) @ write_opt R (write_str R) (hq_traceparent q)"

definition http_request_read :: "rmp \<Rightarrow> http_request reader" where
  "http_request_read R =
     then_read (expect_arity R ''HttpRequest'' 13) (\<lambda>_. then_read (read_str R) (\<lambda>upstream. then_read (read_str R) (\<lambda>method'.
     then_read (read_str R) (\<lambda>target. then_read (read_opt (read_str R)) (\<lambda>origin. then_read (read_headers R) (\<lambda>headers.
     then_read (read_opt (read_bin R)) (\<lambda>body. then_read (read_opt (read_word R ''opt u32'')) (\<lambda>timeout_ms.
     then_read (read_opt (read_word R ''opt u32'')) (\<lambda>connect_timeout_ms.
     then_read (read_opt (read_word R ''opt u32'')) (\<lambda>read_timeout_ms. then_read (read_opt (read_bool R)) (\<lambda>idempotent.
     then_read (read_bool R) (\<lambda>decode. then_read (read_opt (read_str R)) (\<lambda>route.
     then_read (read_opt (read_str_lossy R)) (\<lambda>traceparent. then_read expect_end (\<lambda>_.
       give \<lparr>hq_upstream = upstream, hq_method = method', hq_target = target, hq_origin = origin, hq_headers = headers,
         hq_body = body, hq_timeout_ms = timeout_ms, hq_connect_timeout_ms = connect_timeout_ms,
         hq_read_timeout_ms = read_timeout_ms, hq_idempotent = idempotent, hq_decode = decode, hq_route = route,
         hq_traceparent = traceparent\<rparr>)))))))))))))))"

definition http_request_decode :: "rmp \<Rightarrow> u8s \<Rightarrow> codec_error + http_request" where
  "http_request_decode R = decoded (http_request_read R)"

subsection \<open>The head of a response\<close>

record http_decoded =
  hd_content_encoding :: string
  hd_content_length :: "64 word option"

record http_head =
  hh_status :: "16 word"
  hh_version :: "8 word"
  hh_reason :: "string option"
  hh_headers :: "header_field list"
  hh_decoded :: "http_decoded option"
  hh_idempotent :: bool

definition representable :: "64 word option \<Rightarrow> 64 word option" where
  "representable n = (case n of Some x \<Rightarrow> if x < U64_WIRE_BOUND then Some x else None | None \<Rightarrow> None)"

definition http_decoded_encode :: "rmp \<Rightarrow> http_decoded \<Rightarrow> u8s" where
  "http_decoded_encode R d =
     mp_write_array_len R 2 @ write_str R (hd_content_encoding d) @ write_opt R (mp_write_uint R) (representable (hd_content_length d))"

definition http_decoded_read :: "rmp \<Rightarrow> http_decoded reader" where
  "http_decoded_read R =
     then_read (expect_arity R ''HttpHead.decoded'' 2) (\<lambda>_. then_read (read_str R) (\<lambda>content_encoding.
     then_read
       (read_opt (then_read (read_word R ''HttpHead content_length'') (\<lambda>n.
          if U64_WIRE_BOUND \<le> n then fail (Malformed (''HttpHead content_length '' @ to_dec (unat n) @ '' is not below 2^63''))
          else give n)))
       (\<lambda>content_length. give \<lparr>hd_content_encoding = content_encoding, hd_content_length = content_length\<rparr>)))"

definition http_head_encode :: "rmp \<Rightarrow> http_head \<Rightarrow> u8s" where
  "http_head_encode R m =
     mp_write_array_len R 6 @ write_word R (hh_status m) @ write_word R (hh_version m) @ write_opt R (write_bin R) (hh_reason m) @
     write_headers R (hh_headers m) @ write_opt R (http_decoded_encode R) (hh_decoded m) @ mp_write_bool R (hh_idempotent m)"

definition http_head_read :: "rmp \<Rightarrow> http_head reader" where
  "http_head_read R =
     then_read (expect_arity R ''HttpHead'' 6) (\<lambda>_. then_read (read_word R ''HttpHead status'') (\<lambda>status.
     then_read (read_word R ''HttpHead version'') (\<lambda>version. then_read (read_opt (read_bin R)) (\<lambda>reason.
     then_read (read_headers R) (\<lambda>headers. then_read (read_opt (http_decoded_read R)) (\<lambda>dec. then_read (read_bool R) (\<lambda>idempotent.
     then_read expect_end (\<lambda>_.
       give \<lparr>hh_status = status, hh_version = version, hh_reason = reason, hh_headers = headers, hh_decoded = dec,
         hh_idempotent = idempotent\<rparr>))))))))"

definition http_head_decode :: "rmp \<Rightarrow> u8s \<Rightarrow> codec_error + http_head" where
  "http_head_decode R = decoded (http_head_read R)"

subsection \<open>Body and terminal\<close>

definition http_body_encode :: "rmp \<Rightarrow> string \<Rightarrow> u8s" where
  "http_body_encode R chunk = mp_write_array_len R 1 @ write_bin R chunk"

definition http_body_decode :: "rmp \<Rightarrow> u8s \<Rightarrow> codec_error + string" where
  "http_body_decode R = decoded
     (then_read (expect_arity R ''HttpBody'' 1) (\<lambda>_. then_read (read_bin R) (\<lambda>chunk. then_read expect_end (\<lambda>_. give chunk))))"

record http_stats =
  hs_queue_us :: "64 word"
  hs_connect_us :: "64 word"
  hs_tls_us :: "64 word"
  hs_ttfb_us :: "64 word"
  hs_total_us :: "64 word"
  hs_bytes_sent :: "64 word"
  hs_bytes_received :: "64 word"
  hs_reused :: bool

definition http_stats_counts :: "http_stats \<Rightarrow> 64 word list" where
  "http_stats_counts m =
     [hs_queue_us m, hs_connect_us m, hs_tls_us m, hs_ttfb_us m, hs_total_us m, hs_bytes_sent m, hs_bytes_received m]"

definition http_stats_write :: "rmp \<Rightarrow> http_stats \<Rightarrow> u8s" where
  "http_stats_write R m = mp_write_array_len R 8 @ concat (map (mp_write_uint R) (http_stats_counts m)) @ mp_write_bool R (hs_reused m)"

definition http_stats_read :: "rmp \<Rightarrow> http_stats reader" where
  "http_stats_read R =
     then_read (expect_arity R ''HttpStats'' 8) (\<lambda>_. then_read (read_n 7 (read_word R ''HttpStats'')) (\<lambda>n.
     then_read (read_bool R) (\<lambda>reused.
       give \<lparr>hs_queue_us = n ! 0, hs_connect_us = n ! 1, hs_tls_us = n ! 2, hs_ttfb_us = n ! 3, hs_total_us = n ! 4,
         hs_bytes_sent = n ! 5, hs_bytes_received = n ! 6, hs_reused = reused\<rparr>)))"

record http_done =
  hdn_trailers :: "header_field list"
  hdn_stats :: http_stats

definition http_done_encode :: "rmp \<Rightarrow> http_done \<Rightarrow> u8s" where
  "http_done_encode R m = mp_write_array_len R 2 @ write_headers R (hdn_trailers m) @ http_stats_write R (hdn_stats m)"

definition http_done_decode :: "rmp \<Rightarrow> u8s \<Rightarrow> codec_error + http_done" where
  "http_done_decode R = decoded
     (then_read (expect_arity R ''HttpDone'' 2) (\<lambda>_. then_read (read_headers R) (\<lambda>trailers. then_read (http_stats_read R) (\<lambda>stats.
      then_read expect_end (\<lambda>_. give \<lparr>hdn_trailers = trailers, hdn_stats = stats\<rparr>)))))"

subsection \<open>Round trips\<close>

definition header_ok :: "header_field \<Rightarrow> bool" where
  "header_ok h \<longleftrightarrow> str_ok (hf_name h) \<and> length (hf_value h) < 2 ^ 32"

definition http_request_wf :: "http_request \<Rightarrow> bool" where
  "http_request_wf q \<longleftrightarrow> str_ok (hq_upstream q) \<and> str_ok (hq_method q) \<and> str_ok (hq_target q) \<and> pred_option str_ok (hq_origin q) \<and>
     vec_ok header_ok (hq_headers q) \<and> pred_option (\<lambda>b. length b < 2 ^ 32) (hq_body q) \<and> pred_option str_ok (hq_route q) \<and>
     pred_option str_ok (hq_traceparent q)"

definition http_head_wf :: "http_head \<Rightarrow> bool" where
  "http_head_wf m \<longleftrightarrow> pred_option (\<lambda>b. length b < 2 ^ 32) (hh_reason m) \<and> vec_ok header_ok (hh_headers m) \<and>
     pred_option (\<lambda>d. str_ok (hd_content_encoding d)) (hh_decoded m)"

text \<open>A length the client could not hold as a native integer is sent as absent.\<close>

definition http_head_sent :: "http_head \<Rightarrow> http_head" where
  "http_head_sent m = m\<lparr>hh_decoded := map_option (\<lambda>d. d\<lparr>hd_content_length := representable (hd_content_length d)\<rparr>) (hh_decoded m)\<rparr>"

context rmp_lib
begin

lemma bin_not_nil: "not_nil (write_bin R s)"
  by (simp add: write_bin_def markers)

lemma reads_header: "header_ok h \<Longrightarrow> reads (header_read R) (header_encode R h) h"
  by (rule readsI) (simp add: header_read_def header_encode_def header_ok_def read_back)

lemma header_not_nil: "not_nil (header_encode R h)"
  by (simp add: header_encode_def not_nil_append markers)

lemma reads_headers: "vec_ok header_ok hs \<Longrightarrow> reads (read_headers R) (write_headers R hs) hs"
  unfolding read_headers_def write_headers_def
  by (erule reads_vec_ok) (simp_all add: reads_header header_not_nil)

lemma reads_opt_bin: "pred_option (\<lambda>b. length b < 2 ^ 32) v \<Longrightarrow> reads (read_opt (read_bin R)) (write_opt R (write_bin R) v) v"
  by (erule reads_opt_ok) (simp_all add: reads_bin bin_not_nil)

lemma reads_opt_bool: "reads (read_opt (read_bool R)) (write_opt R (mp_write_bool R) v) v"
  by (rule reads_opt) (simp_all add: reads_bool markers)

lemmas then_http_back [read_back] =
  reads_then [OF reads_headers] reads_then [OF reads_opt_bin] reads_then [OF reads_opt_bool]

lemma http_request_back:
  "http_request_wf q \<Longrightarrow>
   http_request_decode R (http_request_encode R q @ rest) = (if rest = [] then Inr q else Inl (TrailingBytes (length rest)))"
  by (simp add: http_request_decode_def http_request_read_def http_request_encode_def http_request_wf_def decoded_def read_back)

lemma reads_length:
  "reads (read_opt (then_read (read_word R what) (\<lambda>n. if U64_WIRE_BOUND \<le> n then fail (e n) else give n)))
     (write_opt R (mp_write_uint R) (representable v)) (representable v)"
proof (rule reads_opt)
  fix x assume "representable v = Some x"
  then have "x < U64_WIRE_BOUND" by (auto simp: representable_def split: option.splits if_splits)
  then show "reads (then_read (read_word R what) (\<lambda>n. if U64_WIRE_BOUND \<le> n then fail (e n) else give n)) (mp_write_uint R x) x"
    by (intro readsI) (simp add: read_back not_le [symmetric])
qed (simp add: markers)

lemma reads_decoded:
  "str_ok (hd_content_encoding d) \<Longrightarrow>
   reads (http_decoded_read R) (http_decoded_encode R d) (d\<lparr>hd_content_length := representable (hd_content_length d)\<rparr>)"
  by (rule readsI) (simp add: http_decoded_read_def http_decoded_encode_def read_back reads_then [OF reads_length])

lemma reads_opt_decoded:
  assumes "pred_option (\<lambda>d. str_ok (hd_content_encoding d)) v"
  shows "reads (read_opt (http_decoded_read R)) (write_opt R (http_decoded_encode R) v)
    (map_option (\<lambda>d. d\<lparr>hd_content_length := representable (hd_content_length d)\<rparr>) v)"
proof (rule readsI)
  fix rest
  have n: "not_nil (http_decoded_encode R d)" for d by (simp add: http_decoded_encode_def not_nil_append markers)
  show "read_opt (http_decoded_read R) (write_opt R (http_decoded_encode R) v @ rest) =
    Inr (map_option (\<lambda>d. d\<lparr>hd_content_length := representable (hd_content_length d)\<rparr>) v, rest)"
    using assms by (cases v) (simp_all add: read_opt_def write_opt_def nil peek_nil_nil
       peek_not_nil [OF n] reads_then [OF reads_decoded] give_def)
qed

lemma http_head_back:
  "http_head_wf m \<Longrightarrow>
   http_head_decode R (http_head_encode R m @ rest) = (if rest = [] then Inr (http_head_sent m) else Inl (TrailingBytes (length rest)))"
  by (simp add: http_head_decode_def http_head_read_def http_head_encode_def http_head_wf_def http_head_sent_def decoded_def read_back
     reads_then [OF reads_opt_decoded])

lemma http_body_back:
  "length chunk < 2 ^ 32 \<Longrightarrow>
   http_body_decode R (http_body_encode R chunk @ rest) = (if rest = [] then Inr chunk else Inl (TrailingBytes (length rest)))"
  by (simp add: http_body_decode_def http_body_encode_def decoded_def read_back)

lemma reads_http_stats: "reads (http_stats_read R) (http_stats_write R m) m"
proof (rule readsI)
  fix rest
  have l: "length (http_stats_counts m) = 7" by (simp add: http_stats_counts_def)
  have "reads (read_n 7 (read_word R what)) (concat (map (mp_write_uint R) (http_stats_counts m))) (http_stats_counts m)" for what
    by (rule reads_read_n [of "http_stats_counts m", unfolded l]) (rule reads_uint)
  note seven = reads_then [OF this]
  have "http_stats_read R (http_stats_write R m @ rest) =
    (let n = http_stats_counts m in
     Inr (\<lparr>hs_queue_us = n ! 0, hs_connect_us = n ! 1, hs_tls_us = n ! 2, hs_ttfb_us = n ! 3, hs_total_us = n ! 4,
         hs_bytes_sent = n ! 5, hs_bytes_received = n ! 6, hs_reused = hs_reused m\<rparr>, rest))"
    unfolding http_stats_read_def http_stats_write_def by (simp add: seven read_back Let_def del: read_n.simps)
  then show "http_stats_read R (http_stats_write R m @ rest) = Inr (m, rest)" by (simp add: http_stats_counts_def)
qed

lemma http_done_back:
  "vec_ok header_ok (hdn_trailers m) \<Longrightarrow>
   http_done_decode R (http_done_encode R m @ rest) = (if rest = [] then Inr m else Inl (TrailingBytes (length rest)))"
  by (simp add: http_done_decode_def http_done_encode_def decoded_def read_back reads_then [OF reads_http_stats])

end

subsection \<open>Properties\<close>

text \<open>
  A request, a response head, a piece of a body and a terminal of the HTTP service decode to what was encoded, with
  one exception by design: a content length of \<open>2^63\<close> or more in a head is sent as absent, so it cannot make a client refuse the head.
\<close>

theorem http_messages_round_trip:
  assumes "rmp_lib R" "http_request_wf q" "http_head_wf h" "length chunk < 2 ^ 32" "vec_ok header_ok (hdn_trailers d)"
  shows "http_request_decode R (http_request_encode R q) = Inr q \<and>
    http_head_decode R (http_head_encode R h) = Inr (http_head_sent h) \<and>
    http_body_decode R (http_body_encode R chunk) = Inr chunk \<and>
    http_done_decode R (http_done_encode R d) = Inr d"
  using rmp_lib.http_request_back [OF assms(1,2), of "[]"] rmp_lib.http_head_back [OF assms(1,3), of "[]"]
    rmp_lib.http_body_back [OF assms(1,4), of "[]"] rmp_lib.http_done_back [OF assms(1,5), of "[]"]
  by simp

definition demo_head :: http_head where
  "demo_head = \<lparr>hh_status = 200, hh_version = 11, hh_reason = Some ''OK'', hh_headers = [\<lparr>hf_name = ''etag'', hf_value = ''x''\<rparr>],
     hh_decoded = Some \<lparr>hd_content_encoding = ''gzip'', hd_content_length = Some (2 ^ 63)\<rparr>, hh_idempotent = True\<rparr>"

definition demo_http :: http_request where
  "demo_http = \<lparr>hq_upstream = ''billing'', hq_method = ''GET'', hq_target = ''/v1'', hq_origin = None, hq_headers = [],
     hq_body = Some [], hq_timeout_ms = Some 30000, hq_connect_timeout_ms = None, hq_read_timeout_ms = None,
     hq_idempotent = Some False, hq_decode = True, hq_route = None, hq_traceparent = None\<rparr>"

definition demo_done :: http_done where
  "demo_done = \<lparr>hdn_trailers = [], hdn_stats = \<lparr>hs_queue_us = 1, hs_connect_us = 2, hs_tls_us = 3, hs_ttfb_us = 4, hs_total_us = 5,
     hs_bytes_sent = 6, hs_bytes_received = 7, hs_reused = False\<rparr>\<rparr>"

theorem http_messages_round_trip_witness:
  "http_request_decode msgpack (http_request_encode msgpack demo_http) = Inr demo_http \<and>
   http_head_decode msgpack (http_head_encode msgpack demo_head) = Inr (http_head_sent demo_head)"
proof -
  have "http_request_wf demo_http" "http_head_wf demo_head" "vec_ok header_ok (hdn_trailers demo_done)"
    by (simp_all add: http_request_wf_def demo_http_def http_head_wf_def demo_head_def demo_done_def vec_ok_def header_ok_def
        str_ok_def byte_def)
  from http_messages_round_trip [OF format.rmp_lib_axioms this(1,2) _ this(3), of "[]"] show ?thesis by simp
qed

end
