(* ===== verification/Messages_Queue.thy ===== *)
theory Messages_Queue
  imports Messages_Http
begin

text \<open>
  The messages of the queue service (\<open>ferro-proto/src/messages/queue.rs\<close>). Job ids and tokens are opaque handles of 1 to
  1024 bytes, an enqueue carries 1 to 1000 jobs, a reserve names 1 to 16 queues, counts stay below \<open>2^63\<close>: the decoders
  enforce all of this, so a handler never sees a message outside these bounds.
\<close>

definition QUEUE_HANDLE_MAX_BYTES :: nat where
  "QUEUE_HANDLE_MAX_BYTES = 1024"

definition QUEUE_ENQUEUE_MAX_JOBS :: nat where
  "QUEUE_ENQUEUE_MAX_JOBS = 1000"

definition QUEUE_RESERVE_MAX_QUEUES :: nat where
  "QUEUE_RESERVE_MAX_QUEUES = 16"

definition handle_len_ok :: "nat \<Rightarrow> bool" where
  "handle_len_ok len \<longleftrightarrow> 1 \<le> len \<and> len \<le> QUEUE_HANDLE_MAX_BYTES"

definition count_ok :: "nat \<Rightarrow> nat \<Rightarrow> bool" where
  "count_ok n mx \<longleftrightarrow> 1 \<le> n \<and> n \<le> mx"

definition ack_outcome_ok :: "8 word \<Rightarrow> bool" where
  "ack_outcome_ok v \<longleftrightarrow> v = 1 \<or> v = 2"

subsection \<open>Field rules\<close>

definition read_handle :: "rmp \<Rightarrow> string \<Rightarrow> string reader" where
  "read_handle R what rd =
     (case lib (''QUEUE '' @ what) (mp_read_bin_len R) rd of
        Inl e \<Rightarrow> Inl e
      | Inr (len, _) \<Rightarrow>
          if \<not> handle_len_ok (unat len) then
            Inl (Malformed (''QUEUE '' @ what @ '': '' @ to_dec (unat len) @ '' bytes, outside 1..='' @ to_dec QUEUE_HANDLE_MAX_BYTES))
          else read_bin R rd)"

definition read_bounded_array_len :: "rmp \<Rightarrow> string \<Rightarrow> nat \<Rightarrow> nat reader" where
  "read_bounded_array_len R what mx =
     then_read (lib what (mp_read_array_len R)) (\<lambda>n.
       if \<not> count_ok (unat n) mx then
         fail (Malformed (what @ '': '' @ to_dec (unat n) @ '' entries, outside 1..='' @ to_dec mx))
       else bounded (unat n) (give (unat n)))"

definition read_count :: "rmp \<Rightarrow> string \<Rightarrow> 64 word reader" where
  "read_count R what =
     then_read (read_word R (''QUEUE '' @ what)) (\<lambda>n.
       if U64_WIRE_BOUND \<le> n then fail (Malformed (''QUEUE '' @ what @ '': '' @ to_dec (unat n) @ '' is not below 2^63''))
       else give n)"

subsection \<open>Common parts\<close>

record queue_common =
  qc_tx_id :: "64 word option"
  qc_timeout_ms :: "32 word option"
  qc_traceparent :: "string option"

definition common_write :: "rmp \<Rightarrow> queue_common \<Rightarrow> u8s" where
  "common_write R c =
     mp_write_array_len R 3 @ write_opt R (mp_write_uint R) (qc_tx_id c) @ write_opt R (write_word R) (qc_timeout_ms c) @
     write_opt R (write_str R) (qc_traceparent c)"

definition common_read :: "rmp \<Rightarrow> queue_common reader" where
  "common_read R =
     then_read (expect_arity R ''QueueCommon'' 3) (\<lambda>_. then_read (read_opt (read_word R ''opt u64'')) (\<lambda>tx_id.
     then_read (read_opt (read_word R ''opt u32'')) (\<lambda>timeout_ms. then_read (read_opt (read_str_lossy R)) (\<lambda>traceparent.
       give \<lparr>qc_tx_id = tx_id, qc_timeout_ms = timeout_ms, qc_traceparent = traceparent\<rparr>))))"

record queue_stats =
  qs_queue_us :: "64 word"
  qs_exec_us :: "64 word"

definition queue_stats_write :: "rmp \<Rightarrow> queue_stats \<Rightarrow> u8s" where
  "queue_stats_write R m = mp_write_array_len R 2 @ mp_write_uint R (qs_queue_us m) @ mp_write_uint R (qs_exec_us m)"

definition queue_stats_read :: "rmp \<Rightarrow> queue_stats reader" where
  "queue_stats_read R =
     then_read (expect_arity R ''QueueStats'' 2) (\<lambda>_. then_read (read_count R ''queue_us'') (\<lambda>q. then_read (read_count R ''exec_us'') (\<lambda>e.
       give \<lparr>qs_queue_us = q, qs_exec_us = e\<rparr>)))"

subsection \<open>Enqueue\<close>

record enqueue_job =
  ej_queue :: string
  ej_payload :: string
  ej_delay_s :: "32 word"

definition enqueue_job_write :: "rmp \<Rightarrow> enqueue_job \<Rightarrow> u8s" where
  "enqueue_job_write R j = mp_write_array_len R 3 @ write_str R (ej_queue j) @ write_str R (ej_payload j) @ write_word R (ej_delay_s j)"

definition enqueue_job_read :: "rmp \<Rightarrow> enqueue_job reader" where
  "enqueue_job_read R =
     then_read (expect_arity R ''EnqueueJob'' 3) (\<lambda>_. then_read (read_str R) (\<lambda>queue. then_read (read_str R) (\<lambda>payload.
     then_read (read_word R ''QUEUE delay_s'') (\<lambda>delay_s. give \<lparr>ej_queue = queue, ej_payload = payload, ej_delay_s = delay_s\<rparr>))))"

record enqueue_request =
  eq_store :: string
  eq_jobs :: "enqueue_job list"
  eq_dedup_key :: "string option"
  eq_common :: queue_common

definition enqueue_request_encode :: "rmp \<Rightarrow> enqueue_request \<Rightarrow> u8s" where
  "enqueue_request_encode R m =
     mp_write_array_len R 4 @ write_str R (eq_store m) @ write_vec R (enqueue_job_write R) (eq_jobs m) @
     write_opt R (write_str R) (eq_dedup_key m) @ common_write R (eq_common m)"

definition enqueue_request_read :: "rmp \<Rightarrow> enqueue_request reader" where
  "enqueue_request_read R =
     then_read (expect_arity R ''EnqueueRequest'' 4) (\<lambda>_. then_read (read_str R) (\<lambda>store.
     then_read (read_bounded_array_len R ''EnqueueRequest jobs'' QUEUE_ENQUEUE_MAX_JOBS) (\<lambda>n.
     then_read (read_n n (enqueue_job_read R)) (\<lambda>jobs. then_read (read_opt (read_str R)) (\<lambda>dedup_key.
     then_read (common_read R) (\<lambda>common. then_read expect_end (\<lambda>_.
       give \<lparr>eq_store = store, eq_jobs = jobs, eq_dedup_key = dedup_key, eq_common = common\<rparr>)))))))"

definition enqueue_request_decode :: "rmp \<Rightarrow> u8s \<Rightarrow> codec_error + enqueue_request" where
  "enqueue_request_decode R = decoded (enqueue_request_read R)"

record enqueue_response =
  es_job_id :: "string option"
  es_inserted :: "32 word"
  es_deduplicated :: bool
  es_stats :: queue_stats

definition enqueue_response_encode :: "rmp \<Rightarrow> enqueue_response \<Rightarrow> u8s" where
  "enqueue_response_encode R m =
     mp_write_array_len R 4 @ write_opt R (write_bin R) (es_job_id m) @ write_word R (es_inserted m) @
     mp_write_bool R (es_deduplicated m) @ queue_stats_write R (es_stats m)"

definition enqueue_response_read :: "rmp \<Rightarrow> enqueue_response reader" where
  "enqueue_response_read R =
     then_read (expect_arity R ''EnqueueResponse'' 4) (\<lambda>_. then_read (read_opt (read_handle R ''job_id'')) (\<lambda>job_id.
     then_read (read_word R ''QUEUE inserted'') (\<lambda>inserted. then_read (read_bool R) (\<lambda>deduplicated.
     then_read (queue_stats_read R) (\<lambda>stats. then_read expect_end (\<lambda>_.
       give \<lparr>es_job_id = job_id, es_inserted = inserted, es_deduplicated = deduplicated, es_stats = stats\<rparr>))))))"

definition enqueue_response_decode :: "rmp \<Rightarrow> u8s \<Rightarrow> codec_error + enqueue_response" where
  "enqueue_response_decode R = decoded (enqueue_response_read R)"

subsection \<open>Reserve\<close>

record reserve_request =
  rq_store :: string
  rq_queues :: "string list"
  rq_max_jobs :: "16 word"
  rq_wait_ms :: "32 word"
  rq_liveness :: bool
  rq_common :: queue_common

definition reserve_request_encode :: "rmp \<Rightarrow> reserve_request \<Rightarrow> u8s" where
  "reserve_request_encode R m =
     mp_write_array_len R 6 @ write_str R (rq_store m) @ write_vec R (write_str R) (rq_queues m) @ write_word R (rq_max_jobs m) @
     write_word R (rq_wait_ms m) @ mp_write_bool R (rq_liveness m) @ common_write R (rq_common m)"

definition reserve_request_read :: "rmp \<Rightarrow> reserve_request reader" where
  "reserve_request_read R =
     then_read (expect_arity R ''ReserveRequest'' 6) (\<lambda>_. then_read (read_str R) (\<lambda>store.
     then_read (read_bounded_array_len R ''ReserveRequest queues'' QUEUE_RESERVE_MAX_QUEUES) (\<lambda>n.
     then_read (read_n n (read_str R)) (\<lambda>queues. then_read (read_word R ''ReserveRequest max_jobs'') (\<lambda>max_jobs.
     then_read (read_word R ''QUEUE wait_ms'') (\<lambda>wait_ms. then_read (read_bool R) (\<lambda>liveness.
     then_read (common_read R) (\<lambda>common. then_read expect_end (\<lambda>_.
       give \<lparr>rq_store = store, rq_queues = queues, rq_max_jobs = max_jobs, rq_wait_ms = wait_ms, rq_liveness = liveness,
         rq_common = common\<rparr>)))))))))"

definition reserve_request_decode :: "rmp \<Rightarrow> u8s \<Rightarrow> codec_error + reserve_request" where
  "reserve_request_decode R = decoded (reserve_request_read R)"

record reserved_job =
  rj_job_id :: string
  rj_token :: string
  rj_attempts :: "32 word"
  rj_queue :: string
  rj_payload :: string
  rj_created_at :: "64 word"
  rj_lease_deadline :: "64 word"

definition reserved_job_write :: "rmp \<Rightarrow> reserved_job \<Rightarrow> u8s" where
  "reserved_job_write R j =
     mp_write_array_len R 7 @ write_bin R (rj_job_id j) @ write_bin R (rj_token j) @ write_word R (rj_attempts j) @
     write_str R (rj_queue j) @ write_str R (rj_payload j) @ mp_write_sint R (rj_created_at j) @ mp_write_sint R (rj_lease_deadline j)"

definition reserved_job_read :: "rmp \<Rightarrow> reserved_job reader" where
  "reserved_job_read R =
     then_read (expect_arity R ''ReservedJob'' 7) (\<lambda>_. then_read (read_handle R ''job_id'') (\<lambda>job_id.
     then_read (read_handle R ''token'') (\<lambda>token. then_read (read_word R ''QUEUE attempts'') (\<lambda>attempts.
     then_read (read_str R) (\<lambda>queue. then_read (read_str R) (\<lambda>payload. then_read (read_i64 R ''QUEUE created_at'') (\<lambda>created_at.
     then_read (read_i64 R ''QUEUE lease_deadline'') (\<lambda>lease_deadline.
       give \<lparr>rj_job_id = job_id, rj_token = token, rj_attempts = attempts, rj_queue = queue, rj_payload = payload,
         rj_created_at = created_at, rj_lease_deadline = lease_deadline\<rparr>))))))))"

record reserve_response =
  rs_jobs :: "reserved_job list"
  rs_stats :: queue_stats

definition reserve_response_encode :: "rmp \<Rightarrow> reserve_response \<Rightarrow> u8s" where
  "reserve_response_encode R m = mp_write_array_len R 2 @ write_vec R (reserved_job_write R) (rs_jobs m) @ queue_stats_write R (rs_stats m)"

definition reserve_response_read :: "rmp \<Rightarrow> reserve_response reader" where
  "reserve_response_read R =
     then_read (expect_arity R ''ReserveResponse'' 2) (\<lambda>_. then_read (read_vec R ''ReserveResponse jobs'' (reserved_job_read R)) (\<lambda>jobs.
     then_read (queue_stats_read R) (\<lambda>stats. then_read expect_end (\<lambda>_. give \<lparr>rs_jobs = jobs, rs_stats = stats\<rparr>))))"

definition reserve_response_decode :: "rmp \<Rightarrow> u8s \<Rightarrow> codec_error + reserve_response" where
  "reserve_response_decode R = decoded (reserve_response_read R)"

subsection \<open>Fenced verbs\<close>

record fenced_request =
  fr_store :: string
  fr_job_id :: string
  fr_token :: string
  fr_common :: queue_common

definition fenced_request_encode :: "rmp \<Rightarrow> fenced_request \<Rightarrow> u8s" where
  "fenced_request_encode R m =
     mp_write_array_len R 4 @ write_str R (fr_store m) @ write_bin R (fr_job_id m) @ write_bin R (fr_token m) @ common_write R (fr_common m)"

definition fenced_request_read :: "rmp \<Rightarrow> fenced_request reader" where
  "fenced_request_read R =
     then_read (expect_arity R ''FencedRequest'' 4) (\<lambda>_. then_read (read_str R) (\<lambda>store.
     then_read (read_handle R ''job_id'') (\<lambda>job_id. then_read (read_handle R ''token'') (\<lambda>token.
     then_read (common_read R) (\<lambda>common. then_read expect_end (\<lambda>_.
       give \<lparr>fr_store = store, fr_job_id = job_id, fr_token = token, fr_common = common\<rparr>))))))"

definition fenced_request_decode :: "rmp \<Rightarrow> u8s \<Rightarrow> codec_error + fenced_request" where
  "fenced_request_decode R = decoded (fenced_request_read R)"

record ack_response =
  ak_outcome :: "8 word"
  ak_stats :: queue_stats

definition ack_response_encode :: "rmp \<Rightarrow> ack_response \<Rightarrow> u8s" where
  "ack_response_encode R m = mp_write_array_len R 2 @ write_word R (ak_outcome m) @ queue_stats_write R (ak_stats m)"

definition ack_response_read :: "rmp \<Rightarrow> ack_response reader" where
  "ack_response_read R =
     then_read (expect_arity R ''AckResponse'' 2) (\<lambda>_. then_read (read_word R ''AckResponse outcome'') (\<lambda>out.
     if \<not> ack_outcome_ok out then fail (Malformed (''AckResponse outcome '' @ to_dec (unat out) @ '' is not an [ack_outcome] value''))
     else then_read (queue_stats_read R) (\<lambda>stats. then_read expect_end (\<lambda>_. give \<lparr>ak_outcome = out, ak_stats = stats\<rparr>))))"

definition ack_response_decode :: "rmp \<Rightarrow> u8s \<Rightarrow> codec_error + ack_response" where
  "ack_response_decode R = decoded (ack_response_read R)"

record release_request =
  rl_store :: string
  rl_job_id :: string
  rl_token :: string
  rl_delay_s :: "32 word"
  rl_common :: queue_common

definition release_request_encode :: "rmp \<Rightarrow> release_request \<Rightarrow> u8s" where
  "release_request_encode R m =
     mp_write_array_len R 5 @ write_str R (rl_store m) @ write_bin R (rl_job_id m) @ write_bin R (rl_token m) @
     write_word R (rl_delay_s m) @ common_write R (rl_common m)"

definition release_request_read :: "rmp \<Rightarrow> release_request reader" where
  "release_request_read R =
     then_read (expect_arity R ''ReleaseRequest'' 5) (\<lambda>_. then_read (read_str R) (\<lambda>store.
     then_read (read_handle R ''job_id'') (\<lambda>job_id. then_read (read_handle R ''token'') (\<lambda>token.
     then_read (read_word R ''QUEUE delay_s'') (\<lambda>delay_s. then_read (common_read R) (\<lambda>common. then_read expect_end (\<lambda>_.
       give \<lparr>rl_store = store, rl_job_id = job_id, rl_token = token, rl_delay_s = delay_s, rl_common = common\<rparr>)))))))"

definition release_request_decode :: "rmp \<Rightarrow> u8s \<Rightarrow> codec_error + release_request" where
  "release_request_decode R = decoded (release_request_read R)"

record release_response =
  rr_new_job_id :: "string option"
  rr_stats :: queue_stats

definition release_response_encode :: "rmp \<Rightarrow> release_response \<Rightarrow> u8s" where
  "release_response_encode R m = mp_write_array_len R 2 @ write_opt R (write_bin R) (rr_new_job_id m) @ queue_stats_write R (rr_stats m)"

definition release_response_read :: "rmp \<Rightarrow> release_response reader" where
  "release_response_read R =
     then_read (expect_arity R ''ReleaseResponse'' 2) (\<lambda>_. then_read (read_opt (read_handle R ''new_job_id'')) (\<lambda>new_job_id.
     then_read (queue_stats_read R) (\<lambda>stats. then_read expect_end (\<lambda>_. give \<lparr>rr_new_job_id = new_job_id, rr_stats = stats\<rparr>))))"

definition release_response_decode :: "rmp \<Rightarrow> u8s \<Rightarrow> codec_error + release_response" where
  "release_response_decode R = decoded (release_response_read R)"

record extend_response =
  ex_lease_deadline :: "64 word"
  ex_stats :: queue_stats

definition extend_response_encode :: "rmp \<Rightarrow> extend_response \<Rightarrow> u8s" where
  "extend_response_encode R m = mp_write_array_len R 2 @ mp_write_sint R (ex_lease_deadline m) @ queue_stats_write R (ex_stats m)"

definition extend_response_read :: "rmp \<Rightarrow> extend_response reader" where
  "extend_response_read R =
     then_read (expect_arity R ''ExtendResponse'' 2) (\<lambda>_. then_read (read_i64 R ''QUEUE lease_deadline'') (\<lambda>lease_deadline.
     then_read (queue_stats_read R) (\<lambda>stats. then_read expect_end (\<lambda>_. give \<lparr>ex_lease_deadline = lease_deadline, ex_stats = stats\<rparr>))))"

definition extend_response_decode :: "rmp \<Rightarrow> u8s \<Rightarrow> codec_error + extend_response" where
  "extend_response_decode R = decoded (extend_response_read R)"

subsection \<open>Size and clear\<close>

record queue_scope_request =
  sc_store :: string
  sc_queue :: string
  sc_common :: queue_common

definition queue_scope_request_encode :: "rmp \<Rightarrow> queue_scope_request \<Rightarrow> u8s" where
  "queue_scope_request_encode R m =
     mp_write_array_len R 3 @ write_str R (sc_store m) @ write_str R (sc_queue m) @ common_write R (sc_common m)"

definition queue_scope_request_read :: "rmp \<Rightarrow> queue_scope_request reader" where
  "queue_scope_request_read R =
     then_read (expect_arity R ''QueueScopeRequest'' 3) (\<lambda>_. then_read (read_str R) (\<lambda>store. then_read (read_str R) (\<lambda>queue.
     then_read (common_read R) (\<lambda>common. then_read expect_end (\<lambda>_.
       give \<lparr>sc_store = store, sc_queue = queue, sc_common = common\<rparr>)))))"

definition queue_scope_request_decode :: "rmp \<Rightarrow> u8s \<Rightarrow> codec_error + queue_scope_request" where
  "queue_scope_request_decode R = decoded (queue_scope_request_read R)"

record size_response =
  sz_pending :: "64 word"
  sz_delayed :: "64 word"
  sz_reserved :: "64 word"
  sz_oldest_pending_at :: "64 word option"
  sz_stats :: queue_stats

definition size_response_encode :: "rmp \<Rightarrow> size_response \<Rightarrow> u8s" where
  "size_response_encode R m =
     mp_write_array_len R 5 @ mp_write_uint R (sz_pending m) @ mp_write_uint R (sz_delayed m) @ mp_write_uint R (sz_reserved m) @
     write_opt R (mp_write_sint R) (sz_oldest_pending_at m) @ queue_stats_write R (sz_stats m)"

definition size_response_read :: "rmp \<Rightarrow> size_response reader" where
  "size_response_read R =
     then_read (expect_arity R ''SizeResponse'' 5) (\<lambda>_. then_read (read_count R ''pending'') (\<lambda>pending.
     then_read (read_count R ''delayed'') (\<lambda>delayed. then_read (read_count R ''reserved'') (\<lambda>reserved.
     then_read (read_opt (read_i64 R ''QUEUE oldest_pending_at'')) (\<lambda>oldest. then_read (queue_stats_read R) (\<lambda>stats.
     then_read expect_end (\<lambda>_.
       give \<lparr>sz_pending = pending, sz_delayed = delayed, sz_reserved = reserved, sz_oldest_pending_at = oldest, sz_stats = stats\<rparr>)))))))"

definition size_response_decode :: "rmp \<Rightarrow> u8s \<Rightarrow> codec_error + size_response" where
  "size_response_decode R = decoded (size_response_read R)"

record clear_response =
  cl_deleted :: "64 word"
  cl_stats :: queue_stats

definition clear_response_encode :: "rmp \<Rightarrow> clear_response \<Rightarrow> u8s" where
  "clear_response_encode R m = mp_write_array_len R 2 @ mp_write_uint R (cl_deleted m) @ queue_stats_write R (cl_stats m)"

definition clear_response_read :: "rmp \<Rightarrow> clear_response reader" where
  "clear_response_read R =
     then_read (expect_arity R ''ClearResponse'' 2) (\<lambda>_. then_read (read_count R ''deleted'') (\<lambda>deleted.
     then_read (queue_stats_read R) (\<lambda>stats. then_read expect_end (\<lambda>_. give \<lparr>cl_deleted = deleted, cl_stats = stats\<rparr>))))"

definition clear_response_decode :: "rmp \<Rightarrow> u8s \<Rightarrow> codec_error + clear_response" where
  "clear_response_decode R = decoded (clear_response_read R)"

subsection \<open>Messages within the bounds\<close>

text \<open>\<open>p\<close> is what is known of the trace parent: any valid text after decoding, a text that fits when encoding.\<close>

definition handle_ok :: "string \<Rightarrow> bool" where
  "handle_ok h \<longleftrightarrow> handle_len_ok (length h)"

definition common_ok :: "(string \<Rightarrow> bool) \<Rightarrow> queue_common \<Rightarrow> bool" where
  "common_ok p c \<longleftrightarrow> pred_option p (qc_traceparent c)"

definition queue_stats_ok :: "queue_stats \<Rightarrow> bool" where
  "queue_stats_ok m \<longleftrightarrow> qs_queue_us m < U64_WIRE_BOUND \<and> qs_exec_us m < U64_WIRE_BOUND"

definition enqueue_job_ok :: "enqueue_job \<Rightarrow> bool" where
  "enqueue_job_ok j \<longleftrightarrow> str_ok (ej_queue j) \<and> str_ok (ej_payload j)"

definition enqueue_request_ok :: "(string \<Rightarrow> bool) \<Rightarrow> enqueue_request \<Rightarrow> bool" where
  "enqueue_request_ok p m \<longleftrightarrow> str_ok (eq_store m) \<and> count_ok (length (eq_jobs m)) QUEUE_ENQUEUE_MAX_JOBS \<and>
     list_all enqueue_job_ok (eq_jobs m) \<and> pred_option str_ok (eq_dedup_key m) \<and> common_ok p (eq_common m)"

definition reserve_request_ok :: "(string \<Rightarrow> bool) \<Rightarrow> reserve_request \<Rightarrow> bool" where
  "reserve_request_ok p m \<longleftrightarrow> str_ok (rq_store m) \<and> count_ok (length (rq_queues m)) QUEUE_RESERVE_MAX_QUEUES \<and>
     list_all str_ok (rq_queues m) \<and> common_ok p (rq_common m)"

definition reserved_job_ok :: "reserved_job \<Rightarrow> bool" where
  "reserved_job_ok j \<longleftrightarrow> handle_ok (rj_job_id j) \<and> handle_ok (rj_token j) \<and> str_ok (rj_queue j) \<and> str_ok (rj_payload j)"

definition fenced_request_ok :: "(string \<Rightarrow> bool) \<Rightarrow> fenced_request \<Rightarrow> bool" where
  "fenced_request_ok p m \<longleftrightarrow> str_ok (fr_store m) \<and> handle_ok (fr_job_id m) \<and> handle_ok (fr_token m) \<and> common_ok p (fr_common m)"

definition release_request_ok :: "(string \<Rightarrow> bool) \<Rightarrow> release_request \<Rightarrow> bool" where
  "release_request_ok p m \<longleftrightarrow> str_ok (rl_store m) \<and> handle_ok (rl_job_id m) \<and> handle_ok (rl_token m) \<and> common_ok p (rl_common m)"

definition queue_scope_request_ok :: "(string \<Rightarrow> bool) \<Rightarrow> queue_scope_request \<Rightarrow> bool" where
  "queue_scope_request_ok p m \<longleftrightarrow> str_ok (sc_store m) \<and> str_ok (sc_queue m) \<and> common_ok p (sc_common m)"

lemma handle_short: "handle_ok h \<Longrightarrow> length h < 2 ^ 32"
  by (simp add: handle_ok_def handle_len_ok_def QUEUE_HANDLE_MAX_BYTES_def)

context rmp_lib
begin

lemma reads_handle: "handle_ok h \<Longrightarrow> reads (read_handle R what) (write_bin R h) h"
proof (rule readsI)
  fix rest
  assume h: "handle_ok h"
  from bin [of "as_bytes h" rest] handle_short [OF h]
  have "mp_read_bin_len R (write_bin R h @ rest) = Inr (word_of_nat (length h), as_bytes h @ rest)" by (simp add: write_bin_def)
  moreover from readsD [OF reads_bin [OF handle_short [OF h]]] have "read_bin R (write_bin R h @ rest) = Inr (h, rest)" .
  ultimately show "read_handle R what (write_bin R h @ rest) = Inr (h, rest)"
    using h handle_short [OF h] by (simp add: read_handle_def lib_def handle_ok_def unat_of_length)
qed

lemma reads_opt_handle: "pred_option handle_ok v \<Longrightarrow> reads (read_opt (read_handle R what)) (write_opt R (write_bin R) v) v"
  by (erule reads_opt_ok) (simp_all add: reads_handle bin_not_nil)

lemma reads_count: "x < U64_WIRE_BOUND \<Longrightarrow> reads (read_count R what) (mp_write_uint R x) x"
  by (rule readsI) (simp add: read_count_def read_back not_le [symmetric])

lemma reads_common: "common_ok str_ok c \<Longrightarrow> reads (common_read R) (common_write R c) c"
  by (rule readsI) (simp add: common_read_def common_write_def common_ok_def read_back)

lemma reads_queue_stats: "queue_stats_ok m \<Longrightarrow> reads (queue_stats_read R) (queue_stats_write R m) m"
  by (rule readsI) (simp add: queue_stats_read_def queue_stats_write_def queue_stats_ok_def read_back reads_then [OF reads_count])

lemma reads_enqueue_job: "enqueue_job_ok j \<Longrightarrow> reads (enqueue_job_read R) (enqueue_job_write R j) j"
  by (rule readsI) (simp add: enqueue_job_read_def enqueue_job_write_def enqueue_job_ok_def read_back)

lemma reads_reserved_job: "reserved_job_ok j \<Longrightarrow> reads (reserved_job_read R) (reserved_job_write R j) j"
  by (rule readsI) (simp add: reserved_job_read_def reserved_job_write_def reserved_job_ok_def read_back reads_then [OF reads_handle])

lemma reads_opt_i64: "reads (read_opt (read_i64 R what)) (write_opt R (mp_write_sint R) v) v"
  by (rule reads_opt) (simp_all add: reads_i64 markers)

lemma bounded_vec:
  assumes "count_ok (length xs) mx" "mx < 2 ^ 32" "\<And>x. x \<in> set xs \<Longrightarrow> reads r (w x) x" "\<And>x. not_nil (w x)"
  shows "then_read (read_bounded_array_len R what mx) (\<lambda>n. then_read (read_n n r) k) (write_vec R w xs @ rest) = k xs rest"
proof -
  have l: "length xs < 2 ^ 32" using assms(1,2) by (simp add: count_ok_def)
  have "length xs \<le> length (concat (map w xs) @ rest)" using length_concat_ge [of xs w] assms(4) by (simp add: not_nilD)
  then have "then_read (bounded (length xs) (give (length xs))) (\<lambda>n. then_read (read_n n r) k) (concat (map w xs) @ rest) = k xs rest"
    by (simp add: then_read_def [of "bounded _ _"] give_def reads_then [OF reads_read_n [OF assms(3)]] del: length_concat length_append)
  then show ?thesis using assms(1) l
    by (simp add: read_bounded_array_len_def write_vec_def then_assoc reads_then [OF reads_array] unat_of_length)
qed

lemma enqueue_job_not_nil: "not_nil (enqueue_job_write R j)"
  by (simp add: enqueue_job_write_def not_nil_append markers)

lemma reserved_job_not_nil: "not_nil (reserved_job_write R j)"
  by (simp add: reserved_job_write_def not_nil_append markers)

lemma reads_reserved_jobs:
  "vec_ok reserved_job_ok js \<Longrightarrow> reads (read_vec R what (reserved_job_read R)) (write_vec R (reserved_job_write R) js) js"
  by (erule reads_vec_ok) (simp_all add: reads_reserved_job reserved_job_not_nil)

lemmas then_queue_back [read_back] =
  reads_then [OF reads_handle] reads_then [OF reads_opt_handle] reads_then [OF reads_count] reads_then [OF reads_common]
  reads_then [OF reads_queue_stats] reads_then [OF reads_opt_i64] reads_then [OF reads_reserved_jobs]

lemma enqueue_request_back:
  assumes "enqueue_request_ok str_ok m"
  shows "enqueue_request_decode R (enqueue_request_encode R m @ rest) = (if rest = [] then Inr m else Inl (TrailingBytes (length rest)))"
proof -
  have v: "then_read (read_bounded_array_len R what QUEUE_ENQUEUE_MAX_JOBS) (\<lambda>n. then_read (read_n n (enqueue_job_read R)) k)
      (write_vec R (enqueue_job_write R) (eq_jobs m) @ b) = k (eq_jobs m) b" for what k b
    using assms by (intro bounded_vec) (auto simp: enqueue_request_ok_def list_all_iff reads_enqueue_job QUEUE_ENQUEUE_MAX_JOBS_def
      enqueue_job_not_nil)
  show ?thesis using assms
    by (simp add: enqueue_request_decode_def enqueue_request_read_def enqueue_request_encode_def enqueue_request_ok_def decoded_def
       read_back v)
qed

lemma reserve_request_back:
  assumes "reserve_request_ok str_ok m"
  shows "reserve_request_decode R (reserve_request_encode R m @ rest) = (if rest = [] then Inr m else Inl (TrailingBytes (length rest)))"
proof -
  have v: "then_read (read_bounded_array_len R what QUEUE_RESERVE_MAX_QUEUES) (\<lambda>n. then_read (read_n n (read_str R)) k)
      (write_vec R (write_str R) (rq_queues m) @ b) = k (rq_queues m) b" for what k b
    using assms by (intro bounded_vec) (auto simp: reserve_request_ok_def list_all_iff reads_str QUEUE_RESERVE_MAX_QUEUES_def str_not_nil)
  show ?thesis using assms
    by (simp add: reserve_request_decode_def reserve_request_read_def reserve_request_encode_def reserve_request_ok_def decoded_def
       read_back v)
qed

lemma fenced_request_back:
  "fenced_request_ok str_ok m \<Longrightarrow>
   fenced_request_decode R (fenced_request_encode R m @ rest) = (if rest = [] then Inr m else Inl (TrailingBytes (length rest)))"
  by (simp add: fenced_request_decode_def fenced_request_read_def fenced_request_encode_def fenced_request_ok_def decoded_def read_back)

lemma release_request_back:
  "release_request_ok str_ok m \<Longrightarrow>
   release_request_decode R (release_request_encode R m @ rest) = (if rest = [] then Inr m else Inl (TrailingBytes (length rest)))"
  by (simp add: release_request_decode_def release_request_read_def release_request_encode_def release_request_ok_def decoded_def read_back)

lemma queue_scope_request_back:
  "queue_scope_request_ok str_ok m \<Longrightarrow>
   queue_scope_request_decode R (queue_scope_request_encode R m @ rest) = (if rest = [] then Inr m else Inl (TrailingBytes (length rest)))"
  by (simp add: queue_scope_request_decode_def queue_scope_request_read_def queue_scope_request_encode_def queue_scope_request_ok_def decoded_def read_back)

lemma enqueue_response_back:
  "pred_option handle_ok (es_job_id m) \<and> queue_stats_ok (es_stats m) \<Longrightarrow>
   enqueue_response_decode R (enqueue_response_encode R m @ rest) = (if rest = [] then Inr m else Inl (TrailingBytes (length rest)))"
  by (simp add: enqueue_response_decode_def enqueue_response_read_def enqueue_response_encode_def decoded_def read_back)

lemma reserve_response_back:
  "vec_ok reserved_job_ok (rs_jobs m) \<and> queue_stats_ok (rs_stats m) \<Longrightarrow>
   reserve_response_decode R (reserve_response_encode R m @ rest) = (if rest = [] then Inr m else Inl (TrailingBytes (length rest)))"
  by (simp add: reserve_response_decode_def reserve_response_read_def reserve_response_encode_def decoded_def read_back)

lemma ack_response_back:
  "ack_outcome_ok (ak_outcome m) \<and> queue_stats_ok (ak_stats m) \<Longrightarrow>
   ack_response_decode R (ack_response_encode R m @ rest) = (if rest = [] then Inr m else Inl (TrailingBytes (length rest)))"
  by (simp add: ack_response_decode_def ack_response_read_def ack_response_encode_def decoded_def read_back)

lemma release_response_back:
  "pred_option handle_ok (rr_new_job_id m) \<and> queue_stats_ok (rr_stats m) \<Longrightarrow>
   release_response_decode R (release_response_encode R m @ rest) = (if rest = [] then Inr m else Inl (TrailingBytes (length rest)))"
  by (simp add: release_response_decode_def release_response_read_def release_response_encode_def decoded_def read_back)

lemma extend_response_back:
  "queue_stats_ok (ex_stats m) \<Longrightarrow>
   extend_response_decode R (extend_response_encode R m @ rest) = (if rest = [] then Inr m else Inl (TrailingBytes (length rest)))"
  by (simp add: extend_response_decode_def extend_response_read_def extend_response_encode_def decoded_def read_back)

lemma size_response_back:
  "sz_pending m < U64_WIRE_BOUND \<and> sz_delayed m < U64_WIRE_BOUND \<and> sz_reserved m < U64_WIRE_BOUND \<and> queue_stats_ok (sz_stats m) \<Longrightarrow>
   size_response_decode R (size_response_encode R m @ rest) = (if rest = [] then Inr m else Inl (TrailingBytes (length rest)))"
  by (simp add: size_response_decode_def size_response_read_def size_response_encode_def decoded_def read_back)

lemma clear_response_back:
  "cl_deleted m < U64_WIRE_BOUND \<and> queue_stats_ok (cl_stats m) \<Longrightarrow>
   clear_response_decode R (clear_response_encode R m @ rest) = (if rest = [] then Inr m else Inl (TrailingBytes (length rest)))"
  by (simp add: clear_response_decode_def clear_response_read_def clear_response_encode_def decoded_def read_back)

lemma gives_handle: "gives n (read_handle R what) handle_ok"
proof (rule givesI)
  fix b x rest
  assume n: "length b \<le> n" and r: "read_handle R what b = Inr (x, rest)"
  then obtain len b' where l: "mp_read_bin_len R b = Inr (len, b')" "handle_len_ok (unat len)" and x: "read_bin R b = Inr (x, rest)"
    by (auto simp: read_handle_def lib_def split: sum.splits if_splits)
  from x l(1) have "unat len \<le> length b'" "x = of_bytes (take (unat len) b')"
    by (auto simp: read_bin_def then_read_def lib_def read_exact_def give_def dest!: bounded_InrD)
  then have "length x = unat len" by simp
  with l(2) givesD [OF gives_bin n x] show "handle_ok x \<and> length rest \<le> length b" by (simp add: handle_ok_def)
qed

lemma gives_bounded_len: "gives n (read_bounded_array_len R what mx) (\<lambda>k. count_ok k mx)"
  unfolding read_bounded_array_len_def
  by (rule gives_then [OF gives_array]) (auto intro: gives_fail gives_bounded gives_give)

lemma gives_count: "gives n (read_count R what) (\<lambda>x. x < U64_WIRE_BOUND)"
  unfolding read_count_def by (rule gives_then [OF gives_word]) (auto intro: gives_fail gives_give)

lemma gives_common: "gives n (common_read R) (common_ok utf8_valid)"
  unfolding common_read_def common_ok_def
  by (rule gives_then [OF gives_arity], rule gives_then [OF gives_opt [OF gives_word]], rule gives_then [OF gives_opt [OF gives_word]],
      rule gives_map [OF gives_opt [OF gives_str_lossy]]) simp

lemma gives_enqueue_job: "gives n (enqueue_job_read R) enqueue_job_ok"
  unfolding enqueue_job_read_def enqueue_job_ok_def
  by (rule gives_then [OF gives_arity], rule gives_then [OF gives_str], rule gives_then [OF gives_str], rule gives_map [OF gives_word]) simp

lemma gives_enqueue_request: "gives n (enqueue_request_read R) (enqueue_request_ok utf8_valid)"
  unfolding enqueue_request_read_def enqueue_request_ok_def
  by (rule gives_then [OF gives_arity], rule gives_then [OF gives_str], rule gives_then [OF gives_bounded_len],
      rule gives_then [OF gives_read_n [OF gives_enqueue_job]], rule gives_then [OF gives_opt [OF gives_str]],
      rule gives_then [OF gives_common], rule gives_map [OF gives_end]) simp

lemma gives_reserve_request: "gives n (reserve_request_read R) (reserve_request_ok utf8_valid)"
  unfolding reserve_request_read_def reserve_request_ok_def
  by (rule gives_then [OF gives_arity], rule gives_then [OF gives_str], rule gives_then [OF gives_bounded_len],
      rule gives_then [OF gives_read_n [OF gives_str]], rule gives_then [OF gives_word], rule gives_then [OF gives_word],
      rule gives_then [OF gives_bool], rule gives_then [OF gives_common], rule gives_map [OF gives_end]) simp

lemma gives_fenced_request: "gives n (fenced_request_read R) (fenced_request_ok utf8_valid)"
  unfolding fenced_request_read_def fenced_request_ok_def
  by (rule gives_then [OF gives_arity], rule gives_then [OF gives_str], rule gives_then [OF gives_handle],
      rule gives_then [OF gives_handle], rule gives_then [OF gives_common], rule gives_map [OF gives_end]) simp

lemma gives_release_request: "gives n (release_request_read R) (release_request_ok utf8_valid)"
  unfolding release_request_read_def release_request_ok_def
  by (rule gives_then [OF gives_arity], rule gives_then [OF gives_str], rule gives_then [OF gives_handle],
      rule gives_then [OF gives_handle], rule gives_then [OF gives_word], rule gives_then [OF gives_common],
      rule gives_map [OF gives_end]) simp

lemma gives_scope_request: "gives n (queue_scope_request_read R) (queue_scope_request_ok utf8_valid)"
  unfolding queue_scope_request_read_def queue_scope_request_ok_def
  by (rule gives_then [OF gives_arity], rule gives_then [OF gives_str], rule gives_then [OF gives_str],
      rule gives_then [OF gives_common], rule gives_map [OF gives_end]) simp

end

subsection \<open>Properties\<close>

text \<open>
  C34: Whatever bytes a client sends, a queue request that decodes is within the protocol's bounds: every job id and token
  has 1 to 1024 bytes, an enqueue has 1 to 1000 jobs, a reserve names 1 to 16 queues, and every text is valid UTF-8.
\<close>

theorem queue_requests_within_bounds:
  assumes "rmp_lib R"
  shows "(enqueue_request_decode R b = Inr e \<longrightarrow>
      1 \<le> length (eq_jobs e) \<and> length (eq_jobs e) \<le> 1000 \<and>
      utf8_valid (eq_store e) \<and> list_all (\<lambda>j. utf8_valid (ej_queue j) \<and> utf8_valid (ej_payload j)) (eq_jobs e) \<and>
      pred_option utf8_valid (eq_dedup_key e) \<and> pred_option utf8_valid (qc_traceparent (eq_common e))) \<and>
    (reserve_request_decode R b = Inr r \<longrightarrow>
      1 \<le> length (rq_queues r) \<and> length (rq_queues r) \<le> 16 \<and>
      utf8_valid (rq_store r) \<and> list_all utf8_valid (rq_queues r) \<and> pred_option utf8_valid (qc_traceparent (rq_common r))) \<and>
    (fenced_request_decode R b = Inr f \<longrightarrow>
      1 \<le> length (fr_job_id f) \<and> length (fr_job_id f) \<le> 1024 \<and> 1 \<le> length (fr_token f) \<and> length (fr_token f) \<le> 1024 \<and>
      utf8_valid (fr_store f) \<and> pred_option utf8_valid (qc_traceparent (fr_common f))) \<and>
    (release_request_decode R b = Inr l \<longrightarrow>
      1 \<le> length (rl_job_id l) \<and> length (rl_job_id l) \<le> 1024 \<and> 1 \<le> length (rl_token l) \<and> length (rl_token l) \<le> 1024 \<and>
      utf8_valid (rl_store l) \<and> pred_option utf8_valid (qc_traceparent (rl_common l))) \<and>
    (queue_scope_request_decode R b = Inr s \<longrightarrow>
      utf8_valid (sc_store s) \<and> utf8_valid (sc_queue s) \<and> pred_option utf8_valid (qc_traceparent (sc_common s)))"
proof -
  note literal = enqueue_request_ok_def reserve_request_ok_def fenced_request_ok_def release_request_ok_def
    queue_scope_request_ok_def handle_ok_def handle_len_ok_def count_ok_def common_ok_def enqueue_job_ok_def str_ok_def
    QUEUE_HANDLE_MAX_BYTES_def QUEUE_ENQUEUE_MAX_JOBS_def QUEUE_RESERVE_MAX_QUEUES_def
  have texts: "list_all str_ok xs \<Longrightarrow> list_all utf8_valid xs" for xs by (auto simp: list_all_iff str_ok_def)
  have jobs: "list_all enqueue_job_ok xs \<Longrightarrow> list_all (\<lambda>j. utf8_valid (ej_queue j) \<and> utf8_valid (ej_payload j)) xs" for xs
    by (auto simp: list_all_iff enqueue_job_ok_def str_ok_def)
  have text_opt: "pred_option str_ok x \<Longrightarrow> pred_option utf8_valid x" for x by (cases x) (auto simp: str_ok_def)
  show ?thesis
    unfolding enqueue_request_decode_def reserve_request_decode_def fenced_request_decode_def release_request_decode_def
      queue_scope_request_decode_def
    using gives_decoded [OF rmp_lib.gives_enqueue_request [OF assms], of b e] gives_decoded [OF rmp_lib.gives_reserve_request [OF assms], of b r]
      gives_decoded [OF rmp_lib.gives_fenced_request [OF assms], of b f] gives_decoded [OF rmp_lib.gives_release_request [OF assms], of b l]
      gives_decoded [OF rmp_lib.gives_scope_request [OF assms], of b s] jobs [of "eq_jobs e"] texts [of "rq_queues r"] text_opt [of "eq_dedup_key e"]
    by (intro conjI impI) (simp_all add: literal)
qed

definition demo_fenced :: fenced_request where
  "demo_fenced = \<lparr>fr_store = ''jobs'', fr_job_id = ''42'', fr_token = ''t'',
     fr_common = \<lparr>qc_tx_id = None, qc_timeout_ms = Some 1000, qc_traceparent = None\<rparr>\<rparr>"

theorem queue_requests_within_bounds_witness:
  "fenced_request_decode msgpack (fenced_request_encode msgpack demo_fenced) = Inr demo_fenced \<and>
   1 \<le> length (fr_token demo_fenced) \<and> length (fr_token demo_fenced) \<le> 1024"
proof -
  have "fenced_request_ok str_ok demo_fenced"
    by (simp add: fenced_request_ok_def demo_fenced_def str_ok_def byte_def handle_ok_def handle_len_ok_def QUEUE_HANDLE_MAX_BYTES_def
        common_ok_def)
  from format.fenced_request_back [OF this, of "[]"] have
    d: "fenced_request_decode msgpack (fenced_request_encode msgpack demo_fenced) = Inr demo_fenced" by simp
  with queue_requests_within_bounds [OF format.rmp_lib_axioms, of "fenced_request_encode msgpack demo_fenced" _ _ demo_fenced]
  show ?thesis by blast
qed

text \<open>
  The queue requests and the job a reserve hands out survive the wire: what one side encodes within the bounds the
  other side decodes to the same message, handles byte for byte, and anything that follows the message is refused.
\<close>

theorem queue_messages_round_trip:
  assumes "rmp_lib R" "enqueue_request_ok str_ok e" "reserve_request_ok str_ok r" "fenced_request_ok str_ok f"
    "release_request_ok str_ok l" "vec_ok reserved_job_ok (rs_jobs a)" "queue_stats_ok (rs_stats a)"
  shows "enqueue_request_decode R (enqueue_request_encode R e) = Inr e \<and>
    reserve_request_decode R (reserve_request_encode R r) = Inr r \<and>
    fenced_request_decode R (fenced_request_encode R f) = Inr f \<and>
    release_request_decode R (release_request_encode R l) = Inr l \<and>
    reserve_response_decode R (reserve_response_encode R a) = Inr a \<and>
    (rest \<noteq> [] \<longrightarrow> fenced_request_decode R (fenced_request_encode R f @ rest) = Inl (TrailingBytes (length rest)))"
  using rmp_lib.enqueue_request_back [OF assms(1,2), of "[]"] rmp_lib.reserve_request_back [OF assms(1,3), of "[]"]
    rmp_lib.fenced_request_back [OF assms(1,4), of "[]"] rmp_lib.fenced_request_back [OF assms(1,4), of rest]
    rmp_lib.release_request_back [OF assms(1,5), of "[]"] rmp_lib.reserve_response_back [OF assms(1), of a "[]"] assms(6,7)
  by simp

definition demo_enqueue :: enqueue_request where
  "demo_enqueue = \<lparr>eq_store = ''jobs'', eq_jobs = [\<lparr>ej_queue = ''mail'', ej_payload = ''{}'', ej_delay_s = 0\<rparr>], eq_dedup_key = None,
     eq_common = fr_common demo_fenced\<rparr>"

definition demo_reserve :: reserve_request where
  "demo_reserve = \<lparr>rq_store = ''jobs'', rq_queues = [''mail''], rq_max_jobs = 1, rq_wait_ms = 0, rq_liveness = False,
     rq_common = fr_common demo_fenced\<rparr>"

definition demo_release :: release_request where
  "demo_release = \<lparr>rl_store = ''jobs'', rl_job_id = ''42'', rl_token = ''t'', rl_delay_s = 30, rl_common = fr_common demo_fenced\<rparr>"

definition demo_reserved :: reserve_response where
  "demo_reserved = \<lparr>rs_jobs = [\<lparr>rj_job_id = ''42'', rj_token = ''t'', rj_attempts = 3, rj_queue = ''mail'', rj_payload = ''{}'',
     rj_created_at = 1790000000, rj_lease_deadline = 1790000091\<rparr>], rs_stats = \<lparr>qs_queue_us = 12, qs_exec_us = 70000\<rparr>\<rparr>"

theorem queue_messages_round_trip_witness:
  "enqueue_request_decode msgpack (enqueue_request_encode msgpack demo_enqueue) = Inr demo_enqueue \<and>
   reserve_response_decode msgpack (reserve_response_encode msgpack demo_reserved) = Inr demo_reserved"
proof -
  have "enqueue_request_ok str_ok demo_enqueue" "reserve_request_ok str_ok demo_reserve" "fenced_request_ok str_ok demo_fenced"
    "release_request_ok str_ok demo_release" "vec_ok reserved_job_ok (rs_jobs demo_reserved)" "queue_stats_ok (rs_stats demo_reserved)"
    by (simp_all add: enqueue_request_ok_def demo_enqueue_def reserve_request_ok_def demo_reserve_def fenced_request_ok_def
        demo_fenced_def release_request_ok_def demo_release_def demo_reserved_def str_ok_def byte_def handle_ok_def handle_len_ok_def
        QUEUE_HANDLE_MAX_BYTES_def common_ok_def enqueue_job_ok_def count_ok_def QUEUE_ENQUEUE_MAX_JOBS_def QUEUE_RESERVE_MAX_QUEUES_def
        vec_ok_def reserved_job_ok_def queue_stats_ok_def U64_WIRE_BOUND_def)
  from queue_messages_round_trip [OF format.rmp_lib_axioms this, of "[]"] show ?thesis by blast
qed

end
