(* ===== verification/Spec2Isabelle.thy ===== *)
theory Spec2Isabelle
  imports
    Scan_Correct Rules Copy_Shape Redact_Correct
    Pool_Theorems Pool_Capacity
    Fate Tx_Begin Tx_Savepoint Tx_Registry Tx_Theorems
    Flow Frame Session
    Http_Address Http_Validate_Correct Http_Admission Http_Pool
    Placeholder Pg_Text_Correct Pg_Query My_Stream
    Messages_Queue
begin

text \<open>
  \<^bold>\<open>A verification of the Ferro daemon.\<close>

  Ferro is a daemon (\<open>ferrod\<close>) that keeps database connections for short-lived PHP workers. A worker
  speaks a framed protocol over a Unix socket; the daemon checks a pooled connection out, runs a
  statement or a whole transaction on it, and streams the result back. All Rust sources are under
  \<open>engine/crates/\<close>. The parts and how they use each other:

  \<^item> \<open>ferro-classify\<close>, the \<^emph>\<open>assist lexer\<close>, reads SQL text without parsing it: it splits batches, hides
    literals and comments, recognises statements that leave state on a connection, COPY statements,
    and computes the fingerprint that metrics and logs carry.
  \<^item> \<open>ferro-pool\<close> owns connections. It asks the lexer which statements \<^emph>\<open>pin\<close> a connection, keeps two
    reuse-safety bits per connection (a transaction may be open; session state may be changed), and
    cleans a connection at the next checkout accordingly. It is generic in a \<^emph>\<open>backend\<close>.
  \<^item> \<open>ferro-backend-*\<close> implement the backend on driver crates; their error maps turn driver errors
    into the protocol's codes.
  \<^item> \<open>ferrod/src/tx\<close> gives every transaction an actor that owns a checkout for its lifetime, a
    savepoint stack and deadlines, and a registry from transaction ids to actors.
  \<^item> \<open>ferro-proto\<close> and \<open>ferrod/src/session\<close> cut the byte stream into frames, route them, run each request
    in a supervised task, keep streams within the client's credit, and write one ordered stream back.
  \<^item> \<open>ferro-http\<close> is a client for declared HTTP upstreams: it validates a worker's request, admits it
    against the upstream's limits, refuses addresses the operator did not open, and tells the worker
    whether a failed request may be sent again.

  \<^bold>\<open>Theories.\<close> Paths are under \<open>engine/crates/\<close>.

  \<^item> \<open>Ferro_Prelude\<close>: bytes, strings and the part of Rust's standard library the crates use; the locale
    \<open>variant_loop\<close> for loops with a measure. \<open>Decimal\<close>: how unsigned integers are printed.
  \<^item> \<open>Scan\<close>, \<open>Scan_Correct\<close> (\<open>ferro-classify/src/scan.rs\<close>): the region scanner, as the loop over one
    state record the code has, and its invariant: hidden spans are ordered and disjoint, the masked
    copy is blank exactly there (the letter that begins an escape string stays visible), separators and identifiers are found exactly in visible
    code, splitting loses nothing.
  \<^item> \<open>Rules\<close> (\<open>lib.rs\<close>, \<open>rules.rs\<close>): \<open>classify\<close> with the rule chains of the three dialects; the
    precedence over a batch, the operator's escape hatch, what is never missed.
  \<^item> \<open>Copy_Shape\<close> (\<open>copy.rs\<close>): the COPY recogniser against a declarative shape.
  \<^item> \<open>Redact\<close>, \<open>Redact_Correct\<close> (\<open>redact.rs\<close>, \<open>fingerprint.rs\<close>): redaction spans and the fingerprint;
    it is bounded and independent of literals and comments.
  \<^item> \<open>Histogram\<close>, \<open>Pin\<close> (\<open>ferro-pool/src/histogram.rs\<close>, \<open>pin.rs\<close>): counters, pin causes, the pin slot, the
    classifier of transaction-control statements.
  \<^item> \<open>Pool_Backend\<close>, \<open>Pool\<close> (\<open>backend.rs\<close>, \<open>config.rs\<close>, \<open>error.rs\<close>, \<open>pool.rs\<close>, \<open>pool/copy.rs\<close>, \<open>health.rs\<close>):
    the pool's data and one definition per method. A backend is a record of operations on a world and
    a connection, with the time each call takes.
  \<^item> \<open>Pool_Runs\<close>: the step relation of a pool with several checkouts and open handles; its reachable
    states. \<open>Pool_Correct\<close>: what each method writes, whatever the backend.
  \<^item> \<open>Pool_Contract\<close>: the backend contract as the locales \<open>pull_stream\<close> and \<open>session_backend\<close>, and
    \<open>pooled_backend\<close>, in which the invariant of reachable states is proved once from its laws. The contract keeps a
    \<open>residue\<close> per connection, the statements whose effects may still be in its session; no law says that the lexer or
    the session tracker sees every change, so what a checkout promises is that nothing either of them reported
    is left. \<open>Fake\<close> (\<open>fake.rs\<close>): the repository's in-memory backend, on which the locales are interpreted. \<open>Pool_Theorems\<close>: the pool's properties.
  \<^item> \<open>Pool_Capacity\<close> (\<open>pool.rs\<close>, \<open>health.rs\<close>): the same checkout and reaper cut at their await points,
    under every interleaving and cancellation: permits, connections, capacity.
  \<^item> \<open>Fate\<close> (\<open>proto/registry.lock.json\<close>, the three \<open>error_map.rs\<close>, \<open>ferrod/src/services/fate.rs\<close>): codes and
    branches, and the matrix that tells a client whether to retry; the composition is specified over the
    drivers' own errors.
  \<^item> \<open>Tx_Begin\<close>, \<open>Tx_Savepoint\<close>, \<open>Tx_Actor\<close> (\<open>ferrod/src/tx/actor.rs\<close>), \<open>Tx_Registry\<close> (\<open>tx/mod.rs\<close>): the
    opening statement, the savepoint stack against the server's own savepoints (statements of the client that pass
    through included), the actor's loop with
    its deadlines, aborts and teardown, the table with its bounded tombstones. \<open>Tx_Theorems\<close> composes
    the actor with the pool: its whole life is a run of \<open>Pool_Runs\<close>, and over a backend that records what is sent
    (\<open>traced\<close>) the last statement, and no other, ends the transaction.
  \<^item> \<open>Flow\<close> (\<open>session/flow.rs\<close>): the credit window, the session cap, and the wait loop both use as the
    locale \<open>wait_loop\<close>, interpreted on each; no update is lost between a check and a wait: a parked producer that could go
    on does so by steps already due.
  \<^item> \<open>Frame\<close> (\<open>ferro-proto/src/header.rs\<close>, \<open>flags.rs\<close>, \<open>session/codec.rs\<close>, \<open>session/classify.rs\<close>): the wire
    format; decoding is exact and independent of how bytes arrive.
  \<^item> \<open>Session\<close> (\<open>session/mod.rs\<close>, \<open>registry.rs\<close>, \<open>supervisor.rs\<close>, \<open>dispatch.rs\<close>, \<open>admin.rs\<close>): reader, handler
    tasks, supervisors and writer as a step relation over one connection's state; every request ends
    exactly once and a terminal always has room.
  \<^item> \<open>Http_Address\<close> (\<open>ferro-http/src/address.rs\<close>): the classes of addresses and the policy over them; no
    policy reaches a refused range, directly or through a NAT64 prefix.
  \<^item> \<open>Http_Validate\<close>, \<open>Http_Validate_Correct\<close> (\<open>validate.rs\<close>, \<open>syntax.rs\<close>, \<open>attach.rs\<close>): what a request may be;
    an accepted target is confined to an allowed prefix under every reading of it, headers that are sent
    are harmless, and validation always answers.
  \<^item> \<open>Http_Fate\<close> (\<open>fate.rs\<close>): the table from how a request ended to what its caller is told.
  \<^item> \<open>Http_Breaker\<close>, \<open>Http_Rate\<close>, \<open>Http_Budget\<close>, \<open>Http_Admission\<close> (\<open>engine/limits.rs\<close>, \<open>engine/budget.rs\<close>, the
    admission part of \<open>run\<close> in \<open>engine/mod.rs\<close>): breaker, token bucket, body budgets, hold and gate, each
    under every interleaving of its users; a refused request leaves nothing behind.
  \<^item> \<open>Http_Pool\<close> (\<open>engine/pool.rs\<close>): idle connections of one sub-pool (an upstream, or an upstream and uid),
    when one is reused, and the limits on connections and dials under every interleaving; a request that waits is woken.
  \<^item> \<open>Placeholder\<close> (\<open>ferro-backend-pg/src/placeholder.rs\<close>): the rewriting of \<open>?\<close> to \<open>$n\<close> against
    PostgreSQL's token grammar, escape strings included (where the two differ is a finding), and the cache before it.
  \<^item> \<open>Utf8\<close>, \<open>Calendar\<close>, \<open>Pg_Text\<close>, \<open>Pg_Text_Correct\<close> (\<open>ferro-backend-pg/src/pgtext.rs\<close>): the canonical texts of
    binary values; the calendar is the Gregorian one, a numeric's text is its value, no two temporal
    payloads share a text.
  \<^item> \<open>Floats\<close>, \<open>Values\<close> (\<open>ferro-proto/src/value.rs\<close>): the cells of a result and the parameters of a statement, with
    the conversions between floating-point widths the adapters use.
  \<^item> \<open>Pg_Bind\<close>, \<open>Pg_Row\<close>, \<open>Pg_Query\<close> (\<open>ferro-backend-pg/src/bind.rs\<close>, \<open>rowmap.rs\<close>, \<open>query.rs\<close>): the check of a
    parameter before it is sent and the conversion inside the driver, the column classifier and cell extraction, the
    buffered and the streamed query. The check is never looser than the conversion, so a refusal has a known fate;
    rows have the shape their header promises; a value of a type that is also bound can be bound again.
  \<^item> \<open>My_Text\<close>, \<open>My_Bind\<close>, \<open>My_Row\<close>, \<open>My_Query\<close>, \<open>My_Stream\<close> (\<open>ferro-backend-mysql/src/mytext.rs\<close>, \<open>bind.rs\<close>,
    \<open>rowmap.rs\<close>, \<open>tracker.rs\<close>, \<open>query.rs\<close>, \<open>conn.rs\<close>, \<open>stream.rs\<close>): the same for MySQL, and the instance of the pool's
    backend, whose streams take the driver's handle out of the connection: over a driver that keeps the laws listed
    there it keeps the locale \<open>session_backend\<close>.

  \<^item> \<open>Bytes\<close>, \<open>Msgpack\<close>, \<open>Msgpack_Format\<close>: strings and bytes; the MessagePack library the codecs call as a record with the
    laws its documentation states (locale \<open>rmp_lib\<close>), and the format itself as an instance of it. \<open>Messages\<close>,
    \<open>Messages_Sql\<close>, \<open>Messages_Http\<close>, \<open>Messages_Queue\<close> (\<open>ferro-proto/src/value.rs\<close>, \<open>messages.rs\<close>, \<open>messages/\<close>): every message with
    its encoder and decoder. A struct whose codec is derived is an interpretation of \<open>derived_message\<close>. What is sent is
    what arrives, and what a decoder lets through is well formed and no larger than the payload.

  \<^bold>\<open>Modelling choices.\<close>

  \<^item> A string is its UTF-8 bytes. Integers that can wrap are words of their width; lengths and indices
    into memory are naturals. The Unicode table behind \<open>char::is_alphanumeric\<close> is a parameter.
  \<^item> A duration is a natural number of microseconds, an instant is the pool's clock. A timer is idealised: it fires at
    its instant, without latency, and a race between a timer and a result is decided as the \<open>biased\<close> select decides it.
    One pull of a stream takes at least one microsecond when a budgeted drain counts pulls, so the
    drain ends; this is the only place where time is a measure.
  \<^item> A method of a checkout runs without interruption, since the borrow checker forbids any other use of
    it, except that the actor may cancel a rollback by its own timer. Between methods the world changes
    in any way. \<open>Pool_Capacity\<close> is the model in which a task may be cancelled at every await.
  \<^item> A failed call is a value of a sum type with the error of the source; a panic is a value of the
    task's state (\<open>Session\<close>), a \<open>None\<close> (\<open>Histogram\<close>) or a distinguished error (\<open>driver_panic\<close> of \<open>My_Query\<close>).
  \<^item> \<open>tokio::sync::Notify\<close> and \<open>mpsc\<close> are modelled by what their documentation promises: a permit that
    \<open>notify_one\<close> stores, waiters registered by \<open>enable\<close> that \<open>notify_waiters\<close> wakes, a bounded queue in
    order.
  \<^item> An out-of-band cancel is a function of the world with the time it takes; in \<open>Session\<close> the decoders
    of the core messages are functions of the payload.
  \<^item> Every loop is a total function: structural, or with a measure (\<open>variant_loop\<close>, the codec's
    \<open>drain\<close>). No definition takes fuel.

  \<^item> The driver crates of PostgreSQL and MySQL are records of functions on a world and a connection; a property that
    relies on what they promise says so in a hypothesis.

  \<^bold>\<open>Not modelled.\<close> Of the driver adapters: dialling, TLS, cancel handles, describe, PostgreSQL's COPY calls and the
  whole SQLite adapter, which are calls into driver crates that are not part of the repository. In the session the
  handshake, file-descriptor passing, liveness probing and tracing are left out; in the transaction actor the streamed
  statement and the COPY commands. The services that fill requests (\<open>ferrod/src/services\<close>), the queue's SQL
  (\<open>ferro-queue\<close>), the HTTP client's connections and exchanges (\<open>hyper\<close>, \<open>h2\<close> and \<open>rustls\<close> do the work), configuration,
  metrics export and the command line are not modelled.
\<close>

end
